(* ===== verification/JS_Prelude.thy ===== *)
theory JS_Prelude
  imports Main "HOL-Library.Word"
begin

unbundle bit_operations_syntax

text \<open>
  The part of JavaScript that the sources use, shared by every component.

  \<^item> Numbers: every \<open>number\<close> of the modelled code is an integer in the safe range, kept as
    \<open>int\<close>; the bitwise operators first truncate their operands to 32-bit two's complement
    (\<open>toInt32\<close>), exactly as the language does.
  \<^item> Buffers: a \<open>Uint8Array\<close>, \<open>ArrayBuffer\<close> or \<open>DataView\<close> is a list of \<open>8 word\<close>;
    \<open>slice\<close> uses relative (possibly negative) indices, \<open>set\<close> raises \<open>RangeError\<close>.
  \<^item> Strings: lists of UTF-16 code units (\<open>16 word\<close>); \<open>TextEncoder\<close> and \<open>TextDecoder\<close> are
    the UTF-8 encoder and decoder of the Encoding standard.
  \<^item> Exceptions: values of \<open>js_error + 'a\<close>, sequenced by \<open>bindr\<close>.
\<close>

named_theorems js_simps \<open>evaluation of the JavaScript operators\<close>

section \<open>Exceptions\<close>

datatype js_error = RangeError | TypeError | Thrown string | Blocked

text \<open>\<open>Blocked\<close> is no exception: the computation awaits a promise that nothing has settled yet.\<close>

type_synonym 'a result = "js_error + 'a"

fun bindr :: "'a result \<Rightarrow> ('a \<Rightarrow> 'b result) \<Rightarrow> 'b result" where
  "bindr (Inl e) f = Inl e"
| "bindr (Inr x) f = f x"

lemma bindr_eq_Inr_iff: "bindr m f = Inr y \<longleftrightarrow> (\<exists>x. m = Inr x \<and> f x = Inr y)"
  by (cases m) auto

lemma bindr_eq_Inl_iff: "bindr m f = Inl e \<longleftrightarrow> m = Inl e \<or> (\<exists>x. m = Inr x \<and> f x = Inl e)"
  by (cases m) auto

lemma bindr_assoc: "bindr (bindr m f) g = bindr m (\<lambda>x. bindr (f x) g)"
  by (cases m) auto

section \<open>32-bit operators\<close>

definition toInt32 :: "int \<Rightarrow> int" where
  "toInt32 x = signed_take_bit 31 x"

definition js_and :: "int \<Rightarrow> int \<Rightarrow> int" where
  "js_and a b = toInt32 a AND toInt32 b"

definition js_or :: "int \<Rightarrow> int \<Rightarrow> int" where
  "js_or a b = toInt32 a OR toInt32 b"

text \<open>The shift count is taken modulo 32.\<close>

definition js_shl :: "int \<Rightarrow> int \<Rightarrow> int" where
  "js_shl a n = toInt32 (push_bit (nat (n mod 32)) (toInt32 a))"

definition js_sar :: "int \<Rightarrow> int \<Rightarrow> int" where
  "js_sar a n = drop_bit (nat (n mod 32)) (toInt32 a)"

text \<open>\<open>x >>> 0\<close>: the unsigned reading of the low 32 bits.\<close>

definition js_ushr0 :: "int \<Rightarrow> int" where
  "js_ushr0 a = take_bit 32 a"

lemma toInt32_id: "- (2 ^ 31) \<le> x \<Longrightarrow> x < 2 ^ 31 \<Longrightarrow> toInt32 x = x"
  by (simp add: toInt32_def signed_take_bit_int_eq_self)

lemma toInt32_nonneg [simp]: "0 \<le> x \<Longrightarrow> x < 2147483648 \<Longrightarrow> toInt32 x = x"
  by (rule toInt32_id) auto

lemma toInt32_range: "- (2 ^ 31) \<le> toInt32 x \<and> toInt32 x < 2 ^ 31"
  using signed_take_bit_int_greater_eq_minus_exp [of 31 x]
    signed_take_bit_int_less_exp [of 31 x]
  by (simp add: toInt32_def)

lemma js_and_127 [js_simps]: "0 \<le> x \<Longrightarrow> x < 2147483648 \<Longrightarrow> js_and x 127 = x mod 128"
  using take_bit_eq_mask [of 7 x] by (simp add: js_and_def mask_eq_exp_minus_1 take_bit_eq_mod)

lemma js_sar_7 [js_simps]: "0 \<le> x \<Longrightarrow> x < 2147483648 \<Longrightarrow> js_sar x 7 = x div 128"
  by (simp add: js_sar_def drop_bit_eq_div)

text \<open>Bits that do not overlap are added by \<open>|\<close>.\<close>

lemma or_disjoint_add:
  fixes a b :: int
  assumes "0 \<le> a" "a < 2 ^ n"
  shows "a OR (b * 2 ^ n) = a + b * 2 ^ n"
proof -
  have "a AND (b * 2 ^ n) = 0"
  proof (rule bit_eqI)
    fix m
    have "\<not> bit a m" if "n \<le> m"
      using assms that
      by (metis bit_take_bit_iff leD take_bit_int_eq_self)
    moreover have "\<not> bit (b * 2 ^ n) m" if "\<not> n \<le> m"
      using that by (simp flip: push_bit_eq_mult add: bit_push_bit_iff)
    ultimately show "bit (a AND b * 2 ^ n) m = bit 0 m"
      by (auto simp: bit_and_iff)
  qed
  then show ?thesis
    by (metis add.commute add.right_neutral plus_and_or)
qed

lemma js_or_128 [js_simps]: "0 \<le> b \<Longrightarrow> b < 128 \<Longrightarrow> js_or b 128 = b + 128"
  using or_disjoint_add [of b 7 1] by (simp add: js_or_def)

lemma and_exp_int: "(x :: int) AND 2 ^ k = (if bit x k then 2 ^ k else 0)"
  by (rule bit_eqI) (auto simp: bit_and_iff bit_exp_iff)

lemma js_and_128_byte [js_simps]:
  assumes "0 \<le> x" "x < 256"
  shows "js_and x 128 = (if x < 128 then 0 else 128)"
proof -
  have "x div 128 = (if x < 128 then 0 else 1)" using assms by auto
  then have "bit x 7 \<longleftrightarrow> 128 \<le> x" by (simp add: bit_iff_odd)
  then show ?thesis using assms and_exp_int [of x 7] by (simp add: js_and_def)
qed

lemma js_shl_small [js_simps]:
  assumes "0 \<le> r" "0 \<le> n" "n < 32" "r * 2 ^ nat n < 2147483648"
  shows "js_shl r n = r * 2 ^ nat n"
proof -
  have "r \<le> r * 2 ^ nat n"
    using assms(1) by (simp add: mult_le_cancel_left1)
  then show ?thesis
    using assms by (simp add: js_shl_def push_bit_eq_mult)
qed

lemma js_or_disjoint:
  assumes "0 \<le> a" "a < 2 ^ n" "0 \<le> b" "a + b * 2 ^ n < 2147483648"
  shows "js_or a (b * 2 ^ n) = a + b * 2 ^ n"
proof -
  have "0 \<le> b * 2 ^ n" using assms(3) by simp
  then have "a < 2147483648" "b * 2 ^ n < 2147483648" using assms by linarith+
  then have "toInt32 a = a" "toInt32 (b * 2 ^ n) = b * 2 ^ n"
    using assms(1) \<open>0 \<le> b * 2 ^ n\<close> by (blast intro: toInt32_nonneg)+
  then show ?thesis
    using or_disjoint_add [OF assms(1,2)] by (simp only: js_or_def)
qed

section \<open>Buffers\<close>

type_synonym byte = "8 word"
type_synonym bytes = "byte list"

text \<open>
  \<open>slice(b, e)\<close>: a negative index counts from the end, both are clamped to the length.
\<close>

definition rel_idx :: "int \<Rightarrow> nat \<Rightarrow> nat" where
  "rel_idx i n = (if i < 0 then nat (int n + i) else min (nat i) n)"

definition js_slice :: "'a list \<Rightarrow> int \<Rightarrow> int \<Rightarrow> 'a list" where
  "js_slice xs b e = take (rel_idx e (length xs) - rel_idx b (length xs)) (drop (rel_idx b (length xs)) xs)"

definition js_slice_from :: "'a list \<Rightarrow> int \<Rightarrow> 'a list" where
  "js_slice_from xs b = drop (rel_idx b (length xs)) xs"

lemma js_slice_from_append [simp]:
  "i = int (length xs) \<Longrightarrow> js_slice_from (xs @ ys) i = ys"
  by (simp add: js_slice_from_def rel_idx_def)

lemma js_slice_from_Cons1 [simp]: "js_slice_from (x # xs) 1 = xs"
  by (simp add: js_slice_from_def rel_idx_def)

lemma js_slice_0_append [simp]:
  "i = int (length xs) \<Longrightarrow> js_slice (xs @ ys) 0 i = xs"
  by (simp add: js_slice_def rel_idx_def)

lemma js_slice_mid [simp]:
  "i = int (length xs) \<Longrightarrow> j = i + int (length ys) \<Longrightarrow> js_slice (xs @ ys @ zs) i j = ys"
  by (simp add: js_slice_def rel_idx_def nat_add_distrib)

lemma js_slice_mid_end [simp]:
  "i = int (length xs) \<Longrightarrow> j = i + int (length ys) \<Longrightarrow> js_slice (xs @ ys) i j = ys"
  using js_slice_mid [of i xs j ys "[]"] by simp

lemma length_js_slice_0: "0 \<le> k \<Longrightarrow> length (js_slice xs 0 k) = min (nat k) (length xs)"
  by (simp add: js_slice_def rel_idx_def)

text \<open>\<open>dst.set(src, off)\<close> on a typed array.\<close>

definition ta_set :: "'a list \<Rightarrow> 'a list \<Rightarrow> nat \<Rightarrow> 'a list result" where
  "ta_set dst src off =
     (if off + length src \<le> length dst
      then Inr (take off dst @ src @ drop (off + length src) dst) else Inl RangeError)"

text \<open>
  The merge idiom of the sources: a zeroed array of the summed length, then one \<open>set\<close> per part
  at the running offset.
\<close>

fun set_all :: "bytes \<Rightarrow> nat \<Rightarrow> bytes list \<Rightarrow> bytes result" where
  "set_all dst off [] = Inr dst"
| "set_all dst off (p # ps) = bindr (ta_set dst p off) (\<lambda>dst'. set_all dst' (off + length p) ps)"

definition merge_parts :: "bytes list \<Rightarrow> bytes result" where
  "merge_parts ps = set_all (replicate (sum_list (map length ps)) 0) 0 ps"

lemma set_all_fills:
  "sum_list (map length ps) = n \<Longrightarrow>
   set_all (pre @ replicate n 0) (length pre) ps = Inr (pre @ concat ps)"
proof (induction ps arbitrary: pre n)
  case Nil
  then show ?case by simp
next
  case (Cons p ps)
  then have n: "n = length p + sum_list (map length ps)" by simp
  have "ta_set (pre @ replicate n 0) p (length pre)
      = Inr ((pre @ p) @ replicate (sum_list (map length ps)) 0)"
    by (simp add: ta_set_def n)
  with Cons.IH [of "sum_list (map length ps)" "pre @ p"] show ?case by simp
qed

lemma merge_parts_eq [simp]: "merge_parts ps = Inr (concat ps)"
  using set_all_fills [of ps _ "[]"] by (simp add: merge_parts_def)

section \<open>Sorting\<close>

text \<open>\<open>Array.prototype.sort\<close> is stable, as \<open>sort_key\<close> is.\<close>

lemma map_insort_key: "map f (insort_key (k \<circ> f) x xs) = insort_key k (f x) (map f xs)"
  by (induction xs) simp_all

lemma map_sort_key: "map f (sort_key (k \<circ> f) xs) = sort_key k (map f xs)"
  by (induction xs) (simp_all add: map_insort_key [unfolded comp_def])

lemma sum_insort_key: "sum_list (map f (insort_key k x xs)) = (f x + sum_list (map f xs) :: int)"
  by (induction xs) simp_all

lemma sum_sort_key: "sum_list (map f (sort_key k xs)) = (sum_list (map f xs) :: int)"
  by (induction xs) (simp_all add: sum_insort_key)

section \<open>Strings\<close>

type_synonym cunit = "16 word"
type_synonym jsstring = "cunit list"

definition js :: "string \<Rightarrow> jsstring" where
  "js s = map of_char s"

definition js_startsWith :: "jsstring \<Rightarrow> jsstring \<Rightarrow> bool" where
  "js_startsWith s p = (take (length p) s = p)"

definition js_substring_from :: "jsstring \<Rightarrow> nat \<Rightarrow> jsstring" where
  "js_substring_from s n = drop n s"

text \<open>The decimal notation of an integer.\<close>

fun nat_digits :: "nat \<Rightarrow> jsstring" where
  "nat_digits n = (if n < 10 then [of_nat (48 + n)] else nat_digits (n div 10) @ [of_nat (48 + n mod 10)])"

declare nat_digits.simps [simp del]

definition js_num :: "int \<Rightarrow> jsstring" where
  "js_num i = (if i < 0 then js ''-'' @ nat_digits (nat (- i)) else nat_digits (nat i))"

lemma js_startsWith_append [simp]: "js_startsWith (p @ s) p"
  by (simp add: js_startsWith_def)

lemma js_append: "js (s @ t) = js s @ js t"
  by (simp add: js_def)

lemma length_js [simp]: "length (js s) = length s"
  by (simp add: js_def)

lemma inj_of_char_cunit: "inj (of_char :: char \<Rightarrow> cunit)"
proof (rule injI)
  fix c d :: char
  assume "(of_char c :: cunit) = of_char d"
  then have "unat (of_nat (of_char c) :: cunit) = unat (of_nat (of_char d) :: cunit)"
    by (simp add: of_nat_of_char)
  moreover have "(of_char c :: nat) < 256" "(of_char d :: nat) < 256" by simp_all
  ultimately have "(of_char c :: nat) = of_char d"
    by (simp add: unat_of_nat take_bit_eq_mod)
  then show "c = d" by simp
qed

lemma js_eq_iff: "js s = js t \<longleftrightarrow> s = t"
  using inj_map_eq_map [OF inj_of_char_cunit] by (simp add: js_def)

text \<open>Prefix tests against literals reduce to the literals.\<close>

lemma js_take: "take n (js a) = js (take n a)"
  by (simp add: js_def take_map)

lemma js_drop: "drop n (js a) = js (drop n a)"
  by (simp add: js_def drop_map)

lemma js_startsWith_lit:
  "length b \<le> length a \<Longrightarrow> js_startsWith (js a @ s) (js b) \<longleftrightarrow> take (length b) a = b"
  by (simp add: js_startsWith_def js_take js_eq_iff)

lemma js_startsWith_lit_longer:
  assumes "length a < length b" "take (length a) b \<noteq> a"
  shows "\<not> js_startsWith (js a @ s) (js b)"
proof
  assume "js_startsWith (js a @ s) (js b)"
  then have "take (length a) (take (length b) (js a @ s)) = take (length a) (js b)"
    by (simp add: js_startsWith_def)
  then have "js a = js (take (length a) b)" using assms(1) by (simp add: js_take min_def)
  with assms(2) show False by (simp add: js_eq_iff)
qed

lemma js_substring_from_lit:
  "n \<le> length a \<Longrightarrow> js_substring_from (js a @ s) n = js (drop n a) @ s"
  by (simp add: js_substring_from_def js_def drop_map)

lemma js_startsWith_short: "length a < length b \<Longrightarrow> \<not> js_startsWith (js a) (js b)"
  by (auto simp: js_startsWith_def dest: arg_cong [where f = length])

lemmas js_lit = js_startsWith_lit js_startsWith_lit_longer js_substring_from_lit
  js_startsWith_lit [where s = "[]", simplified] js_startsWith_short
  js_substring_from_lit [where s = "[]", simplified]

end
