(* ===== verification/JS_Text.thy ===== *)
theory JS_Text
  imports JS_Prelude
begin

text \<open>
  \<open>TextEncoder.encode\<close> and \<open>TextDecoder.decode\<close> as the sources use them: UTF-8, replacement of
  ill-formed input by U+FFFD, and a leading byte order mark dropped by the decoder.
\<close>

section \<open>TextEncoder\<close>

text \<open>Code units to scalar values: surrogate pairs are joined, lone surrogates replaced.\<close>

fun scalars :: "jsstring \<Rightarrow> nat list" where
  "scalars [] = []"
| "scalars [u] = [if 0xD800 \<le> unat u \<and> unat u \<le> 0xDFFF then 0xFFFD else unat u]"
| "scalars (u # v # us) =
     (if 0xD800 \<le> unat u \<and> unat u \<le> 0xDBFF \<and> 0xDC00 \<le> unat v \<and> unat v \<le> 0xDFFF
      then (0x10000 + (unat u - 0xD800) * 0x400 + (unat v - 0xDC00)) # scalars us
      else (if 0xD800 \<le> unat u \<and> unat u \<le> 0xDFFF then 0xFFFD else unat u) # scalars (v # us))"

definition utf8_bytes :: "nat \<Rightarrow> bytes" where
  "utf8_bytes c =
     (if c < 0x80 then [of_nat c]
      else if c < 0x800 then [of_nat (0xC0 + c div 64), of_nat (0x80 + c mod 64)]
      else if c < 0x10000 then
        [of_nat (0xE0 + c div 4096), of_nat (0x80 + c div 64 mod 64), of_nat (0x80 + c mod 64)]
      else [of_nat (0xF0 + c div 262144), of_nat (0x80 + c div 4096 mod 64),
            of_nat (0x80 + c div 64 mod 64), of_nat (0x80 + c mod 64)])"

definition text_encode :: "jsstring \<Rightarrow> bytes" where
  "text_encode s = concat (map utf8_bytes (scalars s))"

section \<open>TextDecoder\<close>

text \<open>
  The decoder's state between two bytes: the code point so far, how many continuation bytes are
  missing, and the range the next one must lie in.
\<close>

record dec_state =
  cp :: nat
  missing :: nat
  lower :: nat
  upper :: nat

definition dec_idle :: dec_state where
  "dec_idle = \<lparr>cp = 0, missing = 0, lower = 0x80, upper = 0xBF\<rparr>"

text \<open>A byte read while no sequence is open.\<close>

definition dec_start :: "nat \<Rightarrow> dec_state \<times> nat list" where
  "dec_start b =
     (if b < 0x80 then (dec_idle, [b])
      else if 0xC2 \<le> b \<and> b \<le> 0xDF then (dec_idle\<lparr>cp := b - 0xC0, missing := 1\<rparr>, [])
      else if 0xE0 \<le> b \<and> b \<le> 0xEF then
        (\<lparr>cp = b - 0xE0, missing = 2, lower = (if b = 0xE0 then 0xA0 else 0x80),
          upper = (if b = 0xED then 0x9F else 0xBF)\<rparr>, [])
      else if 0xF0 \<le> b \<and> b \<le> 0xF4 then
        (\<lparr>cp = b - 0xF0, missing = 3, lower = (if b = 0xF0 then 0x90 else 0x80),
          upper = (if b = 0xF4 then 0x8F else 0xBF)\<rparr>, [])
      else (dec_idle, [0xFFFD]))"

definition dec_byte :: "dec_state \<Rightarrow> nat \<Rightarrow> dec_state \<times> nat list" where
  "dec_byte st b =
     (if missing st = 0 then dec_start b
      else if lower st \<le> b \<and> b \<le> upper st then
        (let c = cp st * 64 + (b - 0x80)
         in if missing st = 1 then (dec_idle, [c])
            else (\<lparr>cp = c, missing = missing st - 1, lower = 0x80, upper = 0xBF\<rparr>, []))
      else (let (st', out) = dec_start b in (st', 0xFFFD # out)))"

fun dec_run :: "dec_state \<Rightarrow> nat list \<Rightarrow> nat list" where
  "dec_run st [] = (if missing st = 0 then [] else [0xFFFD])"
| "dec_run st (b # bs) = (let (st', out) = dec_byte st b in out @ dec_run st' bs)"

definition units_of :: "nat \<Rightarrow> jsstring" where
  "units_of c =
     (if c < 0x10000 then [of_nat c]
      else [of_nat (0xD800 + (c - 0x10000) div 0x400), of_nat (0xDC00 + (c - 0x10000) mod 0x400)])"

definition drop_bom :: "nat list \<Rightarrow> nat list" where
  "drop_bom cs = (case cs of c # cs' \<Rightarrow> if c = 0xFEFF then cs' else cs | [] \<Rightarrow> [])"

definition text_decode :: "bytes \<Rightarrow> jsstring" where
  "text_decode bs = concat (map units_of (drop_bom (dec_run dec_idle (map unat bs))))"

section \<open>ASCII text\<close>

definition ascii :: "jsstring \<Rightarrow> bool" where
  "ascii s \<longleftrightarrow> (\<forall>u \<in> set s. unat u < 0x80)"

lemma ascii_simps [simp]:
  "ascii []" "ascii (u # s) \<longleftrightarrow> unat u < 0x80 \<and> ascii s" "ascii (s @ t) \<longleftrightarrow> ascii s \<and> ascii t"
  by (auto simp: ascii_def)

lemma scalars_ascii: "ascii s \<Longrightarrow> scalars s = map unat s"
  by (induction s rule: scalars.induct) auto

lemma text_encode_ascii: "ascii s \<Longrightarrow> text_encode s = map ucast s"
proof -
  assume a: "ascii s"
  then have "concat (map utf8_bytes (map unat s)) = map ucast s"
    by (induction s) (auto simp: utf8_bytes_def)
  with a show ?thesis by (simp add: text_encode_def scalars_ascii)
qed

lemma length_text_encode_ascii [simp]: "ascii s \<Longrightarrow> length (text_encode s) = length s"
  by (simp add: text_encode_ascii)

lemma text_decode_ascii:
  assumes "ascii s"
  shows "text_decode (text_encode s) = s"
proof -
  have unat8: "unat (ucast u :: byte) = unat u" if "unat u < 128" for u :: cunit
    using that by (simp add: unsigned_ucast_eq take_bit_nat_eq_self)
  have narrow: "map unat (map ucast s :: bytes) = map unat s"
    using assms by (induction s) (auto simp: unat8)
  have step: "dec_byte dec_idle c = (dec_idle, [c])" if "c < 128" for c
    using that by (simp add: dec_byte_def dec_start_def dec_idle_def)
  have run: "dec_run dec_idle (map unat s) = map unat s"
    using assms by (induction s) (auto simp: step, simp add: dec_idle_def)
  have units: "concat (map units_of (map unat s)) = s"
    using assms by (induction s) (auto simp: units_of_def)
  have bom: "drop_bom (map unat s) = map unat s"
    using assms by (auto simp: drop_bom_def split: list.splits)
  show ?thesis
    by (simp only: text_decode_def text_encode_ascii [OF assms] narrow run bom units)
qed

text \<open>Every code unit costs at least one byte, and exactly one only when it is ASCII.\<close>

lemma length_utf8_bytes: "length (utf8_bytes c) \<ge> 1" "c \<ge> 0x80 \<Longrightarrow> length (utf8_bytes c) \<ge> 2"
  "c \<ge> 0x10000 \<Longrightarrow> length (utf8_bytes c) = 4"
  by (auto simp: utf8_bytes_def)

lemma length_text_encode: "length s \<le> length (text_encode s) \<and>
    (length (text_encode s) = length s \<longrightarrow> ascii s)"
proof (induction s rule: scalars.induct)
  case 1
  show ?case by (simp add: text_encode_def)
next
  case (2 u)
  show ?case
    using length_utf8_bytes [of "unat u"] by (auto simp: text_encode_def utf8_bytes_def)
next
  case (3 u v us)
  show ?case
  proof (cases "0xD800 \<le> unat u \<and> unat u \<le> 0xDBFF \<and> 0xDC00 \<le> unat v \<and> unat v \<le> 0xDFFF")
    case True
    with 3 length_utf8_bytes(3) [of "0x10000 + (unat u - 0xD800) * 0x400 + (unat v - 0xDC00)"]
    show ?thesis by (simp add: text_encode_def)
  next
    case False
    define c where "c = (if 0xD800 \<le> unat u \<and> unat u \<le> 0xDFFF then 0xFFFD else unat u)"
    have enc: "text_encode (u # v # us) = utf8_bytes c @ text_encode (v # us)"
      using False by (auto simp: text_encode_def c_def)
    have "unat u < 0x80" if "length (utf8_bytes c) = 1"
    proof -
      have "c < 0x80" using that length_utf8_bytes(2) [of c] by (cases "c < 0x80") auto
      then show ?thesis by (simp add: c_def split: if_splits)
    qed
    moreover have ih: "length (v # us) \<le> length (text_encode (v # us))"
      "length (text_encode (v # us)) = length (v # us) \<Longrightarrow> ascii (v # us)"
      using 3(2) [OF False] by blast+
    moreover have ge: "1 \<le> length (utf8_bytes c)" by (rule length_utf8_bytes)
    moreover have "length (utf8_bytes c) = 1 \<and> length (text_encode (v # us)) = length (v # us)"
      if "length (text_encode (u # v # us)) = length (u # v # us)"
    proof -
      have "length (utf8_bytes c) + length (text_encode (v # us)) = 1 + length (v # us)"
        using that by (simp only: enc length_append list.size)
      with ih(1) ge show ?thesis by linarith
    qed
    ultimately have "length (text_encode (u # v # us)) = length (u # v # us) \<longrightarrow> ascii (u # v # us)"
      unfolding ascii_simps(2) [of u] by blast
    moreover have "length (u # v # us) \<le> length (text_encode (u # v # us))"
      using ih(1) ge by (simp only: enc length_append list.size)
    ultimately show ?thesis by blast
  qed
qed

lemma length_text_encode_eq_iff: "length (text_encode s) = length s \<longleftrightarrow> ascii s"
  using length_text_encode [of s] by auto

end
