(* ===== verification/Hdc_Message.thy ===== *)
theory Hdc_Message
  imports JS_Text
begin

text \<open>
  The message beans of the HDC client (\<open>src/ide/src/hdc/message\<close>): constants, commands, the
  fixed-layout heads \<open>USBHead\<close> and \<open>PayloadHead\<close> with their byte codecs, and the beans that the
  tag/value serialiser handles. A bean's private fields with their getters and setters are the
  selectors and updates of its record.
\<close>

section \<open>Constants and commands\<close>

definition HANDSHAKE_MESSAGE :: jsstring where "HANDSHAKE_MESSAGE = js ''OHOS HDC''"
definition PACKET_FLAG :: jsstring where "PACKET_FLAG = js ''HW''"
definition USB_PACKET_FLAG :: jsstring where "USB_PACKET_FLAG = js ''UB''"
definition CMDSTR_SHELL :: jsstring where "CMDSTR_SHELL = js ''shell''"
definition CMDSTR_FILE_SEND :: jsstring where "CMDSTR_FILE_SEND = js ''file send''"
definition CMDSTR_FILE_RECV :: jsstring where "CMDSTR_FILE_RECV = js ''file recv''"

datatype WireType = VARINT | FIXED64 | LENGTH_DELIMETED | START_GROUP | END_GROUP | FIXED32

primrec WireType_num :: "WireType \<Rightarrow> int" where
  "WireType_num VARINT = 0"
| "WireType_num FIXED64 = 1"
| "WireType_num LENGTH_DELIMETED = 2"
| "WireType_num START_GROUP = 3"
| "WireType_num END_GROUP = 4"
| "WireType_num FIXED32 = 5"

datatype AuthType = AUTH_NONE | AUTH_TOKEN | AUTH_SIGNATURE | AUTH_PUBLICKEY | AUTH_OK

primrec AuthType_num :: "AuthType \<Rightarrow> int" where
  "AuthType_num AUTH_NONE = 0"
| "AuthType_num AUTH_TOKEN = 1"
| "AuthType_num AUTH_SIGNATURE = 2"
| "AuthType_num AUTH_PUBLICKEY = 3"
| "AuthType_num AUTH_OK = 4"

datatype UsbProtocolOption =
  USB_OPTION_HEADER | USB_OPTION_RESET | USB_OPTION_RESERVE4 | USB_OPTION_RESERVE8 | USB_OPTION_RESERVE16

primrec UsbProtocolOption_num :: "UsbProtocolOption \<Rightarrow> int" where
  "UsbProtocolOption_num USB_OPTION_HEADER = 1"
| "UsbProtocolOption_num USB_OPTION_RESET = 2"
| "UsbProtocolOption_num USB_OPTION_RESERVE4 = 4"
| "UsbProtocolOption_num USB_OPTION_RESERVE8 = 8"
| "UsbProtocolOption_num USB_OPTION_RESERVE16 = 16"

datatype HdcCommand =
  CMD_KERNEL_HELP | CMD_KERNEL_HANDSHAKE | CMD_KERNEL_CHANNEL_CLOSE | CMD_KERNEL_SERVER_KILL
| CMD_KERNEL_TARGET_DISCOVER | CMD_KERNEL_TARGET_LIST | CMD_KERNEL_TARGET_ANY
| CMD_KERNEL_TARGET_CONNECT | CMD_KERNEL_TARGET_DISCONNECT | CMD_KERNEL_ECHO
| CMD_KERNEL_ECHO_RAW | CMD_KERNEL_ENABLE_KEEPALIVE | CMD_KERNEL_WAKEUP_SLAVETASK
| CMD_UNITY_COMMAND_HEAD | CMD_UNITY_EXECUTE | CMD_UNITY_REMOUNT | CMD_UNITY_REBOOT
| CMD_UNITY_RUNMODE | CMD_UNITY_HILOG | CMD_UNITY_TERMINATE | CMD_UNITY_ROOTRUN
| CMD_JDWP_LIST | CMD_JDWP_TRACK | CMD_UNITY_COMMAND_TAIL
| CMD_UNITY_BUGREPORT_INIT | CMD_UNITY_BUGREPORT_DATA
| CMD_SHELL_INIT | CMD_SHELL_DATA
| CMD_FILE_INIT | CMD_FILE_CHECK | CMD_FILE_BEGIN | CMD_FILE_DATA | CMD_FILE_FINISH
| CMD_APP_SIDELOAD | CMD_APP_INIT | CMD_APP_CHECK | CMD_APP_BEGIN | CMD_APP_DATA
| CMD_APP_FINISH | CMD_APP_UNINSTALL

primrec HdcCommand_num :: "HdcCommand \<Rightarrow> int" where
  "HdcCommand_num CMD_KERNEL_HELP = 0"
| "HdcCommand_num CMD_KERNEL_HANDSHAKE = 1"
| "HdcCommand_num CMD_KERNEL_CHANNEL_CLOSE = 2"
| "HdcCommand_num CMD_KERNEL_SERVER_KILL = 3"
| "HdcCommand_num CMD_KERNEL_TARGET_DISCOVER = 4"
| "HdcCommand_num CMD_KERNEL_TARGET_LIST = 5"
| "HdcCommand_num CMD_KERNEL_TARGET_ANY = 6"
| "HdcCommand_num CMD_KERNEL_TARGET_CONNECT = 7"
| "HdcCommand_num CMD_KERNEL_TARGET_DISCONNECT = 8"
| "HdcCommand_num CMD_KERNEL_ECHO = 9"
| "HdcCommand_num CMD_KERNEL_ECHO_RAW = 10"
| "HdcCommand_num CMD_KERNEL_ENABLE_KEEPALIVE = 11"
| "HdcCommand_num CMD_KERNEL_WAKEUP_SLAVETASK = 12"
| "HdcCommand_num CMD_UNITY_COMMAND_HEAD = 1000"
| "HdcCommand_num CMD_UNITY_EXECUTE = 1001"
| "HdcCommand_num CMD_UNITY_REMOUNT = 1002"
| "HdcCommand_num CMD_UNITY_REBOOT = 1003"
| "HdcCommand_num CMD_UNITY_RUNMODE = 1004"
| "HdcCommand_num CMD_UNITY_HILOG = 1005"
| "HdcCommand_num CMD_UNITY_TERMINATE = 1006"
| "HdcCommand_num CMD_UNITY_ROOTRUN = 1007"
| "HdcCommand_num CMD_JDWP_LIST = 1008"
| "HdcCommand_num CMD_JDWP_TRACK = 1009"
| "HdcCommand_num CMD_UNITY_COMMAND_TAIL = 1010"
| "HdcCommand_num CMD_UNITY_BUGREPORT_INIT = 1011"
| "HdcCommand_num CMD_UNITY_BUGREPORT_DATA = 1012"
| "HdcCommand_num CMD_SHELL_INIT = 2000"
| "HdcCommand_num CMD_SHELL_DATA = 2001"
| "HdcCommand_num CMD_FILE_INIT = 3000"
| "HdcCommand_num CMD_FILE_CHECK = 3001"
| "HdcCommand_num CMD_FILE_BEGIN = 3002"
| "HdcCommand_num CMD_FILE_DATA = 3003"
| "HdcCommand_num CMD_FILE_FINISH = 3004"
| "HdcCommand_num CMD_APP_SIDELOAD = 3005"
| "HdcCommand_num CMD_APP_INIT = 3500"
| "HdcCommand_num CMD_APP_CHECK = 3501"
| "HdcCommand_num CMD_APP_BEGIN = 3502"
| "HdcCommand_num CMD_APP_DATA = 3503"
| "HdcCommand_num CMD_APP_FINISH = 3504"
| "HdcCommand_num CMD_APP_UNINSTALL = 3505"

lemma HdcCommand_num_range: "0 \<le> HdcCommand_num c \<and> HdcCommand_num c < 16384"
  by (cases c) simp_all

section \<open>DataView accessors (big endian)\<close>

definition be16 :: "int \<Rightarrow> bytes" where
  "be16 v = [word_of_int (v div 256), word_of_int v]"

definition be32 :: "int \<Rightarrow> bytes" where
  "be32 v = [word_of_int (v div 16777216), word_of_int (v div 65536), word_of_int (v div 256), word_of_int v]"

definition setUint8 :: "bytes \<Rightarrow> nat \<Rightarrow> int \<Rightarrow> bytes result" where
  "setUint8 bs off v = ta_set bs [word_of_int v] off"

definition setUint16 :: "bytes \<Rightarrow> nat \<Rightarrow> int \<Rightarrow> bytes result" where
  "setUint16 bs off v = ta_set bs (be16 v) off"

definition setUint32 :: "bytes \<Rightarrow> nat \<Rightarrow> int \<Rightarrow> bytes result" where
  "setUint32 bs off v = ta_set bs (be32 v) off"

definition be_val :: "bytes \<Rightarrow> int" where
  "be_val bs = foldl (\<lambda>a b. a * 256 + uint b) 0 bs"

definition getUint :: "nat \<Rightarrow> bytes \<Rightarrow> nat \<Rightarrow> int result" where
  "getUint k bs off =
     (if off + k \<le> length bs then Inr (be_val (take k (drop off bs))) else Inl RangeError)"

abbreviation getUint8 :: "bytes \<Rightarrow> nat \<Rightarrow> int result" where "getUint8 \<equiv> getUint 1"
abbreviation getUint16 :: "bytes \<Rightarrow> nat \<Rightarrow> int result" where "getUint16 \<equiv> getUint 2"
abbreviation getUint32 :: "bytes \<Rightarrow> nat \<Rightarrow> int result" where "getUint32 \<equiv> getUint 4"

text \<open>\<open>xs[i]\<close> on a number array; a missing entry is \<open>undefined\<close>, stored as 0 by the setters.\<close>

definition num_at :: "int list \<Rightarrow> nat \<Rightarrow> int" where
  "num_at xs i = (if i < length xs then xs ! i else 0)"

lemma be_val_be16: "be_val (be16 v) = v mod 65536"
  using zmod_zmult2_eq [of 256 v 256]
  by (simp add: be_val_def be16_def uint_word_of_int take_bit_eq_mod)

lemma be_val_be32: "be_val (be32 v) = v mod 4294967296"
proof -
  have "v mod 4294967296 = 65536 * (v div 65536 mod 65536) + v mod 65536"
    using zmod_zmult2_eq [of 65536 v 65536] by simp
  moreover have "v div 65536 mod 65536 = 256 * (v div 16777216 mod 256) + v div 65536 mod 256"
    using zmod_zmult2_eq [of 256 "v div 65536" 256] by (simp add: zdiv_zmult2_eq [symmetric])
  moreover have "v mod 65536 = 256 * (v div 256 mod 256) + v mod 256"
    using zmod_zmult2_eq [of 256 v 256] by simp
  moreover have "be_val (be32 v) = 16777216 * (v div 16777216 mod 256) + 65536 * (v div 65536 mod 256)
      + 256 * (v div 256 mod 256) + v mod 256"
    by (simp add: be_val_def be32_def uint_word_of_int take_bit_eq_mod)
  ultimately show ?thesis by linarith
qed

lemma be_val_single: "be_val [word_of_int v] = v mod 256"
  by (simp add: be_val_def uint_word_of_int take_bit_eq_mod)

lemma length_be [simp]: "length (be16 v) = 2" "length (be32 v) = 4"
  by (simp_all add: be16_def be32_def)

section \<open>USBHead\<close>

record USBHead =
  uh_flag :: "int list"
  uh_option :: int
  uh_sessionId :: int
  uh_dataSize :: int

definition getUSBHeadLength :: nat where "getUSBHeadLength = 11"

definition USBHead_getDataView :: "USBHead \<Rightarrow> bytes result" where
  "USBHead_getDataView h =
     bindr (setUint8 (replicate 11 0) 0 (num_at (uh_flag h) 0)) (\<lambda>v.
     bindr (setUint8 v 1 (num_at (uh_flag h) 1)) (\<lambda>v.
     bindr (setUint8 v 2 (uh_option h)) (\<lambda>v.
     bindr (setUint32 v 3 (uh_sessionId h)) (\<lambda>v.
     setUint32 v 7 (uh_dataSize h)))))"

definition parseHeadData :: "bytes \<Rightarrow> USBHead result" where
  "parseHeadData d =
     bindr (getUint8 d 0) (\<lambda>flagZero.
     bindr (getUint8 d 1) (\<lambda>flagOne.
     bindr (getUint8 d 2) (\<lambda>opt.
     bindr (getUint32 d 3) (\<lambda>sessionId.
     bindr (getUint32 d 7) (\<lambda>dataSize.
     Inr \<lparr>uh_flag = [flagZero, flagOne], uh_option = opt, uh_sessionId = sessionId,
       uh_dataSize = dataSize\<rparr>)))))"

section \<open>PayloadHead\<close>

record PayloadHead =
  ph_flag :: "int list"
  ph_reserve :: "int list"
  ph_protocolVer :: int
  ph_headSize :: int
  ph_dataSize :: int

definition getPayloadHeadLength :: int where "getPayloadHeadLength = 11"

definition PayloadHead_getDataView :: "PayloadHead \<Rightarrow> bytes result" where
  "PayloadHead_getDataView h =
     bindr (setUint8 (replicate 11 0) 0 (num_at (ph_flag h) 0)) (\<lambda>v.
     bindr (setUint8 v 1 (num_at (ph_flag h) 1)) (\<lambda>v.
     bindr (setUint8 v 2 (num_at (ph_reserve h) 0)) (\<lambda>v.
     bindr (setUint8 v 3 (num_at (ph_reserve h) 1)) (\<lambda>v.
     bindr (setUint8 v 4 (ph_protocolVer h)) (\<lambda>v.
     bindr (setUint16 v 5 (ph_headSize h)) (\<lambda>v.
     setUint32 v 7 (ph_dataSize h)))))))"

definition parsePlayHead :: "bytes \<Rightarrow> PayloadHead result" where
  "parsePlayHead d =
     bindr (getUint8 d 0) (\<lambda>flagZero.
     bindr (getUint8 d 1) (\<lambda>flagOne.
     bindr (getUint8 d 2) (\<lambda>reserveZero.
     bindr (getUint8 d 3) (\<lambda>reserveOne.
     bindr (getUint8 d 4) (\<lambda>protocolVer.
     bindr (getUint16 d 5) (\<lambda>headSize.
     bindr (if length d < 11 then Inr 0 else getUint32 d 7) (\<lambda>dataSize.
     Inr \<lparr>ph_flag = [flagZero, flagOne], ph_reserve = [reserveZero, reserveOne],
       ph_protocolVer = protocolVer, ph_headSize = headSize, ph_dataSize = dataSize\<rparr>)))))))"

section \<open>The beans of the serialiser\<close>

record PayloadProtect =
  pp_channelId :: int
  pp_commandFlag :: int
  pp_checkSum :: int
  pp_vCode :: int

record SessionHandShake =
  hs_banner :: jsstring
  hs_authType :: int
  hs_sessionId :: int
  hs_connectKey :: jsstring
  hs_buf :: jsstring
  hs_version :: jsstring

text \<open>The constructor leaves \<open>_version\<close> at its initial value.\<close>

definition mkSessionHandShake :: "jsstring \<Rightarrow> int \<Rightarrow> int \<Rightarrow> jsstring \<Rightarrow> jsstring \<Rightarrow> SessionHandShake" where
  "mkSessionHandShake banner authType sessionId connectKey buf =
     \<lparr>hs_banner = banner, hs_authType = authType, hs_sessionId = sessionId,
      hs_connectKey = connectKey, hs_buf = buf, hs_version = []\<rparr>"

record TransferConfig =
  tc_fileSize :: int
  tc_atime :: int
  tc_mtime :: int
  tc_options :: jsstring
  tc_path :: jsstring
  tc_optionalName :: jsstring
  tc_updateIfNew :: bool
  tc_compressType :: int
  tc_holdTimestamp :: bool
  tc_functionName :: jsstring
  tc_clientCwd :: jsstring
  tc_reserve1 :: jsstring
  tc_reserve2 :: jsstring

record TransferPayload =
  tp_index :: int
  tp_compressType :: int
  tp_compressSize :: int
  tp_uncompressSize :: int

section \<open>Byte layout of the heads\<close>

lemma USBHead_layout:
  "USBHead_getDataView h =
     Inr ([word_of_int (num_at (uh_flag h) 0), word_of_int (num_at (uh_flag h) 1),
           word_of_int (uh_option h)] @ be32 (uh_sessionId h) @ be32 (uh_dataSize h))"
  by (simp add: USBHead_getDataView_def setUint8_def setUint32_def ta_set_def be32_def
      eval_nat_numeral)

lemma PayloadHead_layout:
  "PayloadHead_getDataView h =
     Inr ([word_of_int (num_at (ph_flag h) 0), word_of_int (num_at (ph_flag h) 1),
           word_of_int (num_at (ph_reserve h) 0), word_of_int (num_at (ph_reserve h) 1),
           word_of_int (ph_protocolVer h)] @ be16 (ph_headSize h) @ be32 (ph_dataSize h))"
  by (simp add: PayloadHead_getDataView_def setUint8_def setUint16_def setUint32_def ta_set_def
      be16_def be32_def eval_nat_numeral)

definition USBHead_wf :: "USBHead \<Rightarrow> bool" where
  "USBHead_wf h \<longleftrightarrow> length (uh_flag h) = 2 \<and> (\<forall>x \<in> set (uh_flag h). 0 \<le> x \<and> x < 256)
     \<and> 0 \<le> uh_option h \<and> uh_option h < 256
     \<and> 0 \<le> uh_sessionId h \<and> uh_sessionId h < 2 ^ 32 \<and> 0 \<le> uh_dataSize h \<and> uh_dataSize h < 2 ^ 32"

definition PayloadHead_wf :: "PayloadHead \<Rightarrow> bool" where
  "PayloadHead_wf h \<longleftrightarrow> length (ph_flag h) = 2 \<and> (\<forall>x \<in> set (ph_flag h). 0 \<le> x \<and> x < 256)
     \<and> length (ph_reserve h) = 2 \<and> (\<forall>x \<in> set (ph_reserve h). 0 \<le> x \<and> x < 256)
     \<and> 0 \<le> ph_protocolVer h \<and> ph_protocolVer h < 256
     \<and> 0 \<le> ph_headSize h \<and> ph_headSize h < 2 ^ 16 \<and> 0 \<le> ph_dataSize h \<and> ph_dataSize h < 2 ^ 32"

lemma getUint_at: "length pre = off \<Longrightarrow> length mid = k \<Longrightarrow> getUint k (pre @ mid @ post) off = Inr (be_val mid)"
  by (simp add: getUint_def)

lemma getUint_at_end: "length pre = off \<Longrightarrow> length mid = k \<Longrightarrow> getUint k (pre @ mid) off = Inr (be_val mid)"
  by (simp add: getUint_def)

lemma parseHeadData_layout:
  "parseHeadData ([word_of_int f0, word_of_int f1, word_of_int opt] @ be32 sid @ be32 ds) =
     Inr \<lparr>uh_flag = [f0 mod 256, f1 mod 256], uh_option = opt mod 256,
          uh_sessionId = sid mod 2 ^ 32, uh_dataSize = ds mod 2 ^ 32\<rparr>"
  using getUint_at [of "[word_of_int f0, word_of_int f1, word_of_int opt]" 3 "be32 sid" 4 "be32 ds"]
    getUint_at_end [of "[word_of_int f0, word_of_int f1, word_of_int opt] @ be32 sid" 7 "be32 ds" 4]
  by (simp add: parseHeadData_def be_val_be32 getUint_def be_val_single)

lemma parsePlayHead_layout:
  "parsePlayHead ([word_of_int f0, word_of_int f1, word_of_int r0, word_of_int r1, word_of_int pv]
       @ be16 hsz @ be32 ds) =
     Inr \<lparr>ph_flag = [f0 mod 256, f1 mod 256], ph_reserve = [r0 mod 256, r1 mod 256],
          ph_protocolVer = pv mod 256, ph_headSize = hsz mod 2 ^ 16, ph_dataSize = ds mod 2 ^ 32\<rparr>"
  using getUint_at [of "[word_of_int f0, word_of_int f1, word_of_int r0, word_of_int r1, word_of_int pv]"
      5 "be16 hsz" 2 "be32 ds"]
    getUint_at_end [of "[word_of_int f0, word_of_int f1, word_of_int r0, word_of_int r1, word_of_int pv]
      @ be16 hsz" 7 "be32 ds" 4]
  by (simp add: parsePlayHead_def be_val_be32 be_val_be16 getUint_def be_val_single)

lemma parseHeadData_short: "length d < 11 \<Longrightarrow> parseHeadData d = Inl RangeError"
  by (auto simp: parseHeadData_def getUint_def)

section \<open>Properties of the heads\<close>

text \<open>A USB head whose fields are in range is written to exactly 11 bytes and parsed back unchanged;
  a buffer shorter than 11 bytes raises a RangeError.\<close>

theorem USBHead_roundtrip:
  assumes "USBHead_wf h"
  shows "\<exists>bs. USBHead_getDataView h = Inr bs \<and> length bs = 11 \<and> parseHeadData bs = Inr h
    \<and> (\<forall>d. length d < 11 \<longrightarrow> parseHeadData d = Inl RangeError)"
proof -
  obtain f0 f1 where "uh_flag h = [f0, f1]"
    using assms by (auto simp: USBHead_wf_def length_Suc_conv eval_nat_numeral)
  then show ?thesis
    using assms parseHeadData_layout [of f0 f1 "uh_option h" "uh_sessionId h" "uh_dataSize h"]
    by (cases h) (auto simp: USBHead_layout USBHead_wf_def num_at_def parseHeadData_short)
qed

theorem USBHead_roundtrip_witness:
  "\<exists>bs. USBHead_getDataView \<lparr>uh_flag = [85, 66], uh_option = 1, uh_sessionId = 4000000000, uh_dataSize = 300\<rparr> = Inr bs
    \<and> parseHeadData bs = Inr \<lparr>uh_flag = [85, 66], uh_option = 1, uh_sessionId = 4000000000, uh_dataSize = 300\<rparr>"
  using USBHead_roundtrip [of "\<lparr>uh_flag = [85, 66], uh_option = 1, uh_sessionId = 4000000000, uh_dataSize = 300\<rparr>"]
  by (auto simp: USBHead_wf_def)

text \<open>A payload head whose fields are in range is written to exactly 11 bytes and parsed back
  unchanged.\<close>

theorem PayloadHead_roundtrip:
  assumes "PayloadHead_wf h"
  shows "\<exists>bs. PayloadHead_getDataView h = Inr bs \<and> length bs = 11 \<and> parsePlayHead bs = Inr h"
proof -
  obtain f0 f1 r0 r1 where "ph_flag h = [f0, f1]" "ph_reserve h = [r0, r1]"
    using assms by (auto simp: PayloadHead_wf_def length_Suc_conv eval_nat_numeral)
  then show ?thesis
    using assms parsePlayHead_layout [of f0 f1 r0 r1 "ph_protocolVer h" "ph_headSize h" "ph_dataSize h"]
    by (cases h) (auto simp: PayloadHead_layout PayloadHead_wf_def num_at_def)
qed

theorem PayloadHead_roundtrip_witness:
  "\<exists>bs. PayloadHead_getDataView \<lparr>ph_flag = [72, 87], ph_reserve = [0, 0], ph_protocolVer = 1, ph_headSize = 8, ph_dataSize = 70000\<rparr> = Inr bs
    \<and> parsePlayHead bs = Inr \<lparr>ph_flag = [72, 87], ph_reserve = [0, 0], ph_protocolVer = 1, ph_headSize = 8, ph_dataSize = 70000\<rparr>"
  using PayloadHead_roundtrip [of "\<lparr>ph_flag = [72, 87], ph_reserve = [0, 0], ph_protocolVer = 1, ph_headSize = 8, ph_dataSize = 70000\<rparr>"]
  by (auto simp: PayloadHead_wf_def)

end
