(* ===== verification/Hdc_Serialize.thy ===== *)
theory Hdc_Serialize
  imports Hdc_Message
begin

text \<open>
  The tag/value serialiser of the HDC client (\<open>src/ide/src/hdc/common/Serialize.ts\<close>): variable
  length integers, tagged fields, and the encoders and decoders of the beans. The decoders of the
  source step over a field with constant offsets; the model keeps those offsets.
\<close>

section \<open>Variable length integers\<close>

text \<open>
  The loop body shared by \<open>writeVarIntU32\<close> (at most 5 rounds) and \<open>writeVarIntU64\<close> (at most 10);
  the first argument counts the rounds left.
\<close>

fun writeVarInt_loop :: "nat \<Rightarrow> int \<Rightarrow> int list" where
  "writeVarInt_loop 0 v = []"
| "writeVarInt_loop (Suc k) v =
     (let b = js_and v 127; v' = js_sar v 7
      in if v' \<noteq> 0 then js_or b 128 # writeVarInt_loop k v' else [b])"

definition writeVarIntU32 :: "int \<Rightarrow> bytes" where
  "writeVarIntU32 v = map word_of_int (writeVarInt_loop 5 v)"

definition writeVarIntU64 :: "int \<Rightarrow> bytes" where
  "writeVarIntU64 v = map word_of_int (writeVarInt_loop 10 v)"

fun readVarInt_loop :: "nat \<Rightarrow> nat \<Rightarrow> int \<Rightarrow> bytes \<Rightarrow> int" where
  "readVarInt_loop 0 i acc d = - 1"
| "readVarInt_loop (Suc k) i acc d =
     (if length d < i + 1 then - 1
      else let int8 = uint (d ! i); readValue = js_and int8 127;
               acc' = js_or acc (js_shl readValue (7 * int i))
           in if js_and int8 128 = 0 then acc' else readVarInt_loop k (i + 1) acc' d)"

definition readVarIntU32 :: "bytes \<Rightarrow> int" where
  "readVarIntU32 d = readVarInt_loop 5 0 0 d"

definition readVarIntU64 :: "bytes \<Rightarrow> int" where
  "readVarIntU64 d = readVarInt_loop 10 0 0 d"

section \<open>Tagged fields\<close>

definition makeTagWireType :: "int \<Rightarrow> WireType \<Rightarrow> int" where
  "makeTagWireType tag wt = js_or (js_shl tag 3) (WireType_num wt)"

definition writeTagWriteType :: "int \<Rightarrow> WireType \<Rightarrow> bytes" where
  "writeTagWriteType tag wt = writeVarIntU32 (makeTagWireType tag wt)"

definition serializeU32 :: "int \<Rightarrow> int \<Rightarrow> bytes result" where
  "serializeU32 tag v = merge_parts [writeTagWriteType tag VARINT, writeVarIntU32 v]"

definition serializeU64 :: "int \<Rightarrow> int \<Rightarrow> bytes result" where
  "serializeU64 tag v = merge_parts [writeTagWriteType tag VARINT, writeVarIntU64 v]"

definition serializeU8 :: "int \<Rightarrow> int \<Rightarrow> bytes result" where
  "serializeU8 tag v = serializeU32 tag v"

text \<open>The length written is \<open>value.length\<close>, the number of UTF-16 code units.\<close>

definition serializeToString :: "int \<Rightarrow> jsstring \<Rightarrow> bytes result" where
  "serializeToString tag s =
     merge_parts [writeVarIntU32 (makeTagWireType tag LENGTH_DELIMETED),
                  writeVarIntU32 (int (length s)), text_encode s]"

definition readTagWireType :: "int \<Rightarrow> int" where
  "readTagWireType tagKey = js_sar tagKey 3"

definition getTag :: "bytes \<Rightarrow> int" where
  "getTag d = readTagWireType (readVarIntU32 d)"

definition parseU32 :: "bytes \<Rightarrow> int" where "parseU32 d = readVarIntU32 d"
definition parseU8 :: "bytes \<Rightarrow> int" where "parseU8 d = parseU32 d"
definition parseU64 :: "bytes \<Rightarrow> int" where "parseU64 d = readVarIntU64 d"

definition parseString :: "bytes \<Rightarrow> int \<Rightarrow> jsstring" where
  "parseString buf sz = text_decode (js_slice buf 0 sz)"

section \<open>Encoders of the beans\<close>

fun collect :: "'a result list \<Rightarrow> 'a list result" where
  "collect [] = Inr []"
| "collect (r # rs) = bindr r (\<lambda>x. bindr (collect rs) (\<lambda>xs. Inr (x # xs)))"

definition serializeSessionHandShake :: "SessionHandShake \<Rightarrow> bytes result" where
  "serializeSessionHandShake hs =
     bindr (collect
       [serializeToString 1 (hs_banner hs),
        serializeU8 2 (hs_authType hs),
        serializeU32 3 (hs_sessionId hs),
        serializeToString 4 (hs_connectKey hs),
        serializeToString 5 (hs_buf hs)]) merge_parts"

definition serializePayloadProtect :: "PayloadProtect \<Rightarrow> bytes result" where
  "serializePayloadProtect p =
     bindr (collect
       [serializeU32 1 (pp_channelId p),
        serializeU32 2 (pp_commandFlag p),
        serializeU8 3 (pp_checkSum p),
        serializeU8 4 (pp_vCode p)]) merge_parts"

definition serializeTransferConfig :: "TransferConfig \<Rightarrow> bytes result" where
  "serializeTransferConfig c =
     bindr (collect
       [serializeU64 1 (tc_fileSize c),
        serializeU64 2 (tc_atime c),
        serializeU64 3 (tc_mtime c),
        serializeToString 4 (tc_options c),
        serializeToString 5 (tc_path c),
        serializeToString 6 (tc_optionalName c),
        serializeU32 7 (if tc_updateIfNew c then 1 else 0),
        serializeU8 8 (tc_compressType c),
        serializeU32 9 (if tc_holdTimestamp c then 1 else 0),
        serializeToString 10 (tc_functionName c),
        serializeToString 11 (tc_clientCwd c),
        serializeToString 12 (tc_reserve1 c),
        serializeToString 13 (tc_reserve2 c)]) merge_parts"

definition serializeTransferPayload :: "TransferPayload \<Rightarrow> bytes result" where
  "serializeTransferPayload p =
     bindr (collect
       [serializeU64 1 (tp_index p),
        serializeU8 2 (tp_compressType p),
        serializeU32 3 (tp_compressSize p),
        serializeU32 4 (tp_uncompressSize p)]) merge_parts"

section \<open>Decoders of the beans\<close>

text \<open>
  Each \<open>slice\<close> of the source copies the buffer from an offset. The tags are read and dropped
  (\<open>getTag\<close> has no effect on the result), so only the offsets matter. \<open>new DataView\<close> accepts any
  buffer, the empty one included, and \<open>readVarIntU32\<close> answers \<open>-1\<close> on it.
\<close>

definition parseHandshake :: "bytes \<Rightarrow> SessionHandShake" where
  "parseHandshake bannerBuffer =
     (let bannerLengthBuf = js_slice_from bannerBuffer 1;
          bannerSize = readVarIntU32 bannerLengthBuf;
          bannerDataBuffer = js_slice_from bannerLengthBuf 1;
          banner = parseString bannerDataBuffer bannerSize;
          authBuffer = js_slice_from bannerDataBuffer bannerSize;
          authDataBuffer = js_slice_from authBuffer 1;
          authType = parseU8 authDataBuffer;
          sessionIdBuffer = js_slice_from authDataBuffer 1;
          sessionDataBuffer = js_slice_from sessionIdBuffer 1;
          sessionId = parseU32 sessionDataBuffer;
          connectKeyBuffer = js_slice_from sessionDataBuffer 3;
          connectLengthBuffer = js_slice_from connectKeyBuffer 1;
          connectKeySize = readVarIntU32 connectLengthBuffer;
          connectDataBuffer = js_slice_from connectLengthBuffer 1;
          connectKey = parseString connectDataBuffer connectKeySize;
          bufBuffer = js_slice_from connectDataBuffer connectKeySize;
          lengthBuffer = js_slice_from bufBuffer 1;
          bufSize = readVarIntU32 lengthBuffer;
          dataBuffer = js_slice_from lengthBuffer 1;
          buf = parseString dataBuffer bufSize
      in mkSessionHandShake banner authType sessionId connectKey buf)"

definition parseTransferConfig :: "bytes \<Rightarrow> TransferConfig" where
  "parseTransferConfig d =
     (let channelDataBuffer = js_slice_from d 1;
          fileSize = parseU64 channelDataBuffer
      in \<lparr>tc_fileSize = fileSize, tc_atime = 0, tc_mtime = 0, tc_options = [], tc_path = [],
          tc_optionalName = [], tc_updateIfNew = False, tc_compressType = 0,
          tc_holdTimestamp = False, tc_functionName = [], tc_clientCwd = [], tc_reserve1 = [],
          tc_reserve2 = []\<rparr>)"

definition parsePayloadProtect :: "bytes \<Rightarrow> PayloadProtect" where
  "parsePayloadProtect d =
     (let channelDataBuffer = js_slice_from d 1;
          channelId = parseU32 channelDataBuffer;
          commandTagBuffer = js_slice_from channelDataBuffer 1;
          commandDataBuffer = js_slice_from commandTagBuffer 1;
          commandFlag = parseU32 commandDataBuffer;
          checkSumTagBuffer = js_slice_from commandDataBuffer 1;
          checkSumDataBuffer = js_slice_from checkSumTagBuffer 1;
          checkSum = parseU8 checkSumDataBuffer;
          vCodeTagBuffer = js_slice_from checkSumDataBuffer 1;
          vCodeDataBuffer = js_slice_from vCodeTagBuffer 1;
          vCode = parseU8 vCodeDataBuffer
      in \<lparr>pp_channelId = channelId, pp_commandFlag = commandFlag, pp_checkSum = checkSum,
          pp_vCode = vCode\<rparr>)"

section \<open>Round trip of the integers\<close>

lemma writeVarInt_step:
  assumes "0 \<le> v" "v < 2147483648"
  shows "writeVarInt_loop (Suc k) v =
    (if v < 128 then [v] else (v mod 128 + 128) # writeVarInt_loop k (v div 128))"
proof -
  have "v div 128 = 0 \<longleftrightarrow> v < 128" using assms(1) by presburger
  then show ?thesis using assms by (simp add: Let_def js_simps)
qed

lemma readVarInt_step:
  assumes "0 \<le> b" "b < 256" "length pre = i"
  shows "readVarInt_loop (Suc k) i acc (pre @ word_of_int b # rest) =
    (let acc' = js_or acc (js_shl (b mod 128) (7 * int i))
     in if b < 128 then acc' else readVarInt_loop k (i + 1) acc' (pre @ word_of_int b # rest))"
proof -
  have "uint (word_of_int b :: byte) = b"
    using assms by (simp add: uint_word_of_int take_bit_eq_mod)
  then show ?thesis using assms by (simp add: Let_def js_simps nth_append)
qed

text \<open>
  The reader at byte \<open>i\<close> holds the low \<open>7 * i\<close> bits of the value in the accumulator, the writer
  has the remaining high part still to write; \<open>m\<close> bounds the bytes that part needs.
\<close>

lemma js_or_acc:
  assumes "0 \<le> acc" "acc < 2 ^ (7 * i)" "0 \<le> r" "r < 128" "acc + r * 2 ^ (7 * i) < 2147483648" "i \<le> 4"
  shows "js_or acc (js_shl r (7 * int i)) = acc + r * 2 ^ (7 * i)"
proof -
  have "nat (7 * int i) = 7 * i" by simp
  moreover have "r * 2 ^ (7 * i) < 2147483648" using assms by linarith
  ultimately have "js_shl r (7 * int i) = r * 2 ^ (7 * i)"
    using assms js_shl_small [of r "7 * int i"] by simp
  then show ?thesis using js_or_disjoint [of acc "7 * i" r] assms by simp
qed

lemma readVarInt_writeVarInt:
  assumes "0 \<le> v" "v * 2 ^ (7 * i) + acc < 2147483648" "0 \<le> acc" "acc < 2 ^ (7 * i)"
    "length pre = i" "i + m = 5" "v < 2 ^ (7 * m)" "i \<le> 4" "m \<le> k" "m \<le> l"
  shows "readVarInt_loop k i acc (pre @ map word_of_int (writeVarInt_loop l v) @ rest)
    = v * 2 ^ (7 * i) + acc"
  using assms
proof (induction m arbitrary: v i acc pre k l)
  case 0
  then show ?case by simp
next
  case (Suc m)
  obtain k' l' where kl: "k = Suc k'" "l = Suc l'" "m \<le> k'" "m \<le> l'"
    using Suc.prems by (cases k; cases l) auto
  have v31: "v < 2147483648"
  proof -
    have "v * 1 \<le> v * 2 ^ (7 * i)" using Suc.prems(1) by (intro mult_left_mono) auto
    then show ?thesis using Suc.prems by linarith
  qed
  show ?case
  proof (cases "v < 128")
    case True
    have "writeVarInt_loop l v = [v]"
      using writeVarInt_step [of v l'] Suc.prems True v31 kl by simp
    then show ?thesis
      using readVarInt_step [of v pre i k' acc rest] Suc.prems True kl js_or_acc [of acc i v]
      by (simp add: Let_def add.commute)
  next
    case False
    define b where "b = v mod 128"
    have b: "0 \<le> b" "b < 128" by (simp_all add: b_def)
    have vb: "v = v div 128 * 128 + b" by (simp add: b_def)
    have pow: "(2::int) ^ (7 * Suc i) = 128 * 2 ^ (7 * i)" by (simp add: power_add)
    have val: "v * 2 ^ (7 * i) = v div 128 * 2 ^ (7 * Suc i) + b * 2 ^ (7 * i)"
      unfolding pow by (subst vb) (simp add: algebra_simps)
    have d0: "0 \<le> v div 128 * 2 ^ (7 * Suc i)" using Suc.prems by (simp add: pos_imp_zdiv_nonneg_iff)
    have acc_small: "acc + b * 2 ^ (7 * i) < 2147483648"
      using Suc.prems val d0 by linarith
    have acc_lt: "acc + b * 2 ^ (7 * i) < 2 ^ (7 * Suc i)"
    proof -
      have "b * 2 ^ (7 * i) \<le> 127 * 2 ^ (7 * i)" using b by (intro mult_right_mono) auto
      then show ?thesis unfolding pow using Suc.prems by linarith
    qed
    have mpos: "m \<noteq> 0"
      using Suc.prems(7) False by (intro notI) simp
    have hi: "v div 128 < 2 ^ (7 * m)"
      using Suc.prems(7) by (simp add: power_add)
    have wr: "writeVarInt_loop l v = (b + 128) # writeVarInt_loop l' (v div 128)"
      using writeVarInt_step [of v l'] Suc.prems False v31 kl by (simp add: b_def)
    have rd: "readVarInt_loop k i acc (pre @ word_of_int (b + 128) # rest')
        = readVarInt_loop k' (Suc i) (acc + b * 2 ^ (7 * i)) ((pre @ [word_of_int (b + 128)]) @ rest')"
      for rest'
      using readVarInt_step [of "b + 128" pre i k' acc rest'] b Suc.prems kl acc_small
        js_or_acc [of acc i b] by (simp add: Let_def)
    have "readVarInt_loop k' (Suc i) (acc + b * 2 ^ (7 * i))
        ((pre @ [word_of_int (b + 128)]) @ map word_of_int (writeVarInt_loop l' (v div 128)) @ rest)
      = v div 128 * 2 ^ (7 * Suc i) + (acc + b * 2 ^ (7 * i))"
      by (rule Suc.IH)
        (use Suc.prems b val acc_lt hi kl mpos in \<open>auto simp: pos_imp_zdiv_nonneg_iff\<close>)
    then show ?thesis unfolding wr using rd val by simp
  qed
qed

lemma readVarIntU32_write:
  assumes "0 \<le> v" "v < 2147483648"
  shows "readVarIntU32 (writeVarIntU32 v @ rest) = v"
  using readVarInt_writeVarInt [of v 0 0 "[]" 5 5 5 rest] assms
  by (simp add: readVarIntU32_def writeVarIntU32_def)

lemma readVarIntU64_write:
  assumes "0 \<le> v" "v < 2147483648"
  shows "readVarIntU64 (writeVarIntU64 v @ rest) = v"
  using readVarInt_writeVarInt [of v 0 0 "[]" 5 10 10 rest] assms
  by (simp add: readVarIntU64_def writeVarIntU64_def)

section \<open>Values outside the signed 32-bit range\<close>

lemma js_sar_7_neg: "toInt32 v < 0 \<Longrightarrow> js_sar v 7 < 0 \<and> toInt32 (js_sar v 7) < 0"
proof -
  assume neg: "toInt32 v < 0"
  then have lt: "js_sar v 7 < 0" by (simp add: js_sar_def)
  have "- 2147483648 \<le> toInt32 v" using toInt32_range [of v] by simp
  then have "- 2147483648 \<le> toInt32 v div 128" by presburger
  then have "- (2 ^ 31) \<le> js_sar v 7" by (simp add: js_sar_def drop_bit_eq_div)
  then have "toInt32 (js_sar v 7) = js_sar v 7" using lt by (intro toInt32_id) auto
  with lt show ?thesis by simp
qed

lemma js_or_128_cont: "128 \<le> uint (word_of_int (js_or b 128) :: byte)"
proof -
  have "bit (word_of_int (js_or b 128) :: byte) 7"
    by (simp add: js_or_def bit_word_of_int_iff bit_or_iff)
  then have "bit (uint (word_of_int (js_or b 128) :: byte)) 7" by (simp add: bit_unsigned_iff)
  then have "odd (uint (word_of_int (js_or b 128) :: byte) div 128)" by (simp add: bit_iff_odd)
  then show ?thesis
    by (metis div_pos_pos_trivial even_zero not_le uint_ge_0)
qed

lemma writeVarInt_neg:
  "toInt32 v < 0 \<Longrightarrow> length (writeVarInt_loop k v) = k \<and>
     (\<forall>b \<in> set (writeVarInt_loop k v). 128 \<le> uint (word_of_int b :: byte))"
proof (induction k arbitrary: v)
  case 0
  then show ?case by simp
next
  case (Suc k)
  from js_sar_7_neg [OF Suc.prems] have "js_sar v 7 \<noteq> 0" "toInt32 (js_sar v 7) < 0" by auto
  with Suc.IH [of "js_sar v 7"] show ?case by (simp add: Let_def js_or_128_cont)
qed

lemma readVarInt_all_cont:
  "(\<forall>b \<in> set d. 128 \<le> uint b) \<Longrightarrow> i + k = length d \<Longrightarrow> readVarInt_loop k i acc (d @ rest) = - 1"
proof (induction k arbitrary: i acc)
  case 0
  then show ?case by simp
next
  case (Suc k)
  have "128 \<le> uint (d ! i)" using Suc.prems by (simp add: Suc.prems(2) [symmetric])
  moreover have "uint (d ! i) < 256" using uint_bounded [of "d ! i"] by simp
  ultimately have "js_and (uint (d ! i)) 128 \<noteq> 0"
    using js_and_128_byte [of "uint (d ! i)"] by simp
  with Suc show ?case by (simp add: Let_def nth_append)
qed

lemma toInt32_drop_high: "toInt32 (v + 4294967296 * k) = toInt32 v"
  unfolding toInt32_def signed_take_bit_eq_iff_take_bit_eq by (simp add: take_bit_eq_mod)

section \<open>Layout of the tagged fields\<close>

lemma makeTagWireType_eq:
  assumes "0 \<le> tag" "tag < 16"
  shows "makeTagWireType tag wt = 8 * tag + WireType_num wt"
proof -
  have wt: "0 \<le> WireType_num wt" "WireType_num wt < 2 ^ 3" by (cases wt; simp)+
  have "js_shl tag 3 = tag * 2 ^ 3" using assms js_shl_small [of tag 3] by simp
  moreover have "js_or (WireType_num wt) (tag * 2 ^ 3) = WireType_num wt + tag * 2 ^ 3"
    using wt assms by (intro js_or_disjoint) auto
  ultimately show ?thesis
    unfolding makeTagWireType_def js_or_def by (simp add: or.commute mult.commute)
qed

lemma writeVarIntU32_single: "0 \<le> v \<Longrightarrow> v < 128 \<Longrightarrow> writeVarIntU32 v = [word_of_int v]"
  by (simp del: writeVarInt_loop.simps(2) add: writeVarIntU32_def writeVarInt_step eval_nat_numeral)

lemma writeVarIntU32_double:
  "128 \<le> v \<Longrightarrow> v < 16384 \<Longrightarrow> writeVarIntU32 v = [word_of_int (v mod 128 + 128), word_of_int (v div 128)]"
  by (simp del: writeVarInt_loop.simps(2) add: writeVarIntU32_def writeVarInt_step eval_nat_numeral)

lemma writeVarIntU32_triple:
  assumes "16384 \<le> v" "v < 2097152"
  shows "length (writeVarIntU32 v) = 3"
proof -
  have "\<not> v div 128 < 128" "v div 16384 < 128"
    using zdiv_mono1 [of 16384 v 128] zdiv_mono1 [of v 2097151 16384] assms by simp_all
  then show ?thesis
    using assms by (simp del: writeVarInt_loop.simps(2) add: writeVarIntU32_def writeVarInt_step
        eval_nat_numeral zdiv_zmult2_eq [symmetric])
qed

lemma tag_byte:
  assumes "0 \<le> tag" "tag < 15"
  shows "writeVarIntU32 (makeTagWireType tag wt) = [word_of_int (8 * tag + WireType_num wt)]"
proof -
  have "0 \<le> WireType_num wt" "WireType_num wt < 6" by (cases wt; simp)+
  then show ?thesis using assms makeTagWireType_eq [of tag wt] by (simp add: writeVarIntU32_single)
qed

lemma serializeU32_eq:
  "0 \<le> tag \<Longrightarrow> tag < 15 \<Longrightarrow> serializeU32 tag v = Inr (word_of_int (8 * tag) # writeVarIntU32 v)"
  by (simp add: serializeU32_def writeTagWriteType_def tag_byte)

lemma serializeU64_eq:
  "0 \<le> tag \<Longrightarrow> tag < 15 \<Longrightarrow> serializeU64 tag v = Inr (word_of_int (8 * tag) # writeVarIntU64 v)"
  by (simp add: serializeU64_def writeTagWriteType_def tag_byte)

lemma serializeToString_eq:
  "0 \<le> tag \<Longrightarrow> tag < 15 \<Longrightarrow> serializeToString tag s =
     Inr (word_of_int (8 * tag + 2) # writeVarIntU32 (int (length s)) @ text_encode s)"
  by (simp add: serializeToString_def tag_byte)

lemmas serialize_eqs = serializeU32_eq serializeU64_eq serializeU8_def serializeToString_eq

lemma PayloadProtect_layout:
  "serializePayloadProtect p =
     Inr (word_of_int 8 # writeVarIntU32 (pp_channelId p)
        @ word_of_int 16 # writeVarIntU32 (pp_commandFlag p)
        @ word_of_int 24 # writeVarIntU32 (pp_checkSum p)
        @ word_of_int 32 # writeVarIntU32 (pp_vCode p))"
  by (simp add: serializePayloadProtect_def serialize_eqs)

lemma SessionHandShake_layout:
  "serializeSessionHandShake hs =
     Inr (word_of_int 10 # writeVarIntU32 (int (length (hs_banner hs))) @ text_encode (hs_banner hs)
        @ word_of_int 16 # writeVarIntU32 (hs_authType hs)
        @ word_of_int 24 # writeVarIntU32 (hs_sessionId hs)
        @ word_of_int 34 # writeVarIntU32 (int (length (hs_connectKey hs))) @ text_encode (hs_connectKey hs)
        @ word_of_int 42 # writeVarIntU32 (int (length (hs_buf hs))) @ text_encode (hs_buf hs))"
  by (simp add: serializeSessionHandShake_def serialize_eqs)

lemma TransferConfig_layout:
  "\<exists>rest. serializeTransferConfig c = Inr (word_of_int 8 # writeVarIntU64 (tc_fileSize c) @ rest)"
  by (simp add: serializeTransferConfig_def serialize_eqs)

lemma readVarIntU32_byte: "0 \<le> v \<Longrightarrow> v < 128 \<Longrightarrow> readVarIntU32 (word_of_int v # bs) = v"
  using readVarIntU32_write [of v bs] by (simp add: writeVarIntU32_single)

lemma parsePayloadProtect_small:
  assumes "0 \<le> pp_channelId p" "pp_channelId p < 128" "0 \<le> pp_commandFlag p" "pp_commandFlag p < 2147483648"
    and "serializePayloadProtect p = Inr bs"
  shows "pp_channelId (parsePayloadProtect (bs @ rest)) = pp_channelId p"
    and "pp_commandFlag (parsePayloadProtect (bs @ rest)) = pp_commandFlag p"
proof -
  have bs: "bs = word_of_int 8 # word_of_int (pp_channelId p) # word_of_int 16 #
      writeVarIntU32 (pp_commandFlag p) @ word_of_int 24 # writeVarIntU32 (pp_checkSum p)
        @ word_of_int 32 # writeVarIntU32 (pp_vCode p)"
    using assms by (simp add: PayloadProtect_layout writeVarIntU32_single)
  show "pp_channelId (parsePayloadProtect (bs @ rest)) = pp_channelId p"
    "pp_commandFlag (parsePayloadProtect (bs @ rest)) = pp_commandFlag p"
    unfolding bs using readVarIntU32_write [OF assms(3,4)] readVarIntU32_byte [OF assms(1,2)]
    by (simp_all add: parsePayloadProtect_def parseU32_def Let_def)
qed

lemma parsePayloadProtect_large:
  assumes "128 \<le> pp_channelId p" "pp_channelId p < 16384"
    and "serializePayloadProtect p = Inr bs"
  shows "pp_channelId (parsePayloadProtect (bs @ rest)) = pp_channelId p"
    and "pp_commandFlag (parsePayloadProtect (bs @ rest)) = 16"
proof -
  let ?c = "pp_channelId p"
  have bs: "bs = word_of_int 8 # word_of_int (?c mod 128 + 128) # word_of_int (?c div 128) # word_of_int 16 #
      writeVarIntU32 (pp_commandFlag p) @ word_of_int 24 # writeVarIntU32 (pp_checkSum p)
        @ word_of_int 32 # writeVarIntU32 (pp_vCode p)"
    using assms by (simp add: PayloadProtect_layout writeVarIntU32_double)
  have "readVarIntU32 (word_of_int (?c mod 128 + 128) # word_of_int (?c div 128) # xs) = ?c" for xs
    using readVarIntU32_write [of ?c xs] assms by (simp add: writeVarIntU32_double)
  then show "pp_channelId (parsePayloadProtect (bs @ rest)) = ?c"
    "pp_commandFlag (parsePayloadProtect (bs @ rest)) = 16"
    unfolding bs using readVarIntU32_byte [of 16]
    by (simp_all add: parsePayloadProtect_def parseU32_def Let_def)
qed

section \<open>Properties of the serialiser\<close>

text \<open>C24: every 31-bit value written by \<open>writeVarIntU32\<close> or \<open>writeVarIntU64\<close> is read back exactly
  by the matching reader, whatever bytes follow it.\<close>

theorem varint_roundtrip:
  assumes "0 \<le> v" "v < 2147483648"
  shows "readVarIntU32 (writeVarIntU32 v @ rest) = v \<and> readVarIntU64 (writeVarIntU64 v @ rest) = v"
  using readVarIntU32_write [OF assms] readVarIntU64_write [OF assms] by simp

theorem varint_roundtrip_witness:
  "readVarIntU32 (writeVarIntU32 100000000 @ [7]) = 100000000
   \<and> readVarIntU64 (writeVarIntU64 100000000 @ [7]) = 100000000"
  using varint_roundtrip [of 100000000 "[7]"] by simp

text \<open>C29: a value whose low 32 bits have the sign bit set (any \<open>v\<close> with
  \<open>2^31 \<le> v < 2^32\<close>, and every such value modulo \<open>2^32\<close>) is written with a continuation bit on
  every byte and read back as the error value \<open>-1\<close>, by the 32-bit and by the 64-bit pair.\<close>

theorem varint_sign_bit_lost:
  assumes "toInt32 v < 0"
  shows "readVarIntU32 (writeVarIntU32 v @ rest) = - 1 \<and> readVarIntU64 (writeVarIntU64 v @ rest) = - 1"
  using writeVarInt_neg [OF assms, of 5] writeVarInt_neg [OF assms, of 10]
    readVarInt_all_cont [of "writeVarIntU32 v" 0 5 0 rest] readVarInt_all_cont [of "writeVarIntU64 v" 0 10 0 rest]
  by (simp add: readVarIntU32_def readVarIntU64_def writeVarIntU32_def writeVarIntU64_def)

theorem varint_sign_bit_lost_witness:
  "toInt32 3000000000 < 0 \<and> readVarIntU32 (writeVarIntU32 3000000000 @ []) = - 1
   \<and> readVarIntU64 (writeVarIntU64 3000000000 @ []) = - 1"
proof -
  have h: "toInt32 3000000000 < 0" by (simp add: toInt32_def signed_take_bit_int_eq_self)
  show ?thesis using h varint_sign_bit_lost [OF h, of "[]"] by blast
qed

text \<open>C30: \<open>writeVarIntU64\<close> sees only the low 32 bits: two values that differ by a multiple of
  \<open>2^32\<close> have the same encoding, so the file sizes of the transfer protocol are truncated.\<close>

theorem writeVarIntU64_truncates: "writeVarIntU64 (v + 4294967296 * k) = writeVarIntU64 v"
proof -
  have "js_and (v + 4294967296 * k) 127 = js_and v 127" "js_sar (v + 4294967296 * k) 7 = js_sar v 7"
    by (simp_all add: js_and_def js_sar_def toInt32_drop_high)
  then show ?thesis by (simp add: writeVarIntU64_def eval_nat_numeral)
qed

text \<open>The payload protection record survives serialisation and parsing when its four fields fit
  in one varint byte each.\<close>

theorem PayloadProtect_roundtrip:
  assumes "0 \<le> pp_channelId p" "pp_channelId p < 128" "0 \<le> pp_commandFlag p" "pp_commandFlag p < 128"
    "0 \<le> pp_checkSum p" "pp_checkSum p < 128" "0 \<le> pp_vCode p" "pp_vCode p < 128"
  shows "\<exists>bs. serializePayloadProtect p = Inr bs \<and> parsePayloadProtect (bs @ rest) = p"
  using assms by (simp add: PayloadProtect_layout parsePayloadProtect_def parseU32_def parseU8_def
      writeVarIntU32_single readVarIntU32_byte)

theorem PayloadProtect_roundtrip_witness:
  "\<exists>bs. serializePayloadProtect \<lparr>pp_channelId = 3, pp_commandFlag = 2, pp_checkSum = 0, pp_vCode = 9\<rparr> = Inr bs
   \<and> parsePayloadProtect (bs @ [1]) = \<lparr>pp_channelId = 3, pp_commandFlag = 2, pp_checkSum = 0, pp_vCode = 9\<rparr>"
  using PayloadProtect_roundtrip
    [of "\<lparr>pp_channelId = 3, pp_commandFlag = 2, pp_checkSum = 0, pp_vCode = 9\<rparr>" "[1]"] by simp

text \<open>While the channel id fits in one byte, the two fields the client uses (channel id and
  command flag) are parsed correctly for every 31-bit command flag, whatever checksum and version
  code follow.\<close>

theorem parse_command_small_channel:
  assumes "0 \<le> pp_channelId p" "pp_channelId p < 128" "0 \<le> pp_commandFlag p" "pp_commandFlag p < 2147483648"
    and "serializePayloadProtect p = Inr bs"
  shows "pp_channelId (parsePayloadProtect (bs @ rest)) = pp_channelId p
    \<and> pp_commandFlag (parsePayloadProtect (bs @ rest)) = pp_commandFlag p"
  using parsePayloadProtect_small [OF assms] by blast

theorem parse_command_small_channel_witness:
  "\<exists>bs. serializePayloadProtect \<lparr>pp_channelId = 127, pp_commandFlag = 3001, pp_checkSum = 0, pp_vCode = 9\<rparr> = Inr bs
   \<and> pp_commandFlag (parsePayloadProtect bs) = 3001"
proof -
  let ?p = "\<lparr>pp_channelId = 127, pp_commandFlag = 3001, pp_checkSum = 0, pp_vCode = 9\<rparr>"
  obtain bs where "serializePayloadProtect ?p = Inr bs" by (simp add: PayloadProtect_layout)
  with parse_command_small_channel [of ?p bs "[]"] show ?thesis by simp
qed

text \<open>Once the channel id needs two varint bytes (128 and above) the parser reads the tag byte of
  the command field as its value: the parsed command flag is 16 whatever command was sent.\<close>

theorem parse_command_large_channel:
  assumes "128 \<le> pp_channelId p" "pp_channelId p < 16384"
    and "serializePayloadProtect p = Inr bs"
  shows "pp_channelId (parsePayloadProtect (bs @ rest)) = pp_channelId p
    \<and> pp_commandFlag (parsePayloadProtect (bs @ rest)) = 16"
  using parsePayloadProtect_large [OF assms] by blast

theorem parse_command_large_channel_witness:
  "\<exists>bs. serializePayloadProtect \<lparr>pp_channelId = 128, pp_commandFlag = 2, pp_checkSum = 0, pp_vCode = 9\<rparr> = Inr bs
   \<and> pp_commandFlag (parsePayloadProtect bs) = 16"
proof -
  let ?p = "\<lparr>pp_channelId = 128, pp_commandFlag = 2, pp_checkSum = 0, pp_vCode = 9\<rparr>"
  obtain bs where "serializePayloadProtect ?p = Inr bs" by (simp add: PayloadProtect_layout)
  with parse_command_large_channel [of ?p bs "[]"] show ?thesis by simp
qed

lemma readVarIntU32_len: "n < 128 \<Longrightarrow> readVarIntU32 (word_of_nat n # bs) = int n"
  using readVarIntU32_byte [of "int n" bs] by simp

lemma parseString_all: "ascii s \<Longrightarrow> n = int (length s) \<Longrightarrow> parseString (text_encode s) n = s"
  using js_slice_0_append [of n "text_encode s" "[]"] by (simp add: parseString_def text_decode_ascii)

lemma parseString_prefix: "ascii s \<Longrightarrow> n = int (length s) \<Longrightarrow> parseString (text_encode s @ rest) n = s"
  by (simp add: parseString_def text_decode_ascii)

text \<open>C11: a handshake with ASCII strings of fewer than 128 characters, a one-byte authentication type
  and a session id of exactly three varint bytes (\<open>2^14 \<le> id < 2^21\<close>) is parsed back unchanged.\<close>

theorem handshake_roundtrip:
  assumes str: "ascii (hs_banner h)" "length (hs_banner h) < 128" "ascii (hs_connectKey h)"
      "length (hs_connectKey h) < 128" "ascii (hs_buf h)" "length (hs_buf h) < 128"
    and auth: "0 \<le> hs_authType h" "hs_authType h < 128"
    and sid: "16384 \<le> hs_sessionId h" "hs_sessionId h < 2097152"
    and ver: "hs_version h = []"
  shows "\<exists>bs. serializeSessionHandShake h = Inr bs \<and> parseHandshake bs = h"
proof -
  let ?sid = "writeVarIntU32 (hs_sessionId h)"
  have skip3: "js_slice_from (?sid @ xs) 3 = xs" for xs
    using writeVarIntU32_triple [OF sid] by simp
  have "readVarIntU32 (?sid @ xs) = hs_sessionId h" for xs
    using sid by (simp add: readVarIntU32_write)
  then show ?thesis
    using str auth ver skip3
    by (cases h) (simp add: SessionHandShake_layout parseHandshake_def mkSessionHandShake_def Let_def
        writeVarIntU32_single readVarIntU32_byte readVarIntU32_len parseString_prefix
        parseString_all parseU8_def parseU32_def)
qed

theorem handshake_roundtrip_witness:
  "\<exists>bs. serializeSessionHandShake (mkSessionHandShake HANDSHAKE_MESSAGE 0 20000 (js ''SN1'') []) = Inr bs
     \<and> parseHandshake bs = mkSessionHandShake HANDSHAKE_MESSAGE 0 20000 (js ''SN1'') []"
  using handshake_roundtrip [of "mkSessionHandShake HANDSHAKE_MESSAGE 0 20000 (js ''SN1'') []"]
  by (simp add: mkSessionHandShake_def HANDSHAKE_MESSAGE_def js_def)

text \<open>C31: the length that \<open>serializeToString\<close> announces (the number of UTF-16 code units) is the number
  of payload bytes exactly when the string is ASCII; otherwise the payload is longer than announced
  and the fields after it are shifted.\<close>

theorem serializeToString_length_ascii:
  assumes "0 \<le> tag" "tag < 15" "length s < 128"
  shows "\<exists>payload. serializeToString tag s
      = Inr ([word_of_int (8 * tag + 2), word_of_int (int (length s))] @ payload)
    \<and> length s \<le> length payload \<and> (length payload = length s \<longleftrightarrow> ascii s)"
  using assms length_text_encode [of s] length_text_encode_eq_iff [of s]
  by (simp add: serializeToString_eq writeVarIntU32_single)

theorem serializeToString_length_ascii_witness:
  "\<exists>payload. serializeToString 4 [0xE9]
      = Inr ([word_of_int 34, word_of_int 1] @ payload) \<and> length payload \<noteq> 1"
  using serializeToString_length_ascii [of 4 "[0xE9]"] by auto

text \<open>C25: the only field \<open>parseTransferConfig\<close> decodes, the file size, is the one that
  \<open>serializeTransferConfig\<close> wrote, for every size below 2 GiB.\<close>

theorem TransferConfig_fileSize_roundtrip:
  assumes "0 \<le> tc_fileSize c" "tc_fileSize c < 2147483648"
  shows "\<exists>bs. serializeTransferConfig c = Inr bs \<and> tc_fileSize (parseTransferConfig bs) = tc_fileSize c"
proof -
  obtain rest where "serializeTransferConfig c = Inr (word_of_int 8 # writeVarIntU64 (tc_fileSize c) @ rest)"
    using TransferConfig_layout by blast
  then show ?thesis
    using assms by (simp add: parseTransferConfig_def parseU64_def readVarIntU64_write)
qed

theorem TransferConfig_fileSize_roundtrip_witness:
  "\<exists>c bs. tc_fileSize c = 1000000 \<and> serializeTransferConfig c = Inr bs
     \<and> tc_fileSize (parseTransferConfig bs) = 1000000"
proof -
  let ?c = "\<lparr>tc_fileSize = 1000000, tc_atime = 0, tc_mtime = 0, tc_options = [], tc_path = [],
     tc_optionalName = [], tc_updateIfNew = False, tc_compressType = 0, tc_holdTimestamp = False,
     tc_functionName = [], tc_clientCwd = [], tc_reserve1 = [], tc_reserve2 = []\<rparr>"
  show ?thesis
    using TransferConfig_fileSize_roundtrip [of ?c] by (intro exI [of _ ?c]) simp
qed

end
