(* ===== verification/Hdc_Transport.thy ===== *)
theory Hdc_Transport
  imports Hdc_Serialize
begin

text \<open>
  The transport of the HDC client: \<open>DataMessage\<close> (message/DataMessage.ts), the sender and the read
  loop of \<open>DataProcessing\<close> (transmission/DataProcessing.ts) and the device side of
  \<open>UsbTransmissionChannel\<close> (transmission/UsbTransmissionChannel.ts). The WebUSB device is a
  parameter: the results of its transfers are events of the read loop, the chunks written to it are
  collected in \<open>dp_written\<close>.
\<close>

section \<open>DataMessage\<close>

record DataMessage =
  dm_usbHead :: USBHead
  dm_body :: "bytes option"
  dm_channelId :: int
  dm_result :: jsstring
  dm_channelClose :: bool
  dm_resArrayBuffer :: "bytes option"
  dm_commandFlag :: int

definition splitData :: "DataMessage \<Rightarrow> bytes \<Rightarrow> DataMessage result" where
  "splitData dm body =
     bindr (parsePlayHead (js_slice body 0 11)) (\<lambda>resultPayloadHead.
     let headSize = ph_headSize resultPayloadHead;
         dataSize = ph_dataSize resultPayloadHead;
         payloadProtect = parsePayloadProtect (js_slice body 11 (11 + headSize));
         dm1 = dm\<lparr>dm_channelId := pp_channelId payloadProtect,
                  dm_commandFlag := pp_commandFlag payloadProtect\<rparr>
     in Inr (if pp_commandFlag payloadProtect = HdcCommand_num CMD_KERNEL_CHANNEL_CLOSE
             then dm1\<lparr>dm_channelClose := True\<rparr>
             else if dataSize > 0
             then dm1\<lparr>dm_resArrayBuffer := Some (js_slice body (11 + headSize) (11 + headSize + dataSize))\<rparr>
             else dm1))"

definition mkDataMessage :: "USBHead \<Rightarrow> bytes option \<Rightarrow> DataMessage result" where
  "mkDataMessage usbHead body =
     (let dm = \<lparr>dm_usbHead = usbHead, dm_body = body, dm_channelId = - 1, dm_result = [],
                dm_channelClose = False, dm_resArrayBuffer = None, dm_commandFlag = - 1\<rparr>
      in case body of Some b \<Rightarrow> splitData dm b | None \<Rightarrow> Inr dm)"

definition getDataToString :: "DataMessage \<Rightarrow> jsstring \<times> DataMessage" where
  "getDataToString dm =
     (let r = (case dm_resArrayBuffer dm of Some b \<Rightarrow> text_decode b | None \<Rightarrow> [])
      in (r, dm\<lparr>dm_result := r\<rparr>))"

section \<open>DataProcessing: sending\<close>

record DataProcessing =
  dp_readData :: bool
  dp_written :: "bytes list option"

definition stopReadData :: "DataProcessing \<Rightarrow> DataProcessing" where
  "stopReadData dp = dp\<lparr>dp_readData := False\<rparr>"

definition charCodeAt :: "jsstring \<Rightarrow> nat \<Rightarrow> int" where
  "charCodeAt s i = uint (s ! i)"

definition buildPacketHeader :: "int \<Rightarrow> int \<Rightarrow> int \<Rightarrow> bytes result" where
  "buildPacketHeader sessionId opt dataSize =
     USBHead_getDataView \<lparr>uh_flag = [charCodeAt USB_PACKET_FLAG 0, charCodeAt USB_PACKET_FLAG 1],
       uh_option = opt, uh_sessionId = sessionId, uh_dataSize = dataSize\<rparr>"

definition dp_vCode :: int where "dp_vCode = 9"
definition dp_checkSum :: int where "dp_checkSum = 0"

definition dp_send :: "DataProcessing \<Rightarrow> int \<Rightarrow> int \<Rightarrow> int \<Rightarrow> bytes \<Rightarrow> nat \<Rightarrow> (DataProcessing \<times> bool) result" where
  "dp_send dp sessionId channelId commandFlag d dataSize =
     bindr (serializePayloadProtect \<lparr>pp_channelId = channelId, pp_commandFlag = commandFlag,
       pp_checkSum = dp_checkSum, pp_vCode = dp_vCode\<rparr>) (\<lambda>pbs.
     bindr (PayloadHead_getDataView \<lparr>ph_flag = [charCodeAt PACKET_FLAG 0, charCodeAt PACKET_FLAG 1],
       ph_reserve = [0, 0], ph_protocolVer = 1, ph_headSize = int (length pbs),
       ph_dataSize = int dataSize\<rparr>) (\<lambda>playHeadArray.
     let finalBufSize = length playHeadArray + length pbs + dataSize in
     bindr (ta_set (replicate finalBufSize 0) playHeadArray 0) (\<lambda>b1.
     bindr (ta_set b1 pbs (length playHeadArray)) (\<lambda>b2.
     bindr (ta_set b2 d (length playHeadArray + length pbs)) (\<lambda>finalBuf.
     case dp_written dp of
       Some w \<Rightarrow>
         bindr (buildPacketHeader sessionId (UsbProtocolOption_num USB_OPTION_HEADER) (int finalBufSize))
           (\<lambda>header. Inr (dp\<lparr>dp_written := Some (w @ [header, finalBuf])\<rparr>, True))
     | None \<Rightarrow> Inr (stopReadData dp, False))))))"

section \<open>DataProcessing: the read loop\<close>

text \<open>
  \<open>startReadData\<close> awaits a head, then its body when the head announces one, hands the message to the
  listener and tests \<open>readData\<close> again. An exception of any kind ends the loop after a last message
  with session id -1. The events are the settled transfers and the calls of \<open>stopReadData\<close>.
\<close>

datatype read_state = AwaitHead | AwaitBody USBHead | Ended

datatype dev_event = Data bytes | Failed | StopRead

record reader =
  rd_readData :: bool
  rd_state :: read_state

definition abnormal_head :: USBHead where
  "abnormal_head = \<lparr>uh_flag = [- 1, - 1], uh_option = - 1, uh_sessionId = - 1, uh_dataSize = - 1\<rparr>"

definition abnormal_message :: DataMessage where
  "abnormal_message = \<lparr>dm_usbHead = abnormal_head, dm_body = None, dm_channelId = - 1, dm_result = [],
     dm_channelClose = False, dm_resArrayBuffer = None, dm_commandFlag = - 1\<rparr>"

definition startReadData :: "bool \<Rightarrow> reader" where
  "startReadData readData = \<lparr>rd_readData = readData, rd_state = (if readData then AwaitHead else Ended)\<rparr>"

definition rd_fail :: "reader \<Rightarrow> reader \<times> DataMessage list" where
  "rd_fail r = (r\<lparr>rd_state := Ended\<rparr>, [abnormal_message])"

definition rd_deliver :: "reader \<Rightarrow> DataMessage result \<Rightarrow> reader \<times> DataMessage list" where
  "rd_deliver r m =
     (case m of Inl _ \<Rightarrow> rd_fail r
      | Inr dm \<Rightarrow> (r\<lparr>rd_state := (if rd_readData r then AwaitHead else Ended)\<rparr>, [dm]))"

fun rd_step :: "reader \<Rightarrow> dev_event \<Rightarrow> reader \<times> DataMessage list" where
  "rd_step r StopRead = (r\<lparr>rd_readData := False\<rparr>, [])"
| "rd_step r Failed = (case rd_state r of Ended \<Rightarrow> (r, []) | _ \<Rightarrow> rd_fail r)"
| "rd_step r (Data d) =
     (case rd_state r of
        Ended \<Rightarrow> (r, [])
      | AwaitHead \<Rightarrow>
          (case parseHeadData d of
             Inl _ \<Rightarrow> rd_fail r
           | Inr usbHead \<Rightarrow>
               if uh_dataSize usbHead > 0 then (r\<lparr>rd_state := AwaitBody usbHead\<rparr>, [])
               else rd_deliver r (mkDataMessage usbHead None))
      | AwaitBody usbHead \<Rightarrow> rd_deliver r (mkDataMessage usbHead (Some d)))"

fun rd_run :: "reader \<Rightarrow> dev_event list \<Rightarrow> reader \<times> DataMessage list" where
  "rd_run r [] = (r, [])"
| "rd_run r (e # es) = (let (r1, ms) = rd_step r e; (r2, ms') = rd_run r1 es in (r2, ms @ ms'))"

section \<open>UsbTransmissionChannel\<close>

record usb_endpoint =
  ep_number :: int
  ep_direction :: string
  ep_type :: string

record usb_alternate =
  al_class :: int
  al_subclass :: int
  al_protocol :: int
  al_endpoints :: "usb_endpoint list"

record usb_interface =
  if_number :: int
  if_alternates :: "usb_alternate list"

record usb_configuration =
  cf_value :: int
  cf_interfaces :: "usb_interface list"

record matchingUsbDevice =
  md_configurationValue :: int
  md_interfaceNumber :: int
  md_endPoints :: "usb_endpoint list"

definition matches_filter :: "int \<times> int \<times> int \<Rightarrow> usb_alternate \<Rightarrow> bool" where
  "matches_filter f al \<longleftrightarrow> (case f of (c, s, p) \<Rightarrow> c = al_class al \<and> s = al_subclass al \<and> p = al_protocol al)"

text \<open>The three nested loops, in the order they visit the alternates; the first match is returned.\<close>

definition filterAndFindDevice :: "usb_configuration list \<Rightarrow> int \<times> int \<times> int \<Rightarrow> matchingUsbDevice option" where
  "filterAndFindDevice configurations f =
     map_option (\<lambda>(config, intf, al). \<lparr>md_configurationValue = cf_value config,
         md_interfaceNumber = if_number intf, md_endPoints = al_endpoints al\<rparr>)
       (List.find (\<lambda>(config, intf, al). matches_filter f al)
         [(config, intf, al). config \<leftarrow> configurations, intf \<leftarrow> cf_interfaces config, al \<leftarrow> if_alternates intf])"

definition filterEndpointNumber :: "usb_endpoint list \<Rightarrow> string \<Rightarrow> string \<Rightarrow> int result" where
  "filterEndpointNumber eps dir ty =
     (case filter (\<lambda>e. ep_direction e = dir \<and> ep_type e = ty) eps of
        [] \<Rightarrow> Inl TypeError | e # _ \<Rightarrow> Inr (ep_number e))"

definition HDC_DEVICE_FILTER :: "int \<times> int \<times> int" where
  "HDC_DEVICE_FILTER = (255, 80, 1)"

record usb_channel =
  uc_open :: bool
  uc_endpointIn :: int
  uc_endpointOut :: int
  uc_interfaceNumber :: int

text \<open>\<open>openHdcDevice\<close> after \<open>open()\<close> succeeded; every exception gives \<open>null\<close>.\<close>

definition openHdcDevice :: "usb_configuration list \<Rightarrow> usb_channel option" where
  "openHdcDevice configurations =
     (case filterAndFindDevice configurations HDC_DEVICE_FILTER of
        None \<Rightarrow> None
      | Some m \<Rightarrow>
          (case filterEndpointNumber (md_endPoints m) ''in'' ''bulk'' of
             Inl _ \<Rightarrow> None
           | Inr endpointIn \<Rightarrow>
               (case filterEndpointNumber (md_endPoints m) ''out'' ''bulk'' of
                  Inl _ \<Rightarrow> None
                | Inr endpointOut \<Rightarrow> Some \<lparr>uc_open = True, uc_endpointIn = endpointIn,
                    uc_endpointOut = endpointOut, uc_interfaceNumber = md_interfaceNumber m\<rparr>)))"

text \<open>\<open>transferIn\<close> is the device's answer to a read on an endpoint; without a device or without data
  the result is an empty view.\<close>

definition usb_readData :: "(int \<Rightarrow> int \<Rightarrow> bytes option) \<Rightarrow> usb_channel \<Rightarrow> int \<Rightarrow> bytes" where
  "usb_readData transferIn ch len =
     (if uc_open ch then (case transferIn (uc_endpointOut ch) len of Some d \<Rightarrow> d | None \<Rightarrow> []) else [])"

definition usb_close :: "usb_channel \<Rightarrow> usb_channel" where
  "usb_close ch = ch\<lparr>uc_open := False\<rparr>"

section \<open>Layout of a packet\<close>

lemma length_writeVarInt_loop: "length (writeVarInt_loop k v) \<le> k"
  by (induction k arbitrary: v) (auto simp: Let_def)

lemma length_writeVarIntU32: "length (writeVarIntU32 v) \<le> 5"
  using length_writeVarInt_loop [of 5 v] by (simp add: writeVarIntU32_def)

lemma flags [simp]: "charCodeAt PACKET_FLAG 0 = 72" "charCodeAt PACKET_FLAG (Suc 0) = 87"
  "charCodeAt USB_PACKET_FLAG 0 = 85" "charCodeAt USB_PACKET_FLAG (Suc 0) = 66"
  by (simp_all add: charCodeAt_def PACKET_FLAG_def USB_PACKET_FLAG_def js_def)

abbreviation sent_protect :: "int \<Rightarrow> int \<Rightarrow> PayloadProtect" where
  "sent_protect ch cmd \<equiv> \<lparr>pp_channelId = ch, pp_commandFlag = cmd, pp_checkSum = dp_checkSum, pp_vCode = dp_vCode\<rparr>"

abbreviation sent_head :: "int \<Rightarrow> int \<Rightarrow> PayloadHead" where
  "sent_head hsz ds \<equiv> \<lparr>ph_flag = [72, 87], ph_reserve = [0, 0], ph_protocolVer = 1, ph_headSize = hsz, ph_dataSize = ds\<rparr>"

abbreviation sent_usb :: "int \<Rightarrow> int \<Rightarrow> USBHead" where
  "sent_usb sid ds \<equiv> \<lparr>uh_flag = [85, 66], uh_option = 1, uh_sessionId = sid, uh_dataSize = ds\<rparr>"

text \<open>A call of \<open>send\<close> with the data's own length writes the USB head and the packet.\<close>

lemma dp_send_writes:
  assumes "dp_written dp = Some w"
  shows "\<exists>pbs ph hdr. serializePayloadProtect (sent_protect ch cmd) = Inr pbs
     \<and> PayloadHead_getDataView (sent_head (int (length pbs)) (int (length d))) = Inr ph
     \<and> USBHead_getDataView (sent_usb sid (int (11 + length pbs + length d))) = Inr hdr
     \<and> length ph = 11 \<and> 0 < length pbs \<and> length pbs \<le> 24
     \<and> dp_send dp sid ch cmd d (length d)
       = Inr (dp\<lparr>dp_written := Some (w @ [hdr, ph @ pbs @ d])\<rparr>, True)"
proof -
  obtain pbs where pbs: "serializePayloadProtect (sent_protect ch cmd) = Inr pbs"
    by (simp add: PayloadProtect_layout)
  have len: "0 < length pbs" "length pbs \<le> 24"
    using pbs length_writeVarIntU32 [of ch] length_writeVarIntU32 [of cmd]
      length_writeVarIntU32 [of dp_checkSum] length_writeVarIntU32 [of dp_vCode]
    by (auto simp: PayloadProtect_layout)
  obtain ph where ph: "PayloadHead_getDataView (sent_head (int (length pbs)) (int (length d))) = Inr ph"
    "length ph = 11" by (simp add: PayloadHead_layout)
  obtain hdr where hdr: "USBHead_getDataView (sent_usb sid (int (11 + length pbs + length d))) = Inr hdr"
    by (simp add: USBHead_layout)
  have set1: "ta_set (replicate (11 + length pbs + length d) 0) ph 0
      = Inr (ph @ replicate (length pbs + length d) 0)"
    using ph(2) by (simp add: ta_set_def)
  have set2: "ta_set (ph @ replicate (length pbs + length d) 0) pbs 11
      = Inr (ph @ pbs @ replicate (length d) 0)"
    using ph(2) by (simp add: ta_set_def)
  have set3: "ta_set (ph @ pbs @ replicate (length d) 0) d (11 + length pbs) = Inr (ph @ pbs @ d)"
    using ph(2) by (simp add: ta_set_def)
  have "dp_send dp sid ch cmd d (length d) = Inr (dp\<lparr>dp_written := Some (w @ [hdr, ph @ pbs @ d])\<rparr>, True)"
    using assms pbs ph hdr set1 set2 set3
    by (simp add: dp_send_def Let_def buildPacketHeader_def)
  with pbs ph hdr len show ?thesis by blast
qed

section \<open>Receiving what was sent\<close>

lemma splitData_packet:
  assumes "PayloadHead_getDataView (sent_head (int (length pbs)) (int (length d))) = Inr ph"
    and "length pbs < 65536" "length d < 4294967296"
  shows "splitData dm (ph @ pbs @ d) =
    (let p = parsePayloadProtect pbs;
         dm1 = dm\<lparr>dm_channelId := pp_channelId p, dm_commandFlag := pp_commandFlag p\<rparr>
     in Inr (if pp_commandFlag p = 2 then dm1\<lparr>dm_channelClose := True\<rparr>
             else if d \<noteq> [] then dm1\<lparr>dm_resArrayBuffer := Some d\<rparr> else dm1))"
proof -
  have wf: "PayloadHead_wf (sent_head (int (length pbs)) (int (length d)))"
    using assms by (simp add: PayloadHead_wf_def)
  have ph: "length ph = 11" using assms(1) by (auto simp: PayloadHead_layout)
  have "parsePlayHead ph = Inr (sent_head (int (length pbs)) (int (length d)))"
    using assms parsePlayHead_layout [of 72 87 0 0 1 "int (length pbs)" "int (length d)"]
    by (simp add: PayloadHead_layout num_at_def)
  moreover have "js_slice (ph @ pbs @ d) 0 11 = ph" using ph by simp
  moreover have "js_slice (ph @ pbs @ d) 11 (11 + int (length pbs)) = pbs" using ph by simp
  moreover have "js_slice ((ph @ pbs) @ d) (11 + int (length pbs)) (11 + int (length pbs) + int (length d)) = d"
    by (rule js_slice_mid_end) (use ph in simp_all)
  ultimately show ?thesis
    using ph by (cases "d = []") (simp_all add: splitData_def Let_def)
qed

text \<open>The reader, waiting for a head, turns a header chunk and a packet chunk into one message.\<close>

lemma rd_two_chunks:
  assumes "USBHead_getDataView (sent_usb sid ds) = Inr hdr" "0 \<le> sid" "sid < 2 ^ 32" "0 < ds" "ds < 2 ^ 32"
    and "mkDataMessage (sent_usb sid ds) (Some body) = Inr m"
  shows "rd_run (startReadData True) [Data hdr, Data body] = (startReadData True, [m])"
proof -
  have "parseHeadData hdr = Inr (sent_usb sid ds)"
    using assms parseHeadData_layout [of 85 66 1 sid ds] by (simp add: USBHead_layout num_at_def)
  then show ?thesis
    using assms by (simp add: startReadData_def rd_deliver_def)
qed

lemma rd_run_append:
  "rd_run r (es @ es') = (let (r1, ms) = rd_run r es; (r2, ms') = rd_run r1 es' in (r2, ms @ ms'))"
  by (induction es arbitrary: r) (auto split: prod.splits)

text \<open>What the reader makes of a sent packet, in terms of the parsed protection record.\<close>

lemma send_delivers:
  assumes "dp_written dp = Some w" "0 \<le> sid" "sid < 4294967296" "length d < 4294967000"
  shows "\<exists>hdr body pbs m. serializePayloadProtect (sent_protect ch cmd) = Inr pbs
     \<and> dp_send dp sid ch cmd d (length d) = Inr (dp\<lparr>dp_written := Some (w @ [hdr, body])\<rparr>, True)
     \<and> rd_run (startReadData True) [Data hdr, Data body] = (startReadData True, [m])
     \<and> uh_sessionId (dm_usbHead m) = sid
     \<and> dm_channelId m = pp_channelId (parsePayloadProtect pbs)
     \<and> dm_commandFlag m = pp_commandFlag (parsePayloadProtect pbs)
     \<and> dm_channelClose m = (pp_commandFlag (parsePayloadProtect pbs) = 2)
     \<and> dm_resArrayBuffer m = (if pp_commandFlag (parsePayloadProtect pbs) = 2 \<or> d = [] then None else Some d)"
proof -
  obtain pbs ph hdr where p: "serializePayloadProtect (sent_protect ch cmd) = Inr pbs"
    "PayloadHead_getDataView (sent_head (int (length pbs)) (int (length d))) = Inr ph"
    "USBHead_getDataView (sent_usb sid (int (11 + length pbs + length d))) = Inr hdr"
    "length ph = 11" "0 < length pbs" "length pbs \<le> 24"
    "dp_send dp sid ch cmd d (length d) = Inr (dp\<lparr>dp_written := Some (w @ [hdr, ph @ pbs @ d])\<rparr>, True)"
    using dp_send_writes [OF assms(1), of ch cmd d sid] by blast
  let ?usb = "sent_usb sid (int (11 + length pbs + length d))"
  let ?pp = "parsePayloadProtect pbs"
  define m where "m = \<lparr>dm_usbHead = ?usb, dm_body = Some (ph @ pbs @ d),
     dm_channelId = pp_channelId ?pp, dm_result = [], dm_channelClose = (pp_commandFlag ?pp = 2),
     dm_resArrayBuffer = (if pp_commandFlag ?pp = 2 \<or> d = [] then None else Some d),
     dm_commandFlag = pp_commandFlag ?pp\<rparr>"
  have "mkDataMessage ?usb (Some (ph @ pbs @ d)) = Inr m"
    using splitData_packet [OF p(2)] p(6) assms(4) by (simp add: mkDataMessage_def m_def Let_def)
  then have "rd_run (startReadData True) [Data hdr, Data (ph @ pbs @ d)] = (startReadData True, [m])"
    using p(3,6) assms by (intro rd_two_chunks) auto
  with p(1,7) show ?thesis
    by (intro exI [of _ hdr] exI [of _ "ph @ pbs @ d"] exI [of _ pbs] exI [of _ m]) (simp add: m_def)
qed

text \<open>C5: end to end over the wire format: whatever command with a one-byte channel id is sent, the
  reader that is fed the two written chunks delivers one message with that session, channel, command
  and payload, recognises the channel-close command, and is ready for the next head.\<close>

theorem send_then_receive:
  assumes "dp_written dp = Some w" "0 \<le> sid" "sid < 4294967296" "0 \<le> ch" "ch < 128"
    "0 \<le> cmd" "cmd < 2147483648" "length d < 4294967000"
  shows "\<exists>hdr body m. dp_send dp sid ch cmd d (length d) = Inr (dp\<lparr>dp_written := Some (w @ [hdr, body])\<rparr>, True)
     \<and> rd_run (startReadData True) [Data hdr, Data body] = (startReadData True, [m])
     \<and> uh_sessionId (dm_usbHead m) = sid \<and> dm_channelId m = ch \<and> dm_commandFlag m = cmd
     \<and> dm_channelClose m = (cmd = 2)
     \<and> dm_resArrayBuffer m = (if cmd = 2 \<or> d = [] then None else Some d)"
proof -
  obtain hdr body pbs m where "serializePayloadProtect (sent_protect ch cmd) = Inr pbs"
    "dp_send dp sid ch cmd d (length d) = Inr (dp\<lparr>dp_written := Some (w @ [hdr, body])\<rparr>, True)"
    "rd_run (startReadData True) [Data hdr, Data body] = (startReadData True, [m])"
    "uh_sessionId (dm_usbHead m) = sid"
    "dm_channelId m = pp_channelId (parsePayloadProtect pbs)"
    "dm_commandFlag m = pp_commandFlag (parsePayloadProtect pbs)"
    "dm_channelClose m = (pp_commandFlag (parsePayloadProtect pbs) = 2)"
    "dm_resArrayBuffer m = (if pp_commandFlag (parsePayloadProtect pbs) = 2 \<or> d = [] then None else Some d)"
    using send_delivers [OF assms(1-3,8), of ch cmd] by blast
  moreover from this(1) have "pp_channelId (parsePayloadProtect pbs) = ch"
    "pp_commandFlag (parsePayloadProtect pbs) = cmd"
    using parsePayloadProtect_small [of "sent_protect ch cmd" pbs "[]"] assms by simp_all
  ultimately show ?thesis by (metis (no_types))
qed

theorem send_then_receive_witness:
  "\<exists>hdr body m. dp_send \<lparr>dp_readData = True, dp_written = Some []\<rparr> 77 5 3003 [1, 2, 3] 3
       = Inr (\<lparr>dp_readData = True, dp_written = Some [hdr, body]\<rparr>, True)
     \<and> rd_run (startReadData True) [Data hdr, Data body] = (startReadData True, [m])
     \<and> dm_channelId m = 5 \<and> dm_resArrayBuffer m = Some [1, 2, 3]"
  using send_then_receive [of "\<lparr>dp_readData = True, dp_written = Some []\<rparr>" "[]" 77 5 3003 "[1, 2, 3]"]
  by (auto simp: numeral_3_eq_3 simp del: rd_run.simps)

text \<open>A channel id of 128 or more breaks the close handshake: the message the reader delivers for a
  channel-close packet carries the command flag 16 and is not marked as closing.\<close>

theorem close_lost_large_channel:
  assumes "dp_written dp = Some w" "0 \<le> sid" "sid < 4294967296" "128 \<le> ch" "ch < 16384"
  shows "\<exists>hdr body m. dp_send dp sid ch (HdcCommand_num CMD_KERNEL_CHANNEL_CLOSE) [0] 1
       = Inr (dp\<lparr>dp_written := Some (w @ [hdr, body])\<rparr>, True)
     \<and> rd_run (startReadData True) [Data hdr, Data body] = (startReadData True, [m])
     \<and> dm_channelId m = ch \<and> dm_commandFlag m = 16 \<and> \<not> dm_channelClose m"
proof -
  obtain hdr body pbs m where "serializePayloadProtect (sent_protect ch 2) = Inr pbs"
    "dp_send dp sid ch 2 [0] (length [0::byte]) = Inr (dp\<lparr>dp_written := Some (w @ [hdr, body])\<rparr>, True)"
    "rd_run (startReadData True) [Data hdr, Data body] = (startReadData True, [m])"
    "dm_channelId m = pp_channelId (parsePayloadProtect pbs)"
    "dm_commandFlag m = pp_commandFlag (parsePayloadProtect pbs)"
    "dm_channelClose m = (pp_commandFlag (parsePayloadProtect pbs) = 2)"
    using send_delivers [OF assms(1-3), of "[0]" ch 2] by auto
  with parsePayloadProtect_large [of "sent_protect ch 2" pbs "[]"] assms show ?thesis by auto
qed

theorem close_lost_large_channel_witness:
  "\<exists>hdr body m. rd_run (startReadData True) [Data hdr, Data body] = (startReadData True, [m])
     \<and> dm_channelId m = 128 \<and> \<not> dm_channelClose m"
  using close_lost_large_channel [of "\<lparr>dp_readData = True, dp_written = Some []\<rparr>" "[]" 77 128]
  by (auto simp del: rd_run.simps)

text \<open>The read loop stops for good at the first malformed transfer: a head of fewer than 11 bytes
  or a failed transfer yields exactly one message, the one with session id -1, and no later event
  yields another.\<close>

theorem read_loop_stops_on_error:
  assumes "rd_state r = AwaitHead" "e = Failed \<or> (\<exists>d. e = Data d \<and> length d < 11)"
  shows "snd (rd_run r (e # es)) = [abnormal_message] \<and> rd_state (fst (rd_run r (e # es))) = Ended"
proof -
  have first: "rd_step r e = (r\<lparr>rd_state := Ended\<rparr>, [abnormal_message])"
    using assms by (auto simp: rd_fail_def parseHeadData_short)
  have ended: "rd_state r' = Ended \<Longrightarrow> snd (rd_run r' es) = [] \<and> rd_state (fst (rd_run r' es)) = Ended" for r'
  proof (induction es arbitrary: r')
    case Nil
    then show ?case by simp
  next
    case (Cons e' es)
    have "snd (rd_step r' e') = [] \<and> rd_state (fst (rd_step r' e')) = Ended"
      using Cons.prems by (cases e') auto
    with Cons.IH [of "fst (rd_step r' e')"] show ?case by (simp add: case_prod_beta Let_def)
  qed
  show ?thesis using ended [of "r\<lparr>rd_state := Ended\<rparr>"] first by (simp add: case_prod_beta Let_def)
qed

theorem read_loop_stops_on_error_witness:
  "snd (rd_run (startReadData True) [Data [], Data [1, 2]]) = [abnormal_message]"
  using read_loop_stops_on_error [of "startReadData True" "Data []" "[Data [1, 2]]"]
  by (simp add: startReadData_def)

text \<open>C32: \<open>UsbTransmissionChannel.readData\<close> asks the OUT endpoint: on a device whose bulk IN and OUT
  endpoints have different numbers and that answers on its IN endpoint only, every read is empty.\<close>

theorem readData_uses_out_endpoint:
  assumes "uc_endpointIn ch \<noteq> uc_endpointOut ch"
    and "\<And>e l. e \<noteq> uc_endpointIn ch \<Longrightarrow> transferIn e l = None"
  shows "usb_readData transferIn ch len = []"
  using assms by (simp add: usb_readData_def)

theorem readData_uses_out_endpoint_witness:
  "\<exists>ch. openHdcDevice [\<lparr>cf_value = 1, cf_interfaces = [\<lparr>if_number = 0, if_alternates =
       [\<lparr>al_class = 255, al_subclass = 80, al_protocol = 1, al_endpoints =
          [\<lparr>ep_number = 1, ep_direction = ''in'', ep_type = ''bulk''\<rparr>,
           \<lparr>ep_number = 2, ep_direction = ''out'', ep_type = ''bulk''\<rparr>]\<rparr>]\<rparr>]\<rparr>] = Some ch
     \<and> usb_readData (\<lambda>e l. if e = 1 then Some [1, 2, 3] else None) ch 3 = []"
proof -
  let ?ch = "\<lparr>uc_open = True, uc_endpointIn = 1, uc_endpointOut = 2, uc_interfaceNumber = 0\<rparr>"
  have "usb_readData (\<lambda>e l. if e = 1 then Some [1, 2, 3] else None) ?ch 3 = []"
    by (rule readData_uses_out_endpoint) auto
  then show ?thesis
    by (simp add: openHdcDevice_def filterAndFindDevice_def matches_filter_def HDC_DEVICE_FILTER_def
        filterEndpointNumber_def)
qed

end
