(* ===== verification/Hdc_Queue.thy ===== *)
theory Hdc_Queue
  imports JS_Prelude
begin

text \<open>
  The message queue between the USB reader and the command streams
  (\<open>src/ide/src/hdc/hdcclient/AsyncQueue.ts\<close>). A promise is a number; \<open>aq_settled\<close> records the
  value each settled promise has, \<open>aq_next\<close> is the next promise to be created. The underlying
  array queue is used through the interface \<open>fifo_queue\<close>.
\<close>

section \<open>DataMessageQueue\<close>

definition q_push :: "'a option \<Rightarrow> 'a list \<Rightarrow> 'a list \<times> bool" where
  "q_push entry q = (case entry of None \<Rightarrow> (q, False) | Some x \<Rightarrow> (x # q, True))"

definition q_pop :: "'a list \<Rightarrow> 'a option \<times> 'a list" where
  "q_pop q = (if q = [] then (None, []) else (Some (last q), butlast q))"

definition q_size :: "'a list \<Rightarrow> nat" where
  "q_size q = length q"

text \<open>The contract the client relies on; \<open>absq\<close> lists the elements in the order of arrival.\<close>

locale fifo_queue =
  fixes push :: "'a option \<Rightarrow> 'q \<Rightarrow> 'q \<times> bool"
    and pop :: "'q \<Rightarrow> 'a option \<times> 'q"
    and qsize :: "'q \<Rightarrow> nat"
    and absq :: "'q \<Rightarrow> 'a list"
  assumes push_Some: "absq (fst (push (Some x) q)) = absq q @ [x]"
    and push_None: "push None q = (q, False)"
    and pop_Nil: "absq q = [] \<Longrightarrow> fst (pop q) = None \<and> absq (snd (pop q)) = []"
    and pop_Cons: "absq q = x # xs \<Longrightarrow> fst (pop q) = Some x \<and> absq (snd (pop q)) = xs"
    and qsize_abs: "qsize q = length (absq q)"
begin

lemma qsize_0_iff: "qsize q = 0 \<longleftrightarrow> absq q = []"
  by (simp add: qsize_abs)

lemma pop_not_empty: "absq q \<noteq> [] \<Longrightarrow> fst (pop q) = Some (hd (absq q)) \<and> absq (snd (pop q)) = tl (absq q)"
  by (cases "absq q") (auto simp: pop_Cons)

text \<open>The refill idiom of the client: push when empty, then pop.\<close>

lemma refill_pop:
  "fst (pop (if qsize q = 0 then fst (push (Some x) q) else q))
     = Some (if absq q = [] then x else hd (absq q))
   \<and> absq (snd (pop (if qsize q = 0 then fst (push (Some x) q) else q))) = tl (absq q)"
proof (cases "absq q = []")
  case True
  then have "absq (fst (push (Some x) q)) = x # []" by (simp add: push_Some)
  from pop_Cons [OF this] True show ?thesis by (simp add: qsize_0_iff)
next
  case False
  then show ?thesis by (simp add: qsize_0_iff pop_not_empty)
qed

end

interpretation mq: fifo_queue q_push q_pop q_size rev
proof
  show "rev q = x # xs \<Longrightarrow> fst (q_pop q) = Some x \<and> rev (snd (q_pop q)) = xs" for q :: "'a list" and x xs
    by (cases q rule: rev_cases) (auto simp: q_pop_def)
qed (auto simp: q_push_def q_pop_def q_size_def)

section \<open>AsyncQueue\<close>

record 'm async_queue =
  aq_promiseQueue :: "nat list"
  aq_resolverQueue :: "nat list"
  aq_next :: nat
  aq_settled :: "nat \<Rightarrow> 'm option"

definition aq_new :: "'m async_queue" where
  "aq_new = \<lparr>aq_promiseQueue = [], aq_resolverQueue = [], aq_next = 0, aq_settled = (\<lambda>_. None)\<rparr>"

text \<open>The executor of \<open>new Promise\<close> runs at once: the resolver is queued before the promise.\<close>

definition aq_add :: "'m async_queue \<Rightarrow> 'm async_queue" where
  "aq_add s =
     (let p = aq_next s;
          s1 = s\<lparr>aq_next := p + 1, aq_resolverQueue := fst (q_push (Some p) (aq_resolverQueue s))\<rparr>
      in s1\<lparr>aq_promiseQueue := fst (q_push (Some p) (aq_promiseQueue s1))\<rparr>)"

text \<open>Only the first call of a resolver has an effect.\<close>

definition aq_resolve :: "nat \<Rightarrow> 'm \<Rightarrow> 'm async_queue \<Rightarrow> 'm async_queue" where
  "aq_resolve p m s = (if aq_settled s p = None then s\<lparr>aq_settled := (aq_settled s)(p \<mapsto> m)\<rparr> else s)"

definition aq_enqueue :: "'m \<Rightarrow> 'm async_queue \<Rightarrow> 'm async_queue" where
  "aq_enqueue item s =
     (let s1 = (if q_size (aq_resolverQueue s) = 0 then aq_add s else s);
          (resolver, rq) = q_pop (aq_resolverQueue s1);
          s2 = s1\<lparr>aq_resolverQueue := rq\<rparr>
      in case resolver of Some p \<Rightarrow> aq_resolve p item s2 | None \<Rightarrow> s2)"

definition aq_dequeue :: "'m async_queue \<Rightarrow> nat \<times> 'm async_queue" where
  "aq_dequeue s =
     (let s1 = (if q_size (aq_promiseQueue s) = 0 then aq_add s else s);
          (promise, pq) = q_pop (aq_promiseQueue s1);
          s2 = s1\<lparr>aq_promiseQueue := pq\<rparr>
      in case promise of Some p \<Rightarrow> (p, s2) | None \<Rightarrow> (aq_next s2, s2\<lparr>aq_next := aq_next s2 + 1\<rparr>))"

section \<open>Interleavings of producers and consumers\<close>

datatype 'm aq_op = Enq 'm | Deq

fun aq_run :: "'m aq_op list \<Rightarrow> 'm async_queue \<Rightarrow> nat list \<times> 'm async_queue" where
  "aq_run [] s = ([], s)"
| "aq_run (Enq m # ops) s = aq_run ops (aq_enqueue m s)"
| "aq_run (Deq # ops) s =
     (let (p, s1) = aq_dequeue s; (ps, s2) = aq_run ops s1 in (p # ps, s2))"

fun enq_items :: "'m aq_op list \<Rightarrow> 'm list" where
  "enq_items [] = []"
| "enq_items (Enq m # ops) = m # enq_items ops"
| "enq_items (Deq # ops) = enq_items ops"

text \<open>
  After \<open>length ms\<close> enqueues and \<open>d\<close> dequeues: promise \<open>i\<close> holds the \<open>i\<close>-th message, and the two
  queues hold the promises not yet handed out and the ones not yet settled.
\<close>

definition aq_inv :: "'m list \<Rightarrow> nat \<Rightarrow> 'm async_queue \<Rightarrow> bool" where
  "aq_inv ms d s \<longleftrightarrow>
     (let e = length ms; n = max e d in
      aq_next s = n \<and> rev (aq_resolverQueue s) = [e..<n] \<and> rev (aq_promiseQueue s) = [d..<n]
      \<and> aq_settled s = (\<lambda>i. if i < e then Some (ms ! i) else None))"

lemma aq_inv_new: "aq_inv [] 0 aq_new"
  by (simp add: aq_inv_def aq_new_def)

lemma upt_max_Nil: "[e..<max e d] = [] \<longleftrightarrow> d \<le> e" "[d..<max e d] = [] \<longleftrightarrow> e \<le> d"
  by auto

lemma aq_enqueue_inv:
  assumes "aq_inv ms d s"
  shows "aq_inv (ms @ [m]) d (aq_enqueue m s)"
proof -
  let ?e = "length ms"
  define s1 where "s1 = (if q_size (aq_resolverQueue s) = 0 then aq_add s else s)"
  have rq: "rev (aq_resolverQueue s) = [?e..<max ?e d]" using assms by (simp add: aq_inv_def Let_def)
  have empty: "q_size (aq_resolverQueue s) = 0 \<longleftrightarrow> d \<le> ?e"
    using rq by (auto simp: mq.qsize_0_iff)
  have rq1: "aq_resolverQueue s1
      = (if q_size (aq_resolverQueue s) = 0 then fst (q_push (Some (aq_next s)) (aq_resolverQueue s))
         else aq_resolverQueue s)"
    by (simp add: s1_def aq_add_def Let_def)
  have head: "fst (q_pop (aq_resolverQueue s1)) = Some ?e"
    "rev (snd (q_pop (aq_resolverQueue s1))) = [Suc ?e..<max ?e d]"
    using mq.refill_pop [of "aq_resolverQueue s" "aq_next s"] assms rq
    unfolding rq1 by (auto simp: aq_inv_def Let_def upt_rec max_def tl_upt)
  have rest: "aq_next s1 = max (Suc ?e) d" "rev (aq_promiseQueue s1) = [d..<max (Suc ?e) d]"
    "aq_settled s1 = aq_settled s"
    using assms empty
    by (auto simp: s1_def aq_add_def Let_def aq_inv_def q_push_def max_def le_Suc_eq)
  have "aq_settled s ?e = None" using assms by (simp add: aq_inv_def Let_def)
  then have "aq_enqueue m s = s1\<lparr>aq_resolverQueue := snd (q_pop (aq_resolverQueue s1)),
      aq_settled := (aq_settled s1)(?e \<mapsto> m)\<rparr>"
    using head(1) rest(3)
    by (simp add: aq_enqueue_def s1_def [symmetric] Let_def aq_resolve_def case_prod_beta)
  then show ?thesis
    using assms head(2) rest by (auto simp: aq_inv_def Let_def fun_eq_iff nth_append max_def)
qed

lemma aq_dequeue_inv:
  assumes "aq_inv ms d s"
  shows "fst (aq_dequeue s) = d \<and> aq_inv ms (Suc d) (snd (aq_dequeue s))"
proof -
  let ?e = "length ms"
  define s1 where "s1 = (if q_size (aq_promiseQueue s) = 0 then aq_add s else s)"
  have pq: "rev (aq_promiseQueue s) = [d..<max ?e d]" using assms by (simp add: aq_inv_def Let_def)
  have empty: "q_size (aq_promiseQueue s) = 0 \<longleftrightarrow> ?e \<le> d"
    using pq by (auto simp: mq.qsize_0_iff)
  have pq1: "aq_promiseQueue s1
      = (if q_size (aq_promiseQueue s) = 0 then fst (q_push (Some (aq_next s)) (aq_promiseQueue s))
         else aq_promiseQueue s)"
    by (simp add: s1_def aq_add_def Let_def)
  have head: "fst (q_pop (aq_promiseQueue s1)) = Some d"
    "rev (snd (q_pop (aq_promiseQueue s1))) = [Suc d..<max ?e d]"
    using mq.refill_pop [of "aq_promiseQueue s" "aq_next s"] assms pq
    unfolding pq1 by (auto simp: aq_inv_def Let_def upt_rec max_def tl_upt)
  have rest: "aq_next s1 = max ?e (Suc d)" "rev (aq_resolverQueue s1) = [?e..<max ?e (Suc d)]"
    "aq_settled s1 = aq_settled s"
    using assms empty
    by (auto simp: s1_def aq_add_def Let_def aq_inv_def q_push_def max_def le_Suc_eq)
  have "aq_dequeue s = (d, s1\<lparr>aq_promiseQueue := snd (q_pop (aq_promiseQueue s1))\<rparr>)"
    using head(1)
    by (simp add: aq_dequeue_def s1_def [symmetric] Let_def case_prod_beta)
  then show ?thesis
    using assms head(2) rest by (auto simp: aq_inv_def Let_def max_def)
qed

lemma aq_run_inv:
  "aq_inv ms d s \<Longrightarrow> aq_run ops s = (ps, s') \<Longrightarrow>
     aq_inv (ms @ enq_items ops) (d + length ps) s' \<and> ps = [d..<d + length ps]"
proof (induction ops s arbitrary: ms d ps s' rule: aq_run.induct)
  case (1 s)
  then show ?case by simp
next
  case (2 m ops s)
  from 2(1) [OF aq_enqueue_inv [OF 2(2)]] 2(3) show ?case by simp
next
  case (3 ops s)
  obtain p s1 where deq: "aq_dequeue s = (p, s1)" by (cases "aq_dequeue s")
  obtain qs where run: "aq_run ops s1 = (qs, s')" "ps = p # qs"
    using 3(3) deq by (auto split: prod.splits)
  from aq_dequeue_inv [OF 3(2)] deq have p: "p = d" "aq_inv ms (Suc d) s1" by simp_all
  from 3(1) [OF deq [symmetric] refl p(2) run(1)]
  have qs: "aq_inv (ms @ enq_items ops) (Suc d + length qs) s'" "qs = [Suc d..<Suc d + length qs]"
    by simp_all
  have "d # [Suc d..<Suc d + length qs] = [d..<d + length (d # qs)]"
    by (simp add: upt_conv_Cons del: upt_Suc)
  with qs run(2) p(1) show ?case by simp
qed

text \<open>C7: the queue is first in, first out across every interleaving of producers and consumers: the
  \<open>k\<close>-th promise handed out by \<open>dequeue\<close> is settled exactly when at least \<open>k + 1\<close> messages were
  enqueued, and then with the \<open>k\<close>-th of them.\<close>

theorem AsyncQueue_fifo:
  assumes "aq_run ops aq_new = (ps, s)" "k < length ps"
  shows "aq_settled s (ps ! k) = (if k < length (enq_items ops) then Some (enq_items ops ! k) else None)"
proof -
  have "aq_inv (enq_items ops) (length ps) s \<and> ps = [0..<length ps]"
    using aq_run_inv [OF aq_inv_new assms(1)] by simp
  then have "aq_inv (enq_items ops) (length ps) s" "ps ! k = k"
    using assms(2) by (metis, metis add_0 nth_upt)
  then show ?thesis by (simp add: aq_inv_def Let_def)
qed

theorem AsyncQueue_fifo_witness:
  "\<exists>ps s. aq_run [Deq, Enq ''a'', Enq ''b'', Deq, Deq] aq_new = (ps, s) \<and> length ps = 3
     \<and> aq_settled s (ps ! 0) = Some ''a'' \<and> aq_settled s (ps ! 1) = Some ''b'' \<and> aq_settled s (ps ! 2) = None"
proof -
  let ?ops = "[Deq, Enq ''a'', Enq ''b'', Deq, Deq] :: string aq_op list"
  obtain ps s where run: "aq_run ?ops aq_new = (ps, s)" by (cases "aq_run ?ops aq_new")
  have len: "length ps = 3"
    using run by (auto split: prod.splits)
  show ?thesis
    using run len AsyncQueue_fifo [OF run, of 0] AsyncQueue_fifo [OF run, of 1] AsyncQueue_fifo [OF run, of 2]
    by simp
qed

end
