(* ===== verification/Hdc_Client.thy ===== *)
theory Hdc_Client
  imports Hdc_Transport Hdc_Queue
begin

text \<open>
  The HDC client proper: command parsing (\<open>Utils.ts\<close>, \<open>FormatCommand.ts\<close>), the client with its map
  of bound streams (\<open>HdcClient.ts\<close>) and a stream's commands (\<open>HdcStream.ts\<close>).

  A stream is identified by its channel id. The messages a stream awaits one after the other are
  the list \<open>inbox\<close>: by \<open>AsyncQueue_fifo\<close> the \<open>k\<close>-th await yields the \<open>k\<close>-th message enqueued. An
  await on an empty inbox is \<open>Blocked\<close>.
\<close>

section \<open>Utils and FormatCommand\<close>

definition getLocalId :: "int \<Rightarrow> int \<times> int" where
  "getLocalId localId = (let i = (if localId = 4294967295 then 1 else localId) in (i, i + 1))"

fun nextIds :: "nat \<Rightarrow> int \<Rightarrow> int list" where
  "nextIds 0 i = []"
| "nextIds (Suc n) i = (let (x, i') = getLocalId i in x # nextIds n i')"

record FormatCommand =
  fc_cmdFlag :: int
  fc_parameters :: jsstring
  fc_bJumpDo :: bool

definition string2FormatCommand :: "jsstring \<Rightarrow> FormatCommand" where
  "string2FormatCommand cmd =
     (let fc = \<lparr>fc_cmdFlag = - 1, fc_parameters = [], fc_bJumpDo = False\<rparr> in
      if js_startsWith cmd (CMDSTR_SHELL @ js '' '') then
        fc\<lparr>fc_cmdFlag := HdcCommand_num CMD_UNITY_EXECUTE,
           fc_parameters := js_substring_from cmd (length (CMDSTR_SHELL @ js '' ''))\<rparr>
      else if js_startsWith cmd CMDSTR_SHELL then fc\<lparr>fc_cmdFlag := HdcCommand_num CMD_SHELL_INIT\<rparr>
      else if js_startsWith cmd CMDSTR_FILE_RECV then
        fc\<lparr>fc_cmdFlag := HdcCommand_num CMD_FILE_INIT,
           fc_parameters := js_substring_from cmd (length (CMDSTR_FILE_RECV @ js '' ''))\<rparr>
      else if js_startsWith cmd CMDSTR_FILE_SEND then
        fc\<lparr>fc_cmdFlag := HdcCommand_num CMD_FILE_INIT,
           fc_parameters := js_substring_from cmd (length (CMDSTR_FILE_SEND @ js '' ''))\<rparr>
      else fc\<lparr>fc_bJumpDo := True\<rparr>)"

definition formatCommand :: "jsstring \<Rightarrow> FormatCommand" where
  "formatCommand cmd =
     (let command =
        (if js_startsWith cmd (js ''hdc_std'') then js_substring_from cmd (length (js ''hdc_std ''))
         else if js_startsWith cmd (js ''hdc'') then js_substring_from cmd (length (js ''hdc ''))
         else cmd)
      in string2FormatCommand command)"

section \<open>HdcStream and HdcClient: the state\<close>

record HdcStream =
  st_dataMessages :: "DataMessage async_queue"
  st_interactiveShellMode :: bool
  st_fileSize :: int

record HdcClient =
  hc_sessionId :: int
  hc_dp :: DataProcessing
  hc_cmdStreams :: "int list"
  hc_stream :: "int \<Rightarrow> HdcStream"

definition upd_stream :: "int \<Rightarrow> (HdcStream \<Rightarrow> HdcStream) \<Rightarrow> HdcClient \<Rightarrow> HdcClient" where
  "upd_stream ch f c = c\<lparr>hc_stream := (hc_stream c)(ch := f (hc_stream c ch))\<rparr>"

definition putMessageInQueue :: "DataMessage \<Rightarrow> HdcStream \<Rightarrow> HdcStream" where
  "putMessageInQueue m st = st\<lparr>st_dataMessages := aq_enqueue m (st_dataMessages st)\<rparr>"

text \<open>\<open>Map.set\<close> keeps the position of a key that is already bound.\<close>

definition bindStream :: "int \<Rightarrow> HdcClient \<Rightarrow> HdcClient" where
  "bindStream ch c = (if ch \<in> set (hc_cmdStreams c) then c else c\<lparr>hc_cmdStreams := hc_cmdStreams c @ [ch]\<rparr>)"

definition unbindStream :: "int \<Rightarrow> HdcClient \<Rightarrow> HdcClient" where
  "unbindStream ch c = c\<lparr>hc_cmdStreams := filter (\<lambda>x. x \<noteq> ch) (hc_cmdStreams c)\<rparr>"

definition createDataMessage :: "DataMessage \<Rightarrow> HdcClient \<Rightarrow> HdcClient" where
  "createDataMessage m c =
     (if dm_channelId m \<in> set (hc_cmdStreams c)
      then upd_stream (dm_channelId m) (putMessageInQueue m) c else c)"

definition disconnect_message :: DataMessage where
  "disconnect_message = abnormal_message\<lparr>dm_usbHead :=
     \<lparr>uh_flag = [0, 1], uh_option = - 1, uh_sessionId = - 1, uh_dataSize = - 1\<rparr>\<rparr>"

text \<open>\<open>closed\<close>: whether \<open>transmissionChannel.close()\<close> returned; when it throws, the rest is skipped.\<close>

definition disconnect :: "bool \<Rightarrow> HdcClient \<Rightarrow> HdcClient" where
  "disconnect closed c =
     (if closed then
        (let c1 = c\<lparr>hc_dp := stopReadData (hc_dp c)\<rparr>;
             c2 = fold (\<lambda>ch. upd_stream ch (putMessageInQueue disconnect_message)) (hc_cmdStreams c1) c1
         in c2\<lparr>hc_cmdStreams := []\<rparr>)
      else c)"

definition newHdcStream :: "int \<Rightarrow> HdcClient \<Rightarrow> int \<times> int \<times> HdcClient" where
  "newHdcStream localId c =
     (let (ch, localId') = getLocalId localId;
          c1 = upd_stream ch (\<lambda>_. \<lparr>st_dataMessages = aq_new, st_interactiveShellMode = False, st_fileSize = - 1\<rparr>) c
      in (ch, localId', bindStream ch c1))"

definition closeStream :: "int \<Rightarrow> HdcClient \<Rightarrow> HdcClient" where
  "closeStream ch c = unbindStream ch c"

section \<open>HdcClient: connecting\<close>

definition handShakeSuccess :: "bytes \<Rightarrow> HdcClient \<Rightarrow> reader result" where
  "handShakeSuccess handBody c =
     bindr (parsePlayHead (js_slice handBody 0 getPayloadHeadLength))
       (\<lambda>_. Inr (startReadData (dp_readData (hc_dp c))))"

text \<open>\<open>sid\<close> is the random session id; \<open>transfers\<close> are the results of the device reads.\<close>

definition connectDevice :: "int \<Rightarrow> jsstring \<Rightarrow> bytes list \<Rightarrow> HdcClient \<Rightarrow> (HdcClient \<times> reader option \<times> bool) result" where
  "connectDevice sid serialNumber transfers c0 =
     (let c = c0\<lparr>hc_sessionId := sid\<rparr>;
          handShake = mkSessionHandShake HANDSHAKE_MESSAGE (AuthType_num AUTH_NONE) sid serialNumber [] in
      bindr (serializeSessionHandShake handShake) (\<lambda>hs.
      bindr (dp_send (hc_dp c) sid 0 (HdcCommand_num CMD_KERNEL_HANDSHAKE) hs (length hs)) (\<lambda>(dp, sendResult).
      let c1 = c\<lparr>hc_dp := dp\<rparr> in
      if sendResult then
        (case transfers of
           head # body # _ \<Rightarrow>
             bindr (parseHeadData head) (\<lambda>h.
             if sid = uh_sessionId h
             then bindr (handShakeSuccess body c1) (\<lambda>rd. Inr (c1, Some rd, True))
             else Inr (c1, None, False))
         | _ \<Rightarrow> Inl Blocked)
      else Inr (c1, None, False))))"

section \<open>HdcStream: commands\<close>

definition sendToDaemon :: "int \<Rightarrow> FormatCommand \<Rightarrow> bytes \<Rightarrow> nat \<Rightarrow> HdcClient \<Rightarrow> (HdcClient \<times> bool) result" where
  "sendToDaemon ch command payload dataLength c =
     bindr (dp_send (hc_dp c) (hc_sessionId c) ch (fc_cmdFlag command) payload dataLength)
       (\<lambda>(dp, ok). Inr (c\<lparr>hc_dp := dp\<rparr>, ok))"

definition message_body :: "DataMessage \<Rightarrow> bytes result" where
  "message_body m = (case dm_body m of Some b \<Rightarrow> Inr b | None \<Rightarrow> Inl TypeError)"

fun getMessage :: "DataMessage list \<Rightarrow> (DataMessage \<times> DataMessage list) result" where
  "getMessage [] = Inl Blocked"
| "getMessage (m # ms) = Inr (m, ms)"

definition handleCommandFileCheck :: "int \<Rightarrow> DataMessage list \<Rightarrow> HdcClient \<Rightarrow> (HdcClient \<times> DataMessage list) result" where
  "handleCommandFileCheck ch inbox c =
     bindr (getMessage inbox) (\<lambda>(m, inbox1).
     bindr (message_body m) (\<lambda>body.
     bindr (parsePlayHead (js_slice body 0 getPayloadHeadLength)) (\<lambda>ph.
     let headSize = ph_headSize ph; dataSize = ph_dataSize ph;
         protect = parsePayloadProtect (js_slice body getPayloadHeadLength (getPayloadHeadLength + headSize))
     in if pp_commandFlag protect = HdcCommand_num CMD_FILE_CHECK then
          (let c1 = (if dataSize > 0
                     then upd_stream ch (\<lambda>st. st\<lparr>st_fileSize := tc_fileSize (parseTransferConfig
                            (js_slice body (getPayloadHeadLength + headSize)
                              (getPayloadHeadLength + headSize + dataSize)))\<rparr>) c
                     else c)
           in bindr (sendToDaemon ch \<lparr>fc_cmdFlag = HdcCommand_num CMD_FILE_BEGIN, fc_parameters = [],
                fc_bJumpDo = False\<rparr> [] 0 c1) (\<lambda>(c2, _). Inr (c2, inbox1)))
        else Inr (c, inbox1))))"

definition FileRecvCommand :: "int \<Rightarrow> FormatCommand \<Rightarrow> DataMessage list \<Rightarrow> HdcClient \<Rightarrow> (HdcClient \<times> DataMessage list) result" where
  "FileRecvCommand ch command inbox c =
     (let cmdFlag = (if HdcCommand_num CMD_FILE_INIT = fc_cmdFlag command then js ''send '' else [])
      in if \<not> (length (fc_parameters command) > length cmdFlag) then Inr (c, inbox)
         else
           (let aa = js_slice_from (text_encode (fc_parameters command)) 5 in
            bindr (sendToDaemon ch command aa (length aa) c) (\<lambda>(c1, _).
            bindr (getMessage inbox) (\<lambda>(m, inbox1).
            bindr (message_body m) (\<lambda>body.
            bindr (parsePlayHead (js_slice body 0 getPayloadHeadLength)) (\<lambda>_.
            handleCommandFileCheck ch inbox1 c1))))))"

definition text_commands :: "HdcCommand list" where
  "text_commands = [CMD_SHELL_INIT, CMD_SHELL_DATA, CMD_UNITY_EXECUTE, CMD_UNITY_TERMINATE,
     CMD_UNITY_REMOUNT, CMD_UNITY_REBOOT, CMD_UNITY_RUNMODE, CMD_UNITY_HILOG]"

text \<open>The \<open>switch\<close> on the command flag; every branch falls through to \<open>return false\<close>.\<close>

definition DoCommandRemote :: "int \<Rightarrow> FormatCommand \<Rightarrow> DataMessage list \<Rightarrow> HdcClient \<Rightarrow> (HdcClient \<times> DataMessage list \<times> bool) result" where
  "DoCommandRemote ch command inbox c =
     (if fc_cmdFlag command \<in> set (map HdcCommand_num text_commands) then
        (let d = text_encode (fc_parameters command) in
         bindr (sendToDaemon ch command d (length d) c) (\<lambda>(c1, sendResult).
         Inr (if sendResult \<and> HdcCommand_num CMD_SHELL_INIT = fc_cmdFlag command
              then upd_stream ch (\<lambda>st. st\<lparr>st_interactiveShellMode := True\<rparr>) c1 else c1, inbox, False)))
      else if fc_cmdFlag command = HdcCommand_num CMD_FILE_INIT then
        bindr (FileRecvCommand ch command inbox c) (\<lambda>(c1, inbox1). Inr (c1, inbox1, False))
      else if fc_cmdFlag command = HdcCommand_num CMD_FILE_FINISH
          \<or> fc_cmdFlag command = HdcCommand_num CMD_KERNEL_CHANNEL_CLOSE then
        bindr (sendToDaemon ch command [if fc_parameters command = js ''0'' then 0 else 1] 1 c)
          (\<lambda>(c1, _). Inr (c1, inbox, False))
      else Inr (c, inbox, False))"

definition DoCommand :: "int \<Rightarrow> jsstring \<Rightarrow> DataMessage list \<Rightarrow> HdcClient \<Rightarrow> (HdcClient \<times> DataMessage list \<times> bool) result" where
  "DoCommand ch cmd inbox c =
     DoCommandRemote ch
       (if st_interactiveShellMode (hc_stream c ch)
        then \<lparr>fc_cmdFlag = HdcCommand_num CMD_SHELL_DATA, fc_parameters = cmd, fc_bJumpDo = False\<rparr>
        else formatCommand cmd) inbox c"

section \<open>Local ids\<close>

text \<open>The ids cycle through \<open>1 .. 4294967294\<close>.\<close>

lemma nextIds_eq:
  assumes "1 \<le> i" "i \<le> 4294967295"
  shows "nextIds n i = map (\<lambda>k. (i - 1 + int k) mod 4294967294 + 1) [0..<n]"
  using assms
proof (induction n arbitrary: i)
  case 0
  then show ?case by simp
next
  case (Suc n)
  define j where "j = (if i = 4294967295 then 1 else i)"
  have j: "1 \<le> j + 1" "j + 1 \<le> 4294967295" "j = (i - 1) mod 4294967294 + 1"
    using Suc.prems by (auto simp: j_def)
  have "(j + 1 - 1 + int k) mod 4294967294 = (i - 1 + int (Suc k)) mod 4294967294" for k
  proof -
    have "(j + int k) mod 4294967294 = ((i - 1) mod 4294967294 + (1 + int k)) mod 4294967294"
      by (simp add: j(3) ac_simps)
    also have "\<dots> = (i - 1 + int (Suc k)) mod 4294967294"
      by (subst mod_add_left_eq) simp
    finally show ?thesis by simp
  qed
  then have "nextIds n (j + 1) = map (\<lambda>k. (i - 1 + int (Suc k)) mod 4294967294 + 1) [0..<n]"
    by (simp add: Suc.IH [OF j(1,2)])
  moreover have "nextIds (Suc n) i = j # nextIds n (j + 1)"
    by (simp add: getLocalId_def j_def Let_def)
  moreover have "[0..<Suc n] = 0 # map Suc [0..<n]"
    by (simp add: map_Suc_upt upt_conv_Cons del: upt_Suc)
  ultimately show ?case using j(3) by (simp del: upt_Suc)
qed

text \<open>C39: the channel ids handed out by \<open>Utils.getLocalId\<close> are never 0 and never 4294967295, and any
  4294967294 consecutive ones are pairwise different, also across the wrap-around.\<close>

theorem localIds_distinct:
  assumes "1 \<le> i" "i \<le> 4294967295" "n \<le> 4294967294"
  shows "set (nextIds n i) \<subseteq> {1..4294967294} \<and> distinct (nextIds n i)"
proof
  have "x mod 4294967294 + 1 \<in> {1..4294967294}" for x :: int
    using pos_mod_bound [of 4294967294 x] pos_mod_sign [of 4294967294 x] by simp
  then show "set (nextIds n i) \<subseteq> {1..4294967294}"
    unfolding nextIds_eq [OF assms(1,2)] by (simp only: set_map) blast
  have "inj_on (\<lambda>k. (i - 1 + int k) mod 4294967294 + 1) {0..<n}"
  proof (rule inj_onI)
    fix x y
    assume xy: "x \<in> {0..<n}" "y \<in> {0..<n}"
      and "(i - 1 + int x) mod 4294967294 + 1 = (i - 1 + int y) mod 4294967294 + 1"
    then have "4294967294 dvd (i - 1 + int x) - (i - 1 + int y)"
      by (simp add: mod_eq_dvd_iff)
    then have d: "4294967294 dvd int x - int y" by simp
    have "\<bar>int x - int y\<bar> < 4294967294" using xy assms(3) by auto
    with d have "int x - int y = 0"
      using zdvd_not_zless [of "\<bar>int x - int y\<bar>" 4294967294] by (metis abs_ge_zero dvd_abs_iff order_le_less zero_less_abs_iff)
    then show "x = y" by simp
  qed
  then show "distinct (nextIds n i)"
    by (simp add: nextIds_eq [OF assms(1,2)] distinct_map)
qed

theorem localIds_distinct_witness:
  "nextIds 3 4294967293 = [4294967293, 4294967294, 1] \<and> distinct (nextIds 3 4294967293)"
  using localIds_distinct [of 4294967293 3] by (simp add: numeral_3_eq_3 getLocalId_def)

section \<open>Command parsing\<close>

text \<open>C24: a command line is recognised with or without its \<open>hdc\<close>/\<open>hdc_std\<close> prefix: \<open>shell P\<close> executes
  \<open>P\<close>, a bare \<open>shell\<close> opens an interactive shell, \<open>file recv P\<close> and \<open>file send P\<close> start a file transfer
  with the parameters \<open>P\<close>.\<close>

theorem formatCommand_prefixes:
  assumes "pre \<in> {[], js ''hdc '', js ''hdc_std ''}"
  shows "formatCommand (pre @ js ''shell '' @ p)
       = \<lparr>fc_cmdFlag = HdcCommand_num CMD_UNITY_EXECUTE, fc_parameters = p, fc_bJumpDo = False\<rparr>
     \<and> formatCommand (pre @ js ''shell'')
       = \<lparr>fc_cmdFlag = HdcCommand_num CMD_SHELL_INIT, fc_parameters = [], fc_bJumpDo = False\<rparr>
     \<and> formatCommand (pre @ js ''file recv '' @ p)
       = \<lparr>fc_cmdFlag = HdcCommand_num CMD_FILE_INIT, fc_parameters = p, fc_bJumpDo = False\<rparr>
     \<and> formatCommand (pre @ js ''file send '' @ p)
       = \<lparr>fc_cmdFlag = HdcCommand_num CMD_FILE_INIT, fc_parameters = p, fc_bJumpDo = False\<rparr>"
proof -
  note defs = formatCommand_def string2FormatCommand_def CMDSTR_SHELL_def CMDSTR_FILE_RECV_def
    CMDSTR_FILE_SEND_def js_lit Let_def
  have js_Nil: "js [] = []" by (simp add: js_def)
  consider "pre = js []" | "pre = js ''hdc ''" | "pre = js ''hdc_std ''"
    using assms js_Nil by auto
  then show ?thesis
    by cases (simp_all only: append_assoc [symmetric] js_append [symmetric] append.simps,
        simp_all add: defs js_Nil flip: js_append)
qed

theorem formatCommand_prefixes_witness:
  "formatCommand (js ''hdc_std shell ls'')
     = \<lparr>fc_cmdFlag = 1001, fc_parameters = js ''ls'', fc_bJumpDo = False\<rparr>"
  using formatCommand_prefixes [of "js ''hdc_std ''" "js ''ls''"] by (simp add: js_def)

section \<open>Routing messages to streams\<close>

lemma hc_stream_upd [simp]:
  "hc_stream (upd_stream ch f c) x = (if x = ch then f (hc_stream c x) else hc_stream c x)"
  "hc_cmdStreams (upd_stream ch f c) = hc_cmdStreams c"
  "hc_dp (upd_stream ch f c) = hc_dp c"
  "hc_sessionId (upd_stream ch f c) = hc_sessionId c"
  by (auto simp: upd_stream_def)

definition client_inv :: "HdcClient \<Rightarrow> bool" where
  "client_inv c \<longleftrightarrow> distinct (hc_cmdStreams c) \<and> (\<forall>ch\<in>set (hc_cmdStreams c). 1 \<le> ch \<and> ch \<le> 4294967294)"

lemma getLocalId_range: "1 \<le> i \<Longrightarrow> i \<le> 4294967295 \<Longrightarrow>
    1 \<le> fst (getLocalId i) \<and> fst (getLocalId i) \<le> 4294967294 \<and> 1 \<le> snd (getLocalId i) \<and> snd (getLocalId i) \<le> 4294967295"
  by (auto simp: getLocalId_def Let_def)

lemma client_inv_ops [intro]:
  assumes "client_inv c"
  shows "client_inv (createDataMessage m c)" "client_inv (unbindStream ch c)" "client_inv (disconnect b c)"
    "1 \<le> i \<Longrightarrow> i \<le> 4294967295 \<Longrightarrow> client_inv (snd (snd (newHdcStream i c)))"
proof -
  have "hc_cmdStreams (fold (\<lambda>ch. upd_stream ch f) chs c') = hc_cmdStreams c'" for chs f c'
    by (induction chs arbitrary: c') auto
  then show "client_inv (disconnect b c)"
    using assms by (auto simp: client_inv_def disconnect_def Let_def)
  assume "1 \<le> i" "i \<le> 4294967295"
  with getLocalId_range [OF this] assms show "client_inv (snd (snd (newHdcStream i c)))"
    by (auto simp: newHdcStream_def Let_def case_prod_beta bindStream_def client_inv_def)
qed (use assms in \<open>auto simp: client_inv_def createDataMessage_def unbindStream_def\<close>)

lemma createDataMessage_streams [simp]: "hc_cmdStreams (createDataMessage m c) = hc_cmdStreams c"
  by (simp add: createDataMessage_def)

lemma createDataMessage_queue:
  "st_dataMessages (hc_stream (createDataMessage m c) ch)
     = (if dm_channelId m = ch \<and> ch \<in> set (hc_cmdStreams c)
        then aq_enqueue m (st_dataMessages (hc_stream c ch)) else st_dataMessages (hc_stream c ch))"
  by (auto simp: createDataMessage_def putMessageInQueue_def)

text \<open>C6: the client is a demultiplexer: after any sequence of delivered messages the queue of a bound
  stream has received exactly the messages of its own channel, in their order of arrival, and the
  queue of an unbound stream is unchanged.\<close>

theorem demultiplexes_by_channel:
  "st_dataMessages (hc_stream (fold createDataMessage ms c) ch)
     = (if ch \<in> set (hc_cmdStreams c)
        then fold aq_enqueue (filter (\<lambda>m. dm_channelId m = ch) ms) (st_dataMessages (hc_stream c ch))
        else st_dataMessages (hc_stream c ch))"
  by (induction ms arbitrary: c) (auto simp: createDataMessage_queue)

text \<open>The message the read loop emits after an error (channel id -1) reaches no stream: no stream
  can be bound to -1, so a command waiting for an answer is not told that the connection broke.\<close>

theorem read_error_reaches_no_stream:
  assumes "client_inv c"
  shows "fold createDataMessage (snd (rd_step r Failed)) c = c"
proof -
  have "- 1 \<notin> set (hc_cmdStreams c)" using assms by (auto simp: client_inv_def)
  then show ?thesis
    by (auto simp: rd_fail_def createDataMessage_def abnormal_message_def split: read_state.split)
qed

theorem read_error_reaches_no_stream_witness:
  "\<exists>c. hc_cmdStreams c = [1] \<and> snd (rd_step (startReadData True) Failed) = [abnormal_message]
     \<and> fold createDataMessage (snd (rd_step (startReadData True) Failed)) c = c"
proof -
  let ?c = "\<lparr>hc_sessionId = 7, hc_dp = \<lparr>dp_readData = True, dp_written = None\<rparr>, hc_cmdStreams = [1],
     hc_stream = (\<lambda>_. \<lparr>st_dataMessages = aq_new, st_interactiveShellMode = False, st_fileSize = - 1\<rparr>)\<rparr>"
  have "client_inv ?c" by (simp add: client_inv_def)
  from read_error_reaches_no_stream [OF this, of "startReadData True"] show ?thesis
    by (intro exI [of _ ?c]) (simp add: startReadData_def rd_fail_def)
qed

lemma fold_post:
  assumes "distinct chs"
  shows "hc_stream (fold (\<lambda>ch. upd_stream ch f) chs c) x
     = (if x \<in> set chs then f (hc_stream c x) else hc_stream c x)"
  using assms by (induction chs arbitrary: c) auto

text \<open>A disconnect stops the reader, sends every bound stream one message with session id -1 (which
  ends a waiting shell command), leaves all other streams alone and unbinds all of them.\<close>

theorem disconnect_notifies_streams:
  assumes "client_inv c"
  shows "hc_cmdStreams (disconnect True c) = [] \<and> \<not> dp_readData (hc_dp (disconnect True c))
     \<and> uh_sessionId (dm_usbHead disconnect_message) = - 1
     \<and> (\<forall>ch. hc_stream (disconnect True c) ch =
          (if ch \<in> set (hc_cmdStreams c) then putMessageInQueue disconnect_message (hc_stream c ch)
           else hc_stream c ch))"
proof -
  have "hc_dp (fold (\<lambda>ch. upd_stream ch f) chs c') = hc_dp c'" for chs f c'
    by (induction chs arbitrary: c') auto
  then show ?thesis
    using assms
    by (auto simp: disconnect_def Let_def stopReadData_def disconnect_message_def client_inv_def fold_post)
qed

theorem disconnect_notifies_streams_witness:
  "\<exists>c. hc_cmdStreams c = [3, 1] \<and> hc_cmdStreams (disconnect True c) = []
     \<and> hc_stream (disconnect True c) 3 = putMessageInQueue disconnect_message (hc_stream c 3)
     \<and> hc_stream (disconnect True c) 2 = hc_stream c 2"
proof -
  let ?c = "\<lparr>hc_sessionId = 7, hc_dp = \<lparr>dp_readData = True, dp_written = None\<rparr>, hc_cmdStreams = [3, 1],
     hc_stream = (\<lambda>_. \<lparr>st_dataMessages = aq_new, st_interactiveShellMode = False, st_fileSize = - 1\<rparr>)\<rparr>"
  have "client_inv ?c" by (simp add: client_inv_def)
  from disconnect_notifies_streams [OF this] show ?thesis
    by (intro exI [of _ ?c]) auto
qed

end
