(* ===== verification/Hdc_Manager.thy ===== *)
theory Hdc_Manager
  imports Hdc_Client
begin

text \<open>
  \<open>HdcDeviceManager.ts\<close>: the registry of connected clients, the loops that collect a command's
  result and the interactive shell. The messages a loop awaits are the list \<open>inbox\<close>.
\<close>

section \<open>HdcDeviceManager: result loops\<close>

definition channel_close :: "jsstring \<Rightarrow> FormatCommand" where
  "channel_close p = \<lparr>fc_cmdFlag = HdcCommand_num CMD_KERNEL_CHANNEL_CLOSE, fc_parameters = p, fc_bJumpDo = False\<rparr>"

definition message_text :: "DataMessage \<Rightarrow> jsstring" where
  "message_text m = fst (getDataToString m)"

fun shell_loop :: "int \<Rightarrow> bool \<Rightarrow> jsstring \<Rightarrow> DataMessage list \<Rightarrow> HdcClient \<Rightarrow> (HdcClient \<times> jsstring) result" where
  "shell_loop ch isSkipResult acc [] c = Inl Blocked"
| "shell_loop ch isSkipResult acc (m # ms) c =
     (if dm_channelClose m \<or> isSkipResult then
        bindr (DoCommandRemote ch (channel_close (js ''0'')) ms c) (\<lambda>(c1, _).
        bindr (DoCommandRemote ch (channel_close (js ''0'')) ms (closeStream ch c1)) (\<lambda>(c2, _).
        Inr (c2, acc @ message_text m)))
      else if uh_sessionId (dm_usbHead m) = - 1 then
        Inr (closeStream ch c, js ''The device is abnormal'')
      else shell_loop ch isSkipResult (acc @ message_text m) ms c)"

text \<open>\<open>client = None\<close>: no device is selected and the promise is rejected.\<close>

definition shellResultAsString :: "int \<Rightarrow> jsstring \<Rightarrow> bool \<Rightarrow> DataMessage list \<Rightarrow> HdcClient option \<Rightarrow> (HdcClient \<times> jsstring) result" where
  "shellResultAsString localId cmd isSkipResult inbox client =
     (case client of
        None \<Rightarrow> Inl (Thrown ''not select device'')
      | Some c \<Rightarrow>
          (let (ch, _, c1) = newHdcStream localId c in
           bindr (DoCommand ch cmd inbox c1) (\<lambda>(c2, inbox1, _). shell_loop ch isSkipResult [] inbox1 c2)))"

definition appendBuffer :: "bytes \<Rightarrow> bytes \<Rightarrow> bytes result" where
  "appendBuffer buffer1 buffer2 =
     bindr (ta_set (replicate (length buffer1 + length buffer2) 0) buffer1 0)
       (\<lambda>tmp. ta_set tmp buffer2 (length buffer1))"

fun blob_loop :: "int \<Rightarrow> bool \<Rightarrow> bytes option \<Rightarrow> DataMessage list \<Rightarrow> HdcClient \<Rightarrow> (HdcClient \<times> bytes) result" where
  "blob_loop ch isSkipResult buf [] c = Inl Blocked"
| "blob_loop ch isSkipResult buf (m # ms) c =
     (if dm_channelClose m \<or> isSkipResult then
        Inr (closeStream ch c, case buf of Some b \<Rightarrow> b | None \<Rightarrow> [])
      else
        (case dm_resArrayBuffer m of
           None \<Rightarrow> blob_loop ch isSkipResult buf ms c
         | Some res \<Rightarrow>
             (case buf of
                None \<Rightarrow> blob_loop ch isSkipResult (Some res) ms c
              | Some b \<Rightarrow> bindr (appendBuffer b res) (\<lambda>b'. blob_loop ch isSkipResult (Some b') ms c))))"

text \<open>\<open>shellResultAsBlob\<close>: the buffers of the messages before the closing one, appended.\<close>

definition shellResultAsBlob :: "int \<Rightarrow> jsstring \<Rightarrow> bool \<Rightarrow> DataMessage list \<Rightarrow> HdcClient option \<Rightarrow> (HdcClient \<times> bytes) result" where
  "shellResultAsBlob localId cmd isSkipResult inbox client =
     (case client of
        None \<Rightarrow> Inl (Thrown ''not select device'')
      | Some c \<Rightarrow>
          (let (ch, _, c1) = newHdcStream localId c in
           bindr (DoCommand ch cmd inbox c1) (\<lambda>(c2, inbox1, _). blob_loop ch isSkipResult None inbox1 c2)))"

fun hiprofiler_loop :: "jsstring \<Rightarrow> DataMessage list \<Rightarrow> (jsstring \<times> DataMessage list) result" where
  "hiprofiler_loop acc [] = Inl Blocked"
| "hiprofiler_loop acc (m # ms) =
     (if dm_channelClose m then Inr (acc @ message_text m, ms) else hiprofiler_loop (acc @ message_text m) ms)"

definition stopHiprofiler :: "int \<Rightarrow> jsstring \<Rightarrow> DataMessage list \<Rightarrow> HdcClient option \<Rightarrow> (HdcClient \<times> jsstring) result" where
  "stopHiprofiler localId cmd inbox client =
     (case client of
        None \<Rightarrow> Inl (Thrown ''not select device'')
      | Some c \<Rightarrow>
          (let (ch, _, c1) = newHdcStream localId c in
           bindr (DoCommand ch cmd inbox c1) (\<lambda>(c2, inbox1, _).
           bindr (hiprofiler_loop [] inbox1) (\<lambda>(res, inbox2).
           bindr (DoCommandRemote ch (channel_close (js ''0'')) inbox2 c2) (\<lambda>(c3, _).
           Inr (closeStream ch c3, res))))))"

text \<open>
  The receive loop of \<open>fileRecv\<close>; each data message carries a 64-byte head before its payload. The
  progress callback is not modelled.
\<close>

fun file_loop :: "int \<Rightarrow> bytes option \<Rightarrow> nat \<Rightarrow> DataMessage list \<Rightarrow> HdcClient \<Rightarrow> (HdcClient \<times> bytes) result" where
  "file_loop ch finalBuffer off [] c = Inl Blocked"
| "file_loop ch finalBuffer off (m # ms) c =
     (if dm_channelClose m then Inr (c, case finalBuffer of Some b \<Rightarrow> b | None \<Rightarrow> [])
      else if dm_commandFlag m = HdcCommand_num CMD_FILE_FINISH then
        bindr (DoCommandRemote ch (channel_close []) ms c) (\<lambda>(c1, _).
        Inr (c1, case finalBuffer of Some b \<Rightarrow> b | None \<Rightarrow> []))
      else
        bindr (case (dm_resArrayBuffer m, finalBuffer) of
                 (Some res, Some b) \<Rightarrow>
                   (let resRS = js_slice_from res 64 in
                    bindr (ta_set b resRS off) (\<lambda>b'. Inr (Some b', off + length resRS)))
               | _ \<Rightarrow> Inr (finalBuffer, off)) (\<lambda>(buf', off').
        let fileSize = st_fileSize (hc_stream c ch) in
        if fileSize \<noteq> - 1 \<and> int off' \<ge> fileSize then
          bindr (DoCommandRemote ch \<lparr>fc_cmdFlag = HdcCommand_num CMD_FILE_FINISH, fc_parameters = [],
            fc_bJumpDo = False\<rparr> ms c) (\<lambda>(c1, _). file_loop ch buf' off' ms c1)
        else file_loop ch buf' off' ms c))"

definition FILE_RECV_PREFIX_STRING :: jsstring where
  "FILE_RECV_PREFIX_STRING = js ''hdc file recv -cwd C:'' @ [92] @ js '' ''"

definition fileRecv :: "int \<Rightarrow> jsstring \<Rightarrow> DataMessage list \<Rightarrow> HdcClient option \<Rightarrow> (HdcClient option \<times> bytes) result" where
  "fileRecv localId filename inbox client =
     (case client of
        None \<Rightarrow> Inr (None, [])
      | Some c \<Rightarrow>
          (let (ch, _, c1) = newHdcStream localId c in
           bindr (DoCommand ch (FILE_RECV_PREFIX_STRING @ filename @ js '' ./'') inbox c1) (\<lambda>(c2, inbox1, _).
           let fileSize = st_fileSize (hc_stream c2 ch) in
           bindr (file_loop ch (if fileSize > 0 then Some (replicate (nat fileSize) 0) else None) 0 inbox1 c2)
             (\<lambda>(c3, b). Inr (Some c3, b)))))"

section \<open>HdcDeviceManager: the interactive shell\<close>

definition escapeCharacterDict :: "(jsstring \<times> bytes) list" where
  "escapeCharacterDict =
     [(js ''Escape'', [27]), (js ''Tab'', [9]), (js ''Backspace'', [8]), (js ''Enter'', [13]),
      (js ''Insert'', [27, 91, 50, 126]), (js ''Home'', [27, 91, 49, 126]), (js ''Delete'', [27, 91, 51, 126]),
      (js ''End'', [27, 91, 52, 126]), (js ''PageDown'', [27, 91, 54, 126]), (js ''PageUp'', [27, 91, 53, 126]),
      (js ''ArrowUp'', [27, 91, 65]), (js ''ArrowDown'', [27, 91, 66]), (js ''ArrowLeft'', [27, 91, 68]),
      (js ''ArrowRight'', [27, 91, 67])]"

definition ctrlKey_dict :: "(jsstring \<times> bytes) list" where
  "ctrlKey_dict = [(js ''c'', [3])]"

record KeyboardEvent =
  ke_key :: jsstring
  ke_shiftKey :: bool
  ke_metaKey :: bool
  ke_ctrlKey :: bool
  ke_altKey :: bool

datatype shell_input = Key KeyboardEvent | Line jsstring

fun split_crlf :: "jsstring \<Rightarrow> jsstring list" where
  "split_crlf [] = [[]]"
| "split_crlf [a] = [[a]]"
| "split_crlf (a # b # s) =
     (if a = 13 \<and> b = 10 then [] # split_crlf s
      else (case split_crlf (b # s) of [] \<Rightarrow> [[a]] | l # ls \<Rightarrow> (a # l) # ls))"

definition processCommand :: "jsstring \<Rightarrow> jsstring" where
  "processCommand command =
     (if 92 \<notin> set command then command
      else concat (map (\<lambda>line. if line \<noteq> [] \<and> last line = 92 then butlast line else line @ [10])
        (split_crlf command)))"

text \<open>The upper-casing of the key name, on the ASCII letters that key names consist of.\<close>

definition key_upper :: "jsstring \<Rightarrow> jsstring" where
  "key_upper s = map (\<lambda>u. if 97 \<le> u \<and> u \<le> 122 then u - 32 else u) s"

text \<open>The handler that \<open>startShell\<close> returns. It does not await the commands it issues.\<close>

definition send_key :: "int \<Rightarrow> jsstring \<Rightarrow> bytes \<Rightarrow> HdcClient \<Rightarrow> HdcClient result" where
  "send_key ch cmd dataArray c =
     bindr (sendToDaemon ch \<lparr>fc_cmdFlag = HdcCommand_num CMD_SHELL_DATA, fc_parameters = cmd, fc_bJumpDo = False\<rparr>
       dataArray (length dataArray) c) (\<lambda>(c1, _). Inr c1)"

fun startShell_handler :: "int \<Rightarrow> shell_input \<Rightarrow> DataMessage list \<Rightarrow> HdcClient \<Rightarrow> HdcClient result" where
  "startShell_handler ch (Key e) inbox c =
     (if ke_shiftKey e \<and> key_upper (ke_key e) = js ''SHIFT'' then Inr c
      else if ke_metaKey e then Inr c
      else if ke_ctrlKey e then
        (case map_of ctrlKey_dict (ke_key e) of None \<Rightarrow> Inr c | Some code \<Rightarrow> send_key ch (ke_key e) code c)
      else if ke_altKey e then Inr c
      else (case map_of escapeCharacterDict (ke_key e) of
              Some code \<Rightarrow> send_key ch (ke_key e) code c
            | None \<Rightarrow>
                if length (ke_key e) = 1
                then bindr (DoCommand ch (ke_key e) inbox c) (\<lambda>(c1, _). Inr c1) else Inr c))"
| "startShell_handler ch (Line l) inbox c =
     bindr (DoCommand ch (processCommand l) inbox c) (\<lambda>(c1, _). Inr c1)"

text \<open>\<open>shellInit\<close>: every message is handed to the callback; the closing one ends the loop.\<close>

fun shellInit_loop :: "int \<Rightarrow> DataMessage list \<Rightarrow> HdcClient \<Rightarrow> (HdcClient \<times> DataMessage list) result" where
  "shellInit_loop ch [] c = Inl Blocked"
| "shellInit_loop ch (m # ms) c =
     (if dm_channelClose m then
        bindr (DoCommandRemote ch (channel_close (js ''0'')) ms c) (\<lambda>(c1, _). Inr (closeStream ch c1, [m]))
      else bindr (shellInit_loop ch ms c) (\<lambda>(c1, shown). Inr (c1, m # shown)))"

definition shellInit :: "int \<Rightarrow> DataMessage list \<Rightarrow> HdcClient \<Rightarrow> (HdcClient \<times> DataMessage list) result" where
  "shellInit ch inbox c =
     bindr (DoCommand ch (js ''hdc_std shell'') inbox c) (\<lambda>(c1, inbox1, _). shellInit_loop ch inbox1 c1)"

section \<open>HdcDeviceManager: connecting\<close>

text \<open>
  Clients are objects: \<open>hm_client\<close> is the store, \<open>hm_clientList\<close> and \<open>hm_current\<close> hold references.
  \<open>hm_recordSerial\<close> is \<open>SpRecordTrace.serialNumber\<close>.
\<close>

record HdcDeviceManager =
  hm_client :: "nat \<Rightarrow> HdcClient"
  hm_next :: nat
  hm_clientList :: "jsstring \<Rightarrow> nat option"
  hm_current :: "nat option"
  hm_recordSerial :: jsstring

definition new_client :: HdcClient where
  "new_client = \<lparr>hc_sessionId = 0, hc_dp = \<lparr>dp_readData = True, dp_written = Some []\<rparr>, hc_cmdStreams = [],
     hc_stream = (\<lambda>_. \<lparr>st_dataMessages = aq_new, st_interactiveShellMode = False, st_fileSize = - 1\<rparr>)\<rparr>"

definition getDeviceBySerialNumber :: "(jsstring \<times> 'dev) list \<Rightarrow> jsstring \<Rightarrow> 'dev option" where
  "getDeviceBySerialNumber devices serialNumber = map_option snd (List.find (\<lambda>dev. fst dev = serialNumber) devices)"

text \<open>
  \<open>opened\<close>: \<open>usbDevice.opened\<close> of a registered client; \<open>devices\<close>: the paired devices with their
  configurations; \<open>sid\<close> and \<open>transfers\<close> as in \<open>connectDevice\<close>. A serial number without a device makes
  \<open>openHdcDevice\<close> fail, which gives \<open>null\<close>.
\<close>

definition connect :: "jsstring \<Rightarrow> bool \<Rightarrow> (jsstring \<times> usb_configuration list) list \<Rightarrow> int \<Rightarrow> bytes list
    \<Rightarrow> HdcDeviceManager \<Rightarrow> (HdcDeviceManager \<times> bool) result" where
  "connect serialNumber opened devices sid transfers hm =
     (case hm_clientList hm serialNumber of
        Some _ \<Rightarrow>
          (if opened then Inr (hm, True)
           else Inr (if hm_recordSerial hm = serialNumber then hm\<lparr>hm_recordSerial := []\<rparr> else hm, False))
      | None \<Rightarrow>
          (case (case getDeviceBySerialNumber devices serialNumber of
                   None \<Rightarrow> None | Some dev \<Rightarrow> openHdcDevice dev) of
             Some usbChannel \<Rightarrow>
               bindr (connectDevice sid serialNumber transfers new_client) (\<lambda>(hdcClient, _, connected).
               Inr (if connected
                    then hm\<lparr>hm_client := (hm_client hm)(hm_next hm := hdcClient), hm_next := hm_next hm + 1,
                            hm_current := Some (hm_next hm),
                            hm_clientList := (hm_clientList hm)(serialNumber \<mapsto> hm_next hm)\<rparr>
                    else hm, connected))
           | None \<Rightarrow> Inr (hm, False)))"

definition disConnect :: "jsstring \<Rightarrow> bool \<Rightarrow> HdcDeviceManager \<Rightarrow> HdcDeviceManager \<times> bool" where
  "disConnect serialNumber closed hm =
     (case hm_clientList hm serialNumber of
        Some a \<Rightarrow> (hm\<lparr>hm_client := (hm_client hm)(a := disconnect closed (hm_client hm a)),
                     hm_clientList := (hm_clientList hm)(serialNumber := None)\<rparr>, True)
      | None \<Rightarrow> (hm, True))"

section \<open>Closing a channel\<close>

lemma dp_send_total: "\<exists>dp' ok. dp_send dp sid ch cmd d (length d) = Inr (dp', ok)"
proof (cases "dp_written dp")
  case None
  let ?dp = "dp\<lparr>dp_written := Some []\<rparr>"
  obtain pbs where pbs: "serializePayloadProtect (sent_protect ch cmd) = Inr pbs"
    by (simp add: PayloadProtect_layout)
  obtain ph where ph: "PayloadHead_getDataView (sent_head (int (length pbs)) (int (length d))) = Inr ph"
    "length ph = 11" by (simp add: PayloadHead_layout)
  from None pbs ph show ?thesis
    by (intro exI [of _ "stopReadData dp"] exI [of _ False]) (simp add: dp_send_def Let_def ta_set_def)
next
  case (Some w)
  with dp_send_writes [OF this, of ch cmd d sid] show ?thesis by blast
qed

lemma sendToDaemon_total: "\<exists>dp ok. sendToDaemon ch cmd d (length d) c = Inr (c\<lparr>hc_dp := dp\<rparr>, ok)"
  using dp_send_total [of "hc_dp c" "hc_sessionId c" ch "fc_cmdFlag cmd" d]
  by (auto simp: sendToDaemon_def)

lemma DoCommandRemote_control:
  assumes "fc_cmdFlag cmd = 2 \<or> fc_cmdFlag cmd = 3004"
  shows "\<exists>dp. DoCommandRemote ch cmd ms c = Inr (c\<lparr>hc_dp := dp\<rparr>, ms, False)"
proof -
  have "fc_cmdFlag cmd \<notin> set (map HdcCommand_num text_commands)"
    using assms by (auto simp: text_commands_def)
  moreover obtain dp ok where
    "sendToDaemon ch cmd [if fc_parameters cmd = js ''0'' then 0 else 1] 1 c = Inr (c\<lparr>hc_dp := dp\<rparr>, ok)"
    using sendToDaemon_total [of ch cmd "[if fc_parameters cmd = js ''0'' then 0 else 1]" c] by auto
  ultimately show ?thesis using assms by (auto simp: DoCommandRemote_def)
qed

section \<open>Collected results\<close>

lemma shell_loop_skip:
  assumes "\<forall>m\<in>set ms. \<not> dm_channelClose m \<and> uh_sessionId (dm_usbHead m) \<noteq> - 1"
  shows "shell_loop ch False acc (ms @ ms') c = shell_loop ch False (acc @ concat (map message_text ms)) ms' c"
  using assms by (induction ms arbitrary: acc) auto

text \<open>A shell command's result is the text of all messages up to and including the closing one,
  in order; the stream is unbound when it is returned.\<close>

theorem shell_result_is_concatenation:
  assumes "\<forall>m\<in>set ms. \<not> dm_channelClose m \<and> uh_sessionId (dm_usbHead m) \<noteq> - 1" "dm_channelClose m"
  shows "\<exists>c'. shell_loop ch False [] (ms @ m # rest) c = Inr (c', concat (map message_text (ms @ [m])))
     \<and> ch \<notin> set (hc_cmdStreams c')"
proof -
  obtain dp1 where 1: "DoCommandRemote ch (channel_close (js ''0'')) rest c = Inr (c\<lparr>hc_dp := dp1\<rparr>, rest, False)"
    using DoCommandRemote_control [of "channel_close (js ''0'')" ch rest c] by (auto simp: channel_close_def)
  let ?c1 = "closeStream ch (c\<lparr>hc_dp := dp1\<rparr>)"
  obtain dp2 where 2: "DoCommandRemote ch (channel_close (js ''0'')) rest ?c1 = Inr (?c1\<lparr>hc_dp := dp2\<rparr>, rest, False)"
    using DoCommandRemote_control [of "channel_close (js ''0'')" ch rest ?c1] by (auto simp: channel_close_def)
  from 1 2 assms show ?thesis
    by (auto simp: shell_loop_skip closeStream_def unbindStream_def)
qed

theorem shell_result_is_concatenation_witness:
  "\<exists>c'. shell_loop 1 False [] [abnormal_message\<lparr>dm_usbHead := sent_usb 5 1, dm_resArrayBuffer := Some (text_encode (js ''hi''))\<rparr>,
       abnormal_message\<lparr>dm_channelClose := True\<rparr>] new_client = Inr (c', js ''hi'')"
proof -
  let ?m = "abnormal_message\<lparr>dm_usbHead := sent_usb 5 1, dm_resArrayBuffer := Some (text_encode (js ''hi''))\<rparr>"
  have "ascii (js ''hi'')" by (simp add: js_def)
  then have "message_text ?m = js ''hi''" "message_text (abnormal_message\<lparr>dm_channelClose := True\<rparr>) = []"
    by (simp_all add: message_text_def getDataToString_def text_decode_ascii abnormal_message_def Let_def)
  moreover have "\<not> dm_channelClose ?m" "uh_sessionId (dm_usbHead ?m) \<noteq> - 1"
    by (simp_all add: abnormal_message_def)
  ultimately show ?thesis
    using shell_result_is_concatenation [of "[?m]" "abnormal_message\<lparr>dm_channelClose := True\<rparr>" 1 "[]" new_client]
    by (simp del: shell_loop.simps) blast
qed

text \<open>The messages that the waits after the first \<open>k\<close> ones of a stream deliver: the values of the promises
  \<open>k\<close>, \<open>k + 1\<close> and so on, up to the first one that is not settled.\<close>

definition awaited :: "nat \<Rightarrow> 'm async_queue \<Rightarrow> 'm list" where
  "awaited k q = map the (takeWhile (\<lambda>x. x \<noteq> None) (map (aq_settled q) [k..<aq_next q]))"

lemma awaited_inv:
  assumes "aq_inv ms d q" "k \<le> length ms"
  shows "awaited k q = drop k ms"
proof -
  let ?e = "length ms"
  have q: "aq_next q = max ?e d" "aq_settled q = (\<lambda>i. if i < ?e then Some (ms ! i) else None)" using assms(1) by (simp_all add: aq_inv_def Let_def)
  have "[k..<max ?e d] = [k..<?e] @ [?e..<max ?e d]" using assms(2) using upt_add_eq_append [of k ?e "max ?e d - ?e"] by simp
  then have "map (aq_settled q) [k..<aq_next q] = map (\<lambda>i. Some (ms ! i)) [k..<?e] @ map (\<lambda>_. None) [?e..<max ?e d]" by (simp add: q)
  moreover have "takeWhile (\<lambda>x. x \<noteq> None) (map (\<lambda>i. Some (ms ! i)) is @ map (\<lambda>_. None) js) = map (\<lambda>i. Some (ms ! i)) is" for "is" js :: "nat list"
    by (induction "is") (cases js, simp_all)
  ultimately have "awaited k q = map (\<lambda>i. ms ! i) [k..<?e]" unfolding awaited_def by (simp add: comp_def)
  then show ?thesis by (simp add: list_eq_iff_nth_eq)
qed

lemma awaited_disconnect:
  assumes "client_inv c" "ch \<in> set (hc_cmdStreams c)" "st_dataMessages (hc_stream c ch) = snd (aq_run ops aq_new)" "k \<le> length (enq_items ops)"
  shows "awaited k (st_dataMessages (hc_stream (disconnect closed c) ch)) = drop k (enq_items ops) @ (if closed then [disconnect_message] else [])"
proof -
  obtain ps q where run: "aq_run ops aq_new = (ps, q)" by (cases "aq_run ops aq_new")
  from aq_run_inv [OF aq_inv_new run] have inv: "aq_inv (enq_items ops) (length ps) q" by simp
  have "st_dataMessages (hc_stream (disconnect closed c) ch) = (if closed then aq_enqueue disconnect_message q else q)"
    using assms(1-3) run by (simp add: disconnect_def Let_def client_inv_def fold_post putMessageInQueue_def)
  then show ?thesis using awaited_inv [OF inv] awaited_inv [OF aq_enqueue_inv [OF inv]] assms(4) by simp
qed

text \<open>C30: a shell command that waits for the answer of a device when the device is disconnected: the loop has consumed the first \<open>k\<close> messages
  of its stream, and none of the messages that arrived and are still to be consumed closes the channel or is abnormal. When the transport closes, the
  message that \<open>disconnect\<close> posts ends the loop with the abnormal text and the stream is unbound; when closing the transport throws, nothing is posted
  and the command keeps waiting.\<close>

theorem shell_ends_on_disconnect:
  fixes hm :: HdcDeviceManager and closed :: bool
  assumes "hm_clientList hm serialNumber = Some a" "client_inv (hm_client hm a)" "ch \<in> set (hc_cmdStreams (hm_client hm a))"
    "st_dataMessages (hc_stream (hm_client hm a) ch) = snd (aq_run ops aq_new)" "k \<le> length (enq_items ops)"
    "\<forall>m\<in>set (drop k (enq_items ops)). \<not> dm_channelClose m \<and> uh_sessionId (dm_usbHead m) \<noteq> - 1"
  defines "c' \<equiv> hm_client (fst (disConnect serialNumber closed hm)) a"
  shows "shell_loop ch False acc (awaited k (st_dataMessages (hc_stream c' ch))) c'
     = (if closed then Inr (closeStream ch c', js ''The device is abnormal'') else Inl Blocked)"
proof -
  have c': "c' = disconnect closed (hm_client hm a)" using assms(1) by (simp add: c'_def disConnect_def)
  have "shell_loop ch False acc (drop k (enq_items ops) @ rest) c' = shell_loop ch False (acc @ concat (map message_text (drop k (enq_items ops)))) rest c'" for rest
    by (rule shell_loop_skip [OF assms(6)])
  from this [of "if closed then [disconnect_message] else []"] show ?thesis
    using awaited_disconnect [OF assms(2-5), of closed] by (simp add: c' disconnect_message_def abnormal_message_def)
qed

text \<open>A command that waits on channel 1, after one message that it has consumed and one that it has not.\<close>

definition demo_answer :: DataMessage where
  "demo_answer = abnormal_message\<lparr>dm_usbHead := sent_usb 5 1\<rparr>"

definition demo_waiting :: HdcDeviceManager where
  "demo_waiting = \<lparr>hm_client = (\<lambda>_. new_client\<lparr>hc_cmdStreams := [1],
       hc_stream := (\<lambda>_. \<lparr>st_dataMessages = snd (aq_run [Deq, Enq demo_answer, Enq demo_answer] aq_new), st_interactiveShellMode = False, st_fileSize = - 1\<rparr>)\<rparr>),
     hm_next = 1, hm_clientList = [js ''dev'' \<mapsto> 0], hm_current = Some 0, hm_recordSerial = []\<rparr>"

theorem shell_ends_on_disconnect_witness:
  "\<exists>c'. hm_client (fst (disConnect (js ''dev'') True demo_waiting)) 0 = c'
     \<and> shell_loop 1 False [] (awaited 1 (st_dataMessages (hc_stream c' 1))) c' = Inr (closeStream 1 c', js ''The device is abnormal'')"
proof -
  have a: "hm_clientList demo_waiting (js ''dev'') = Some 0" by (simp add: demo_waiting_def)
  have b: "client_inv (hm_client demo_waiting 0)" "1 \<in> set (hc_cmdStreams (hm_client demo_waiting 0))" by (simp_all add: demo_waiting_def client_inv_def)
  have q: "st_dataMessages (hc_stream (hm_client demo_waiting 0) 1) = snd (aq_run [Deq, Enq demo_answer, Enq demo_answer] aq_new)"
    unfolding demo_waiting_def by (simp del: aq_run.simps)
  have ok: "\<forall>x\<in>set (drop 1 (enq_items [Deq, Enq demo_answer, Enq demo_answer])). \<not> dm_channelClose x \<and> uh_sessionId (dm_usbHead x) \<noteq> - 1"
    by (simp add: demo_answer_def abnormal_message_def)
  show ?thesis using shell_ends_on_disconnect [OF a b q _ ok, of "[]" True] by simp
qed

lemma appendBuffer_eq [simp]: "appendBuffer a b = Inr (a @ b)"
  by (simp add: appendBuffer_def ta_set_def)

text \<open>The optional buffer as the bytes it stands for.\<close>

abbreviation bytes_of :: "bytes option \<Rightarrow> bytes" where
  "bytes_of b \<equiv> case b of Some x \<Rightarrow> x | None \<Rightarrow> []"

lemma blob_loop_eq:
  assumes "\<forall>m\<in>set ms. \<not> dm_channelClose m" "dm_channelClose m"
  shows "blob_loop ch False buf (ms @ m # rest) c
     = Inr (closeStream ch c, bytes_of buf @ concat (map (\<lambda>m. bytes_of (dm_resArrayBuffer m)) ms))"
  using assms by (induction ms arbitrary: buf) (auto split: option.split)

text \<open>The blob of a shell command is the concatenation of the buffers of the messages before the
  closing one, without loss for messages that carry no data.\<close>

theorem blob_result_is_concatenation:
  assumes "\<forall>m\<in>set ms. \<not> dm_channelClose m" "dm_channelClose m"
  shows "blob_loop ch False None (ms @ m # rest) c
     = Inr (closeStream ch c, concat (map (\<lambda>m. bytes_of (dm_resArrayBuffer m)) ms))"
  using blob_loop_eq [OF assms, of ch None] by simp

theorem blob_result_is_concatenation_witness:
  "blob_loop 1 False None [abnormal_message\<lparr>dm_resArrayBuffer := Some [1, 2]\<rparr>, abnormal_message,
     abnormal_message\<lparr>dm_resArrayBuffer := Some [3]\<rparr>, abnormal_message\<lparr>dm_channelClose := True\<rparr>] new_client
   = Inr (closeStream 1 new_client, [1, 2, 3])"
  using blob_result_is_concatenation
    [of "[abnormal_message\<lparr>dm_resArrayBuffer := Some [1, 2]\<rparr>, abnormal_message,
     abnormal_message\<lparr>dm_resArrayBuffer := Some [3]\<rparr>]" "abnormal_message\<lparr>dm_channelClose := True\<rparr>" 1 "[]" new_client]
  by (simp add: abnormal_message_def)

section \<open>Receiving a file\<close>

definition file_chunk :: "DataMessage \<Rightarrow> bytes" where
  "file_chunk m = drop 64 (bytes_of (dm_resArrayBuffer m))"

definition is_file_data :: "DataMessage \<Rightarrow> bool" where
  "is_file_data m \<longleftrightarrow> \<not> dm_channelClose m \<and> dm_commandFlag m \<noteq> 3004 \<and> dm_resArrayBuffer m \<noteq> None"

lemma js_slice_from_64: "js_slice_from (xs :: 'a list) 64 = drop 64 xs"
  by (simp add: js_slice_from_def rel_idx_def min_def)

text \<open>One data message writes its chunk at the running offset, or fails when it does not fit.\<close>

lemma file_loop_chunk:
  assumes "is_file_data m"
  shows "length (file_chunk m) \<le> n \<Longrightarrow> \<exists>dp. file_loop ch (Some (pre @ replicate n 0)) (length pre) (m # ms) c
      = file_loop ch (Some ((pre @ file_chunk m) @ replicate (n - length (file_chunk m)) 0))
          (length (pre @ file_chunk m)) ms (c\<lparr>hc_dp := dp\<rparr>)"
    and "n < length (file_chunk m) \<Longrightarrow>
      file_loop ch (Some (pre @ replicate n 0)) (length pre) (m # ms) c = Inl RangeError"
proof -
  obtain res where res: "dm_resArrayBuffer m = Some res" "file_chunk m = drop 64 res"
    using assms by (auto simp: is_file_data_def file_chunk_def)
  obtain dp where fin: "DoCommandRemote ch \<lparr>fc_cmdFlag = HdcCommand_num CMD_FILE_FINISH, fc_parameters = [],
      fc_bJumpDo = False\<rparr> ms c = Inr (c\<lparr>hc_dp := dp\<rparr>, ms, False)"
    using DoCommandRemote_control [of "\<lparr>fc_cmdFlag = HdcCommand_num CMD_FILE_FINISH, fc_parameters = [],
      fc_bJumpDo = False\<rparr>" ch ms c] by auto
  show "n < length (file_chunk m) \<Longrightarrow>
      file_loop ch (Some (pre @ replicate n 0)) (length pre) (m # ms) c = Inl RangeError"
    using assms res by (auto simp: is_file_data_def ta_set_def js_slice_from_64)
  assume "length (file_chunk m) \<le> n"
  then have set: "ta_set (pre @ replicate n 0) (drop 64 res) (length pre)
      = Inr ((pre @ drop 64 res) @ replicate (n - length (drop 64 res)) 0)"
    using res(2) by (simp add: ta_set_def)
  define b where "b \<longleftrightarrow> st_fileSize (hc_stream c ch) \<noteq> - 1
    \<and> int (length (pre @ drop 64 res)) \<ge> st_fileSize (hc_stream c ch)"
  have "file_loop ch (Some (pre @ replicate n 0)) (length pre) (m # ms) c
      = file_loop ch (Some ((pre @ drop 64 res) @ replicate (n - length (drop 64 res)) 0))
          (length (pre @ drop 64 res)) ms (c\<lparr>hc_dp := (if b then dp else hc_dp c)\<rparr>)"
    using assms res fin set by (cases b) (auto simp: is_file_data_def js_slice_from_64 b_def Let_def)
  then show "\<exists>dp. file_loop ch (Some (pre @ replicate n 0)) (length pre) (m # ms) c
      = file_loop ch (Some ((pre @ file_chunk m) @ replicate (n - length (file_chunk m)) 0))
          (length (pre @ file_chunk m)) ms (c\<lparr>hc_dp := dp\<rparr>)"
    unfolding res(2) by (rule exI)
qed

lemma file_loop_chunks:
  assumes "\<forall>m\<in>set ms. is_file_data m" "sum_list (map (\<lambda>m. length (file_chunk m)) ms) \<le> n"
  shows "\<exists>dp. file_loop ch (Some (pre @ replicate n 0)) (length pre) (ms @ rest) c
      = file_loop ch (Some (pre @ concat (map file_chunk ms)
            @ replicate (n - sum_list (map (\<lambda>m. length (file_chunk m)) ms)) 0))
          (length pre + sum_list (map (\<lambda>m. length (file_chunk m)) ms)) rest (c\<lparr>hc_dp := dp\<rparr>)"
  using assms
proof (induction ms arbitrary: pre n c)
  case Nil
  show ?case by (intro exI [of _ "hc_dp c"]) simp
next
  case (Cons m ms)
  let ?k = "length (file_chunk m)"
  have fits: "(\<Sum>m\<leftarrow>ms. length (file_chunk m)) \<le> n - ?k" using Cons.prems(2) by simp
  obtain dp where "file_loop ch (Some (pre @ replicate n 0)) (length pre) ((m # ms) @ rest) c
      = file_loop ch (Some ((pre @ file_chunk m) @ replicate (n - ?k) 0))
          (length (pre @ file_chunk m)) (ms @ rest) (c\<lparr>hc_dp := dp\<rparr>)"
    using file_loop_chunk(1) [of m n ch pre "ms @ rest" c] Cons.prems by auto
  moreover obtain dp' where "file_loop ch (Some ((pre @ file_chunk m) @ replicate (n - ?k) 0))
          (length (pre @ file_chunk m)) (ms @ rest) (c\<lparr>hc_dp := dp\<rparr>)
      = file_loop ch (Some ((pre @ file_chunk m) @ concat (map file_chunk ms)
            @ replicate (n - ?k - sum_list (map (\<lambda>m. length (file_chunk m)) ms)) 0))
          (length (pre @ file_chunk m) + sum_list (map (\<lambda>m. length (file_chunk m)) ms)) rest (c\<lparr>hc_dp := dp'\<rparr>)"
    using Cons.IH [OF _ fits, of "pre @ file_chunk m" "c\<lparr>hc_dp := dp\<rparr>"] Cons.prems by auto
  ultimately show ?case by (intro exI [of _ dp']) (simp add: add.assoc del: file_loop.simps)
qed

text \<open>C8: a file of the announced size arrives complete: the buffer of \<open>fileSize\<close> bytes ends up as the
  concatenation of the chunks (each message without its 64-byte head) when their lengths add up to
  the file size, whether the device ends with \<open>CMD_FILE_FINISH\<close> or by closing the channel.\<close>

theorem file_loop_reassembles:
  assumes "\<forall>m\<in>set ms. is_file_data m" "sum_list (map (\<lambda>m. length (file_chunk m)) ms) = n"
    and "dm_channelClose m \<or> dm_commandFlag m = HdcCommand_num CMD_FILE_FINISH"
  shows "\<exists>dp. file_loop ch (Some (replicate n 0)) 0 (ms @ m # rest) c
     = Inr (c\<lparr>hc_dp := dp\<rparr>, concat (map file_chunk ms))"
proof -
  obtain dp where "file_loop ch (Some (replicate n 0)) 0 (ms @ m # rest) c
      = file_loop ch (Some (concat (map file_chunk ms))) n (m # rest) (c\<lparr>hc_dp := dp\<rparr>)"
    using file_loop_chunks [of ms n ch "[]" "m # rest" c] assms(1,2) by auto
  moreover obtain dp' where "DoCommandRemote ch (channel_close []) rest (c\<lparr>hc_dp := dp\<rparr>)
      = Inr (c\<lparr>hc_dp := dp\<rparr>\<lparr>hc_dp := dp'\<rparr>, rest, False)"
    using DoCommandRemote_control [of "channel_close []" ch rest "c\<lparr>hc_dp := dp\<rparr>"]
    by (auto simp: channel_close_def)
  ultimately show ?thesis using assms(3) by (cases "dm_channelClose m") auto
qed

theorem file_loop_reassembles_witness:
  "\<exists>dp. file_loop 1 (Some (replicate 3 0)) 0
      [abnormal_message\<lparr>dm_resArrayBuffer := Some (replicate 64 0 @ [7, 8])\<rparr>,
       abnormal_message\<lparr>dm_resArrayBuffer := Some (replicate 64 0 @ [9])\<rparr>,
       abnormal_message\<lparr>dm_commandFlag := 3004\<rparr>] new_client
    = Inr (new_client\<lparr>hc_dp := dp\<rparr>, [7, 8, 9])"
  using file_loop_reassembles [of "[abnormal_message\<lparr>dm_resArrayBuffer := Some (replicate 64 0 @ [7, 8])\<rparr>,
       abnormal_message\<lparr>dm_resArrayBuffer := Some (replicate 64 0 @ [9])\<rparr>]" 3
      "abnormal_message\<lparr>dm_commandFlag := 3004\<rparr>" 1 "[]" new_client]
  by (simp add: abnormal_message_def is_file_data_def file_chunk_def)

text \<open>C20: when the chunks exceed the announced size the transfer fails with a \<open>RangeError\<close>; nothing is
  written beyond the buffer.\<close>

theorem file_loop_overflow:
  assumes "\<forall>m\<in>set ms. is_file_data m" "is_file_data m"
    and "sum_list (map (\<lambda>m. length (file_chunk m)) ms) \<le> n" "n < sum_list (map (\<lambda>m. length (file_chunk m)) (ms @ [m]))"
  shows "file_loop ch (Some (replicate n 0)) 0 (ms @ m # rest) c = Inl RangeError"
proof -
  let ?s = "sum_list (map (\<lambda>m. length (file_chunk m)) ms)" and ?d = "concat (map file_chunk ms)"
  have len: "length ?d = ?s" by (simp add: length_concat comp_def)
  obtain dp where "file_loop ch (Some (replicate n 0)) 0 (ms @ m # rest) c
      = file_loop ch (Some (?d @ replicate (n - ?s) 0)) (length ?d) (m # rest) (c\<lparr>hc_dp := dp\<rparr>)"
    using file_loop_chunks [of ms n ch "[]" "m # rest" c] assms(1,3) unfolding len by auto
  moreover have "n - ?s < length (file_chunk m)" using assms(3,4) by simp
  ultimately show ?thesis using file_loop_chunk(2) [OF assms(2)] by metis
qed

theorem file_loop_overflow_witness:
  "file_loop 1 (Some (replicate 1 0)) 0
      [abnormal_message\<lparr>dm_resArrayBuffer := Some (replicate 64 0 @ [7, 8])\<rparr>] new_client = Inl RangeError"
  using file_loop_overflow [of "[]" "abnormal_message\<lparr>dm_resArrayBuffer := Some (replicate 64 0 @ [7, 8])\<rparr>" 1 1 "[]" new_client]
  by (simp add: abnormal_message_def is_file_data_def file_chunk_def)

section \<open>Connecting and disconnecting\<close>

lemma parsePlayHead_total: "11 \<le> length bs \<Longrightarrow> \<exists>h. parsePlayHead bs = Inr h"
  by (simp add: parsePlayHead_def getUint_def)

lemma connectDevice_result:
  assumes "dp_written (hc_dp c) = Some w" "dp_readData (hc_dp c)"
    and "USBHead_getDataView (sent_usb sid' ds) = Inr hdr" "0 \<le> sid'" "sid' < 2 ^ 32" "0 \<le> ds" "ds < 2 ^ 32"
    and "11 \<le> length body"
  shows "\<exists>c'. connectDevice sid serial [hdr, body] c
      = Inr (c', if sid = sid' then Some (startReadData True) else None, sid = sid')
    \<and> hc_sessionId c' = sid \<and> hc_cmdStreams c' = hc_cmdStreams c"
proof -
  obtain hs where hs: "serializeSessionHandShake
      (mkSessionHandShake HANDSHAKE_MESSAGE (AuthType_num AUTH_NONE) sid serial []) = Inr hs"
    by (simp add: SessionHandShake_layout)
  obtain hdr1 body1 where sent: "dp_send (hc_dp c) sid 0 (HdcCommand_num CMD_KERNEL_HANDSHAKE) hs (length hs)
      = Inr ((hc_dp c)\<lparr>dp_written := Some (w @ [hdr1, body1])\<rparr>, True)"
    using dp_send_writes [OF assms(1), of 0 "HdcCommand_num CMD_KERNEL_HANDSHAKE" hs sid] by blast
  have head: "parseHeadData hdr = Inr (sent_usb sid' ds)"
    using assms(3-7) parseHeadData_layout [of 85 66 1 sid' ds] by (simp add: USBHead_layout num_at_def)
  obtain ph where "parsePlayHead (js_slice body 0 getPayloadHeadLength) = Inr ph"
    using parsePlayHead_total [of "js_slice body 0 getPayloadHeadLength"] assms(8)
    by (auto simp: length_js_slice_0 getPayloadHeadLength_def)
  with hs sent head assms(2) show ?thesis
    by (simp add: connectDevice_def Let_def handShakeSuccess_def)
qed

text \<open>Connecting to a new device succeeds exactly when the device echoes the session id of the
  handshake. On success the new client is registered under the serial number, becomes the current
  one and has no streams; on failure the manager is unchanged. Other registrations are kept.\<close>

theorem connect_registers_on_echo:
  assumes "hm_clientList hm sn = None" "getDeviceBySerialNumber devices sn = Some dev" "openHdcDevice dev = Some uc"
    and "USBHead_getDataView (sent_usb sid' ds) = Inr hdr" "0 \<le> sid'" "sid' < 2 ^ 32" "0 \<le> ds" "ds < 2 ^ 32"
    and "11 \<le> length body"
  shows "\<exists>hm'. connect sn opened devices sid [hdr, body] hm = Inr (hm', sid = sid')
    \<and> (sid = sid' \<longrightarrow> hm_current hm' = hm_clientList hm' sn \<and> hm_current hm' \<noteq> None
         \<and> hc_sessionId (hm_client hm' (the (hm_current hm'))) = sid
         \<and> hc_cmdStreams (hm_client hm' (the (hm_current hm'))) = [])
    \<and> (sid \<noteq> sid' \<longrightarrow> hm' = hm) \<and> (\<forall>x. x \<noteq> sn \<longrightarrow> hm_clientList hm' x = hm_clientList hm x)"
proof -
  obtain c' where "connectDevice sid sn [hdr, body] new_client
      = Inr (c', if sid = sid' then Some (startReadData True) else None, sid = sid')"
    "hc_sessionId c' = sid" "hc_cmdStreams c' = []"
    using connectDevice_result [OF _ _ assms(4-9), of new_client "[]"] by (auto simp: new_client_def)
  with assms(1-3) show ?thesis by (auto simp: connect_def)
qed

definition demo_device :: "usb_configuration list" where
  "demo_device = [\<lparr>cf_value = 1, cf_interfaces = [\<lparr>if_number = 0, if_alternates =
     [\<lparr>al_class = 255, al_subclass = 80, al_protocol = 1, al_endpoints =
        [\<lparr>ep_number = 1, ep_direction = ''in'', ep_type = ''bulk''\<rparr>, \<lparr>ep_number = 2, ep_direction = ''out'', ep_type = ''bulk''\<rparr>]\<rparr>]\<rparr>]\<rparr>]"

definition empty_manager :: HdcDeviceManager where
  "empty_manager = \<lparr>hm_client = (\<lambda>_. new_client), hm_next = 0, hm_clientList = (\<lambda>_. None), hm_current = None, hm_recordSerial = []\<rparr>"

theorem connect_registers_on_echo_witness:
  "\<exists>hdr hm'. connect (js ''SN'') False [(js ''SN'', demo_device)] 77 [hdr, replicate 11 0] empty_manager = Inr (hm', True)
     \<and> hm_current hm' = hm_clientList hm' (js ''SN'')"
proof -
  obtain hdr where hdr: "USBHead_getDataView (sent_usb 77 11) = Inr hdr" by (simp add: USBHead_layout)
  have dev: "openHdcDevice demo_device \<noteq> None"
    by (simp add: openHdcDevice_def demo_device_def filterAndFindDevice_def matches_filter_def
        HDC_DEVICE_FILTER_def filterEndpointNumber_def)
  then obtain uc where "openHdcDevice demo_device = Some uc" by blast
  with connect_registers_on_echo [OF _ _ this hdr, of empty_manager "js ''SN''" "[(js ''SN'', demo_device)]"
      "replicate 11 0" False 77]
  show ?thesis by (intro exI [of _ hdr]) (auto simp: empty_manager_def getDeviceBySerialNumber_def)
qed

text \<open>C33: \<open>disConnect\<close> removes only the given registration and always reports success; the current
  client keeps pointing at the disconnected one, which has no bound stream left.\<close>

theorem disConnect_keeps_current:
  assumes "hm_clientList hm sn = Some a"
  shows "snd (disConnect sn True hm) \<and> hm_clientList (fst (disConnect sn True hm)) = (hm_clientList hm)(sn := None)
     \<and> hm_current (fst (disConnect sn True hm)) = hm_current hm
     \<and> hc_cmdStreams (hm_client (fst (disConnect sn True hm)) a) = []"
  using assms by (simp add: disConnect_def disconnect_def Let_def)

theorem disConnect_keeps_current_witness:
  "\<exists>hm. hm_clientList hm (js ''SN'') = Some 0 \<and> hm_current hm = Some 0
     \<and> hm_current (fst (disConnect (js ''SN'') True hm)) = Some 0"
  using disConnect_keeps_current [of "empty_manager\<lparr>hm_clientList := [js ''SN'' \<mapsto> 0], hm_current := Some 0\<rparr>" "js ''SN''" 0]
  by (intro exI [of _ "empty_manager\<lparr>hm_clientList := [js ''SN'' \<mapsto> 0], hm_current := Some 0\<rparr>"]) simp

end
