(* ===== verification/Heap_Model.thy ===== *)
theory Heap_Model
  imports JS_Prelude
begin

text \<open>
  The data of the ArkTS heap analysis: the structures filled from the database
  (\<open>js-heap/model/DatabaseStruct.ts\<close>), the rows shown to the user
  (\<open>js-heap/model/UiStruct.ts\<close>) and the conversion between them (\<open>js-heap/utils/Utils.ts\<close>).

  Counts, positions and node ids are \<open>nat\<close>; sizes, distances, types and flags are \<open>int\<close>. A
  \<open>Uint32Array\<close> is a \<open>nat list\<close>: a write stores the value modulo \<open>2 ^ 32\<close> and a write outside the
  array is ignored, which is what \<open>xs[i := v]\<close> does. Fields that only the view reads (row name,
  percentages, selection) are left out.
\<close>

section \<open>Typed arrays\<close>

definition u32 :: "nat \<Rightarrow> nat" where
  "u32 v = v mod 4294967296"

definition u32_set :: "nat list \<Rightarrow> nat \<Rightarrow> nat \<Rightarrow> nat list" where
  "u32_set xs i v = xs[i := u32 v]"

text \<open>\<open>++xs[i]\<close> and \<open>--xs[i]\<close>: the new element wraps around.\<close>

definition u32_inc :: "nat list \<Rightarrow> nat \<Rightarrow> nat list" where
  "u32_inc xs i = u32_set xs i (xs ! i + 1)"

definition u32_dec :: "nat list \<Rightarrow> nat \<Rightarrow> nat list" where
  "u32_dec xs i = u32_set xs i (xs ! i + 4294967295)"

lemma u32_id [simp]: "v < 4294967296 \<Longrightarrow> u32 v = v"
  by (simp add: u32_def)

lemma length_u32 [simp]:
  "length (u32_set xs i v) = length xs" "length (u32_inc xs i) = length xs" "length (u32_dec xs i) = length xs"
  by (simp_all add: u32_set_def u32_inc_def u32_dec_def)

lemma u32_dec_pos: "0 < xs ! i \<Longrightarrow> xs ! i < 4294967296 \<Longrightarrow> u32_dec xs i = xs[i := xs ! i - 1]"
  by (cases "xs ! i") (simp_all add: u32_dec_def u32_set_def u32_def)

section \<open>Enumerations\<close>

datatype EdgeType = EdgeType_CONTEXT | EdgeType_ELEMENT | EdgeType_PROPERTY | EdgeType_INTERNAL
  | EdgeType_HIDDEN | EdgeType_SHORTCUT | EdgeType_WEAK | EdgeType_STRING_OR_NUMBER | EdgeType_NODE
  | EdgeType_INVISIBLE

fun EdgeType_num :: "EdgeType \<Rightarrow> int" where
  "EdgeType_num EdgeType_CONTEXT = 0"
| "EdgeType_num EdgeType_ELEMENT = 1"
| "EdgeType_num EdgeType_PROPERTY = 2"
| "EdgeType_num EdgeType_INTERNAL = 3"
| "EdgeType_num EdgeType_HIDDEN = 4"
| "EdgeType_num EdgeType_SHORTCUT = 5"
| "EdgeType_num EdgeType_WEAK = 6"
| "EdgeType_num EdgeType_STRING_OR_NUMBER = 6"
| "EdgeType_num EdgeType_NODE = 7"
| "EdgeType_num EdgeType_INVISIBLE = 8"

datatype NodeType = NodeType_HIDDEN | NodeType_ARRAY | NodeType_STRING | NodeType_OBJECT | NodeType_CODE
  | NodeType_CLOSURE | NodeType_REGEXP | NodeType_NUMBER | NodeType_NATIVE | NodeType_SYNTHETIC
  | NodeType_CONCATENATED_STRING | NodeType_SLICED_STRING | NodeType_SYMBOL | NodeType_BIGINT
  | NodeType_OBJECT_SHAPE

fun NodeType_num :: "NodeType \<Rightarrow> int" where
  "NodeType_num NodeType_HIDDEN = 0"
| "NodeType_num NodeType_ARRAY = 1"
| "NodeType_num NodeType_STRING = 2"
| "NodeType_num NodeType_OBJECT = 3"
| "NodeType_num NodeType_CODE = 4"
| "NodeType_num NodeType_CLOSURE = 5"
| "NodeType_num NodeType_REGEXP = 6"
| "NodeType_num NodeType_NUMBER = 7"
| "NodeType_num NodeType_NATIVE = 8"
| "NodeType_num NodeType_SYNTHETIC = 9"
| "NodeType_num NodeType_CONCATENATED_STRING = 10"
| "NodeType_num NodeType_SLICED_STRING = 11"
| "NodeType_num NodeType_SYMBOL = 12"
| "NodeType_num NodeType_BIGINT = 13"
| "NodeType_num NodeType_OBJECT_SHAPE = 14"

definition NodeType_keys :: "(string \<times> NodeType) list" where
  "NodeType_keys = [(''HIDDEN'', NodeType_HIDDEN), (''ARRAY'', NodeType_ARRAY), (''STRING'', NodeType_STRING),
     (''OBJECT'', NodeType_OBJECT), (''CODE'', NodeType_CODE), (''CLOSURE'', NodeType_CLOSURE),
     (''REGEXP'', NodeType_REGEXP), (''NUMBER'', NodeType_NUMBER), (''NATIVE'', NodeType_NATIVE),
     (''SYNTHETIC'', NodeType_SYNTHETIC), (''CONCATENATED_STRING'', NodeType_CONCATENATED_STRING),
     (''SLICED_STRING'', NodeType_SLICED_STRING), (''SYMBOL'', NodeType_SYMBOL), (''BIGINT'', NodeType_BIGINT),
     (''OBJECT_SHAPE'', NodeType_OBJECT_SHAPE)]"

text \<open>The name of an unknown type is \<open>undefined\<close>, which string concatenation spells out.\<close>

definition getNodeTypeName :: "int \<Rightarrow> string" where
  "getNodeTypeName t =
     (case List.find (\<lambda>(key, v). NodeType_num v = t) NodeType_keys of
        Some (key, _) \<Rightarrow> key | None \<Rightarrow> ''undefined'')"

datatype DetachedNessState = UNKNOWN | ATTACHED | DETACHED

fun DetachedNessState_num :: "DetachedNessState \<Rightarrow> int" where
  "DetachedNessState_num UNKNOWN = 0"
| "DetachedNessState_num ATTACHED = 1"
| "DetachedNessState_num DETACHED = 2"

datatype ConstructorType = ClassType | InstanceType | FiledType | RetainersType | ComparisonType

datatype FileType = SNAPSHOT | TIMELINE

section \<open>DatabaseStruct\<close>

record HeapEdge =
  he_edgeIndex :: nat
  he_edgeOldIndex :: nat
  he_type :: int
  he_nameOrIndex :: jsstring
  he_nodeId :: int
  he_fromNodeId :: nat
  he_toNodeId :: nat

definition mkHeapEdge :: "nat \<Rightarrow> int \<Rightarrow> jsstring \<Rightarrow> int \<Rightarrow> nat \<Rightarrow> nat \<Rightarrow> HeapEdge" where
  "mkHeapEdge edgeIndex ty nameOrIndex nodeId fromNodeId toNodeId =
     \<lparr>he_edgeIndex = edgeIndex, he_edgeOldIndex = edgeIndex * 3, he_type = ty, he_nameOrIndex = nameOrIndex,
      he_nodeId = nodeId, he_fromNodeId = fromNodeId, he_toNodeId = toNodeId\<rparr>"

text \<open>\<open>hn_edges\<close> is the insertion order of the \<open>Set\<close> of edges.\<close>

record HeapNode =
  hn_fileId :: int
  hn_nodeIndex :: nat
  hn_nodeOldIndex :: nat
  hn_type :: int
  hn_name :: jsstring
  hn_id :: nat
  hn_selfSize :: int
  hn_edgeCount :: nat
  hn_traceNodeId :: int
  hn_detachedness :: int
  hn_edges :: "HeapEdge list"
  hn_distance :: int
  hn_retainedSize :: int
  hn_displayName :: jsstring
  hn_firstEdgeIndex :: nat
  hn_flag :: int
  hn_retainsEdgeIdx :: "nat list"
  hn_retainsNodeIdx :: "nat list"

definition mkHeapNode :: "int \<Rightarrow> nat \<Rightarrow> int \<Rightarrow> jsstring \<Rightarrow> nat \<Rightarrow> int \<Rightarrow> nat \<Rightarrow> int \<Rightarrow> int \<Rightarrow> nat \<Rightarrow> HeapNode" where
  "mkHeapNode fileId nodeIndex ty nm i selfSize edgeCount traceNodeId detachedness firstEdgeIndex =
     \<lparr>hn_fileId = fileId, hn_nodeIndex = nodeIndex, hn_nodeOldIndex = nodeIndex * 7, hn_type = ty,
      hn_name = nm, hn_id = i, hn_selfSize = selfSize, hn_edgeCount = edgeCount,
      hn_traceNodeId = traceNodeId, hn_detachedness = detachedness, hn_edges = [], hn_distance = - 5,
      hn_retainedSize = selfSize, hn_displayName = [], hn_firstEdgeIndex = firstEdgeIndex, hn_flag = 0,
      hn_retainsEdgeIdx = [], hn_retainsNodeIdx = []\<rparr>"

definition nodeName :: "HeapNode \<Rightarrow> jsstring" where
  "nodeName n = (if hn_displayName n \<noteq> [] then hn_displayName n else hn_name n)"

definition char_lower :: "char \<Rightarrow> char" where
  "char_lower c = (let k = of_char c :: nat in if 65 \<le> k \<and> k \<le> 90 then char_of (k + 32) else c)"

definition className :: "HeapNode \<Rightarrow> jsstring" where
  "className n =
     (if hn_type n = NodeType_num NodeType_HIDDEN then js ''(system)''
      else if hn_type n = NodeType_num NodeType_OBJECT \<or> hn_type n = NodeType_num NodeType_NATIVE then nodeName n
      else if hn_type n = NodeType_num NodeType_CODE then js ''(compiled code)''
      else js (map char_lower (''('' @ getNodeTypeName (hn_type n) @ '')'')))"

text \<open>\<open>Set.add\<close>; the only caller adds each edge object once.\<close>

definition addEdge :: "HeapEdge \<Rightarrow> HeapNode \<Rightarrow> HeapNode" where
  "addEdge e n = n\<lparr>hn_edges := hn_edges n @ [e]\<rparr>"

definition isUserRoot :: "HeapNode \<Rightarrow> bool" where
  "isUserRoot n \<longleftrightarrow> hn_type n \<noteq> NodeType_num NodeType_SYNTHETIC"

definition isDocumentDOMTreesRoot :: "HeapNode \<Rightarrow> bool" where
  "isDocumentDOMTreesRoot n \<longleftrightarrow>
     hn_type n \<noteq> NodeType_num NodeType_SYNTHETIC \<and> hn_name n = js ''(Document DOM trees)''"

record HeapSample =
  smp_timestamp :: int
  smp_lastAssignedId :: nat
  smp_size :: int

record HeapTraceFunctionInfo =
  fi_id :: int
  fi_index :: int
  fi_name :: jsstring
  fi_scriptName :: jsstring
  fi_scriptId :: int
  fi_line :: int
  fi_column :: int

section \<open>UiStruct\<close>

record ConstructorData =
  cd_fileId :: int
  cd_nodeName :: jsstring
  cd_edgeName :: jsstring
  cd_childCount :: int
  cd_distance :: int
  cd_shallowSize :: int
  cd_retainedSize :: int
  cd_hasNext :: bool
  cd_edgeCount :: int
  cd_edgeType :: "int option"
  cd_type :: "ConstructorType option"
  cd_nodeType :: "int option"
  cd_id :: int
  cd_index :: int
  cd_traceNodeId :: int
  cd_targetFileId :: int
  cd_addedCount :: int
  cd_removedCount :: int
  cd_deltaCount :: int
  cd_addedSize :: int
  cd_removedSize :: int
  cd_deltaSize :: int
  cd_deletedIdx :: "int list"
  cd_addedIndx :: "int list"
  cd_isAdd :: bool

text \<open>
  \<open>ConstructorItem\<close> and its subclass \<open>ConstructorComparison\<close>, whose extra fields keep their initial
  values in a plain item. The links to other items follow the data.
\<close>

datatype ConstructorItem = ConstructorItem
  (ci_data: ConstructorData)
  (ci_parent: "ConstructorItem option")
  (ci_children: "ConstructorItem list")
  (ci_retains: "ConstructorItem list")
  (ci_classChildren: "ConstructorItem list")

definition new_data :: ConstructorData where
  "new_data = \<lparr>cd_fileId = - 1, cd_nodeName = [], cd_edgeName = [], cd_childCount = 1, cd_distance = - 1,
     cd_shallowSize = - 1, cd_retainedSize = - 1, cd_hasNext = True, cd_edgeCount = 0, cd_edgeType = None,
     cd_type = None, cd_nodeType = None, cd_id = - 1, cd_index = - 1, cd_traceNodeId = - 1,
     cd_targetFileId = - 1, cd_addedCount = 0, cd_removedCount = 0, cd_deltaCount = 0, cd_addedSize = 0,
     cd_removedSize = 0, cd_deltaSize = 0, cd_deletedIdx = [], cd_addedIndx = [], cd_isAdd = False\<rparr>"

definition new_item :: "ConstructorData \<Rightarrow> ConstructorItem" where
  "new_item d = ConstructorItem d None [] [] []"

fun upd_data :: "(ConstructorData \<Rightarrow> ConstructorData) \<Rightarrow> ConstructorItem \<Rightarrow> ConstructorItem" where
  "upd_data f (ConstructorItem d p c r k) = ConstructorItem (f d) p c r k"

lemma upd_data_sel [simp]:
  "ci_data (upd_data f x) = f (ci_data x)" "ci_parent (upd_data f x) = ci_parent x"
  "ci_children (upd_data f x) = ci_children x" "ci_retains (upd_data f x) = ci_retains x"
  "ci_classChildren (upd_data f x) = ci_classChildren x"
  by (cases x; simp)+

lemma new_item_sel [simp]:
  "ci_data (new_item d) = d" "ci_parent (new_item d) = None" "ci_children (new_item d) = []"
  "ci_retains (new_item d) = []" "ci_classChildren (new_item d) = []"
  by (simp_all add: new_item_def)

definition item_clone :: "ConstructorItem \<Rightarrow> ConstructorItem" where
  "item_clone x = (let d = ci_data x in new_item (new_data\<lparr>cd_fileId := cd_fileId d,
     cd_distance := cd_distance d, cd_shallowSize := cd_shallowSize d, cd_nodeName := cd_nodeName d,
     cd_edgeCount := cd_edgeCount d, cd_edgeType := cd_edgeType d, cd_childCount := cd_childCount d,
     cd_hasNext := cd_hasNext d\<rparr>))"

definition isString :: "ConstructorItem \<Rightarrow> bool" where
  "isString x \<longleftrightarrow> cd_nodeType (ci_data x) \<in> Some ` set (map NodeType_num
     [NodeType_STRING, NodeType_CONCATENATED_STRING, NodeType_SLICED_STRING])"

definition HeapNodeToConstructorItem :: "HeapNode \<Rightarrow> ConstructorItem" where
  "HeapNodeToConstructorItem n = new_item (new_data\<lparr>cd_fileId := hn_fileId n, cd_id := int (hn_id n),
     cd_index := int (hn_nodeIndex n), cd_nodeName := nodeName n, cd_edgeCount := int (hn_edgeCount n),
     cd_distance := hn_distance n, cd_shallowSize := hn_selfSize n, cd_retainedSize := hn_retainedSize n,
     cd_nodeType := Some (hn_type n)\<rparr>)"

end
