(* ===== verification/Heap_Csr.thy ===== *)
theory Heap_Csr
  imports Heap_Model
begin

text \<open>
  The counting sort that \<open>HeapLoader.ts\<close> uses twice, for the retainers of a node and for the nodes
  it dominates: count the entries of each key, turn the counts into first slots (leaving each count
  in its first slot), then fill every key's slots from the last to the first.
\<close>

section \<open>The three loops\<close>

text \<open>The counting loop.\<close>

definition csr_count :: "nat list \<Rightarrow> nat list \<Rightarrow> nat list" where
  "csr_count keys first = fold (\<lambda>k f. u32_inc f k) keys first"

text \<open>The loop that assigns the first slots.\<close>

fun csr_starts :: "nat list \<Rightarrow> nat list \<Rightarrow> nat list \<Rightarrow> nat \<Rightarrow> nat list \<times> nat list" where
  "csr_starts [] first arr slot = (first, arr)"
| "csr_starts (i # is) first arr slot =
     (let c = first ! i in csr_starts is (u32_set first i slot) (u32_set arr slot c) (slot + c))"

text \<open>One step of the filling loop: the slot it uses and the array after it. The value of \<open>--arr[s]\<close> is the old entry less one, also where the
  entry that is stored wraps around; a slot -1, or one computed from an entry that does not exist, is written nowhere, like the slot \<open>length arr\<close> here.\<close>

definition csr_put :: "nat list \<Rightarrow> nat list \<Rightarrow> nat \<Rightarrow> nat \<Rightarrow> nat \<times> nat list" where
  "csr_put first arr key p =
     (let s = first ! key; arr1 = u32_dec arr s; pos = (if s < length arr \<and> 0 < s + arr ! s then s + arr ! s - 1 else length arr)
      in (pos, u32_set arr1 pos p))"

fun csr_fill2 :: "nat list \<Rightarrow> (nat \<times> nat \<times> nat) list \<Rightarrow> nat list \<Rightarrow> nat list \<Rightarrow> nat list \<times> nat list" where
  "csr_fill2 first [] arr brr = (arr, brr)"
| "csr_fill2 first ((k, p, q) # its) arr brr =
     (let (pos, arr') = csr_put first arr k p in csr_fill2 first its arr' (u32_set brr pos q))"

section \<open>Counting and first slots\<close>

lemma length_csr_count [simp]: "length (csr_count keys first) = length first"
  by (induction keys arbitrary: first) (auto simp: csr_count_def)

lemma csr_count_nth:
  assumes "\<forall>k\<in>set keys. k < length first" "v < length first"
    and "\<forall>u<length first. first ! u + length keys < 4294967296"
  shows "csr_count keys first ! v = first ! v + count_list keys v"
  using assms
proof (induction keys arbitrary: first)
  case Nil
  then show ?case by (simp add: csr_count_def)
next
  case (Cons k keys)
  have "csr_count (k # keys) first = csr_count keys (u32_inc first k)"
    by (simp add: csr_count_def)
  moreover have inc: "u32_inc first k = first[k := first ! k + 1]"
    using Cons.prems by (auto simp: u32_inc_def u32_set_def)
  moreover have "u32_inc first k ! u + length keys < 4294967296" if "u < length first" for u
    using Cons.prems(3) [rule_format, OF that] that by (cases "u = k") (auto simp: inc)
  ultimately show ?case
    using Cons.IH [of "u32_inc first k"] Cons.prems(1,2) by (auto simp: nth_list_update)
qed

abbreviation start_of :: "(nat \<Rightarrow> nat) \<Rightarrow> nat \<Rightarrow> nat" where
  "start_of cnt v \<equiv> sum cnt {..<v}"

lemma start_Suc: "start_of cnt (Suc v) = start_of cnt v + cnt v"
  by (simp add: lessThan_Suc)

lemma start_mono: "v \<le> w \<Longrightarrow> start_of cnt v \<le> start_of cnt w"
  by (rule sum_mono2) auto

lemma start_le:
  assumes "v < w"
  shows "start_of cnt v + cnt v \<le> start_of cnt w"
  using start_mono [of "Suc v" w cnt] assms by (simp add: start_Suc)

lemma slots_disjoint:
  "v \<noteq> w \<Longrightarrow> i < cnt v \<Longrightarrow> j < cnt w \<Longrightarrow> start_of cnt v + i \<noteq> start_of cnt w + j"
proof (induction v w arbitrary: i j rule: linorder_wlog)
  case (le v w)
  then show ?case using start_le [of v w cnt] by auto
next
  case (sym w v)
  from sym(1) [of j i] sym(2-) show ?case by metis
qed

lemma csr_starts_inv:
  assumes "i \<le> n" "n \<le> length first" "\<forall>v. i \<le> v \<and> v < n \<longrightarrow> first ! v = cnt v"
    and "start_of cnt n \<le> length arr" "length arr < 4294967296"
    and "csr_starts [i..<n] first arr (start_of cnt i) = (first', arr')"
  shows "length first' = length first \<and> length arr' = length arr
    \<and> (\<forall>v. v < i \<or> n \<le> v \<longrightarrow> first' ! v = first ! v) \<and> (\<forall>v. i \<le> v \<and> v < n \<longrightarrow> first' ! v = start_of cnt v)
    \<and> (\<forall>p < start_of cnt i. arr' ! p = arr ! p)
    \<and> (\<forall>v. i \<le> v \<and> v < n \<and> 0 < cnt v \<longrightarrow> arr' ! start_of cnt v = cnt v)"
  using assms
proof (induction "n - i" arbitrary: i first arr)
  case 0
  then show ?case by auto
next
  case (Suc d)
  then have i: "i < n" by simp
  have le: "start_of cnt i + cnt i \<le> start_of cnt n" using start_le [OF i] .
  define f1 where "f1 = first[i := start_of cnt i]"
  define a1 where "a1 = arr[start_of cnt i := cnt i]"
  have small: "start_of cnt i < 4294967296" "cnt i < 4294967296" using le Suc.prems(4,5) by simp_all
  have "csr_starts [i..<n] first arr (start_of cnt i) = csr_starts [Suc i..<n] f1 a1 (start_of cnt (Suc i))"
    using i Suc.prems(3) small
    by (simp add: upt_conv_Cons Let_def u32_set_def f1_def a1_def lessThan_Suc add.commute)
  with Suc.prems(6) have rest: "csr_starts [Suc i..<n] f1 a1 (start_of cnt (Suc i)) = (first', arr')" by simp
  have "length first' = length f1 \<and> length arr' = length a1
    \<and> (\<forall>v. v < Suc i \<or> n \<le> v \<longrightarrow> first' ! v = f1 ! v) \<and> (\<forall>v. Suc i \<le> v \<and> v < n \<longrightarrow> first' ! v = start_of cnt v)
    \<and> (\<forall>p < start_of cnt (Suc i). arr' ! p = a1 ! p)
    \<and> (\<forall>v. Suc i \<le> v \<and> v < n \<and> 0 < cnt v \<longrightarrow> arr' ! start_of cnt v = cnt v)"
    using Suc.hyps(2) i Suc.prems(2-5) rest by (intro Suc.hyps(1)) (auto simp: f1_def a1_def)
  note IH = this
  have at_i: "first' ! i = start_of cnt i" using IH i Suc.prems(2) by (simp add: f1_def)
  have arr_i: "arr' ! start_of cnt i = cnt i" if "0 < cnt i"
    using IH that le Suc.prems(4) by (simp add: a1_def start_Suc)
  have "first' ! v = start_of cnt v" if "i \<le> v" "v < n" for v
    using IH at_i that by (cases "v = i") auto
  moreover have "arr' ! start_of cnt v = cnt v" if "i \<le> v" "v < n" "0 < cnt v" for v
    using IH arr_i that by (cases "v = i") auto
  moreover have "arr' ! p = arr ! p" if "p < start_of cnt i" for p
    using IH that by (simp add: a1_def start_Suc)
  moreover have "first' ! v = first ! v" if "v < i \<or> n \<le> v" for v
    using IH that i by (auto simp: f1_def)
  ultimately show ?case using IH by (simp add: f1_def a1_def)
qed

section \<open>Filling\<close>

definition of_key :: "nat \<Rightarrow> (nat \<times> 'a) list \<Rightarrow> 'a list" where
  "of_key v its = map snd (filter (\<lambda>it. fst it = v) its)"

lemma of_key_simps [simp]:
  "of_key v [] = []" "of_key v (it # its) = (if fst it = v then snd it # of_key v its else of_key v its)"
  "of_key v (its @ its') = of_key v its @ of_key v its'"
  by (simp_all add: of_key_def)

lemma length_of_key: "length (of_key v its) = count_list (map fst its) v"
  by (induction its) auto

text \<open>
  After the entries \<open>xs\<close> have been placed, key \<open>v\<close> has its \<open>length (of_key v xs)\<close> last slots filled, the
  first entry in the last slot; the first slot holds how many are missing.
\<close>

definition fill_inv :: "nat \<Rightarrow> (nat \<Rightarrow> nat) \<Rightarrow> (nat \<times> nat \<times> nat) list \<Rightarrow> nat list \<Rightarrow> nat list \<Rightarrow> bool" where
  "fill_inv n cnt xs arr brr \<longleftrightarrow>
     (\<forall>v<n. length (of_key v xs) \<le> cnt v
       \<and> (length (of_key v xs) < cnt v \<longrightarrow> arr ! start_of cnt v = cnt v - length (of_key v xs))
       \<and> (\<forall>j<length (of_key v xs).
            arr ! (start_of cnt v + (cnt v - Suc j)) = fst (of_key v xs ! j)
          \<and> brr ! (start_of cnt v + (cnt v - Suc j)) = snd (of_key v xs ! j)))"

lemma fill_step:
  assumes inv: "fill_inv n cnt xs arr brr" and k: "k < n" and room: "length (of_key k xs) < cnt k"
    and first: "first ! k = start_of cnt k"
    and len: "start_of cnt n \<le> length arr" "length brr = length arr" "length arr < 4294967296"
    and pq: "p < 4294967296" "q < 4294967296"
    and put: "csr_put first arr k p = (pos, arr')"
  shows "fill_inv n cnt (xs @ [(k, p, q)]) arr' (u32_set brr pos q) \<and> length arr' = length arr"
proof -
  let ?s = "start_of cnt" and ?f = "length (of_key k xs)"
  have cnt: "arr ! ?s k = cnt k - ?f" using inv k room by (simp add: fill_inv_def)
  have bound: "?s v + cnt v \<le> length arr" if "v < n" for v
    using start_le [OF that, of cnt] len(1) by simp
  have sk: "?s k < length arr" using bound [OF k] room by simp
  have dec: "u32_dec arr (?s k) = arr[?s k := cnt k - Suc ?f]"
    using cnt room bound [OF k] len(3) by (subst u32_dec_pos) auto
  have pos: "pos = ?s k + (cnt k - Suc ?f)" and arr': "arr' = arr[?s k := cnt k - Suc ?f, pos := p]"
    using put first dec sk pq cnt room by (auto simp: csr_put_def Let_def u32_set_def)
  have brr': "u32_set brr pos q = brr[pos := q]" using pq by (simp add: u32_set_def)
  have plt: "pos < length arr" using pos bound [OF k] room by simp
  have other: "arr' ! (?s v + i) = arr ! (?s v + i)" "(brr[pos := q]) ! (?s v + i) = brr ! (?s v + i)"
    if "v < n" "v \<noteq> k" "i < cnt v" for v i
    using slots_disjoint [of v k i cnt 0] slots_disjoint [of v k i cnt "cnt k - Suc ?f"] that room
    by (auto simp: arr' pos)
  show ?thesis
    unfolding fill_inv_def brr'
  proof (intro conjI allI impI)
    show "length arr' = length arr" by (simp add: arr')
    fix v assume v: "v < n"
    show "length (of_key v (xs @ [(k, p, q)])) \<le> cnt v"
      using inv v room by (auto simp: fill_inv_def)
    show "arr' ! ?s v = cnt v - length (of_key v (xs @ [(k, p, q)]))"
      if "length (of_key v (xs @ [(k, p, q)])) < cnt v"
      using inv v that other(1) [OF v, of 0] sk room
      by (cases "v = k") (auto simp: fill_inv_def arr' pos nth_list_update)
    fix j assume j: "j < length (of_key v (xs @ [(k, p, q)]))"
    have old: "length (of_key v xs) \<le> cnt v"
      "\<And>j. j < length (of_key v xs) \<Longrightarrow> arr ! (?s v + (cnt v - Suc j)) = fst (of_key v xs ! j)
          \<and> brr ! (?s v + (cnt v - Suc j)) = snd (of_key v xs ! j)"
      using inv v by (auto simp: fill_inv_def)
    show "arr' ! (?s v + (cnt v - Suc j)) = fst (of_key v (xs @ [(k, p, q)]) ! j)"
      "(brr[pos := q]) ! (?s v + (cnt v - Suc j)) = snd (of_key v (xs @ [(k, p, q)]) ! j)"
      using old j other [OF v, of "cnt v - Suc j"] plt room len(2)
      by (cases "v = k"; cases "j < length (of_key v xs)";
          auto simp: nth_append arr' pos nth_list_update less_Suc_eq)+
  qed
qed

lemma csr_fill2_inv:
  assumes "fill_inv n cnt xs arr brr" "\<forall>it\<in>set its. fst it < n \<and> fst (snd it) < 4294967296 \<and> snd (snd it) < 4294967296"
    and "\<forall>v<n. length (of_key v (xs @ its)) \<le> cnt v" "\<forall>v<n. first ! v = start_of cnt v"
    and "start_of cnt n \<le> length arr" "length brr = length arr" "length arr < 4294967296"
    and "csr_fill2 first its arr brr = (arr', brr')"
  shows "fill_inv n cnt (xs @ its) arr' brr' \<and> length arr' = length arr \<and> length brr' = length arr"
  using assms
proof (induction its arbitrary: xs arr brr)
  case Nil
  then show ?case by simp
next
  case (Cons it its)
  obtain k p q where it: "it = (k, p, q)" by (cases it)
  obtain pos arr1 where put: "csr_put first arr k p = (pos, arr1)" by (cases "csr_put first arr k p")
  have k: "k < n" and pq: "p < 4294967296" "q < 4294967296" using Cons.prems(2) it by simp_all
  have room: "length (of_key k xs) < cnt k" using Cons.prems(3) k it by (auto dest!: spec [of _ k])
  have step: "fill_inv n cnt (xs @ [(k, p, q)]) arr1 (u32_set brr pos q)" "length arr1 = length arr"
    using fill_step [OF Cons.prems(1) k room _ Cons.prems(5-7) pq put] Cons.prems(4) k by simp_all
  have "fill_inv n cnt ((xs @ [(k, p, q)]) @ its) arr' brr' \<and> length arr' = length arr1 \<and> length brr' = length arr1"
    using Cons.prems step put it by (intro Cons.IH) auto
  with step(2) it show ?case by simp
qed

lemma nth_map_slice:
  assumes "s + c \<le> length arr" "\<forall>j<c. arr ! (s + (c - Suc j)) = ys ! j" "length ys = c"
  shows "take c (drop s arr) = rev ys"
proof (rule nth_equalityI)
  show "length (take c (drop s arr)) = length (rev ys)" using assms by simp
  fix i assume "i < length (take c (drop s arr))"
  then have i: "i < c" using assms(1) by simp
  then have "arr ! (s + i) = ys ! (c - Suc i)" using assms(2) [rule_format, of "c - Suc i"] by simp
  with i assms show "take c (drop s arr) ! i = rev ys ! i" by (simp add: rev_nth)
qed

text \<open>The three loops together, on arrays of zeros.\<close>

lemma csr_correct:
  assumes keys: "\<forall>it\<in>set its. fst it < n \<and> fst (snd it) < 4294967296 \<and> snd (snd it) < 4294967296"
    and len: "length its \<le> m" "m < 4294967296"
    and run: "csr_starts [0..<n] (csr_count (map fst its) (replicate (Suc n) 0)) (replicate m 0) 0 = (first, arr)"
      "csr_fill2 first its arr (replicate m 0) = (arr', brr')"
  defines "cnt \<equiv> count_list (map fst its)"
  shows "length first = Suc n" "length arr = m" "length arr' = m" "length brr' = m"
    "v < n \<Longrightarrow> first ! v = start_of cnt v" "start_of cnt n = length its"
    "v < n \<Longrightarrow> start_of cnt v + cnt v \<le> m"
    "v < n \<Longrightarrow> take (cnt v) (drop (start_of cnt v) arr') = rev (map fst (of_key v its))"
    "v < n \<Longrightarrow> take (cnt v) (drop (start_of cnt v) brr') = rev (map snd (of_key v its))"
proof -
  have total: "start_of cnt n = length its"
    using keys unfolding cnt_def
  proof (induction its)
    case (Cons it its)
    have "start_of (count_list (map fst (it # its))) n
        = (\<Sum>v<n. (if v = fst it then 1 else 0) + count_list (map fst its) v)"
      by (rule sum.cong) auto
    also have "\<dots> = Suc (start_of (count_list (map fst its)) n)"
      using Cons.prems by (simp add: sum.distrib)
    finally show ?case using Cons by simp
  qed simp
  then show "start_of cnt n = length its" .
  have cnts: "csr_count (map fst its) (replicate (Suc n) 0) ! v = cnt v" if "v < n" for v
    using that keys len unfolding cnt_def
    by (subst csr_count_nth) (auto simp del: replicate_Suc intro: less_SucI)
  have starts: "length first = Suc n \<and> length arr = m
    \<and> (\<forall>v<n. first ! v = start_of cnt v) \<and> (\<forall>v<n. 0 < cnt v \<longrightarrow> arr ! start_of cnt v = cnt v)"
    using csr_starts_inv [of 0 n "csr_count (map fst its) (replicate (Suc n) 0)" cnt "replicate m 0" first arr]
      run(1) total len cnts by (simp del: replicate_Suc)
  have "fill_inv n cnt [] arr (replicate m 0)"
    using starts by (auto simp: fill_inv_def)
  then have fill: "fill_inv n cnt ([] @ its) arr' brr' \<and> length arr' = length arr \<and> length brr' = length arr"
    using keys starts run(2) total len
    by (intro csr_fill2_inv) (auto simp: length_of_key cnt_def)
  show "length first = Suc n" "length arr = m" "length arr' = m" "length brr' = m"
    using starts fill by simp_all
  assume v: "v < n"
  show "first ! v = start_of cnt v" using starts v by simp
  show bound: "start_of cnt v + cnt v \<le> m" using start_le [OF v, of cnt] total len by simp
  have lenv: "length (of_key v its) = cnt v" by (simp add: length_of_key cnt_def)
  have "\<forall>j<cnt v. arr' ! (start_of cnt v + (cnt v - Suc j)) = map fst (of_key v its) ! j
      \<and> brr' ! (start_of cnt v + (cnt v - Suc j)) = map snd (of_key v its) ! j"
    using fill v lenv by (auto simp: fill_inv_def)
  then show "take (cnt v) (drop (start_of cnt v) arr') = rev (map fst (of_key v its))"
    "take (cnt v) (drop (start_of cnt v) brr') = rev (map snd (of_key v its))"
    using bound lenv starts fill by (auto intro!: nth_map_slice)
qed

end
