(* ===== verification/Heap_Loader.thy ===== *)
theory Heap_Loader
  imports Heap_Csr
begin

text \<open>
  The state of \<open>HeapLoader\<close> (\<open>js-heap/logic/HeapLoader.ts\<close>), its construction from a snapshot, the
  edges of each node and the retainer table.

  A node object is identified by its position in \<open>hl_nodes\<close>; \<open>hl_nodeMap\<close> gives the position of the
  node with an id. \<open>hl_holes\<close> counts the holes that sorting leaves at the end of the array of nodes
  when the snapshot announces more nodes than it has: iterating over the array then raises a
  \<open>TypeError\<close>.
\<close>

section \<open>State\<close>

record HeapLoader =
  hl_fileId :: int
  hl_nodes :: "HeapNode list"
  hl_holes :: nat
  hl_nodeMap :: "nat \<Rightarrow> nat option"
  hl_edges :: "HeapEdge list"
  hl_nodeCount :: nat
  hl_edgeCount :: nat
  hl_retainingNodes :: "nat list"
  hl_retainingEdges :: "nat list"
  hl_firstRetainerIndex :: "nat list"
  hl_dominatorTree :: "nat list"
  hl_firstDominatedNodesIdx :: "nat list"
  hl_dominatedNodes :: "nat list"
  hl_samples :: "HeapSample list"
  hl_allClasses :: "(jsstring \<times> ConstructorItem) list option"
  hl_diffToOtherFile :: "int \<Rightarrow> (jsstring \<times> ConstructorItem) list option"

abbreviation rootNode :: "HeapLoader \<Rightarrow> HeapNode" where
  "rootNode L \<equiv> hl_nodes L ! 0"

definition upd_node :: "nat \<Rightarrow> (HeapNode \<Rightarrow> HeapNode) \<Rightarrow> HeapLoader \<Rightarrow> HeapLoader" where
  "upd_node i f L = L\<lparr>hl_nodes := (hl_nodes L)[i := f (hl_nodes L ! i)]\<rparr>"

section \<open>Construction\<close>

definition place_node :: "HeapNode \<Rightarrow> HeapNode option list \<Rightarrow> HeapNode option list" where
  "place_node v ns =
     (if hn_nodeIndex v < length ns then ns[hn_nodeIndex v := Some v]
      else ns @ replicate (hn_nodeIndex v - length ns) None @ [Some v])"

text \<open>\<open>Array.prototype.sort\<close> is stable and moves holes to the end.\<close>

definition sort_nodes :: "HeapNode option list \<Rightarrow> HeapNode list \<times> nat" where
  "sort_nodes ns =
     (let vs = map the (filter (\<lambda>x. x \<noteq> None) ns) in (sort_key hn_nodeIndex vs, length ns - length vs))"

definition nodeMap_of :: "HeapNode list \<Rightarrow> nat \<Rightarrow> nat option" where
  "nodeMap_of ns = map_of (zip (map hn_id ns) [0..<length ns])"

text \<open>
  The fields set by the constructor. The values of the map of nodes come in insertion order and are
  keyed by their own id. \<open>new Uint32Array(nodeCount - 1)\<close> fails when there is no node.
\<close>

definition newHeapLoader :: "int \<Rightarrow> nat \<Rightarrow> nat \<Rightarrow> HeapNode list \<Rightarrow> HeapEdge list \<Rightarrow> HeapSample list \<Rightarrow> HeapLoader result" where
  "newHeapLoader fileId nodeCount edgeCount nodeMap edges samples =
     (let (nodes, holes) = sort_nodes (fold place_node nodeMap (replicate nodeCount None)) in
      if nodeCount = 0 then Inl RangeError
      else Inr \<lparr>hl_fileId = fileId, hl_nodes = nodes, hl_holes = holes, hl_nodeMap = nodeMap_of nodes,
        hl_edges = edges, hl_nodeCount = nodeCount, hl_edgeCount = edgeCount,
        hl_retainingNodes = replicate edgeCount 0, hl_retainingEdges = replicate edgeCount 0,
        hl_firstRetainerIndex = replicate (nodeCount + 1) 0, hl_dominatorTree = replicate nodeCount 0,
        hl_firstDominatedNodesIdx = replicate (nodeCount + 1) 0, hl_dominatedNodes = replicate (nodeCount - 1) 0,
        hl_samples = samples, hl_allClasses = None, hl_diffToOtherFile = (\<lambda>_. None)\<rparr>)"

definition own_edges :: "HeapEdge list \<Rightarrow> HeapNode \<Rightarrow> HeapEdge list" where
  "own_edges edges n =
     map (\<lambda>i. edges ! (hn_firstEdgeIndex n + i))
       (filter (\<lambda>i. length edges > hn_firstEdgeIndex n + i) [0..<hn_edgeCount n])"

definition buildNodeEdge :: "HeapLoader \<Rightarrow> HeapLoader" where
  "buildNodeEdge L = L\<lparr>hl_nodes := map (\<lambda>n. fold addEdge (own_edges (hl_edges L) n) n) (hl_nodes L)\<rparr>"

section \<open>Retainers\<close>

definition retainer_step :: "HeapNode \<times> HeapEdge \<Rightarrow> HeapLoader \<Rightarrow> HeapLoader" where
  "retainer_step ne L =
     (case ne of (node, edge) \<Rightarrow>
      case hl_nodeMap L (he_toNodeId edge) of
        None \<Rightarrow> L
      | Some c \<Rightarrow>
          (let L1 = (if hn_nodeIndex node \<noteq> hn_nodeIndex (rootNode L)
                     then upd_node c (\<lambda>n. n\<lparr>hn_retainsNodeIdx := hn_retainsNodeIdx n @ [hn_nodeIndex node],
                                           hn_retainsEdgeIdx := hn_retainsEdgeIdx n @ [he_edgeIndex edge]\<rparr>) L
                     else L);
               (pos, rn) = csr_put (hl_firstRetainerIndex L1) (hl_retainingNodes L1)
                  (hn_nodeIndex (hl_nodes L ! c)) (hn_nodeIndex node)
           in L1\<lparr>hl_retainingNodes := rn, hl_retainingEdges := u32_set (hl_retainingEdges L1) pos (he_edgeIndex edge)\<rparr>))"

definition node_edge_pairs :: "HeapNode list \<Rightarrow> (HeapNode \<times> HeapEdge) list" where
  "node_edge_pairs ns = concat (map (\<lambda>n. map (Pair n) (hn_edges n)) ns)"

definition buildRetainers :: "HeapLoader \<Rightarrow> HeapLoader" where
  "buildRetainers L =
     (let first0 = csr_count (map (\<lambda>c. hn_nodeIndex (hl_nodes L ! c))
            (List.map_filter (\<lambda>e. hl_nodeMap L (he_toNodeId e)) (hl_edges L))) (hl_firstRetainerIndex L);
          (first1, rn) = csr_starts (map hn_nodeIndex (hl_nodes L)) first0 (hl_retainingNodes L) 0;
          L1 = L\<lparr>hl_retainingNodes := rn, hl_firstRetainerIndex := u32_set first1 (hl_nodeCount L) (length rn)\<rparr>
      in fold retainer_step (node_edge_pairs (hl_nodes L1)) L1)"

section \<open>Edge predicates\<close>

definition isEssentialEdge :: "HeapLoader \<Rightarrow> HeapEdge \<Rightarrow> nat \<Rightarrow> bool" where
  "isEssentialEdge L edge nodeId \<longleftrightarrow>
     he_type edge \<noteq> EdgeType_num EdgeType_WEAK
     \<and> (he_type edge \<noteq> EdgeType_num EdgeType_SHORTCUT \<or> nodeId = hn_id (rootNode L))"

definition retainer_slots :: "HeapLoader \<Rightarrow> nat \<Rightarrow> nat list" where
  "retainer_slots L v = [hl_firstRetainerIndex L ! v..<hl_firstRetainerIndex L ! (v + 1)]"

definition hasOnlyWeakRetainers :: "HeapLoader \<Rightarrow> HeapNode \<Rightarrow> bool" where
  "hasOnlyWeakRetainers L node \<longleftrightarrow>
     (\<forall>idx\<in>set (retainer_slots L (hn_nodeIndex node)).
        let edge = hl_edges L ! (hl_retainingEdges L ! idx) in
        he_type edge = EdgeType_num EdgeType_WEAK \<or> he_type edge = EdgeType_num EdgeType_SHORTCUT)"

section \<open>Well-formed snapshots\<close>

text \<open>
  What the database guarantees: nodes are numbered in order, ids are unique, the edges are stored
  node by node and numbered in order, every edge leads to a node of the snapshot, and everything
  fits into 32 bits.
\<close>

definition edges_before :: "HeapNode list \<Rightarrow> nat \<Rightarrow> nat" where
  "edges_before ns i = sum_list (map hn_edgeCount (take i ns))"

definition wf_snapshot :: "HeapNode list \<Rightarrow> HeapEdge list \<Rightarrow> bool" where
  "wf_snapshot ns es \<longleftrightarrow>
     0 < length ns \<and> length ns < 4294967296 \<and> length es < 4294967296
     \<and> (\<forall>i<length ns. hn_nodeIndex (ns ! i) = i \<and> hn_firstEdgeIndex (ns ! i) = edges_before ns i
          \<and> hn_id (ns ! i) < 4294967296)
     \<and> distinct (map hn_id ns) \<and> edges_before ns (length ns) = length es
     \<and> (\<forall>k<length es. he_edgeIndex (es ! k) = k \<and> he_toNodeId (es ! k) \<in> hn_id ` set ns)"

definition target :: "HeapLoader \<Rightarrow> nat \<Rightarrow> nat" where
  "target L k = the (hl_nodeMap L (he_toNodeId (hl_edges L ! k)))"

text \<open>A loader between construction and clearing: its tables fit the snapshot.\<close>

definition wf_loader :: "HeapLoader \<Rightarrow> bool" where
  "wf_loader L \<longleftrightarrow> wf_snapshot (hl_nodes L) (hl_edges L) \<and> hl_holes L = 0
     \<and> hl_nodeMap L = nodeMap_of (hl_nodes L) \<and> hl_nodeCount L = length (hl_nodes L)
     \<and> hl_edgeCount L = length (hl_edges L)"

lemma nodeMap_of_Some:
  assumes "distinct (map hn_id ns)"
  shows "nodeMap_of ns x = Some i \<longleftrightarrow> i < length ns \<and> hn_id (ns ! i) = x"
proof -
  have "distinct (map fst (zip (map hn_id ns) [0..<length ns]))" using assms by simp
  then have "nodeMap_of ns x = Some i \<longleftrightarrow> (x, i) \<in> set (zip (map hn_id ns) [0..<length ns])"
    by (simp add: nodeMap_of_def)
  also have "\<dots> \<longleftrightarrow> i < length ns \<and> hn_id (ns ! i) = x"
    by (auto simp: set_zip intro!: exI [of _ i])
  finally show ?thesis .
qed

lemma wf_loader_simps:
  assumes "wf_loader L"
  shows "i < length (hl_nodes L) \<Longrightarrow> hn_nodeIndex (hl_nodes L ! i) = i"
    "hl_nodeMap L x = Some i \<longleftrightarrow> i < length (hl_nodes L) \<and> hn_id (hl_nodes L ! i) = x"
    "k < length (hl_edges L) \<Longrightarrow> he_edgeIndex (hl_edges L ! k) = k"
    "k < length (hl_edges L) \<Longrightarrow> hl_nodeMap L (he_toNodeId (hl_edges L ! k)) = Some (target L k)"
    "k < length (hl_edges L) \<Longrightarrow> target L k < length (hl_nodes L)"
    "hl_nodeCount L = length (hl_nodes L)" "hl_edgeCount L = length (hl_edges L)" "0 < length (hl_nodes L)"
    "i < length (hl_nodes L) \<Longrightarrow> hl_nodeMap L (hn_id (hl_nodes L ! i)) = Some i"
    "length (hl_nodes L) < 4294967296" "length (hl_edges L) < 4294967296"
    "i < length (hl_nodes L) \<Longrightarrow> hn_id (hl_nodes L ! i) < 4294967296"
proof -
  note wf = assms [unfolded wf_loader_def wf_snapshot_def]
  show map: "hl_nodeMap L x = Some i \<longleftrightarrow> i < length (hl_nodes L) \<and> hn_id (hl_nodes L ! i) = x" for x i
    using wf by (simp add: nodeMap_of_Some)
  show "hn_nodeIndex (hl_nodes L ! i) = i" "hn_id (hl_nodes L ! i) < 4294967296" if "i < length (hl_nodes L)"
    using wf that by simp_all
  show "he_edgeIndex (hl_edges L ! k) = k" if "k < length (hl_edges L)" using wf that by simp
  have "\<exists>i. hl_nodeMap L (he_toNodeId (hl_edges L ! k)) = Some i" if "k < length (hl_edges L)"
  proof -
    have "he_toNodeId (hl_edges L ! k) \<in> hn_id ` set (hl_nodes L)" using wf that by simp
    then show ?thesis by (auto simp: map in_set_conv_nth)
  qed
  then show tgt: "hl_nodeMap L (he_toNodeId (hl_edges L ! k)) = Some (target L k)" if "k < length (hl_edges L)"
    using that by (auto simp: target_def)
  then show "target L k < length (hl_nodes L)" if "k < length (hl_edges L)" using that by (simp add: map)
  show "hl_nodeMap L (hn_id (hl_nodes L ! i)) = Some i" if "i < length (hl_nodes L)" using that by (simp add: map)
qed (use assms in \<open>simp_all add: wf_loader_def wf_snapshot_def\<close>)

section \<open>The edges of a node\<close>

lemma fold_addEdge [simp]: "fold addEdge es n = n\<lparr>hn_edges := hn_edges n @ es\<rparr>"
  by (induction es arbitrary: n) (simp_all add: addEdge_def)

lemma edges_before_Suc: "i < length ns \<Longrightarrow> edges_before ns (Suc i) = edges_before ns i + hn_edgeCount (ns ! i)"
  by (simp add: edges_before_def take_Suc_conv_app_nth)

lemma edges_before_mono: "i \<le> j \<Longrightarrow> edges_before ns i \<le> edges_before ns j"
proof -
  assume "i \<le> j"
  then have "take j ns = take i ns @ take (j - i) (drop i ns)" by (metis le_add_diff_inverse take_add)
  then show ?thesis by (simp add: edges_before_def)
qed

definition edges_built :: "HeapLoader \<Rightarrow> bool" where
  "edges_built L \<longleftrightarrow> (\<forall>i<length (hl_nodes L). hn_edges (hl_nodes L ! i)
     = map ((!) (hl_edges L)) [edges_before (hl_nodes L) i..<edges_before (hl_nodes L) (Suc i)])"

lemma own_edges_eq:
  assumes "wf_loader L" "i < length (hl_nodes L)"
  shows "own_edges (hl_edges L) (hl_nodes L ! i)
     = map ((!) (hl_edges L)) [edges_before (hl_nodes L) i..<edges_before (hl_nodes L) (Suc i)]"
proof -
  let ?n = "hl_nodes L ! i" and ?b = "edges_before (hl_nodes L) i"
  have first: "hn_firstEdgeIndex ?n = ?b" and total: "edges_before (hl_nodes L) (length (hl_nodes L)) = length (hl_edges L)"
    using assms by (auto simp: wf_loader_def wf_snapshot_def)
  have last: "?b + hn_edgeCount ?n \<le> length (hl_edges L)"
    using edges_before_mono [of "Suc i" "length (hl_nodes L)" "hl_nodes L"] edges_before_Suc assms(2) total by auto
  then have "filter (\<lambda>j. length (hl_edges L) > ?b + j) [0..<hn_edgeCount ?n] = [0..<hn_edgeCount ?n]"
    by (auto intro: filter_True)
  moreover have "[?b..<?b + hn_edgeCount ?n] = map (\<lambda>j. ?b + j) [0..<hn_edgeCount ?n]"
    by (intro nth_equalityI) auto
  ultimately show ?thesis using assms(2) by (simp add: own_edges_def first edges_before_Suc comp_def)
qed

lemma buildNodeEdge_built:
  assumes "wf_loader L" "\<forall>n\<in>set (hl_nodes L). hn_edges n = []"
  shows "wf_loader (buildNodeEdge L) \<and> edges_built (buildNodeEdge L)"
proof -
  let ?f = "\<lambda>n. n\<lparr>hn_edges := hn_edges n @ own_edges (hl_edges L) n\<rparr>"
  have L: "buildNodeEdge L = L\<lparr>hl_nodes := map ?f (hl_nodes L)\<rparr>" by (simp add: buildNodeEdge_def)
  have before: "edges_before (map ?f ns) i = edges_before ns i" for ns i
    by (simp add: edges_before_def take_map comp_def)
  have ids: "map hn_id (map ?f ns) = map hn_id ns" for ns by simp
  have "nodeMap_of (map ?f ns) = nodeMap_of ns" for ns by (simp add: nodeMap_of_def comp_def)
  moreover have "hn_id ` (?f ` set ns) = hn_id ` set ns" for ns by (simp add: image_image)
  ultimately have "wf_loader (buildNodeEdge L)"
    using assms(1) ids before by (simp add: L wf_loader_def wf_snapshot_def comp_def)
  moreover have "edges_built (buildNodeEdge L)"
    using assms own_edges_eq [OF assms(1)] by (simp add: L edges_built_def before)
  ultimately show ?thesis ..
qed

text \<open>The position of the node that an edge leaves.\<close>

definition owners :: "HeapNode list \<Rightarrow> nat list" where
  "owners ns = concat (map (\<lambda>i. replicate (hn_edgeCount (ns ! i)) i) [0..<length ns])"

lemma node_edge_pairs_eq:
  assumes "wf_loader L" "edges_built L"
  shows "node_edge_pairs (hl_nodes L) = zip (map ((!) (hl_nodes L)) (owners (hl_nodes L))) (hl_edges L)"
    and "length (owners (hl_nodes L)) = length (hl_edges L)"
proof -
  let ?ns = "hl_nodes L" and ?es = "hl_edges L"
  let ?own = "\<lambda>i. concat (map (\<lambda>i. replicate (hn_edgeCount (?ns ! i)) i) [0..<i])"
  have total: "edges_before ?ns (length ?ns) = length ?es" using assms(1) by (simp add: wf_loader_def wf_snapshot_def)
  have *: "node_edge_pairs (take i ?ns) = zip (map ((!) ?ns) (?own i)) (take (edges_before ?ns i) ?es)
      \<and> length (?own i) = edges_before ?ns i" if "i \<le> length ?ns" for i
    using that
  proof (induction i)
    case 0
    then show ?case by (simp add: node_edge_pairs_def edges_before_def)
  next
    case (Suc i)
    let ?b = "edges_before ?ns i" and ?b' = "edges_before ?ns (Suc i)"
    have i: "i < length ?ns" using Suc.prems by simp
    have b': "?b' = ?b + hn_edgeCount (?ns ! i)" using edges_before_Suc [OF i] .
    have le: "?b' \<le> length ?es" using edges_before_mono [OF Suc.prems, of ?ns] total by simp
    have es: "hn_edges (?ns ! i) = map ((!) ?es) [?b..<?b']" using assms(2) i by (simp add: edges_built_def)
    have split: "take ?b' ?es = take ?b ?es @ map ((!) ?es) [?b..<?b']"
      using le b' by (intro nth_equalityI) (auto simp: nth_append)
    have "node_edge_pairs (take (Suc i) ?ns) = node_edge_pairs (take i ?ns) @ map (Pair (?ns ! i)) (hn_edges (?ns ! i))"
      using i by (simp add: node_edge_pairs_def take_Suc_conv_app_nth)
    also have "map (Pair (?ns ! i)) (hn_edges (?ns ! i))
        = zip (replicate (hn_edgeCount (?ns ! i)) (?ns ! i)) (map ((!) ?es) [?b..<?b'])"
      using b' by (simp add: es zip_replicate1)
    finally show ?case using Suc le split by (simp add: b' zip_append)
  qed
  from * [of "length ?ns"] show "node_edge_pairs ?ns = zip (map ((!) ?ns) (owners ?ns)) ?es"
    "length (owners ?ns) = length ?es" by (simp_all add: owners_def total)
qed

lemma owners_less: "o' \<in> set (owners ns) \<Longrightarrow> o' < length ns"
  by (auto simp: owners_def)

section \<open>The retainer table\<close>

text \<open>What \<open>buildRetainers\<close> leaves of a node.\<close>

definition sans_retains :: "HeapNode \<Rightarrow> HeapNode" where
  "sans_retains n = n\<lparr>hn_retainsEdgeIdx := [], hn_retainsNodeIdx := []\<rparr>"

lemma map_update_same: "f y = f (xs ! i) \<Longrightarrow> map f (xs[i := y]) = map f xs"
  by (cases "i < length xs") (simp_all add: map_update list_update_same_conv list_update_beyond)

lemma sans_retains_upd [simp]: "sans_retains (n\<lparr>hn_retainsNodeIdx := a, hn_retainsEdgeIdx := b\<rparr>) = sans_retains n"
  by (simp add: sans_retains_def)

lemma retainer_step_frame:
  "map sans_retains (hl_nodes (retainer_step ne L)) = map sans_retains (hl_nodes L)
   \<and> hl_nodeMap (retainer_step ne L) = hl_nodeMap L \<and> hl_edges (retainer_step ne L) = hl_edges L
   \<and> hl_firstRetainerIndex (retainer_step ne L) = hl_firstRetainerIndex L
   \<and> hl_holes (retainer_step ne L) = hl_holes L \<and> hl_nodeCount (retainer_step ne L) = hl_nodeCount L
   \<and> hl_edgeCount (retainer_step ne L) = hl_edgeCount L"
  by (auto simp: retainer_step_def Let_def upd_node_def map_update_same case_prod_beta split: option.split)

lemma fold_retainer_frame:
  "map sans_retains (hl_nodes (fold retainer_step ps L)) = map sans_retains (hl_nodes L)
   \<and> hl_nodeMap (fold retainer_step ps L) = hl_nodeMap L \<and> hl_edges (fold retainer_step ps L) = hl_edges L
   \<and> hl_firstRetainerIndex (fold retainer_step ps L) = hl_firstRetainerIndex L
   \<and> hl_holes (fold retainer_step ps L) = hl_holes L \<and> hl_nodeCount (fold retainer_step ps L) = hl_nodeCount L
   \<and> hl_edgeCount (fold retainer_step ps L) = hl_edgeCount L"
  by (induction ps arbitrary: L) (simp_all add: retainer_step_frame)

lemma sans_retains_nth:
  assumes "map sans_retains ns' = map sans_retains ns"
  shows "length ns' = length ns"
    "i < length ns \<Longrightarrow> hn_nodeIndex (ns' ! i) = hn_nodeIndex (ns ! i) \<and> hn_edges (ns' ! i) = hn_edges (ns ! i)
      \<and> hn_id (ns' ! i) = hn_id (ns ! i) \<and> hn_firstEdgeIndex (ns' ! i) = hn_firstEdgeIndex (ns ! i)
      \<and> hn_edgeCount (ns' ! i) = hn_edgeCount (ns ! i)"
proof -
  show len: "length ns' = length ns" using assms by (metis length_map)
  assume "i < length ns"
  then have "sans_retains (ns' ! i) = sans_retains (ns ! i)" using assms len by (metis nth_map)
  then show "hn_nodeIndex (ns' ! i) = hn_nodeIndex (ns ! i) \<and> hn_edges (ns' ! i) = hn_edges (ns ! i)
      \<and> hn_id (ns' ! i) = hn_id (ns ! i) \<and> hn_firstEdgeIndex (ns' ! i) = hn_firstEdgeIndex (ns ! i)
      \<and> hn_edgeCount (ns' ! i) = hn_edgeCount (ns ! i)"
    by (cases "ns' ! i"; cases "ns ! i") (simp add: sans_retains_def)
qed

definition pair_item :: "HeapLoader \<Rightarrow> HeapNode \<times> HeapEdge \<Rightarrow> nat \<times> nat \<times> nat" where
  "pair_item L ne = (the (hl_nodeMap L (he_toNodeId (snd ne))), hn_nodeIndex (fst ne), he_edgeIndex (snd ne))"

lemma fold_retainer_arrays:
  assumes "\<forall>ne\<in>set ps. \<exists>c<length (hl_nodes L). hl_nodeMap L (he_toNodeId (snd ne)) = Some c"
    and "\<forall>i<length (hl_nodes L). hn_nodeIndex (hl_nodes L ! i) = i"
  shows "(hl_retainingNodes (fold retainer_step ps L), hl_retainingEdges (fold retainer_step ps L))
     = csr_fill2 (hl_firstRetainerIndex L) (map (pair_item L) ps) (hl_retainingNodes L) (hl_retainingEdges L)"
  using assms
proof (induction ps arbitrary: L)
  case Nil
  then show ?case by simp
next
  case (Cons ne ps)
  obtain node edge where ne: "ne = (node, edge)" by (cases ne)
  let ?L1 = "retainer_step ne L"
  obtain c where c: "c < length (hl_nodes L)" "hl_nodeMap L (he_toNodeId edge) = Some c"
    using Cons.prems(1) ne by auto
  obtain pos rn where put: "csr_put (hl_firstRetainerIndex L) (hl_retainingNodes L) c (hn_nodeIndex node) = (pos, rn)"
    by (cases "csr_put (hl_firstRetainerIndex L) (hl_retainingNodes L) c (hn_nodeIndex node)")
  have step: "hl_retainingNodes ?L1 = rn" "hl_retainingEdges ?L1 = u32_set (hl_retainingEdges L) pos (he_edgeIndex edge)"
    using c put Cons.prems(2) by (auto simp: retainer_step_def ne Let_def upd_node_def)
  note fr = retainer_step_frame [of ne L]
  then have "pair_item ?L1 = pair_item L" by (simp add: pair_item_def fun_eq_iff)
  moreover have len: "length (hl_nodes ?L1) = length (hl_nodes L)" using fr sans_retains_nth(1) by blast
  moreover have "\<forall>i<length (hl_nodes ?L1). hn_nodeIndex (hl_nodes ?L1 ! i) = i"
    using fr sans_retains_nth(2) [of "hl_nodes ?L1" "hl_nodes L"] Cons.prems(2) len by simp
  ultimately show ?case
    using Cons.IH [of ?L1] Cons.prems(1) fr step put c by (simp add: pair_item_def ne)
qed

lemma fold_retainer_lists:
  assumes "\<forall>ne\<in>set ps. \<exists>c<length (hl_nodes L). hl_nodeMap L (he_toNodeId (snd ne)) = Some c"
    and "hn_nodeIndex (rootNode L) = 0" "0 < length (hl_nodes L)" "v < length (hl_nodes L)"
  defines "it \<equiv> filter (\<lambda>ne. hn_nodeIndex (fst ne) \<noteq> 0 \<and> hl_nodeMap L (he_toNodeId (snd ne)) = Some v) ps"
  shows "hn_retainsNodeIdx (hl_nodes (fold retainer_step ps L) ! v)
     = hn_retainsNodeIdx (hl_nodes L ! v) @ map (hn_nodeIndex \<circ> fst) it"
    and "hn_retainsEdgeIdx (hl_nodes (fold retainer_step ps L) ! v)
     = hn_retainsEdgeIdx (hl_nodes L ! v) @ map (he_edgeIndex \<circ> snd) it"
proof -
  have "hn_retainsNodeIdx (hl_nodes (fold retainer_step ps L) ! v)
     = hn_retainsNodeIdx (hl_nodes L ! v) @ map (hn_nodeIndex \<circ> fst) it
   \<and> hn_retainsEdgeIdx (hl_nodes (fold retainer_step ps L) ! v)
     = hn_retainsEdgeIdx (hl_nodes L ! v) @ map (he_edgeIndex \<circ> snd) it"
    using assms(1-4) unfolding it_def
  proof (induction ps arbitrary: L)
    case (Cons ne ps)
    obtain node edge where ne: "ne = (node, edge)" by (cases ne)
    obtain c where c: "c < length (hl_nodes L)" "hl_nodeMap L (he_toNodeId edge) = Some c"
      using Cons.prems(1) ne by auto
    note fr = retainer_step_frame [of ne L]
    have len: "length (hl_nodes (retainer_step ne L)) = length (hl_nodes L)" using fr sans_retains_nth(1) by blast
    have root: "hn_nodeIndex (rootNode (retainer_step ne L)) = 0"
      using fr sans_retains_nth(2) [of "hl_nodes (retainer_step ne L)" "hl_nodes L" 0] Cons.prems(2,3) by simp
    have targets: "\<forall>ne'\<in>set ps. \<exists>c<length (hl_nodes (retainer_step ne L)).
        hl_nodeMap (retainer_step ne L) (he_toNodeId (snd ne')) = Some c"
      using Cons.prems(1) fr len by simp
    have "hn_retainsNodeIdx (hl_nodes (retainer_step ne L) ! v) = hn_retainsNodeIdx (hl_nodes L ! v)
          @ (if hn_nodeIndex node \<noteq> 0 \<and> c = v then [hn_nodeIndex node] else [])"
      "hn_retainsEdgeIdx (hl_nodes (retainer_step ne L) ! v) = hn_retainsEdgeIdx (hl_nodes L ! v)
          @ (if hn_nodeIndex node \<noteq> 0 \<and> c = v then [he_edgeIndex edge] else [])"
      using c Cons.prems(2-4)
      by (auto simp: retainer_step_def ne Let_def upd_node_def case_prod_beta nth_list_update)
    then show ?case
      using Cons.IH [OF targets root] Cons.prems(3,4) fr len c ne by (simp only: len) auto
  qed simp
  then show "hn_retainsNodeIdx (hl_nodes (fold retainer_step ps L) ! v)
     = hn_retainsNodeIdx (hl_nodes L ! v) @ map (hn_nodeIndex \<circ> fst) it"
    "hn_retainsEdgeIdx (hl_nodes (fold retainer_step ps L) ! v)
     = hn_retainsEdgeIdx (hl_nodes L ! v) @ map (he_edgeIndex \<circ> snd) it" by simp_all
qed

definition fresh_retainers :: "HeapLoader \<Rightarrow> bool" where
  "fresh_retainers L \<longleftrightarrow> hl_retainingNodes L = replicate (length (hl_edges L)) 0
     \<and> hl_retainingEdges L = replicate (length (hl_edges L)) 0
     \<and> hl_firstRetainerIndex L = replicate (Suc (length (hl_nodes L))) 0
     \<and> (\<forall>n\<in>set (hl_nodes L). hn_retainsNodeIdx n = [] \<and> hn_retainsEdgeIdx n = [])"

text \<open>The edges that lead to a node, as pairs of source position and edge position.\<close>

definition edges_into :: "HeapLoader \<Rightarrow> nat \<Rightarrow> (nat \<times> nat) list" where
  "edges_into L v = map (\<lambda>k. (owners (hl_nodes L) ! k, k)) (filter (\<lambda>k. target L k = v) [0..<length (hl_edges L)])"

definition retainers_of :: "HeapLoader \<Rightarrow> nat \<Rightarrow> (nat \<times> nat) list" where
  "retainers_of L v = map (\<lambda>idx. (hl_retainingNodes L ! idx, hl_retainingEdges L ! idx)) (retainer_slots L v)"

lemma pairs_items:
  assumes "wf_loader L" "edges_built L"
  shows "map (pair_item L) (node_edge_pairs (hl_nodes L))
     = map (\<lambda>k. (target L k, owners (hl_nodes L) ! k, k)) [0..<length (hl_edges L)]"
proof (rule nth_equalityI)
  note np = node_edge_pairs_eq [OF assms]
  show "length (map (pair_item L) (node_edge_pairs (hl_nodes L)))
      = length (map (\<lambda>k. (target L k, owners (hl_nodes L) ! k, k)) [0..<length (hl_edges L)])"
    using np by simp
  fix k assume "k < length (map (pair_item L) (node_edge_pairs (hl_nodes L)))"
  then have k: "k < length (hl_edges L)" using np by simp
  then have "owners (hl_nodes L) ! k < length (hl_nodes L)" using np(2) by (intro owners_less) simp
  with k np show "map (pair_item L) (node_edge_pairs (hl_nodes L)) ! k
      = map (\<lambda>k. (target L k, owners (hl_nodes L) ! k, k)) [0..<length (hl_edges L)] ! k"
    using wf_loader_simps(1,3) [OF assms(1)] by (simp add: pair_item_def target_def)
qed

lemma pair_targets:
  assumes "wf_loader L" "edges_built L"
  shows "\<forall>ne\<in>set (node_edge_pairs (hl_nodes L)). \<exists>c<length (hl_nodes L). hl_nodeMap L (he_toNodeId (snd ne)) = Some c"
  using node_edge_pairs_eq [OF assms] wf_loader_simps(4,5) [OF assms(1)]
  by (auto simp: in_set_zip in_set_conv_nth)

lemma retainer_keys:
  assumes "wf_loader L"
  shows "map (\<lambda>c. hn_nodeIndex (hl_nodes L ! c)) (List.map_filter (\<lambda>e. hl_nodeMap L (he_toNodeId e)) (hl_edges L))
     = map (target L) [0..<length (hl_edges L)]"
proof -
  have some: "\<forall>e\<in>set (hl_edges L). hl_nodeMap L (he_toNodeId e) \<noteq> None"
    using wf_loader_simps(4) [OF assms] by (auto simp: in_set_conv_nth)
  then have "List.map_filter (\<lambda>e. hl_nodeMap L (he_toNodeId e)) (hl_edges L)
      = map (\<lambda>e. the (hl_nodeMap L (he_toNodeId e))) (hl_edges L)"
    by (simp add: List.map_filter_def filter_True comp_def)
  also have "\<dots> = map (target L) [0..<length (hl_edges L)]"
    by (intro nth_equalityI) (auto simp: target_def)
  finally show ?thesis using wf_loader_simps(1,5) [OF assms] by simp
qed

text \<open>C2: after \<open>buildRetainers\<close> the slots of every node hold exactly the edges leading to it, each with
  the node it comes from, without loss or duplication (from the last edge to the first); the
  per-node lists shown to the user hold the same edges in order, without those of the root.\<close>

theorem buildRetainers_correct:
  assumes "wf_loader L" "edges_built L" "fresh_retainers L" "v < length (hl_nodes L)"
  shows "retainers_of (buildRetainers L) v = rev (edges_into L v)
    \<and> zip (hn_retainsNodeIdx (hl_nodes (buildRetainers L) ! v)) (hn_retainsEdgeIdx (hl_nodes (buildRetainers L) ! v))
      = filter (\<lambda>(s, e). s \<noteq> 0) (edges_into L v)"
proof -
  let ?n = "length (hl_nodes L)" and ?E = "length (hl_edges L)" and ?ps = "node_edge_pairs (hl_nodes L)"
  define its where "its = map (pair_item L) ?ps"
  have its: "its = map (\<lambda>k. (target L k, owners (hl_nodes L) ! k, k)) [0..<?E]"
    using pairs_items [OF assms(1,2)] by (simp add: its_def)
  note wf = wf_loader_simps [OF assms(1)]
  have idx: "map hn_nodeIndex (hl_nodes L) = [0..<?n]" using wf(1) by (intro nth_equalityI) auto
  obtain first rn where st: "csr_starts [0..<?n] (csr_count (map fst its) (replicate (Suc ?n) 0)) (replicate ?E 0) 0 = (first, rn)"
    by (cases "csr_starts [0..<?n] (csr_count (map fst its) (replicate (Suc ?n) 0)) (replicate ?E 0) 0")
  obtain rn' re' where fl: "csr_fill2 first its rn (replicate ?E 0) = (rn', re')"
    by (cases "csr_fill2 first its rn (replicate ?E 0)")
  have keys: "\<forall>it\<in>set its. fst it < ?n \<and> fst (snd it) < 4294967296 \<and> snd (snd it) < 4294967296"
  proof
    fix it assume "it \<in> set its"
    then obtain k where k: "k < ?E" "it = (target L k, owners (hl_nodes L) ! k, k)" by (auto simp: its)
    then have "owners (hl_nodes L) ! k < ?n"
      using node_edge_pairs_eq(2) [OF assms(1,2)] by (intro owners_less nth_mem) simp
    with k wf(5,10,11) show "fst it < ?n \<and> fst (snd it) < 4294967296 \<and> snd (snd it) < 4294967296"
      by simp
  qed
  have lenits: "length its = ?E" by (simp add: its)
  note csr = csr_correct [OF keys _ _ st fl, unfolded lenits, OF order.refl wf(11)]
  let ?cnt = "count_list (map fst its)"
  define L1 where "L1 = L\<lparr>hl_retainingNodes := rn, hl_firstRetainerIndex := first[?n := ?E]\<rparr>"
  have mf: "map fst its = map (target L) [0..<?E]" by (simp add: its)
  have B: "buildRetainers L = fold retainer_step ?ps L1"
    using st assms(3) wf(6,11) csr(2) retainer_keys [OF assms(1)] mf idx
    by (simp add: buildRetainers_def fresh_retainers_def L1_def u32_set_def Let_def del: replicate_Suc)
  have pt: "\<forall>ne\<in>set ?ps. \<exists>c<length (hl_nodes L1). hl_nodeMap L1 (he_toNodeId (snd ne)) = Some c"
    using pair_targets [OF assms(1,2)] by (simp add: L1_def)
  have fill': "csr_fill2 (first[?n := ?E]) its rn (replicate ?E 0) = csr_fill2 first its rn (replicate ?E 0)"
  proof -
    have "csr_fill2 (first[?n := ?E]) xs a b = csr_fill2 first xs a b" if "\<forall>it\<in>set xs. fst it < ?n" for xs a b
      using that by (induction xs arbitrary: a b) (auto simp: csr_put_def)
    then show ?thesis using keys by simp
  qed
  have "pair_item L1 = pair_item L" by (simp add: pair_item_def L1_def fun_eq_iff)
  then have arrs: "hl_retainingNodes (buildRetainers L) = rn'" "hl_retainingEdges (buildRetainers L) = re'"
    using fold_retainer_arrays [OF pt] wf(1) assms(3) fl fill' its_def
    by (auto simp: B L1_def fresh_retainers_def)
  have first': "hl_firstRetainerIndex (buildRetainers L) = first[?n := ?E]"
    using fold_retainer_frame [of ?ps L1] by (simp add: B L1_def)
  have bound: "start_of ?cnt (Suc v) = start_of ?cnt v + ?cnt v" by (rule start_Suc)
  have "first[?n := ?E] ! Suc v = start_of ?cnt (Suc v)"
    using csr(1,5,6) assms(4) by (cases "Suc v = ?n") (auto simp: nth_list_update)
  then have slots: "retainer_slots (buildRetainers L) v = [start_of ?cnt v..<start_of ?cnt v + ?cnt v]"
    using csr(5) [OF assms(4)] assms(4) bound by (simp add: retainer_slots_def first')
  have "retainers_of (buildRetainers L) v
      = zip (take (?cnt v) (drop (start_of ?cnt v) rn')) (take (?cnt v) (drop (start_of ?cnt v) re'))"
    using csr(3,4) csr(7) [OF assms(4)] by (intro nth_equalityI) (auto simp: retainers_of_def slots arrs)
  also have "\<dots> = rev (of_key v its)"
    using csr(8,9) [OF assms(4)] by (simp add: zip_rev zip_map_fst_snd)
  also have "of_key v its = edges_into L v"
    by (simp add: of_key_def its edges_into_def filter_map comp_def)
  finally have part1: "retainers_of (buildRetainers L) v = rev (edges_into L v)" .
  have root: "hn_nodeIndex (rootNode L1) = 0" using wf(1) [of 0] wf(8) by (simp add: L1_def)
  have empty: "hn_retainsNodeIdx (hl_nodes L1 ! v) = [] \<and> hn_retainsEdgeIdx (hl_nodes L1 ! v) = []"
    using assms(3,4) by (simp add: fresh_retainers_def L1_def)
  define it where "it = filter (\<lambda>ne. hn_nodeIndex (fst ne) \<noteq> 0 \<and> hl_nodeMap L1 (he_toNodeId (snd ne)) = Some v) ?ps"
  have "zip (hn_retainsNodeIdx (hl_nodes (buildRetainers L) ! v)) (hn_retainsEdgeIdx (hl_nodes (buildRetainers L) ! v))
      = map (\<lambda>ne. (hn_nodeIndex (fst ne), he_edgeIndex (snd ne))) it"
    using fold_retainer_lists [OF pt root, of v] wf(8) assms(4) empty
    by (simp add: B it_def zip_map_map zip_same_conv_map comp_def case_prod_beta L1_def)
  also have "\<dots> = map snd (filter (\<lambda>it. fst (snd it) \<noteq> 0 \<and> fst it = v) its)"
  proof -
    have "(hl_nodeMap L1 (he_toNodeId (snd ne)) = Some v) = (fst (pair_item L ne) = v)" if "ne \<in> set ?ps" for ne
      using pair_targets [OF assms(1,2)] that by (auto simp: L1_def pair_item_def)
    then have "it = filter (\<lambda>ne. fst (snd (pair_item L ne)) \<noteq> 0 \<and> fst (pair_item L ne) = v) ?ps"
      unfolding it_def by (intro filter_cong) (auto simp: pair_item_def)
    then show ?thesis by (simp add: its_def filter_map comp_def pair_item_def)
  qed
  also have "\<dots> = filter (\<lambda>(s, e). s \<noteq> 0) (edges_into L v)"
    by (simp add: its edges_into_def filter_map comp_def conj_commute)
  finally show ?thesis using part1 by blast
qed

section \<open>A small snapshot\<close>

text \<open>The root (id 1) refers to an object (id 3) and a native node (id 5); the object refers to the
  native node as well, by a second edge that is weak.\<close>

lemma four_Suc: "(4 :: nat) = Suc 3" by simp

lemmas small_nats = numeral_2_eq_2 numeral_3_eq_3 four_Suc

definition demo_nodes :: "HeapNode list" where
  "demo_nodes = [mkHeapNode 0 0 9 (js ''root'') 1 0 2 0 0 0, mkHeapNode 0 1 3 (js ''A'') 3 10 2 0 0 2,
     mkHeapNode 0 2 8 (js ''B'') 5 7 0 0 2 4]"

definition demo_edges :: "HeapEdge list" where
  "demo_edges = [mkHeapEdge 0 1 (js ''0'') 0 1 3, mkHeapEdge 1 5 (js ''s'') 0 1 5,
     mkHeapEdge 2 2 (js ''p'') 0 3 5, mkHeapEdge 3 6 (js ''w'') 0 3 5]"

definition demo_loader :: HeapLoader where
  "demo_loader = \<lparr>hl_fileId = 0, hl_nodes = demo_nodes, hl_holes = 0, hl_nodeMap = nodeMap_of demo_nodes,
     hl_edges = demo_edges, hl_nodeCount = 3, hl_edgeCount = 4, hl_retainingNodes = [0, 0, 0, 0],
     hl_retainingEdges = [0, 0, 0, 0], hl_firstRetainerIndex = [0, 0, 0, 0], hl_dominatorTree = [0, 0, 0],
     hl_firstDominatedNodesIdx = [0, 0, 0, 0], hl_dominatedNodes = [0, 0], hl_samples = [], hl_allClasses = None,
     hl_diffToOtherFile = (\<lambda>_. None)\<rparr>"

text \<open>It is what the constructor makes of the snapshot, whatever the order of insertion.\<close>

lemma newHeapLoader_demo:
  "newHeapLoader 0 3 4 [demo_nodes ! 2, demo_nodes ! 0, demo_nodes ! 1] demo_edges [] = Inr demo_loader"
  by (simp add: newHeapLoader_def demo_nodes_def demo_loader_def place_node_def sort_nodes_def mkHeapNode_def
      small_nats)

lemma demo_loader_wf: "wf_loader demo_loader"
  by (simp add: wf_loader_def wf_snapshot_def demo_loader_def demo_nodes_def demo_edges_def mkHeapNode_def
      mkHeapEdge_def edges_before_def small_nats All_less_Suc)

lemma demo_built: "wf_loader (buildNodeEdge demo_loader)" "edges_built (buildNodeEdge demo_loader)"
  "fresh_retainers (buildNodeEdge demo_loader)" "length (hl_nodes (buildNodeEdge demo_loader)) = 3"
  using buildNodeEdge_built [OF demo_loader_wf]
  by (simp_all add: demo_loader_def demo_nodes_def mkHeapNode_def fresh_retainers_def buildNodeEdge_def demo_edges_def small_nats)

text \<open>The same with the edges attached, evaluated.\<close>

definition demo_graph :: HeapLoader where
  "demo_graph = demo_loader\<lparr>hl_nodes := [(demo_nodes ! 0)\<lparr>hn_edges := [demo_edges ! 0, demo_edges ! 1]\<rparr>,
     (demo_nodes ! 1)\<lparr>hn_edges := [demo_edges ! 2, demo_edges ! 3]\<rparr>, demo_nodes ! 2]\<rparr>"

lemma demo_graph_built: "buildNodeEdge demo_loader = demo_graph"
  by (simp add: demo_graph_def buildNodeEdge_def own_edges_def demo_loader_def demo_nodes_def demo_edges_def
      mkHeapNode_def small_nats)

lemma demo_graph_map:
  "hl_nodeMap demo_graph = [1 \<mapsto> 0, 3 \<mapsto> 1, 5 \<mapsto> 2]"
  by (auto simp: demo_graph_def demo_loader_def nodeMap_of_def demo_nodes_def mkHeapNode_def fun_eq_iff small_nats)

lemma demo_graph_nodes:
  "hl_nodes demo_graph ! 0 = (mkHeapNode 0 0 9 (js ''root'') 1 0 2 0 0 0)\<lparr>hn_edges :=
     [mkHeapEdge 0 1 (js ''0'') 0 1 3, mkHeapEdge 1 5 (js ''s'') 0 1 5]\<rparr>"
  "hl_nodes demo_graph ! 1 = (mkHeapNode 0 1 3 (js ''A'') 3 10 2 0 0 2)\<lparr>hn_edges :=
     [mkHeapEdge 2 2 (js ''p'') 0 3 5, mkHeapEdge 3 6 (js ''w'') 0 3 5]\<rparr>"
  "hl_nodes demo_graph ! 2 = mkHeapNode 0 2 8 (js ''B'') 5 7 0 0 2 4"
  "length (hl_nodes demo_graph) = 3" "hl_edges demo_graph = demo_edges"
  by (simp_all add: demo_graph_def demo_nodes_def demo_edges_def demo_loader_def numeral_3_eq_3)

theorem buildRetainers_correct_witness:
  "retainers_of (buildRetainers (buildNodeEdge demo_loader)) 2 = [(1, 3), (1, 2), (0, 1)]"
proof -
  have "edges_into (buildNodeEdge demo_loader) 2 = [(0, 1), (1, 2), (1, 3)]"
    by (simp add: edges_into_def target_def buildNodeEdge_def demo_loader_def demo_nodes_def demo_edges_def
        mkHeapNode_def mkHeapEdge_def nodeMap_of_def owners_def upt_rec small_nats)
  then show ?thesis
    using buildRetainers_correct [OF demo_built(1-3), of 2] demo_built(4) by simp
qed

end
