(* ===== verification/Heap_Mark.thy ===== *)
theory Heap_Mark
  imports Heap_Loader
begin

text \<open>
  The graph searches of \<open>HeapLoader.ts\<close>: the flags for queryable and page-owned nodes, the
  propagation of the DOM state and the distances from the root. A JavaScript array used as a stack
  is a list whose head is the top. Loops whose number of rounds depends on the graph carry fuel;
  \<open>None\<close> means that it ran out, and the lemmas show that the fuel given suffices.
\<close>

section \<open>Fields of a node\<close>

text \<open>
  A search changes one field of the nodes. The interface is the accessor and the update of that
  field; the client lemmas say that the graph stays as it is.
\<close>

locale node_field =
  fixes get :: "HeapNode \<Rightarrow> 'a" and put :: "('a \<Rightarrow> 'a) \<Rightarrow> HeapNode \<Rightarrow> HeapNode"
  assumes get_put: "get (put f n) = f (get n)"
    and edges_put: "hn_edges (put f n) = hn_edges n"
    and id_put: "hn_id (put f n) = hn_id n"
    and index_put: "hn_nodeIndex (put f n) = hn_nodeIndex n"
    and type_put: "hn_type (put f n) = hn_type n"
    and name_put: "hn_name (put f n) = hn_name n"
    and first_put: "hn_firstEdgeIndex (put f n) = hn_firstEdgeIndex n"
    and count_put: "hn_edgeCount (put f n) = hn_edgeCount n"
begin

lemma get_upd_node:
  "i < length (hl_nodes L) \<Longrightarrow>
     get (hl_nodes (upd_node i (put f) L) ! j) = (if j = i then f (get (hl_nodes L ! i)) else get (hl_nodes L ! j))"
  by (simp add: upd_node_def get_put nth_list_update)

lemma graph_upd_node:
  "map hn_edges (hl_nodes (upd_node i (put f) L)) = map hn_edges (hl_nodes L)"
  "map hn_id (hl_nodes (upd_node i (put f) L)) = map hn_id (hl_nodes L)"
  "map hn_nodeIndex (hl_nodes (upd_node i (put f) L)) = map hn_nodeIndex (hl_nodes L)"
  "map hn_type (hl_nodes (upd_node i (put f) L)) = map hn_type (hl_nodes L)"
  "map hn_name (hl_nodes (upd_node i (put f) L)) = map hn_name (hl_nodes L)"
  "map hn_firstEdgeIndex (hl_nodes (upd_node i (put f) L)) = map hn_firstEdgeIndex (hl_nodes L)"
  "map hn_edgeCount (hl_nodes (upd_node i (put f) L)) = map hn_edgeCount (hl_nodes L)"
  by (simp_all add: upd_node_def map_update_same edges_put id_put index_put type_put name_put first_put count_put)

end

interpretation flag: node_field hn_flag hn_flag_update
  by unfold_locales simp_all

interpretation distance: node_field hn_distance hn_distance_update
  by unfold_locales simp_all

interpretation detachedness: node_field hn_detachedness hn_detachedness_update
  by unfold_locales simp_all

interpretation retained: node_field hn_retainedSize hn_retainedSize_update
  by unfold_locales simp_all

lemma upd_node_frame [simp]:
  "hl_nodeMap (upd_node i f L) = hl_nodeMap L" "hl_edges (upd_node i f L) = hl_edges L"
  "length (hl_nodes (upd_node i f L)) = length (hl_nodes L)" "hl_holes (upd_node i f L) = hl_holes L"
  "hl_nodeCount (upd_node i f L) = hl_nodeCount L" "hl_edgeCount (upd_node i f L) = hl_edgeCount L"
  by (simp_all add: upd_node_def)

text \<open>What a search sees of a loader and never changes.\<close>

definition shape :: "HeapLoader \<Rightarrow> (HeapEdge list \<times> nat \<times> nat \<times> int \<times> jsstring \<times> nat \<times> nat) list \<times> (nat \<Rightarrow> nat option)
    \<times> HeapEdge list \<times> nat \<times> nat \<times> nat" where
  "shape L = (map (\<lambda>n. (hn_edges n, hn_id n, hn_nodeIndex n, hn_type n, hn_name n, hn_firstEdgeIndex n, hn_edgeCount n)) (hl_nodes L),
     hl_nodeMap L, hl_edges L, hl_holes L, hl_nodeCount L, hl_edgeCount L)"

lemma shape_upd:
  "shape (upd_node i (hn_flag_update f) L) = shape L" "shape (upd_node i (hn_distance_update g) L) = shape L"
  "shape (upd_node i (hn_retainedSize_update g) L) = shape L"
  by (simp_all add: shape_def upd_node_def map_update_same)

lemma shape_nodes:
  assumes "shape L' = shape L"
  shows "length (hl_nodes L') = length (hl_nodes L)" "hl_nodeMap L' = hl_nodeMap L" "hl_edges L' = hl_edges L"
    "hl_nodeCount L' = hl_nodeCount L"
    "i < length (hl_nodes L) \<Longrightarrow> hn_edges (hl_nodes L' ! i) = hn_edges (hl_nodes L ! i)"
    "i < length (hl_nodes L) \<Longrightarrow> hn_id (hl_nodes L' ! i) = hn_id (hl_nodes L ! i)"
    "i < length (hl_nodes L) \<Longrightarrow> hn_nodeIndex (hl_nodes L' ! i) = hn_nodeIndex (hl_nodes L ! i)"
    "i < length (hl_nodes L) \<Longrightarrow> hn_type (hl_nodes L' ! i) = hn_type (hl_nodes L ! i)"
    "i < length (hl_nodes L) \<Longrightarrow> hn_name (hl_nodes L' ! i) = hn_name (hl_nodes L ! i)"
proof -
  let ?f = "\<lambda>n. (hn_edges n, hn_id n, hn_nodeIndex n, hn_type n, hn_name n, hn_firstEdgeIndex n, hn_edgeCount n)"
  have m: "map ?f (hl_nodes L') = map ?f (hl_nodes L)" using assms by (simp add: shape_def)
  then show len: "length (hl_nodes L') = length (hl_nodes L)" by (rule map_eq_imp_length_eq)
  show "hl_nodeMap L' = hl_nodeMap L" "hl_edges L' = hl_edges L" "hl_nodeCount L' = hl_nodeCount L"
    using assms by (simp_all add: shape_def)
  assume "i < length (hl_nodes L)"
  then have "?f (hl_nodes L' ! i) = ?f (hl_nodes L ! i)"
    using m len nth_map [of i "hl_nodes L'" ?f] nth_map [of i "hl_nodes L" ?f] by simp
  then show "hn_edges (hl_nodes L' ! i) = hn_edges (hl_nodes L ! i)" "hn_id (hl_nodes L' ! i) = hn_id (hl_nodes L ! i)"
    "hn_nodeIndex (hl_nodes L' ! i) = hn_nodeIndex (hl_nodes L ! i)" "hn_type (hl_nodes L' ! i) = hn_type (hl_nodes L ! i)"
    "hn_name (hl_nodes L' ! i) = hn_name (hl_nodes L ! i)" by simp_all
qed

lemma wf_loader_shape:
  assumes "shape L' = shape L"
  shows "wf_loader L' = wf_loader L"
proof -
  let ?g = "\<lambda>n. (hn_edges n, hn_id n, hn_nodeIndex n, hn_type n, hn_name n, hn_firstEdgeIndex n, hn_edgeCount n)"
  have m: "map ?g (hl_nodes L') = map ?g (hl_nodes L)" and rest: "hl_nodeMap L' = hl_nodeMap L" "hl_edges L' = hl_edges L"
    "hl_holes L' = hl_holes L" "hl_nodeCount L' = hl_nodeCount L" "hl_edgeCount L' = hl_edgeCount L"
    using assms by (simp_all add: shape_def)
  have sel: "map (p \<circ> ?g) (hl_nodes L') = map (p \<circ> ?g) (hl_nodes L)" for p :: "_ \<Rightarrow> nat"
    using arg_cong [OF m, of "map p"] by simp
  have ids: "map hn_id (hl_nodes L') = map hn_id (hl_nodes L)"
    using sel [of "\<lambda>(a, b, c). b"] by (simp add: comp_def)
  have cnt: "map hn_edgeCount (hl_nodes L') = map hn_edgeCount (hl_nodes L)"
    using sel [of "\<lambda>(a, b, c, d, e, f, g). g"] by (simp add: comp_def)
  have fst: "map hn_firstEdgeIndex (hl_nodes L') = map hn_firstEdgeIndex (hl_nodes L)"
    using sel [of "\<lambda>(a, b, c, d, e, f, g). f"] by (simp add: comp_def)
  have idx: "map hn_nodeIndex (hl_nodes L') = map hn_nodeIndex (hl_nodes L)"
    using sel [of "\<lambda>(a, b, c, d). c"] by (simp add: comp_def)
  have len: "length (hl_nodes L') = length (hl_nodes L)" using m by (rule map_eq_imp_length_eq)
  have before: "edges_before (hl_nodes L') i = edges_before (hl_nodes L) i" for i
    using cnt by (simp add: edges_before_def flip: take_map)
  have nths: "hn_nodeIndex (hl_nodes L' ! i) = hn_nodeIndex (hl_nodes L ! i)"
    "hn_firstEdgeIndex (hl_nodes L' ! i) = hn_firstEdgeIndex (hl_nodes L ! i)" "hn_id (hl_nodes L' ! i) = hn_id (hl_nodes L ! i)"
    if "i < length (hl_nodes L)" for i
    using arg_cong [OF idx, of "\<lambda>xs. xs ! i"] arg_cong [OF fst, of "\<lambda>xs. xs ! i"] arg_cong [OF ids, of "\<lambda>xs. xs ! i"]
      that len by simp_all
  have img: "hn_id ` set (hl_nodes L') = hn_id ` set (hl_nodes L)" using arg_cong [OF ids, of set] by simp
  have "nodeMap_of (hl_nodes L') = nodeMap_of (hl_nodes L)" by (simp add: nodeMap_of_def ids len)
  then show ?thesis
    using rest ids len before nths img by (simp add: wf_loader_def wf_snapshot_def cong: conj_cong)
qed

section \<open>Flags\<close>

definition CAN_BE_QUERIED :: int where "CAN_BE_QUERIED = 1"
definition DETACHED_DOM_NODE :: int where "DETACHED_DOM_NODE = 2"
definition PAGE_PROJECT :: int where "PAGE_PROJECT = 4"

definition has_flag :: "int \<Rightarrow> HeapNode \<Rightarrow> bool" where
  "has_flag flag n \<longleftrightarrow> js_and (hn_flag n) flag \<noteq> 0"

definition set_flag :: "int \<Rightarrow> HeapNode \<Rightarrow> HeapNode" where
  "set_flag flag n = hn_flag_update (\<lambda>f. js_or f flag) n"

lemma bit_toInt32: "k < 31 \<Longrightarrow> bit (toInt32 x) k = bit x k"
  by (simp add: toInt32_def bit_signed_take_bit_iff)

lemma and_exp_neq_0: "(x :: int) AND 2 ^ k \<noteq> 0 \<longleftrightarrow> bit x k"
  by (simp add: and_exp_int)

lemma toInt32_exp: "k < 31 \<Longrightarrow> toInt32 (2 ^ k) = 2 ^ k"
  using power_strict_increasing [of k 31 "2 :: int"] by (intro toInt32_id) (auto intro: order_trans [of _ 0])

lemma js_and_exp: "k < 31 \<Longrightarrow> js_and x (2 ^ k) \<noteq> 0 \<longleftrightarrow> bit x k"
  using and_exp_neq_0 [of "toInt32 x" k] by (simp only: js_and_def toInt32_exp bit_toInt32)

lemma bit_js_or_exp: "j < 31 \<Longrightarrow> k < 31 \<Longrightarrow> bit (js_or x (2 ^ k)) j \<longleftrightarrow> bit x j \<or> j = k"
  by (auto simp: js_or_def toInt32_exp bit_or_iff bit_toInt32 bit_exp_iff)

lemma has_flag_bits:
  "has_flag CAN_BE_QUERIED n \<longleftrightarrow> bit (hn_flag n) 0" "has_flag DETACHED_DOM_NODE n \<longleftrightarrow> bit (hn_flag n) 1"
  "has_flag PAGE_PROJECT n \<longleftrightarrow> bit (hn_flag n) 2"
  using js_and_exp [of 0 "hn_flag n"] js_and_exp [of 1 "hn_flag n"] js_and_exp [of 2 "hn_flag n"]
  by (simp_all add: has_flag_def CAN_BE_QUERIED_def DETACHED_DOM_NODE_def PAGE_PROJECT_def)

lemma bit_set_flag:
  assumes "j < 31"
  shows "bit (hn_flag (set_flag CAN_BE_QUERIED n)) j \<longleftrightarrow> bit (hn_flag n) j \<or> j = 0"
    "bit (hn_flag (set_flag DETACHED_DOM_NODE n)) j \<longleftrightarrow> bit (hn_flag n) j \<or> j = 1"
    "bit (hn_flag (set_flag PAGE_PROJECT n)) j \<longleftrightarrow> bit (hn_flag n) j \<or> j = 2"
  using bit_js_or_exp [OF assms, of 0 "hn_flag n"] bit_js_or_exp [OF assms, of 1 "hn_flag n"]
    bit_js_or_exp [OF assms, of 2 "hn_flag n"]
  by (simp_all add: set_flag_def CAN_BE_QUERIED_def DETACHED_DOM_NODE_def PAGE_PROJECT_def)

section \<open>Reachability\<close>

inductive_set reach :: "(nat \<Rightarrow> nat set) \<Rightarrow> nat set \<Rightarrow> nat set" for succ S where
  seed: "s \<in> S \<Longrightarrow> s \<in> reach succ S"
| step: "u \<in> reach succ S \<Longrightarrow> v \<in> succ u \<Longrightarrow> v \<in> reach succ S"

lemma reach_least: "S \<subseteq> M \<Longrightarrow> (\<And>u. u \<in> M \<Longrightarrow> succ u \<subseteq> M) \<Longrightarrow> reach succ S \<subseteq> M"
proof
  fix x assume *: "S \<subseteq> M" "\<And>u. u \<in> M \<Longrightarrow> succ u \<subseteq> M" "x \<in> reach succ S"
  from *(3) show "x \<in> M" by induction (use * in blast)+
qed

text \<open>The children that a filter on the edges lets through.\<close>

definition kids :: "HeapLoader \<Rightarrow> (HeapEdge \<Rightarrow> bool) \<Rightarrow> nat \<Rightarrow> nat list" where
  "kids L P u = List.map_filter (\<lambda>e. if P e then hl_nodeMap L (he_toNodeId e) else None) (hn_edges (hl_nodes L ! u))"

end
