(* ===== verification/Heap_Flags.thy ===== *)
theory Heap_Flags
  imports Heap_Mark
begin

text \<open>
  \<open>calFlags\<close>: \<open>markQueryableNodes\<close> marks what user roots reach over visible edges,
  \<open>markPageOwnedNodes\<close> what the page's objects reach over edges that are not weak. Both are shown to
  mark exactly the reachable nodes.
\<close>

section \<open>Queryable nodes\<close>

definition query_edge :: "HeapEdge \<Rightarrow> bool" where
  "query_edge e \<longleftrightarrow> he_type e \<notin> set (map EdgeType_num
     [EdgeType_HIDDEN, EdgeType_INVISIBLE, EdgeType_INTERNAL, EdgeType_WEAK])"

definition query_push :: "HeapLoader \<Rightarrow> HeapEdge \<Rightarrow> nat list \<Rightarrow> nat list" where
  "query_push L e st =
     (case hl_nodeMap L (he_toNodeId e) of
        None \<Rightarrow> st
      | Some c \<Rightarrow> if has_flag CAN_BE_QUERIED (hl_nodes L ! c) \<or> \<not> query_edge e then st else c # st)"

fun markQueryable_loop :: "nat \<Rightarrow> nat list \<Rightarrow> HeapLoader \<Rightarrow> HeapLoader option" where
  "markQueryable_loop 0 st L = None"
| "markQueryable_loop (Suc fuel) st L =
     (case st of
        [] \<Rightarrow> Some L
      | u # st' \<Rightarrow>
          if has_flag CAN_BE_QUERIED (hl_nodes L ! u) then markQueryable_loop fuel st' L
          else (let L1 = upd_node u (set_flag CAN_BE_QUERIED) L
                in markQueryable_loop fuel (fold (query_push L1) (hn_edges (hl_nodes L1 ! u)) st') L1))"

definition query_seeds :: "HeapLoader \<Rightarrow> nat list" where
  "query_seeds L = filter (\<lambda>c. isUserRoot (hl_nodes L ! c)) (kids L (\<lambda>_. True) 0)"

definition search_fuel :: "HeapLoader \<Rightarrow> nat" where
  "search_fuel L = Suc (length (hn_edges (rootNode L)) + sum_list (map (\<lambda>n. length (hn_edges n)) (hl_nodes L))
     + length (hl_nodes L))"

definition markQueryableNodes :: "HeapLoader \<Rightarrow> HeapLoader option" where
  "markQueryableNodes L = markQueryable_loop (search_fuel L) (rev (query_seeds L)) L"

section \<open>Page-owned nodes\<close>

definition page_seeds :: "HeapLoader \<Rightarrow> nat list" where
  "page_seeds L = List.map_filter (\<lambda>e.
     case hl_nodeMap L (he_toNodeId e) of
       None \<Rightarrow> None
     | Some c \<Rightarrow>
         if he_type e = EdgeType_num EdgeType_ELEMENT
         then (if \<not> isDocumentDOMTreesRoot (hl_nodes L ! c) then None else Some c)
         else if he_type e \<noteq> EdgeType_num EdgeType_SHORTCUT then None else Some c) (hn_edges (rootNode L))"

definition page_edge :: "HeapEdge \<Rightarrow> nat list \<times> HeapLoader \<Rightarrow> nat list \<times> HeapLoader" where
  "page_edge e s = (case s of (st, L) \<Rightarrow>
     case hl_nodeMap L (he_toNodeId e) of
       None \<Rightarrow> (st, L)
     | Some c \<Rightarrow>
         if has_flag PAGE_PROJECT (hl_nodes L ! c) \<or> he_type e = EdgeType_num EdgeType_WEAK then (st, L)
         else (c # st, upd_node c (set_flag PAGE_PROJECT) L))"

fun markPageOwned_loop :: "nat \<Rightarrow> nat list \<Rightarrow> HeapLoader \<Rightarrow> HeapLoader option" where
  "markPageOwned_loop 0 st L = None"
| "markPageOwned_loop (Suc fuel) st L =
     (case st of
        [] \<Rightarrow> Some L
      | u # st' \<Rightarrow>
          (let (st1, L1) = fold page_edge (hn_edges (hl_nodes L ! u)) (st', L)
           in markPageOwned_loop fuel st1 L1))"

definition markPageOwnedNodes :: "HeapLoader \<Rightarrow> HeapLoader option" where
  "markPageOwnedNodes L =
     (let seeds = page_seeds L; L1 = fold (\<lambda>c. upd_node c (set_flag PAGE_PROJECT)) seeds L
      in markPageOwned_loop (search_fuel L) (rev seeds) L1)"

definition calFlags :: "HeapLoader \<Rightarrow> HeapLoader option" where
  "calFlags L = (case markQueryableNodes L of None \<Rightarrow> None | Some L1 \<Rightarrow> markPageOwnedNodes L1)"

section \<open>What marking keeps\<close>

definition sans_flags :: "HeapLoader \<Rightarrow> HeapLoader" where
  "sans_flags L = L\<lparr>hl_nodes := map (hn_flag_update (\<lambda>_. 0)) (hl_nodes L)\<rparr>"

lemma sans_flags_upd [simp]: "sans_flags (upd_node i (set_flag f) L) = sans_flags L"
  by (simp add: sans_flags_def upd_node_def map_update_same set_flag_def)

lemma sans_flags_shape: "sans_flags L' = sans_flags L \<Longrightarrow> shape L' = shape L"
proof -
  assume *: "sans_flags L' = sans_flags L"
  have "shape (sans_flags X) = shape X" for X by (simp add: shape_def sans_flags_def comp_def)
  then show ?thesis using * by metis
qed

lemma shape_set_flag [simp]: "shape (upd_node i (set_flag f) L) = shape L"
  by (rule sans_flags_shape) simp

definition map_in_range :: "HeapLoader \<Rightarrow> bool" where
  "map_in_range L \<longleftrightarrow> (\<forall>x c. hl_nodeMap L x = Some c \<longrightarrow> c < length (hl_nodes L))"

lemma wf_map_in_range: "wf_loader L \<Longrightarrow> map_in_range L"
  using wf_loader_simps(2) by (auto simp: map_in_range_def)

lemma map_in_range_shape: "shape L' = shape L \<Longrightarrow> map_in_range L' = map_in_range L"
  using shape_nodes(1,2) [of L' L] by (simp add: map_in_range_def)

lemma kids_in_range: "map_in_range L \<Longrightarrow> set (kids L P u) \<subseteq> {..<length (hl_nodes L)}"
  by (auto simp: kids_def map_in_range_def List.map_filter_def split: if_splits)

lemma kids_shape: "shape L' = shape L \<Longrightarrow> u < length (hl_nodes L) \<Longrightarrow> kids L' P u = kids L P u"
  unfolding kids_def using shape_nodes(2,5) [of L' L] by presburger

lemma set_kids: "set (kids L P u) = {c. \<exists>e\<in>set (hn_edges (hl_nodes L ! u)). P e \<and> hl_nodeMap L (he_toNodeId e) = Some c}"
  by (force simp: kids_def List.map_filter_def split: if_splits)

definition marked :: "int \<Rightarrow> HeapLoader \<Rightarrow> nat set" where
  "marked f L = {i. i < length (hl_nodes L) \<and> has_flag f (hl_nodes L ! i)}"

lemma marked_upd:
  assumes "f = CAN_BE_QUERIED \<or> f = PAGE_PROJECT" "i < length (hl_nodes L)"
  shows "marked f (upd_node i (set_flag f) L) = insert i (marked f L)"
  using assms
  by (auto simp: marked_def upd_node_def nth_list_update has_flag_bits bit_set_flag split: if_splits)

lemma marked_upd_other:
  "marked CAN_BE_QUERIED (upd_node i (set_flag PAGE_PROJECT) L) = marked CAN_BE_QUERIED L"
  "marked PAGE_PROJECT (upd_node i (set_flag CAN_BE_QUERIED) L) = marked PAGE_PROJECT L"
  by (cases "i < length (hl_nodes L)"; auto simp: marked_def upd_node_def nth_list_update has_flag_bits bit_set_flag list_update_beyond split: if_splits)+

lemma reach_trans: "S \<subseteq> reach succ T \<Longrightarrow> reach succ S \<subseteq> reach succ T"
  by (rule reach_least) (auto intro: reach.step)

lemma reach_mono: "S \<subseteq> T \<Longrightarrow> reach succ S \<subseteq> reach succ T"
  by (rule reach_trans) (auto intro: reach.seed)

section \<open>Marking as sets\<close>

text \<open>
  What a search adds to the marked nodes \<open>M\<close> when its stack holds \<open>st\<close>. The first form belongs to a
  search that marks a node when it is taken from the stack, the second to one that marks it when it
  is put there.
\<close>

definition pop_post :: "(nat \<Rightarrow> nat set) \<Rightarrow> nat set \<Rightarrow> nat set \<Rightarrow> nat set \<Rightarrow> bool" where
  "pop_post succ M st M' \<longleftrightarrow>
     M \<union> st \<subseteq> M' \<and> M' \<subseteq> M \<union> reach succ st \<and> (\<forall>u\<in>M' - M. succ u \<subseteq> M')"

definition push_post :: "(nat \<Rightarrow> nat set) \<Rightarrow> nat set \<Rightarrow> nat set \<Rightarrow> nat set \<Rightarrow> bool" where
  "push_post succ M st M' \<longleftrightarrow>
     M \<subseteq> M' \<and> M' \<subseteq> M \<union> reach succ st \<and> (\<forall>u\<in>(M' - M) \<union> st. succ u \<subseteq> M')"

lemma pop_post_Nil: "pop_post succ M {} M"
  by (simp add: pop_post_def)

lemma pop_post_skip:
  assumes "u \<in> M" "pop_post succ M st M'"
  shows "pop_post succ M (insert u st) M'"
  using assms reach_mono [of st "insert u st" succ] unfolding pop_post_def by blast

lemma pop_post_expand:
  assumes "pop_post succ (insert u M) st1 M'" "st \<subseteq> st1" "st1 \<subseteq> st \<union> succ u" "succ u \<subseteq> st1 \<union> insert u M"
  shows "pop_post succ M (insert u st) M'"
proof -
  have u: "u \<in> reach succ (insert u st)" by (rule reach.seed) simp
  have "st1 \<subseteq> reach succ (insert u st)"
    using assms(3) u reach.step [OF u] reach.seed [of _ "insert u st" succ] by blast
  then have "reach succ st1 \<subseteq> reach succ (insert u st)" by (rule reach_trans)
  then show ?thesis using assms u unfolding pop_post_def by blast
qed

lemma pop_post_reach: "pop_post succ {} st M' \<Longrightarrow> M' = reach succ st"
  using reach_least [of st M' succ] unfolding pop_post_def by blast

lemma push_post_Nil: "push_post succ M {} M"
  by (simp add: push_post_def)

lemma push_post_expand:
  assumes "push_post succ (M \<union> succ u) st1 M'" "st \<subseteq> st1" "st1 \<subseteq> st \<union> succ u" "succ u - M \<subseteq> st1"
  shows "push_post succ M (insert u st) M'"
proof -
  have u: "u \<in> reach succ (insert u st)" by (rule reach.seed) simp
  have sub: "st1 \<union> succ u \<subseteq> reach succ (insert u st)"
    using assms(3) u reach.step [OF u] reach.seed [of _ "insert u st" succ] by blast
  then have "reach succ st1 \<subseteq> reach succ (insert u st)" using reach_trans [of st1 succ] by blast
  then have "M' \<subseteq> M \<union> reach succ (insert u st)" using assms(1) sub unfolding push_post_def by blast
  moreover have "succ w \<subseteq> M'" if "w \<in> (M' - M) \<union> insert u st" for w
    using assms that unfolding push_post_def by blast
  ultimately show ?thesis using assms(1) unfolding push_post_def by blast
qed

lemma push_post_reach: "push_post succ st st M' \<Longrightarrow> M' = reach succ st"
  using reach_least [of st M' succ] reach.seed [of _ st succ] unfolding push_post_def by blast

section \<open>Queryable: exactly the reachable nodes\<close>

definition succ_of :: "HeapLoader \<Rightarrow> (HeapEdge \<Rightarrow> bool) \<Rightarrow> nat \<Rightarrow> nat set" where
  "succ_of L P u = (if u < length (hl_nodes L) then set (kids L P u) else {})"

lemma succ_of_shape: "shape L' = shape L \<Longrightarrow> succ_of L' P = succ_of L P"
  using kids_shape [of L' L] shape_nodes(1) [of L' L] by (auto simp: succ_of_def fun_eq_iff)

lemma fold_query_push:
  "set (fold (query_push L) es st) = set st \<union> {c. \<exists>e\<in>set es. query_edge e \<and> hl_nodeMap L (he_toNodeId e) = Some c
      \<and> \<not> has_flag CAN_BE_QUERIED (hl_nodes L ! c)}
   \<and> length (fold (query_push L) es st) \<le> length st + length es"
proof (induction es arbitrary: st)
  case (Cons e es)
  have "length (query_push L e st) \<le> Suc (length st)"
    "set (query_push L e st) = set st \<union> {c. query_edge e \<and> hl_nodeMap L (he_toNodeId e) = Some c
      \<and> \<not> has_flag CAN_BE_QUERIED (hl_nodes L ! c)}"
    by (auto simp: query_push_def split: option.splits if_splits)
  with Cons.IH [of "query_push L e st"] show ?case by auto
qed simp

text \<open>The pushes still to come are at most the edges of the nodes not yet marked.\<close>

definition q_pot :: "HeapLoader \<Rightarrow> nat" where
  "q_pot L = (\<Sum>i\<in>{..<length (hl_nodes L)} - marked CAN_BE_QUERIED L. length (hn_edges (hl_nodes L ! i)))"

lemma q_pot_mark:
  assumes "u < length (hl_nodes L)" "u \<notin> marked CAN_BE_QUERIED L"
  shows "q_pot (upd_node u (set_flag CAN_BE_QUERIED) L) + length (hn_edges (hl_nodes L ! u)) = q_pot L"
proof -
  let ?L1 = "upd_node u (set_flag CAN_BE_QUERIED) L" and ?A = "{..<length (hl_nodes L)} - marked CAN_BE_QUERIED L"
  have sh: "shape ?L1 = shape L" by simp
  have sets: "{..<length (hl_nodes ?L1)} - marked CAN_BE_QUERIED ?L1 = ?A - {u}"
    using marked_upd [of CAN_BE_QUERIED u L] assms(1) by auto
  have "q_pot ?L1 = (\<Sum>i\<in>?A - {u}. length (hn_edges (hl_nodes L ! i)))"
    unfolding q_pot_def sets using shape_nodes(5) [OF sh] by (intro sum.cong) simp_all
  then show ?thesis
    using sum.remove [of ?A u "\<lambda>i. length (hn_edges (hl_nodes L ! i))"] assms by (simp add: q_pot_def)
qed

lemma query_expand:
  fixes L :: HeapLoader and u :: nat and st :: "nat list"
  assumes "map_in_range L" "u < length (hl_nodes L)"
  defines "L1 \<equiv> upd_node u (set_flag CAN_BE_QUERIED) L"
  defines "st1 \<equiv> fold (query_push L1) (hn_edges (hl_nodes L1 ! u)) st"
  shows "set st \<subseteq> set st1" "set st1 \<subseteq> set st \<union> succ_of L query_edge u"
    "succ_of L query_edge u \<subseteq> set st1 \<union> insert u (marked CAN_BE_QUERIED L)"
    "length st1 \<le> length st + length (hn_edges (hl_nodes L ! u))"
proof -
  have sh: "shape L1 = shape L" by (simp add: L1_def)
  note nd = shape_nodes [OF sh]
  have M1: "marked CAN_BE_QUERIED L1 = insert u (marked CAN_BE_QUERIED L)"
    unfolding L1_def using assms(2) by (simp add: marked_upd)
  have s1: "set st1 = set st \<union> {c. \<exists>e\<in>set (hn_edges (hl_nodes L ! u)). query_edge e
      \<and> hl_nodeMap L (he_toNodeId e) = Some c \<and> \<not> has_flag CAN_BE_QUERIED (hl_nodes L1 ! c)}"
    "length st1 \<le> length st + length (hn_edges (hl_nodes L ! u))"
    using fold_query_push [of L1 "hn_edges (hl_nodes L1 ! u)" st] nd(2) nd(5) [OF assms(2)]
    by (simp_all add: st1_def)
  then show "set st \<subseteq> set st1" "set st1 \<subseteq> set st \<union> succ_of L query_edge u"
    "length st1 \<le> length st + length (hn_edges (hl_nodes L ! u))"
    using assms(2) by (auto simp: succ_of_def set_kids)
  have "c \<in> set st1 \<union> marked CAN_BE_QUERIED L1" if "c \<in> succ_of L query_edge u" for c
    using that assms(1,2) s1(1) nd(1) by (auto simp: succ_of_def set_kids marked_def map_in_range_def)
  then show "succ_of L query_edge u \<subseteq> set st1 \<union> insert u (marked CAN_BE_QUERIED L)" using M1 by blast
qed

lemma markQueryable_loop_correct:
  assumes "map_in_range L" "set st \<subseteq> {..<length (hl_nodes L)}" "length st + q_pot L < fuel"
  shows "\<exists>L'. markQueryable_loop fuel st L = Some L' \<and> sans_flags L' = sans_flags L
    \<and> marked PAGE_PROJECT L' = marked PAGE_PROJECT L
    \<and> pop_post (succ_of L query_edge) (marked CAN_BE_QUERIED L) (set st) (marked CAN_BE_QUERIED L')"
  using assms
proof (induction fuel arbitrary: st L)
  case 0
  then show ?case by simp
next
  case (Suc fuel)
  show ?case
  proof (cases st)
    case Nil
    then show ?thesis by (simp add: pop_post_Nil)
  next
    case (Cons u st')
    then have u: "u < length (hl_nodes L)" "set st' \<subseteq> {..<length (hl_nodes L)}" using Suc.prems(2) by auto
    show ?thesis
    proof (cases "u \<in> marked CAN_BE_QUERIED L")
      case True
      have "length st' + q_pot L < fuel" using Suc.prems(3) Cons by simp
      then obtain L' where L': "markQueryable_loop fuel st' L = Some L'" "sans_flags L' = sans_flags L"
        "marked PAGE_PROJECT L' = marked PAGE_PROJECT L"
        "pop_post (succ_of L query_edge) (marked CAN_BE_QUERIED L) (set st') (marked CAN_BE_QUERIED L')"
        using Suc.IH [OF Suc.prems(1) u(2)] by blast
      have "has_flag CAN_BE_QUERIED (hl_nodes L ! u)" using True by (simp add: marked_def)
      with L' pop_post_skip [OF True L'(4)] show ?thesis by (simp add: Cons)
    next
      case False
      define L1 where "L1 = upd_node u (set_flag CAN_BE_QUERIED) L"
      define st1 where "st1 = fold (query_push L1) (hn_edges (hl_nodes L1 ! u)) st'"
      note ex = query_expand [OF Suc.prems(1) u(1), of st', folded L1_def, folded st1_def]
      have sh: "shape L1 = shape L" by (simp add: L1_def)
      have r1: "map_in_range L1" using map_in_range_shape [OF sh] Suc.prems(1) by simp
      have rng: "set st1 \<subseteq> {..<length (hl_nodes L1)}"
        using ex(2) u(2) kids_in_range [OF Suc.prems(1), of query_edge u] shape_nodes(1) [OF sh]
        by (auto simp: succ_of_def split: if_splits)
      have pot: "length st1 + q_pot L1 < fuel"
        using q_pot_mark [OF u(1) False] ex(4) Suc.prems(3) Cons by (simp add: L1_def)
      obtain L' where L': "markQueryable_loop fuel st1 L1 = Some L'" "sans_flags L' = sans_flags L1"
        "marked PAGE_PROJECT L' = marked PAGE_PROJECT L1"
        "pop_post (succ_of L query_edge) (insert u (marked CAN_BE_QUERIED L)) (set st1) (marked CAN_BE_QUERIED L')"
        using Suc.IH [OF r1 rng pot] succ_of_shape [OF sh, of query_edge] marked_upd [of CAN_BE_QUERIED u L] u(1)
        by (auto simp: L1_def)
      have "markQueryable_loop (Suc fuel) st L = Some L'"
        using False u(1) L'(1) Cons by (simp add: marked_def L1_def st1_def Let_def)
      moreover have "pop_post (succ_of L query_edge) (marked CAN_BE_QUERIED L) (set st) (marked CAN_BE_QUERIED L')"
        using pop_post_expand [OF L'(4) ex(1-3)] Cons by simp
      ultimately show ?thesis using L'(2,3) by (auto simp: L1_def marked_upd_other)
    qed
  qed
qed

lemma q_pot_bound: "q_pot L \<le> sum_list (map (\<lambda>n. length (hn_edges n)) (hl_nodes L))"
proof -
  have "q_pot L \<le> (\<Sum>i<length (hl_nodes L). length (hn_edges (hl_nodes L ! i)))"
    unfolding q_pot_def by (rule sum_mono2) auto
  then show ?thesis by (simp add: sum_list_sum_nth atLeast0LessThan)
qed

lemma length_kids: "length (kids L P u) \<le> length (hn_edges (hl_nodes L ! u))"
  by (simp add: kids_def List.map_filter_def)

text \<open>C34: \<open>markQueryableNodes\<close> ends, marks exactly the nodes that the user roots reach over edges that
  are neither hidden, invisible, internal nor weak, and changes nothing but that flag.\<close>

theorem markQueryableNodes_correct:
  assumes "wf_loader L" "marked CAN_BE_QUERIED L = {}"
  shows "\<exists>L'. markQueryableNodes L = Some L' \<and> sans_flags L' = sans_flags L
    \<and> marked PAGE_PROJECT L' = marked PAGE_PROJECT L
    \<and> marked CAN_BE_QUERIED L' = reach (succ_of L query_edge) (set (query_seeds L))"
proof -
  have range: "map_in_range L" using assms(1) by (rule wf_map_in_range)
  have st: "set (rev (query_seeds L)) \<subseteq> {..<length (hl_nodes L)}"
    using kids_in_range [OF range] by (auto simp: query_seeds_def)
  have len: "length (query_seeds L) \<le> length (hn_edges (rootNode L))"
    using length_kids [of L "\<lambda>_. True" 0] length_filter_le [of _ "kids L (\<lambda>_. True) 0"]
    unfolding query_seeds_def by (meson order_trans)
  have "length (rev (query_seeds L)) + q_pot L < search_fuel L"
    using len q_pot_bound [of L] by (simp add: search_fuel_def)
  from markQueryable_loop_correct [OF range st this] show ?thesis
    using pop_post_reach assms(2) by (auto simp: markQueryableNodes_def)
qed

section \<open>Page-owned: exactly the reachable nodes\<close>

definition strong_edge :: "HeapEdge \<Rightarrow> bool" where
  "strong_edge e \<longleftrightarrow> he_type e \<noteq> EdgeType_num EdgeType_WEAK"

definition p_pot :: "HeapLoader \<Rightarrow> nat" where
  "p_pot L = card ({..<length (hl_nodes L)} - marked PAGE_PROJECT L)"

lemma p_pot_mark:
  assumes "c < length (hl_nodes L)" "c \<notin> marked PAGE_PROJECT L"
  shows "Suc (p_pot (upd_node c (set_flag PAGE_PROJECT) L)) = p_pot L"
proof -
  have "{..<length (hl_nodes L)} - insert c (marked PAGE_PROJECT L) = ({..<length (hl_nodes L)} - marked PAGE_PROJECT L) - {c}"
    by auto
  moreover have "card (({..<length (hl_nodes L)} - marked PAGE_PROJECT L) - {c}) = p_pot L - 1" "0 < p_pot L"
    using assms by (auto simp: p_pot_def card_gt_0_iff)
  ultimately show ?thesis
    using marked_upd [of PAGE_PROJECT c L] assms(1) by (simp add: p_pot_def)
qed

lemma page_edge_effect:
  assumes "map_in_range L" "page_edge e (st, L) = (st1, L1)"
  defines "K \<equiv> {c. strong_edge e \<and> hl_nodeMap L (he_toNodeId e) = Some c}"
  shows "sans_flags L1 = sans_flags L \<and> marked CAN_BE_QUERIED L1 = marked CAN_BE_QUERIED L
    \<and> marked PAGE_PROJECT L1 = marked PAGE_PROJECT L \<union> K \<and> set st1 = set st \<union> (K - marked PAGE_PROJECT L)
    \<and> length st1 + p_pot L1 = length st + p_pot L"
proof (cases "hl_nodeMap L (he_toNodeId e)")
  case None
  then show ?thesis using assms by (simp add: page_edge_def)
next
  case (Some c)
  then have c: "c < length (hl_nodes L)" using assms(1) by (simp add: map_in_range_def)
  then have flag: "has_flag PAGE_PROJECT (hl_nodes L ! c) \<longleftrightarrow> c \<in> marked PAGE_PROJECT L" by (simp add: marked_def)
  show ?thesis
  proof (cases "c \<in> marked PAGE_PROJECT L \<or> \<not> strong_edge e")
    case True
    then show ?thesis using assms(2) Some flag by (auto simp: page_edge_def K_def strong_edge_def)
  next
    case False
    then have new: "st1 = c # st" "L1 = upd_node c (set_flag PAGE_PROJECT) L"
      using assms(2) Some flag by (auto simp: page_edge_def strong_edge_def)
    have "K = {c}" using Some False by (auto simp: K_def)
    then show ?thesis
      using new False p_pot_mark [OF c] marked_upd [of PAGE_PROJECT c L] c by (auto simp: marked_upd_other)
  qed
qed

lemma fold_page_edge:
  assumes "map_in_range L" "fold page_edge es (st, L) = (st1, L1)"
  defines "K \<equiv> {c. \<exists>e\<in>set es. strong_edge e \<and> hl_nodeMap L (he_toNodeId e) = Some c}"
  shows "sans_flags L1 = sans_flags L \<and> marked CAN_BE_QUERIED L1 = marked CAN_BE_QUERIED L
    \<and> marked PAGE_PROJECT L1 = marked PAGE_PROJECT L \<union> K \<and> set st1 = set st \<union> (K - marked PAGE_PROJECT L)
    \<and> length st1 + p_pot L1 = length st + p_pot L"
  using assms(1,2) unfolding K_def
proof (induction es arbitrary: st L)
  case Nil
  then show ?case by simp
next
  case (Cons e es)
  obtain st2 L2 where s2: "page_edge e (st, L) = (st2, L2)" by (cases "page_edge e (st, L)")
  note ef = page_edge_effect [OF Cons.prems(1) s2]
  have sh: "shape L2 = shape L" using ef by (intro sans_flags_shape) simp
  have "map_in_range L2" using map_in_range_shape [OF sh] Cons.prems(1) by simp
  moreover have "fold page_edge es (st2, L2) = (st1, L1)" using Cons.prems(2) s2 by simp
  ultimately show ?case
    using Cons.IH [of L2 st2] ef shape_nodes(2) [OF sh] by auto
qed

lemma markPageOwned_loop_correct:
  assumes "map_in_range L" "set st \<subseteq> {..<length (hl_nodes L)}" "length st + p_pot L < fuel"
  shows "\<exists>L'. markPageOwned_loop fuel st L = Some L' \<and> sans_flags L' = sans_flags L
    \<and> marked CAN_BE_QUERIED L' = marked CAN_BE_QUERIED L
    \<and> push_post (succ_of L strong_edge) (marked PAGE_PROJECT L) (set st) (marked PAGE_PROJECT L')"
  using assms
proof (induction fuel arbitrary: st L)
  case 0
  then show ?case by simp
next
  case (Suc fuel)
  show ?case
  proof (cases st)
    case Nil
    then show ?thesis by (simp add: push_post_Nil)
  next
    case (Cons u st')
    then have u: "u < length (hl_nodes L)" "set st' \<subseteq> {..<length (hl_nodes L)}" using Suc.prems(2) by auto
    obtain st1 L1 where s1: "fold page_edge (hn_edges (hl_nodes L ! u)) (st', L) = (st1, L1)"
      by (cases "fold page_edge (hn_edges (hl_nodes L ! u)) (st', L)")
    let ?K = "succ_of L strong_edge u"
    have K: "?K = {c. \<exists>e\<in>set (hn_edges (hl_nodes L ! u)). strong_edge e \<and> hl_nodeMap L (he_toNodeId e) = Some c}"
      using u(1) by (simp add: succ_of_def set_kids)
    note ef = fold_page_edge [OF Suc.prems(1) s1, folded K]
    have sh: "shape L1 = shape L" using ef by (intro sans_flags_shape) simp
    have r1: "map_in_range L1" using map_in_range_shape [OF sh] Suc.prems(1) by simp
    have rng: "set st1 \<subseteq> {..<length (hl_nodes L1)}"
      using ef u(2) kids_in_range [OF Suc.prems(1), of strong_edge u] shape_nodes(1) [OF sh]
      by (auto simp: succ_of_def split: if_splits)
    have "length st1 + p_pot L1 < fuel" using ef Suc.prems(3) Cons by simp
    then obtain L' where L': "markPageOwned_loop fuel st1 L1 = Some L'" "sans_flags L' = sans_flags L1"
      "marked CAN_BE_QUERIED L' = marked CAN_BE_QUERIED L1"
      "push_post (succ_of L strong_edge) (marked PAGE_PROJECT L \<union> ?K) (set st1) (marked PAGE_PROJECT L')"
      using Suc.IH [OF r1 rng] succ_of_shape [OF sh, of strong_edge] ef by auto
    have "push_post (succ_of L strong_edge) (marked PAGE_PROJECT L) (set st) (marked PAGE_PROJECT L')"
      using push_post_expand [OF L'(4), of "set st'"] ef Cons by auto
    then show ?thesis using L' ef s1 Cons by auto
  qed
qed

lemma fold_mark_seeds:
  assumes "set seeds \<subseteq> {..<length (hl_nodes L)}"
  shows "sans_flags (fold (\<lambda>c. upd_node c (set_flag PAGE_PROJECT)) seeds L) = sans_flags L
    \<and> marked CAN_BE_QUERIED (fold (\<lambda>c. upd_node c (set_flag PAGE_PROJECT)) seeds L) = marked CAN_BE_QUERIED L
    \<and> marked PAGE_PROJECT (fold (\<lambda>c. upd_node c (set_flag PAGE_PROJECT)) seeds L) = marked PAGE_PROJECT L \<union> set seeds"
  using assms
  by (induction seeds arbitrary: L) (auto simp: marked_upd_other marked_upd)

lemma page_seeds_bounds:
  assumes "map_in_range L"
  shows "set (page_seeds L) \<subseteq> {..<length (hl_nodes L)}" "length (page_seeds L) \<le> length (hn_edges (rootNode L))"
  using assms
  by (auto simp: page_seeds_def List.map_filter_def map_in_range_def split: option.splits if_splits)

text \<open>C13: \<open>markPageOwnedNodes\<close> ends and marks exactly the nodes that the page's objects (the targets of
  the root's shortcut edges and the document trees) reach over edges that are not weak; the
  queryable flags and everything else stay.\<close>

theorem markPageOwnedNodes_correct:
  assumes "wf_loader L" "marked PAGE_PROJECT L = {}"
  shows "\<exists>L'. markPageOwnedNodes L = Some L' \<and> sans_flags L' = sans_flags L
    \<and> marked CAN_BE_QUERIED L' = marked CAN_BE_QUERIED L
    \<and> marked PAGE_PROJECT L' = reach (succ_of L strong_edge) (set (page_seeds L))"
proof -
  have range: "map_in_range L" using assms(1) by (rule wf_map_in_range)
  let ?s = "page_seeds L"
  define L1 where "L1 = fold (\<lambda>c. upd_node c (set_flag PAGE_PROJECT)) ?s L"
  note seeds = fold_mark_seeds [OF page_seeds_bounds(1) [OF range], folded L1_def]
  have sh: "shape L1 = shape L" using seeds by (intro sans_flags_shape) simp
  have "p_pot L1 \<le> length (hl_nodes L)"
    using card_mono [of "{..<length (hl_nodes L1)}" "{..<length (hl_nodes L1)} - marked PAGE_PROJECT L1"]
      shape_nodes(1) [OF sh] by (simp add: p_pot_def)
  then have fuel: "length (rev ?s) + p_pot L1 < search_fuel L"
    using page_seeds_bounds(2) [OF range] by (simp add: search_fuel_def)
  have r1: "map_in_range L1" using map_in_range_shape [OF sh] range by simp
  have "set (rev ?s) \<subseteq> {..<length (hl_nodes L1)}"
    using page_seeds_bounds(1) [OF range] shape_nodes(1) [OF sh] by simp
  from markPageOwned_loop_correct [OF r1 this fuel] obtain L' where
    L': "markPageOwned_loop (search_fuel L) (rev ?s) L1 = Some L'" "sans_flags L' = sans_flags L1"
      "marked CAN_BE_QUERIED L' = marked CAN_BE_QUERIED L1"
      "push_post (succ_of L1 strong_edge) (marked PAGE_PROJECT L1) (set (rev ?s)) (marked PAGE_PROJECT L')"
    by blast
  have "marked PAGE_PROJECT L' = reach (succ_of L strong_edge) (set ?s)"
    using L'(4) seeds assms(2) succ_of_shape [OF sh, of strong_edge] by (intro push_post_reach) simp
  with L'(1-3) seeds show ?thesis by (simp add: markPageOwnedNodes_def L1_def [symmetric] Let_def)
qed

section \<open>Witnesses\<close>

lemma demo_unmarked: "marked f demo_graph = {}"
proof -
  have "hn_flag (hl_nodes demo_graph ! i) = 0" if "i < 3" for i
    using that demo_graph_nodes by (auto simp: less_Suc_eq numeral_3_eq_3 numeral_2_eq_2 mkHeapNode_def)
  then show ?thesis by (auto simp: marked_def has_flag_def js_and_def demo_graph_nodes(4) toInt32_def)
qed

lemmas demo_graph_wf = demo_built(1) [unfolded demo_graph_built]

theorem markQueryableNodes_correct_witness:
  "\<exists>L'. markQueryableNodes demo_graph = Some L' \<and> 1 \<in> marked CAN_BE_QUERIED L'"
proof -
  have "1 \<in> set (query_seeds demo_graph)"
    using demo_graph_nodes
    by (simp add: query_seeds_def set_kids demo_graph_map mkHeapEdge_def isUserRoot_def mkHeapNode_def)
  then show ?thesis
    using markQueryableNodes_correct [OF demo_graph_wf demo_unmarked] by (auto intro: reach.seed)
qed

theorem markPageOwnedNodes_correct_witness:
  "\<exists>L'. markPageOwnedNodes demo_graph = Some L' \<and> 2 \<in> marked PAGE_PROJECT L'"
proof -
  have "2 \<in> set (page_seeds demo_graph)"
    using demo_graph_nodes
    by (simp add: page_seeds_def List.map_filter_def demo_graph_map mkHeapEdge_def mkHeapNode_def
        isDocumentDOMTreesRoot_def)
  then show ?thesis
    using markPageOwnedNodes_correct [OF demo_graph_wf demo_unmarked] by (auto intro: reach.seed)
qed

end
