(* ===== verification/Heap_Distance.thy ===== *)
theory Heap_Distance
  imports Heap_Flags
begin

text \<open>
  \<open>calDistances\<close> of \<open>HeapLoader.ts\<close>: a breadth-first search from the user roots and a second one from
  the root node for what is left. The queue is the typed array \<open>nodesToVisit\<close> of node ids, with an
  index to the next entry and a length that may outgrow the array.
\<close>

section \<open>parseInt and the edge filter\<close>

definition js_white :: "cunit \<Rightarrow> bool" where
  "js_white u \<longleftrightarrow> unat u \<in> set ([9, 10, 11, 12, 13, 32, 160, 0x1680, 0x2028, 0x2029, 0x202F, 0x205F, 0x3000, 0xFEFF]
     @ [0x2000..<0x200B])"

definition js_digit :: "cunit \<Rightarrow> bool" where
  "js_digit u \<longleftrightarrow> 48 \<le> unat u \<and> unat u \<le> 57"

text \<open>\<open>parseInt(s, 10)\<close>: \<open>None\<close> is \<open>NaN\<close>.\<close>

definition js_parseInt :: "jsstring \<Rightarrow> int option" where
  "js_parseInt s =
     (let t = dropWhile js_white s;
          neg = (t \<noteq> [] \<and> hd t = 45);
          ds = takeWhile js_digit (if t \<noteq> [] \<and> (hd t = 43 \<or> hd t = 45) then tl t else t);
          v = fold (\<lambda>u acc. acc * 10 + (uint u - 48)) ds 0
      in if ds = [] then None else Some (if neg then - v else v))"

definition filterForBpf :: "HeapNode \<Rightarrow> HeapEdge \<Rightarrow> bool" where
  "filterForBpf node edge =
     (if hn_type node = NodeType_num NodeType_HIDDEN
      then he_nameOrIndex edge \<noteq> js ''sloppy_function_map'' \<or> hn_name node \<noteq> js ''system / NativeContext''
      else if hn_type node = NodeType_num NodeType_ARRAY then
        (if hn_name node \<noteq> js ''(map descriptors)'' then True
         else (case js_parseInt (he_nameOrIndex edge) of
                 None \<Rightarrow> True | Some index \<Rightarrow> index < 2 \<or> index mod 3 \<noteq> 1))
      else True)"

section \<open>Breadth-first search\<close>

definition bfs_edge :: "nat \<Rightarrow> int \<Rightarrow> HeapEdge \<Rightarrow> nat list \<times> nat \<times> HeapLoader \<Rightarrow> nat list \<times> nat \<times> HeapLoader" where
  "bfs_edge u distance e s = (case s of (nodesToVisit, len, L) \<Rightarrow>
     if he_type e = EdgeType_num EdgeType_WEAK then s
     else (case hl_nodeMap L (he_toNodeId e) of
             None \<Rightarrow> s
           | Some c \<Rightarrow>
               if hn_distance (hl_nodes L ! c) \<noteq> - 5 \<or> \<not> filterForBpf (hl_nodes L ! u) e then s
               else (u32_set nodesToVisit len (hn_id (hl_nodes L ! c)), len + 1,
                     upd_node c (hn_distance_update (\<lambda>_. distance)) L)))"

text \<open>An entry beyond the array reads as \<open>undefined\<close>, which is no key of the map of nodes.\<close>

fun bfs_loop :: "nat \<Rightarrow> nat list \<Rightarrow> nat \<Rightarrow> nat \<Rightarrow> HeapLoader \<Rightarrow> (nat list \<times> nat \<times> HeapLoader) option" where
  "bfs_loop 0 nodesToVisit index len L = None"
| "bfs_loop (Suc fuel) nodesToVisit index len L =
     (if index < len then
        (case (if index < length nodesToVisit then hl_nodeMap L (nodesToVisit ! index) else None) of
           None \<Rightarrow> bfs_loop fuel nodesToVisit (index + 1) len L
         | Some u \<Rightarrow>
             (let (a, l, L1) = fold (bfs_edge u (hn_distance (hl_nodes L ! u) + 1)) (hn_edges (hl_nodes L ! u))
                (nodesToVisit, len, L)
              in bfs_loop fuel a (index + 1) l L1))
      else Some (nodesToVisit, len, L))"

definition bfs :: "nat list \<Rightarrow> nat \<Rightarrow> HeapLoader \<Rightarrow> (nat list \<times> HeapLoader) result" where
  "bfs nodesToVisit nodesToVisitLen L =
     (case bfs_loop (nodesToVisitLen + hl_nodeCount L + 1) nodesToVisit 0 nodesToVisitLen L of
        None \<Rightarrow> Inl Blocked
      | Some (a, l, L1) \<Rightarrow> if l > hl_nodeCount L then Inl (Thrown ''BFS failed'') else Inr (a, L1))"

definition BASE_SYSTEM_DISTANCE :: int where "BASE_SYSTEM_DISTANCE = 100000000"

definition root_edge :: "HeapEdge \<Rightarrow> nat list \<times> nat \<times> HeapLoader \<Rightarrow> nat list \<times> nat \<times> HeapLoader" where
  "root_edge e s = (case s of (nodesToVisit, len, L) \<Rightarrow>
     case hl_nodeMap L (he_toNodeId e) of
       None \<Rightarrow> s
     | Some c \<Rightarrow>
         if isUserRoot (hl_nodes L ! c) \<or> isDocumentDOMTreesRoot (hl_nodes L ! c)
         then (u32_set nodesToVisit len (hn_id (hl_nodes L ! c)), len + 1,
               upd_node c (hn_distance_update (\<lambda>_. 1)) L)
         else s)"

definition calDistances :: "HeapLoader \<Rightarrow> HeapLoader result" where
  "calDistances L =
     (let (a, l, L1) = fold root_edge (hn_edges (rootNode L)) (replicate (hl_nodeCount L) 0, 0, L) in
      bindr (bfs a l L1) (\<lambda>(a2, L2).
      let L3 = upd_node 0 (hn_distance_update (\<lambda>_. if l > 0 then BASE_SYSTEM_DISTANCE else 0)) L2 in
      bindr (bfs (u32_set a2 0 (hn_id (rootNode L3))) 1 L3) (\<lambda>(_, L4). Inr L4)))"

section \<open>Distances as walks\<close>

text \<open>\<open>A\<close> holds the nodes whose distance is already set when the search begins, \<open>S\<close> its start nodes.\<close>

inductive walk :: "(nat \<Rightarrow> nat set) \<Rightarrow> nat set \<Rightarrow> nat set \<Rightarrow> nat \<Rightarrow> nat \<Rightarrow> bool" for succ S A where
  start: "s \<in> S \<Longrightarrow> walk succ S A 0 s"
| step: "walk succ S A k u \<Longrightarrow> v \<in> succ u \<Longrightarrow> v \<notin> A \<Longrightarrow> walk succ S A (Suc k) v"

definition dist_at :: "HeapLoader \<Rightarrow> nat \<Rightarrow> int" where
  "dist_at L v = hn_distance (hl_nodes L ! v)"

definition b_succ :: "HeapLoader \<Rightarrow> nat \<Rightarrow> nat set" where
  "b_succ L u = (if u < length (hl_nodes L)
     then {c. \<exists>e\<in>set (hn_edges (hl_nodes L ! u)). he_type e \<noteq> EdgeType_num EdgeType_WEAK
       \<and> hl_nodeMap L (he_toNodeId e) = Some c \<and> filterForBpf (hl_nodes L ! u) e} else {})"

lemma filterForBpf_cong: "hn_type m = hn_type n \<Longrightarrow> hn_name m = hn_name n \<Longrightarrow> filterForBpf m e = filterForBpf n e"
  by (simp add: filterForBpf_def)

lemma b_succ_shape:
  assumes "shape L' = shape L"
  shows "b_succ L' = b_succ L"
proof
  fix u
  note nd = shape_nodes [OF assms]
  show "b_succ L' u = b_succ L u"
  proof (cases "u < length (hl_nodes L)")
    case True
    have "filterForBpf (hl_nodes L' ! u) e = filterForBpf (hl_nodes L ! u) e" for e
      using nd(8,9) [OF True] by (rule filterForBpf_cong)
    then show ?thesis using nd(1,2) nd(5) [OF True] by (simp add: b_succ_def)
  qed (simp add: b_succ_def nd(1))
qed

lemma shape_distance [simp]: "shape (upd_node i (hn_distance_update g) L) = shape L"
  by (rule shape_upd(2))

text \<open>One node expanded: which nodes are appended to the queue, and their distance.\<close>

lemma fold_bfs_edge:
  assumes "map_in_range L" "u < length (hl_nodes L)" "D \<noteq> - 5"
    and "fold (bfs_edge u D) es (arr, len, L) = (arr', len', L')"
  shows "\<exists>new. distinct new \<and> len' = len + length new \<and> length arr' = length arr \<and> shape L' = shape L
    \<and> set new = {c. (\<exists>e\<in>set es. he_type e \<noteq> EdgeType_num EdgeType_WEAK \<and> hl_nodeMap L (he_toNodeId e) = Some c
         \<and> filterForBpf (hl_nodes L ! u) e) \<and> dist_at L c = - 5}
    \<and> (\<forall>j. j < len \<longrightarrow> arr' ! j = arr ! j)
    \<and> (\<forall>j<length new. len + j < length arr \<longrightarrow> arr' ! (len + j) = u32 (hn_id (hl_nodes L ! (new ! j))))
    \<and> (\<forall>v<length (hl_nodes L). dist_at L' v = (if v \<in> set new then D else dist_at L v))"
  using assms
proof (induction es arbitrary: arr len L)
  case Nil
  then show ?case by (intro exI [of _ "[]"]) auto
next
  case (Cons e es)
  let ?ok = "he_type e \<noteq> EdgeType_num EdgeType_WEAK \<and> filterForBpf (hl_nodes L ! u) e"
  show ?case
  proof (cases "?ok \<and> (\<exists>c. hl_nodeMap L (he_toNodeId e) = Some c \<and> dist_at L c = - 5)")
    case False
    then have "bfs_edge u D e (arr, len, L) = (arr, len, L)"
      by (auto simp: bfs_edge_def dist_at_def split: option.split)
    then have "fold (bfs_edge u D) es (arr, len, L) = (arr', len', L')" using Cons.prems(4) by simp
    from Cons.IH [OF Cons.prems(1-3) this] False show ?thesis
      by (elim exE, rule_tac x = new in exI) auto
  next
    case True
    then obtain c where c: "hl_nodeMap L (he_toNodeId e) = Some c" "dist_at L c = - 5" and ok: ?ok by blast
    have cn: "c < length (hl_nodes L)" using c Cons.prems(1) by (simp add: map_in_range_def)
    define L1 where "L1 = upd_node c (hn_distance_update (\<lambda>_. D)) L"
    define a1 where "a1 = u32_set arr len (hn_id (hl_nodes L ! c))"
    have sh: "shape L1 = shape L" by (simp add: L1_def)
    note nd = shape_nodes [OF sh]
    have d1: "dist_at L1 v = (if v = c then D else dist_at L v)" if "v < length (hl_nodes L)" for v
      using distance.get_upd_node [OF cn, of "\<lambda>_. D" v] by (simp add: L1_def dist_at_def)
    have "bfs_edge u D e (arr, len, L) = (a1, len + 1, L1)"
      using c ok by (simp add: bfs_edge_def dist_at_def a1_def L1_def)
    then have run: "fold (bfs_edge u D) es (a1, len + 1, L1) = (arr', len', L')" using Cons.prems(4) by simp
    have filt: "filterForBpf (hl_nodes L1 ! u) e' = filterForBpf (hl_nodes L ! u) e'" for e'
      using nd(8,9) [OF Cons.prems(2)] by (rule filterForBpf_cong)
    obtain new where new: "distinct new" "len' = len + 1 + length new" "length arr' = length a1" "shape L' = shape L1"
      "set new = {c. (\<exists>e\<in>set es. he_type e \<noteq> EdgeType_num EdgeType_WEAK \<and> hl_nodeMap L1 (he_toNodeId e) = Some c
         \<and> filterForBpf (hl_nodes L1 ! u) e) \<and> dist_at L1 c = - 5}"
      "\<forall>j. j < len + 1 \<longrightarrow> arr' ! j = a1 ! j"
      "\<forall>j<length new. len + 1 + j < length a1 \<longrightarrow> arr' ! (len + 1 + j) = u32 (hn_id (hl_nodes L1 ! (new ! j)))"
      "\<forall>v<length (hl_nodes L1). dist_at L' v = (if v \<in> set new then D else dist_at L1 v)"
      using Cons.IH [OF _ _ Cons.prems(3) run] map_in_range_shape [OF sh] Cons.prems(1,2) nd(1) by auto
    have setnew: "set new = {x. (\<exists>e\<in>set es. he_type e \<noteq> EdgeType_num EdgeType_WEAK \<and> hl_nodeMap L (he_toNodeId e) = Some x
         \<and> filterForBpf (hl_nodes L ! u) e) \<and> x \<noteq> c \<and> dist_at L x = - 5}"
    proof -
      have "dist_at L1 x = - 5 \<longleftrightarrow> x \<noteq> c \<and> dist_at L x = - 5" if "x < length (hl_nodes L)" for x
        using d1 [OF that] Cons.prems(3) by auto
      moreover have "x < length (hl_nodes L)" if "hl_nodeMap L y = Some x" for x y
        using that Cons.prems(1) by (simp add: map_in_range_def)
      ultimately show ?thesis unfolding new(5) filt nd(2) by blast
    qed
    have ids: "hn_id (hl_nodes L1 ! (new ! j)) = hn_id (hl_nodes L ! (new ! j))" if "j < length new" for j
    proof -
      have "new ! j \<in> set new" using that by simp
      then have "new ! j < length (hl_nodes L)" using setnew Cons.prems(1) by (auto simp: map_in_range_def)
      then show ?thesis by (rule nd(6))
    qed
    show ?thesis
    proof (intro exI [of _ "c # new"] conjI)
      show "distinct (c # new)" using new(1) setnew by simp
      show "len' = len + length (c # new)" "length arr' = length arr" "shape L' = shape L"
        using new(2-4) sh by (simp_all add: a1_def)
      show "set (c # new) = {c. (\<exists>e\<in>set (e # es). he_type e \<noteq> EdgeType_num EdgeType_WEAK \<and> hl_nodeMap L (he_toNodeId e) = Some c
         \<and> filterForBpf (hl_nodes L ! u) e) \<and> dist_at L c = - 5}"
        using setnew c ok by auto
      show "\<forall>j<len. arr' ! j = arr ! j" using new(6) by (simp add: a1_def u32_set_def)
      show "\<forall>j<length (c # new). len + j < length arr \<longrightarrow> arr' ! (len + j) = u32 (hn_id (hl_nodes L ! ((c # new) ! j)))"
      proof (intro allI impI)
        fix j assume j: "j < length (c # new)" "len + j < length arr"
        show "arr' ! (len + j) = u32 (hn_id (hl_nodes L ! ((c # new) ! j)))"
          using j new(6,7) ids by (cases j) (auto simp: a1_def u32_set_def)
      qed
      show "\<forall>v<length (hl_nodes L). dist_at L' v = (if v \<in> set (c # new) then D else dist_at L v)"
        using new(8) nd(1) d1 by auto
    qed
  qed
qed

section \<open>Correctness of the search\<close>

text \<open>
  The queue holds the positions \<open>Q\<close>; the entries before \<open>index\<close> are expanded. Distances along the queue
  never decrease, and all entries are within one of the next entry to expand.
\<close>

definition bfs_inv :: "HeapLoader \<Rightarrow> nat set \<Rightarrow> nat set \<Rightarrow> int \<Rightarrow> nat list \<Rightarrow> nat \<Rightarrow> nat list \<Rightarrow> HeapLoader \<Rightarrow> bool" where
  "bfs_inv L0 S A d0 Q index arr L \<longleftrightarrow>
     shape L = shape L0 \<and> distinct Q \<and> index \<le> length Q \<and> length arr = length (hl_nodes L0)
   \<and> (\<forall>j<length Q. arr ! j = hn_id (hl_nodes L0 ! (Q ! j)))
   \<and> (\<forall>v\<in>A. dist_at L v = dist_at L0 v)
   \<and> set Q = S \<union> {v. v < length (hl_nodes L0) \<and> v \<notin> A \<and> dist_at L v \<noteq> - 5}
   \<and> (\<forall>v<length (hl_nodes L0). v \<notin> A \<and> dist_at L v \<noteq> - 5 \<longrightarrow>
        (\<exists>k. walk (b_succ L0) S A k v \<and> dist_at L v = d0 + int k))
   \<and> (\<forall>i j. i < j \<and> j < length Q \<longrightarrow> dist_at L (Q ! i) \<le> dist_at L (Q ! j))
   \<and> (\<forall>i j. index \<le> i \<and> i < length Q \<and> j < length Q \<longrightarrow> dist_at L (Q ! j) \<le> dist_at L (Q ! i) + 1)
   \<and> (\<forall>j<index. \<forall>v\<in>b_succ L0 (Q ! j). v \<in> A \<or> (dist_at L v \<noteq> - 5 \<and> dist_at L v \<le> dist_at L (Q ! j) + 1))"

definition bfs_start :: "HeapLoader \<Rightarrow> nat set \<Rightarrow> nat set \<Rightarrow> int \<Rightarrow> bool" where
  "bfs_start L0 S A d0 \<longleftrightarrow> wf_loader L0 \<and> S \<subseteq> A \<and> A = {v. v < length (hl_nodes L0) \<and> dist_at L0 v \<noteq> - 5}
     \<and> (\<forall>s\<in>S. dist_at L0 s = d0) \<and> 0 \<le> d0"

lemma bfs_inv_queue:
  assumes "bfs_start L0 S A d0" "bfs_inv L0 S A d0 Q index arr L" "u \<in> set Q"
  shows "u < length (hl_nodes L0)" "0 \<le> dist_at L u" "u \<in> S \<longrightarrow> dist_at L u = d0"
    "\<exists>k. walk (b_succ L0) S A k u \<and> dist_at L u = d0 + int k"
proof -
  have cases: "u \<in> S \<or> (u < length (hl_nodes L0) \<and> u \<notin> A \<and> dist_at L u \<noteq> - 5)"
    using assms(2,3) by (auto simp: bfs_inv_def)
  have S: "u \<in> S \<longrightarrow> dist_at L u = d0" using assms(1,2) by (auto simp: bfs_inv_def bfs_start_def)
  then show "u \<in> S \<longrightarrow> dist_at L u = d0" .
  show "u < length (hl_nodes L0)" using cases assms(1) by (auto simp: bfs_start_def)
  show ex: "\<exists>k. walk (b_succ L0) S A k u \<and> dist_at L u = d0 + int k"
  proof (cases "u \<in> S")
    case True
    then show ?thesis using S by (intro exI [of _ 0]) (simp add: walk.start)
  next
    case False
    with cases assms(2) show ?thesis by (simp add: bfs_inv_def)
  qed
  then show "0 \<le> dist_at L u" using assms(1) by (auto simp: bfs_start_def)
qed

lemma distinct_bound: "distinct xs \<Longrightarrow> set xs \<subseteq> {..<n} \<Longrightarrow> length xs \<le> n"
  using distinct_card [of xs] card_mono [of "{..<n}" "set xs"] by simp

lemma bfs_inv_closed:
  assumes "bfs_inv L0 S A d0 Q index arr L" "j < index" "v \<in> b_succ L0 (Q ! j)"
  shows "v \<in> A \<or> (dist_at L v \<noteq> - 5 \<and> dist_at L v \<le> dist_at L (Q ! j) + 1)"
  using assms by (simp add: bfs_inv_def)

text \<open>The effect of expanding the entry \<open>u\<close>: the nodes \<open>new\<close> join the queue.\<close>

definition bfs_expands :: "HeapLoader \<Rightarrow> nat set \<Rightarrow> nat list \<Rightarrow> nat \<Rightarrow> HeapLoader \<Rightarrow> nat list \<Rightarrow> HeapLoader \<Rightarrow> bool" where
  "bfs_expands L0 A Q u L new L' \<longleftrightarrow>
     shape L' = shape L0 \<and> distinct (Q @ new) \<and> set new = {c \<in> b_succ L0 u. dist_at L c = - 5}
   \<and> (\<forall>c\<in>set new. c < length (hl_nodes L0) \<and> c \<notin> A \<and> dist_at L' c = dist_at L u + 1)
   \<and> (\<forall>v<length (hl_nodes L0). v \<notin> set new \<longrightarrow> dist_at L' v = dist_at L v)"

lemma b_succ_range: "wf_loader L \<Longrightarrow> c \<in> b_succ L w \<Longrightarrow> c < length (hl_nodes L)"
  using wf_map_in_range [of L] by (auto simp: b_succ_def map_in_range_def split: if_splits)

lemma bfs_expand:
  assumes st: "bfs_start L0 S A d0" and inv: "bfs_inv L0 S A d0 Q index arr L" and idx: "index < length Q"
    and run: "fold (bfs_edge (Q ! index) (dist_at L (Q ! index) + 1)) (hn_edges (hl_nodes L ! (Q ! index))) (arr, length Q, L)
      = (arr', len', L')"
  shows "\<exists>new. len' = length (Q @ new) \<and> length arr' = length arr \<and> bfs_expands L0 A Q (Q ! index) L new L'
    \<and> (\<forall>j<length (Q @ new). j < length arr \<longrightarrow> arr' ! j = hn_id (hl_nodes L0 ! ((Q @ new) ! j)))"
proof -
  let ?u = "Q ! index" and ?n = "length (hl_nodes L0)"
  let ?D = "dist_at L ?u + 1"
  note u = bfs_inv_queue [OF st inv, of ?u]
  have sh: "shape L = shape L0" using inv by (simp add: bfs_inv_def)
  note nd = shape_nodes [OF sh]
  have wf: "wf_loader L0" and A: "A = {v. v < ?n \<and> dist_at L0 v \<noteq> - 5}" using st by (auto simp: bfs_start_def)
  have range: "map_in_range L" using wf_map_in_range [OF wf] map_in_range_shape [OF sh] by simp
  have un: "?u < length (hl_nodes L)" using u(1) nd(1) idx by simp
  have "?D \<noteq> - 5" using u(2) idx by simp
  then obtain new where new: "distinct new" "len' = length Q + length new" "length arr' = length arr" "shape L' = shape L"
    "set new = {c. (\<exists>e\<in>set (hn_edges (hl_nodes L ! ?u)). he_type e \<noteq> EdgeType_num EdgeType_WEAK \<and> hl_nodeMap L (he_toNodeId e) = Some c
         \<and> filterForBpf (hl_nodes L ! ?u) e) \<and> dist_at L c = - 5}"
    "\<forall>j. j < length Q \<longrightarrow> arr' ! j = arr ! j"
    "\<forall>j<length new. length Q + j < length arr \<longrightarrow> arr' ! (length Q + j) = u32 (hn_id (hl_nodes L ! (new ! j)))"
    "\<forall>v<length (hl_nodes L). dist_at L' v = (if v \<in> set new then ?D else dist_at L v)"
    using fold_bfs_edge [OF range un _ run] by auto
  have succ: "set new = {c \<in> b_succ L0 ?u. dist_at L c = - 5}"
    using new(5) un unfolding b_succ_shape [OF sh, symmetric] b_succ_def [of L ?u] by simp
  have fresh: "c < ?n \<and> c \<notin> A \<and> c \<notin> set Q \<and> dist_at L' c = ?D" if "c \<in> set new" for c
  proof -
    have c: "c < ?n" "dist_at L c = - 5" using that succ b_succ_range [OF wf] by auto
    then have "c \<notin> A" using inv A by (auto simp: bfs_inv_def)
    then have "c \<notin> set Q" using c inv st by (auto simp: bfs_inv_def bfs_start_def)
    then show ?thesis using c \<open>c \<notin> A\<close> new(8) nd(1) that by simp
  qed
  have "arr' ! j = hn_id (hl_nodes L0 ! ((Q @ new) ! j))" if j: "j < length (Q @ new)" "j < length arr" for j
  proof (cases "j < length Q")
    case True
    then show ?thesis using new(6) inv by (simp add: bfs_inv_def nth_append)
  next
    case False
    define i where "i = j - length Q"
    have i: "i < length new" "j = length Q + i" using False j by (auto simp: i_def)
    then have n: "new ! i < ?n" using fresh nth_mem by blast
    then have "u32 (hn_id (hl_nodes L ! (new ! i))) = hn_id (hl_nodes L0 ! (new ! i))"
      using nd(6) wf_loader_simps(12) [OF wf] by simp
    then show ?thesis using i j(2) new(7) by (simp add: nth_append)
  qed
  moreover have "distinct (Q @ new)" using inv new(1) fresh by (auto simp: bfs_inv_def)
  then have "bfs_expands L0 A Q ?u L new L'"
    unfolding bfs_expands_def using new(4,8) sh succ fresh nd(1) by simp
  ultimately show ?thesis using new(2,3) by (intro exI [of _ new]) simp
qed

text \<open>The order of the queue.\<close>

lemma bfs_expands_queue:
  assumes "bfs_start L0 S A d0" "bfs_inv L0 S A d0 Q index arr L" "index < length Q" "bfs_expands L0 A Q (Q ! index) L new L'"
  shows "j < length (Q @ new) \<Longrightarrow>
      dist_at L' ((Q @ new) ! j) = (if j < length Q then dist_at L (Q ! j) else dist_at L (Q ! index) + 1)"
    "v \<in> set Q \<Longrightarrow> dist_at L' v = dist_at L v \<and> dist_at L v \<le> dist_at L (Q ! index) + 1"
proof -
  show old: "dist_at L' v = dist_at L v \<and> dist_at L v \<le> dist_at L (Q ! index) + 1" if v: "v \<in> set Q" for v
  proof
    have "v \<notin> set new" using v assms(4) by (auto simp: bfs_expands_def)
    then show "dist_at L' v = dist_at L v"
      using assms(4) bfs_inv_queue(1) [OF assms(1,2) v] by (simp add: bfs_expands_def)
    show "dist_at L v \<le> dist_at L (Q ! index) + 1"
      using v assms(2,3) by (auto simp: bfs_inv_def in_set_conv_nth)
  qed
  assume "j < length (Q @ new)"
  then show "dist_at L' ((Q @ new) ! j) = (if j < length Q then dist_at L (Q ! j) else dist_at L (Q ! index) + 1)"
    using old assms(4) by (auto simp: nth_append bfs_expands_def)
qed

lemma bfs_expands_sorted:
  assumes "bfs_start L0 S A d0" "bfs_inv L0 S A d0 Q index arr L" "index < length Q" "bfs_expands L0 A Q (Q ! index) L new L'"
  shows "i < j \<Longrightarrow> j < length (Q @ new) \<Longrightarrow> dist_at L' ((Q @ new) ! i) \<le> dist_at L' ((Q @ new) ! j)"
    "index + 1 \<le> i \<Longrightarrow> i < length (Q @ new) \<Longrightarrow> j < length (Q @ new) \<Longrightarrow>
      dist_at L' ((Q @ new) ! j) \<le> dist_at L' ((Q @ new) ! i) + 1"
proof -
  note q = bfs_expands_queue [OF assms]
  have sorted: "dist_at L (Q ! i) \<le> dist_at L (Q ! j)" if "i < j" "j < length Q" for i j
    using that assms(2) by (simp add: bfs_inv_def)
  have top: "dist_at L (Q ! i) \<le> dist_at L (Q ! index) + 1" if "i < length Q" for i
    using q(2) [of "Q ! i"] that by simp
  show "dist_at L' ((Q @ new) ! i) \<le> dist_at L' ((Q @ new) ! j)" if "i < j" "j < length (Q @ new)"
    using q(1) [of i] q(1) [of j] sorted [of i j] top [of i] that by auto
  assume i: "index + 1 \<le> i" "i < length (Q @ new)" and j: "j < length (Q @ new)"
  have "dist_at L (Q ! index) \<le> dist_at L' ((Q @ new) ! i)" using q(1) [of i] i sorted [of index i] by auto
  moreover have "dist_at L' ((Q @ new) ! j) \<le> dist_at L (Q ! index) + 1" using q(1) [of j] j top [of j] by auto
  ultimately show "dist_at L' ((Q @ new) ! j) \<le> dist_at L' ((Q @ new) ! i) + 1" by simp
qed

text \<open>The successors of expanded entries.\<close>

lemma bfs_expands_closed:
  assumes "bfs_start L0 S A d0" "bfs_inv L0 S A d0 Q index arr L" "index < length Q" "bfs_expands L0 A Q (Q ! index) L new L'"
    and "j < index + 1" "v \<in> b_succ L0 ((Q @ new) ! j)"
  shows "v \<in> A \<or> (dist_at L' v \<noteq> - 5 \<and> dist_at L' v \<le> dist_at L' ((Q @ new) ! j) + 1)"
proof -
  note q = bfs_expands_queue [OF assms(1-4)]
  have dj: "dist_at L' ((Q @ new) ! j) = dist_at L (Q ! j)" "(Q @ new) ! j = Q ! j"
    using assms(3,5) q(1) [of j] by (auto simp: nth_append)
  have vn: "v < length (hl_nodes L0)" using b_succ_range assms(1,6) by (auto simp: bfs_start_def)
  show ?thesis
  proof (cases "v \<in> set new")
    case True
    then have "dist_at L' v = dist_at L (Q ! index) + 1" "dist_at L v = - 5" using assms(4) by (auto simp: bfs_expands_def)
    moreover have "j = index"
    proof (rule ccontr)
      assume "j \<noteq> index"
      then have "v \<in> A \<or> dist_at L v \<noteq> - 5"
        using bfs_inv_closed [OF assms(2), of j v] assms(5,6) dj(2) by auto
      then show False using True assms(4) by (auto simp: bfs_expands_def)
    qed
    moreover have "0 \<le> dist_at L (Q ! index)" using bfs_inv_queue(2) [OF assms(1,2)] assms(3) by simp
    ultimately show ?thesis using dj by simp
  next
    case False
    then have same: "dist_at L' v = dist_at L v" using assms(4) vn by (simp add: bfs_expands_def)
    show ?thesis
    proof (cases "j = index")
      case True
      then have "dist_at L v \<noteq> - 5" using False assms(4,6) dj(2) by (auto simp: bfs_expands_def)
      then have "v \<in> A \<or> v \<in> set Q" using assms(2) vn by (auto simp: bfs_inv_def)
      then show ?thesis using q(2) [of v] same dj True \<open>dist_at L v \<noteq> - 5\<close> by auto
    next
      case False
      then show ?thesis using bfs_inv_closed [OF assms(2), of j v] assms(5,6) dj same by auto
    qed
  qed
qed

lemma bfs_inv_step:
  assumes st: "bfs_start L0 S A d0" and inv: "bfs_inv L0 S A d0 Q index arr L" and idx: "index < length Q"
    and run: "fold (bfs_edge (Q ! index) (dist_at L (Q ! index) + 1)) (hn_edges (hl_nodes L ! (Q ! index))) (arr, length Q, L)
      = (arr', len', L')"
  shows "\<exists>new. len' = length (Q @ new) \<and> bfs_inv L0 S A d0 (Q @ new) (index + 1) arr' L'"
proof -
  obtain new where new: "len' = length (Q @ new)" "length arr' = length arr" "bfs_expands L0 A Q (Q ! index) L new L'"
    "\<forall>j<length (Q @ new). j < length arr \<longrightarrow> arr' ! j = hn_id (hl_nodes L0 ! ((Q @ new) ! j))"
    using bfs_expand [OF assms] by blast
  let ?n = "length (hl_nodes L0)" and ?u = "Q ! index"
  have ex: "shape L' = shape L0" "distinct (Q @ new)" "set new \<subseteq> b_succ L0 ?u"
    "c \<in> set new \<Longrightarrow> c < ?n \<and> c \<notin> A \<and> dist_at L' c = dist_at L ?u + 1"
    "v < ?n \<Longrightarrow> v \<notin> set new \<Longrightarrow> dist_at L' v = dist_at L v" for c v
    using new(3) unfolding bfs_expands_def by blast+
  have "set (Q @ new) \<subseteq> {..<?n}" using bfs_inv_queue(1) [OF st inv] ex(4) by auto
  then have le: "length (Q @ new) \<le> ?n" using ex(2) by (intro distinct_bound)
  have queue: "v \<in> set (Q @ new) \<longleftrightarrow> v \<in> S \<or> (v < ?n \<and> v \<notin> A \<and> dist_at L' v \<noteq> - 5)" for v
  proof (cases "v \<in> set new")
    case True
    then have "v < ?n" "v \<notin> A" "dist_at L' v = dist_at L ?u + 1" using ex(4) by blast+
    with True bfs_inv_queue(2) [OF st inv, of ?u] idx show ?thesis by simp
  next
    case False
    have "v \<in> set Q \<longleftrightarrow> v \<in> S \<or> (v < ?n \<and> v \<notin> A \<and> dist_at L v \<noteq> - 5)"
      using inv by (auto simp: bfs_inv_def)
    moreover have "v < ?n \<Longrightarrow> dist_at L' v = dist_at L v" using ex(5) False by blast
    ultimately show ?thesis using False by auto
  qed
  have walks: "\<exists>k. walk (b_succ L0) S A k v \<and> dist_at L' v = d0 + int k"
    if v: "v < ?n" "v \<notin> A" "dist_at L' v \<noteq> - 5" for v
  proof (cases "v \<in> set new")
    case True
    obtain k where "walk (b_succ L0) S A k ?u" "dist_at L ?u = d0 + int k"
      using bfs_inv_queue(4) [OF st inv, of ?u] idx by auto
    then show ?thesis using True ex(3,4) by (intro exI [of _ "Suc k"]) (auto intro: walk.step)
  next
    case False
    then show ?thesis using v ex(5) inv by (simp add: bfs_inv_def)
  qed
  have keeps: "dist_at L' v = dist_at L0 v" if "v \<in> A" for v
  proof -
    have "v < ?n" using that st by (simp add: bfs_start_def)
    moreover have "v \<notin> set new" using that ex(4) by blast
    ultimately show ?thesis using ex(5) inv that by (simp add: bfs_inv_def)
  qed
  have "bfs_inv L0 S A d0 (Q @ new) (index + 1) arr' L'"
    unfolding bfs_inv_def
  proof (intro conjI)
    show "\<forall>j<length (Q @ new). arr' ! j = hn_id (hl_nodes L0 ! ((Q @ new) ! j))"
      using new(4) le inv by (auto simp: bfs_inv_def)
    show "set (Q @ new) = S \<union> {v. v < ?n \<and> v \<notin> A \<and> dist_at L' v \<noteq> - 5}" using queue by blast
    show "\<forall>i j. i < j \<and> j < length (Q @ new) \<longrightarrow> dist_at L' ((Q @ new) ! i) \<le> dist_at L' ((Q @ new) ! j)"
      "\<forall>i j. index + 1 \<le> i \<and> i < length (Q @ new) \<and> j < length (Q @ new) \<longrightarrow>
          dist_at L' ((Q @ new) ! j) \<le> dist_at L' ((Q @ new) ! i) + 1"
      using bfs_expands_sorted [OF st inv idx new(3)] by blast+
    show "\<forall>j<index + 1. \<forall>v\<in>b_succ L0 ((Q @ new) ! j).
          v \<in> A \<or> (dist_at L' v \<noteq> - 5 \<and> dist_at L' v \<le> dist_at L' ((Q @ new) ! j) + 1)"
      using bfs_expands_closed [OF st inv idx new(3)] by blast
  qed (use ex(1,2) new(2) inv idx walks keeps in \<open>simp_all add: bfs_inv_def\<close>)
  then show ?thesis using new(1) by blast
qed

lemma bfs_inv_length:
  assumes "bfs_start L0 S A d0" "bfs_inv L0 S A d0 Q index arr L"
  shows "length Q \<le> length (hl_nodes L0)"
proof -
  have "set Q \<subseteq> {..<length (hl_nodes L0)}" using bfs_inv_queue(1) [OF assms] by auto
  then show ?thesis using assms(2) by (intro distinct_bound) (simp_all add: bfs_inv_def)
qed

lemma bfs_loop_correct:
  assumes "bfs_start L0 S A d0" "bfs_inv L0 S A d0 Q index arr L" "length (hl_nodes L0) < fuel + index"
  shows "\<exists>Q' arr' L'. bfs_loop fuel arr index (length Q) L = Some (arr', length Q', L')
    \<and> bfs_inv L0 S A d0 Q' (length Q') arr' L'"
  using assms(2,3)
proof (induction fuel arbitrary: Q index arr L)
  case 0
  then have "index \<le> length Q" by (simp add: bfs_inv_def)
  with bfs_inv_length [OF assms(1) 0(1)] 0(2) show ?case by simp
next
  case (Suc fuel)
  show ?case
  proof (cases "index < length Q")
    case False
    then have "index = length Q" using Suc.prems(1) by (simp add: bfs_inv_def)
    then show ?thesis using Suc.prems(1) by (intro exI [of _ Q] exI [of _ arr] exI [of _ L]) simp
  next
    case True
    let ?u = "Q ! index"
    have sh: "shape L = shape L0" using Suc.prems(1) by (simp add: bfs_inv_def)
    have un: "?u < length (hl_nodes L0)" using bfs_inv_queue(1) [OF assms(1) Suc.prems(1)] True by simp
    have arr: "index < length arr" "arr ! index = hn_id (hl_nodes L0 ! ?u)"
      using Suc.prems(1) True bfs_inv_length [OF assms(1) Suc.prems(1)] by (auto simp: bfs_inv_def)
    have look: "hl_nodeMap L (arr ! index) = Some ?u"
      using wf_loader_simps(9) [of L0 ?u] assms(1) un shape_nodes(2) [OF sh] arr(2) by (simp add: bfs_start_def)
    obtain a l L1 where run: "fold (bfs_edge ?u (dist_at L ?u + 1)) (hn_edges (hl_nodes L ! ?u)) (arr, length Q, L) = (a, l, L1)"
      by (cases "fold (bfs_edge ?u (dist_at L ?u + 1)) (hn_edges (hl_nodes L ! ?u)) (arr, length Q, L)")
    obtain new where new: "l = length (Q @ new)" "bfs_inv L0 S A d0 (Q @ new) (index + 1) a L1"
      using bfs_inv_step [OF assms(1) Suc.prems(1) True run] by blast
    have "bfs_loop (Suc fuel) arr index (length Q) L = bfs_loop fuel a (index + 1) (length (Q @ new)) L1"
      using True arr(1) look run new(1) by (simp add: dist_at_def)
    with Suc.IH [OF new(2)] Suc.prems(2) show ?thesis by simp
  qed
qed

text \<open>After the search a node has the length of a shortest walk to it, or is still unset when there is none.\<close>

definition bfs_post :: "HeapLoader \<Rightarrow> nat set \<Rightarrow> nat set \<Rightarrow> int \<Rightarrow> HeapLoader \<Rightarrow> bool" where
  "bfs_post L0 S A d0 L \<longleftrightarrow> shape L = shape L0 \<and> (\<forall>v\<in>A. dist_at L v = dist_at L0 v)
     \<and> (\<forall>v<length (hl_nodes L0). v \<notin> A \<longrightarrow>
          (if \<exists>k. walk (b_succ L0) S A k v
           then (\<exists>k. walk (b_succ L0) S A k v \<and> dist_at L v = d0 + int k \<and> (\<forall>k'. walk (b_succ L0) S A k' v \<longrightarrow> k \<le> k'))
           else dist_at L v = - 5))"

lemma bfs_inv_post:
  assumes st: "bfs_start L0 S A d0" and inv: "bfs_inv L0 S A d0 Q (length Q) arr L"
  shows "bfs_post L0 S A d0 L"
proof -
  have within: "(v \<in> S \<or> v \<in> A \<or> v \<in> set Q) \<and> (v \<notin> A - S \<longrightarrow> v \<in> set Q \<and> dist_at L v \<le> d0 + int k)"
    if "walk (b_succ L0) S A k v" for k v
    using that
  proof induction
    case (start s)
    then show ?case using inv st by (auto simp: bfs_inv_def bfs_start_def)
  next
    case (step k u v)
    then have uQ: "u \<in> set Q" "dist_at L u \<le> d0 + int k" using walk.cases [OF step(1)] by auto
    then obtain j where "j < length Q" "Q ! j = u" by (auto simp: in_set_conv_nth)
    then have "dist_at L v \<noteq> - 5" "dist_at L v \<le> dist_at L u + 1" using inv step.hyps by (auto simp: bfs_inv_def)
    moreover have "v < length (hl_nodes L0)"
      using step.hyps(2) wf_map_in_range [of L0] st by (auto simp: b_succ_def map_in_range_def bfs_start_def split: if_splits)
    ultimately show ?case using step.hyps(3) uQ inv by (auto simp: bfs_inv_def)
  qed
  show ?thesis
    unfolding bfs_post_def
  proof (intro conjI allI impI)
    show "shape L = shape L0" "\<forall>v\<in>A. dist_at L v = dist_at L0 v" using inv by (auto simp: bfs_inv_def)
    fix v assume v: "v < length (hl_nodes L0)" "v \<notin> A"
    show "if \<exists>k. walk (b_succ L0) S A k v
           then (\<exists>k. walk (b_succ L0) S A k v \<and> dist_at L v = d0 + int k \<and> (\<forall>k'. walk (b_succ L0) S A k' v \<longrightarrow> k \<le> k'))
           else dist_at L v = - 5"
    proof (cases "\<exists>k. walk (b_succ L0) S A k v")
      case True
      then have "v \<in> set Q" using within v(2) by blast
      from bfs_inv_queue(4) [OF st inv this] obtain k where k: "walk (b_succ L0) S A k v" "dist_at L v = d0 + int k" by blast
      have "k \<le> k'" if "walk (b_succ L0) S A k' v" for k' using within [OF that] v(2) k(2) by simp
      with k True show ?thesis by auto
    next
      case False
      then show ?thesis using inv v by (auto simp: bfs_inv_def)
    qed
  qed
qed

text \<open>The search ends without the overflow error and gives every node that was still unset the
  length of a shortest walk from the start nodes over admitted edges (plus the start distance); nodes
  without such a walk stay unset and distances set before are kept.\<close>

theorem bfs_shortest:
  assumes "bfs_start L (set qs) A d0" "distinct qs" "length arr = length (hl_nodes L)"
    and "\<forall>j<length qs. arr ! j = hn_id (hl_nodes L ! (qs ! j))"
  shows "\<exists>arr' L'. bfs arr (length qs) L = Inr (arr', L') \<and> length arr' = length arr \<and> bfs_post L (set qs) A d0 L'"
proof -
  have wf: "wf_loader L" using assms(1) by (simp add: bfs_start_def)
  have dist_qs: "dist_at L q = d0" if "q \<in> set qs" for q using assms(1) that by (simp add: bfs_start_def)
  have "bfs_inv L (set qs) A d0 qs 0 arr L"
    using assms dist_qs by (auto simp: bfs_inv_def bfs_start_def)
  with bfs_loop_correct [OF assms(1) this, of "length qs + hl_nodeCount L + 1"] obtain Q' arr' L' where
    run: "bfs_loop (length qs + hl_nodeCount L + 1) arr 0 (length qs) L = Some (arr', length Q', L')"
      "bfs_inv L (set qs) A d0 Q' (length Q') arr' L'"
    using wf_loader_simps(6) [OF wf] by auto
  have "length Q' \<le> hl_nodeCount L" using bfs_inv_length [OF assms(1) run(2)] wf_loader_simps(6) [OF wf] by simp
  with run bfs_inv_post [OF assms(1) run(2)] assms(3) show ?thesis
    by (auto simp: bfs_def bfs_inv_def)
qed

section \<open>Distances from the root\<close>

definition root_seeds :: "HeapLoader \<Rightarrow> nat list" where
  "root_seeds L = filter (\<lambda>c. isUserRoot (hl_nodes L ! c)) (kids L (\<lambda>_. True) 0)"

lemma fold_root_edge:
  assumes "map_in_range L" "fold root_edge es (arr, len, L) = (arr', len', L')"
    and "\<forall>i<length (hl_nodes L). hn_id (hl_nodes L ! i) < 4294967296"
  defines "qs \<equiv> filter (\<lambda>c. isUserRoot (hl_nodes L ! c)) (List.map_filter (\<lambda>e. hl_nodeMap L (he_toNodeId e)) es)"
  shows "len' = len + length qs \<and> length arr' = length arr \<and> shape L' = shape L \<and> (\<forall>j<len. arr' ! j = arr ! j)
    \<and> (\<forall>j<length qs. len + j < length arr \<longrightarrow> arr' ! (len + j) = hn_id (hl_nodes L ! (qs ! j)))
    \<and> (\<forall>v<length (hl_nodes L). dist_at L' v = (if v \<in> set qs then 1 else dist_at L v))"
  using assms(1-3) unfolding qs_def
proof (induction es arbitrary: arr len L)
  case Nil
  then show ?case by (simp add: List.map_filter_def)
next
  case (Cons e es)
  show ?case
  proof (cases "\<exists>c. hl_nodeMap L (he_toNodeId e) = Some c \<and> isUserRoot (hl_nodes L ! c)")
    case False
    then have "root_edge e (arr, len, L) = (arr, len, L)"
      by (auto simp: root_edge_def isDocumentDOMTreesRoot_def isUserRoot_def split: option.split)
    with Cons False show ?thesis by (auto simp: List.map_filter_def)
  next
    case True
    then obtain c where c: "hl_nodeMap L (he_toNodeId e) = Some c" "isUserRoot (hl_nodes L ! c)" by blast
    then have cn: "c < length (hl_nodes L)" using Cons.prems(1) by (simp add: map_in_range_def)
    define L1 where "L1 = upd_node c (hn_distance_update (\<lambda>_. 1)) L"
    define a1 where "a1 = arr[len := hn_id (hl_nodes L ! c)]"
    define qs where "qs = filter (\<lambda>c. isUserRoot (hl_nodes L ! c)) (List.map_filter (\<lambda>e. hl_nodeMap L (he_toNodeId e)) es)"
    have sh: "shape L1 = shape L" by (simp add: L1_def)
    note nd = shape_nodes [OF sh]
    have step: "root_edge e (arr, len, L) = (a1, len + 1, L1)"
      using c cn Cons.prems(3) by (simp add: root_edge_def a1_def L1_def u32_set_def)
    have in_rng: "x < length (hl_nodes L)" if "x \<in> set (List.map_filter (\<lambda>e. hl_nodeMap L (he_toNodeId e)) es)" for x
      using that Cons.prems(1) by (auto simp: List.map_filter_def map_in_range_def)
    have qs1: "filter (\<lambda>c. isUserRoot (hl_nodes L1 ! c)) (List.map_filter (\<lambda>e. hl_nodeMap L1 (he_toNodeId e)) es) = qs"
      unfolding qs_def nd(2) using nd(8) in_rng by (intro filter_cong) (auto simp: isUserRoot_def)
    have d1: "dist_at L1 v = (if v = c then 1 else dist_at L v)" for v
      using distance.get_upd_node [OF cn, of "\<lambda>_. 1" v] by (simp add: L1_def dist_at_def)
    have IH: "len' = len + 1 + length qs \<and> length arr' = length a1 \<and> shape L' = shape L1 \<and> (\<forall>j<len + 1. arr' ! j = a1 ! j)
      \<and> (\<forall>j<length qs. len + 1 + j < length a1 \<longrightarrow> arr' ! (len + 1 + j) = hn_id (hl_nodes L1 ! (qs ! j)))
      \<and> (\<forall>v<length (hl_nodes L1). dist_at L' v = (if v \<in> set qs then 1 else dist_at L1 v))"
      using Cons.IH [of L1 a1 "len + 1"] Cons.prems step map_in_range_shape [OF sh] nd(1,6) qs1 by simp
    have qsn: "hn_id (hl_nodes L1 ! (qs ! j)) = hn_id (hl_nodes L ! (qs ! j))" if "j < length qs" for j
      using nd(6) in_rng that nth_mem [OF that] by (simp add: qs_def)
    have new: "filter (\<lambda>c. isUserRoot (hl_nodes L ! c)) (List.map_filter (\<lambda>e. hl_nodeMap L (he_toNodeId e)) (e # es)) = c # qs"
      using c by (simp add: List.map_filter_def qs_def)
    have arrs: "arr' ! (len + j) = hn_id (hl_nodes L ! ((c # qs) ! j))" if "j < length (c # qs)" "len + j < length arr" for j
      using that IH qsn by (cases j) (auto simp: a1_def)
    show ?thesis
      unfolding new using IH sh arrs d1 nd(1) by (auto simp: a1_def)
  qed
qed

definition shortest :: "(nat \<Rightarrow> nat set) \<Rightarrow> nat set \<Rightarrow> nat set \<Rightarrow> nat \<Rightarrow> nat \<Rightarrow> bool" where
  "shortest succ S A k v \<longleftrightarrow> walk succ S A k v \<and> (\<forall>k'. walk succ S A k' v \<longrightarrow> k \<le> k')"

lemma bfs_post_shortest:
  "bfs_post L0 S A d0 L \<Longrightarrow> v < length (hl_nodes L0) \<Longrightarrow> v \<notin> A \<Longrightarrow> walk (b_succ L0) S A k v \<Longrightarrow>
     \<exists>k. shortest (b_succ L0) S A k v \<and> dist_at L v = d0 + int k"
  "bfs_post L0 S A d0 L \<Longrightarrow> v < length (hl_nodes L0) \<Longrightarrow> v \<notin> A \<Longrightarrow> \<nexists>k. walk (b_succ L0) S A k v \<Longrightarrow> dist_at L v = - 5"
  unfolding bfs_post_def shortest_def by metis+



end
