(* ===== verification/Heap_Dom.thy ===== *)
theory Heap_Dom
  imports Heap_Flags
begin

text \<open>
  \<open>distributeDOMState\<close> of \<open>HeapLoader.ts\<close>: native nodes whose DOM state is known pass it on to the
  native nodes below them, the attached state first, so that only nodes no attached node reaches
  become detached. The two work lists hold node ids; their head is the top of the stack.
\<close>

record DOMState =
  ds_visited :: "nat list"
  ds_attached :: "nat list"
  ds_detached :: "nat list"

definition newDOMState :: "nat \<Rightarrow> DOMState" where
  "newDOMState nodeSize = \<lparr>ds_visited = replicate nodeSize 0, ds_attached = [], ds_detached = []\<rparr>"

definition processNode :: "nat \<Rightarrow> int \<Rightarrow> DOMState \<times> HeapLoader \<Rightarrow> DOMState \<times> HeapLoader" where
  "processNode c newState s = (case s of (ds, L) \<Rightarrow>
     let node = hl_nodes L ! c; ds' = ds\<lparr>ds_visited := (ds_visited ds)[hn_nodeIndex node := 1]\<rparr> in
     if ds_visited ds ! hn_nodeIndex node \<noteq> 0 then (ds, L)
     else if hn_type node \<noteq> NodeType_num NodeType_NATIVE then (ds', L)
     else
       (let L1 = upd_node c (hn_detachedness_update (\<lambda>_. newState)) L in
        if newState = DetachedNessState_num ATTACHED then
          (ds'\<lparr>ds_attached := hn_id node # ds_attached ds\<rparr>, L1)
        else if newState = DetachedNessState_num DETACHED then
          (ds'\<lparr>ds_detached := hn_id node # ds_detached ds\<rparr>,
           upd_node c (\<lambda>n. set_flag DETACHED_DOM_NODE (n\<lparr>hn_displayName := js ''Detached '' @ hn_name n\<rparr>)) L1)
        else (ds', L1)))"

definition dom_edge :: "HeapEdge \<Rightarrow> bool" where
  "dom_edge e \<longleftrightarrow> \<not> (he_type e = EdgeType_num EdgeType_HIDDEN \<or> he_type e = EdgeType_num EdgeType_WEAK
     \<or> he_type e = EdgeType_num EdgeType_INVISIBLE)"

definition iterateFilteredChildren :: "nat \<Rightarrow> int \<Rightarrow> DOMState \<times> HeapLoader \<Rightarrow> DOMState \<times> HeapLoader" where
  "iterateFilteredChildren u newState s =
     fold (\<lambda>e s. if \<not> dom_edge e then s
             else (case hl_nodeMap (snd s) (he_toNodeId e) of None \<Rightarrow> s | Some c \<Rightarrow> processNode c newState s))
       (hn_edges (hl_nodes (snd s) ! u)) s"

fun attached_loop :: "nat \<Rightarrow> DOMState \<times> HeapLoader \<Rightarrow> (DOMState \<times> HeapLoader) option" where
  "attached_loop 0 s = None"
| "attached_loop (Suc fuel) s = (case s of (ds, L) \<Rightarrow>
     (case ds_attached ds of
        [] \<Rightarrow> Some s
      | nodeId # rest \<Rightarrow>
          (let ds1 = ds\<lparr>ds_attached := rest\<rparr> in
           case hl_nodeMap L nodeId of
             None \<Rightarrow> attached_loop fuel (ds1, L)
           | Some u \<Rightarrow> attached_loop fuel (iterateFilteredChildren u (DetachedNessState_num ATTACHED) (ds1, L)))))"

fun detached_loop :: "nat \<Rightarrow> DOMState \<times> HeapLoader \<Rightarrow> (DOMState \<times> HeapLoader) option" where
  "detached_loop 0 s = None"
| "detached_loop (Suc fuel) s = (case s of (ds, L) \<Rightarrow>
     (case ds_detached ds of
        [] \<Rightarrow> Some s
      | nodeId # rest \<Rightarrow>
          (let ds1 = ds\<lparr>ds_detached := rest\<rparr> in
           case hl_nodeMap L nodeId of
             None \<Rightarrow> detached_loop fuel (ds1, L)
           | Some u \<Rightarrow>
               if hn_detachedness (hl_nodes L ! u) \<noteq> DetachedNessState_num ATTACHED
               then detached_loop fuel (iterateFilteredChildren u (DetachedNessState_num DETACHED) (ds1, L))
               else detached_loop fuel (ds1, L))))"

definition known_nodes :: "nat \<Rightarrow> DOMState \<times> HeapLoader \<Rightarrow> DOMState \<times> HeapLoader" where
  "known_nodes i s =
     (let d = hn_detachedness (hl_nodes (snd s) ! i)
      in if d = DetachedNessState_num UNKNOWN then s else processNode i d s)"

definition distributeDOMState :: "HeapLoader \<Rightarrow> HeapLoader option" where
  "distributeDOMState L =
     (let n = length (hl_nodes L); s1 = fold known_nodes [0..<n] (newDOMState (hl_nodeCount L), L) in
      case attached_loop (n + 1) s1 of
        None \<Rightarrow> None
      | Some s2 \<Rightarrow> map_option snd (detached_loop (n + 1) s2))"

section \<open>One node\<close>

definition det_at :: "HeapLoader \<Rightarrow> nat \<Rightarrow> int" where
  "det_at L v = hn_detachedness (hl_nodes L ! v)"

definition native :: "HeapLoader \<Rightarrow> nat \<Rightarrow> bool" where
  "native L v \<longleftrightarrow> hn_type (hl_nodes L ! v) = NodeType_num NodeType_NATIVE"

definition vis :: "DOMState \<Rightarrow> nat \<Rightarrow> bool" where
  "vis ds v \<longleftrightarrow> ds_visited ds ! v \<noteq> 0"

lemma shape_det [simp]:
  "shape (upd_node i (hn_detachedness_update g) L) = shape L"
  "shape (upd_node i (\<lambda>n. set_flag f (n\<lparr>hn_displayName := h n\<rparr>)) L) = shape L"
  by (simp_all add: shape_def upd_node_def map_update_same set_flag_def)

text \<open>The work list that a state goes to.\<close>

definition work :: "int \<Rightarrow> DOMState \<Rightarrow> nat list" where
  "work d ds = (if d = 1 then ds_attached ds else ds_detached ds)"

lemma processNode_effect:
  assumes "wf_loader L" "c < length (hl_nodes L)" "length (ds_visited ds) = length (hl_nodes L)" "d = 1 \<or> d = 2"
    and "processNode c d (ds, L) = (ds', L')"
  shows "shape L' = shape L" "length (ds_visited ds') = length (hl_nodes L)"
    "v < length (hl_nodes L) \<Longrightarrow> vis ds' v \<longleftrightarrow> vis ds v \<or> v = c"
    "v < length (hl_nodes L) \<Longrightarrow> det_at L' v = (if v = c \<and> \<not> vis ds c \<and> native L c then d else det_at L v)"
    "work d ds' = (if \<not> vis ds c \<and> native L c then hn_id (hl_nodes L ! c) # work d ds else work d ds)"
    "work (3 - d) ds' = work (3 - d) ds"
proof -
  have idx: "hn_nodeIndex (hl_nodes L ! c) = c" using wf_loader_simps(1) [OF assms(1,2)] .
  show "shape L' = shape L" "length (ds_visited ds') = length (hl_nodes L)"
    "work d ds' = (if \<not> vis ds c \<and> native L c then hn_id (hl_nodes L ! c) # work d ds else work d ds)"
    "work (3 - d) ds' = work (3 - d) ds"
    using assms(3-5) idx by (auto simp: processNode_def Let_def vis_def native_def work_def split: if_splits)
  assume v: "v < length (hl_nodes L)"
  show "vis ds' v \<longleftrightarrow> vis ds v \<or> v = c"
    using assms(2-5) idx v by (auto simp: processNode_def Let_def vis_def nth_list_update split: if_splits)
  show "det_at L' v = (if v = c \<and> \<not> vis ds c \<and> native L c then d else det_at L v)"
    using assms(2-5) idx v
    by (auto simp: processNode_def Let_def vis_def native_def det_at_def upd_node_def set_flag_def nth_list_update
        split: if_splits)
qed

section \<open>The children of a node\<close>

definition disp_at :: "HeapLoader \<Rightarrow> nat \<Rightarrow> jsstring" where
  "disp_at L v = hn_displayName (hl_nodes L ! v)"

lemma processNode_disp:
  assumes "wf_loader L" "c < length (hl_nodes L)" "d = 1 \<or> d = 2" "processNode c d (ds, L) = (ds', L')" "v < length (hl_nodes L)"
  shows "disp_at L' v = (if v = c \<and> \<not> vis ds c \<and> native L c \<and> d = 2 then js ''Detached '' @ hn_name (hl_nodes L ! v) else disp_at L v)"
  using assms wf_loader_simps(1) [OF assms(1,2)]
  by (auto simp: processNode_def Let_def vis_def native_def disp_at_def upd_node_def set_flag_def nth_list_update
      split: if_splits)

text \<open>
  What handing the state \<open>d\<close> to the nodes of \<open>K\<close> does: the unvisited native ones get it and join the
  work list in some order \<open>new\<close>.
\<close>

definition dom_spread :: "int \<Rightarrow> nat set \<Rightarrow> nat list \<Rightarrow> DOMState \<times> HeapLoader \<Rightarrow> DOMState \<times> HeapLoader \<Rightarrow> bool" where
  "dom_spread d K new s s' \<longleftrightarrow> (case (s, s') of ((ds, L), (ds', L')) \<Rightarrow>
     shape L' = shape L \<and> length (ds_visited ds') = length (ds_visited ds) \<and> distinct new
   \<and> set new = {v \<in> K. \<not> vis ds v \<and> native L v}
   \<and> (\<forall>v<length (hl_nodes L). vis ds' v \<longleftrightarrow> vis ds v \<or> v \<in> K)
   \<and> (\<forall>v<length (hl_nodes L). det_at L' v = (if v \<in> set new then d else det_at L v))
   \<and> (\<forall>v<length (hl_nodes L). disp_at L' v =
        (if v \<in> set new \<and> d = 2 then js ''Detached '' @ hn_name (hl_nodes L ! v) else disp_at L v))
   \<and> work d ds' = map (\<lambda>v. hn_id (hl_nodes L ! v)) new @ work d ds \<and> work (3 - d) ds' = work (3 - d) ds)"

lemma native_shape: "shape L' = shape L \<Longrightarrow> v < length (hl_nodes L) \<Longrightarrow> native L' v = native L v"
  using shape_nodes(8) [of L' L v] by (simp add: native_def)

lemma processNode_spread:
  assumes "wf_loader L" "c < length (hl_nodes L)" "length (ds_visited ds) = length (hl_nodes L)" "d = 1 \<or> d = 2"
    and "processNode c d (ds, L) = (ds', L')"
  shows "dom_spread d {c} (if \<not> vis ds c \<and> native L c then [c] else []) (ds, L) (ds', L')"
  using processNode_effect [OF assms] processNode_disp [OF assms(1,2,4,5)] assms(3)
  by (auto simp: dom_spread_def)

lemma dom_spread_trans:
  assumes "dom_spread d K1 new1 (ds, L) (ds1, L1)" "dom_spread d K2 new2 (ds1, L1) (ds2, L2)"
    and "K1 \<subseteq> {..<length (hl_nodes L)}" "K2 \<subseteq> {..<length (hl_nodes L)}"
  shows "dom_spread d (K1 \<union> K2) (new2 @ new1) (ds, L) (ds2, L2)"
proof -
  have sh: "shape L1 = shape L" using assms(1) by (simp add: dom_spread_def)
  note nd = shape_nodes [OF sh]
  have nat: "native L1 v = native L v" if "v < length (hl_nodes L)" for v using native_shape [OF sh that] .
  have v1: "vis ds1 v \<longleftrightarrow> vis ds v \<or> v \<in> K1" if "v < length (hl_nodes L)" for v
    using assms(1) that by (simp add: dom_spread_def)
  have n1: "set new1 = {v \<in> K1. \<not> vis ds v \<and> native L v}" using assms(1) by (simp add: dom_spread_def)
  have n2: "set new2 = {v \<in> K2. \<not> vis ds v \<and> v \<notin> K1 \<and> native L v}"
    using assms(2,4) nat v1 by (auto simp: dom_spread_def)
  have ids: "map (\<lambda>v. hn_id (hl_nodes L1 ! v)) new2 = map (\<lambda>v. hn_id (hl_nodes L ! v)) new2"
    using n2 assms(4) nd(6) by (intro map_cong) auto
  have names: "hn_name (hl_nodes L1 ! v) = hn_name (hl_nodes L ! v)" if "v < length (hl_nodes L)" for v
    using nd(9) [OF that] .
  show ?thesis
    unfolding dom_spread_def prod.case
  proof (intro conjI)
    show "distinct (new2 @ new1)" using assms(1,2) n1 n2 by (auto simp: dom_spread_def)
    show "set (new2 @ new1) = {v \<in> K1 \<union> K2. \<not> vis ds v \<and> native L v}" using n1 n2 by auto
    show "\<forall>v<length (hl_nodes L). vis ds2 v \<longleftrightarrow> vis ds v \<or> v \<in> K1 \<union> K2"
      using assms(2) v1 nd(1) by (auto simp: dom_spread_def)
    show "\<forall>v<length (hl_nodes L). det_at L2 v = (if v \<in> set (new2 @ new1) then d else det_at L v)"
      using assms(1,2) nd(1) by (auto simp: dom_spread_def)
    show "\<forall>v<length (hl_nodes L). disp_at L2 v =
        (if v \<in> set (new2 @ new1) \<and> d = 2 then js ''Detached '' @ hn_name (hl_nodes L ! v) else disp_at L v)"
      using assms(1,2) nd(1) names by (auto simp: dom_spread_def)
    show "work d ds2 = map (\<lambda>v. hn_id (hl_nodes L ! v)) (new2 @ new1) @ work d ds"
      using assms(1,2) ids by (simp add: dom_spread_def)
  qed (use assms(1,2) in \<open>simp_all add: dom_spread_def\<close>)
qed

lemma dom_spread_none: "dom_spread d {} [] (ds, L) (ds, L)"
  by (simp add: dom_spread_def)

lemma iterate_spread:
  assumes "wf_loader L" "u < length (hl_nodes L)" "length (ds_visited ds) = length (hl_nodes L)" "d = 1 \<or> d = 2"
    and "iterateFilteredChildren u d (ds, L) = (ds', L')"
  shows "\<exists>new. dom_spread d (succ_of L dom_edge u) new (ds, L) (ds', L')"
proof -
  let ?f = "\<lambda>e s. if \<not> dom_edge e then s
             else (case hl_nodeMap (snd s) (he_toNodeId e) of None \<Rightarrow> s | Some c \<Rightarrow> processNode c d s)"
  have "\<exists>new. dom_spread d {c. \<exists>e\<in>set es. dom_edge e \<and> hl_nodeMap L (he_toNodeId e) = Some c} new (ds, L) (fold ?f es (ds, L))"
    if "length (ds_visited ds) = length (hl_nodes L)" "wf_loader L" for es ds L
    using that
  proof (induction es arbitrary: ds L)
    case Nil
    then show ?case using dom_spread_none [of d ds L] by auto
  next
    case (Cons e es)
    let ?K = "{c. \<exists>e\<in>set es. dom_edge e \<and> hl_nodeMap L (he_toNodeId e) = Some c}"
    have K: "?K \<subseteq> {..<length (hl_nodes L)}" using wf_map_in_range [OF Cons.prems(2)] by (auto simp: map_in_range_def)
    show ?case
    proof (cases "dom_edge e \<and> hl_nodeMap L (he_toNodeId e) \<noteq> None")
      case False
      then have "?f e (ds, L) = (ds, L)" by auto
      moreover have "{c. \<exists>e\<in>set (e # es). dom_edge e \<and> hl_nodeMap L (he_toNodeId e) = Some c} = ?K" using False by auto
      ultimately show ?thesis using Cons by simp
    next
      case True
      then obtain c where c: "dom_edge e" "hl_nodeMap L (he_toNodeId e) = Some c" by auto
      have cn: "c < length (hl_nodes L)" using c wf_map_in_range [OF Cons.prems(2)] by (simp add: map_in_range_def)
      obtain ds1 L1 where s1: "processNode c d (ds, L) = (ds1, L1)" by (cases "processNode c d (ds, L)")
      note sp1 = processNode_spread [OF Cons.prems(2) cn Cons.prems(1) assms(4) s1]
      have sh: "shape L1 = shape L" using sp1 by (simp add: dom_spread_def)
      have "length (ds_visited ds1) = length (hl_nodes L1)" "wf_loader L1"
        using sp1 Cons.prems shape_nodes(1) [OF sh] wf_loader_shape [OF sh] by (simp_all add: dom_spread_def)
      then obtain new where "dom_spread d ?K new (ds1, L1) (fold ?f es (ds1, L1))"
        using Cons.IH [of ds1 L1] shape_nodes(2) [OF sh] by auto
      from dom_spread_trans [OF sp1, of ?K new "fst (fold ?f es (ds1, L1))" "snd (fold ?f es (ds1, L1))"] this cn K
      have "dom_spread d ({c} \<union> ?K) (new @ (if \<not> vis ds c \<and> native L c then [c] else [])) (ds, L) (fold ?f es (ds1, L1))"
        by simp
      moreover have "{x. \<exists>e'\<in>set (e # es). dom_edge e' \<and> hl_nodeMap L (he_toNodeId e') = Some x} = {c} \<union> ?K" using c by auto
      ultimately show ?thesis using c s1 by auto
    qed
  qed
  from this [OF assms(3,1), of "hn_edges (hl_nodes L ! u)"] show ?thesis
    using assms(2,5) by (simp add: iterateFilteredChildren_def succ_of_def set_kids)
qed

section \<open>The work lists\<close>

text \<open>Both loops are one loop over the work list of their state.\<close>

definition set_work :: "int \<Rightarrow> nat list \<Rightarrow> DOMState \<Rightarrow> DOMState" where
  "set_work d xs ds = (if d = 1 then ds\<lparr>ds_attached := xs\<rparr> else ds\<lparr>ds_detached := xs\<rparr>)"

fun dom_loop :: "int \<Rightarrow> nat \<Rightarrow> DOMState \<times> HeapLoader \<Rightarrow> (DOMState \<times> HeapLoader) option" where
  "dom_loop d 0 s = None"
| "dom_loop d (Suc fuel) (ds, L) =
     (case work d ds of
        [] \<Rightarrow> Some (ds, L)
      | nodeId # rest \<Rightarrow>
          (let ds1 = set_work d rest ds in
           case hl_nodeMap L nodeId of
             None \<Rightarrow> dom_loop d fuel (ds1, L)
           | Some u \<Rightarrow> dom_loop d fuel (if d = 1 \<or> det_at L u \<noteq> 1 then iterateFilteredChildren u d (ds1, L) else (ds1, L))))"

lemma attached_loop_eq: "attached_loop fuel s = dom_loop 1 fuel s"
  by (induction fuel arbitrary: s) (auto simp: work_def set_work_def Let_def split: prod.splits list.splits option.splits)

lemma detached_loop_eq: "detached_loop fuel s = dom_loop 2 fuel s"
  by (induction fuel arbitrary: s)
    (auto simp: work_def set_work_def det_at_def Let_def split: prod.splits list.splits option.splits)

lemma set_work_simps [simp]:
  "work d (set_work d xs ds) = xs" "d = 1 \<or> d = 2 \<Longrightarrow> work (3 - d) (set_work d xs ds) = work (3 - d) ds"
  "vis (set_work d xs ds) v = vis ds v" "ds_visited (set_work d xs ds) = ds_visited ds"
  by (auto simp: work_def set_work_def vis_def)

definition unvisited :: "DOMState \<Rightarrow> HeapLoader \<Rightarrow> nat set" where
  "unvisited ds L = {v. v < length (hl_nodes L) \<and> \<not> vis ds v}"

text \<open>The nodes a state may still pass to, given the nodes \<open>V\<close> that are settled beforehand.\<close>

definition dom_succ :: "HeapLoader \<Rightarrow> nat set \<Rightarrow> nat \<Rightarrow> nat set" where
  "dom_succ L V u = {c \<in> succ_of L dom_edge u. native L c \<and> c \<notin> V}"

definition settled :: "DOMState \<Rightarrow> HeapLoader \<Rightarrow> nat set \<Rightarrow> nat set" where
  "settled ds L V = {v. v < length (hl_nodes L) \<and> native L v \<and> vis ds v \<and> v \<notin> V}"

lemma succ_of_range: "wf_loader L \<Longrightarrow> succ_of L P u \<subseteq> {..<length (hl_nodes L)}"
  using kids_in_range [OF wf_map_in_range] by (auto simp: succ_of_def)

lemma dom_succ_shape:
  assumes "shape L1 = shape L" "wf_loader L"
  shows "dom_succ L1 V = dom_succ L V"
proof
  fix u
  have "native L1 c = native L c" if "c \<in> succ_of L dom_edge u" for c
    using that succ_of_range [OF assms(2), of dom_edge u] native_shape [OF assms(1)] by auto
  then show "dom_succ L1 V u = dom_succ L V u" using succ_of_shape [OF assms(1)] by (auto simp: dom_succ_def)
qed

lemma spread_settled:
  assumes "wf_loader L" "dom_spread d (succ_of L dom_edge u) new (ds, L) (ds1, L1)"
    and V: "\<And>v. v \<in> V \<Longrightarrow> vis ds v"
  shows "settled ds1 L1 V = settled ds L V \<union> dom_succ L V u" "set new = dom_succ L V u - settled ds L V"
    "length new + card (unvisited ds1 L1) \<le> card (unvisited ds L)" "set new \<subseteq> {..<length (hl_nodes L)}"
proof -
  have sh: "shape L1 = shape L" using assms(2) by (simp add: dom_spread_def)
  note rng = succ_of_range [OF assms(1), of dom_edge u]
  have len: "length (hl_nodes L1) = length (hl_nodes L)" using shape_nodes(1) [OF sh] .
  have v1: "vis ds1 v \<longleftrightarrow> vis ds v \<or> v \<in> succ_of L dom_edge u" if "v < length (hl_nodes L)" for v
    using assms(2) that by (simp add: dom_spread_def)
  have new: "set new = {v \<in> succ_of L dom_edge u. \<not> vis ds v \<and> native L v}" "distinct new"
    using assms(2) by (simp_all add: dom_spread_def)
  show "settled ds1 L1 V = settled ds L V \<union> dom_succ L V u"
    using len v1 rng native_shape [OF sh] by (auto simp: settled_def dom_succ_def)
  show "set new = dom_succ L V u - settled ds L V"
    using new(1) rng V by (auto simp: settled_def dom_succ_def)
  show nr: "set new \<subseteq> {..<length (hl_nodes L)}" using new(1) rng by auto
  have "set new \<inter> unvisited ds1 L1 = {}" "set new \<union> unvisited ds1 L1 \<subseteq> unvisited ds L"
    using new(1) len v1 nr by (auto simp: unvisited_def)
  then have "card (set new) + card (unvisited ds1 L1) \<le> card (unvisited ds L)"
    by (subst card_Un_disjoint [symmetric]) (auto intro!: card_mono simp: unvisited_def)
  then show "length new + card (unvisited ds1 L1) \<le> card (unvisited ds L)" using distinct_card [OF new(2)] by simp
qed

text \<open>What a loop leaves: the nodes settled meanwhile have the state, all others are as before.\<close>

definition dom_post :: "int \<Rightarrow> nat set \<Rightarrow> nat set \<Rightarrow> DOMState \<times> HeapLoader \<Rightarrow> DOMState \<times> HeapLoader \<Rightarrow> bool" where
  "dom_post d V S s s' \<longleftrightarrow> (case (s, s') of ((ds, L), (ds', L')) \<Rightarrow>
     shape L' = shape L \<and> length (ds_visited ds') = length (ds_visited ds) \<and> work (3 - d) ds' = work (3 - d) ds
   \<and> push_post (dom_succ L V) (settled ds L V) S (settled ds' L' V)
   \<and> (\<forall>v<length (hl_nodes L). vis ds v \<longrightarrow> vis ds' v)
   \<and> (\<forall>v<length (hl_nodes L). det_at L' v = (if v \<in> settled ds' L' V - settled ds L V then d else det_at L v))
   \<and> (\<forall>v<length (hl_nodes L). disp_at L' v =
        (if v \<in> settled ds' L' V - settled ds L V \<and> d = 2 then js ''Detached '' @ hn_name (hl_nodes L ! v) else disp_at L v)))"

lemma dom_post_expand:
  assumes "wf_loader L" "\<And>v. v \<in> V \<Longrightarrow> vis ds v" "d = 1 \<or> d = 2"
    and sp: "dom_spread d (succ_of L dom_edge u) new (set_work d rest ds, L) (ds1, L1)"
    and post: "dom_post d V (set new \<union> set st) (ds1, L1) (ds', L')"
  shows "dom_post d V (insert u (set st)) (ds, L) (ds', L')"
proof -
  have sh: "shape L1 = shape L" using sp by (simp add: dom_spread_def)
  note nd = shape_nodes [OF sh]
  have s0: "settled (set_work d rest ds) L V = settled ds L V" by (simp add: settled_def)
  note ss = spread_settled [OF assms(1) sp, of V, unfolded set_work_simps s0, OF assms(2)]
  have pp: "push_post (dom_succ L V) (settled ds L V \<union> dom_succ L V u) (set new \<union> set st) (settled ds' L' V)"
    using post ss(1) dom_succ_shape [OF sh assms(1)] by (simp add: dom_post_def)
  then have mono: "settled ds L V \<union> set new \<subseteq> settled ds' L' V" using ss(2) by (auto simp: push_post_def)
  have split: "settled ds' L' V - settled ds L V = (settled ds' L' V - settled ds1 L1 V) \<union> set new"
    "set new \<inter> (settled ds' L' V - settled ds1 L1 V) = {}"
    using ss(1,2) mono by blast+
  have A: "det_at L1 v = (if v \<in> set new then d else det_at L v)" "vis ds v \<Longrightarrow> vis ds1 v"
    "disp_at L1 v = (if v \<in> set new \<and> d = 2 then js ''Detached '' @ hn_name (hl_nodes L ! v) else disp_at L v)"
    if "v < length (hl_nodes L)" for v
    using sp that by (simp_all add: dom_spread_def)
  have B: "det_at L' v = (if v \<in> settled ds' L' V - settled ds1 L1 V then d else det_at L1 v)" "vis ds1 v \<Longrightarrow> vis ds' v"
    "disp_at L' v = (if v \<in> settled ds' L' V - settled ds1 L1 V \<and> d = 2
       then js ''Detached '' @ hn_name (hl_nodes L ! v) else disp_at L1 v)"
    if "v < length (hl_nodes L)" for v
    using post that nd(1) nd(9) [OF that] by (simp_all add: dom_post_def)
  show ?thesis
    unfolding dom_post_def prod.case split(1)
  proof (intro conjI allI impI)
    show "push_post (dom_succ L V) (settled ds L V) (insert u (set st)) (settled ds' L' V)"
      by (rule push_post_expand [OF pp]) (use ss(2) in auto)
    show "shape L' = shape L" using post sh by (simp add: dom_post_def)
    show "work (3 - d) ds' = work (3 - d) ds" "length (ds_visited ds') = length (ds_visited ds)"
      using post sp assms(3) by (simp_all add: dom_post_def dom_spread_def)
    fix v assume v: "v < length (hl_nodes L)"
    show "det_at L' v = (if v \<in> settled ds' L' V - settled ds1 L1 V \<union> set new then d else det_at L v)"
      using A(1) [OF v] B(1) [OF v] by simp
    show "disp_at L' v = (if v \<in> settled ds' L' V - settled ds1 L1 V \<union> set new \<and> d = 2
        then js ''Detached '' @ hn_name (hl_nodes L ! v) else disp_at L v)"
      using A(3) [OF v] B(3) [OF v] by auto
    show "vis ds' v" if "vis ds v" using A(2) [OF v that] B(2) [OF v] by simp
  qed
qed

lemma dom_loop_correct:
  assumes "wf_loader L" "d = 1 \<or> d = 2" "length (ds_visited ds) = length (hl_nodes L)"
    and "work d ds = map (\<lambda>v. hn_id (hl_nodes L ! v)) st" "set st \<subseteq> {..<length (hl_nodes L)}"
    and "V \<subseteq> {..<length (hl_nodes L)}" "\<And>v. v \<in> V \<Longrightarrow> vis ds v" "\<And>v. v \<in> set st \<Longrightarrow> d = 1 \<or> det_at L v \<noteq> 1"
    and "length st + card (unvisited ds L) < fuel"
  shows "\<exists>s'. dom_loop d fuel (ds, L) = Some s' \<and> dom_post d V (set st) (ds, L) s'"
  using assms
proof (induction fuel arbitrary: ds L st)
  case 0
  then show ?case by simp
next
  case (Suc fuel)
  show ?case
  proof (cases st)
    case Nil
    then show ?thesis using Suc.prems(4) by (auto simp: dom_post_def push_post_Nil)
  next
    case (Cons u st')
    let ?ds = "set_work d (map (\<lambda>v. hn_id (hl_nodes L ! v)) st') ds"
    have u: "u < length (hl_nodes L)" "set st' \<subseteq> {..<length (hl_nodes L)}" using Suc.prems(5) Cons by auto
    obtain ds1 L1 where s1: "iterateFilteredChildren u d (?ds, L) = (ds1, L1)"
      by (cases "iterateFilteredChildren u d (?ds, L)")
    have lds: "length (ds_visited ?ds) = length (hl_nodes L)" using Suc.prems(3) by simp
    obtain new where sp: "dom_spread d (succ_of L dom_edge u) new (?ds, L) (ds1, L1)"
      using iterate_spread [OF Suc.prems(1) u(1) lds Suc.prems(2) s1] by blast
    have run: "dom_loop d (Suc fuel) (ds, L) = dom_loop d fuel (ds1, L1)"
      using Suc.prems(4,8) Cons s1 wf_loader_simps(9) [OF Suc.prems(1) u(1)] by auto
    have sh: "shape L1 = shape L" using sp by (simp add: dom_spread_def)
    note nd = shape_nodes [OF sh]
    note ss = spread_settled [OF Suc.prems(1) sp, of V, unfolded set_work_simps, OF Suc.prems(7)]
    have ids: "map (\<lambda>v. hn_id (hl_nodes L ! v)) (new @ st') = map (\<lambda>v. hn_id (hl_nodes L1 ! v)) (new @ st')"
      using u(2) ss(4) nd(6) by (intro map_cong) auto
    have fuel: "length (new @ st') + card (unvisited ds1 L1) < fuel"
      using ss(3) Suc.prems(9) Cons by (simp add: unvisited_def)
    have det: "d = 1 \<or> det_at L1 v \<noteq> 1" if "v \<in> set (new @ st')" for v
    proof -
      have "v < length (hl_nodes L)" "v \<in> set st \<or> v \<in> set new" using that Cons u(2) ss(4) by auto
      moreover have "det_at L1 v = (if v \<in> set new then d else det_at L v)"
        using sp calculation(1) by (simp add: dom_spread_def)
      ultimately show ?thesis using Suc.prems(2) Suc.prems(8) [of v] by (auto split: if_splits)
    qed
    have "vis ds1 v" if "v \<in> V" for v
      using sp Suc.prems(6,7) that by (auto simp: dom_spread_def)
    moreover have "wf_loader L1" "length (ds_visited ds1) = length (hl_nodes L1)"
      "work d ds1 = map (\<lambda>v. hn_id (hl_nodes L1 ! v)) (new @ st')"
      using sp Suc.prems(1,3) wf_loader_shape [OF sh] nd(1) ids by (simp_all add: dom_spread_def)
    ultimately obtain s' where s': "dom_loop d fuel (ds1, L1) = Some s'" "dom_post d V (set (new @ st')) (ds1, L1) s'"
      using Suc.IH [of L1 ds1 "new @ st'"] Suc.prems(2,6) ss(4) u(2) nd(1) det fuel by auto
    have "dom_post d V (insert u (set st')) (ds, L) s'"
      using dom_post_expand [where st = st' and ds' = "fst s'" and L' = "snd s'", OF Suc.prems(1,7,2) sp] s'(2) by simp
    then show ?thesis using run s'(1) Cons by simp
  qed
qed


section \<open>The whole pass\<close>

text \<open>The native nodes that start with a state.\<close>

definition dom_known :: "HeapLoader \<Rightarrow> int \<Rightarrow> nat set" where
  "dom_known L d = {v. v < length (hl_nodes L) \<and> native L v \<and> det_at L v = d}"

text \<open>The states are those of the enumeration \<open>DetachedNessState\<close>.\<close>

definition det_ok :: "HeapLoader \<Rightarrow> bool" where
  "det_ok L \<longleftrightarrow> (\<forall>v<length (hl_nodes L). det_at L v \<in> {0, 1, 2})"

text \<open>
  A state spreads from native node to native node over visible edges. The attached state stops at
  nodes known to be detached, the detached state stops at every attached node.
\<close>

definition dom_attached :: "HeapLoader \<Rightarrow> nat set" where
  "dom_attached L = reach (dom_succ L (dom_known L 2)) (dom_known L 1)"

definition dom_detached :: "HeapLoader \<Rightarrow> nat set" where
  "dom_detached L = reach (dom_succ L (dom_attached L)) (dom_known L 2)"

definition seeded :: "HeapLoader \<Rightarrow> nat \<Rightarrow> DOMState \<times> HeapLoader \<Rightarrow> bool" where
  "seeded L k s \<longleftrightarrow> (case s of (ds, L1) \<Rightarrow>
     shape L1 = shape L \<and> length (ds_visited ds) = length (hl_nodes L)
   \<and> (\<forall>v<length (hl_nodes L). vis ds v \<longleftrightarrow> v < k \<and> det_at L v \<noteq> 0)
   \<and> (\<forall>v<length (hl_nodes L). det_at L1 v = det_at L v)
   \<and> (\<forall>v<length (hl_nodes L). disp_at L1 v = (if v < k \<and> v \<in> dom_known L 2 then js ''Detached '' @ hn_name (hl_nodes L ! v) else disp_at L v))
   \<and> (\<forall>d\<in>{1, 2}. work d ds = map (\<lambda>v. hn_id (hl_nodes L ! v)) (rev (filter (\<lambda>v. v \<in> dom_known L d) [0..<k]))))"

lemma seeded_step:
  assumes "wf_loader L" "det_at L k \<in> {0, 1, 2}" "k < length (hl_nodes L)" "seeded L k (ds, L1)"
  shows "seeded L (Suc k) (known_nodes k (ds, L1))"
proof (cases "det_at L k = 0")
  case True
  then have "known_nodes k (ds, L1) = (ds, L1)"
    using assms(3,4) by (simp add: known_nodes_def seeded_def det_at_def)
  then show ?thesis using assms(4) True by (auto simp: seeded_def less_Suc_eq dom_known_def)
next
  case False
  let ?d = "det_at L k"
  have d: "?d = 1 \<or> ?d = 2" using assms(2) False by auto
  have sh: "shape L1 = shape L" and dk: "det_at L1 k = ?d" using assms(3,4) by (simp_all add: seeded_def)
  note nd = shape_nodes [OF sh]
  have wf1: "wf_loader L1" using wf_loader_shape [OF sh] assms(1) by simp
  obtain ds' L' where p: "processNode k ?d (ds, L1) = (ds', L')" by (cases "processNode k ?d (ds, L1)")
  then have kn: "known_nodes k (ds, L1) = (ds', L')" using False dk by (simp add: known_nodes_def det_at_def)
  have k1: "k < length (hl_nodes L1)" "length (ds_visited ds) = length (hl_nodes L1)"
    using assms(3,4) nd(1) by (simp_all add: seeded_def)
  note ef = processNode_effect [OF wf1 k1 d p] and di = processNode_disp [OF wf1 k1(1) d p]
  have nv: "\<not> vis ds k" "native L1 k = native L k" "k \<in> dom_known L e \<longleftrightarrow> native L k \<and> ?d = e" for e
    using assms(3,4) native_shape [OF sh assms(3)] by (simp_all add: seeded_def dom_known_def)
  have old: "vis ds v \<longleftrightarrow> v < k \<and> det_at L v \<noteq> 0" "det_at L1 v = det_at L v"
    "disp_at L1 v = (if v < k \<and> v \<in> dom_known L 2 then js ''Detached '' @ hn_name (hl_nodes L ! v) else disp_at L v)"
    "hn_name (hl_nodes L1 ! v) = hn_name (hl_nodes L ! v)"
    if "v < length (hl_nodes L)" for v
    using assms(4) that nd(9) [OF that] by (simp_all add: seeded_def)
  have wk: "work e ds = map (\<lambda>v. hn_id (hl_nodes L ! v)) (rev (filter (\<lambda>v. v \<in> dom_known L e) [0..<k]))" if "e = 1 \<or> e = 2" for e
    using assms(4) that by (auto simp: seeded_def)
  show ?thesis
    unfolding kn seeded_def prod.case
  proof (intro conjI allI impI ballI)
    show "shape L' = shape L" "length (ds_visited ds') = length (hl_nodes L)" using ef(1,2) sh nd(1) by simp_all
    fix v assume v: "v < length (hl_nodes L)"
    show "vis ds' v \<longleftrightarrow> v < Suc k \<and> det_at L v \<noteq> 0"
      using ef(3) [of v] v nd(1) old(1) [OF v] False by (auto simp: less_Suc_eq)
    show "det_at L' v = det_at L v" using ef(4) [of v] v nd(1) old(2) [OF v] by auto
    show "disp_at L' v = (if v < Suc k \<and> v \<in> dom_known L 2 then js ''Detached '' @ hn_name (hl_nodes L ! v) else disp_at L v)"
      using di [of v] v nd(1) old(3,4) [OF v] nv by (auto simp: less_Suc_eq)
  next
    fix e :: int assume "e \<in> {1, 2}"
    then have e: "e = ?d \<or> (e = 3 - ?d \<and> e \<noteq> ?d)" "e = 1 \<or> e = 2" using d by auto
    have w: "work e ds' = (if e = ?d \<and> native L k then hn_id (hl_nodes L ! k) # work e ds else work e ds)"
      using e(1)
    proof
      assume eq: "e = ?d"
      show ?thesis unfolding eq using ef(5) nv nd(6) [OF assms(3)] by simp
    next
      assume eq: "e = 3 - ?d \<and> e \<noteq> ?d"
      then show ?thesis using ef(6) by simp
    qed
    show "work e ds' = map (\<lambda>v. hn_id (hl_nodes L ! v)) (rev (filter (\<lambda>v. v \<in> dom_known L e) [0..<Suc k]))"
    proof -
      have "k \<in> dom_known L e \<longleftrightarrow> e = ?d \<and> native L k" using nv(3) [of e] by auto
      then show ?thesis using wk [OF e(2)] w by (cases "e = ?d \<and> native L k") simp_all
    qed
  qed
qed

lemma seeded_all:
  assumes "wf_loader L" "det_ok L" "k \<le> length (hl_nodes L)"
  shows "seeded L k (fold known_nodes [0..<k] (newDOMState (hl_nodeCount L), L))"
  using assms(3)
proof (induction k)
  case 0
  then show ?case using wf_loader_simps(6) [OF assms(1)]
    by (simp add: seeded_def newDOMState_def vis_def work_def)
next
  case (Suc k)
  then show ?case
    using assms(2) seeded_step [OF assms(1), of k "fst (fold known_nodes [0..<k] (newDOMState (hl_nodeCount L), L))"
        "snd (fold known_nodes [0..<k] (newDOMState (hl_nodeCount L), L))"] by (simp add: det_ok_def)
qed


lemma seeded_props:
  assumes "wf_loader L" "seeded L (length (hl_nodes L)) (ds, L1)"
  shows "shape L1 = shape L" "wf_loader L1" "length (ds_visited ds) = length (hl_nodes L)"
    "v < length (hl_nodes L) \<Longrightarrow> vis ds v \<longleftrightarrow> det_at L v \<noteq> 0"
    "v < length (hl_nodes L) \<Longrightarrow> det_at L1 v = det_at L v"
    "v < length (hl_nodes L) \<Longrightarrow> disp_at L1 v = (if v \<in> dom_known L 2 then js ''Detached '' @ hn_name (hl_nodes L ! v) else disp_at L v)"
    "d = 1 \<or> d = 2 \<Longrightarrow> work d ds = map (\<lambda>v. hn_id (hl_nodes L ! v)) (rev (filter (\<lambda>v. v \<in> dom_known L d) [0..<length (hl_nodes L)]))"
    "v < length (hl_nodes L) \<Longrightarrow> native L1 v = native L v"
proof -
  show sh: "shape L1 = shape L" using assms(2) by (simp add: seeded_def)
  show "wf_loader L1" using wf_loader_shape [OF sh] assms(1) by simp
  show "v < length (hl_nodes L) \<Longrightarrow> native L1 v = native L v" using native_shape [OF sh] .
qed (use assms(2) in \<open>auto simp: seeded_def\<close>)

definition seed_list :: "HeapLoader \<Rightarrow> int \<Rightarrow> nat list" where
  "seed_list L d = rev (filter (\<lambda>v. v \<in> dom_known L d) [0..<length (hl_nodes L)])"

lemma seed_list: "set (seed_list L d) = dom_known L d" "distinct (seed_list L d)"
  by (auto simp: seed_list_def dom_known_def)

text \<open>The work list of a state and the unvisited nodes together fit the fuel.\<close>

lemma seed_fuel:
  assumes "\<And>v. v \<in> dom_known L d \<Longrightarrow> vis ds v" "length (hl_nodes L1) = length (hl_nodes L)"
  shows "length (seed_list L d) + card (unvisited ds L1) < length (hl_nodes L) + 1"
proof -
  have "set (seed_list L d) \<inter> unvisited ds L1 = {}" "set (seed_list L d) \<union> unvisited ds L1 \<subseteq> {..<length (hl_nodes L)}"
    using assms seed_list(1) [of L d] by (auto simp: unvisited_def dom_known_def)
  then have "card (set (seed_list L d)) + card (unvisited ds L1) \<le> card {..<length (hl_nodes L)}"
    by (subst card_Un_disjoint [symmetric]) (auto intro: card_mono [OF finite_lessThan, THEN order_trans] simp: unvisited_def)
  then show ?thesis using distinct_card [OF seed_list(2), of L d] by simp
qed

lemma attached_phase:
  assumes "wf_loader L" "seeded L (length (hl_nodes L)) (ds1, L1)"
  shows "\<exists>s2. dom_loop 1 (length (hl_nodes L) + 1) (ds1, L1) = Some s2 \<and> dom_post 1 (dom_known L 2) (dom_known L 1) (ds1, L1) s2"
proof -
  note sp = seeded_props [OF assms]
  note nd = shape_nodes [OF sp(1)]
  have kn: "dom_known L d \<subseteq> {..<length (hl_nodes L)}" for d by (auto simp: dom_known_def)
  have vis: "vis ds1 v" if "v \<in> dom_known L d" "d \<noteq> 0" for v d using that sp(4) by (auto simp: dom_known_def)
  have wk: "work 1 ds1 = map (\<lambda>v. hn_id (hl_nodes L1 ! v)) (seed_list L 1)"
    using sp(7) [of 1] kn [of 1] seed_list(1) [of L 1] nd(6) by (auto simp: seed_list_def intro!: map_cong)
  show ?thesis
    using dom_loop_correct [OF sp(2), of 1 ds1 "seed_list L 1" "dom_known L 2" "length (hl_nodes L) + 1"]
      sp(3) nd(1) wk kn vis seed_fuel [of L 1 ds1 L1] seed_list(1) by simp
qed

lemma settled_seeded:
  assumes "wf_loader L" "det_ok L" "seeded L (length (hl_nodes L)) (ds1, L1)"
  shows "settled ds1 L1 (dom_known L 2) = dom_known L 1"
  using seeded_props [OF assms(1,3)] assms(2) shape_nodes(1) [OF seeded_props(1) [OF assms(1,3)]]
  by (fastforce simp: settled_def dom_known_def det_ok_def)

lemma attached_result:
  assumes "wf_loader L" "det_ok L" "seeded L (length (hl_nodes L)) (ds1, L1)"
    and post: "dom_post 1 (dom_known L 2) (dom_known L 1) (ds1, L1) (ds2, L2)"
  shows "settled ds2 L2 (dom_known L 2) = dom_attached L" "shape L2 = shape L" "length (ds_visited ds2) = length (hl_nodes L)"
    "v < length (hl_nodes L) \<Longrightarrow> det_at L2 v = (if v \<in> dom_attached L then 1 else det_at L v)"
    "v < length (hl_nodes L) \<Longrightarrow> disp_at L2 v = (if v \<in> dom_known L 2 then js ''Detached '' @ hn_name (hl_nodes L ! v) else disp_at L v)"
    "work 2 ds2 = map (\<lambda>v. hn_id (hl_nodes L ! v)) (seed_list L 2)"
    "v \<in> dom_known L 2 \<Longrightarrow> vis ds2 v"
proof -
  note sp = seeded_props [OF assms(1,3)] and st = settled_seeded [OF assms(1-3)]
  note nd = shape_nodes [OF sp(1)]
  have p: "push_post (dom_succ L (dom_known L 2)) (dom_known L 1) (dom_known L 1) (settled ds2 L2 (dom_known L 2))"
    using post st dom_succ_shape [OF sp(1) assms(1)] by (simp add: dom_post_def)
  then show s2: "settled ds2 L2 (dom_known L 2) = dom_attached L" using push_post_reach by (simp add: dom_attached_def)
  show "shape L2 = shape L" "length (ds_visited ds2) = length (hl_nodes L)" "work 2 ds2 = map (\<lambda>v. hn_id (hl_nodes L ! v)) (seed_list L 2)"
    using post sp(1,3) sp(7) [of 2] by (simp_all add: dom_post_def seed_list_def)
  show "det_at L2 v = (if v \<in> dom_attached L then 1 else det_at L v)" if "v < length (hl_nodes L)"
    using post sp(5) that s2 st nd(1) by (auto simp: dom_post_def dom_known_def)
  show "disp_at L2 v = (if v \<in> dom_known L 2 then js ''Detached '' @ hn_name (hl_nodes L ! v) else disp_at L v)"
    if "v < length (hl_nodes L)"
    using post sp(6) that nd(1) by (simp add: dom_post_def)
  show "vis ds2 v" if "v \<in> dom_known L 2" using post sp(4) that nd(1) by (auto simp: dom_post_def dom_known_def)
qed

lemma dom_attached_native:
  assumes "wf_loader L"
  shows "dom_attached L \<subseteq> {v. v < length (hl_nodes L) \<and> native L v \<and> v \<notin> dom_known L 2}"
  unfolding dom_attached_def
  by (rule reach_least) (use succ_of_range [OF assms, of dom_edge] in \<open>auto simp: dom_known_def dom_succ_def\<close>)

lemma settled_attached:
  assumes "wf_loader L" "shape L2 = shape L" "settled ds2 L2 (dom_known L 2) = dom_attached L" "\<And>v. v \<in> dom_known L 2 \<Longrightarrow> vis ds2 v"
  shows "settled ds2 L2 (dom_attached L) = dom_known L 2" "v \<in> dom_attached L \<Longrightarrow> vis ds2 v"
proof -
  have v: "v \<in> dom_attached L \<longleftrightarrow> v < length (hl_nodes L) \<and> native L v \<and> vis ds2 v \<and> v \<notin> dom_known L 2" for v
    using native_shape [OF assms(2)] shape_nodes(1) [OF assms(2)] by (auto simp: settled_def simp flip: assms(3))
  then show "v \<in> dom_attached L \<Longrightarrow> vis ds2 v" by simp
  show "settled ds2 L2 (dom_attached L) = dom_known L 2"
    using native_shape [OF assms(2)] shape_nodes(1) [OF assms(2)] assms(4) v
    by (auto simp: settled_def) (auto simp: dom_known_def)
qed

lemma detached_phase:
  assumes "wf_loader L" "det_ok L" "seeded L (length (hl_nodes L)) (ds1, L1)"
    and post: "dom_post 1 (dom_known L 2) (dom_known L 1) (ds1, L1) (ds2, L2)"
  shows "\<exists>s3. dom_loop 2 (length (hl_nodes L) + 1) (ds2, L2) = Some s3 \<and> dom_post 2 (dom_attached L) (dom_known L 2) (ds2, L2) s3"
proof -
  note A = attached_result [OF assms] and sub = dom_attached_native [OF assms(1)]
  note sa = settled_attached [OF assms(1) A(2,1,7)]
  note nd = shape_nodes [OF A(2)]
  have wf2: "wf_loader L2" using wf_loader_shape [OF A(2)] assms(1) by simp
  have kn: "dom_known L 2 \<subseteq> {..<length (hl_nodes L)}" by (auto simp: dom_known_def)
  have wk: "work 2 ds2 = map (\<lambda>v. hn_id (hl_nodes L2 ! v)) (seed_list L 2)"
    using A(6) kn seed_list(1) [of L 2] nd(6) by (auto intro!: map_cong)
  have det: "det_at L2 v \<noteq> 1" if "v \<in> dom_known L 2" for v
    using A(4) [of v] that sub by (auto simp: dom_known_def)
  have "dom_attached L \<subseteq> {..<length (hl_nodes L2)}" using sub nd(1) by auto
  then show ?thesis
    using dom_loop_correct [OF wf2, of 2 ds2 "seed_list L 2" "dom_attached L" "length (hl_nodes L) + 1"]
      A(3,7) nd(1) wk kn sa(2) det seed_fuel [of L 2 ds2 L2] seed_list(1) by simp
qed

lemma detached_result:
  assumes "wf_loader L" "det_ok L" "seeded L (length (hl_nodes L)) (ds1, L1)"
    and post1: "dom_post 1 (dom_known L 2) (dom_known L 1) (ds1, L1) (ds2, L2)"
    and post: "dom_post 2 (dom_attached L) (dom_known L 2) (ds2, L2) (ds3, L3)"
  shows "shape L3 = shape L
    \<and> (\<forall>v<length (hl_nodes L). det_at L3 v =
         (if v \<in> dom_attached L then 1 else if v \<in> dom_detached L then 2 else det_at L v))
    \<and> (\<forall>v<length (hl_nodes L). disp_at L3 v =
         (if v \<in> dom_detached L then js ''Detached '' @ hn_name (hl_nodes L ! v) else disp_at L v))"
proof -
  note A = attached_result [OF assms(1-4)]
  note sa = settled_attached [OF assms(1) A(2,1,7)]
  note nd = shape_nodes [OF A(2)]
  have "push_post (dom_succ L (dom_attached L)) (dom_known L 2) (dom_known L 2) (settled ds3 L3 (dom_attached L))"
    using post sa dom_succ_shape [OF A(2) assms(1)] by (simp add: dom_post_def)
  then have s3: "settled ds3 L3 (dom_attached L) = dom_detached L"
    using push_post_reach by (simp add: dom_detached_def)
  then have disj: "v \<notin> dom_attached L" if "v \<in> dom_detached L" for v using that by (auto simp: settled_def simp flip: s3)
  have seed: "v \<in> dom_detached L" "det_at L v = 2" if "v \<in> dom_known L 2" for v
    using that reach.seed by (auto simp: dom_detached_def dom_known_def)
  have "det_at L3 v = (if v \<in> dom_attached L then 1 else if v \<in> dom_detached L then 2 else det_at L v)"
    "disp_at L3 v = (if v \<in> dom_detached L then js ''Detached '' @ hn_name (hl_nodes L ! v) else disp_at L v)"
    if v: "v < length (hl_nodes L)" for v
    using post s3 sa(1) nd(1) nd(9) [OF v] A(4,5) [OF v] disj seed v by (auto simp: dom_post_def)
  then show ?thesis using post A(2) by (simp add: dom_post_def)
qed

text \<open>C3: \<open>distributeDOMState\<close> ends. A native node is attached exactly when a node known to be attached
  reaches it over visible edges between native nodes without passing a node known to be detached, and
  detached exactly when a node known to be detached reaches it outside the attached ones; every other
  node keeps its state, and exactly the detached nodes get the display name \<open>Detached\<close> followed by
  their name.\<close>

theorem distributeDOMState_correct:
  assumes "wf_loader L" "det_ok L"
  shows "\<exists>L'. distributeDOMState L = Some L' \<and> shape L' = shape L
    \<and> (\<forall>v<length (hl_nodes L). det_at L' v =
         (if v \<in> dom_attached L then 1 else if v \<in> dom_detached L then 2 else det_at L v))
    \<and> (\<forall>v<length (hl_nodes L). disp_at L' v =
         (if v \<in> dom_detached L then js ''Detached '' @ hn_name (hl_nodes L ! v) else disp_at L v))"
proof -
  let ?n = "length (hl_nodes L)" and ?SA = "dom_known L 1" and ?SD = "dom_known L 2"
  let ?A = "dom_attached L" and ?D = "dom_detached L"
  obtain ds1 L1 where s1: "fold known_nodes [0..<?n] (newDOMState (hl_nodeCount L), L) = (ds1, L1)"
    by (cases "fold known_nodes [0..<?n] (newDOMState (hl_nodeCount L), L)")
  note sd = seeded_all [OF assms order_refl, unfolded s1]
  have in_n: "?SA \<subseteq> {..<?n}" "?SD \<subseteq> {..<?n}" by (auto simp: dom_known_def)
  obtain ds2 L2 where a: "dom_loop 1 (?n + 1) (ds1, L1) = Some (ds2, L2)" "dom_post 1 ?SD ?SA (ds1, L1) (ds2, L2)"
    using attached_phase [OF assms(1) sd] by auto
  note A = attached_result [OF assms sd a(2)]
  obtain ds3 L3 where b: "dom_loop 2 (?n + 1) (ds2, L2) = Some (ds3, L3)" "dom_post 2 ?A ?SD (ds2, L2) (ds3, L3)"
    using detached_phase [OF assms sd a(2)] by auto
  note D = detached_result [OF assms sd a(2) b(2)]
  have "distributeDOMState L = Some L3"
    using s1 a(1) b(1) by (simp add: distributeDOMState_def Let_def attached_loop_eq detached_loop_eq)
  then show ?thesis using D by blast
qed

theorem distributeDOMState_correct_witness:
  "\<exists>L'. distributeDOMState demo_graph = Some L' \<and> disp_at L' 2 = js ''Detached B''"
proof -
  have "det_ok demo_graph"
    using demo_graph_nodes by (auto simp: det_ok_def det_at_def mkHeapNode_def less_Suc_eq numeral_3_eq_3 numeral_2_eq_2)
  then obtain L' where "distributeDOMState demo_graph = Some L'"
    and d: "\<forall>v<3. disp_at L' v = (if v \<in> dom_detached demo_graph then js ''Detached '' @ hn_name (hl_nodes demo_graph ! v) else disp_at demo_graph v)"
    using distributeDOMState_correct [OF demo_graph_wf] demo_graph_nodes(4) by auto
  moreover have "2 \<in> dom_detached demo_graph"
    unfolding dom_detached_def
    by (rule reach.seed) (simp add: dom_known_def native_def det_at_def demo_graph_nodes(3,4) mkHeapNode_def)
  moreover have "hn_name (hl_nodes demo_graph ! 2) = js ''B''" by (simp add: demo_graph_nodes(3) mkHeapNode_def)
  ultimately show ?thesis by (auto simp: js_def)
qed

end
