(* ===== verification/Heap_Order.thy ===== *)
theory Heap_Order
  imports Heap_Mark
begin

text \<open>
  The first half of \<open>buildOrderIdxAndDominateTree\<close> of \<open>HeapLoader.ts\<close>: a depth-first search that
  numbers all nodes in post-order, with the root last. The two stack arrays and the stack index are
  one list of pairs of a node index and its next edge, the top first; entries above the index are
  never read. An edge index beyond the edges makes \<open>isEssentialEdge\<close> read a field of \<open>undefined\<close>.
\<close>

section \<open>The search\<close>

record PostOrder =
  po_stack :: "(nat \<times> nat) list"
  po_orderIdx2NodeIdx :: "nat list"
  po_nodeIdx2OrderIdx :: "nat list"
  po_visited :: "nat list"
  po_postOrderIdx :: nat

definition po_push :: "nat \<Rightarrow> nat \<Rightarrow> PostOrder \<Rightarrow> PostOrder" where
  "po_push v e s = s\<lparr>po_stack := (v, e) # po_stack s, po_visited := (po_visited s)[v := 1]\<rparr>"

definition po_number :: "nat \<Rightarrow> PostOrder \<Rightarrow> PostOrder" where
  "po_number v s = s\<lparr>po_nodeIdx2OrderIdx := u32_set (po_nodeIdx2OrderIdx s) v (po_postOrderIdx s),
     po_orderIdx2NodeIdx := u32_set (po_orderIdx2NodeIdx s) (po_postOrderIdx s) v,
     po_postOrderIdx := po_postOrderIdx s + 1\<rparr>"

text \<open>One round of the inner loop on the top of the stack.\<close>

definition order_step :: "HeapLoader \<Rightarrow> PostOrder \<Rightarrow> PostOrder result" where
  "order_step L s = (case po_stack s of
     [] \<Rightarrow> Inr s
   | (nodeIndex, edgeIndex) # st \<Rightarrow>
       if \<not> nodeIndex < length (hl_nodes L) then Inr s
       else (let node = hl_nodes L ! nodeIndex in
         if edgeIndex < hn_firstEdgeIndex node + hn_edgeCount node then
           (let s1 = s\<lparr>po_stack := (nodeIndex, u32 (edgeIndex + 1)) # st\<rparr>; edge = hl_edges L ! edgeIndex in
            if \<not> edgeIndex < length (hl_edges L) then Inl TypeError
            else if \<not> isEssentialEdge L edge (hn_id node) then Inr s1
            else (case hl_nodeMap L (he_toNodeId edge) of
                    None \<Rightarrow> Inr s1
                  | Some c \<Rightarrow>
                      (let childNode = hl_nodes L ! c in
                       if po_visited s ! hn_nodeIndex childNode \<noteq> 0 then Inr s1
                       else if hn_id node \<noteq> hn_id (rootNode L) \<and> has_flag PAGE_PROJECT childNode \<and> hn_flag node = 0 then Inr s1
                       else Inr (po_push (hn_nodeIndex childNode) (hn_firstEdgeIndex childNode) s1))))
         else Inr ((po_number (hn_nodeIndex node) s)\<lparr>po_stack := st\<rparr>)))"

fun order_loop :: "nat \<Rightarrow> HeapLoader \<Rightarrow> PostOrder \<Rightarrow> PostOrder result" where
  "order_loop 0 L s = Inl Blocked"
| "order_loop (Suc fuel) L s =
     (if po_stack s \<noteq> [] \<and> length (po_stack s) \<le> hl_nodeCount L
      then bindr (order_step L s) (order_loop fuel L) else Inr s)"

definition order_fuel :: "HeapLoader \<Rightarrow> nat" where
  "order_fuel L = Suc (length (hl_edges L) + length (hl_nodes L))"

definition push_orphan :: "HeapLoader \<Rightarrow> HeapNode \<Rightarrow> PostOrder \<Rightarrow> PostOrder" where
  "push_orphan L node s =
     (if po_visited s ! hn_nodeIndex node \<noteq> 0 \<or> \<not> hasOnlyWeakRetainers L node then s
      else po_push (hn_nodeIndex node) (hn_firstEdgeIndex node) s)"

definition order_start :: "HeapLoader \<Rightarrow> PostOrder" where
  "order_start L = (let n = hl_nodeCount L; r = hn_nodeIndex (rootNode L) in
     \<lparr>po_stack = [(r, 0)], po_orderIdx2NodeIdx = replicate n 0, po_nodeIdx2OrderIdx = replicate n 0,
      po_visited = (replicate n 0)[r := 1], po_postOrderIdx = 0\<rparr>)"

text \<open>The second iteration: the root goes back to the bottom of the stack, its edges exhausted.\<close>

definition order_orphans :: "HeapLoader \<Rightarrow> PostOrder \<Rightarrow> PostOrder result" where
  "order_orphans L s =
     (let r = hn_nodeIndex (rootNode L) in
      if po_postOrderIdx s = hl_nodeCount L then Inr s
      else if \<not> r + 1 < length (hl_nodes L) then Inl TypeError
      else order_loop (order_fuel L) L
        (fold (push_orphan L) (hl_nodes L)
          (s\<lparr>po_postOrderIdx := po_postOrderIdx s - 1, po_stack := [(r, hn_firstEdgeIndex (hl_nodes L ! (r + 1)))]\<rparr>)))"

definition order_rest :: "HeapLoader \<Rightarrow> PostOrder \<Rightarrow> PostOrder" where
  "order_rest L s =
     (if po_postOrderIdx s \<noteq> hl_nodeCount L
      then po_number (hn_nodeIndex (rootNode L))
        (fold (\<lambda>i s. if po_visited s ! i \<noteq> 0 then s else po_number i s) [0..<hl_nodeCount L]
          (s\<lparr>po_postOrderIdx := po_postOrderIdx s - 1\<rparr>))
      else s)"

definition buildOrderIdx :: "HeapLoader \<Rightarrow> PostOrder result" where
  "buildOrderIdx L =
     bindr (order_loop (order_fuel L) L (order_start L)) (\<lambda>s1.
     bindr (order_orphans L s1) (\<lambda>s2. Inr (order_rest L s2)))"

section \<open>The invariant\<close>

text \<open>
  The numbered nodes followed by those on the stack, from its top: each node at most once, the root
  last. Numbering the top of the stack does not change this list.
\<close>

definition po_list :: "PostOrder \<Rightarrow> nat list" where
  "po_list s = take (po_postOrderIdx s) (po_orderIdx2NodeIdx s) @ map fst (po_stack s)"

definition po_inv :: "HeapLoader \<Rightarrow> PostOrder \<Rightarrow> bool" where
  "po_inv L s \<longleftrightarrow> (let n = length (hl_nodes L) in
     length (po_orderIdx2NodeIdx s) = n \<and> length (po_nodeIdx2OrderIdx s) = n \<and> length (po_visited s) = n
   \<and> po_postOrderIdx s \<le> n
   \<and> po_list s \<noteq> [] \<and> last (po_list s) = 0 \<and> distinct (po_list s)
   \<and> set (po_list s) = {v. v < n \<and> po_visited s ! v \<noteq> 0}
   \<and> (\<forall>i<po_postOrderIdx s. po_nodeIdx2OrderIdx s ! (po_orderIdx2NodeIdx s ! i) = i))"

text \<open>The next edges lie within the edges of their nodes.\<close>

definition stack_ok :: "HeapLoader \<Rightarrow> PostOrder \<Rightarrow> bool" where
  "stack_ok L s \<longleftrightarrow> (\<forall>(u, e)\<in>set (po_stack s). edges_before (hl_nodes L) u \<le> e \<and> e \<le> edges_before (hl_nodes L) (Suc u))"

definition po_measure :: "HeapLoader \<Rightarrow> PostOrder \<Rightarrow> nat" where
  "po_measure L s = sum_list (map (\<lambda>(u, e). Suc (edges_before (hl_nodes L) (Suc u) - e)) (po_stack s))
     + (\<Sum>v\<in>{v. v < length (hl_nodes L) \<and> po_visited s ! v = 0}. Suc (hn_edgeCount (hl_nodes L ! v)))"

lemma wf_edge_range:
  assumes "wf_loader L" "u < length (hl_nodes L)"
  shows "hn_firstEdgeIndex (hl_nodes L ! u) = edges_before (hl_nodes L) u"
    "hn_firstEdgeIndex (hl_nodes L ! u) + hn_edgeCount (hl_nodes L ! u) = edges_before (hl_nodes L) (Suc u)"
    "edges_before (hl_nodes L) (Suc u) \<le> length (hl_edges L)"
proof -
  show first: "hn_firstEdgeIndex (hl_nodes L ! u) = edges_before (hl_nodes L) u"
    using assms by (simp add: wf_loader_def wf_snapshot_def)
  then show "hn_firstEdgeIndex (hl_nodes L ! u) + hn_edgeCount (hl_nodes L ! u) = edges_before (hl_nodes L) (Suc u)"
    using edges_before_Suc [OF assms(2)] by simp
  show "edges_before (hl_nodes L) (Suc u) \<le> length (hl_edges L)"
    using edges_before_mono [of "Suc u" "length (hl_nodes L)" "hl_nodes L"] assms
    by (simp add: wf_loader_def wf_snapshot_def)
qed

lemma po_invD:
  assumes "po_inv L s"
  shows "length (po_orderIdx2NodeIdx s) = length (hl_nodes L)" "length (po_nodeIdx2OrderIdx s) = length (hl_nodes L)"
    "length (po_visited s) = length (hl_nodes L)" "po_postOrderIdx s \<le> length (hl_nodes L)"
    "po_list s \<noteq> []" "last (po_list s) = 0" "distinct (po_list s)"
    "v \<in> set (po_list s) \<longleftrightarrow> v < length (hl_nodes L) \<and> po_visited s ! v \<noteq> 0"
    "i < po_postOrderIdx s \<Longrightarrow> po_nodeIdx2OrderIdx s ! (po_orderIdx2NodeIdx s ! i) = i"
    "length (po_list s) = po_postOrderIdx s + length (po_stack s)"
    "length (po_list s) \<le> length (hl_nodes L)"
proof -
  show len: "length (po_list s) = po_postOrderIdx s + length (po_stack s)"
    using assms by (simp add: po_inv_def po_list_def Let_def)
  have "distinct (po_list s)" "set (po_list s) \<subseteq> {..<length (hl_nodes L)}"
    using assms by (auto simp: po_inv_def Let_def)
  then show "length (po_list s) \<le> length (hl_nodes L)"
    using card_mono [of "{..<length (hl_nodes L)}" "set (po_list s)"] by (simp add: distinct_card)
qed (use assms in \<open>auto simp: po_inv_def Let_def\<close>)

lemma po_push_inv:
  assumes "po_inv L s" "v < length (hl_nodes L)" "po_visited s ! v = 0" "po_stack s \<noteq> []"
  shows "po_inv L (po_push v e s)"
proof -
  let ?p = "take (po_postOrderIdx s) (po_orderIdx2NodeIdx s)"
  note inv = po_invD [OF assms(1)]
  have list: "po_list (po_push v e s) = ?p @ v # map fst (po_stack s)" "po_list s = ?p @ map fst (po_stack s)"
    by (simp_all add: po_list_def po_push_def)
  have "v \<notin> set (po_list s)" using inv(8) assms(3) by simp
  then have "distinct (po_list (po_push v e s))" using inv(7) by (simp add: list)
  moreover have "last (po_list (po_push v e s)) = 0" "po_list (po_push v e s) \<noteq> []"
    using inv(6) assms(4) by (simp_all add: list)
  moreover have "set (po_list (po_push v e s)) = {w. w < length (hl_nodes L) \<and> po_visited (po_push v e s) ! w \<noteq> 0}"
  proof -
    have "set (po_list (po_push v e s)) = insert v (set (po_list s))" by (auto simp: list)
    also have "\<dots> = {w. w < length (hl_nodes L) \<and> po_visited (po_push v e s) ! w \<noteq> 0}"
      using inv(3,8) assms(2) by (auto simp: po_push_def nth_list_update)
    finally show ?thesis .
  qed
  ultimately show ?thesis using inv(1-4,9) by (simp add: po_inv_def po_push_def Let_def)
qed

lemma po_push_measure:
  assumes "po_inv L s" "v < length (hl_nodes L)" "po_visited s ! v = 0" "e = edges_before (hl_nodes L) v"
  shows "po_measure L (po_push v e s) = po_measure L s"
proof -
  let ?U = "{w. w < length (hl_nodes L) \<and> po_visited s ! w = 0}" and ?f = "\<lambda>w. Suc (hn_edgeCount (hl_nodes L ! w))"
  have "{w. w < length (hl_nodes L) \<and> po_visited (po_push v e s) ! w = 0} = ?U - {v}"
    using po_invD(3) [OF assms(1)] assms(2) by (auto simp: po_push_def nth_list_update)
  moreover have "sum ?f ?U = ?f v + sum ?f (?U - {v})" using assms(2,3) by (intro sum.remove) auto
  ultimately show ?thesis
    using edges_before_Suc [OF assms(2)] assms(4) by (simp add: po_measure_def po_push_def)
qed

lemma po_number_inv:
  assumes "po_inv L s" "po_stack s = (u, e) # st" "length (hl_nodes L) < 4294967296"
  shows "po_inv L ((po_number u s)\<lparr>po_stack := st\<rparr>)"
proof -
  let ?i = "po_postOrderIdx s" and ?o = "po_orderIdx2NodeIdx s" and ?s = "(po_number u s)\<lparr>po_stack := st\<rparr>"
  note inv = po_invD [OF assms(1)]
  have i: "?i < length ?o" using inv(1,10,11) assms(2) by simp
  have u: "u < length (hl_nodes L)" "u \<notin> set (take ?i ?o)"
    using inv(7) inv(8) [of u] assms(2) by (simp_all add: po_list_def)
  have o: "po_orderIdx2NodeIdx ?s = ?o[?i := u]" "po_nodeIdx2OrderIdx ?s = (po_nodeIdx2OrderIdx s)[u := ?i]"
    using u i inv(1) assms(3) by (simp_all add: po_number_def u32_set_def)
  have list: "po_list ?s = po_list s"
  proof -
    have "take (Suc ?i) (?o[?i := u]) = take ?i ?o @ [u]" using i by (simp add: take_Suc_conv_app_nth)
    then show ?thesis using assms(2) o(1) by (simp add: po_list_def po_number_def)
  qed
  have "po_nodeIdx2OrderIdx ?s ! (po_orderIdx2NodeIdx ?s ! j) = j" if j: "j < Suc ?i" for j
  proof (cases "j = ?i")
    case True
    then show ?thesis using i u(1) inv(2) by (simp add: o)
  next
    case False
    then have "?o ! j \<in> set (take ?i ?o)" using j i by (auto simp: in_set_conv_nth intro!: exI [of _ j])
    then have "?o ! j \<noteq> u" using u(2) by auto
    then show ?thesis using False j inv(9) [of j] by (simp add: o)
  qed
  moreover have "po_postOrderIdx ?s = Suc ?i" "po_visited ?s = po_visited s" by (simp_all add: po_number_def)
  ultimately show ?thesis
    unfolding po_inv_def Let_def list using inv(1-9) i o by (auto simp: po_list_def)
qed


lemma po_advance:
  assumes "wf_loader L" "po_inv L s" "stack_ok L s" "po_stack s = (u, e) # st" "e < edges_before (hl_nodes L) (Suc u)"
  defines "s1 \<equiv> s\<lparr>po_stack := (u, u32 (e + 1)) # st\<rparr>"
  shows "po_inv L s1" "stack_ok L s1" "Suc (po_measure L s1) = po_measure L s" "u < length (hl_nodes L)"
    "e < length (hl_edges L)"
proof -
  show u: "u < length (hl_nodes L)"
    using po_invD(8) [OF assms(2), of u] assms(4) by (simp add: po_list_def)
  show e: "e < length (hl_edges L)" using assms(5) wf_edge_range(3) [OF assms(1) u] by simp
  have e1: "u32 (e + 1) = Suc e" using e wf_loader_simps(11) [OF assms(1)] by simp
  have "po_list s1 = po_list s" using assms(4) by (simp add: s1_def po_list_def)
  then show "po_inv L s1" using assms(2) by (simp add: po_inv_def Let_def) (simp add: s1_def)
  show "stack_ok L s1" using assms(3-5) e1 by (auto simp: stack_ok_def s1_def)
  show "Suc (po_measure L s1) = po_measure L s"
    using assms(4,5) e1 by (simp add: po_measure_def s1_def)
qed

lemma order_step_ok:
  assumes "wf_loader L" "po_inv L s" "stack_ok L s" "po_stack s \<noteq> []"
  shows "\<exists>s'. order_step L s = Inr s' \<and> po_inv L s' \<and> stack_ok L s' \<and> po_measure L s' < po_measure L s"
proof -
  obtain u e st where st: "po_stack s = (u, e) # st" using assms(4) by (cases "po_stack s") auto
  have u: "u < length (hl_nodes L)" using po_invD(8) [OF assms(2), of u] st by (simp add: po_list_def)
  note rng = wf_edge_range [OF assms(1) u]
  show ?thesis
  proof (cases "e < edges_before (hl_nodes L) (Suc u)")
    case False
    then have "order_step L s = Inr ((po_number u s)\<lparr>po_stack := st\<rparr>)"
      using st u rng(2) wf_loader_simps(1) [OF assms(1) u] by (simp add: order_step_def Let_def)
    moreover have "stack_ok L ((po_number u s)\<lparr>po_stack := st\<rparr>)"
      using assms(3) st by (simp add: stack_ok_def)
    moreover have "po_measure L ((po_number u s)\<lparr>po_stack := st\<rparr>) < po_measure L s"
      using st by (simp add: po_measure_def po_number_def)
    ultimately show ?thesis using po_number_inv [OF assms(2) st wf_loader_simps(10) [OF assms(1)]] by blast
  next
    case True
    define s1 where "s1 = s\<lparr>po_stack := (u, u32 (e + 1)) # st\<rparr>"
    note adv = po_advance [OF assms(1-3) st True, folded s1_def]
    have vis: "po_visited s1 = po_visited s" "po_stack s1 \<noteq> []" by (simp_all add: s1_def)
    define c where "c = target L e"
    have c: "hl_nodeMap L (he_toNodeId (hl_edges L ! e)) = Some c" "c < length (hl_nodes L)"
      using wf_loader_simps(4,5) [OF assms(1) adv(5)] by (simp_all add: c_def)
    note crng = wf_edge_range [OF assms(1) c(2)]
    have step: "order_step L s = Inr s1 \<or> order_step L s = Inr (po_push c (edges_before (hl_nodes L) c) s1) \<and> po_visited s ! c = 0"
      using st u True rng(2) adv(5) c crng(1) wf_loader_simps(1) [OF assms(1) c(2)]
      by (simp add: order_step_def Let_def s1_def)
    then show ?thesis
    proof
      assume "order_step L s = Inr s1"
      then show ?thesis using adv(1-3) by auto
    next
      assume push: "order_step L s = Inr (po_push c (edges_before (hl_nodes L) c) s1) \<and> po_visited s ! c = 0"
      then have "po_visited s1 ! c = 0" by (simp add: vis)
      note pi = po_push_inv [OF adv(1) c(2) this vis(2)] and pm = po_push_measure [OF adv(1) c(2) this refl]
      have "stack_ok L (po_push c (edges_before (hl_nodes L) c) s1)"
        using adv(2) crng(1,2) by (auto simp: stack_ok_def po_push_def)
      then show ?thesis using push pi pm adv(3) by (intro exI conjI) (auto simp: less_eq_Suc_le)
    qed
  qed
qed

lemma order_loop_ok:
  assumes "wf_loader L" "po_inv L s" "stack_ok L s" "po_measure L s < fuel"
  shows "\<exists>s'. order_loop fuel L s = Inr s' \<and> po_inv L s' \<and> po_stack s' = []"
  using assms(2-)
proof (induction fuel arbitrary: s)
  case (Suc fuel)
  show ?case
  proof (cases "po_stack s = []")
    case False
    obtain s' where s': "order_step L s = Inr s'" "po_inv L s'" "stack_ok L s'" "po_measure L s' < po_measure L s"
      using order_step_ok [OF assms(1) Suc.prems(1,2) False] by blast
    have "length (po_stack s) \<le> hl_nodeCount L"
      using po_invD(10,11) [OF Suc.prems(1)] wf_loader_simps(6) [OF assms(1)] by simp
    then show ?thesis using s' Suc.IH [of s'] Suc.prems(3) False by simp
  qed (use Suc.prems in auto)
qed simp

section \<open>The three phases\<close>

lemma measure_bound:
  assumes "wf_loader L"
  shows "(\<Sum>v<length (hl_nodes L). Suc (hn_edgeCount (hl_nodes L ! v))) = length (hl_edges L) + length (hl_nodes L)"
proof -
  have "(\<Sum>v<length (hl_nodes L). hn_edgeCount (hl_nodes L ! v)) = length (hl_edges L)"
    using assms by (simp add: wf_loader_def wf_snapshot_def edges_before_def sum_list_sum_nth atLeast0LessThan)
  then show ?thesis
    using sum.distrib [of "\<lambda>v. hn_edgeCount (hl_nodes L ! v)" "\<lambda>_. 1" "{..<length (hl_nodes L)}"] by simp
qed

lemma order_start_ok:
  assumes "wf_loader L"
  shows "po_inv L (order_start L)" "stack_ok L (order_start L)" "po_measure L (order_start L) < order_fuel L"
proof -
  let ?n = "length (hl_nodes L)" and ?f = "\<lambda>v. Suc (hn_edgeCount (hl_nodes L ! v))"
  have n: "hl_nodeCount L = ?n" "0 < ?n" and root: "hn_nodeIndex (rootNode L) = 0"
    using wf_loader_simps(1,6,8) [OF assms] by simp_all
  show "po_inv L (order_start L)"
    using n root by (auto simp: po_inv_def po_list_def order_start_def Let_def nth_list_update)
  show "stack_ok L (order_start L)" by (simp add: stack_ok_def order_start_def Let_def root edges_before_def)
  have U: "{v. v < ?n \<and> po_visited (order_start L) ! v = 0} = {..<?n} - {0}"
    using n root by (auto simp: order_start_def Let_def nth_list_update)
  have "sum ?f {..<?n} = ?f 0 + sum ?f ({..<?n} - {0})" using n by (intro sum.remove) auto
  moreover have "edges_before (hl_nodes L) (Suc 0) = hn_edgeCount (rootNode L)"
    using edges_before_Suc [of 0 "hl_nodes L"] n by (simp add: edges_before_def)
  ultimately have "po_measure L (order_start L) = sum ?f {..<?n}"
    unfolding po_measure_def U by (simp add: order_start_def Let_def root)
  then show "po_measure L (order_start L) < order_fuel L" using measure_bound [OF assms] by (simp add: order_fuel_def)
qed


text \<open>Back on the stack, the root ends the same list.\<close>

lemma root_back:
  assumes "po_inv L s" "po_stack s = []"
  shows "po_inv L (s\<lparr>po_postOrderIdx := po_postOrderIdx s - 1, po_stack := [(0, e)]\<rparr>)" (is "po_inv L ?s")
    and "0 < po_postOrderIdx s"
proof -
  note inv = po_invD [OF assms(1)]
  let ?p = "take (po_postOrderIdx s) (po_orderIdx2NodeIdx s)"
  have list: "po_list s = ?p" using assms(2) by (simp add: po_list_def)
  show pos: "0 < po_postOrderIdx s" using inv(5) by (auto simp: list)
  have "?p = butlast ?p @ [0]" using inv(5,6) by (metis list append_butlast_last_id)
  moreover have "butlast ?p = take (po_postOrderIdx s - 1) (po_orderIdx2NodeIdx s)"
    using inv(1,4) by (simp add: butlast_take)
  ultimately have "po_list ?s = po_list s" by (simp add: po_list_def assms(2))
  then show "po_inv L ?s" unfolding po_inv_def Let_def using inv(1-9) by auto
qed

lemma push_orphans_ok:
  assumes "wf_loader L" "set is \<subseteq> {..<length (hl_nodes L)}" "po_inv L s" "stack_ok L s" "po_stack s \<noteq> []"
  defines "s' \<equiv> fold (push_orphan L) (map ((!) (hl_nodes L)) is) s"
  shows "po_inv L s' \<and> stack_ok L s' \<and> po_measure L s' = po_measure L s"
  unfolding s'_def using assms(2-5)
proof (induction "is" arbitrary: s)
  case (Cons i "is")
  have i: "i < length (hl_nodes L)" "set is \<subseteq> {..<length (hl_nodes L)}" using Cons.prems(1) by simp_all
  have idx: "hn_nodeIndex (hl_nodes L ! i) = i" and rng: "hn_firstEdgeIndex (hl_nodes L ! i) = edges_before (hl_nodes L) i"
    using wf_loader_simps(1) [OF assms(1) i(1)] wf_edge_range(1) [OF assms(1) i(1)] by simp_all
  have ok: "po_inv L (push_orphan L (hl_nodes L ! i) s)" "stack_ok L (push_orphan L (hl_nodes L ! i) s)"
    "po_stack (push_orphan L (hl_nodes L ! i) s) \<noteq> []"
    "po_measure L (push_orphan L (hl_nodes L ! i) s) = po_measure L s"
    using po_push_inv [OF Cons.prems(2) i(1) _ Cons.prems(4)] po_push_measure [OF Cons.prems(2) i(1) _ refl]
      Cons.prems(2-4) edges_before_mono [of i "Suc i" "hl_nodes L"]
    by (auto simp: push_orphan_def idx rng) (auto simp: stack_ok_def po_push_def)
  then show ?case using Cons.IH [OF i(2) ok(1-3)] by simp
qed simp

lemma order_orphans_ok:
  assumes "wf_loader L" "po_inv L s" "po_stack s = []"
  shows "\<exists>s'. order_orphans L s = Inr s' \<and> po_inv L s' \<and> po_stack s' = []"
proof (cases "po_postOrderIdx s = hl_nodeCount L")
  case True
  then show ?thesis using assms by (simp add: order_orphans_def Let_def)
next
  case False
  let ?n = "length (hl_nodes L)" and ?f = "\<lambda>v. Suc (hn_edgeCount (hl_nodes L ! v))"
  have root: "hn_nodeIndex (rootNode L) = 0" using wf_loader_simps(1,8) [OF assms(1)] by simp
  note bk = root_back [OF assms(2,3)] and inv = po_invD [OF assms(2)]
  have n: "1 < ?n" using False bk(2) inv(4) wf_loader_simps(6) [OF assms(1)] by linarith
  define s1 where "s1 = s\<lparr>po_postOrderIdx := po_postOrderIdx s - 1, po_stack := [(0, edges_before (hl_nodes L) 1)]\<rparr>"
  have s1: "po_inv L s1" "stack_ok L s1" "po_stack s1 \<noteq> []"
    using bk(1) by (simp_all add: s1_def stack_ok_def edges_before_def)
  have U: "{v. v < ?n \<and> po_visited s1 ! v = 0} \<subseteq> {..<?n} - {0}"
    using inv(8) [of 0] inv(5,6) last_in_set [OF inv(5)] by (auto simp: s1_def intro: gr0I)
  have "sum ?f {..<?n} = ?f 0 + sum ?f ({..<?n} - {0})" using n by (intro sum.remove) auto
  moreover have "sum ?f {v. v < ?n \<and> po_visited s1 ! v = 0} \<le> sum ?f ({..<?n} - {0})"
    using U by (intro sum_mono2) auto
  ultimately have meas: "po_measure L s1 < order_fuel L"
    using measure_bound [OF assms(1)] by (simp add: po_measure_def order_fuel_def) (simp add: s1_def)
  have "po_inv L (fold (push_orphan L) (hl_nodes L) s1) \<and> stack_ok L (fold (push_orphan L) (hl_nodes L) s1)
      \<and> po_measure L (fold (push_orphan L) (hl_nodes L) s1) = po_measure L s1"
    using push_orphans_ok [OF assms(1) _ s1, of "[0..<?n]"] by (simp add: map_nth atLeast0LessThan)
  moreover have "order_orphans L s = order_loop (order_fuel L) L (fold (push_orphan L) (hl_nodes L) s1)"
    using False n root wf_edge_range(1) [OF assms(1) n] by (simp add: order_orphans_def Let_def s1_def)
  ultimately show ?thesis using order_loop_ok [OF assms(1)] meas by auto
qed

text \<open>For the rest, the nodes below \<open>k\<close> count as visited and the root as still on the stack.\<close>

definition rest_view :: "HeapLoader \<Rightarrow> nat \<Rightarrow> PostOrder \<Rightarrow> PostOrder" where
  "rest_view L k s = s\<lparr>po_stack := [(0, 0)],
     po_visited := map (\<lambda>v. if v < k then 1 else po_visited s ! v) [0..<length (hl_nodes L)]\<rparr>"

lemma po_inv_visited:
  assumes "po_inv L s" "length V = length (hl_nodes L)" "\<And>v. v < length (hl_nodes L) \<Longrightarrow> V ! v \<noteq> 0 \<longleftrightarrow> po_visited s ! v \<noteq> 0"
  shows "po_inv L (s\<lparr>po_visited := V\<rparr>)"
proof -
  have "po_list (s\<lparr>po_visited := V\<rparr>) = po_list s" by (simp add: po_list_def)
  then show ?thesis using po_invD [OF assms(1)] assms(2,3) by (auto simp: po_inv_def Let_def)
qed

lemma rest_step:
  assumes "po_inv L (rest_view L k s)" "k < length (hl_nodes L)" "length (hl_nodes L) < 4294967296"
  shows "po_inv L (rest_view L (Suc k) (if po_visited s ! k \<noteq> 0 then s else po_number k s))"
proof (cases "po_visited s ! k = 0")
  case False
  have "rest_view L (Suc k) s = (rest_view L k s)\<lparr>po_visited := po_visited (rest_view L (Suc k) s)\<rparr>"
    by (simp add: rest_view_def)
  also have "po_inv L \<dots>"
    using assms(1) by (rule po_inv_visited) (use False in \<open>auto simp: rest_view_def less_Suc_eq\<close>)
  finally show ?thesis using False by simp
next
  case True
  let ?g = "rest_view L k s"
  have "po_visited ?g ! k = 0" "po_stack ?g \<noteq> []" using True assms(2) by (simp_all add: rest_view_def)
  note pi = po_push_inv [OF assms(1,2) this, of 0]
  have st: "po_stack (po_push k 0 ?g) = (k, 0) # po_stack ?g" by (simp add: po_push_def)
  note ni = po_number_inv [OF pi st assms(3)]
  let ?h = "(po_number k (po_push k 0 ?g))\<lparr>po_stack := po_stack ?g\<rparr>"
  have "rest_view L (Suc k) (po_number k s) = ?h\<lparr>po_visited := po_visited (rest_view L (Suc k) (po_number k s))\<rparr>"
    by (simp add: rest_view_def po_number_def po_push_def)
  also have "po_inv L \<dots>"
    using ni
  proof (rule po_inv_visited)
    fix v assume "v < length (hl_nodes L)"
    then show "po_visited (rest_view L (Suc k) (po_number k s)) ! v \<noteq> 0 \<longleftrightarrow> po_visited ?h ! v \<noteq> 0"
      by (cases "v = k") (auto simp: rest_view_def po_number_def po_push_def)
  qed (simp add: rest_view_def)
  finally show ?thesis using True by simp
qed

lemma order_rest_ok:
  assumes "wf_loader L" "po_inv L s" "po_stack s = []"
  shows "po_inv L ((order_rest L s)\<lparr>po_visited := replicate (length (hl_nodes L)) 1\<rparr>)
    \<and> po_stack (order_rest L s) = []"
proof -
  let ?n = "length (hl_nodes L)"
  note inv = po_invD [OF assms(2)] and wf = wf_loader_simps [OF assms(1)]
  show ?thesis
  proof (cases "po_postOrderIdx s = ?n")
    case True
    then have "set (po_list s) = {..<?n}"
      using inv(1,7,8,10) assms(3) by (intro card_seteq) (auto simp: distinct_card)
    then have "po_inv L (s\<lparr>po_visited := replicate ?n 1\<rparr>)"
      using inv(8) by (intro po_inv_visited [OF assms(2)]) auto
    then show ?thesis using True wf(6) assms(3) by (simp add: order_rest_def)
  next
    case False
    define f where "f = (\<lambda>i s. if po_visited s ! i \<noteq> 0 then s else po_number i s)"
    define s0 where "s0 = s\<lparr>po_postOrderIdx := po_postOrderIdx s - 1\<rparr>"
    have "po_inv L (rest_view L 0 s0)"
    proof -
      have "rest_view L 0 s0 = (s\<lparr>po_postOrderIdx := po_postOrderIdx s - 1, po_stack := [(0, 0)]\<rparr>)
          \<lparr>po_visited := po_visited (rest_view L 0 s0)\<rparr>" by (simp add: rest_view_def s0_def)
      also have "po_inv L \<dots>"
        using root_back(1) [OF assms(2,3)] by (rule po_inv_visited) (auto simp: rest_view_def s0_def)
      finally show ?thesis .
    qed
    then have "po_inv L (rest_view L k (fold f [0..<k] s0))" if "k \<le> ?n" for k
      using that by (induction k) (use rest_step [OF _ _ wf(10)] in \<open>simp_all add: f_def\<close>)
    then have all: "po_inv L (rest_view L ?n (fold f [0..<?n] s0))" by simp
    have vis: "po_visited (rest_view L ?n t) = replicate ?n 1" for t
      by (rule nth_equalityI) (simp_all add: rest_view_def)
    have root: "hn_nodeIndex (rootNode L) = 0" using wf(1,8) by simp
    have stk: "po_stack (fold f is t) = po_stack t" for "is" t
      by (induction "is" arbitrary: t) (simp_all add: f_def po_number_def)
    have R: "order_rest L s = po_number 0 (fold f [0..<?n] s0)"
      using False wf(6) root by (simp add: order_rest_def f_def s0_def)
    then have "po_stack (order_rest L s) = []" using stk [of _ s0] assms(3) by (simp add: po_number_def s0_def)
    moreover have "(order_rest L s)\<lparr>po_visited := replicate ?n 1\<rparr>
        = (po_number 0 (rest_view L ?n (fold f [0..<?n] s0)))\<lparr>po_stack := []\<rparr>"
      using vis [of "fold f [0..<?n] s0"] stk [of _ s0] assms(3) by (simp add: R po_number_def rest_view_def s0_def)
    ultimately show ?thesis
      using po_number_inv [OF all, of 0 0 "[]"] wf(10) by (simp add: rest_view_def)
  qed
qed

lemma buildOrderIdx_total:
  assumes "wf_loader L"
  shows "\<exists>s. buildOrderIdx L = Inr s \<and> length (po_orderIdx2NodeIdx s) = length (hl_nodes L)
    \<and> distinct (po_orderIdx2NodeIdx s) \<and> set (po_orderIdx2NodeIdx s) = {..<length (hl_nodes L)}
    \<and> last (po_orderIdx2NodeIdx s) = 0 \<and> length (po_nodeIdx2OrderIdx s) = length (hl_nodes L)
    \<and> (\<forall>i<length (hl_nodes L). po_nodeIdx2OrderIdx s ! (po_orderIdx2NodeIdx s ! i) = i)"
proof -
  let ?n = "length (hl_nodes L)"
  obtain s1 where s1: "order_loop (order_fuel L) L (order_start L) = Inr s1" "po_inv L s1" "po_stack s1 = []"
    using order_loop_ok [OF assms order_start_ok [OF assms]] by blast
  obtain s2 where s2: "order_orphans L s1 = Inr s2" "po_inv L s2" "po_stack s2 = []"
    using order_orphans_ok [OF assms s1(2,3)] by blast
  define s where "s = order_rest L s2"
  let ?t = "s\<lparr>po_visited := replicate ?n 1\<rparr>"
  have t: "po_inv L ?t" "po_stack s = []" using order_rest_ok [OF assms s2(2,3)] by (simp_all add: s_def)
  note inv = po_invD [OF t(1)]
  have all: "set (po_list ?t) = {..<?n}" using inv(8) by (intro set_eqI) (simp cong: conj_cong)
  then have idx: "po_postOrderIdx s = ?n" using inv(7,10) t(2) distinct_card [OF inv(7)] by simp
  then have list: "po_list ?t = po_orderIdx2NodeIdx s" using inv(1) t(2) by (simp add: po_list_def)
  have "buildOrderIdx L = Inr s" using s1(1) s2(1) by (simp add: buildOrderIdx_def s_def)
  then show ?thesis using inv(1,2,6,7,9) all idx list by auto
qed

text \<open>C4: the numbering ends and \<open>orderIdx2NodeIdx\<close> is a permutation of all node indices with the root
  last, also when parts of the heap are not reachable from the root; \<open>nodeIdx2OrderIdx\<close> is its
  inverse.\<close>

theorem buildOrderIdx_permutation:
  assumes "wf_loader L"
  shows "\<exists>s. buildOrderIdx L = Inr s \<and> length (po_orderIdx2NodeIdx s) = length (hl_nodes L)
    \<and> distinct (po_orderIdx2NodeIdx s) \<and> set (po_orderIdx2NodeIdx s) = {..<length (hl_nodes L)}
    \<and> last (po_orderIdx2NodeIdx s) = 0 \<and> length (po_nodeIdx2OrderIdx s) = length (hl_nodes L)
    \<and> (\<forall>i<length (hl_nodes L). po_nodeIdx2OrderIdx s ! (po_orderIdx2NodeIdx s ! i) = i)"
  by (rule buildOrderIdx_total [OF assms])

theorem buildOrderIdx_permutation_witness:
  "\<exists>s. buildOrderIdx demo_loader = Inr s \<and> set (po_orderIdx2NodeIdx s) = {0, 1, 2} \<and> last (po_orderIdx2NodeIdx s) = 0"
proof -
  have "{..<length (hl_nodes demo_loader)} = {0, 1, 2}" by (auto simp: demo_loader_def demo_nodes_def)
  then show ?thesis using buildOrderIdx_permutation [OF demo_loader_wf] by auto
qed

end
