(* ===== verification/Heap_Dominator.thy ===== *)
theory Heap_Dominator
  imports Heap_Order
begin

text \<open>
  \<open>buildDominatorTree\<close>, \<open>calRetainedSize\<close> and \<open>buildDominatedNode\<close> of \<open>HeapLoader.ts\<close>. Within
  \<open>buildDominatorTree\<close> nodes are numbered by their post-order; \<open>hl_nodeCount\<close> marks an entry that is not
  set. Climbing beyond the array would read \<open>undefined\<close> and never leave the loops again. The loops
  carry fuel: climbing visits each entry at most once, and \<open>n * n + 2\<close> passes are allowed, enough for every
  entry to take every value once. That this many passes suffice is not proved here; what is said of the
  dominator tree is said of the trees that the passes return.
\<close>

section \<open>Dominators\<close>

fun climb :: "nat \<Rightarrow> nat list \<Rightarrow> nat \<Rightarrow> nat \<Rightarrow> nat result" where
  "climb 0 dominators a b = Inl Blocked"
| "climb (Suc fuel) dominators a b =
     (if a < b then (if a < length dominators then climb fuel dominators (dominators ! a) b else Inl Blocked)
      else Inr a)"

fun intersect :: "nat \<Rightarrow> nat list \<Rightarrow> nat \<Rightarrow> nat \<Rightarrow> nat result" where
  "intersect 0 dominators retainerOrderIdx newDominatorIdx = Inl Blocked"
| "intersect (Suc fuel) dominators retainerOrderIdx newDominatorIdx =
     (if retainerOrderIdx \<noteq> newDominatorIdx
      then bindr (climb (length dominators + 1) dominators retainerOrderIdx newDominatorIdx) (\<lambda>r.
           bindr (climb (length dominators + 1) dominators newDominatorIdx r) (\<lambda>d.
           intersect fuel dominators r d))
      else Inr newDominatorIdx)"

text \<open>The loop over the retainers of a node: the dominator found so far and whether the node is an
  orphan.\<close>

fun dom_retainers :: "HeapLoader \<Rightarrow> nat list \<Rightarrow> nat list \<Rightarrow> bool \<Rightarrow> nat list \<Rightarrow> nat \<Rightarrow> bool \<Rightarrow> (nat \<times> bool) result" where
  "dom_retainers L nodeIdx2OrderIdx dominators nodeFlag [] newDominatorIdx orphanNode = Inr (newDominatorIdx, orphanNode)"
| "dom_retainers L nodeIdx2OrderIdx dominators nodeFlag (idx # slots) newDominatorIdx orphanNode =
     (let retainerNodeIdx = hl_retainingNodes L ! idx; retainerEdgeIdx = hl_retainingEdges L ! idx;
          node = hl_nodes L ! retainerNodeIdx; edge = hl_edges L ! retainerEdgeIdx in
      if \<not> (retainerNodeIdx < length (hl_nodes L) \<and> retainerEdgeIdx < length (hl_edges L)) then Inl TypeError
      else if \<not> isEssentialEdge L edge (hn_id node)
      then dom_retainers L nodeIdx2OrderIdx dominators nodeFlag slots newDominatorIdx orphanNode
      else if retainerNodeIdx \<noteq> hn_nodeIndex (rootNode L) \<and> nodeFlag \<and> \<not> has_flag PAGE_PROJECT node
      then dom_retainers L nodeIdx2OrderIdx dominators nodeFlag slots newDominatorIdx False
      else (let retainerOrderIdx = nodeIdx2OrderIdx ! retainerNodeIdx in
        if dominators ! retainerOrderIdx \<noteq> hl_nodeCount L then
          bindr (if newDominatorIdx = hl_nodeCount L then Inr retainerOrderIdx
                 else intersect (2 * length dominators + 1) dominators retainerOrderIdx newDominatorIdx) (\<lambda>d.
            if d = hl_nodeCount L - 1 then Inr (d, False)
            else dom_retainers L nodeIdx2OrderIdx dominators nodeFlag slots d False)
        else dom_retainers L nodeIdx2OrderIdx dominators nodeFlag slots newDominatorIdx False))"

record DomState =
  dm_dominators :: "nat list"
  dm_affected :: "nat list"
  dm_changed :: bool

definition mark_affected :: "HeapLoader \<Rightarrow> nat list \<Rightarrow> HeapEdge \<Rightarrow> nat list \<Rightarrow> nat list" where
  "mark_affected L nodeIdx2OrderIdx edge affected =
     (case hl_nodeMap L (he_toNodeId edge) of
        None \<Rightarrow> affected
      | Some c \<Rightarrow> affected[nodeIdx2OrderIdx ! hn_nodeIndex (hl_nodes L ! c) := 1])"

definition dom_visit :: "HeapLoader \<Rightarrow> nat list \<Rightarrow> nat list \<Rightarrow> nat \<Rightarrow> DomState \<Rightarrow> DomState result" where
  "dom_visit L orderIdx2NodeIdx nodeIdx2OrderIdx orderIdx s =
     (let rootOrderedIdx = hl_nodeCount L - 1; s1 = s\<lparr>dm_affected := (dm_affected s)[orderIdx := 0]\<rparr> in
      if dm_affected s ! orderIdx = 0 then Inr s
      else if dm_dominators s ! orderIdx = rootOrderedIdx then Inr s1
      else (let nodeIdx = orderIdx2NodeIdx ! orderIdx; node = hl_nodes L ! nodeIdx in
        bindr (dom_retainers L nodeIdx2OrderIdx (dm_dominators s) (has_flag PAGE_PROJECT node)
                (retainer_slots L nodeIdx) (hl_nodeCount L) True) (\<lambda>(d, orphanNode).
          let newDominatorIdx = (if orphanNode then rootOrderedIdx else d) in
          if newDominatorIdx \<noteq> hl_nodeCount L \<and> dm_dominators s ! orderIdx \<noteq> newDominatorIdx
          then Inr \<lparr>dm_dominators = u32_set (dm_dominators s) orderIdx newDominatorIdx,
                    dm_affected = fold (mark_affected L nodeIdx2OrderIdx) (hn_edges node) (dm_affected s1),
                    dm_changed = True\<rparr>
          else Inr s1)))"

fun dom_pass :: "HeapLoader \<Rightarrow> nat list \<Rightarrow> nat list \<Rightarrow> nat list \<Rightarrow> DomState \<Rightarrow> DomState result" where
  "dom_pass L orderIdx2NodeIdx nodeIdx2OrderIdx [] s = Inr s"
| "dom_pass L orderIdx2NodeIdx nodeIdx2OrderIdx (i # is) s =
     bindr (dom_visit L orderIdx2NodeIdx nodeIdx2OrderIdx i s) (dom_pass L orderIdx2NodeIdx nodeIdx2OrderIdx is)"

fun dom_iterate :: "nat \<Rightarrow> HeapLoader \<Rightarrow> nat list \<Rightarrow> nat list \<Rightarrow> DomState \<Rightarrow> DomState result" where
  "dom_iterate 0 L orderIdx2NodeIdx nodeIdx2OrderIdx s = Inl Blocked"
| "dom_iterate (Suc fuel) L orderIdx2NodeIdx nodeIdx2OrderIdx s =
     (if dm_changed s
      then bindr (dom_pass L orderIdx2NodeIdx nodeIdx2OrderIdx (rev [0..<hl_nodeCount L - 1]) (s\<lparr>dm_changed := False\<rparr>))
             (dom_iterate fuel L orderIdx2NodeIdx nodeIdx2OrderIdx)
      else Inr s)"

definition dom_start :: "HeapLoader \<Rightarrow> nat list \<Rightarrow> DomState" where
  "dom_start L nodeIdx2OrderIdx =
     (let n = hl_nodeCount L in
      \<lparr>dm_dominators = u32_set (replicate n (u32 n)) (n - 1) (n - 1),
       dm_affected = fold (mark_affected L nodeIdx2OrderIdx)
         (filter (\<lambda>edge. isEssentialEdge L edge (hn_id (rootNode L))) (hn_edges (rootNode L))) (replicate n 0),
       dm_changed = True\<rparr>)"

text \<open>An entry that is still unset reads beyond \<open>orderIdx2NodeIdx\<close>; the typed array stores that
  \<open>undefined\<close> as 0, the index of the root.\<close>

definition tree_entry :: "nat list \<Rightarrow> nat list \<Rightarrow> nat \<Rightarrow> nat list \<Rightarrow> nat list" where
  "tree_entry orderIdx2NodeIdx dominators orderIdx tree =
     u32_set tree (orderIdx2NodeIdx ! orderIdx)
       (if dominators ! orderIdx < length orderIdx2NodeIdx then orderIdx2NodeIdx ! (dominators ! orderIdx) else 0)"

definition buildDominatorTree :: "HeapLoader \<Rightarrow> nat list \<Rightarrow> nat list \<Rightarrow> HeapLoader result" where
  "buildDominatorTree L orderIdx2NodeIdx nodeIdx2OrderIdx =
     (let n = hl_nodeCount L in
      bindr (dom_iterate (n * n + 2) L orderIdx2NodeIdx nodeIdx2OrderIdx (dom_start L nodeIdx2OrderIdx)) (\<lambda>s.
      Inr (L\<lparr>hl_dominatorTree := fold (tree_entry orderIdx2NodeIdx (dm_dominators s))
               [0..<length (dm_dominators s)] (hl_dominatorTree L)\<rparr>)))"

definition buildOrderIdxAndDominateTree :: "HeapLoader \<Rightarrow> (nat list \<times> HeapLoader) result" where
  "buildOrderIdxAndDominateTree L =
     bindr (buildOrderIdx L) (\<lambda>s.
     bindr (buildDominatorTree L (po_orderIdx2NodeIdx s) (po_nodeIdx2OrderIdx s)) (\<lambda>L1.
     Inr (po_orderIdx2NodeIdx s, L1)))"

section \<open>Retained sizes\<close>

definition add_retained :: "nat \<Rightarrow> HeapLoader \<Rightarrow> HeapLoader" where
  "add_retained nodeIdx L =
     (let node = hl_nodes L ! nodeIdx
      in upd_node (hl_dominatorTree L ! hn_nodeIndex node) (hn_retainedSize_update (\<lambda>r. r + hn_retainedSize node)) L)"

definition propagate_sizes :: "nat list \<Rightarrow> HeapLoader \<Rightarrow> HeapLoader" where
  "propagate_sizes orderIdx2NodeIdx L =
     fold (\<lambda>idx. add_retained (orderIdx2NodeIdx ! idx)) [0..<hl_nodeCount L - 1] L"

definition calRetainedSize :: "HeapLoader \<Rightarrow> HeapLoader result" where
  "calRetainedSize L =
     bindr (buildOrderIdxAndDominateTree L) (\<lambda>(orderIdx2NodeIdx, L1). Inr (propagate_sizes orderIdx2NodeIdx L1))"

section \<open>Dominated nodes\<close>

definition dominated_step :: "nat \<Rightarrow> HeapLoader \<Rightarrow> HeapLoader" where
  "dominated_step nodeIdx L =
     L\<lparr>hl_dominatedNodes := snd (csr_put (hl_firstDominatedNodesIdx L) (hl_dominatedNodes L) (hl_dominatorTree L ! nodeIdx) nodeIdx)\<rparr>"

definition buildDominatedNode :: "HeapLoader \<Rightarrow> HeapLoader result" where
  "buildDominatedNode L =
     (let root = hn_nodeIndex (rootNode L); n = hl_nodeCount L in
      if root \<noteq> 0 \<and> root \<noteq> n - 1 then Inl (Thrown ''Root node is expected to be either first or last'')
      else (let range = (if root = 0 then [1..<n] else [0..<n - 1]);
                first0 = csr_count (map (\<lambda>i. hl_dominatorTree L ! i) range) (hl_firstDominatedNodesIdx L);
                (first1, dn) = csr_starts [0..<n] first0 (hl_dominatedNodes L) 0;
                L1 = L\<lparr>hl_dominatedNodes := dn, hl_firstDominatedNodesIdx := u32_set first1 n (length dn)\<rparr>
            in Inr (fold dominated_step range L1)))"


section \<open>Entries stay in range\<close>

lemma dom_visit_frame:
  assumes "dom_visit L o2n n2o i s = Inr s'" "j \<noteq> i"
  shows "length (dm_dominators s') = length (dm_dominators s)" "dm_dominators s' ! j = dm_dominators s ! j"
  using assms by (auto simp: dom_visit_def Let_def bindr_eq_Inr_iff u32_set_def split: if_splits)

lemma dom_pass_frame:
  assumes "dom_pass L o2n n2o is s = Inr s'" "j \<notin> set is"
  shows "length (dm_dominators s') = length (dm_dominators s) \<and> dm_dominators s' ! j = dm_dominators s ! j"
  using assms
proof (induction "is" arbitrary: s)
  case (Cons i "is")
  then obtain s1 where "dom_visit L o2n n2o i s = Inr s1" "dom_pass L o2n n2o is s1 = Inr s'" by (auto simp: bindr_eq_Inr_iff)
  with Cons.IH [of s1] Cons.prems(2) dom_visit_frame [of L o2n n2o i s s1 j] show ?case by simp
qed simp

lemma dom_iterate_frame:
  assumes "dom_iterate fuel L o2n n2o s = Inr s'"
  shows "length (dm_dominators s') = length (dm_dominators s)
    \<and> dm_dominators s' ! (hl_nodeCount L - 1) = dm_dominators s ! (hl_nodeCount L - 1)"
  using assms
proof (induction fuel arbitrary: s)
  case (Suc fuel)
  show ?case
  proof (cases "dm_changed s")
    case True
    then obtain s1 where s1: "dom_pass L o2n n2o (rev [0..<hl_nodeCount L - 1]) (s\<lparr>dm_changed := False\<rparr>) = Inr s1"
      "dom_iterate fuel L o2n n2o s1 = Inr s'" using Suc.prems by (auto simp: bindr_eq_Inr_iff)
    show ?thesis using Suc.IH [OF s1(2)] dom_pass_frame [OF s1(1), of "hl_nodeCount L - 1"] by simp
  qed (use Suc.prems in simp)
qed simp

lemma fold_tree_entry:
  assumes "distinct (map ((!) o2n) is)" "\<forall>i\<in>set is. o2n ! i < length tree"
  shows "length (fold (tree_entry o2n doms) is tree) = length tree
    \<and> (\<forall>i\<in>set is. fold (tree_entry o2n doms) is tree ! (o2n ! i)
        = u32 (if doms ! i < length o2n then o2n ! (doms ! i) else 0))
    \<and> (\<forall>v<length tree. v \<notin> (!) o2n ` set is \<longrightarrow> fold (tree_entry o2n doms) is tree ! v = tree ! v)"
  using assms
proof (induction "is" arbitrary: tree)
  case (Cons i "is")
  let ?t = "tree_entry o2n doms i tree"
  have t: "length ?t = length tree" "?t ! (o2n ! i) = u32 (if doms ! i < length o2n then o2n ! (doms ! i) else 0)"
    "\<And>v. v \<noteq> o2n ! i \<Longrightarrow> ?t ! v = tree ! v"
    using Cons.prems(2) by (simp_all add: tree_entry_def u32_set_def)
  have IH: "length (fold (tree_entry o2n doms) is ?t) = length ?t
    \<and> (\<forall>i\<in>set is. fold (tree_entry o2n doms) is ?t ! (o2n ! i)
        = u32 (if doms ! i < length o2n then o2n ! (doms ! i) else 0))
    \<and> (\<forall>v<length ?t. v \<notin> (!) o2n ` set is \<longrightarrow> fold (tree_entry o2n doms) is ?t ! v = ?t ! v)"
    using Cons.IH [of ?t] Cons.prems t(1) by simp
  have new: "o2n ! i \<notin> (!) o2n ` set is" using Cons.prems(1) by simp
  show ?case using IH t new Cons.prems(2) by (auto simp del: One_nat_def)
qed simp

section \<open>Retained sizes along the tree\<close>

definition tree_edges :: "nat list \<Rightarrow> nat list \<Rightarrow> nat \<Rightarrow> (nat \<times> nat) set" where
  "tree_edges order tree k = {(order ! i, tree ! (order ! i)) | i. i < k}"

text \<open>The nodes below a node in the dominator tree, itself included.\<close>

definition dominated_by :: "nat list \<Rightarrow> nat list \<Rightarrow> nat \<Rightarrow> nat \<Rightarrow> nat set" where
  "dominated_by order tree k v = {u. u < length order \<and> (u, v) \<in> (tree_edges order tree k)\<^sup>*}"

text \<open>Every node but the last has its dominator later in the order.\<close>

definition dominators_later :: "nat list \<Rightarrow> nat list \<Rightarrow> bool" where
  "dominators_later order tree \<longleftrightarrow>
     (\<forall>i. Suc i < length order \<longrightarrow> (\<exists>j<length order. i < j \<and> tree ! (order ! i) = order ! j))"

lemma tree_edges_Suc: "tree_edges order tree (Suc k) = insert (order ! k, tree ! (order ! k)) (tree_edges order tree k)"
  by (auto simp: tree_edges_def less_Suc_eq)

lemma no_edge_yet:
  assumes "distinct order" "k \<le> j" "j < length order"
  shows "(order ! j, y) \<in> (tree_edges order tree k)\<^sup>* \<longleftrightarrow> y = order ! j"
proof -
  have "order ! j \<notin> Domain (tree_edges order tree k)"
    using assms by (auto simp: tree_edges_def nth_eq_iff_index_eq)
  then show ?thesis by (auto simp: Not_Domain_rtrancl)
qed

lemma tree_edges_single:
  assumes "distinct order" "k \<le> length order"
  shows "single_valued (tree_edges order tree k)"
  using assms by (auto simp: single_valued_def tree_edges_def nth_eq_iff_index_eq)

lemma single_valued_ends:
  assumes "single_valued r" "(u, a) \<in> r\<^sup>*" "(u, b) \<in> r\<^sup>*"
  shows "(a, b) \<in> r\<^sup>* \<or> (b, a) \<in> r\<^sup>*"
  using single_valued_confluent [OF assms] .

lemma dominated_by_Suc:
  assumes "distinct order" "k < j" "j < length order" "tree ! (order ! k) = order ! j"
  shows "dominated_by order tree (Suc k) v =
      (if v = order ! j then dominated_by order tree k v \<union> dominated_by order tree k (order ! k)
       else dominated_by order tree k v)"
    "dominated_by order tree k (order ! j) \<inter> dominated_by order tree k (order ! k) = {}"
proof -
  let ?r = "tree_edges order tree k"
  have dj: "(order ! j, y) \<in> ?r\<^sup>* \<longleftrightarrow> y = order ! j" and dk: "(order ! k, y) \<in> ?r\<^sup>* \<longleftrightarrow> y = order ! k" for y
    using no_edge_yet [OF assms(1), of k _ y tree] assms(2,3) by simp_all
  have "(tree_edges order tree (Suc k))\<^sup>* = ?r\<^sup>* \<union> {(x, y). (x, order ! k) \<in> ?r\<^sup>* \<and> (order ! j, y) \<in> ?r\<^sup>*}"
    by (simp add: tree_edges_Suc assms(4) rtrancl_insert)
  then show "dominated_by order tree (Suc k) v =
      (if v = order ! j then dominated_by order tree k v \<union> dominated_by order tree k (order ! k)
       else dominated_by order tree k v)"
    using dj by (auto simp: dominated_by_def)
  have neq: "order ! j \<noteq> order ! k" using assms(1-3) by (simp add: nth_eq_iff_index_eq)
  have "False" if "(u, order ! j) \<in> ?r\<^sup>*" "(u, order ! k) \<in> ?r\<^sup>*" for u
    using single_valued_ends [OF tree_edges_single [OF assms(1), of k tree] that] dj dk neq assms(2,3) by auto
  then show "dominated_by order tree k (order ! j) \<inter> dominated_by order tree k (order ! k) = {}"
    by (auto simp: dominated_by_def)
qed

definition ret_at :: "HeapLoader \<Rightarrow> nat \<Rightarrow> int" where
  "ret_at L v = hn_retainedSize (hl_nodes L ! v)"

lemma add_retained_effect:
  assumes "wf_loader L" "a < length (hl_nodes L)" "hl_dominatorTree L ! a < length (hl_nodes L)"
  shows "ret_at (add_retained a L) v = (if v = hl_dominatorTree L ! a then ret_at L v + ret_at L a else ret_at L v)"
    "shape (add_retained a L) = shape L" "hl_dominatorTree (add_retained a L) = hl_dominatorTree L"
  using wf_loader_simps(1) [OF assms(1,2)] assms(3) shape_upd(3)
  by (auto simp: add_retained_def Let_def ret_at_def retained.get_upd_node) (auto simp: upd_node_def)

lemma propagate_step:
  assumes "wf_loader L" "distinct order" "set order = {..<length (hl_nodes L)}" "dominators_later order (hl_dominatorTree L)"
    and "k < length order"
  defines "Lk \<equiv> fold (\<lambda>idx. add_retained (order ! idx)) [0..<k] L"
  shows "shape Lk = shape L \<and> hl_dominatorTree Lk = hl_dominatorTree L
    \<and> (\<forall>v<length (hl_nodes L). ret_at Lk v = (\<Sum>u\<in>dominated_by order (hl_dominatorTree L) k v. ret_at L u))"
  unfolding Lk_def using assms(5)
proof (induction k)
  case 0
  have "dominated_by order (hl_dominatorTree L) 0 v = {v}" if "v < length (hl_nodes L)" for v
    using that distinct_card [OF assms(2)] assms(3) by (auto simp: dominated_by_def tree_edges_def)
  then show ?case by simp
next
  case (Suc k)
  let ?T = "hl_dominatorTree L" and ?L = "fold (\<lambda>idx. add_retained (order ! idx)) [0..<k] L"
  have IH: "shape ?L = shape L" "hl_dominatorTree ?L = ?T"
    "\<And>v. v < length (hl_nodes L) \<Longrightarrow> ret_at ?L v = (\<Sum>u\<in>dominated_by order ?T k v. ret_at L u)"
    using Suc by auto
  obtain j where j: "k < j" "j < length order" "?T ! (order ! k) = order ! j"
    using assms(4) Suc.prems by (auto simp: dominators_later_def)
  have ns: "order ! k < length (hl_nodes L)" "order ! j < length (hl_nodes L)"
    using assms(3) j(1,2) nth_mem [of k order] nth_mem [of j order] by auto
  note len = shape_nodes(1) [OF IH(1)]
  have wf: "wf_loader ?L" using wf_loader_shape [OF IH(1)] assms(1) by simp
  note eff = add_retained_effect [OF wf, of "order ! k", unfolded IH(2) j(3) len, OF ns]
  note sets = dominated_by_Suc [OF assms(2) j]
  have fin: "finite (dominated_by order ?T k v)" for v by (simp add: dominated_by_def)
  have "ret_at (add_retained (order ! k) ?L) v = (\<Sum>u\<in>dominated_by order ?T (Suc k) v. ret_at L u)"
    if "v < length (hl_nodes L)" for v
    unfolding eff(1) sets(1) using that ns IH(3) sets(2) by (simp add: sum.union_disjoint fin)
  then show ?case using eff(2,3) IH(1,2) by simp
qed

lemma root_dominates_all:
  assumes "dominators_later order tree" "i < length order"
  shows "(order ! i, last order) \<in> (tree_edges order tree (length order - 1))\<^sup>*"
  using assms(2)
proof (induction "length order - i" arbitrary: i rule: less_induct)
  case less
  show ?case
  proof (cases "Suc i < length order")
    case True
    then obtain j where j: "j < length order" "i < j" "tree ! (order ! i) = order ! j"
      using assms(1) by (auto simp: dominators_later_def)
    have "(order ! i, order ! j) \<in> tree_edges order tree (length order - 1)"
      using True j(3) by (force simp: tree_edges_def)
    then show ?thesis using less.hyps [of j] j(1,2) by (meson converse_rtrancl_into_rtrancl diff_less_mono2 le_eq_less_or_eq less_trans)
  next
    case False
    then have "i = length order - 1" "order \<noteq> []" using less.prems by auto
    then show ?thesis by (simp add: last_conv_nth)
  qed
qed

text \<open>When every node comes before its dominator in the order, the propagation leaves each node with
  the sum of the sizes of exactly the nodes below it in the dominator tree, each counted once; the
  root retains the sum over the whole heap.\<close>

theorem propagate_sizes_correct:
  assumes "wf_loader L" "distinct order" "set order = {..<length (hl_nodes L)}" "last order = 0"
    and "dominators_later order (hl_dominatorTree L)"
  shows "(\<forall>v<length (hl_nodes L). ret_at (propagate_sizes order L) v
      = (\<Sum>u\<in>dominated_by order (hl_dominatorTree L) (length order - 1) v. ret_at L u))
    \<and> ret_at (propagate_sizes order L) 0 = (\<Sum>u<length (hl_nodes L). ret_at L u)
    \<and> shape (propagate_sizes order L) = shape L"
proof -
  have len: "length order = length (hl_nodes L)" using distinct_card [OF assms(2)] assms(3) by simp
  have n: "0 < length (hl_nodes L)" "hl_nodeCount L = length order" using wf_loader_simps(6,8) [OF assms(1)] len by simp_all
  have "length order - 1 < length order" using n len by simp
  note step = propagate_step [OF assms(1-3,5) this]
  have P: "propagate_sizes order L = fold (\<lambda>idx. add_retained (order ! idx)) [0..<length order - 1] L"
    by (simp add: propagate_sizes_def n(2))
  have "dominated_by order (hl_dominatorTree L) (length order - 1) 0 = {..<length (hl_nodes L)}"
  proof
    show "{..<length (hl_nodes L)} \<subseteq> dominated_by order (hl_dominatorTree L) (length order - 1) 0"
    proof
      fix u assume "u \<in> {..<length (hl_nodes L)}"
      then obtain i where "i < length order" "order ! i = u" using in_set_conv_nth [of u order] unfolding assms(3) by auto
      then show "u \<in> dominated_by order (hl_dominatorTree L) (length order - 1) 0"
        using root_dominates_all [OF assms(5)] assms(4) \<open>u \<in> _\<close> len by (auto simp: dominated_by_def)
    qed
  qed (auto simp: dominated_by_def len)
  then show ?thesis using step n(1) by (simp add: P)
qed


section \<open>Retained sizes for any order\<close>

text \<open>What a node passes on along the tree: \<open>m\<close> steps up from \<open>u\<close>, each from a node that was among the first \<open>k\<close> of the order,
  and each but the last to a node that comes later than the one before. A node that is reached only after it had its turn keeps what it gets.\<close>

definition climbs :: "nat list \<Rightarrow> nat list \<Rightarrow> nat \<Rightarrow> nat \<Rightarrow> nat \<Rightarrow> bool" where
  "climbs idx tree k u m \<longleftrightarrow> (\<forall>i<m. idx ! (((!) tree ^^ i) u) < k) \<and> (\<forall>i. Suc i < m \<longrightarrow> idx ! (((!) tree ^^ i) u) < idx ! (((!) tree ^^ Suc i) u))"

definition climbs_to :: "nat list \<Rightarrow> nat list \<Rightarrow> nat \<Rightarrow> nat \<Rightarrow> nat \<Rightarrow> nat set" where
  "climbs_to idx tree k u v = {m. climbs idx tree k u m \<and> ((!) tree ^^ m) u = v}"

lemma climbs_to_0: "climbs_to idx tree 0 u v = (if u = v then {0} else {})"
proof -
  have "climbs idx tree 0 u m \<longleftrightarrow> m = 0" for m
  proof
    show "m = 0" if "climbs idx tree 0 u m" using that unfolding climbs_def by (meson not_less0 gr0I)
  qed (simp add: climbs_def)
  then have "climbs_to idx tree 0 u v = {m. m = 0 \<and> u = v}" unfolding climbs_to_def by (intro Collect_cong) (metis funpow_0)
  then show ?thesis by simp
qed

lemma funpow_below: "\<forall>v<n. f v < n \<Longrightarrow> u < (n :: nat) \<Longrightarrow> (f ^^ m) u < n"
  by (induction m) auto

text \<open>The turn of the node \<open>w\<close> at place \<open>k\<close>: one more step for every way that ended in \<open>w\<close>.\<close>

lemma climbs_Suc:
  assumes "idx ! w = k" "\<And>i. idx ! (((!) tree ^^ i) u) = k \<Longrightarrow> ((!) tree ^^ i) u = w"
  shows "climbs idx tree (Suc k) u m' \<longleftrightarrow> climbs idx tree k u m' \<or> (\<exists>m. m' = Suc m \<and> climbs idx tree k u m \<and> ((!) tree ^^ m) u = w)"
proof -
  let ?a = "\<lambda>i. idx ! (((!) tree ^^ i) u)"
  have 1: "\<exists>m. m' = Suc m \<and> climbs idx tree k u m \<and> ((!) tree ^^ m) u = w" if c: "climbs idx tree (Suc k) u m'" and n: "\<not> climbs idx tree k u m'"
  proof -
    have up: "\<And>i. i < m' \<Longrightarrow> ?a i < Suc k" "\<And>i. Suc i < m' \<Longrightarrow> ?a i < ?a (Suc i)" using c unfolding climbs_def by blast+
    obtain m where m: "m < m'" "\<not> ?a m < k" using n up(2) unfolding climbs_def by blast
    have "\<not> Suc m < m'" using up(1) [of "Suc m"] up(2) [of m] m(2) by linarith
    then have "m' = Suc m" using m(1) by simp
    moreover have "?a m = k" using up(1) m by fastforce
    moreover have "?a i < k" if "i < m" for i using up(1) [of "Suc i"] up(2) [of i] that m(1) by linarith
    ultimately show ?thesis using assms(2) up(2) unfolding climbs_def by auto
  qed
  have 2: "climbs idx tree (Suc k) u (Suc m)" if c: "climbs idx tree k u m" "((!) tree ^^ m) u = w" for m
  proof -
    have low: "\<And>i. i < m \<Longrightarrow> ?a i < k" "\<And>i. Suc i < m \<Longrightarrow> ?a i < ?a (Suc i)" and top: "?a m = k" using c assms(1) unfolding climbs_def by auto
    have "?a i < Suc k" if "i < Suc m" for i using low(1) [of i] top that by (cases "i = m") auto
    moreover have "?a i < ?a (Suc i)" if "Suc i < Suc m" for i using low(1) [of i] low(2) [of i] top that by (cases "Suc i = m") auto
    ultimately show ?thesis unfolding climbs_def by blast
  qed
  have 3: "climbs idx tree (Suc k) u m'" if "climbs idx tree k u m'" using that unfolding climbs_def by (meson less_SucI)
  show ?thesis using 1 2 3 by blast
qed

lemma climbs_to_Suc:
  assumes "idx ! w = k" "\<And>i. idx ! (((!) tree ^^ i) u) = k \<Longrightarrow> ((!) tree ^^ i) u = w"
  shows "climbs_to idx tree (Suc k) u v = climbs_to idx tree k u v \<union> (if v = tree ! w then Suc ` climbs_to idx tree k u w else {})"
    "climbs_to idx tree k u v \<inter> Suc ` climbs_to idx tree k u w = {}"
  using assms(1) by (auto simp: climbs_to_def climbs_Suc [OF assms]) (auto simp: climbs_def)

lemma card_climbs_to_Suc:
  assumes "idx ! w = k" "\<And>i. idx ! (((!) tree ^^ i) u) = k \<Longrightarrow> ((!) tree ^^ i) u = w" "\<And>x. finite (climbs_to idx tree k u x)"
  shows "finite (climbs_to idx tree (Suc k) u v)"
    "card (climbs_to idx tree (Suc k) u v) = card (climbs_to idx tree k u v) + (if v = tree ! w then card (climbs_to idx tree k u w) else 0)"
  using assms(3) climbs_to_Suc(2) [OF assms(1,2)] by (simp_all add: climbs_to_Suc(1) [OF assms(1,2)] card_Un_disjoint card_image)

lemma propagate_ways:
  assumes "wf_loader L" "length order = length (hl_nodes L)" "set order = {..<length (hl_nodes L)}" "\<forall>i<length order. idx ! (order ! i) = i"
    "\<forall>v<length (hl_nodes L). hl_dominatorTree L ! v < length (hl_nodes L)" "k \<le> length order"
  defines "Lk \<equiv> fold (\<lambda>i. add_retained (order ! i)) [0..<k] L"
  shows "shape Lk = shape L \<and> hl_dominatorTree Lk = hl_dominatorTree L \<and> (\<forall>u<length (hl_nodes L). \<forall>v. finite (climbs_to idx (hl_dominatorTree L) k u v))
    \<and> (\<forall>v<length (hl_nodes L). ret_at Lk v = (\<Sum>u<length (hl_nodes L). int (card (climbs_to idx (hl_dominatorTree L) k u v)) * ret_at L u))"
  unfolding Lk_def using assms(6)
proof (induction k)
  case 0
  have "int (card (climbs_to idx T 0 u v)) * r = (if u = v then r else 0)" for T u v and r :: int by (simp add: climbs_to_0)
  then show ?case by (simp add: climbs_to_0 sum.delta)
next
  case (Suc k)
  let ?T = "hl_dominatorTree L" and ?L = "fold (\<lambda>i. add_retained (order ! i)) [0..<k] L" and ?n = "length (hl_nodes L)" and ?w = "order ! k"
  let ?c = "\<lambda>k u v. int (card (climbs_to idx ?T k u v))"
  have IH: "shape ?L = shape L" "hl_dominatorTree ?L = ?T" "\<And>u v. u < ?n \<Longrightarrow> finite (climbs_to idx ?T k u v)"
    "\<And>v. v < ?n \<Longrightarrow> ret_at ?L v = (\<Sum>u<?n. ?c k u v * ret_at L u)" using Suc by auto
  have w: "?w < ?n" "idx ! ?w = k" using assms(3,4) Suc.prems nth_mem [of k order] by auto
  have inj: "x = ?w" if "x < ?n" "idx ! x = k" for x
  proof -
    from that(1) obtain i where "i < length order" "order ! i = x" using in_set_conv_nth [of x order] unfolding assms(3) by auto
    then show ?thesis using assms(4) that(2) by auto
  qed
  have uw: "((!) ?T ^^ i) u = ?w" if "u < ?n" "idx ! (((!) ?T ^^ i) u) = k" for u i
    using inj [OF funpow_below [OF assms(5) that(1)] that(2)] .
  note card = card_climbs_to_Suc [OF w(2) uw IH(3)]
  note len = shape_nodes(1) [OF IH(1)]
  have wf: "wf_loader ?L" using wf_loader_shape [OF IH(1)] assms(1) by simp
  have "?T ! ?w < ?n" using assms(5) w(1) by simp
  note eff = add_retained_effect [OF wf, of ?w, unfolded IH(2) len, OF w(1) this]
  have "ret_at (add_retained ?w ?L) v = (\<Sum>u<?n. ?c (Suc k) u v * ret_at L u)" if v: "v < ?n" for v
  proof -
    have "(\<Sum>u<?n. ?c (Suc k) u v * ret_at L u) = (\<Sum>u<?n. ?c k u v * ret_at L u + (if v = ?T ! ?w then ?c k u ?w * ret_at L u else 0))"
      by (intro sum.cong refl) (simp add: card(2) distrib_right)
    also have "\<dots> = ret_at ?L v + (if v = ?T ! ?w then ret_at ?L ?w else 0)" using IH(4) v w(1) by (simp add: sum.distrib)
    finally show ?thesis by (simp add: eff(1))
  qed
  then show ?case using eff(2,3) IH(1,2) card(1) by simp
qed

text \<open>C25: the propagation of the sizes, for every order that lists the nodes once, whatever the dominators are: a node ends with the sizes of the nodes below it,
  each as often as it can be climbed to from there by steps that each lead to a node whose turn is still to come, but for the last one. So a size is lost to all nodes
  above a dominator that had its turn before the node it dominates.\<close>

theorem propagate_sizes_climbs:
  assumes "wf_loader L" "length order = length (hl_nodes L)" "set order = {..<length (hl_nodes L)}" "\<forall>i<length order. idx ! (order ! i) = i"
    "\<forall>v<length (hl_nodes L). hl_dominatorTree L ! v < length (hl_nodes L)"
  shows "(\<forall>v<length (hl_nodes L). ret_at (propagate_sizes order L) v
      = (\<Sum>u<length (hl_nodes L). int (card (climbs_to idx (hl_dominatorTree L) (length (hl_nodes L) - 1) u v)) * ret_at L u))
    \<and> shape (propagate_sizes order L) = shape L"
proof -
  have "propagate_sizes order L = fold (\<lambda>i. add_retained (order ! i)) [0..<length (hl_nodes L) - 1] L"
    using wf_loader_simps(6) [OF assms(1)] by (simp add: propagate_sizes_def)
  then show ?thesis using propagate_ways [OF assms, of "length (hl_nodes L) - 1"] assms(2) by simp
qed

section \<open>The dominated nodes of a node\<close>

definition dominated_of :: "HeapLoader \<Rightarrow> nat \<Rightarrow> nat list" where
  "dominated_of L v = map ((!) (hl_dominatedNodes L)) [hl_firstDominatedNodesIdx L ! v..<hl_firstDominatedNodesIdx L ! (v + 1)]"

lemma fold_dominated_step:
  "hl_dominatedNodes (fold dominated_step is L)
     = fst (csr_fill2 (hl_firstDominatedNodesIdx L) (map (\<lambda>i. (hl_dominatorTree L ! i, i, q)) is) (hl_dominatedNodes L) brr)
   \<and> hl_firstDominatedNodesIdx (fold dominated_step is L) = hl_firstDominatedNodesIdx L"
proof (induction "is" arbitrary: L brr)
  case (Cons i "is")
  obtain pos dn where put: "csr_put (hl_firstDominatedNodesIdx L) (hl_dominatedNodes L) (hl_dominatorTree L ! i) i = (pos, dn)"
    by (cases "csr_put (hl_firstDominatedNodesIdx L) (hl_dominatedNodes L) (hl_dominatorTree L ! i) i")
  show ?case using Cons.IH [of "dominated_step i L" "u32_set brr pos q"] put by (simp add: dominated_step_def)
qed simp

lemma csr_fill2_cong:
  assumes "\<forall>it\<in>set its. fst it < n" "\<forall>k<n. f ! k = g ! k"
  shows "csr_fill2 f its a b = csr_fill2 g its a b"
  using assms(1)
  by (induction its arbitrary: a b) (auto simp: csr_put_def Let_def assms(2))

text \<open>C15: from a dominator tree with entries in range, \<open>buildDominatedNode\<close> gives every node the list of
  exactly the nodes other than the root that have it as dominator, without loss or duplication.\<close>

theorem buildDominatedNode_correct:
  assumes "wf_loader L" "length (hl_dominatorTree L) = length (hl_nodes L)"
    and "\<forall>v<length (hl_nodes L). hl_dominatorTree L ! v < length (hl_nodes L)"
    and "hl_firstDominatedNodesIdx L = replicate (length (hl_nodes L) + 1) 0"
      "hl_dominatedNodes L = replicate (length (hl_nodes L) - 1) 0"
  shows "\<exists>L'. buildDominatedNode L = Inr L' \<and>
    (\<forall>v<length (hl_nodes L). dominated_of L' v = rev (filter (\<lambda>i. hl_dominatorTree L ! i = v) [1..<length (hl_nodes L)]))"
proof -
  let ?n = "length (hl_nodes L)" and ?T = "hl_dominatorTree L"
  note wf = wf_loader_simps [OF assms(1)]
  define its where "its = map (\<lambda>i. (?T ! i, i, 0 :: nat)) [1..<?n]"
  obtain first dn where st: "csr_starts [0..<?n] (csr_count (map fst its) (replicate (Suc ?n) 0)) (replicate (?n - 1) 0) 0 = (first, dn)"
    by (cases "csr_starts [0..<?n] (csr_count (map fst its) (replicate (Suc ?n) 0)) (replicate (?n - 1) 0) 0")
  obtain dn' brr where fl: "csr_fill2 first its dn (replicate (?n - 1) 0) = (dn', brr)"
    by (cases "csr_fill2 first its dn (replicate (?n - 1) 0)")
  have keys: "\<forall>it\<in>set its. fst it < ?n \<and> fst (snd it) < 4294967296 \<and> snd (snd it) < 4294967296"
    using assms(3) wf(10) by (auto simp: its_def)
  have li: "length its = ?n - 1" by (simp add: its_def)
  note csr = csr_correct [OF keys _ _ st fl, unfolded li, OF order.refl less_imp_diff_less [OF wf(10)]]
  let ?cnt = "count_list (map fst its)"
  define L1 where "L1 = L\<lparr>hl_dominatedNodes := dn, hl_firstDominatedNodesIdx := first[?n := ?n - 1]\<rparr>"
  have root: "hn_nodeIndex (rootNode L) = 0" using wf(1,8) by simp
  have mf: "map (\<lambda>i. ?T ! i) [1..<?n] = map fst its" by (simp add: its_def comp_def)
  have run: "buildDominatedNode L = Inr (fold dominated_step [1..<?n] L1)"
    unfolding buildDominatedNode_def Let_def root wf(6) assms(4,5)
    using st csr(2) wf(10) by (simp add: mf [unfolded One_nat_def] L1_def u32_set_def del: replicate_Suc upt_Suc)
  have fill: "csr_fill2 (first[?n := ?n - 1]) its dn (replicate (?n - 1) 0) = (dn', brr)"
    using csr_fill2_cong [of its ?n "first[?n := ?n - 1]" first] keys fl by simp
  let ?L' = "fold dominated_step [1..<?n] L1"
  have dn': "hl_dominatedNodes ?L' = dn'" "hl_firstDominatedNodesIdx ?L' = first[?n := ?n - 1]"
    using fold_dominated_step [of "[1..<?n]" L1 0 "replicate (?n - 1) 0"] fill by (simp_all add: L1_def its_def)
  have "dominated_of ?L' v = rev (filter (\<lambda>i. ?T ! i = v) [1..<?n])" if v: "v < ?n" for v
  proof -
    have "first[?n := ?n - 1] ! Suc v = start_of ?cnt (Suc v)"
      using csr(1,5,6) v by (cases "Suc v = ?n") (auto simp: nth_list_update)
    then have "dominated_of ?L' v = map ((!) dn') [start_of ?cnt v..<start_of ?cnt v + ?cnt v]"
      unfolding dominated_of_def dn' using csr(5) [OF v] v start_Suc [of ?cnt v] by simp
    also have "\<dots> = take (?cnt v) (drop (start_of ?cnt v) dn')"
      using csr(3) csr(7) [OF v] by (intro nth_equalityI) auto
    also have "\<dots> = rev (map fst (of_key v its))" using csr(8) [OF v] .
    also have "map fst (of_key v its) = filter (\<lambda>i. ?T ! i = v) [1..<?n]"
      by (simp add: of_key_def its_def filter_map comp_def)
    finally show ?thesis .
  qed
  then show ?thesis using run by blast
qed

section \<open>Witnesses\<close>

theorem buildDominatedNode_correct_witness:
  "\<exists>L'. buildDominatedNode demo_loader = Inr L' \<and> dominated_of L' 0 = [2, 1]"
proof -
  have n: "length (hl_nodes demo_loader) = 3" by (simp add: demo_loader_def demo_nodes_def)
  have T: "hl_dominatorTree demo_loader = [0, 0, 0]" "hl_firstDominatedNodesIdx demo_loader = [0, 0, 0, 0]"
    "hl_dominatedNodes demo_loader = [0, 0]"
    by (simp_all add: demo_loader_def)
  have "\<forall>v<3. hl_dominatorTree demo_loader ! v < 3" by (auto simp: T less_Suc_eq small_nats)
  from buildDominatedNode_correct [OF demo_loader_wf, unfolded n, OF _ this]
  obtain L' where "buildDominatedNode demo_loader = Inr L'"
    "\<forall>v<3. dominated_of L' v = rev (filter (\<lambda>i. hl_dominatorTree demo_loader ! i = v) [1..<3])"
    by (auto simp: T small_nats)
  then show ?thesis by (auto simp: T upt_rec)
qed

theorem propagate_sizes_correct_witness:
  "ret_at (propagate_sizes [1, 2, 0] demo_loader) 0 = 17"
proof -
  have n: "length (hl_nodes demo_loader) = 3" and T: "hl_dominatorTree demo_loader = [0, 0, 0]"
    by (simp_all add: demo_loader_def demo_nodes_def)
  have "dominators_later [1, 2, 0] (hl_dominatorTree demo_loader)"
    by (auto simp: dominators_later_def T less_Suc_eq small_nats)
  moreover have "set [1, 2, 0 :: nat] = {..<3}" by auto
  ultimately have "ret_at (propagate_sizes [1, 2, 0] demo_loader) 0 = (\<Sum>u<3. ret_at demo_loader u)"
    using propagate_sizes_correct [OF demo_loader_wf, of "[1, 2, 0]"] n by simp
  then show ?thesis
    by (simp add: lessThan_Suc small_nats ret_at_def demo_loader_def demo_nodes_def mkHeapNode_def)
qed

text \<open>In the small snapshot the root ends with its own size and, over one step each, those of the two other nodes.\<close>

theorem propagate_sizes_climbs_witness:
  "ret_at (propagate_sizes [1, 2, 0] demo_loader) 0 = 17 \<and> ret_at (propagate_sizes [1, 2, 0] demo_loader) 1 = 10"
proof -
  have n: "length (hl_nodes demo_loader) = 3" and T: "hl_dominatorTree demo_loader = [0, 0, 0]"
    by (simp_all add: demo_loader_def demo_nodes_def)
  have order: "length [1, 2, 0 :: nat] = 3" "set [1, 2, 0 :: nat] = {..<3}" "\<forall>i<length [1, 2, 0 :: nat]. [2, 0, 1 :: nat] ! ([1, 2, 0] ! i) = i" "\<forall>v<3. [0, 0, 0 :: nat] ! v < 3"
    by (auto simp: less_Suc_eq small_nats)
  have eq: "\<forall>v<3. ret_at (propagate_sizes [1, 2, 0] demo_loader) v = (\<Sum>u<3. int (card (climbs_to [2, 0, 1] [0, 0, 0] 2 u v)) * ret_at demo_loader u)"
    using propagate_sizes_climbs [OF demo_loader_wf, unfolded n T, OF order] by simp
  have zero: "[0, 0, 0 :: nat] ! i = 0" if "i < 3" for i using that by (auto simp: less_Suc_eq small_nats)
  have up: "((!) [0, 0, 0] ^^ m) u = (if m = 0 then u else (0 :: nat))" if "u < 3" for m u using that by (induction m) (auto simp: zero)
  have "climbs [2, 0, 1] [0, 0, 0] 2 u m \<longleftrightarrow> m = 0 \<or> m = 1 \<and> u \<noteq> 0" if "u < 3" for u m
  proof -
    have "m < 2" if "climbs [2, 0, 1] [0, 0, 0] 2 u m"
    proof (rule ccontr)
      assume "\<not> m < 2"
      then have "[2, 0, 1] ! (((!) [0, 0, 0] ^^ 1) u) < (2 :: nat)" using that unfolding climbs_def by (metis not_less_eq_eq not_le One_nat_def numeral_2_eq_2 less_eq_Suc_le)
      then show False using up [OF \<open>u < 3\<close>, of 1] by simp
    qed
    moreover have "m = 0 \<or> m = 1" if "m < 2" using that by auto
    moreover have "climbs [2, 0, 1] [0, 0, 0] 2 u 0" "climbs [2, 0, 1] [0, 0, 0] 2 u 1 \<longleftrightarrow> u \<noteq> 0" using that by (auto simp: climbs_def less_Suc_eq small_nats)
    ultimately show ?thesis by blast
  qed
  then have "climbs_to [2, 0, 1] [0, 0, 0] 2 u v = (if v = 0 then (if u = 0 then {0} else {1}) else if u = v then {0} else {})" if "u < 3" for u v
    using that up [OF that] by (auto simp: climbs_to_def)
  then show ?thesis using eq by (simp add: lessThan_Suc small_nats ret_at_def demo_loader_def demo_nodes_def mkHeapNode_def)
qed

end
