(* ===== verification/Heap_Stale.thy ===== *)
theory Heap_Stale
  imports Heap_Dominator Heap_Flags
begin

text \<open>
  What \<open>buildDominatorTree\<close> guarantees of every heap, and a heap on which its result is not a dominator
  tree.
\<close>

section \<open>Range\<close>

text \<open>Whatever the heap, a dominator tree that is returned has one entry per node, every entry is
  the index of a node, the root is its own dominator, and nothing else of the loader changes.\<close>

theorem buildDominatorTree_range:
  assumes "wf_loader L" "length (hl_dominatorTree L) = length (hl_nodes L)"
    and "buildOrderIdxAndDominateTree L = Inr (order, L')"
  shows "length (hl_dominatorTree L') = length (hl_nodes L) \<and> (\<forall>v<length (hl_nodes L). hl_dominatorTree L' ! v < length (hl_nodes L))
    \<and> hl_dominatorTree L' ! 0 = 0 \<and> L'\<lparr>hl_dominatorTree := hl_dominatorTree L\<rparr> = L
    \<and> distinct order \<and> set order = {..<length (hl_nodes L)} \<and> last order = 0"
proof -
  let ?n = "length (hl_nodes L)"
  obtain s where s: "buildOrderIdx L = Inr s" "length (po_orderIdx2NodeIdx s) = ?n" "distinct (po_orderIdx2NodeIdx s)"
    "set (po_orderIdx2NodeIdx s) = {..<?n}" "last (po_orderIdx2NodeIdx s) = 0"
    using buildOrderIdx_total [OF assms(1)] by blast
  note wf = wf_loader_simps [OF assms(1)]
  let ?o = "po_orderIdx2NodeIdx s" and ?st = "dom_start L (po_nodeIdx2OrderIdx s)"
  have bt: "buildDominatorTree L ?o (po_nodeIdx2OrderIdx s) = Inr L'" and o: "order = ?o"
    using assms(3) by (auto simp: buildOrderIdxAndDominateTree_def s(1) bindr_eq_Inr_iff)
  obtain t where t: "dom_iterate (?n * ?n + 2) L ?o (po_nodeIdx2OrderIdx s) ?st = Inr t"
    and L': "L' = L\<lparr>hl_dominatorTree := fold (tree_entry ?o (dm_dominators t)) [0..<length (dm_dominators t)] (hl_dominatorTree L)\<rparr>"
    using bt unfolding buildDominatorTree_def Let_def bindr_eq_Inr_iff wf(6) by (metis sum.inject(2))
  have len: "length (dm_dominators t) = ?n" and root: "dm_dominators t ! (?n - 1) = ?n - 1"
    using dom_iterate_frame [OF t] wf(6,8,10) by (simp_all add: dom_start_def Let_def u32_set_def)
  have lt: "?o ! i < ?n" if "i < ?n" for i
    using nth_mem [of i ?o] that unfolding s(2,4) by simp
  have d: "distinct (map ((!) ?o) [0..<?n])" using s(3) by (simp only: map_nth flip: s(2))
  have r: "\<forall>i\<in>set [0..<?n]. ?o ! i < length (hl_dominatorTree L)" using lt assms(2) by simp
  have fte: "length (hl_dominatorTree L') = ?n"
    "\<And>i. i < ?n \<Longrightarrow> hl_dominatorTree L' ! (?o ! i) = u32 (if dm_dominators t ! i < ?n then ?o ! (dm_dominators t ! i) else 0)"
  proof -
    have tree: "hl_dominatorTree L' = fold (tree_entry ?o (dm_dominators t)) [0..<?n] (hl_dominatorTree L)"
      by (simp only: L' len) simp
    note fold_tree_entry [OF d r, of "dm_dominators t", folded tree, unfolded s(2) assms(2) set_upt]
    then show "length (hl_dominatorTree L') = ?n"
      "\<And>i. i < ?n \<Longrightarrow> hl_dominatorTree L' ! (?o ! i) = u32 (if dm_dominators t ! i < ?n then ?o ! (dm_dominators t ! i) else 0)"
      by (blast, metis atLeastLessThan_iff le0)
  qed
  have "hl_dominatorTree L' ! v < ?n" if v: "v < ?n" for v
  proof -
    obtain i where i: "i < ?n" "?o ! i = v" using v in_set_conv_nth [of v ?o] unfolding s(2,4) by auto
    have "(if dm_dominators t ! i < ?n then ?o ! (dm_dominators t ! i) else 0) < ?n" using lt wf(8) by simp
    then show ?thesis using fte(2) [OF i(1)] i(2) wf(10) by (simp add: u32_def)
  qed
  moreover have "hl_dominatorTree L' ! 0 = 0"
  proof -
    have "?o ! (?n - 1) = 0" using s(2,5) wf(8) last_conv_nth [of ?o] by fastforce
    then show ?thesis using fte(2) [of "?n - 1"] root wf(8) by simp
  qed
  ultimately show ?thesis using fte(1) s(3-5) o by (simp add: L')
qed

section \<open>A stale dominator\<close>

text \<open>
  Eight objects: the root (0) holds \<open>x\<close> (1) and \<open>w\<close> (2); \<open>x\<close> holds \<open>q\<close> (3) and \<open>p\<close> (7), \<open>w\<close> holds \<open>z\<close> (4), \<open>q\<close>
  holds \<open>z\<close> and \<open>c\<close> (5), \<open>z\<close> holds \<open>q\<close>, and both \<open>c\<close> and \<open>p\<close> hold \<open>v\<close> (6). The path over \<open>w\<close>, \<open>z\<close>, \<open>q\<close> and \<open>c\<close>
  reaches \<open>v\<close> without \<open>x\<close>.
\<close>

definition stale_node :: "nat \<Rightarrow> nat \<Rightarrow> nat list \<Rightarrow> HeapEdge list \<Rightarrow> HeapNode" where
  "stale_node i first es edges = (mkHeapNode 0 i 3 [] (2 * i + 1) 1 (length es) 0 0 first)\<lparr>hn_edges := map ((!) edges) es\<rparr>"

definition stale_edge :: "nat \<Rightarrow> nat \<Rightarrow> nat \<Rightarrow> HeapEdge" where
  "stale_edge k from to = mkHeapEdge k 2 [] 0 (2 * from + 1) (2 * to + 1)"

definition stale_edges :: "HeapEdge list" where
  "stale_edges = [stale_edge 0 0 1, stale_edge 1 0 2, stale_edge 2 1 3, stale_edge 3 1 7, stale_edge 4 2 4,
     stale_edge 5 3 4, stale_edge 6 3 5, stale_edge 7 4 3, stale_edge 8 5 6, stale_edge 9 7 6]"

definition stale_nodes :: "HeapNode list" where
  "stale_nodes = [stale_node 0 0 [0, 1] stale_edges, stale_node 1 2 [2, 3] stale_edges, stale_node 2 4 [4] stale_edges,
     stale_node 3 5 [5, 6] stale_edges, stale_node 4 7 [7] stale_edges, stale_node 5 8 [8] stale_edges,
     stale_node 6 9 [] stale_edges, stale_node 7 9 [9] stale_edges]"

definition stale_loader :: HeapLoader where
  "stale_loader = demo_loader\<lparr>hl_nodes := stale_nodes, hl_nodeMap := nodeMap_of stale_nodes, hl_edges := stale_edges,
     hl_nodeCount := 8, hl_edgeCount := 10, hl_retainingNodes := [0, 0, 4, 1, 3, 2, 3, 7, 5, 1],
     hl_retainingEdges := [0, 1, 7, 2, 5, 4, 6, 9, 8, 3], hl_firstRetainerIndex := [0, 0, 1, 2, 4, 6, 7, 9, 10],
     hl_dominatorTree := replicate 8 0\<rparr>"

lemma u32_code [code]: "u32 v = (if v < 64 then v else v mod 4294967296)"
  by (simp add: u32_def)

lemma all_less_8: "(\<forall>i<8 :: nat. P i) \<longleftrightarrow> P 0 \<and> P 1 \<and> P 2 \<and> P 3 \<and> P 4 \<and> P 5 \<and> P 6 \<and> P 7"
  by (simp add: numeral_eq_Suc All_less_Suc) blast

lemma all_less_10: "(\<forall>i<10 :: nat. P i) \<longleftrightarrow> P 0 \<and> P 1 \<and> P 2 \<and> P 3 \<and> P 4 \<and> P 5 \<and> P 6 \<and> P 7 \<and> P 8 \<and> P 9"
  by (simp add: numeral_eq_Suc All_less_Suc) blast

lemma stale_wf: "wf_loader stale_loader"
proof -
  have n: "length stale_nodes = 8" "length stale_edges = 10" by (simp_all add: stale_nodes_def stale_edges_def)
  have cnt: "map hn_edgeCount stale_nodes = [2, 2, 1, 2, 1, 1, 0, 1]" and ids: "map hn_id stale_nodes = [1, 3, 5, 7, 9, 11, 13, 15]"
    by (simp_all add: stale_nodes_def stale_node_def mkHeapNode_def)
  have nodes: "\<forall>i<8. hn_nodeIndex (stale_nodes ! i) = i \<and> hn_firstEdgeIndex (stale_nodes ! i) = edges_before stale_nodes i
      \<and> hn_id (stale_nodes ! i) < 4294967296"
    unfolding all_less_8 edges_before_def take_map [symmetric] cnt
    by (simp add: stale_nodes_def stale_node_def mkHeapNode_def)
  have edges: "\<forall>k<10. he_edgeIndex (stale_edges ! k) = k \<and> he_toNodeId (stale_edges ! k) \<in> set (map hn_id stale_nodes)"
    unfolding all_less_10 ids by (simp add: stale_edges_def stale_edge_def mkHeapEdge_def)
  have "edges_before stale_nodes 8 = 10" unfolding edges_before_def take_map [symmetric] cnt by simp
  moreover have "distinct (map hn_id stale_nodes)" unfolding ids by simp
  ultimately show ?thesis
    using n nodes edges by (simp add: wf_loader_def wf_snapshot_def stale_loader_def demo_loader_def)
qed

lemma stale_order:
  "map_sum id (\<lambda>s. (po_orderIdx2NodeIdx s, po_nodeIdx2OrderIdx s)) (buildOrderIdx stale_loader)
     = Inr ([4, 6, 5, 3, 7, 1, 2, 0], [7, 5, 6, 3, 0, 2, 1, 4])"
  by code_simp

lemma stale_passes:
  "dom_start stale_loader [7, 5, 6, 3, 0, 2, 1, 4] =
     \<lparr>dm_dominators = [8, 8, 8, 8, 8, 8, 8, 7], dm_affected = [0, 0, 0, 0, 0, 1, 1, 0], dm_changed = True\<rparr>"
  "dom_pass stale_loader [4, 6, 5, 3, 7, 1, 2, 0] [7, 5, 6, 3, 0, 2, 1, 4] [6, 5, 4, 3, 2, 1, 0]
     \<lparr>dm_dominators = [8, 8, 8, 8, 8, 8, 8, 7], dm_affected = [0, 0, 0, 0, 0, 1, 1, 0], dm_changed = False\<rparr>
   = Inr \<lparr>dm_dominators = [7, 5, 3, 5, 5, 7, 7, 7], dm_affected = [0, 0, 0, 1, 0, 0, 0, 0], dm_changed = True\<rparr>"
  "dom_pass stale_loader [4, 6, 5, 3, 7, 1, 2, 0] [7, 5, 6, 3, 0, 2, 1, 4] [6, 5, 4, 3, 2, 1, 0]
     \<lparr>dm_dominators = [7, 5, 3, 5, 5, 7, 7, 7], dm_affected = [0, 0, 0, 1, 0, 0, 0, 0], dm_changed = False\<rparr>
   = Inr \<lparr>dm_dominators = [7, 5, 3, 7, 5, 7, 7, 7], dm_affected = [0, 0, 0, 0, 0, 0, 0, 0], dm_changed = True\<rparr>"
  "dom_pass stale_loader [4, 6, 5, 3, 7, 1, 2, 0] [7, 5, 6, 3, 0, 2, 1, 4] [6, 5, 4, 3, 2, 1, 0]
     \<lparr>dm_dominators = [7, 5, 3, 7, 5, 7, 7, 7], dm_affected = [0, 0, 0, 0, 0, 0, 0, 0], dm_changed = False\<rparr>
   = Inr \<lparr>dm_dominators = [7, 5, 3, 7, 5, 7, 7, 7], dm_affected = [0, 0, 0, 0, 0, 0, 0, 0], dm_changed = False\<rparr>"
  by code_simp+

lemma stale_tree:
  "fold (tree_entry [4, 6, 5, 3, 7, 1, 2, 0] [7, 5, 3, 7, 5, 7, 7, 7]) [0..<8] (replicate 8 0) = [0, 0, 0, 0, 0, 3, 1, 1]"
  by code_simp

lemma stale_run:
  "buildOrderIdxAndDominateTree stale_loader
     = Inr ([4, 6, 5, 3, 7, 1, 2, 0], stale_loader\<lparr>hl_dominatorTree := [0, 0, 0, 0, 0, 3, 1, 1]\<rparr>)"
proof -
  obtain s where s: "buildOrderIdx stale_loader = Inr s" "po_orderIdx2NodeIdx s = [4, 6, 5, 3, 7, 1, 2, 0]"
    "po_nodeIdx2OrderIdx s = [7, 5, 6, 3, 0, 2, 1, 4]"
    using stale_order by (cases "buildOrderIdx stale_loader") auto
  have n: "hl_nodeCount stale_loader = 8" "hl_dominatorTree stale_loader = replicate 8 0" by (simp_all add: stale_loader_def)
  have is7: "rev [0..<8 - 1] = [6, 5, 4, 3, 2, 1, 0 :: nat]" by code_simp
  have fuel: "(8 * 8 + 2 :: nat) = Suc (Suc (Suc (Suc 62)))" by simp
  have it: "dom_iterate (8 * 8 + 2) stale_loader [4, 6, 5, 3, 7, 1, 2, 0] [7, 5, 6, 3, 0, 2, 1, 4]
      (dom_start stale_loader [7, 5, 6, 3, 0, 2, 1, 4])
    = Inr \<lparr>dm_dominators = [7, 5, 3, 7, 5, 7, 7, 7], dm_affected = [0, 0, 0, 0, 0, 0, 0, 0], dm_changed = False\<rparr>"
    unfolding fuel dom_iterate.simps n(1) is7 stale_passes(1) by (simp add: stale_passes del: dom_pass.simps One_nat_def)
  have len: "length [7, 5, 3, 7, 5, 7, 7, 7 :: nat] = 8" by simp
  show ?thesis
    unfolding buildOrderIdxAndDominateTree_def buildDominatorTree_def Let_def s(1) n bindr.simps s(2,3) it
      DomState.select_convs len stale_tree ..
qed

text \<open>The edges that count for retention: the paths of \<open>isEssentialEdge\<close>.\<close>

definition e_succ :: "HeapLoader \<Rightarrow> nat \<Rightarrow> nat set" where
  "e_succ L u = {c. \<exists>e\<in>set (hn_edges (hl_nodes L ! u)). isEssentialEdge L e (hn_id (hl_nodes L ! u))
     \<and> hl_nodeMap L (he_toNodeId e) = Some c}"

lemma stale_path: "6 \<in> reach (\<lambda>u. e_succ stale_loader u - {1}) {0}"
proof -
  have map: "hl_nodeMap stale_loader = nodeMap_of stale_nodes" "hl_nodes stale_loader = stale_nodes" by (simp_all add: stale_loader_def)
  have look: "nodeMap_of stale_nodes (2 * c + 1) = Some c" if "c < 8" for c
    using wf_loader_simps(2) [OF stale_wf, of "2 * c + 1" c] that unfolding map
    using all_less_8 [of "\<lambda>c. hn_id (stale_nodes ! c) = 2 * c + 1"]
    by (simp add: stale_nodes_def stale_node_def mkHeapNode_def)
  have edge: "c \<in> e_succ stale_loader u - {1}"
    if "stale_edge k u c \<in> set (hn_edges (stale_nodes ! u))" "c < 8" "c \<noteq> 1" for k u c
    using that look [OF that(2)]
    by (auto simp: e_succ_def map isEssentialEdge_def stale_edge_def mkHeapEdge_def intro!: bexI [OF _ that(1)])
  have "0 \<in> reach (\<lambda>u. e_succ stale_loader u - {1}) {0}" by (rule reach.seed) simp
  then have "2 \<in> reach (\<lambda>u. e_succ stale_loader u - {1}) {0}"
    by (rule reach.step) (rule edge [of 1], simp_all add: stale_nodes_def stale_node_def stale_edges_def)
  then have "4 \<in> reach (\<lambda>u. e_succ stale_loader u - {1}) {0}"
    by (rule reach.step) (rule edge [of 4], simp_all add: stale_nodes_def stale_node_def stale_edges_def)
  then have "3 \<in> reach (\<lambda>u. e_succ stale_loader u - {1}) {0}"
    by (rule reach.step) (rule edge [of 7], simp_all add: stale_nodes_def stale_node_def stale_edges_def)
  then have "5 \<in> reach (\<lambda>u. e_succ stale_loader u - {1}) {0}"
    by (rule reach.step) (rule edge [of 6], simp_all add: stale_nodes_def stale_node_def stale_edges_def)
  then show ?thesis
    by (rule reach.step) (rule edge [of 8], simp_all add: stale_nodes_def stale_node_def stale_edges_def)
qed

text \<open>C16: the dominators can be wrong. On this well-formed heap the result makes \<open>x\<close> the dominator of \<open>v\<close>,
  although a path of essential edges reaches \<open>v\<close> from the root without \<open>x\<close>: when the dominator of \<open>q\<close>
  moves up in the second pass, only the children of \<open>q\<close> are computed again, not \<open>v\<close>, whose dominator was
  derived from that of \<open>q\<close>.\<close>

theorem stale_dominator:
  "wf_loader stale_loader
   \<and> map_sum id (\<lambda>(order, L). hl_dominatorTree L ! 6) (buildOrderIdxAndDominateTree stale_loader) = Inr 1
   \<and> 6 \<in> reach (\<lambda>u. e_succ stale_loader u - {1}) {0}"
  using stale_wf stale_path by (simp add: stale_run)

theorem buildDominatorTree_range_witness:
  "hl_dominatorTree (stale_loader\<lparr>hl_dominatorTree := [0, 0, 0, 0, 0, 3, 1, 1]\<rparr>) ! 0 = 0
   \<and> distinct [4, 6, 5, 3, 7, 1, 2, 0 :: nat]"
proof -
  have "length (hl_dominatorTree stale_loader) = length (hl_nodes stale_loader)"
    by (simp add: stale_loader_def stale_nodes_def)
  from buildDominatorTree_range [OF stale_wf this stale_run] show ?thesis by blast
qed

section \<open>A lost size\<close>

text \<open>
  Four objects: the root (0) holds \<open>a\<close> (1) by a property and \<open>q\<close> (3) by a shortcut, \<open>a\<close> holds \<open>p\<close> (2), and \<open>p\<close> and \<open>q\<close> hold each other. The marking finds all
  three queryable and \<open>p\<close> and \<open>q\<close> owned by the page. The order follows the edge from \<open>a\<close> to \<open>p\<close>, since \<open>a\<close> has some flag; the dominators
  leave it out, since \<open>a\<close> does not have the flag of the page. So \<open>q\<close> dominates \<open>p\<close> and comes before it.
\<close>

definition lost_edges :: "HeapEdge list" where
  "lost_edges = [stale_edge 0 0 1, (stale_edge 1 0 3)\<lparr>he_type := EdgeType_num EdgeType_SHORTCUT\<rparr>, stale_edge 2 1 2, stale_edge 3 2 3, stale_edge 4 3 2]"

definition lost_nodes :: "HeapNode list" where
  "lost_nodes = [(stale_node 0 0 [0, 1] lost_edges)\<lparr>hn_retainedSize := 0\<rparr>, (stale_node 1 2 [2] lost_edges)\<lparr>hn_retainedSize := 1\<rparr>,
     (stale_node 2 3 [3] lost_edges)\<lparr>hn_retainedSize := 10\<rparr>, (stale_node 3 4 [4] lost_edges)\<lparr>hn_retainedSize := 100\<rparr>]"

definition lost_loader :: HeapLoader where
  "lost_loader = demo_loader\<lparr>hl_nodes := lost_nodes, hl_nodeMap := nodeMap_of lost_nodes, hl_edges := lost_edges,
     hl_nodeCount := 4, hl_edgeCount := 5, hl_retainingNodes := [0, 3, 1, 2, 0], hl_retainingEdges := [0, 4, 2, 3, 1],
     hl_firstRetainerIndex := [0, 0, 1, 3, 5], hl_dominatorTree := [0, 0, 0, 0]\<rparr>"

lemma all_less_4: "(\<forall>i<4 :: nat. P i) \<longleftrightarrow> P 0 \<and> P 1 \<and> P 2 \<and> P 3"
  by (simp add: numeral_eq_Suc All_less_Suc) blast

lemma all_less_5: "(\<forall>i<5 :: nat. P i) \<longleftrightarrow> P 0 \<and> P 1 \<and> P 2 \<and> P 3 \<and> P 4"
  by (simp add: numeral_eq_Suc All_less_Suc) blast

lemma lost_wf: "wf_loader lost_loader"
proof -
  have n: "length lost_nodes = 4" "length lost_edges = 5" by (simp_all add: lost_nodes_def lost_edges_def)
  have cnt: "map hn_edgeCount lost_nodes = [2, 1, 1, 1]" and ids: "map hn_id lost_nodes = [1, 3, 5, 7]"
    by (simp_all add: lost_nodes_def stale_node_def mkHeapNode_def)
  have nodes: "\<forall>i<4. hn_nodeIndex (lost_nodes ! i) = i \<and> hn_firstEdgeIndex (lost_nodes ! i) = edges_before lost_nodes i
      \<and> hn_id (lost_nodes ! i) < 4294967296"
    unfolding all_less_4 edges_before_def take_map [symmetric] cnt
    by (simp add: lost_nodes_def stale_node_def mkHeapNode_def)
  have edges: "\<forall>k<5. he_edgeIndex (lost_edges ! k) = k \<and> he_toNodeId (lost_edges ! k) \<in> set (map hn_id lost_nodes)"
    unfolding all_less_5 ids by (simp add: lost_edges_def stale_edge_def mkHeapEdge_def)
  have "edges_before lost_nodes 4 = 5" unfolding edges_before_def take_map [symmetric] cnt by simp
  moreover have "distinct (map hn_id lost_nodes)" unfolding ids by simp
  ultimately show ?thesis
    using n nodes edges by (simp add: wf_loader_def wf_snapshot_def lost_loader_def demo_loader_def)
qed

lemma lost_run:
  "map_option (\<lambda>L. map_sum id (\<lambda>L'. (hl_dominatorTree L', map hn_retainedSize (hl_nodes L'))) (calRetainedSize L)) (calFlags lost_loader)
     = Some (Inr ([0, 0, 3, 0], [101, 1, 10, 110]))"
  by code_simp

text \<open>The sizes above a dominator that comes too early are too small: the heap of 111 bytes ends with a root that retains 101, without the 10 of \<open>p\<close>.\<close>

theorem lost_size:
  "wf_loader lost_loader \<and> sum_list (map hn_retainedSize (hl_nodes lost_loader)) = 111
   \<and> map_option (\<lambda>L. map_sum id (\<lambda>L'. (hl_dominatorTree L', map hn_retainedSize (hl_nodes L'))) (calRetainedSize L)) (calFlags lost_loader)
     = Some (Inr ([0, 0, 3, 0], [101, 1, 10, 110]))"
  using lost_wf lost_run by (simp add: lost_loader_def lost_nodes_def)

end
