(* ===== verification/Heap_Diff.thy ===== *)
theory Heap_Diff
  imports Heap_Model "HOL-Library.Multiset"
begin

text \<open>
  \<open>calClassDiff\<close> of \<open>HeapLoader.ts\<close>: the objects of a class that appear and disappear between two
  snapshots, by merging the two lists of instances in the order of their ids. Sorting happens in
  place, so the result also holds the classes afterwards. An index beyond the instances reads a field
  of \<open>undefined\<close>.
\<close>

section \<open>Operations\<close>

abbreviation item_id :: "ConstructorItem \<Rightarrow> int" where
  "item_id x \<equiv> cd_id (ci_data x)"

definition push_removed :: "ConstructorItem \<Rightarrow> ConstructorData \<Rightarrow> ConstructorData" where
  "push_removed targetNode diff = diff\<lparr>cd_deletedIdx := cd_deletedIdx diff @ [cd_index (ci_data targetNode)],
     cd_removedCount := cd_removedCount diff + 1,
     cd_removedSize := cd_removedSize diff + cd_shallowSize (ci_data targetNode)\<rparr>"

definition push_added :: "ConstructorItem \<Rightarrow> ConstructorData \<Rightarrow> ConstructorData" where
  "push_added baseNode diff = diff\<lparr>cd_addedIndx := cd_addedIndx diff @ [cd_index (ci_data baseNode)],
     cd_addedCount := cd_addedCount diff + 1,
     cd_addedSize := cd_addedSize diff + cd_shallowSize (ci_data baseNode)\<rparr>"

function diff_overlap :: "ConstructorItem list \<Rightarrow> ConstructorItem list \<Rightarrow> nat \<Rightarrow> nat \<Rightarrow> nat \<Rightarrow> nat \<Rightarrow> ConstructorData
    \<Rightarrow> (nat \<times> nat \<times> ConstructorData) result" where
  "diff_overlap ts bs targetLen baseLen i j diff =
     (if i < targetLen \<and> j < baseLen then
        (if \<not> (i < length ts \<and> j < length bs) then Inl TypeError
         else if item_id (ts ! i) < item_id (bs ! j)
         then diff_overlap ts bs targetLen baseLen (i + 1) j (push_removed (ts ! i) diff)
         else if item_id (ts ! i) > item_id (bs ! j)
         then diff_overlap ts bs targetLen baseLen i (j + 1) (push_added (bs ! j) diff)
         else diff_overlap ts bs targetLen baseLen (i + 1) (j + 1) diff)
      else Inr (i, j, diff))"
  by pat_completeness auto
termination
  by (relation "measure (\<lambda>(ts, bs, tl, bl, i, j, d). (tl - i) + (bl - j))") auto

declare diff_overlap.simps [simp del]

definition diff_rest :: "(ConstructorItem \<Rightarrow> ConstructorData \<Rightarrow> ConstructorData) \<Rightarrow> ConstructorItem list \<Rightarrow> nat \<Rightarrow> nat \<Rightarrow> ConstructorData
    \<Rightarrow> ConstructorData result" where
  "diff_rest push xs i len diff =
     (if i < len \<and> length xs < len then Inl TypeError else Inr (fold push (map ((!) xs) [i..<len]) diff))"

fun sort_children :: "ConstructorItem \<Rightarrow> ConstructorItem" where
  "sort_children (ConstructorItem d p c r k) = ConstructorItem d p c r (sort_key item_id k)"

definition diff_result :: "ConstructorData \<Rightarrow> ConstructorItem option" where
  "diff_result diff =
     (let d = diff\<lparr>cd_deltaCount := cd_addedCount diff - cd_removedCount diff,
                   cd_deltaSize := cd_addedSize diff - cd_removedSize diff\<rparr> in
      if cd_addedCount d = 0 \<and> cd_removedCount d = 0 then None
      else Some (new_item (d\<lparr>cd_childCount := cd_addedCount d + cd_removedCount d, cd_hasNext := True\<rparr>)))"

definition calClassDiff :: "int \<Rightarrow> ConstructorItem \<Rightarrow> ConstructorItem option
    \<Rightarrow> (ConstructorItem option \<times> ConstructorItem \<times> ConstructorItem option) result" where
  "calClassDiff fileId targetClass baseClass =
     (let diff = new_data\<lparr>cd_type := Some ComparisonType, cd_fileId := fileId,
            cd_targetFileId := cd_fileId (ci_data targetClass), cd_nodeName := cd_nodeName (ci_data targetClass)\<rparr>;
          baseLen = (case baseClass of None \<Rightarrow> 0 | Some b \<Rightarrow> nat (cd_childCount (ci_data b)));
          targetLen = nat (cd_childCount (ci_data targetClass));
          targetClass' = sort_children targetClass; baseClass' = map_option sort_children baseClass;
          ts = ci_classChildren targetClass'; bs = (case baseClass' of None \<Rightarrow> [] | Some b \<Rightarrow> ci_classChildren b)
      in bindr (diff_overlap ts bs targetLen baseLen 0 0 diff) (\<lambda>(i, j, d1).
         bindr (diff_rest push_removed ts i targetLen d1) (\<lambda>d2.
         bindr (diff_rest push_added bs j baseLen d2) (\<lambda>d3.
         Inr (diff_result d3, targetClass', baseClass')))))"

section \<open>The merge as set differences\<close>

lemma push_commute: "push_removed t (push_added b d) = push_added b (push_removed t d)"
  by (simp add: push_removed_def push_added_def)

lemma fold_push_commute: "fold push_added bs (push_removed t d) = push_removed t (fold push_added bs d)"
  by (induction bs arbitrary: d) (simp_all add: push_commute [symmetric])

abbreviation ids :: "ConstructorItem list \<Rightarrow> int set" where
  "ids xs \<equiv> item_id ` set xs"

text \<open>What of one list is missing in the other.\<close>

definition missing :: "ConstructorItem list \<Rightarrow> ConstructorItem list \<Rightarrow> ConstructorItem list" where
  "missing xs ys = filter (\<lambda>x. item_id x \<notin> ids ys) xs"

lemma missing_simps:
  "missing [] ys = []" "missing xs [] = xs"
  "missing (x # xs) ys = (if item_id x \<in> ids ys then missing xs ys else x # missing xs ys)"
  by (simp_all add: missing_def)

lemma missing_skip: "item_id z \<notin> ids xs \<Longrightarrow> missing xs (z # ys) = missing xs ys"
  by (auto simp: missing_def image_iff intro!: filter_cong)

definition ids_sorted :: "ConstructorItem list \<Rightarrow> bool" where
  "ids_sorted xs \<longleftrightarrow> sorted_wrt (<) (map item_id xs)"

lemma diff_overlap_rest:
  assumes "ids_sorted (drop i ts)" "ids_sorted (drop j bs)" "i \<le> length ts" "j \<le> length bs"
  shows "\<exists>i' j' d'. diff_overlap ts bs (length ts) (length bs) i j d = Inr (i', j', d')
    \<and> fold push_added (drop j' bs) (fold push_removed (drop i' ts) d')
      = fold push_added (missing (drop j bs) (drop i ts)) (fold push_removed (missing (drop i ts) (drop j bs)) d)
    \<and> i' \<le> length ts \<and> j' \<le> length bs"
  using assms
proof (induction "(length ts - i) + (length bs - j)" arbitrary: i j d rule: less_induct)
  case less
  show ?case
  proof (cases "i < length ts \<and> j < length bs")
    case False
    then have "drop i ts = [] \<or> drop j bs = []" "diff_overlap ts bs (length ts) (length bs) i j d = Inr (i, j, d)"
      by (auto simp: diff_overlap.simps [of ts bs "length ts" "length bs" i j d])
    then show ?thesis using less.prems by (auto simp: missing_simps)
  next
    case True
    let ?t = "ts ! i" and ?b = "bs ! j"
    have t: "drop i ts = ?t # drop (i + 1) ts" and b: "drop j bs = ?b # drop (j + 1) bs"
      using True by (simp_all add: Cons_nth_drop_Suc)
    have st: "ids_sorted (drop (i + 1) ts)" "ids_sorted (drop (j + 1) bs)"
      "\<forall>x\<in>ids (drop (i + 1) ts). item_id ?t < x" "\<forall>x\<in>ids (drop (j + 1) bs). item_id ?b < x"
      using less.prems(1,2) unfolding t b by (simp_all add: ids_sorted_def)
    note unf = diff_overlap.simps [of ts bs "length ts" "length bs" i j d]
    consider (lt) "item_id ?t < item_id ?b" | (gt) "item_id ?b < item_id ?t" | (eq) "item_id ?t = item_id ?b" by linarith
    then show ?thesis
    proof cases
      case lt
      have run: "diff_overlap ts bs (length ts) (length bs) i j d
          = diff_overlap ts bs (length ts) (length bs) (i + 1) j (push_removed ?t d)" using unf True lt by simp
      have "item_id ?t \<notin> ids (drop j bs)" using lt st(4) unfolding b by auto
      then have "missing (drop i ts) (drop j bs) = ?t # missing (drop (i + 1) ts) (drop j bs)"
        "missing (drop j bs) (drop i ts) = missing (drop j bs) (drop (i + 1) ts)"
        unfolding t by (auto simp: missing_simps missing_skip simp del: drop_eq_Nil)
      then show ?thesis
        unfolding run using less.hyps [of "i + 1" j "push_removed ?t d"] st(1) less.prems(2) True by auto
    next
      case gt
      have run: "diff_overlap ts bs (length ts) (length bs) i j d
          = diff_overlap ts bs (length ts) (length bs) i (j + 1) (push_added ?b d)" using unf True gt by simp
      have "item_id ?b \<notin> ids (drop i ts)" using gt st(3) unfolding t by auto
      then have "missing (drop j bs) (drop i ts) = ?b # missing (drop (j + 1) bs) (drop i ts)"
        "missing (drop i ts) (drop j bs) = missing (drop i ts) (drop (j + 1) bs)"
        unfolding b by (auto simp: missing_simps missing_skip simp del: drop_eq_Nil)
      moreover have "fold push_removed xs (push_added ?b d) = push_added ?b (fold push_removed xs d)" for xs
        by (induction xs arbitrary: d) (simp_all add: push_commute)
      ultimately show ?thesis
        unfolding run using less.hyps [of i "j + 1" "push_added ?b d"] st(2) less.prems(1) True by auto
    next
      case eq
      have run: "diff_overlap ts bs (length ts) (length bs) i j d
          = diff_overlap ts bs (length ts) (length bs) (i + 1) (j + 1) d" using unf True eq by simp
      have "item_id ?b \<notin> ids (drop (i + 1) ts)" "item_id ?t \<notin> ids (drop (j + 1) bs)" using eq st(3,4) by auto
      then have "missing (drop i ts) (drop j bs) = missing (drop (i + 1) ts) (drop (j + 1) bs)"
        "missing (drop j bs) (drop i ts) = missing (drop (j + 1) bs) (drop (i + 1) ts)"
        unfolding t b using eq by (auto simp: missing_simps missing_skip simp del: drop_eq_Nil)
      then show ?thesis
        unfolding run using less.hyps [of "i + 1" "j + 1" d] st(1,2) True by auto
    qed
  qed
qed


lemma diff_rest_drop: "i \<le> length xs \<Longrightarrow> diff_rest push xs i (length xs) d = Inr (fold push (drop i xs) d)"
proof -
  assume "i \<le> length xs"
  then have "map ((!) xs) [i..<length xs] = drop i xs" by (intro nth_equalityI) auto
  then show ?thesis by (simp add: diff_rest_def)
qed

lemma fold_push_removed:
  "fold push_removed xs d = d\<lparr>cd_deletedIdx := cd_deletedIdx d @ map (\<lambda>x. cd_index (ci_data x)) xs,
     cd_removedCount := cd_removedCount d + int (length xs),
     cd_removedSize := cd_removedSize d + sum_list (map (\<lambda>x. cd_shallowSize (ci_data x)) xs)\<rparr>"
  by (induction xs arbitrary: d) (simp_all add: push_removed_def)

lemma fold_push_added:
  "fold push_added xs d = d\<lparr>cd_addedIndx := cd_addedIndx d @ map (\<lambda>x. cd_index (ci_data x)) xs,
     cd_addedCount := cd_addedCount d + int (length xs),
     cd_addedSize := cd_addedSize d + sum_list (map (\<lambda>x. cd_shallowSize (ci_data x)) xs)\<rparr>"
  by (induction xs arbitrary: d) (simp_all add: push_added_def)

lemma ids_sorted_sort: "distinct (map item_id xs) \<Longrightarrow> ids_sorted (sort_key item_id xs)"
proof -
  assume d: "distinct (map item_id xs)"
  have "mset (map item_id (sort_key item_id xs)) = mset (map item_id xs)" by simp
  then have "distinct (map item_id (sort_key item_id xs))" using d by (metis mset_eq_imp_distinct_iff)
  moreover have "sorted (map item_id (sort_key item_id xs))" by simp
  ultimately show ?thesis unfolding ids_sorted_def by (simp only: strict_sorted_iff)
qed

lemma missing_empty: "missing xs ys = [] \<longleftrightarrow> ids xs \<subseteq> ids ys"
  by (auto simp: missing_def filter_empty_conv)

definition class_children :: "ConstructorItem option \<Rightarrow> ConstructorItem list" where
  "class_children c = (case c of None \<Rightarrow> [] | Some x \<Rightarrow> sort_key item_id (ci_classChildren x))"

text \<open>A class row that counts its instances, whose ids are different.\<close>

definition class_ok :: "ConstructorItem \<Rightarrow> bool" where
  "class_ok x \<longleftrightarrow> cd_childCount (ci_data x) = int (length (ci_classChildren x)) \<and> distinct (map item_id (ci_classChildren x))"

lemma sort_children_sel [simp]:
  "ci_classChildren (sort_children x) = sort_key item_id (ci_classChildren x)" "ci_data (sort_children x) = ci_data x"
  by (cases x; simp)+

definition diff_data :: "int \<Rightarrow> ConstructorItem \<Rightarrow> ConstructorItem list \<Rightarrow> ConstructorItem list \<Rightarrow> ConstructorData" where
  "diff_data fileId targetClass removed added =
     (let rs = sum_list (map (\<lambda>x. cd_shallowSize (ci_data x)) removed); as = sum_list (map (\<lambda>x. cd_shallowSize (ci_data x)) added)
      in new_data\<lparr>cd_type := Some ComparisonType, cd_fileId := fileId, cd_targetFileId := cd_fileId (ci_data targetClass),
           cd_nodeName := cd_nodeName (ci_data targetClass),
           cd_deletedIdx := map (\<lambda>x. cd_index (ci_data x)) removed, cd_addedIndx := map (\<lambda>x. cd_index (ci_data x)) added,
           cd_removedCount := int (length removed), cd_addedCount := int (length added),
           cd_removedSize := rs, cd_addedSize := as,
           cd_deltaCount := int (length added) - int (length removed), cd_deltaSize := as - rs,
           cd_childCount := int (length added) + int (length removed), cd_hasNext := True\<rparr>)"

lemma calClassDiff_eq:
  assumes "class_ok targetClass" "\<forall>b. baseClass = Some b \<longrightarrow> class_ok b"
  shows "calClassDiff fileId targetClass baseClass = Inr
     (if ids (class_children (Some targetClass)) = ids (class_children baseClass) then None
      else Some (new_item (diff_data fileId targetClass
        (missing (class_children (Some targetClass)) (class_children baseClass))
        (missing (class_children baseClass) (class_children (Some targetClass))))),
      sort_children targetClass, map_option sort_children baseClass)"
proof -
  let ?T = "class_children (Some targetClass)" and ?B = "class_children baseClass"
  let ?d = "new_data\<lparr>cd_type := Some ComparisonType, cd_fileId := fileId,
            cd_targetFileId := cd_fileId (ci_data targetClass), cd_nodeName := cd_nodeName (ci_data targetClass)\<rparr>"
  have T: "ci_classChildren (sort_children targetClass) = ?T" "nat (cd_childCount (ci_data targetClass)) = length ?T"
    "ids_sorted ?T"
    using assms(1) by (simp_all add: class_children_def class_ok_def ids_sorted_sort)
  have B: "(case map_option sort_children baseClass of None \<Rightarrow> [] | Some b \<Rightarrow> ci_classChildren b) = ?B"
    "(case baseClass of None \<Rightarrow> 0 | Some b \<Rightarrow> nat (cd_childCount (ci_data b))) = length ?B" "ids_sorted ?B"
    using assms(2) ids_sorted_sort
    by (auto simp: class_children_def class_ok_def ids_sorted_def split: option.split)
  obtain i j d where m: "diff_overlap ?T ?B (length ?T) (length ?B) 0 0 ?d = Inr (i, j, d)" "i \<le> length ?T" "j \<le> length ?B"
    "fold push_added (drop j ?B) (fold push_removed (drop i ?T) d)
      = fold push_added (missing ?B ?T) (fold push_removed (missing ?T ?B) ?d)"
    using diff_overlap_rest [of 0 ?T 0 ?B ?d] T(3) B(3) by auto
  have "calClassDiff fileId targetClass baseClass
      = Inr (diff_result (fold push_added (missing ?B ?T) (fold push_removed (missing ?T ?B) ?d)),
          sort_children targetClass, map_option sort_children baseClass)"
    unfolding calClassDiff_def Let_def T B m(1) by (simp add: diff_rest_drop m)
  moreover have "diff_result (fold push_added (missing ?B ?T) (fold push_removed (missing ?T ?B) ?d))
      = (if ids ?T = ids ?B then None else Some (new_item (diff_data fileId targetClass (missing ?T ?B) (missing ?B ?T))))"
    using missing_empty [of ?T ?B] missing_empty [of ?B ?T]
    by (auto simp: fold_push_removed fold_push_added diff_result_def diff_data_def new_data_def Let_def)
  ultimately show ?thesis by simp
qed

text \<open>C27: for two class rows \<open>calClassDiff\<close> counts as removed exactly the target's instances whose id the
  base does not have and as added exactly the base's instances whose id the target does not have,
  with their indices in id order, their numbers and sizes and the differences of these; it returns
  \<open>null\<close> exactly when both have the same ids.\<close>

theorem calClassDiff_correct:
  assumes "class_ok targetClass" "\<forall>b. baseClass = Some b \<longrightarrow> class_ok b"
  shows "calClassDiff fileId targetClass baseClass = Inr
     (if ids (class_children (Some targetClass)) = ids (class_children baseClass) then None
      else Some (new_item (diff_data fileId targetClass
        (missing (class_children (Some targetClass)) (class_children baseClass))
        (missing (class_children baseClass) (class_children (Some targetClass))))),
      sort_children targetClass, map_option sort_children baseClass)"
  by (rule calClassDiff_eq [OF assms])

section \<open>Witness\<close>

definition demo_instance :: "int \<Rightarrow> int \<Rightarrow> ConstructorItem" where
  "demo_instance i n = new_item (new_data\<lparr>cd_id := i, cd_index := i, cd_shallowSize := n\<rparr>)"

definition demo_class :: "ConstructorItem list \<Rightarrow> ConstructorItem" where
  "demo_class xs = ConstructorItem (new_data\<lparr>cd_childCount := int (length xs)\<rparr>) None [] [] xs"

theorem calClassDiff_correct_witness:
  "calClassDiff 0 (demo_class [demo_instance 7 2, demo_instance 3 1]) (Some (demo_class [demo_instance 3 1, demo_instance 9 5]))
     = Inr (Some (new_item (diff_data 0 (demo_class [demo_instance 7 2, demo_instance 3 1]) [demo_instance 7 2] [demo_instance 9 5])),
         demo_class [demo_instance 3 1, demo_instance 7 2], Some (demo_class [demo_instance 3 1, demo_instance 9 5]))"
proof -
  have "class_ok (demo_class [demo_instance 7 2, demo_instance 3 1])" "class_ok (demo_class [demo_instance 3 1, demo_instance 9 5])"
    by (simp_all add: class_ok_def demo_class_def demo_instance_def)
  moreover have "class_children (Some (demo_class [demo_instance 7 2, demo_instance 3 1])) = [demo_instance 3 1, demo_instance 7 2]"
    "class_children (Some (demo_class [demo_instance 3 1, demo_instance 9 5])) = [demo_instance 3 1, demo_instance 9 5]"
    "sort_children (demo_class [demo_instance 7 2, demo_instance 3 1]) = demo_class [demo_instance 3 1, demo_instance 7 2]"
    "sort_children (demo_class [demo_instance 3 1, demo_instance 9 5]) = demo_class [demo_instance 3 1, demo_instance 9 5]"
    by (simp_all add: class_children_def demo_class_def demo_instance_def)
  moreover have "item_id (demo_instance i n) = i" for i n by (simp add: demo_instance_def)
  moreover have "{3, 7} \<noteq> {3, 9 :: int}"
  proof
    assume "{3, 7} = {3, 9 :: int}"
    then have "7 \<in> {3, 9 :: int}" by blast
    then show False by simp
  qed
  ultimately show ?thesis
    using calClassDiff_correct [of "demo_class [demo_instance 7 2, demo_instance 3 1]" "Some (demo_class [demo_instance 3 1, demo_instance 9 5])" 0]
    by (simp add: missing_def)
qed

end
