(* ===== verification/JS_Map.thy ===== *)
theory JS_Map
  imports JS_Prelude "HOL-Library.Multiset"
begin

text \<open>
  A \<open>Map\<close> of JavaScript as the list of its entries in insertion order. \<open>map_of\<close> is \<open>get\<close>; \<open>set\<close> keeps the
  place of a key that is present and appends a new one. Several components group a list of records
  under a key, with a fresh entry for the first record of a key and an update of the entry for every
  later one: \<open>group_step\<close>. The locale at the end states when a quantity of the entries adds up.
\<close>

fun js_map_set :: "'k \<Rightarrow> 'v \<Rightarrow> ('k \<times> 'v) list \<Rightarrow> ('k \<times> 'v) list" where
  "js_map_set k v [] = [(k, v)]"
| "js_map_set k v ((k', v') # m) = (if k' = k then (k, v) # m else (k', v') # js_map_set k v m)"

lemma map_of_js_map_set [simp]: "map_of (js_map_set k v m) = (map_of m)(k \<mapsto> v)"
  by (induction m) (auto simp: fun_eq_iff)

lemma js_map_set_new: "map_of m k = None \<Longrightarrow> js_map_set k v m = m @ [(k, v)]"
  by (induction m) (auto split: if_splits)

lemma keys_js_map_set: "map fst (js_map_set k v m) = (if k \<in> set (map fst m) then map fst m else map fst m @ [k])"
  by (induction k v m rule: js_map_set.induct) simp_all

lemma fst_set_js_map_set [simp]: "fst ` set (js_map_set k v m) = insert k (fst ` set m)"
  using arg_cong [OF keys_js_map_set [of k v m], of set] by (auto split: if_splits)

lemma set_js_map_set: "set (js_map_set k v m) \<subseteq> insert (k, v) (set m)"
  by (induction m) (auto split: if_splits)

text \<open>A function on the values only.\<close>

lemma map_apsnd_js_map_set: "map (apsnd h) (js_map_set k v m) = js_map_set k (h v) (map (apsnd h) m)"
  by (induction k v m rule: js_map_set.induct) auto

lemma map_of_apsnd: "map_of (map (apsnd h) m) k = map_option h (map_of m k)"
  by (induction m) auto

definition js_values :: "('k \<times> 'v) list \<Rightarrow> 'v list" where
  "js_values m = map snd m"

text \<open>
  An object used as a map: \<open>Object.values\<close> gives the properties whose names are array indices first, in ascending order, and the
  others in the order of their insertion.
\<close>

definition is_digit :: "cunit \<Rightarrow> bool" where
  "is_digit c \<longleftrightarrow> 48 \<le> unat c \<and> unat c \<le> 57"

definition js_index :: "jsstring \<Rightarrow> nat option" where
  "js_index s =
     (if s \<noteq> [] \<and> list_all is_digit s \<and> (hd s \<noteq> 48 \<or> length s = 1)
      then (let n = fold (\<lambda>c n. 10 * n + (unat c - 48)) s 0 in if n < 4294967295 then Some n else None)
      else None)"

definition js_object_values :: "(jsstring \<times> 'v) list \<Rightarrow> 'v list" where
  "js_object_values m =
     map snd (sort_key (\<lambda>e. the (js_index (fst e))) (filter (\<lambda>e. js_index (fst e) \<noteq> None) m) @ filter (\<lambda>e. js_index (fst e) = None) m)"

lemma mset_filter_split: "image_mset f (mset (filter (\<lambda>x. \<not> P x) xs)) + image_mset f (mset (filter P xs)) = image_mset f (mset xs)"
  by (induction xs) simp_all

lemma mset_js_object_values: "mset (js_object_values m) = mset (map snd m)"
  unfolding js_object_values_def map_append mset_append mset_map mset_sort by (rule mset_filter_split)

lemma set_js_object_values: "set (js_object_values m) = set (map snd m)"
  by (rule mset_eq_setD [OF mset_js_object_values])

lemma distinct_js_object_values: "distinct (map f (js_object_values m)) = distinct (map f (map snd m))"
  by (rule mset_eq_imp_distinct_iff) (simp add: mset_js_object_values multiset.map_comp)

text \<open>Each key at most once.\<close>

definition js_map_ok :: "('k \<times> 'v) list \<Rightarrow> bool" where
  "js_map_ok m \<longleftrightarrow> distinct (map fst m)"

lemma js_map_ok_set [simp]: "js_map_ok m \<Longrightarrow> js_map_ok (js_map_set k v m)"
  by (simp add: js_map_ok_def keys_js_map_set)

lemma sum_js_map_set:
  fixes f :: "'v \<Rightarrow> int"
  assumes "js_map_ok m"
  shows "sum_list (map (\<lambda>e. f (snd e)) (js_map_set k v m)) =
    sum_list (map (\<lambda>e. f (snd e)) m) + f v - (case map_of m k of None \<Rightarrow> 0 | Some u \<Rightarrow> f u)"
  using assms by (induction m) (auto simp: js_map_ok_def split: option.split)

text \<open>The same for lists of the entries, up to their order.\<close>

lemma mset_js_map_set:
  assumes "js_map_ok m"
  shows "mset (concat (map (\<lambda>e. f (snd e)) (js_map_set k v m))) + (case map_of m k of None \<Rightarrow> {#} | Some u \<Rightarrow> mset (f u)) =
    mset (concat (map (\<lambda>e. f (snd e)) m)) + mset (f v)"
  using assms by (induction m) (auto simp: js_map_ok_def ac_simps split: option.split)

lemma sum_js_object_values: "sum_list (map f (js_object_values m)) = sum_list (map (\<lambda>e. f (snd e)) m)" for f :: "'v \<Rightarrow> int"
proof -
  have "sum_list (map f (js_object_values m)) = sum_mset (image_mset f (mset (js_object_values m)))" by (simp flip: sum_mset_sum_list)
  also have "\<dots> = sum_mset (image_mset f (mset (map snd m)))" by (simp only: mset_js_object_values)
  finally show ?thesis by (simp add: comp_def multiset.map_comp flip: sum_mset_sum_list)
qed

section \<open>Decimal names\<close>

lemma digit_unat: "d < 10 \<Longrightarrow> unat (of_nat (48 + d) :: cunit) = 48 + d"
  by (simp add: unat_of_nat del: of_nat_add)

lemma digits_ok: "list_all is_digit (nat_digits n)" "nat_digits n \<noteq> []"
proof (induction n rule: nat_digits.induct)
  case (1 n)
  have d: "is_digit (of_nat (48 + d))" if "d < 10" for d using digit_unat [OF that] that by (simp add: is_digit_def del: of_nat_add)
  case 1
  then show ?case using d [of n] d [of "n mod 10"] "1.IH"(1) by (subst nat_digits.simps) (simp del: of_nat_add)
  case 2
  then show ?case by (subst nat_digits.simps) simp
qed

lemma digits_value: "fold (\<lambda>c n. 10 * n + (unat c - 48)) (nat_digits n) 0 = n"
  by (induction n rule: nat_digits.induct) (subst nat_digits.simps, auto simp: digit_unat simp del: of_nat_add)

lemma digits_hd: "0 < n \<Longrightarrow> hd (nat_digits n) \<noteq> 48"
proof (induction n rule: nat_digits.induct)
  case (1 n)
  show ?case
  proof (cases "n < 10")
    case True
    have "unat (of_nat (48 + n) :: cunit) \<noteq> unat (48 :: cunit)" using digit_unat [OF True] 1(2) by simp
    then show ?thesis using True by (subst nat_digits.simps) auto
  next
    case False
    then show ?thesis using 1(1) digits_ok [of "n div 10"] by (subst nat_digits.simps) simp
  qed
qed

lemma js_index_num: "js_index (js_num (int n)) = (if n < 4294967295 then Some n else None)"
proof -
  have "hd (nat_digits n) \<noteq> 48 \<or> length (nat_digits n) = 1" using digits_hd [of n] by (cases "n = 0") (simp_all add: nat_digits.simps)
  then show ?thesis by (simp add: js_index_def js_num_def digits_ok digits_value Let_def)
qed

lemma js_num_inj: "0 \<le> a \<Longrightarrow> 0 \<le> b \<Longrightarrow> js_num a = js_num b \<longleftrightarrow> a = b"
  by (metis digits_value js_num_def linorder_not_less nat_eq_iff2 nat_0_le)

lemma digits_inj: "nat_digits a = nat_digits b \<longleftrightarrow> a = b"
  by (metis digits_value)

lemma js_num_eq_iff: "js_num a = js_num b \<longleftrightarrow> a = b"
proof (cases "a < 0"; cases "b < 0")
  assume "a < 0" "b < 0"
  then show ?thesis by (auto simp: js_num_def digits_inj)
next
  assume ab: "a < 0" "\<not> b < 0"
  have "hd (js_num b) \<noteq> hd (js_num a)" using ab digits_ok [of "nat b"] by (cases "nat_digits (nat b)") (auto simp: js_num_def js_def is_digit_def)
  then show ?thesis using ab by auto
next
  assume ab: "\<not> a < 0" "b < 0"
  have "hd (js_num a) \<noteq> hd (js_num b)" using ab digits_ok [of "nat a"] by (cases "nat_digits (nat a)") (auto simp: js_num_def js_def is_digit_def)
  then show ?thesis using ab by auto
qed (simp add: js_num_inj)

lemma append_sep_eq: "c \<notin> set xs \<Longrightarrow> c \<notin> set xs' \<Longrightarrow> xs @ c # ys = xs' @ c # ys' \<longleftrightarrow> xs = xs' \<and> ys = ys'"
proof (induction xs arbitrary: xs')
  case Nil
  then show ?case by (cases xs') auto
next
  case (Cons x xs)
  then show ?case by (cases xs') auto
qed

lemma decimal_keys: "map fst m = map js_num ts \<Longrightarrow> \<forall>e\<in>set m. fst e = js_num (f e) \<and> 0 \<le> f e \<Longrightarrow> \<forall>t\<in>set ts. 0 \<le> t \<Longrightarrow> map f m = ts"
proof (induction m arbitrary: ts)
  case (Cons e m)
  then show ?case by (cases ts) (auto simp: js_num_inj)
qed simp

text \<open>An object whose names are ascending numbers lists its values in their order.\<close>

lemma sort_key_sorted: "sorted (map f xs) \<Longrightarrow> sort_key f xs = xs"
  by (induction xs) (simp_all add: insort_is_Cons)

lemma sorted_split: "sorted (map f xs) \<Longrightarrow> filter (\<lambda>x. f x < b) xs @ filter (\<lambda>x. \<not> f x < b) xs = xs" for b :: "'b :: linorder"
proof (induction xs)
  case (Cons x xs)
  show ?case
  proof (cases "f x < b")
    case False
    then have "filter (\<lambda>x. f x < b) xs = []" "filter (\<lambda>x. \<not> f x < b) xs = xs" using Cons.prems by (force simp: filter_empty_conv filter_id_conv)+
    then show ?thesis using False by simp
  qed (use Cons in simp)
qed simp

lemma object_values_ascending:
  assumes "sorted (map k m)" "\<And>e. e \<in> set m \<Longrightarrow> fst e = js_num (int (k e))"
  shows "js_object_values m = map snd m"
proof -
  have idx: "js_index (fst e) = (if k e < 4294967295 then Some (k e) else None)" if "e \<in> set m" for e using assms(2) [OF that] js_index_num by simp
  let ?lo = "filter (\<lambda>e. k e < 4294967295) m"
  have lo: "filter (\<lambda>e. js_index (fst e) \<noteq> None) m = ?lo" "filter (\<lambda>e. js_index (fst e) = None) m = filter (\<lambda>e. \<not> k e < 4294967295) m"
    by (rule filter_cong; simp add: idx)+
  have keys: "map (\<lambda>e. the (js_index (fst e))) ?lo = map k ?lo" by (rule map_cong) (auto simp: idx)
  have "sorted (map k ?lo)" using assms(1) by (rule sorted_filter)
  then have "sort_key (\<lambda>e. the (js_index (fst e))) ?lo = ?lo" unfolding keys [symmetric] by (rule sort_key_sorted)
  then show ?thesis unfolding js_object_values_def lo using sorted_split [OF assms(1), of 4294967295] by (simp flip: map_append)
qed

section \<open>Grouping\<close>

definition group_step :: "('n \<Rightarrow> 'k) \<Rightarrow> ('n \<Rightarrow> 'v) \<Rightarrow> ('n \<Rightarrow> 'v \<Rightarrow> 'v) \<Rightarrow> 'n \<Rightarrow> ('k \<times> 'v) list \<Rightarrow> ('k \<times> 'v) list" where
  "group_step key fresh merge n m =
     (case map_of m (key n) of
        None \<Rightarrow> js_map_set (key n) (fresh n) m
      | Some v \<Rightarrow> js_map_set (key n) (merge n v) m)"

definition group_all :: "('n \<Rightarrow> 'k) \<Rightarrow> ('n \<Rightarrow> 'v) \<Rightarrow> ('n \<Rightarrow> 'v \<Rightarrow> 'v) \<Rightarrow> 'n list \<Rightarrow> ('k \<times> 'v) list" where
  "group_all key fresh merge ns = fold (group_step key fresh merge) ns []"

text \<open>The records of a key, and the entry they make: the first one fresh, the others merged in.\<close>

fun merged :: "('n \<Rightarrow> 'v) \<Rightarrow> ('n \<Rightarrow> 'v \<Rightarrow> 'v) \<Rightarrow> 'n list \<Rightarrow> 'v option" where
  "merged fresh merge [] = None"
| "merged fresh merge (n # ns) = Some (fold merge ns (fresh n))"

lemma merged_snoc:
  "merged fresh merge (ns @ [n]) = Some (case merged fresh merge ns of None \<Rightarrow> fresh n | Some v \<Rightarrow> merge n v)"
  by (cases ns) auto

lemma group_all_lookup:
  "map_of (group_all key fresh merge ns) k = merged fresh merge (filter (\<lambda>n. key n = k) ns)"
  by (induction ns rule: rev_induct)
    (auto simp: group_all_def group_step_def merged_snoc split: option.splits)

lemma group_all_keys:
  "js_map_ok (group_all key fresh merge ns)" "fst ` set (group_all key fresh merge ns) = key ` set ns"
proof -
  have "js_map_ok (group_all key fresh merge ns) \<and> fst ` set (group_all key fresh merge ns) = key ` set ns"
  proof (induction ns rule: rev_induct)
    case Nil
    then show ?case by (simp add: group_all_def js_map_ok_def)
  next
    case (snoc n ns)
    then show ?case by (simp add: group_all_def group_step_def split: option.split)
  qed
  then show "js_map_ok (group_all key fresh merge ns)" "fst ` set (group_all key fresh merge ns) = key ` set ns" by auto
qed

lemma js_map_ok_get: "js_map_ok m \<Longrightarrow> (k, v) \<in> set m \<longleftrightarrow> map_of m k = Some v"
  by (simp add: js_map_ok_def)

lemma merged_values: "merged fresh merge ns = Some v \<Longrightarrow> (\<And>n. P (fresh n)) \<Longrightarrow> (\<And>n v. P v \<Longrightarrow> P (merge n v)) \<Longrightarrow> P v"
proof (induction ns arbitrary: v rule: rev_induct)
  case (snoc n ns)
  then show ?case by (auto simp: merged_snoc split: option.splits)
qed simp

lemma group_values: "v \<in> snd ` set (group_all key fresh merge ns) \<Longrightarrow> (\<And>n. P (fresh n)) \<Longrightarrow> (\<And>n v. P v \<Longrightarrow> P (merge n v)) \<Longrightarrow> P v"
  by (auto simp: js_map_ok_get [OF group_all_keys(1)] group_all_lookup dest!: merged_values [where P = P])

lemma sum_by_key:
  fixes w :: "'a \<Rightarrow> int"
  assumes "distinct us"
  shows "sum_list (map (\<lambda>u. sum_list (map w (filter (\<lambda>x. key x = u) xs))) us) = sum_list (map w (filter (\<lambda>x. key x \<in> set us) xs))"
proof (induction xs)
  case (Cons x xs)
  have "sum_list (map (\<lambda>u. if key x = u then w x else 0) us) = (if key x \<in> set us then w x else 0)" using assms by (induction us) auto
  moreover have "sum_list (map w (filter (\<lambda>x. key x = u) (x # xs))) = (if key x = u then w x else 0) + sum_list (map w (filter (\<lambda>x. key x = u) xs))" for u by simp
  ultimately show ?case using Cons by (simp add: sum_list_addf)
qed simp

lemma group_last: "(k, v) \<in> set (group_all key fresh merge ns) \<Longrightarrow> \<exists>n\<in>set ns. key n = k \<and> (v = fresh n \<or> (\<exists>u. v = merge n u))"
proof -
  assume "(k, v) \<in> set (group_all key fresh merge ns)"
  then have v: "merged fresh merge (filter (\<lambda>n. key n = k) ns) = Some v" by (simp add: js_map_ok_get [OF group_all_keys(1)] group_all_lookup)
  show ?thesis
  proof (cases "filter (\<lambda>n. key n = k) ns" rule: rev_cases)
    case (snoc xs x)
    then have "x \<in> set (filter (\<lambda>n. key n = k) ns)" by simp
    moreover have "v = fresh x \<or> (\<exists>u. v = merge x u)" using v by (auto simp: snoc merged_snoc split: option.splits)
    ultimately show ?thesis by auto
  qed (use v in simp)
qed

lemma group_keys_ascending:
  assumes "sorted (map f xs)" "\<forall>x\<in>set xs. 0 \<le> f x" "\<And>x. key x = js_num (f x)"
  shows "\<exists>ts. sorted_wrt (<) ts \<and> set ts = f ` set xs \<and> map fst (group_all key fresh merge xs) = map js_num ts"
  using assms(1,2)
proof (induction xs rule: rev_induct)
  case (snoc x xs)
  let ?m = "group_all key fresh merge xs"
  obtain ts where ts: "sorted_wrt (<) ts" "set ts = f ` set xs" "map fst ?m = map js_num ts" using snoc by (auto simp: sorted_append)
  have run: "group_all key fresh merge (xs @ [x]) = group_step key fresh merge x ?m" by (simp add: group_all_def)
  have "key x \<in> fst ` set ?m \<longleftrightarrow> js_num (f x) \<in> js_num ` set ts" using ts(3) by (simp add: assms(3) flip: set_map)
  also have "\<dots> \<longleftrightarrow> f x \<in> set ts" using js_num_inj snoc.prems(2) ts(2) by (auto simp: image_iff)
  finally have old: "key x \<in> fst ` set ?m \<longleftrightarrow> f x \<in> set ts" .
  show ?case
  proof (cases "f x \<in> set ts")
    case True
    then have "map fst (group_step key fresh merge x ?m) = map fst ?m" using old by (auto simp: group_step_def keys_js_map_set split: option.split)
    then show ?thesis using ts True unfolding run by (intro exI [of _ ts]) auto
  next
    case False
    then have "map_of ?m (key x) = None" using old by (simp add: map_of_eq_None_iff)
    then have "map fst (group_step key fresh merge x ?m) = map fst ?m @ [key x]" using old False by (auto simp: group_step_def keys_js_map_set)
    moreover have "t < f x" if t: "t \<in> set ts" for t
    proof -
      obtain y where "y \<in> set xs" "t = f y" using t ts(2) by auto
      then have "t \<le> f x" using snoc.prems(1) by (simp add: sorted_append)
      then show ?thesis using t False by (cases "t = f x") auto
    qed
    ultimately show ?thesis using ts unfolding run by (intro exI [of _ "ts @ [f x]"]) (auto simp: sorted_wrt_append assms(3))
  qed
qed (simp add: group_all_def)

text \<open>
  A quantity of the entries to which every record contributes its weight. The contract is what the
  fresh entry holds and what a merge adds.
\<close>

locale additive_group =
  fixes fresh :: "'n \<Rightarrow> 'v" and merge :: "'n \<Rightarrow> 'v \<Rightarrow> 'v" and total :: "'v \<Rightarrow> 'a :: comm_monoid_add" and weight :: "'n \<Rightarrow> 'a"
  assumes total_fresh: "total (fresh n) = weight n"
    and total_merge: "total (merge n v) = total v + weight n"
begin

lemma total_fold: "total (fold merge ns v) = total v + sum_list (map weight ns)"
  by (induction ns arbitrary: v) (simp_all add: total_merge add.assoc)

lemma total_merged: "merged fresh merge ns = Some v \<Longrightarrow> total v = sum_list (map weight ns)"
  by (cases ns) (auto simp: total_fold total_fresh)

lemma total_group:
  "(k, v) \<in> set (group_all key fresh merge ns) \<Longrightarrow> total v = sum_list (map weight (filter (\<lambda>n. key n = k) ns))"
  using total_merged [of "filter (\<lambda>n. key n = k) ns" v]
  by (simp add: js_map_ok_get [OF group_all_keys(1)] group_all_lookup)

lemma sum_update:
  assumes "js_map_ok m" "map_of m k = Some v"
  shows "sum_list (map (total \<circ> snd) (js_map_set k v' m)) + total v = sum_list (map (total \<circ> snd) m) + total v'"
  using assms
  by (induction m) (auto simp: js_map_ok_def add.assoc add.commute add.left_commute)

lemma sum_update_merge:
  assumes "js_map_ok m" "map_of m k = Some v"
  shows "sum_list (map (total \<circ> snd) (js_map_set k (merge n v) m)) = sum_list (map (total \<circ> snd) m) + weight n"
  using assms
  by (induction m) (auto simp: js_map_ok_def total_merge add.assoc add.commute add.left_commute)

lemma sum_append: "map_of m k = None \<Longrightarrow> sum_list (map (total \<circ> snd) (js_map_set k v' m)) = sum_list (map (total \<circ> snd) m) + total v'"
  by (induction m) (auto simp: add.assoc split: if_splits)

lemma sum_group: "sum_list (map (total \<circ> snd) (group_all key fresh merge ns)) = sum_list (map weight ns)"
proof (induction ns rule: rev_induct)
  case Nil
  then show ?case by (simp add: group_all_def)
next
  case (snoc n ns)
  let ?m = "group_all key fresh merge ns"
  have run: "group_all key fresh merge (ns @ [n]) = group_step key fresh merge n ?m" by (simp add: group_all_def)
  show ?case
  proof (cases "map_of ?m (key n)")
    case None
    then show ?thesis using sum_append [OF None, of "fresh n"] snoc.IH by (simp add: run group_step_def total_fresh comp_def)
  next
    case (Some v)
    then show ?thesis
      using sum_update_merge [OF group_all_keys(1) Some, of n] snoc.IH by (simp add: run group_step_def comp_def)
  qed
qed

end

text \<open>\<open>Array.join\<close>.\<close>

fun js_join :: "jsstring \<Rightarrow> jsstring list \<Rightarrow> jsstring" where
  "js_join sep [] = []"
| "js_join sep [x] = x"
| "js_join sep (x # y # ys) = x @ sep @ js_join sep (y # ys)"

end
