(* ===== verification/Heap_Classes.thy ===== *)
theory Heap_Classes
  imports Heap_Dominator Heap_Diff JS_Map
begin

text \<open>
  The class summary and the comparison of two snapshots: \<open>getClassesForSummary\<close> and
  \<open>getClassesForComparison\<close> of \<open>HeapLoader.ts\<close>. Classes are rows of a \<open>Map\<close> keyed by their name. The
  walk over the dominator tree that adds up the retained sizes visits each node at most once when
  the lists of dominated nodes come from \<open>buildDominatedNode\<close>, so one round per node and one for the
  end are enough fuel.
\<close>

section \<open>Grouping the nodes\<close>

definition hasFiler :: "int option \<Rightarrow> int option \<Rightarrow> bool" where
  "hasFiler minNodeId maxNodeId \<longleftrightarrow> minNodeId \<noteq> None \<and> maxNodeId \<noteq> None"

definition node_filter :: "int option \<Rightarrow> int option \<Rightarrow> nat \<Rightarrow> bool" where
  "node_filter minNodeId maxNodeId nodeId \<longleftrightarrow>
     (case (minNodeId, maxNodeId) of (Some lo, Some hi) \<Rightarrow> lo \<le> int nodeId \<and> int nodeId \<le> hi | _ \<Rightarrow> True)"

definition counted :: "int option \<Rightarrow> int option \<Rightarrow> HeapNode \<Rightarrow> bool" where
  "counted minNodeId maxNodeId node \<longleftrightarrow>
     \<not> (\<not> node_filter minNodeId maxNodeId (hn_id node) \<or> (hn_selfSize node = 0 \<and> hn_type node \<noteq> NodeType_num NodeType_NATIVE))"

fun push_child :: "ConstructorItem \<Rightarrow> ConstructorItem \<Rightarrow> ConstructorItem" where
  "push_child x (ConstructorItem d p c r k) = ConstructorItem d p c r (k @ [x])"

lemma push_child_sel [simp]:
  "ci_data (push_child x y) = ci_data y" "ci_classChildren (push_child x y) = ci_classChildren y @ [x]"
  by (cases y; simp)+

definition class_fresh :: "int \<Rightarrow> HeapNode \<Rightarrow> ConstructorItem" where
  "class_fresh fileId node =
     (let classItem = upd_data (\<lambda>d. d\<lparr>cd_fileId := fileId, cd_childCount := 1, cd_type := Some ClassType, cd_retainedSize := 0,
            cd_nodeName := className node, cd_hasNext := True\<rparr>) (HeapNodeToConstructorItem node);
          instanceItem = upd_data (\<lambda>d. d\<lparr>cd_type := Some InstanceType, cd_id := int (hn_id node), cd_index := int (hn_nodeIndex node),
            cd_childCount := int (hn_edgeCount node), cd_retainedSize := hn_retainedSize node,
            cd_hasNext := hn_edgeCount node > 0, cd_traceNodeId := hn_traceNodeId node\<rparr>) (item_clone classItem)
      in push_child instanceItem classItem)"

definition class_merge :: "int \<Rightarrow> HeapNode \<Rightarrow> ConstructorItem \<Rightarrow> ConstructorItem" where
  "class_merge fileId node classItem =
     (let nodeItem = upd_data (\<lambda>d. d\<lparr>cd_fileId := fileId, cd_type := Some InstanceType, cd_id := int (hn_id node),
            cd_index := int (hn_nodeIndex node), cd_childCount := int (hn_edgeCount node),
            cd_hasNext := hn_edgeCount node > 0\<rparr>) (HeapNodeToConstructorItem node)
      in push_child nodeItem (upd_data (\<lambda>d. d\<lparr>cd_distance := min (cd_distance d) (hn_distance node),
            cd_childCount := cd_childCount d + 1, cd_shallowSize := cd_shallowSize d + hn_selfSize node\<rparr>) classItem))"

definition summary_classes :: "HeapLoader \<Rightarrow> int option \<Rightarrow> int option \<Rightarrow> (jsstring \<times> ConstructorItem) list" where
  "summary_classes L minNodeId maxNodeId =
     group_all className (class_fresh (hl_fileId L)) (class_merge (hl_fileId L)) (filter (counted minNodeId maxNodeId) (hl_nodes L))"

section \<open>Retained sizes of the classes\<close>

text \<open>The loop's state: the stack of node indices, the stack lengths at which a class ends and the
  names of these classes, both with the top first, and the classes being seen.\<close>

record RetainState =
  rt_list :: "nat list"
  rt_sizes :: "int list"
  rt_classesName :: "jsstring list"
  rt_seen :: "jsstring \<Rightarrow> bool"
  rt_classes :: "(jsstring \<times> ConstructorItem) list"

fun unwind :: "int \<Rightarrow> int list \<Rightarrow> jsstring list \<Rightarrow> (jsstring \<Rightarrow> bool) \<Rightarrow> int list \<times> jsstring list \<times> (jsstring \<Rightarrow> bool)" where
  "unwind len [] names seen = ([], names, seen)"
| "unwind len (s # sizes) names seen =
     (if s = len
      then (case names of [] \<Rightarrow> unwind len sizes [] seen | c # names' \<Rightarrow> unwind len sizes names' (seen(c := False)))
      else (s # sizes, names, seen))"

definition retain_class :: "HeapLoader \<Rightarrow> int option \<Rightarrow> int option \<Rightarrow> HeapNode \<Rightarrow> RetainState \<Rightarrow> RetainState" where
  "retain_class L minNodeId maxNodeId node s =
     (let nodeClassName = className node in
      if \<not> rt_seen s nodeClassName \<and> node_filter minNodeId maxNodeId (hn_id node)
        \<and> (hn_selfSize node \<noteq> 0 \<or> hn_type node = NodeType_num NodeType_NATIVE)
      then (case map_of (rt_classes s) nodeClassName of
              None \<Rightarrow> s
            | Some classItem \<Rightarrow>
                (let s1 = s\<lparr>rt_classes := js_map_set nodeClassName
                       (upd_data (cd_retainedSize_update (\<lambda>r. r + hn_retainedSize node)) classItem) (rt_classes s)\<rparr>
                 in if hl_firstDominatedNodesIdx L ! hn_nodeIndex node \<noteq> hl_firstDominatedNodesIdx L ! (hn_nodeIndex node + 1)
                    then s1\<lparr>rt_seen := (rt_seen s)(nodeClassName := True), rt_sizes := int (length (rt_list s)) # rt_sizes s,
                            rt_classesName := nodeClassName # rt_classesName s\<rparr>
                    else s1))
      else s)"

text \<open>One round: the node is popped, its class counted, the nodes it dominates pushed, and the classes
  that end here are no longer seen.\<close>

definition retain_step :: "HeapLoader \<Rightarrow> int option \<Rightarrow> int option \<Rightarrow> nat \<Rightarrow> RetainState \<Rightarrow> RetainState" where
  "retain_step L minNodeId maxNodeId i s =
     (if \<not> i < length (hl_nodes L) then s
      else (let node = hl_nodes L ! i; s1 = retain_class L minNodeId maxNodeId node s;
                list = rev (dominated_of L (hn_nodeIndex node)) @ rt_list s1;
                (sizes, names, seen) = unwind (int (length list)) (rt_sizes s1) (rt_classesName s1) (rt_seen s1)
            in s1\<lparr>rt_list := list, rt_sizes := sizes, rt_classesName := names, rt_seen := seen\<rparr>))"

fun retain_loop :: "nat \<Rightarrow> HeapLoader \<Rightarrow> int option \<Rightarrow> int option \<Rightarrow> RetainState \<Rightarrow> RetainState result" where
  "retain_loop 0 L minNodeId maxNodeId s = Inl Blocked"
| "retain_loop (Suc fuel) L minNodeId maxNodeId s =
     (case rt_list s of
        [] \<Rightarrow> Inr s
      | i # list \<Rightarrow> retain_loop fuel L minNodeId maxNodeId (retain_step L minNodeId maxNodeId i (s\<lparr>rt_list := list\<rparr>)))"

definition getClassesForSummary :: "HeapLoader \<Rightarrow> int option \<Rightarrow> int option \<Rightarrow> ((jsstring \<times> ConstructorItem) list \<times> HeapLoader) result" where
  "getClassesForSummary L minNodeId maxNodeId =
     (case (hasFiler minNodeId maxNodeId, hl_allClasses L) of
        (False, Some classes) \<Rightarrow> Inr (classes, L)
      | _ \<Rightarrow>
          bindr (retain_loop (length (hl_nodes L) + 2) L minNodeId maxNodeId
              \<lparr>rt_list = [0], rt_sizes = [- 1], rt_classesName = [], rt_seen = (\<lambda>_. False),
               rt_classes = summary_classes L minNodeId maxNodeId\<rparr>) (\<lambda>s.
          Inr (rt_classes s,
               if hasFiler minNodeId maxNodeId then L else L\<lparr>hl_allClasses := Some (rt_classes s)\<rparr>)))"

section \<open>Comparison\<close>

text \<open>The state of the comparison: the differences and the classes of both files, whose instances
  are sorted on the way.\<close>

type_synonym class_map = "(jsstring \<times> ConstructorItem) list"

definition set_diff :: "jsstring \<Rightarrow> ConstructorItem option \<Rightarrow> class_map \<Rightarrow> class_map" where
  "set_diff c different diffMap = (case different of None \<Rightarrow> diffMap | Some d \<Rightarrow> js_map_set c d diffMap)"

fun compare_targets :: "int \<Rightarrow> class_map \<Rightarrow> class_map \<Rightarrow> class_map \<Rightarrow> (class_map \<times> class_map \<times> class_map) result" where
  "compare_targets fileId [] base diffMap = Inr ([], base, diffMap)"
| "compare_targets fileId ((key, targetClass) # rest) base diffMap =
     (let c = cd_nodeName (ci_data targetClass) in
      bindr (calClassDiff fileId targetClass (map_of base c)) (\<lambda>(different, targetClass', baseClass').
      let base' = (case baseClass' of None \<Rightarrow> base | Some b \<Rightarrow> js_map_set c b base) in
      bindr (compare_targets fileId rest base' (set_diff c different diffMap)) (\<lambda>(rest', base'', diffMap').
      Inr ((key, targetClass') # rest', base'', diffMap'))))"

fun compare_base :: "int \<Rightarrow> class_map \<Rightarrow> class_map \<Rightarrow> class_map \<Rightarrow> (class_map \<times> class_map) result" where
  "compare_base fileId targets [] diffMap = Inr ([], diffMap)"
| "compare_base fileId targets ((key, classItem) # rest) diffMap =
     (let c = cd_nodeName (ci_data classItem) in
      if map_of targets c \<noteq> None
      then bindr (compare_base fileId targets rest diffMap) (\<lambda>(rest', diffMap'). Inr ((key, classItem) # rest', diffMap'))
      else bindr (calClassDiff fileId classItem None) (\<lambda>(different, classItem', _).
           bindr (compare_base fileId targets rest (set_diff c different diffMap)) (\<lambda>(rest', diffMap').
           Inr ((key, classItem') # rest', diffMap'))))"

definition getClassesForComparison :: "HeapLoader \<Rightarrow> int \<Rightarrow> class_map \<Rightarrow> (class_map \<times> class_map \<times> HeapLoader) result" where
  "getClassesForComparison L targetFileId targetFileClasses =
     (case hl_diffToOtherFile L targetFileId of
        Some diffMap \<Rightarrow> Inr (diffMap, targetFileClasses, L)
      | None \<Rightarrow>
          bindr (case hl_allClasses L of Some c \<Rightarrow> Inr (c, L) | None \<Rightarrow> getClassesForSummary L None None) (\<lambda>(base, L1).
          bindr (compare_targets (hl_fileId L) targetFileClasses base []) (\<lambda>(targets', base', diffMap).
          bindr (compare_base (hl_fileId L) targetFileClasses base' diffMap) (\<lambda>(base'', diffMap').
          Inr (diffMap', targets', L1\<lparr>hl_allClasses := Some base'',
                 hl_diffToOtherFile := (hl_diffToOtherFile L1)(targetFileId \<mapsto> diffMap')\<rparr>)))))"


section \<open>What the grouping counts\<close>

lemma HeapNodeToConstructorItem_sel [simp]:
  "ci_classChildren (HeapNodeToConstructorItem n) = []" "cd_shallowSize (ci_data (HeapNodeToConstructorItem n)) = hn_selfSize n"
  "cd_distance (ci_data (HeapNodeToConstructorItem n)) = hn_distance n"
  by (simp_all add: HeapNodeToConstructorItem_def)

interpretation class_count: additive_group "class_fresh f" "class_merge f" "\<lambda>x. cd_childCount (ci_data x)" "\<lambda>_. 1" for f
  by unfold_locales (simp_all add: class_fresh_def class_merge_def Let_def)

interpretation class_shallow: additive_group "class_fresh f" "class_merge f" "\<lambda>x. cd_shallowSize (ci_data x)" hn_selfSize for f
  by unfold_locales (simp_all add: class_fresh_def class_merge_def Let_def)

lemma merged_class:
  assumes "merged (class_fresh f) (class_merge f) ns = Some x"
  shows "map item_id (ci_classChildren x) = map (\<lambda>n. int (hn_id n)) ns" "cd_nodeName (ci_data x) = className (hd ns)"
    "cd_fileId (ci_data x) = f" "cd_distance (ci_data x) = Min (hn_distance ` set ns)" "cd_type (ci_data x) = Some ClassType"
    "map (\<lambda>y. cd_index (ci_data y)) (ci_classChildren x) = map (\<lambda>n. int (hn_nodeIndex n)) ns"
proof -
  have step: "map item_id (ci_classChildren (fold (class_merge f) ms x)) = map item_id (ci_classChildren x) @ map (\<lambda>n. int (hn_id n)) ms
    \<and> map (\<lambda>y. cd_index (ci_data y)) (ci_classChildren (fold (class_merge f) ms x))
      = map (\<lambda>y. cd_index (ci_data y)) (ci_classChildren x) @ map (\<lambda>n. int (hn_nodeIndex n)) ms
    \<and> cd_nodeName (ci_data (fold (class_merge f) ms x)) = cd_nodeName (ci_data x)
    \<and> cd_fileId (ci_data (fold (class_merge f) ms x)) = cd_fileId (ci_data x)
    \<and> cd_type (ci_data (fold (class_merge f) ms x)) = cd_type (ci_data x)
    \<and> cd_distance (ci_data (fold (class_merge f) ms x)) = Min (insert (cd_distance (ci_data x)) (hn_distance ` set ms))" for ms x
  proof (induction ms arbitrary: x)
    case (Cons m ms)
    let ?y = "class_merge f m x"
    have y: "map item_id (ci_classChildren ?y) = map item_id (ci_classChildren x) @ [int (hn_id m)]"
      "map (\<lambda>y. cd_index (ci_data y)) (ci_classChildren ?y) = map (\<lambda>y. cd_index (ci_data y)) (ci_classChildren x) @ [int (hn_nodeIndex m)]"
      "cd_nodeName (ci_data ?y) = cd_nodeName (ci_data x)" "cd_fileId (ci_data ?y) = cd_fileId (ci_data x)"
      "cd_type (ci_data ?y) = cd_type (ci_data x)" "cd_distance (ci_data ?y) = min (cd_distance (ci_data x)) (hn_distance m)"
      by (simp_all add: class_merge_def Let_def)
    have "Min (insert (min a b) A) = Min (insert a (insert b A))" if "finite A" for a b :: int and A
      using that by (cases "A = {}") (simp_all add: min.assoc)
    then show ?case using Cons.IH [of ?y] by (simp add: y)
  qed simp
  obtain m ms where ns: "ns = m # ms" using assms by (cases ns) auto
  have fr: "map item_id (ci_classChildren (class_fresh f m)) = [int (hn_id m)]"
    "map (\<lambda>y. cd_index (ci_data y)) (ci_classChildren (class_fresh f m)) = [int (hn_nodeIndex m)]"
    "cd_nodeName (ci_data (class_fresh f m)) = className m" "cd_fileId (ci_data (class_fresh f m)) = f"
    "cd_type (ci_data (class_fresh f m)) = Some ClassType" "cd_distance (ci_data (class_fresh f m)) = hn_distance m"
    by (simp_all add: class_fresh_def Let_def)
  have x: "x = fold (class_merge f) ms (class_fresh f m)" using assms by (simp add: ns)
  show "map item_id (ci_classChildren x) = map (\<lambda>n. int (hn_id n)) ns" "cd_nodeName (ci_data x) = className (hd ns)"
    "cd_fileId (ci_data x) = f" "cd_distance (ci_data x) = Min (hn_distance ` set ns)" "cd_type (ci_data x) = Some ClassType"
    "map (\<lambda>y. cd_index (ci_data y)) (ci_classChildren x) = map (\<lambda>n. int (hn_nodeIndex n)) ns"
    using step [of ms "class_fresh f m"] fr by (simp_all add: x ns)
qed

text \<open>The nodes of a class in a summary.\<close>

definition members :: "HeapLoader \<Rightarrow> int option \<Rightarrow> int option \<Rightarrow> jsstring \<Rightarrow> HeapNode list" where
  "members L lo hi c = filter (\<lambda>n. counted lo hi n \<and> className n = c) (hl_nodes L)"

definition class_row :: "HeapLoader \<Rightarrow> int option \<Rightarrow> int option \<Rightarrow> jsstring \<Rightarrow> ConstructorItem \<Rightarrow> bool" where
  "class_row L lo hi c x \<longleftrightarrow> (let ms = members L lo hi c in
     cd_nodeName (ci_data x) = c \<and> cd_fileId (ci_data x) = hl_fileId L \<and> cd_type (ci_data x) = Some ClassType
   \<and> cd_childCount (ci_data x) = int (length ms) \<and> cd_shallowSize (ci_data x) = sum_list (map hn_selfSize ms)
   \<and> cd_distance (ci_data x) = Min (hn_distance ` set ms) \<and> map item_id (ci_classChildren x) = map (\<lambda>n. int (hn_id n)) ms
   \<and> map (\<lambda>y. cd_index (ci_data y)) (ci_classChildren x) = map (\<lambda>n. int (hn_nodeIndex n)) ms)"

lemma summary_rows:
  assumes "(c, x) \<in> set (summary_classes L lo hi)"
  shows "class_row L lo hi c x"
proof -
  let ?ms = "members L lo hi c"
  have mer: "merged (class_fresh (hl_fileId L)) (class_merge (hl_fileId L)) ?ms = Some x"
    using assms unfolding summary_classes_def by (simp add: js_map_ok_get [OF group_all_keys(1)] group_all_lookup members_def)
  have "?ms \<noteq> []" using mer by auto
  then have "hd ?ms \<in> set ?ms" by (rule hd_in_set)
  then have hd: "className (hd ?ms) = c" by (simp add: members_def)
  have "sum_list (map (\<lambda>_. 1) ms) = int (length ms)" for ms :: "HeapNode list" by (induction ms) simp_all
  then show ?thesis
    using merged_class [OF mer] class_count.total_merged [OF mer] class_shallow.total_merged [OF mer] hd
    by (simp add: class_row_def Let_def)
qed

section \<open>The walk over the dominator tree\<close>

lemma retain_class_frame: "rt_list (retain_class L lo hi n s) = rt_list s"
  by (simp add: retain_class_def Let_def split: option.split)

lemma retain_step_list:
  "rt_list (retain_step L lo hi i s) =
     (if i < length (hl_nodes L) then rev (dominated_of L (hn_nodeIndex (hl_nodes L ! i))) @ rt_list s else rt_list s)"
  by (simp add: retain_step_def Let_def case_prod_beta retain_class_frame)

text \<open>What \<open>buildDominatedNode\<close> leaves.\<close>

definition dominated_ok :: "HeapLoader \<Rightarrow> bool" where
  "dominated_ok L \<longleftrightarrow> (\<forall>v<length (hl_nodes L). dominated_of L v
     = rev (filter (\<lambda>i. hl_dominatorTree L ! i = v) [1..<length (hl_nodes L)]))"

text \<open>\<open>Q\<close> holds the nodes popped so far: a node on the stack or popped has its dominator popped.\<close>

definition walk_inv :: "HeapLoader \<Rightarrow> nat set \<Rightarrow> nat list \<Rightarrow> bool" where
  "walk_inv L Q st \<longleftrightarrow> distinct st \<and> set st \<inter> Q = {} \<and> set st \<union> Q \<subseteq> {..<length (hl_nodes L)}
     \<and> (\<forall>i\<in>set st \<union> Q. 1 \<le> i \<longrightarrow> hl_dominatorTree L ! i \<in> Q)"

lemma walk_step:
  assumes "dominated_ok L" "walk_inv L Q (v # st)"
  shows "walk_inv L (insert v Q) (rev (dominated_of L v) @ st)" "v < length (hl_nodes L)" "v \<notin> Q"
proof -
  let ?K = "filter (\<lambda>i. hl_dominatorTree L ! i = v) [1..<length (hl_nodes L)]"
  show v: "v < length (hl_nodes L)" "v \<notin> Q" using assms(2) by (auto simp: walk_inv_def)
  have K: "rev (dominated_of L v) = ?K" using assms(1) v by (simp add: dominated_ok_def)
  have "i \<notin> insert v (set st \<union> Q)" if "i \<in> set ?K" for i
    using assms(2) that v(2) by (auto simp: walk_inv_def)
  then show "walk_inv L (insert v Q) (rev (dominated_of L v) @ st)"
    unfolding K using assms(2) by (auto simp: walk_inv_def)
qed

lemma retain_loop_ends:
  assumes "wf_loader L" "dominated_ok L" "walk_inv L Q (rt_list s)" "length (hl_nodes L) - card Q < fuel"
  shows "\<exists>s'. retain_loop fuel L lo hi s = Inr s'"
  using assms(3,4)
proof (induction fuel arbitrary: Q s)
  case (Suc fuel)
  show ?case
  proof (cases "rt_list s")
    case (Cons v st)
    note step = walk_step [OF assms(2) Suc.prems(1) [unfolded Cons]]
    have "finite Q" "Q \<subseteq> {..<length (hl_nodes L)}" using Suc.prems(1) by (auto simp: walk_inv_def intro: finite_subset)
    then have "card (insert v Q) = Suc (card Q)" "card Q < length (hl_nodes L)"
      using step(2,3) psubset_card_mono [of "{..<length (hl_nodes L)}" Q] by auto
    moreover have "walk_inv L (insert v Q) (rt_list (retain_step L lo hi v (s\<lparr>rt_list := st\<rparr>)))"
      using step wf_loader_simps(1) [OF assms(1) step(2)] by (simp add: retain_step_list)
    ultimately show ?thesis using Suc.IH [of "insert v Q"] Suc.prems(2) by (simp add: Cons)
  qed simp
qed simp

text \<open>The walk changes retained sizes only.\<close>

definition sans_retained :: "class_map \<Rightarrow> class_map" where
  "sans_retained m = map (\<lambda>(c, x). (c, upd_data (cd_retainedSize_update (\<lambda>_. 0)) x)) m"

lemma upd_data_twice: "upd_data f (upd_data g x) = upd_data (f \<circ> g) x"
  by (cases x) simp

lemma sans_retained_set:
  "map_of m c = Some x \<Longrightarrow> sans_retained (js_map_set c (upd_data (cd_retainedSize_update g) x) m) = sans_retained m"
  by (induction m) (auto simp: sans_retained_def upd_data_twice comp_def split: if_splits)

lemma retain_step_classes: "sans_retained (rt_classes (retain_step L lo hi i s)) = sans_retained (rt_classes s)"
proof -
  have "sans_retained (rt_classes (retain_class L lo hi n s)) = sans_retained (rt_classes s)" for n
    by (auto simp: retain_class_def Let_def sans_retained_set split: option.split)
  then show ?thesis by (simp add: retain_step_def Let_def case_prod_beta)
qed

lemma retain_loop_classes:
  "retain_loop fuel L lo hi s = Inr s' \<Longrightarrow> sans_retained (rt_classes s') = sans_retained (rt_classes s)"
  by (induction fuel arbitrary: s) (auto simp: retain_step_classes split: list.splits)

lemma sans_retained_rows:
  assumes "sans_retained m' = sans_retained m" "\<forall>(c, x)\<in>set m. class_row L lo hi c x"
  shows "\<forall>(c, x)\<in>set m'. class_row L lo hi c x" "map fst m' = map fst m"
proof -
  have f: "map fst (sans_retained m) = map fst m" for m :: class_map by (simp add: sans_retained_def case_prod_beta comp_def)
  show "map fst m' = map fst m" using arg_cong [OF assms(1), of "map fst"] by (simp only: f)
  have row: "class_row L lo hi c (upd_data (cd_retainedSize_update (\<lambda>_. 0)) x) = class_row L lo hi c x" for c x
    by (simp add: class_row_def Let_def)
  have all: "(\<forall>(c, x)\<in>set m. class_row L lo hi c x) \<longleftrightarrow> (\<forall>(c, x)\<in>set (sans_retained m). class_row L lo hi c x)" for m
    by (simp add: sans_retained_def case_prod_beta row)
  show "\<forall>(c, x)\<in>set m'. class_row L lo hi c x" using assms all by metis
qed

lemma getClassesForSummary_total:
  assumes "wf_loader L" "dominated_ok L" "hasFiler lo hi \<or> hl_allClasses L = None"
  shows "\<exists>classes L'. getClassesForSummary L lo hi = Inr (classes, L') \<and> js_map_ok classes
    \<and> fst ` set classes = className ` {n \<in> set (hl_nodes L). counted lo hi n}
    \<and> (\<forall>(c, x)\<in>set classes. class_row L lo hi c x)
    \<and> (\<not> hasFiler lo hi \<longrightarrow> hl_allClasses L' = Some classes)"
proof -
  let ?s = "\<lparr>rt_list = [0], rt_sizes = [- 1], rt_classesName = [], rt_seen = (\<lambda>_. False), rt_classes = summary_classes L lo hi\<rparr>"
  have "walk_inv L {} (rt_list ?s)" using wf_loader_simps(8) [OF assms(1)] by (simp add: walk_inv_def)
  then obtain s' where s': "retain_loop (length (hl_nodes L) + 2) L lo hi ?s = Inr s'"
    using retain_loop_ends [OF assms(1,2), of "{}" ?s "length (hl_nodes L) + 2" lo hi] by auto
  have "sans_retained (rt_classes s') = sans_retained (summary_classes L lo hi)" using retain_loop_classes [OF s'] by simp
  from sans_retained_rows [OF this, of L lo hi] summary_rows
  have rows: "\<forall>(c, x)\<in>set (rt_classes s'). class_row L lo hi c x" "map fst (rt_classes s') = map fst (summary_classes L lo hi)"
    by blast+
  have "js_map_ok (rt_classes s')" using rows(2) group_all_keys(1) by (simp add: js_map_ok_def summary_classes_def)
  moreover have "fst ` set (rt_classes s') = className ` {n \<in> set (hl_nodes L). counted lo hi n}"
  proof -
    have "fst ` set (rt_classes s') = fst ` set (summary_classes L lo hi)" using arg_cong [OF rows(2), of set] by simp
    then show ?thesis by (simp add: summary_classes_def group_all_keys(2))
  qed
  moreover have "getClassesForSummary L lo hi
      = Inr (rt_classes s', if hasFiler lo hi then L else L\<lparr>hl_allClasses := Some (rt_classes s')\<rparr>)"
    using assms(3) s' by (auto simp: getClassesForSummary_def simp del: retain_loop.simps split: option.split bool.split)
  ultimately show ?thesis using rows(1) by auto
qed

text \<open>The summary is returned and has exactly one row per class name that a counted object has; each
  row carries the number of these objects, the sum of their sizes, the least of their distances and
  their ids and indices in order.\<close>

theorem getClassesForSummary_rows:
  assumes "wf_loader L" "dominated_ok L" "hasFiler lo hi \<or> hl_allClasses L = None"
  shows "\<exists>classes L'. getClassesForSummary L lo hi = Inr (classes, L') \<and> js_map_ok classes
    \<and> fst ` set classes = className ` {n \<in> set (hl_nodes L). counted lo hi n}
    \<and> (\<forall>(c, x)\<in>set classes. class_row L lo hi c x)
    \<and> (\<not> hasFiler lo hi \<longrightarrow> hl_allClasses L' = Some classes)"
  using assms by (rule getClassesForSummary_total)


section \<open>The comparison class by class\<close>

text \<open>The row for one class, or none when both sides have the same ids.\<close>

definition diff_row :: "int \<Rightarrow> ConstructorItem \<Rightarrow> ConstructorItem option \<Rightarrow> ConstructorItem option" where
  "diff_row fileId t b =
     (if ids (class_children (Some t)) = ids (class_children b) then None
      else Some (new_item (diff_data fileId t (missing (class_children (Some t)) (class_children b))
        (missing (class_children b) (class_children (Some t))))))"

lemma class_children_sorted [simp]: "class_children (Some (sort_children x)) = class_children (Some x)"
  by (simp add: class_children_def sort_key_id_if_sorted)

lemma sort_children_ok: "class_ok x \<Longrightarrow> class_ok (sort_children x)"
  using ids_sorted_sort [of "ci_classChildren x"]
  by (simp add: class_ok_def ids_sorted_def strict_sorted_iff)

text \<open>Rows filed under their names.\<close>

definition rows_ok :: "class_map \<Rightarrow> bool" where
  "rows_ok m \<longleftrightarrow> js_map_ok m \<and> (\<forall>(c, x)\<in>set m. class_ok x \<and> cd_nodeName (ci_data x) = c)"

lemma rows_ok_Cons: "rows_ok ((c, x) # m) \<longleftrightarrow> class_ok x \<and> cd_nodeName (ci_data x) = c \<and> map_of m c = None \<and> rows_ok m"
  by (auto simp: rows_ok_def js_map_ok_def map_of_eq_None_iff image_iff)

lemma rows_ok_get: "rows_ok m \<Longrightarrow> map_of m c = Some x \<Longrightarrow> class_ok x \<and> cd_nodeName (ci_data x) = c"
  by (auto simp: rows_ok_def dest: map_of_SomeD)

text \<open>The same rows, some of them sorted.\<close>

definition same_rows :: "class_map \<Rightarrow> class_map \<Rightarrow> bool" where
  "same_rows m m0 \<longleftrightarrow> map fst m = map fst m0 \<and>
     (\<forall>c. map_of m c = map_of m0 c \<or> map_of m c = map_option sort_children (map_of m0 c))"

lemma same_rows_set:
  assumes "same_rows m m0" "map_of m c = Some x"
  shows "same_rows (js_map_set c (sort_children x) m) m0"
proof -
  have "sort_children (sort_children y) = sort_children y" for y
    by (cases y) (simp add: sort_key_id_if_sorted)
  then have "map_option sort_children (map_of m c) = map_option sort_children (map_of m0 c)"
    using assms(1) by (auto simp: same_rows_def option.map_comp comp_def split: option.splits dest!: spec [of _ c])
  then have "Some (sort_children x) = map_option sort_children (map_of m0 c)" using assms(2) by simp
  moreover have "c \<in> set (map fst m)" using assms(2) by (force dest: map_of_SomeD)
  ultimately show ?thesis using assms(1) by (auto simp: same_rows_def keys_js_map_set simp del: set_map)
qed

lemma same_rows_diff: "same_rows m m0 \<Longrightarrow> diff_row f t (map_of m c) = diff_row f t (map_of m0 c)"
  by (auto simp: same_rows_def diff_row_def dest!: spec [of _ c] split: option.splits)
     (cases "map_of m0 c"; simp)+

lemma same_rows_ok: "same_rows m m0 \<Longrightarrow> rows_ok m0 \<Longrightarrow> rows_ok m"
proof -
  assume *: "same_rows m m0" "rows_ok m0"
  have "js_map_ok m" using * by (simp add: same_rows_def rows_ok_def js_map_ok_def)
  moreover have "class_ok x \<and> cd_nodeName (ci_data x) = c" if "(c, x) \<in> set m" for c x
  proof -
    have "map_of m c = Some x" using that \<open>js_map_ok m\<close> by (simp add: js_map_ok_def)
    then show ?thesis
      using *(1) rows_ok_get [OF *(2), of c] sort_children_ok by (auto simp: same_rows_def dest!: spec [of _ c])
  qed
  ultimately show ?thesis by (auto simp: rows_ok_def)
qed

lemma map_of_set_diff: "map_of (set_diff c r m) = (case r of None \<Rightarrow> map_of m | Some d \<Rightarrow> (map_of m)(c \<mapsto> d))"
  by (simp add: set_diff_def split: option.split)

definition or_old :: "'a option \<Rightarrow> 'a option \<Rightarrow> 'a option" where
  "or_old new old = (case new of None \<Rightarrow> old | Some d \<Rightarrow> Some d)"

lemma compare_targets_rows:
  assumes "rows_ok targets" "rows_ok base0" "same_rows base base0"
  shows "\<exists>t' base' diff'. compare_targets f targets base diff = Inr (t', base', diff') \<and> same_rows base' base0
    \<and> (\<forall>c. map_of diff' c = (case map_of targets c of None \<Rightarrow> map_of diff c
         | Some t \<Rightarrow> or_old (diff_row f t (map_of base0 c)) (map_of diff c)))"
  using assms(1,3)
proof (induction targets arbitrary: base diff)
  case Nil
  then show ?case by simp
next
  case (Cons kt targets)
  obtain k t where kt: "kt = (k, t)" by (cases kt)
  have t: "class_ok t" "cd_nodeName (ci_data t) = k" "map_of targets k = None" "rows_ok targets"
    using Cons.prems(1) by (simp_all add: kt rows_ok_Cons)
  have bok: "\<forall>b. map_of base k = Some b \<longrightarrow> class_ok b"
    using rows_ok_get [OF same_rows_ok [OF Cons.prems(2) assms(2)]] by blast
  let ?b = "case map_option sort_children (map_of base k) of None \<Rightarrow> base | Some b \<Rightarrow> js_map_set k b base"
  let ?d = "set_diff k (diff_row f t (map_of base0 k)) diff"
  have sb: "same_rows ?b base0" using Cons.prems(2) same_rows_set by (auto split: option.split)
  have cd: "calClassDiff f t (map_of base k) = Inr (diff_row f t (map_of base0 k), sort_children t, map_option sort_children (map_of base k))"
    using calClassDiff_eq [OF t(1) bok, of f] same_rows_diff [OF Cons.prems(2), of f t k] by (simp add: diff_row_def)
  obtain t' base' diff' where IH: "compare_targets f targets ?b ?d = Inr (t', base', diff')" "same_rows base' base0"
    "\<forall>c. map_of diff' c = (case map_of targets c of None \<Rightarrow> map_of ?d c
         | Some t \<Rightarrow> or_old (diff_row f t (map_of base0 c)) (map_of ?d c))"
    using Cons.IH [OF t(4) sb] by blast
  have "compare_targets f (kt # targets) base diff = Inr ((k, sort_children t) # t', base', diff')"
    using IH(1) by (simp add: kt t(2) cd Let_def)
  moreover have "map_of diff' c = (case map_of (kt # targets) c of None \<Rightarrow> map_of diff c
         | Some t \<Rightarrow> or_old (diff_row f t (map_of base0 c)) (map_of diff c))" for c
    using IH(3) t(3) by (cases "c = k") (auto simp: kt map_of_set_diff or_old_def split: option.splits)
  ultimately show ?case using IH(2) by blast
qed

lemma compare_base_rows:
  assumes "rows_ok base"
  shows "\<exists>base' diff'. compare_base f targets base diff = Inr (base', diff')
    \<and> (\<forall>c. map_of diff' c = (case (map_of targets c, map_of base c) of
         (None, Some b) \<Rightarrow> or_old (diff_row f b None) (map_of diff c) | _ \<Rightarrow> map_of diff c))"
  using assms
proof (induction base arbitrary: diff)
  case Nil
  then show ?case by (simp split: option.split)
next
  case (Cons kb base)
  obtain k b where kb: "kb = (k, b)" by (cases kb)
  have b: "class_ok b" "cd_nodeName (ci_data b) = k" "map_of base k = None" "rows_ok base"
    using Cons.prems by (simp_all add: kb rows_ok_Cons)
  let ?d = "if map_of targets k \<noteq> None then diff else set_diff k (diff_row f b None) diff"
  obtain base' diff' where IH: "compare_base f targets base ?d = Inr (base', diff')"
    "\<forall>c. map_of diff' c = (case (map_of targets c, map_of base c) of
         (None, Some b) \<Rightarrow> or_old (diff_row f b None) (map_of ?d c) | _ \<Rightarrow> map_of ?d c)"
    using Cons.IH [OF b(4)] by blast
  have cd: "calClassDiff f b None = Inr (diff_row f b None, sort_children b, None)"
    using calClassDiff_eq [OF b(1), of None f] by (simp add: diff_row_def)
  have "\<exists>b'. compare_base f targets (kb # base) diff = Inr ((k, b') # base', diff')"
    using IH(1) by (cases "map_of targets k") (auto simp: kb b(2) cd Let_def)
  moreover have "map_of diff' c = (case (map_of targets c, map_of (kb # base) c) of
         (None, Some b) \<Rightarrow> or_old (diff_row f b None) (map_of diff c) | _ \<Rightarrow> map_of diff c)" for c
    using IH(2) b(3) by (cases "c = k") (auto simp: kb map_of_set_diff or_old_def split: option.splits)
  ultimately show ?case by blast
qed

text \<open>The first comparison of a snapshot whose classes are known with a target has a row for a
  class of the target exactly when its ids differ from those of the base's class (all of them
  counting as removed when the base lacks the class), and a class that only the base has is compared
  with nothing as if it were the target's: all its objects count as removed, none as added. The
  result is kept for the target file.\<close>

theorem getClassesForComparison_rows:
  assumes "hl_diffToOtherFile L targetFileId = None" "hl_allClasses L = Some base" "rows_ok base" "rows_ok targets"
  shows "\<exists>diffMap targets' L'. getClassesForComparison L targetFileId targets = Inr (diffMap, targets', L')
    \<and> hl_diffToOtherFile L' targetFileId = Some diffMap
    \<and> (\<forall>c. map_of diffMap c = (case (map_of targets c, map_of base c) of
         (Some t, b) \<Rightarrow> diff_row (hl_fileId L) t b
       | (None, Some b) \<Rightarrow> (if ci_classChildren b = [] then None
           else Some (new_item (diff_data (hl_fileId L) b (class_children (Some b)) [])))
       | (None, None) \<Rightarrow> None))"
proof -
  have "same_rows base base" by (simp add: same_rows_def)
  from compare_targets_rows [OF assms(4,3) this, of "hl_fileId L" "[]"] obtain t' base' d1 where
    t: "compare_targets (hl_fileId L) targets base [] = Inr (t', base', d1)" "same_rows base' base"
      "\<forall>c. map_of d1 c = (case map_of targets c of None \<Rightarrow> map_of [] c
        | Some t \<Rightarrow> or_old (diff_row (hl_fileId L) t (map_of base c)) (map_of [] c))"
    by blast
  from compare_base_rows [OF same_rows_ok [OF t(2) assms(3)], of "hl_fileId L" targets d1] obtain base'' d2 where
    b: "compare_base (hl_fileId L) targets base' d1 = Inr (base'', d2)"
      "\<forall>c. map_of d2 c = (case (map_of targets c, map_of base' c) of
         (None, Some b) \<Rightarrow> or_old (diff_row (hl_fileId L) b None) (map_of d1 c) | _ \<Rightarrow> map_of d1 c)"
    by auto
  let ?L = "L\<lparr>hl_allClasses := Some base'', hl_diffToOtherFile := (hl_diffToOtherFile L)(targetFileId \<mapsto> d2)\<rparr>"
  have run: "getClassesForComparison L targetFileId targets = Inr (d2, t', ?L)"
    using assms(1,2) t(1) b(1) by (simp add: getClassesForComparison_def)
  have sole: "diff_row f x None = (if ci_classChildren x = [] then None else Some (new_item (diff_data f x (class_children (Some x)) [])))" for f x
    by (auto simp: diff_row_def class_children_def missing_simps)
  have srt: "diff_row f (sort_children x) None = diff_row f x None" for f x
    by (simp add: diff_row_def diff_data_def)
  have "map_of d2 c = (case (map_of targets c, map_of base c) of
         (Some t, b) \<Rightarrow> diff_row (hl_fileId L) t b
       | (None, Some b) \<Rightarrow> diff_row (hl_fileId L) b None
       | (None, None) \<Rightarrow> None)" for c
    using t(3) b(2) t(2) by (auto simp: same_rows_def or_old_def srt split: option.splits dest!: spec [of _ c])
  then show ?thesis using run by (auto simp: sole split: option.splits)
qed


section \<open>Witnesses\<close>

text \<open>The small snapshot after \<open>buildDominatedNode\<close>: the root dominates both other nodes.\<close>

definition demo_dominated :: HeapLoader where
  "demo_dominated = demo_loader\<lparr>hl_firstDominatedNodesIdx := [0, 2, 2, 2], hl_dominatedNodes := [2, 1]\<rparr>"

lemma demo_dominated_ok: "wf_loader demo_dominated" "dominated_ok demo_dominated"
proof -
  show wf: "wf_loader demo_dominated" using demo_loader_wf by (simp add: wf_loader_def demo_dominated_def)
  have n: "length (hl_nodes demo_dominated) = 3" by (simp add: demo_dominated_def demo_loader_def demo_nodes_def)
  have "dominated_of demo_dominated v = rev (filter (\<lambda>i. hl_dominatorTree demo_dominated ! i = v) [1..<3])" if "v \<in> {0, 1, 2}" for v
    using that by (auto simp: dominated_of_def demo_dominated_def demo_loader_def upt_rec)
  moreover have "v < 3 \<longleftrightarrow> v \<in> {0, 1, 2 :: nat}" for v by auto
  ultimately show "dominated_ok demo_dominated" by (simp add: dominated_ok_def n)
qed

lemma demo_dominated_classes: "className ` {n \<in> set (hl_nodes demo_dominated). counted None None n} = {js ''A'', js ''B''}"
proof -
  have "{n \<in> set (hl_nodes demo_dominated). counted None None n} = {demo_nodes ! 1, demo_nodes ! 2}"
    by (auto simp: demo_dominated_def demo_loader_def demo_nodes_def counted_def node_filter_def mkHeapNode_def)
  moreover have "className (demo_nodes ! 1) = js ''A''" "className (demo_nodes ! 2) = js ''B''"
    by (simp_all add: demo_nodes_def className_def nodeName_def mkHeapNode_def)
  ultimately show ?thesis by simp
qed

theorem getClassesForSummary_rows_witness:
  "\<exists>classes L'. getClassesForSummary demo_dominated None None = Inr (classes, L') \<and> fst ` set classes = {js ''A'', js ''B''}"
proof -
  have "hl_allClasses demo_dominated = None" by (simp add: demo_dominated_def demo_loader_def)
  then show ?thesis using getClassesForSummary_rows [OF demo_dominated_ok, of None None] by (auto simp: demo_dominated_classes)
qed

theorem getClassesForComparison_rows_witness:
  "\<exists>diffMap targets' L'. getClassesForComparison (demo_loader\<lparr>hl_allClasses := Some [([], demo_class [demo_instance 7 2])]\<rparr>) 1 []
      = Inr (diffMap, targets', L')
    \<and> map_of diffMap [] = Some (new_item (diff_data 0 (demo_class [demo_instance 7 2]) [demo_instance 7 2] []))"
proof -
  have ok: "rows_ok [([], demo_class [demo_instance 7 2])]" "rows_ok []"
    by (simp_all add: rows_ok_def js_map_ok_def class_ok_def demo_class_def new_data_def)
  show ?thesis
    using getClassesForComparison_rows [OF _ _ ok, of "demo_loader\<lparr>hl_allClasses := Some [([], demo_class [demo_instance 7 2])]\<rparr>" 1]
    by (auto simp: demo_loader_def class_children_def demo_class_def)
qed

end
