(* ===== verification/Heap_Samples.thy ===== *)
theory Heap_Samples
  imports Heap_Loader
begin

text \<open>
  The timeline samples of \<open>HeapLoader.ts\<close>: \<open>binarySearchNodeInSamples\<close> finds the sample that an
  object belongs to by its id, \<open>buildSamples\<close> adds the object's size to it.
\<close>

section \<open>Operations\<close>

text \<open>The bounds are \<open>left\<close> and \<open>right\<close>, the latter possibly \<open>-1\<close>. A sample beyond the array would read
  a field of \<open>undefined\<close>; the indices stay inside.\<close>

function bsearch_loop :: "nat \<Rightarrow> HeapSample list \<Rightarrow> int \<Rightarrow> int \<Rightarrow> int" where
  "bsearch_loop nodeId samples left right =
     (if left \<le> right then
        (let mid = (left + right) div 2; lastAssignedId = smp_lastAssignedId (samples ! nat mid) in
         if lastAssignedId = nodeId then left
         else if lastAssignedId < nodeId then bsearch_loop nodeId samples (mid + 1) right
         else bsearch_loop nodeId samples left (mid - 1))
      else left)"
  by pat_completeness auto
termination
  by (relation "measure (\<lambda>(i, s, l, r). nat (r - l + 1))") auto

declare bsearch_loop.simps [simp del]

definition binarySearchNodeInSamples :: "nat \<Rightarrow> HeapSample list \<Rightarrow> int" where
  "binarySearchNodeInSamples nodeId samples = bsearch_loop nodeId samples 0 (int (length samples) - 1)"

definition sample_node :: "HeapNode \<Rightarrow> HeapSample list \<Rightarrow> HeapSample list" where
  "sample_node node samples =
     (if hn_id node mod 2 = 0 then samples
      else (let rangeIdx = binarySearchNodeInSamples (hn_id node) samples in
        if rangeIdx = int (length samples) then samples
        else samples[nat rangeIdx := smp_size_update (\<lambda>s. s + hn_selfSize node) (samples ! nat rangeIdx)]))"

definition buildSamples :: "HeapLoader \<Rightarrow> HeapLoader" where
  "buildSamples L =
     (if hl_samples L = [] then L else L\<lparr>hl_samples := fold sample_node (hl_nodes L) (hl_samples L)\<rparr>)"

definition getMinAndMaxNodeId :: "HeapLoader \<Rightarrow> (nat \<times> nat) result" where
  "getMinAndMaxNodeId L =
     (if hl_nodes L = [] \<or> \<not> hl_nodeCount L - 1 < length (hl_nodes L) then Inl TypeError
      else Inr (hn_id (hl_nodes L ! 0), hn_id (hl_nodes L ! (hl_nodeCount L - 1))))"

section \<open>The search\<close>

abbreviation last_ids :: "HeapSample list \<Rightarrow> nat list" where
  "last_ids samples \<equiv> map smp_lastAssignedId samples"

definition below :: "HeapSample list \<Rightarrow> nat \<Rightarrow> int \<Rightarrow> bool" where
  "below samples nodeId left \<longleftrightarrow> (\<forall>k<length samples. int k < left \<longrightarrow> smp_lastAssignedId (samples ! k) < nodeId)"

definition above :: "HeapSample list \<Rightarrow> nat \<Rightarrow> int \<Rightarrow> bool" where
  "above samples nodeId right \<longleftrightarrow> (\<forall>k<length samples. right \<le> int k \<longrightarrow> nodeId < smp_lastAssignedId (samples ! k))"

lemma below_mid:
  assumes "sorted (last_ids samples)" "0 \<le> mid" "nat mid < length samples" "smp_lastAssignedId (samples ! nat mid) < nodeId"
  shows "below samples nodeId (mid + 1)"
  unfolding below_def
proof (intro allI impI)
  fix k assume "k < length samples" "int k < mid + 1"
  then have "smp_lastAssignedId (samples ! k) \<le> smp_lastAssignedId (samples ! nat mid)"
    using sorted_nth_mono [OF assms(1), of k "nat mid"] assms(2,3) by simp
  then show "smp_lastAssignedId (samples ! k) < nodeId" using assms(4) by simp
qed

lemma above_mid:
  assumes "sorted (last_ids samples)" "0 \<le> mid" "nodeId < smp_lastAssignedId (samples ! nat mid)"
  shows "above samples nodeId mid"
  unfolding above_def
proof (intro allI impI)
  fix k assume "k < length samples" "mid \<le> int k"
  then have "smp_lastAssignedId (samples ! nat mid) \<le> smp_lastAssignedId (samples ! k)"
    using sorted_nth_mono [OF assms(1), of "nat mid" k] by simp
  then show "nodeId < smp_lastAssignedId (samples ! k)" using assms(3) by simp
qed

text \<open>
  Every sample left of the range is below the id, every sample right of it is above. On a hit the
  code returns the left end of the range it has narrowed to, not the sample it hit.
\<close>

lemma bsearch_bounds:
  assumes "0 \<le> left" "left \<le> right + 1" "right < int (length samples)" "sorted (last_ids samples)"
    and "below samples nodeId left" "above samples nodeId (right + 1)"
  shows "left \<le> bsearch_loop nodeId samples left right \<and> bsearch_loop nodeId samples left right \<le> right + 1
    \<and> below samples nodeId (bsearch_loop nodeId samples left right)
    \<and> (nodeId \<notin> set (last_ids samples) \<longrightarrow> above samples nodeId (bsearch_loop nodeId samples left right))"
  using assms
proof (induction "nat (right - left + 1)" arbitrary: left right rule: less_induct)
  case less
  show ?case
  proof (cases "left \<le> right")
    case False
    then have "bsearch_loop nodeId samples left right = left" "right + 1 = left"
      using less.prems(2) by (simp_all add: bsearch_loop.simps)
    then show ?thesis using less.prems by simp
  next
    case True
    let ?mid = "(left + right) div 2"
    have mid: "left \<le> ?mid" "?mid \<le> right" "0 \<le> ?mid" "nat ?mid < length samples" using True less.prems(1,3) by linarith+
    note unf = bsearch_loop.simps [of nodeId samples left right]
    consider (hit) "smp_lastAssignedId (samples ! nat ?mid) = nodeId" | (lo) "smp_lastAssignedId (samples ! nat ?mid) < nodeId"
      | (hi) "nodeId < smp_lastAssignedId (samples ! nat ?mid)" by linarith
    then show ?thesis
    proof cases
      case hit
      then have "nodeId \<in> set (last_ids samples)" using mid(4) by auto
      then show ?thesis using unf hit True less.prems(2,5) by simp
    next
      case lo
      then have "bsearch_loop nodeId samples left right = bsearch_loop nodeId samples (?mid + 1) right"
        using unf True by simp
      then show ?thesis
        using less.hyps [of right "?mid + 1"] below_mid [OF less.prems(4) mid(3,4) lo] mid less.prems by simp
    next
      case hi
      then have "bsearch_loop nodeId samples left right = bsearch_loop nodeId samples left (?mid - 1)"
        using unf True by simp
      then show ?thesis
        using less.hyps [of "?mid - 1" left] above_mid [OF less.prems(4) mid(3) hi] mid less.prems by simp
    qed
  qed
qed

text \<open>On samples in order of their ids, the search for an id that is no sample's last id returns
  the number of samples below it, the position of the sample that covers the id; the result is never
  past the end, and only samples below the id stand before it.\<close>

theorem binarySearch_position:
  assumes "sorted (last_ids samples)"
  shows "0 \<le> binarySearchNodeInSamples nodeId samples \<and> binarySearchNodeInSamples nodeId samples \<le> int (length samples)
    \<and> (\<forall>k<length samples. int k < binarySearchNodeInSamples nodeId samples \<longrightarrow> smp_lastAssignedId (samples ! k) < nodeId)
    \<and> (nodeId \<notin> set (last_ids samples) \<longrightarrow>
        binarySearchNodeInSamples nodeId samples = int (length (filter (\<lambda>x. x < nodeId) (last_ids samples))))"
proof -
  define i where "i = binarySearchNodeInSamples nodeId samples"
  have "0 \<le> i \<and> i \<le> int (length samples) - 1 + 1 \<and> below samples nodeId i \<and> (nodeId \<notin> set (last_ids samples) \<longrightarrow> above samples nodeId i)"
    unfolding i_def binarySearchNodeInSamples_def
    by (rule bsearch_bounds) (use assms(1) in \<open>auto simp: below_def above_def\<close>)
  then have i: "0 \<le> i" "i \<le> int (length samples)" "below samples nodeId i" "nodeId \<notin> set (last_ids samples) \<Longrightarrow> above samples nodeId i"
    by simp_all
  have "i = int (length (filter (\<lambda>x. x < nodeId) (last_ids samples)))" if "nodeId \<notin> set (last_ids samples)"
  proof -
    have "{k. k < length (last_ids samples) \<and> last_ids samples ! k < nodeId} = {..<nat i}"
      using i(1-3) i(4) [OF that] by (auto simp: below_def above_def)
    then have "length (filter (\<lambda>x. x < nodeId) (last_ids samples)) = nat i" by (simp only: length_filter_conv_card card_lessThan)
    then show ?thesis using i(1) by simp
  qed
  then show ?thesis using i by (auto simp: below_def simp flip: i_def)
qed

section \<open>Adding sizes\<close>

lemma sample_node_ids: "last_ids (sample_node node samples) = last_ids samples"
  by (auto simp: sample_node_def Let_def map_update list_update_same_conv)
    (cases "nat (binarySearchNodeInSamples (hn_id node) samples) < length samples", auto simp: list_update_same_conv list_update_beyond)

lemma bsearch_ids: "last_ids s' = last_ids s \<Longrightarrow> binarySearchNodeInSamples i s' = binarySearchNodeInSamples i s"
proof -
  assume ids: "last_ids s' = last_ids s"
  then have len: "length s' = length s" by (rule map_eq_imp_length_eq)
  have nth: "smp_lastAssignedId (s' ! k) = smp_lastAssignedId (s ! k)" if "k < length s" for k
    using that arg_cong [OF ids, of "\<lambda>xs. xs ! k"] len by simp
  have "bsearch_loop i s' l r = bsearch_loop i s l r" if "0 \<le> l" "r < int (length s)" for l r
    using that
  proof (induction "nat (r - l + 1)" arbitrary: l r rule: less_induct)
    case less
    show ?case
    proof (cases "l \<le> r")
      case True
      have "smp_lastAssignedId (s' ! nat ((l + r) div 2)) = smp_lastAssignedId (s ! nat ((l + r) div 2))"
        using True less.prems by (intro nth) linarith
      then show ?thesis
        using less.hyps [of r "(l + r) div 2 + 1"] less.hyps [of "(l + r) div 2 - 1" l] True less.prems
        by (subst (1 2) bsearch_loop.simps) (simp add: Let_def)
    qed (simp add: bsearch_loop.simps)
  qed
  then show ?thesis by (simp add: binarySearchNodeInSamples_def len)
qed


text \<open>The objects counted for sample \<open>k\<close>.\<close>

definition sampled :: "HeapSample list \<Rightarrow> nat \<Rightarrow> HeapNode \<Rightarrow> bool" where
  "sampled samples k node \<longleftrightarrow> hn_id node mod 2 \<noteq> 0 \<and> binarySearchNodeInSamples (hn_id node) samples = int k"

lemma sampled_ids: "last_ids s' = last_ids s \<Longrightarrow> sampled s' k = sampled s k"
  using bsearch_ids [of s' s] by (simp add: sampled_def fun_eq_iff)

lemma sample_node_size:
  assumes "k < length samples" "0 \<le> binarySearchNodeInSamples (hn_id node) samples"
  shows "smp_size (sample_node node samples ! k) = smp_size (samples ! k) + (if sampled samples k node then hn_selfSize node else 0)"
  using assms by (auto simp: sample_node_def sampled_def Let_def nth_list_update)

lemma bsearch_nonneg: "0 \<le> l \<Longrightarrow> 0 \<le> bsearch_loop i s l r"
proof (induction "nat (r - l + 1)" arbitrary: l r rule: less_induct)
  case less
  show ?case
  proof (cases "l \<le> r")
    case True
    then show ?thesis
      using less.hyps [of r "(l + r) div 2 + 1"] less.hyps [of "(l + r) div 2 - 1" l] less.prems
      by (subst bsearch_loop.simps) (auto simp: Let_def)
  qed (use less.prems in \<open>simp add: bsearch_loop.simps\<close>)
qed

text \<open>C22: \<open>buildSamples\<close> adds to every sample exactly the sizes of the objects with an odd id that the
  search assigns to it, and changes neither its time nor its id.\<close>

theorem buildSamples_sizes:
  assumes "k < length (hl_samples L)"
  shows "smp_size (hl_samples (buildSamples L) ! k)
      = smp_size (hl_samples L ! k) + sum_list (map hn_selfSize (filter (sampled (hl_samples L) k) (hl_nodes L)))
    \<and> last_ids (hl_samples (buildSamples L)) = last_ids (hl_samples L)"
proof -
  have "smp_size (fold sample_node ns s ! k) = smp_size (s ! k) + sum_list (map hn_selfSize (filter (sampled s k) ns))
      \<and> last_ids (fold sample_node ns s) = last_ids s" if "k < length s" for ns s
    using that
  proof (induction ns arbitrary: s)
    case (Cons n ns)
    have ids: "last_ids (sample_node n s) = last_ids s" by (rule sample_node_ids)
    then have len: "length (sample_node n s) = length s" by (rule map_eq_imp_length_eq)
    have "0 \<le> binarySearchNodeInSamples (hn_id n) s" by (simp add: binarySearchNodeInSamples_def bsearch_nonneg)
    then show ?case
      using Cons.IH [of "sample_node n s"] Cons.prems sample_node_size [of k s n] ids sampled_ids [OF ids, of k] len by simp
  qed simp
  then show ?thesis using assms by (auto simp: buildSamples_def)
qed

section \<open>Witnesses\<close>

theorem binarySearch_position_witness:
  "binarySearchNodeInSamples 4 [\<lparr>smp_timestamp = 0, smp_lastAssignedId = 3, smp_size = 0\<rparr>, \<lparr>smp_timestamp = 1, smp_lastAssignedId = 7, smp_size = 0\<rparr>] = 1"
  using binarySearch_position [of "[\<lparr>smp_timestamp = 0, smp_lastAssignedId = 3, smp_size = 0\<rparr>, \<lparr>smp_timestamp = 1, smp_lastAssignedId = 7, smp_size = 0\<rparr>]" 4]
  by simp

theorem buildSamples_sizes_witness:
  "smp_size (hl_samples (buildSamples (demo_loader\<lparr>hl_samples := [\<lparr>smp_timestamp = 0, smp_lastAssignedId = 9, smp_size = 1\<rparr>]\<rparr>)) ! 0) = 18"
proof -
  let ?s = "[\<lparr>smp_timestamp = 0, smp_lastAssignedId = 9, smp_size = 1\<rparr>]"
  have b: "binarySearchNodeInSamples i ?s = 0" if "i < 9" for i
    using that by (simp add: binarySearchNodeInSamples_def bsearch_loop.simps Let_def)
  show ?thesis
    using buildSamples_sizes [of 0 "demo_loader\<lparr>hl_samples := ?s\<rparr>"] b
    by (simp add: demo_loader_def demo_nodes_def mkHeapNode_def sampled_def)
qed

end
