(* ===== verification/Call_Depth.thy ===== *)
theory Call_Depth
  imports Main
begin

text \<open>
  Recursive functions of the code that follow references between finitely many objects return
  exactly when they meet no cycle; on a cycle they overflow the stack. A model with a bound on the depth
  of the calls satisfies the contract below, and then as much depth as there are objects decides: a
  call that needs more never returns.
\<close>

locale call_depth =
  fixes overflows :: "nat \<Rightarrow> 'a \<Rightarrow> bool" and calls :: "'a \<Rightarrow> 'a set" and nodes :: "'a set"
  assumes finite_nodes: "finite nodes"
    and calls_nodes: "x \<in> nodes \<Longrightarrow> calls x \<subseteq> nodes"
    and overflows_0: "overflows 0 x"
    and overflows_Suc: "overflows (Suc k) x \<longleftrightarrow> (\<exists>y\<in>calls x. overflows k y)"
begin

lemma overflows_less: "overflows (Suc k) x \<Longrightarrow> overflows k x"
proof (induction k arbitrary: x)
  case 0
  then show ?case by (simp add: overflows_0)
next
  case (Suc k)
  then show ?case by (metis overflows_Suc)
qed

lemma overflows_le: "overflows k x \<Longrightarrow> j \<le> k \<Longrightarrow> overflows j x"
  by (induction k) (auto simp: le_Suc_eq dest: overflows_less)

text \<open>The objects that overflow with depth \<open>k\<close>: fewer for every \<open>k\<close>, until two depths agree.\<close>

definition deep :: "nat \<Rightarrow> 'a set" where
  "deep k = {x \<in> nodes. overflows k x}"

lemma deep_Suc: "deep (Suc k) = {x \<in> nodes. calls x \<inter> deep k \<noteq> {}}"
  using calls_nodes by (auto simp: deep_def overflows_Suc)

lemma deep_shrinks: "(\<exists>j<k. deep (Suc j) = deep j) \<or> card (deep k) + k \<le> card nodes"
proof (induction k)
  case 0
  show ?case by (simp add: deep_def card_mono [OF finite_nodes])
next
  case (Suc k)
  have sub: "deep (Suc k) \<subseteq> deep k" by (auto simp: deep_def overflows_less)
  have "card (deep (Suc k)) < card (deep k)" if "deep (Suc k) \<noteq> deep k"
    using psubset_card_mono [of "deep k" "deep (Suc k)"] sub that finite_nodes by (auto simp: deep_def)
  then show ?case using Suc.IH by (cases "deep (Suc k) = deep k") (auto intro: less_SucI)
qed

lemma deep_stable: "deep (Suc j) = deep j \<Longrightarrow> deep (j + m) = deep j"
  by (induction m) (auto simp: deep_Suc)

lemma deep_card: "deep (card nodes + m) = deep (card nodes)"
proof -
  obtain j where j: "j \<le> card nodes" "deep (Suc j) = deep j"
    using deep_shrinks [of "Suc (card nodes)"] by (auto simp: less_Suc_eq_le)
  show ?thesis
    using deep_stable [OF j(2), of "card nodes - j"] deep_stable [OF j(2), of "card nodes - j + m"] j(1) by simp
qed

lemma overflows_card: "x \<in> nodes \<Longrightarrow> overflows (card nodes) x \<Longrightarrow> overflows k x"
  using deep_card [of k] overflows_le [of "card nodes + k" x k] by (auto simp: deep_def)

lemma overflows_same: "x \<in> nodes \<Longrightarrow> card nodes \<le> j \<Longrightarrow> card nodes \<le> k \<Longrightarrow> overflows j x = overflows k x"
  using overflows_card overflows_le by blast

lemma returns_rank:
  assumes "\<And>x y. x \<in> nodes \<Longrightarrow> y \<in> calls x \<Longrightarrow> rank y < rank x"
  shows "x \<in> nodes \<Longrightarrow> rank x < k \<Longrightarrow> \<not> overflows k x"
proof (induction k arbitrary: x)
  case (Suc k)
  have "\<not> overflows k y" if "y \<in> calls x" for y
    using Suc.IH [of y] assms [OF Suc.prems(1) that] calls_nodes [OF Suc.prems(1)] Suc.prems(2) that by auto
  then show ?case by (auto simp: overflows_Suc)
qed simp

lemma cycle_overflows: "(x, x) \<in> {(x, y). y \<in> calls x}\<^sup>+ \<Longrightarrow> overflows k x"
proof -
  assume cyc: "(x, x) \<in> {(x, y). y \<in> calls x}\<^sup>+"
  have "(y, x) \<in> {(x, y). y \<in> calls x}\<^sup>* \<Longrightarrow> overflows k y" for y
  proof (induction k arbitrary: y)
    case (Suc k)
    have "(y, x) \<in> {(x, y). y \<in> calls x}\<^sup>+" using Suc.prems cyc by (metis rtranclD)
    then obtain z where "z \<in> calls y" "(z, x) \<in> {(x, y). y \<in> calls x}\<^sup>*" by (auto dest: tranclD)
    then show ?case using Suc.IH by (auto simp: overflows_Suc)
  qed (simp add: overflows_0)
  then show ?thesis by blast
qed

end

end
