(* ===== verification/Heap_Allocation.thy ===== *)
theory Heap_Allocation
  imports Heap_Model JS_Map Call_Depth
begin

text \<open>
  The allocation view: the class \<open>AllocationLogic\<close> of \<open>js-heap/logic/Allocation.ts\<close> and the class
  \<open>AllocationFunction\<close> of \<open>js-heap/model/UiStruct.ts\<close>.

  While the bottom-up list is built, the array of trace nodes is the store: the list refers to its elements
  by position, and combining a node into an earlier one changes the earlier element. Afterwards no element
  changes, and the list holds them. The parents of a function row are
  copies, so a row is a tree. Both recursive functions of the code can run for ever on a cyclic call
  relation and then overflow the stack with a \<open>RangeError\<close>; the model bounds the depth of the calls by
  one more than the number of nodes, and the bound is shown to separate the two cases exactly.
\<close>

section \<open>Data\<close>

record AllocationData =
  af_fileId :: int
  af_functionIndex :: int
  af_parentsId :: "int list"
  af_combineId :: "int list"
  af_id :: int
  af_name :: jsstring
  af_scriptName :: jsstring
  af_scriptId :: int
  af_line :: int
  af_column :: int
  af_count :: int
  af_size :: int
  af_liveCount :: int
  af_liveSize :: int
  af_hasParent :: bool

datatype AllocationFunction = AllocationFunction (fn_data: AllocationData) (fn_parents: "AllocationFunction list")

definition newAllocationFunction ::
  "int \<Rightarrow> jsstring \<Rightarrow> jsstring \<Rightarrow> int \<Rightarrow> int \<Rightarrow> int \<Rightarrow> int \<Rightarrow> int \<Rightarrow> int \<Rightarrow> int \<Rightarrow> bool \<Rightarrow> AllocationData" where
  "newAllocationFunction nodeId functionName scriptName scriptId line column cnt sz liveCount liveSize hasParent =
     \<lparr>af_fileId = - 1, af_functionIndex = - 1, af_parentsId = [], af_combineId = [], af_id = nodeId, af_name = functionName,
      af_scriptName = scriptName, af_scriptId = scriptId, af_line = line, af_column = column, af_count = cnt,
      af_size = sz, af_liveCount = liveCount, af_liveSize = liveSize, af_hasParent = hasParent\<rparr>"

text \<open>A copy forgets the file, the function and the combined ids.\<close>

definition clone :: "AllocationData \<Rightarrow> AllocationData" where
  "clone d = (newAllocationFunction (af_id d) (af_name d) (af_scriptName d) (af_scriptId d) (af_line d) (af_column d)
     (af_count d) (af_size d) (af_liveCount d) (af_liveSize d) (af_hasParent d))\<lparr>af_parentsId := af_parentsId d\<rparr>"

record AllocationLogic =
  al_functionInfos :: "HeapTraceFunctionInfo list"
  al_traceNodes :: "AllocationData list"
  al_bottomUpList :: "AllocationData list"

section \<open>The bottom-up list\<close>

definition has_parents :: "int list \<Rightarrow> bool" where
  "has_parents parentsId =
     (if length parentsId > 1 then True else if length parentsId = 0 then False else if parentsId ! 0 = - 1 then False else True)"

definition set_add :: "'a \<Rightarrow> 'a list \<Rightarrow> 'a list" where
  "set_add x xs = (if x \<in> set xs then xs else xs @ [x])"

definition combine :: "AllocationData \<Rightarrow> AllocationData \<Rightarrow> AllocationData" where
  "combine node uniqueNode = uniqueNode\<lparr>af_size := af_size uniqueNode + af_size node, af_count := af_count uniqueNode + af_count node,
     af_liveSize := af_liveSize uniqueNode + af_liveSize node, af_liveCount := af_liveCount uniqueNode + af_liveCount node,
     af_parentsId := af_parentsId uniqueNode @ af_parentsId node,
     af_combineId := set_add (af_id node) (set_add (af_id uniqueNode) (af_combineId uniqueNode))\<rparr>"

definition node_key :: "AllocationData \<Rightarrow> jsstring" where
  "node_key d = af_name d @ js_num (af_functionIndex d)"

type_synonym bottom_up = "AllocationData list \<times> (jsstring \<times> nat) list \<times> nat list"

definition bottom_up_step :: "nat \<Rightarrow> bottom_up \<Rightarrow> bottom_up" where
  "bottom_up_step i s =
     (case s of (traceNodes, keyMap, bottomUpList) \<Rightarrow>
      let node = (traceNodes ! i)\<lparr>af_hasParent := has_parents (af_parentsId (traceNodes ! i))\<rparr> in
      case map_of keyMap (node_key node) of
        Some u \<Rightarrow> ((traceNodes[i := node])[u := combine node (traceNodes[i := node] ! u)], keyMap, bottomUpList)
      | None \<Rightarrow> (traceNodes[i := node\<lparr>af_combineId := set_add (af_id node) (af_combineId node)\<rparr>],
                 js_map_set (node_key node) i keyMap, bottomUpList @ [i]))"

definition setBottomUpTree :: "AllocationLogic \<Rightarrow> AllocationLogic" where
  "setBottomUpTree A =
     (case fold bottom_up_step [0..<length (al_traceNodes A)] (al_traceNodes A, [], []) of
        (traceNodes, _, bottomUpList) \<Rightarrow>
          A\<lparr>al_traceNodes := traceNodes,
            al_bottomUpList := map (\<lambda>i. traceNodes ! i) (sort_key (\<lambda>i. - af_size (traceNodes ! i)) bottomUpList)\<rparr>)"

definition newAllocationLogic :: "HeapTraceFunctionInfo list \<Rightarrow> AllocationData list \<Rightarrow> AllocationLogic" where
  "newAllocationLogic functionInfos traceNodes =
     setBottomUpTree \<lparr>al_functionInfos = functionInfos, al_traceNodes = traceNodes, al_bottomUpList = []\<rparr>"

definition getFunctionList :: "AllocationLogic \<Rightarrow> AllocationData list" where
  "getFunctionList A = al_bottomUpList A"

definition getNodeById :: "AllocationLogic \<Rightarrow> int \<Rightarrow> AllocationData option" where
  "getNodeById A i = List.find (\<lambda>f. af_id f = i) (getFunctionList A)"

section \<open>Call stacks\<close>

text \<open>An index outside the array of functions reads \<open>undefined\<close>, which is pushed all the same.\<close>

definition function_at :: "AllocationLogic \<Rightarrow> int \<Rightarrow> HeapTraceFunctionInfo option" where
  "function_at A i = (if 0 \<le> i \<and> nat i < length (al_functionInfos A) then Some (al_functionInfos A ! nat i) else None)"

fun getFunctionStack :: "nat \<Rightarrow> AllocationLogic \<Rightarrow> AllocationData \<Rightarrow> HeapTraceFunctionInfo option list \<Rightarrow> HeapTraceFunctionInfo option list result"
  and stack_parents :: "nat \<Rightarrow> AllocationLogic \<Rightarrow> int list \<Rightarrow> HeapTraceFunctionInfo option list \<Rightarrow> HeapTraceFunctionInfo option list result" where
  "getFunctionStack 0 A node functionList = Inl RangeError"
| "getFunctionStack (Suc depth) A node functionList =
     stack_parents depth A (af_parentsId node) (functionList @ [function_at A (af_functionIndex node)])"
| "stack_parents depth A [] functionList = Inr functionList"
| "stack_parents depth A (parentId # parentsId) functionList =
     (case getNodeById A parentId of
        None \<Rightarrow> stack_parents depth A parentsId functionList
      | Some parentNode \<Rightarrow> bindr (getFunctionStack depth A parentNode functionList) (stack_parents depth A parentsId))"

definition getNodeStack :: "AllocationLogic \<Rightarrow> int \<Rightarrow> HeapTraceFunctionInfo option list result" where
  "getNodeStack A allocationNodeId =
     (case getNodeById A allocationNodeId of
        None \<Rightarrow> Inr []
      | Some currentNode \<Rightarrow> getFunctionStack (Suc (length (al_bottomUpList A))) A currentNode [])"

definition getFunctionNodeIds :: "AllocationLogic \<Rightarrow> int \<Rightarrow> int list" where
  "getFunctionNodeIds A allocationNodeId =
     (case getNodeById A allocationNodeId of Some node \<Rightarrow> af_combineId node | None \<Rightarrow> [])"

section \<open>Parents\<close>

definition parent_row :: "AllocationLogic \<Rightarrow> AllocationData \<Rightarrow> int \<Rightarrow> AllocationFunction result" where
  "parent_row A node childrenId =
     (let k = childrenId - 1 in
      if 0 \<le> k \<and> nat k < length (al_traceNodes A)
      then Inr (AllocationFunction ((clone (al_traceNodes A ! nat k))\<lparr>af_size := af_size node, af_count := af_count node,
             af_liveSize := af_liveSize node, af_liveCount := af_liveCount node\<rparr>) [])
      else Inl TypeError)"

fun parent_rows :: "AllocationLogic \<Rightarrow> AllocationData \<Rightarrow> int list \<Rightarrow> AllocationFunction list result" where
  "parent_rows A node [] = Inr []"
| "parent_rows A node (childrenId # parentsId) =
     bindr (parent_row A node childrenId) (\<lambda>row. bindr (parent_rows A node parentsId) (\<lambda>rows. Inr (row # rows)))"

text \<open>The test \<open>node.parentsId.length = 1\<close> is an assignment: a list of no parent becomes a list with one
  hole, whose element is no number.\<close>

fun getParent_depth :: "nat \<Rightarrow> AllocationLogic \<Rightarrow> AllocationFunction \<Rightarrow> AllocationFunction result" where
  "getParent_depth 0 A node = Inl RangeError"
| "getParent_depth (Suc depth) A (AllocationFunction node parents) =
     (if \<not> af_hasParent node then Inr (AllocationFunction node parents)
      else if length (af_parentsId node) > 1
      then bindr (parent_rows A node (af_parentsId node)) (\<lambda>rows. Inr (AllocationFunction node (parents @ rows)))
      else (case af_parentsId node of
              [] \<Rightarrow> Inl TypeError
            | childrenId # _ \<Rightarrow> bindr (parent_row A node childrenId) (\<lambda>children.
                bindr (getParent_depth depth A children) (\<lambda>children'. Inr (AllocationFunction node (parents @ [children']))))))"

definition getParent :: "AllocationLogic \<Rightarrow> AllocationFunction \<Rightarrow> AllocationFunction result" where
  "getParent A node = getParent_depth (Suc (length (al_traceNodes A))) A node"

section \<open>The bottom-up list groups the trace nodes\<close>

definition first_seen :: "AllocationData \<Rightarrow> AllocationData" where
  "first_seen d = d\<lparr>af_hasParent := has_parents (af_parentsId d), af_combineId := set_add (af_id d) (af_combineId d)\<rparr>"

abbreviation groups :: "AllocationData list \<Rightarrow> (jsstring \<times> AllocationData) list" where
  "groups ts \<equiv> group_all node_key first_seen combine ts"

lemma node_key_hasParent [simp]: "node_key (d\<lparr>af_hasParent := b\<rparr>) = node_key d"
  by (simp add: node_key_def)

lemma combine_hasParent [simp]: "combine (d\<lparr>af_hasParent := b\<rparr>) v = combine d v"
  by (simp add: combine_def)

text \<open>The store seen through the key map.\<close>

abbreviation entries :: "'v list \<Rightarrow> ('k \<times> nat) list \<Rightarrow> ('k \<times> 'v) list" where
  "entries T K \<equiv> map (\<lambda>(k, u). (k, T ! u)) K"

lemma map_of_entries: "map_of (entries T K) k = map_option (\<lambda>u. T ! u) (map_of K k)"
  by (induction K) auto

lemma entries_frame: "i \<notin> snd ` set K \<Longrightarrow> entries (T[i := v]) K = entries T K"
  by (induction K) (auto simp: nth_list_update_neq)

lemma entries_update:
  assumes "map_of K k = Some u" "distinct (map snd K)" "u < length T"
  shows "entries (T[u := v]) K = js_map_set k v (entries T K)"
  using assms
proof (induction K)
  case (Cons p K)
  obtain k' u' where p: "p = (k', u')" by fastforce
  show ?case
  proof (cases "k' = k")
    case True
    then show ?thesis using Cons.prems by (simp add: p entries_frame)
  next
    case False
    then have "u' \<noteq> u" using Cons.prems by (auto simp: p dest!: map_of_SomeD intro: rev_image_eqI)
    then show ?thesis using False Cons by (simp add: p)
  qed
qed simp

lemma entries_append: "map_of K k = None \<Longrightarrow> entries T (js_map_set k u K) = js_map_set k (T ! u) (entries T K)"
  by (induction K) (auto split: if_splits)

lemma snd_js_map_set: "map_of K k = None \<Longrightarrow> map snd (js_map_set k u K) = map snd K @ [u]"
  by (induction K) (auto split: if_splits)

definition bu_inv :: "AllocationData list \<Rightarrow> nat \<Rightarrow> bottom_up \<Rightarrow> bool" where
  "bu_inv ts i s \<longleftrightarrow>
     (case s of (T, K, B) \<Rightarrow> length T = length ts \<and> (\<forall>j. i \<le> j \<longrightarrow> T ! j = ts ! j) \<and> B = map snd K \<and> distinct B
        \<and> (\<forall>u\<in>set B. u < i) \<and> entries T K = groups (take i ts))"

lemma bu_inv_step:
  assumes inv: "bu_inv ts i s" and i: "i < length ts"
  shows "bu_inv ts (Suc i) (bottom_up_step i s)"
proof -
  obtain T K B where s: "s = (T, K, B)" by (cases s)
  have I: "length T = length ts" "\<And>j. i \<le> j \<Longrightarrow> T ! j = ts ! j" "B = map snd K" "distinct (map snd K)"
    "\<And>u. u \<in> set (map snd K) \<Longrightarrow> u < i" "entries T K = groups (take i ts)"
    using inv by (auto simp: bu_inv_def s)
  define node where "node = (ts ! i)\<lparr>af_hasParent := has_parents (af_parentsId (ts ! i))\<rparr>"
  have fresh: "i \<notin> snd ` set K" using I(5) [of i] by auto
  have "groups (take (Suc i) ts) = group_step node_key first_seen combine (ts ! i) (groups (take i ts))"
    using i by (simp add: group_all_def take_Suc_conv_app_nth)
  then have grp: "groups (take (Suc i) ts) = (case map_of K (node_key (ts ! i)) of
      None \<Rightarrow> js_map_set (node_key (ts ! i)) (first_seen (ts ! i)) (groups (take i ts))
    | Some u \<Rightarrow> js_map_set (node_key (ts ! i)) (combine (ts ! i) (T ! u)) (groups (take i ts)))"
    by (simp add: group_step_def map_of_entries I(6) [symmetric] split: option.split)
  show ?thesis
  proof (cases "map_of K (node_key (ts ! i))")
    case None
    then show ?thesis
      using I i fresh
      by (auto simp: bu_inv_def s bottom_up_step_def Let_def node_def grp entries_append
            entries_frame snd_js_map_set first_seen_def less_Suc_eq)
  next
    case (Some u)
    then have u: "u \<in> set (map snd K)" by (auto dest!: map_of_SomeD intro: rev_image_eqI)
    have ui: "u < i" "u < length T" using I(1) I(5) [OF u] i by auto
    have "entries ((T[i := node])[u := combine (ts ! i) (T ! u)]) K = js_map_set (node_key (ts ! i)) (combine (ts ! i) (T ! u)) (entries T K)"
      using entries_update [OF Some I(4), of "T[i := node]" "combine (ts ! i) (T ! u)"] ui(2) by (simp add: entries_frame [OF fresh])
    then show ?thesis
      using Some I ui
      by (auto simp: bu_inv_def s bottom_up_step_def Let_def node_def grp less_Suc_eq)
  qed
qed

lemma bu_inv_fold: "i \<le> length ts \<Longrightarrow> bu_inv ts i (fold bottom_up_step [0..<i] (ts, [], []))"
proof (induction i)
  case 0
  then show ?case by (simp add: bu_inv_def group_all_def)
next
  case (Suc i)
  then show ?case using bu_inv_step [of ts i] by simp
qed

lemma getFunctionList_groups:
  "getFunctionList (newAllocationLogic fi ts) = sort_key (\<lambda>d. - af_size d) (js_values (groups ts))"
proof -
  obtain T K B where run: "fold bottom_up_step [0..<length ts] (ts, [], []) = (T, K, B)"
    by (metis prod_cases3)
  have I: "B = map snd K" "entries T K = groups ts"
    using bu_inv_fold [of "length ts" ts] by (simp_all add: run bu_inv_def)
  have "js_values (entries T K) = map (\<lambda>i. T ! i) B" by (simp add: js_values_def I(1) case_prod_unfold comp_def)
  then show ?thesis
    using map_sort_key [of "\<lambda>i. T ! i" "\<lambda>d. - af_size d" B]
    by (simp add: newAllocationLogic_def setBottomUpTree_def getFunctionList_def run comp_def I(2))
qed

section \<open>Totals\<close>

interpretation by_size: additive_group first_seen combine af_size af_size
  by unfold_locales (simp_all add: first_seen_def combine_def)

interpretation by_count: additive_group first_seen combine af_count af_count
  by unfold_locales (simp_all add: first_seen_def combine_def)

interpretation by_liveSize: additive_group first_seen combine af_liveSize af_liveSize
  by unfold_locales (simp_all add: first_seen_def combine_def)

interpretation by_liveCount: additive_group first_seen combine af_liveCount af_liveCount
  by unfold_locales (simp_all add: first_seen_def combine_def)

lemma fold_combine:
  "af_id (fold combine ds v) = af_id v" "af_parentsId (fold combine ds v) = af_parentsId v @ concat (map af_parentsId ds)"
  "af_id v \<in> set (af_combineId v) \<Longrightarrow> set (af_combineId (fold combine ds v)) = set (af_combineId v) \<union> af_id ` set ds"
  "af_hasParent (fold combine ds v) = af_hasParent v" "af_functionIndex (fold combine ds v) = af_functionIndex v"
  by (induction ds arbitrary: v) (auto simp: combine_def set_add_def)

text \<open>The rows of the list are the groups, ordered.\<close>

lemma getFunctionList_set: "set (getFunctionList (newAllocationLogic fi ts)) = snd ` set (groups ts)"
  by (simp add: getFunctionList_groups js_values_def)

lemma group_row:
  assumes "d \<in> set (getFunctionList (newAllocationLogic fi ts))"
  obtains k v vs where "filter (\<lambda>n. node_key n = k) ts = v # vs" "d = fold combine vs (first_seen v)" "(k, d) \<in> set (groups ts)"
proof -
  obtain k where k: "(k, d) \<in> set (groups ts)" using assms by (auto simp: getFunctionList_set)
  then have "merged first_seen combine (filter (\<lambda>n. node_key n = k) ts) = Some d"
    by (simp add: js_map_ok_get [OF group_all_keys(1)] group_all_lookup)
  then show ?thesis using that k by (cases "filter (\<lambda>n. node_key n = k) ts") auto
qed

lemma sum_js_values: "sum_list (map f (js_values m)) = sum_list (map (f \<circ> snd) m)"
  by (simp add: js_values_def comp_def)

text \<open>C28: the bottom-up list of allocations has one row per function, largest allocation first; a row
  sums its group, and no allocation is lost or counted twice: size, count, live size and live count of the list
  add up to those of the trace nodes.\<close>

theorem getFunctionList_totals:
  "sorted (map (\<lambda>d. - af_size d) (getFunctionList (newAllocationLogic fi ts)))
   \<and> length (getFunctionList (newAllocationLogic fi ts)) = card (node_key ` set ts)
   \<and> sum_list (map af_size (getFunctionList (newAllocationLogic fi ts))) = sum_list (map af_size ts)
   \<and> sum_list (map af_count (getFunctionList (newAllocationLogic fi ts))) = sum_list (map af_count ts)
   \<and> sum_list (map af_liveSize (getFunctionList (newAllocationLogic fi ts))) = sum_list (map af_liveSize ts)
   \<and> sum_list (map af_liveCount (getFunctionList (newAllocationLogic fi ts))) = sum_list (map af_liveCount ts)"
proof (intro conjI)
  show "length (getFunctionList (newAllocationLogic fi ts)) = card (node_key ` set ts)"
    using group_all_keys [of node_key first_seen combine ts] distinct_card [of "map fst (groups ts)"]
    by (simp add: getFunctionList_groups js_values_def js_map_ok_def)
qed (simp_all only: getFunctionList_groups sorted_sort_key sum_sort_key sum_js_values
      by_size.sum_group by_count.sum_group by_liveSize.sum_group by_liveCount.sum_group)

text \<open>A row of the bottom-up list stands for the trace nodes with its name and function: its
  combined ids are theirs, its parents are all their parents in order, and its sizes are their sums.\<close>

theorem getFunctionList_groups_nodes:
  assumes "d \<in> set (getFunctionList (newAllocationLogic fi ts))" and "\<forall>t\<in>set ts. af_combineId t = []"
  shows "\<exists>k. let grp = filter (\<lambda>n. node_key n = k) ts in grp \<noteq> [] \<and> af_id d = af_id (hd grp)
     \<and> set (af_combineId d) = af_id ` set grp \<and> af_parentsId d = concat (map af_parentsId grp)
     \<and> af_size d = sum_list (map af_size grp) \<and> af_count d = sum_list (map af_count grp)
     \<and> af_hasParent d = has_parents (af_parentsId (hd grp))"
proof -
  obtain k v vs where g: "filter (\<lambda>n. node_key n = k) ts = v # vs" "d = fold combine vs (first_seen v)" "(k, d) \<in> set (groups ts)"
    using group_row [OF assms(1)] by blast
  have "v \<in> set ts" using arg_cong [OF g(1), of set] by auto
  then have "af_combineId v = []" using assms(2) by blast
  then show ?thesis
    using by_size.total_group [OF g(3)] by_count.total_group [OF g(3)] fold_combine [where ds = vs and v = "first_seen v"]
    by (intro exI [of _ k]) (simp add: g(1) g(2) [symmetric] Let_def, simp add: g(2) first_seen_def set_add_def)
qed

section \<open>Call stacks\<close>

definition parents_of :: "AllocationLogic \<Rightarrow> AllocationData \<Rightarrow> AllocationData set" where
  "parents_of A d = {p. \<exists>i\<in>set (af_parentsId d). getNodeById A i = Some p}"

lemma getNodeById_Some: "getNodeById A i = Some p \<Longrightarrow> p \<in> set (getFunctionList A) \<and> af_id p = i"
  by (auto simp: getNodeById_def find_Some_iff)

lemma stack_acc:
  "getFunctionStack k A d (acc @ acc') = map_sum id ((@) acc) (getFunctionStack k A d acc')"
  "stack_parents k A ps (acc @ acc') = map_sum id ((@) acc) (stack_parents k A ps acc')"
proof (induction k A d acc' and k A ps acc' rule: getFunctionStack_stack_parents.induct)
  case (4 k A i ps acc')
  then show ?case
    by (cases "getNodeById A i"; cases "getFunctionStack k A (the (getNodeById A i)) acc'") auto
qed simp_all

lemma isl_stack_acc: "isl (getFunctionStack k A d acc) = isl (getFunctionStack k A d [])"
  using stack_acc(1) [of k A d acc "[]"] by (cases "getFunctionStack k A d []") auto

lemma isl_stack_parents:
  "isl (stack_parents k A ps acc) \<longleftrightarrow> (\<exists>i\<in>set ps. \<exists>p. getNodeById A i = Some p \<and> isl (getFunctionStack k A p []))"
proof (induction ps arbitrary: acc)
  case (Cons i ps)
  show ?case
  proof (cases "getNodeById A i")
    case None
    then show ?thesis using Cons by simp
  next
    case (Some p)
    then show ?thesis using Cons isl_stack_acc [of k A p acc] by (cases "getFunctionStack k A p acc") auto
  qed
qed simp

interpretation stack_depth: call_depth "\<lambda>k d. isl (getFunctionStack k A d [])" "parents_of A" "set (getFunctionList A)" for A
proof unfold_locales
  show "parents_of A x \<subseteq> set (getFunctionList A)" for x by (auto simp: parents_of_def dest: getNodeById_Some)
qed (auto simp: isl_stack_parents parents_of_def)

lemma stack_error: "getFunctionStack k A d acc = Inl e \<Longrightarrow> e = RangeError" "stack_parents k A ps acc = Inl e \<Longrightarrow> e = RangeError"
proof (induction k A d acc and k A ps acc rule: getFunctionStack_stack_parents.induct)
  case (4 k A i ps acc)
  then show ?case by (cases "getNodeById A i"; cases "getFunctionStack k A (the (getNodeById A i)) acc") auto
qed simp_all

lemma stack_mono:
  "getFunctionStack k A d acc = Inr fs \<Longrightarrow> getFunctionStack (Suc k) A d acc = Inr fs"
  "stack_parents k A ps acc = Inr fs \<Longrightarrow> stack_parents (Suc k) A ps acc = Inr fs"
proof (induction k A d acc and k A ps acc arbitrary: fs and fs rule: getFunctionStack_stack_parents.induct)
  case (4 k A i ps acc)
  then show ?case by (cases "getNodeById A i"; cases "getFunctionStack k A (the (getNodeById A i)) acc") auto
qed auto

text \<open>As much depth as there are rows decides, so the bound of the model does not show.\<close>

lemma stack_same:
  assumes "d \<in> set (getFunctionList A)" "length (al_bottomUpList A) \<le> k"
  shows "getFunctionStack (Suc k) A d acc = getFunctionStack k A d acc"
proof (cases "getFunctionStack k A d acc")
  case (Inl e)
  have "card (set (getFunctionList A)) \<le> k" using assms(2) card_length [of "getFunctionList A"] by (simp add: getFunctionList_def)
  then have "isl (getFunctionStack (Suc k) A d acc)"
    using stack_depth.overflows_same [OF assms(1), of k "Suc k"] Inl isl_stack_acc [of k A d acc] isl_stack_acc [of "Suc k" A d acc] by simp
  then obtain e' where "getFunctionStack (Suc k) A d acc = Inl e'" by (auto simp: isl_def)
  then show ?thesis using Inl stack_error(1) [OF Inl] stack_error(1) [of "Suc k"] by metis
next
  case (Inr fs)
  show ?thesis by (simp only: stack_mono(1) [OF Inr] Inr)
qed

fun traverse :: "('a \<Rightarrow> 'b result) \<Rightarrow> 'a list \<Rightarrow> 'b list result" where
  "traverse f [] = Inr []"
| "traverse f (x # xs) = bindr (f x) (\<lambda>y. bindr (traverse f xs) (\<lambda>ys. Inr (y # ys)))"

lemma stack_parents_traverse:
  assumes "length (al_bottomUpList A) \<le> k"
  shows "stack_parents k A ps acc = bindr (traverse (getNodeStack A) ps) (\<lambda>ss. Inr (acc @ concat ss))"
proof (induction ps arbitrary: acc)
  case (Cons i ps)
  show ?case
  proof (cases "getNodeById A i")
    case None
    then have "getNodeStack A i = Inr []" by (simp add: getNodeStack_def)
    then show ?thesis using Cons None by (cases "traverse (getNodeStack A) ps") auto
  next
    case (Some p)
    let ?n = "length (al_bottomUpList A)"
    have "getFunctionStack k A p [] = getFunctionStack (Suc ?n) A p []"
      using assms
    proof (induction k rule: dec_induct)
      case base
      then show ?case using stack_same [of p A ?n] getNodeById_Some [OF Some] by (simp del: getFunctionStack.simps)
    next
      case (step m)
      then show ?case using stack_same [of p A m] getNodeById_Some [OF Some] by (simp del: getFunctionStack.simps)
    qed
    then have "getFunctionStack k A p acc = map_sum id ((@) acc) (getNodeStack A i)"
      using stack_acc(1) [of k A p acc "[]"] Some by (simp add: getNodeStack_def)
    then show ?thesis using Cons Some by (cases "getNodeStack A i"; cases "traverse (getNodeStack A) ps") auto
  qed
qed simp

text \<open>The stack of an allocation is its function followed by the stacks of its parents, in order; an
  id outside the list has the empty stack. The equation has no bound on the depth: it also says that an
  overflow of a parent is an overflow of the node.\<close>

theorem getNodeStack_unfolds:
  "getNodeStack A i = (case getNodeById A i of
      None \<Rightarrow> Inr []
    | Some d \<Rightarrow> bindr (traverse (getNodeStack A) (af_parentsId d)) (\<lambda>ss. Inr (function_at A (af_functionIndex d) # concat ss)))"
proof (cases "getNodeById A i")
  case (Some d)
  then show ?thesis
    using stack_parents_traverse [of A "length (al_bottomUpList A)" "af_parentsId d" "[function_at A (af_functionIndex d)]"]
    by (simp add: getNodeStack_def)
qed (simp add: getNodeStack_def)

text \<open>A row that is its own parent, as a function that calls itself gives.\<close>

lemma self_parent_overflows:
  assumes "getNodeById A i = Some d" "i \<in> set (af_parentsId d)"
  shows "getNodeStack A i = Inl RangeError"
proof -
  have "isl (getFunctionStack (Suc (length (al_bottomUpList A))) A d [])"
    using assms by (intro stack_depth.cycle_overflows r_into_trancl) (auto simp: parents_of_def)
  then show ?thesis using assms(1) stack_error(1) by (auto simp: getNodeStack_def isl_def simp del: getFunctionStack.simps)
qed

lemma find_unique:
  assumes "\<And>y. y \<in> set xs \<Longrightarrow> P y \<Longrightarrow> y = x" "x \<in> set xs" "P x"
  shows "List.find P xs = Some x"
proof (cases "List.find P xs")
  case None
  then show ?thesis using assms(2,3) unfolding find_None_iff by blast
next
  case (Some y)
  then show ?thesis using assms(1) unfolding find_Some_iff by (metis Some nth_mem)
qed

lemma getNodeById_row:
  assumes "distinct (map af_id ts)" "filter (\<lambda>n. node_key n = k) ts = v # vs"
  shows "getNodeById (newAllocationLogic fi ts) (af_id v) = Some (fold combine vs (first_seen v))"
proof -
  let ?F = "getFunctionList (newAllocationLogic fi ts)" let ?d = "fold combine vs (first_seen v)"
  have "merged first_seen combine (filter (\<lambda>n. node_key n = k) ts) = Some ?d" by (simp add: assms(2))
  then have "(k, ?d) \<in> set (groups ts)" by (simp add: js_map_ok_get [OF group_all_keys(1)] group_all_lookup)
  then have d: "?d \<in> set ?F" "af_id ?d = af_id v" by (auto simp: getFunctionList_set fold_combine first_seen_def intro: rev_image_eqI)
  have "d' = ?d" if d': "d' \<in> set ?F" "af_id d' = af_id v" for d'
  proof -
    obtain k' w ws where g: "filter (\<lambda>n. node_key n = k') ts = w # ws" "d' = fold combine ws (first_seen w)"
      using group_row [OF d'(1)] by blast
    have "w \<in> set ts" "v \<in> set ts" "node_key w = k'" "node_key v = k" using arg_cong [OF g(1), of set] arg_cong [OF assms(2), of set] by auto
    moreover have "af_id w = af_id v" using d'(2) g(2) by (simp add: fold_combine first_seen_def)
    ultimately have "w = v" using assms(1) by (auto simp: distinct_map dest: inj_onD)
    then show ?thesis using g assms(2) \<open>node_key w = k'\<close> \<open>node_key v = k\<close> by auto
  qed
  then show ?thesis unfolding getNodeById_def using d by (intro find_unique) blast+
qed

text \<open>The stack of a function that calls itself directly cannot be shown: its two trace nodes are
  combined into a row that is its own parent, and the search for the stack overflows.\<close>

theorem getNodeStack_recursive_function:
  assumes "distinct (map af_id ts)" "filter (\<lambda>n. node_key n = k) ts = v # vs" "w \<in> set vs" "af_id v \<in> set (af_parentsId w)"
  shows "getNodeStack (newAllocationLogic fi ts) (af_id v) = Inl RangeError"
proof (rule self_parent_overflows [OF getNodeById_row [OF assms(1,2)]])
  show "af_id v \<in> set (af_parentsId (fold combine vs (first_seen v)))"
    using assms(3,4) by (auto simp: fold_combine)
qed

section \<open>Parents\<close>

text \<open>What a trace node calls in turn: its parent, when it has exactly one.\<close>

definition only_parent :: "AllocationLogic \<Rightarrow> AllocationData \<Rightarrow> nat set" where
  "only_parent A d = {j. af_hasParent d \<and> j < length (al_traceNodes A) \<and> af_parentsId d = [int j + 1]}"

lemma parent_row_data:
  "parent_row A d i = Inr c \<Longrightarrow> \<exists>j<length (al_traceNodes A). i = int j + 1
     \<and> af_hasParent (fn_data c) = af_hasParent (al_traceNodes A ! j) \<and> af_parentsId (fn_data c) = af_parentsId (al_traceNodes A ! j)"
  by (rule exI [of _ "nat (i - 1)"]) (auto simp: parent_row_def Let_def clone_def newAllocationFunction_def split: if_splits)

lemma parent_row_in: "j < length (al_traceNodes A) \<Longrightarrow> \<exists>c. parent_row A d (int j + 1) = Inr c"
  by (simp add: parent_row_def Let_def)

lemma parent_row_error: "parent_row A d i = Inl e \<Longrightarrow> e = TypeError"
  by (auto simp: parent_row_def Let_def split: if_splits)

lemma parent_rows_error: "parent_rows A d is = Inl e \<Longrightarrow> e = TypeError"
proof (induction "is")
  case (Cons i "is")
  then show ?case using parent_row_error [of A d i] by (cases "parent_row A d i"; cases "parent_rows A d is") auto
qed simp

lemma getParent_overflow_Suc:
  "getParent_depth (Suc k) A (AllocationFunction d ps) = Inl RangeError \<longleftrightarrow>
     (\<exists>j\<in>only_parent A d. \<forall>c. parent_row A d (int j + 1) = Inr c \<longrightarrow> getParent_depth k A c = Inl RangeError)"
proof (cases "af_hasParent d \<and> \<not> length (af_parentsId d) > 1")
  case False
  have "parent_rows A d (af_parentsId d) \<noteq> Inl RangeError" using parent_rows_error by fastforce
  then show ?thesis using False
    by (cases "parent_rows A d (af_parentsId d)") (auto simp: only_parent_def)
next
  case True
  show ?thesis
  proof (cases "af_parentsId d")
    case (Cons i r)
    then have i: "af_parentsId d = [i]" using True by simp
    show ?thesis
    proof (cases "parent_row A d i")
      case (Inl e)
      then show ?thesis using True i parent_row_error [OF Inl] parent_row_in [of _ A d] by (fastforce simp: only_parent_def)
    next
      case (Inr c)
      then show ?thesis using True i parent_row_data [OF Inr]
        by (cases "getParent_depth k A c") (auto simp: only_parent_def)
    qed
  qed (use True in \<open>auto simp: only_parent_def\<close>)
qed

text \<open>Overflow depends only on the trace node a row is copied from.\<close>

lemma getParent_overflow_data:
  assumes "af_hasParent d = af_hasParent d'" "af_parentsId d = af_parentsId d'"
  shows "getParent_depth k A (AllocationFunction d ps) = Inl RangeError \<longleftrightarrow> getParent_depth k A (AllocationFunction d' ps') = Inl RangeError"
  using assms
proof (induction k arbitrary: d d' ps ps')
  case (Suc k)
  have "(\<forall>c. parent_row A d i = Inr c \<longrightarrow> getParent_depth k A c = Inl RangeError)
      = (\<forall>c. parent_row A d' i = Inr c \<longrightarrow> getParent_depth k A c = Inl RangeError)" for i
  proof (cases "0 \<le> i - 1 \<and> nat (i - 1) < length (al_traceNodes A)")
    case True
    then show ?thesis by (simp add: parent_row_def Let_def) (rule Suc.IH; simp add: clone_def newAllocationFunction_def)
  qed (auto simp: parent_row_def Let_def)
  moreover have "only_parent A d = only_parent A d'" using Suc.prems by (simp add: only_parent_def)
  ultimately show ?case by (simp only: getParent_overflow_Suc)
qed simp

definition parent_overflows :: "AllocationLogic \<Rightarrow> nat \<Rightarrow> nat \<Rightarrow> bool" where
  "parent_overflows A k j \<longleftrightarrow> getParent_depth k A (AllocationFunction (al_traceNodes A ! j) []) = Inl RangeError"

lemma parent_overflows_row:
  "j < length (al_traceNodes A) \<Longrightarrow>
   (\<forall>c. parent_row A d (int j + 1) = Inr c \<longrightarrow> getParent_depth k A c = Inl RangeError) \<longleftrightarrow> parent_overflows A k j"
  by (simp add: parent_row_def parent_overflows_def Let_def) (rule getParent_overflow_data; simp add: clone_def newAllocationFunction_def)

interpretation parent_depth: call_depth "parent_overflows A" "\<lambda>j. only_parent A (al_traceNodes A ! j)" "{..<length (al_traceNodes A)}" for A
proof unfold_locales
  show "parent_overflows A (Suc k) j \<longleftrightarrow> (\<exists>i\<in>only_parent A (al_traceNodes A ! j). parent_overflows A k i)" for k j
    unfolding parent_overflows_def [of A "Suc k"] getParent_overflow_Suc
    using parent_overflows_row [where A = A and k = k and d = "al_traceNodes A ! j"] by (auto simp: only_parent_def)
qed (auto simp: only_parent_def parent_overflows_def)

lemma getParent_overflow:
  "getParent A (AllocationFunction d ps) = Inl RangeError \<longleftrightarrow> (\<exists>j\<in>only_parent A d. parent_overflows A (length (al_traceNodes A)) j)"
  unfolding getParent_def getParent_overflow_Suc
  using parent_overflows_row [where A = A and d = d] by (auto simp: only_parent_def)

text \<open>Combining nodes leaves a node its parents or gives it more than one.\<close>

definition parents_grow :: "AllocationData list \<Rightarrow> AllocationData list \<Rightarrow> bool" where
  "parents_grow ts T \<longleftrightarrow> length T = length ts \<and>
     (\<forall>j<length ts. af_parentsId (T ! j) = af_parentsId (ts ! j) \<or> length (af_parentsId (T ! j)) > 1)"

lemma nth_update_if: "xs[i := x] ! j = (if i = j \<and> i < length xs then x else xs ! j)"
  by (cases "i < length xs") (auto simp: list_update_beyond nth_list_update)

lemma parents_grow_step:
  assumes "parents_grow ts (fst s)" "\<forall>t\<in>set ts. af_parentsId t \<noteq> []" "i < length ts"
  shows "parents_grow ts (fst (bottom_up_step i s))"
proof -
  obtain T K B where s: "s = (T, K, B)" by (cases s)
  let ?n = "(T ! i)\<lparr>af_hasParent := has_parents (af_parentsId (T ! i))\<rparr>"
  have ne: "af_parentsId (T ! j) \<noteq> []" if "j < length ts" for j
    using assms(1,2) that nth_mem [OF that] by (auto simp: parents_grow_def s)
  have more: "length (af_parentsId (combine ?n (T[i := ?n] ! u))) > 1" if "u < length ts" for u
    using ne [OF that] ne [OF assms(3)] by (cases "af_parentsId (T ! u)"; cases "af_parentsId (T ! i)") (auto simp: combine_def nth_update_if)
  show ?thesis
  proof (cases "map_of K (node_key (T ! i))")
    case None
    then show ?thesis using assms(1) by (simp add: parents_grow_def s bottom_up_step_def Let_def nth_update_if)
  next
    case (Some u)
    then have run: "fst (bottom_up_step i s) = (T[i := ?n])[u := combine ?n (T[i := ?n] ! u)]"
      by (simp add: s bottom_up_step_def Let_def)
    show ?thesis unfolding run using assms(1) more by (auto simp: parents_grow_def s nth_update_if [of "T[i := ?n]"]) (auto simp: nth_update_if split: if_splits)
  qed
qed

lemma parents_grow_new:
  assumes "\<forall>t\<in>set ts. af_parentsId t \<noteq> []"
  shows "parents_grow ts (al_traceNodes (newAllocationLogic fi ts))"
proof -
  have "i \<le> length ts \<Longrightarrow> parents_grow ts (fst (fold bottom_up_step [0..<i] (ts, [], [])))" for i
  proof (induction i)
    case (Suc i)
    then show ?case using parents_grow_step [OF _ assms] by simp
  qed (simp add: parents_grow_def)
  from this [of "length ts"] show ?thesis
    by (simp add: newAllocationLogic_def setBottomUpTree_def split: prod.split) (metis fst_conv)
qed

text \<open>Loading the callers of a row of the allocation view always ends when every trace node has one
  parent and comes after it, as in the table of trace nodes; combined rows do not change this.\<close>

theorem getParent_ends:
  assumes "\<forall>j<length ts. \<exists>p. af_parentsId (ts ! j) = [p] \<and> p \<le> int j"
  shows "getParent (newAllocationLogic fi ts) row \<noteq> Inl RangeError"
proof -
  let ?A = "newAllocationLogic fi ts" let ?T = "al_traceNodes ?A"
  have "\<forall>t\<in>set ts. af_parentsId t \<noteq> []" using assms by (metis in_set_conv_nth list.distinct(1))
  then have g: "length ?T = length ts" "\<And>j. j < length ts \<Longrightarrow> af_parentsId (?T ! j) = af_parentsId (ts ! j) \<or> length (af_parentsId (?T ! j)) > 1"
    using parents_grow_new [of ts fi] by (auto simp: parents_grow_def)
  have down: "i < j" if "j \<in> {..<length ?T}" "i \<in> only_parent ?A (?T ! j)" for i j
    using that g(2) [of j] assms g(1) by (fastforce simp: only_parent_def)
  have "\<not> parent_overflows ?A (length ?T) j" if "j < length ?T" for j
    using parent_depth.returns_rank [of ?A "\<lambda>j. j", OF down] that by simp
  then show ?thesis
    using getParent_overflow [of ?A "fn_data row" "fn_parents row"] by (auto simp: only_parent_def)
qed

text \<open>C1: the callers of a combined row are copies of its parents in order, each with the sizes of the
  row; an id that is no position of the table raises a \<open>TypeError\<close>.\<close>

theorem getParent_combined:
  assumes "af_hasParent d" "length (af_parentsId d) > 1"
  shows "getParent A (AllocationFunction d ps) =
    (if \<forall>i\<in>set (af_parentsId d). 1 \<le> i \<and> i \<le> int (length (al_traceNodes A))
     then Inr (AllocationFunction d (ps @ map (\<lambda>i. AllocationFunction ((clone (al_traceNodes A ! nat (i - 1)))\<lparr>af_size := af_size d,
            af_count := af_count d, af_liveSize := af_liveSize d, af_liveCount := af_liveCount d\<rparr>) []) (af_parentsId d)))
     else Inl TypeError)"
proof -
  let ?row = "\<lambda>i. AllocationFunction ((clone (al_traceNodes A ! nat (i - 1)))\<lparr>af_size := af_size d,
            af_count := af_count d, af_liveSize := af_liveSize d, af_liveCount := af_liveCount d\<rparr>) []"
  have "parent_rows A d is = (if \<forall>i\<in>set is. 1 \<le> i \<and> i \<le> int (length (al_traceNodes A)) then Inr (map ?row is) else Inl TypeError)" for "is"
    by (induction "is") (auto simp: parent_row_def Let_def nat_less_iff)
  then show ?thesis using assms by (simp add: getParent_def)
qed

section \<open>Concrete instances\<close>

text \<open>A function that calls itself once.\<close>

definition demo_trace :: "AllocationData list" where
  "demo_trace =
     [(newAllocationFunction 1 (js ''(root)'') [] 0 0 0 0 0 0 0 False)\<lparr>af_parentsId := [- 1], af_functionIndex := 0\<rparr>,
      (newAllocationFunction 2 (js ''f'') [] 0 0 0 1 10 1 10 False)\<lparr>af_parentsId := [1], af_functionIndex := 1\<rparr>,
      (newAllocationFunction 3 (js ''f'') [] 0 0 0 2 5 2 5 False)\<lparr>af_parentsId := [2], af_functionIndex := 1\<rparr>]"

lemma demo_trace_key: "filter (\<lambda>n. node_key n = js ''f1'') demo_trace = [demo_trace ! 1, demo_trace ! 2]"
  by (simp add: demo_trace_def node_key_def newAllocationFunction_def js_num_def nat_digits.simps js_def of_char_def)

theorem getFunctionList_groups_nodes_witness:
  "\<exists>d. d \<in> set (getFunctionList (newAllocationLogic [] demo_trace)) \<and> af_id d \<in> af_id ` set demo_trace"
proof -
  have "getFunctionList (newAllocationLogic [] demo_trace) \<noteq> []"
    by (auto simp: getFunctionList_groups js_values_def demo_trace_def group_all_def group_step_def split: option.splits)
  then obtain d where d: "d \<in> set (getFunctionList (newAllocationLogic [] demo_trace))" by (meson last_in_set)
  have "\<forall>t\<in>set demo_trace. af_combineId t = []" by (simp add: demo_trace_def newAllocationFunction_def)
  from getFunctionList_groups_nodes [OF d this] obtain k where
    "filter (\<lambda>n. node_key n = k) demo_trace \<noteq> []" "af_id d = af_id (hd (filter (\<lambda>n. node_key n = k) demo_trace))"
    by (auto simp: Let_def)
  then have "af_id d \<in> af_id ` set demo_trace" using hd_in_set [of "filter (\<lambda>n. node_key n = k) demo_trace"] by simp
  then show ?thesis using d by blast
qed

theorem getNodeStack_recursive_function_witness: "getNodeStack (newAllocationLogic [] demo_trace) 2 = Inl RangeError"
  using getNodeStack_recursive_function [OF _ demo_trace_key, of "demo_trace ! 2" "[]"]
  by (simp add: demo_trace_def newAllocationFunction_def)

theorem getParent_ends_witness: "getParent (newAllocationLogic [] demo_trace) (AllocationFunction (demo_trace ! 2) []) \<noteq> Inl RangeError"
proof -
  have "\<forall>j<length demo_trace. \<exists>p. af_parentsId (demo_trace ! j) = [p] \<and> p \<le> int j"
    by (simp add: demo_trace_def newAllocationFunction_def less_Suc_eq numeral_3_eq_3)
  then show ?thesis by (rule getParent_ends)
qed

theorem getParent_combined_witness:
  "getParent (newAllocationLogic [] demo_trace) (AllocationFunction ((demo_trace ! 1)\<lparr>af_hasParent := True, af_parentsId := [1, - 1]\<rparr>) []) = Inl TypeError"
  by (subst getParent_combined) (simp_all add: demo_trace_def)

end
