(* ===== verification/Heap_Database.thy ===== *)
theory Heap_Database
  imports Heap_Classes Heap_Distance Heap_Dom Heap_Samples Heap_Allocation
begin

text \<open>
  Loading the heap files: \<open>LoadDatabase\<close> (\<open>js-heap/LoadDatabase.ts\<close>) reads the rows of the database into
  \<open>FileStruct\<close>s, and the constructor of \<open>HeapLoader\<close> runs its analyses over a file (\<open>preprocess\<close>). The
  queries are parameters: \<open>HeapDb\<close> holds the rows that each of them returns for a file id.

  The model says nothing of a name index outside the table of strings, nor of a file whose info rows lack
  the two counts; the code goes on with \<open>undefined\<close> there.
\<close>

section \<open>Files\<close>

record HeapSnapshotStruct =
  ss_nodeCount :: "nat option"
  ss_edgeCount :: "nat option"
  ss_functionCount :: "nat option"
  ss_nodeMap :: "(nat \<times> HeapNode) list"
  ss_edges :: "HeapEdge list"
  ss_functionInfos :: "HeapTraceFunctionInfo list"
  ss_traceNodes :: "AllocationData list"
  ss_samples :: "HeapSample list"
  ss_strings :: "jsstring list"
  ss_rootNodeId :: int

definition newSnapshotStruct :: HeapSnapshotStruct where
  "newSnapshotStruct = \<lparr>ss_nodeCount = None, ss_edgeCount = None, ss_functionCount = None, ss_nodeMap = [], ss_edges = [],
     ss_functionInfos = [], ss_traceNodes = [], ss_samples = [], ss_strings = [], ss_rootNodeId = - 1\<rparr>"

definition snapshot_clear :: "HeapSnapshotStruct \<Rightarrow> HeapSnapshotStruct" where
  "snapshot_clear s = s\<lparr>ss_nodeMap := [], ss_edges := [], ss_functionInfos := [], ss_traceNodes := [], ss_samples := [],
     ss_strings := []\<rparr>"

text \<open>\<open>fs_heapLoader\<close> holds the loader of the file with its \<open>AllocationLogic\<close>.\<close>

record FileStruct =
  fs_id :: int
  fs_name :: jsstring
  fs_type :: FileType
  fs_startTs :: int
  fs_endTs :: int
  fs_pid :: int
  fs_size :: int
  fs_snapshotStruct :: HeapSnapshotStruct
  fs_isParseSuccess :: bool
  fs_heapLoader :: "(HeapLoader \<times> AllocationLogic) option"

section \<open>Rows of the database\<close>

record file_row =
  fr_id :: int
  fr_name :: jsstring
  fr_startTs :: int
  fr_endTs :: int
  fr_pid :: int
  fr_size :: int

record node_row =
  nr_nodeIndex :: nat
  nr_type :: int
  nr_nameIdx :: nat
  nr_id :: nat
  nr_selfSize :: int
  nr_edgeCount :: nat
  nr_traceNodeId :: int
  nr_detachedness :: int

record trace_row =
  tr_id :: int
  tr_name :: nat
  tr_scriptName :: nat
  tr_scriptId :: int
  tr_line :: int
  tr_column :: int
  tr_count :: int
  tr_size :: int
  tr_liveCount :: int
  tr_liveSize :: int
  tr_parentId :: int
  tr_functionInfoIndex :: int

record HeapDb =
  db_files :: "file_row list"
  db_info :: "int \<Rightarrow> (jsstring \<times> nat) list"
  db_strings :: "int \<Rightarrow> jsstring list"
  db_nodes :: "int \<Rightarrow> node_row list"
  db_edges :: "int \<Rightarrow> HeapEdge list"
  db_functions :: "int \<Rightarrow> HeapTraceFunctionInfo list"
  db_traceNodes :: "int \<Rightarrow> trace_row list"
  db_samples :: "int \<Rightarrow> HeapSample list"

section \<open>LoadDatabase\<close>

definition newFileStruct :: "file_row \<Rightarrow> FileStruct" where
  "newFileStruct row = \<lparr>fs_id = fr_id row, fs_name = fr_name row,
     fs_type = (if js_startsWith (fr_name row) (js ''Snapshot'') then SNAPSHOT else TIMELINE),
     fs_startTs = fr_startTs row, fs_endTs = fr_endTs row, fs_pid = fr_pid row, fs_size = fr_size row,
     fs_snapshotStruct = newSnapshotStruct, fs_isParseSuccess = True, fs_heapLoader = None\<rparr>"

definition js_includes :: "jsstring \<Rightarrow> jsstring \<Rightarrow> bool" where
  "js_includes s p \<longleftrightarrow> (\<exists>i\<in>set [0..<Suc (length s)]. take (length p) (drop i s) = p)"

definition info_row :: "jsstring \<times> nat \<Rightarrow> HeapSnapshotStruct \<Rightarrow> HeapSnapshotStruct" where
  "info_row row s =
     (case row of (key, intValue) \<Rightarrow>
      if js_includes key (js ''types'') then s
      else if key = js ''node_count'' then s\<lparr>ss_nodeCount := Some intValue\<rparr>
      else if key = js ''edge_count'' then s\<lparr>ss_edgeCount := Some intValue\<rparr>
      else if key = js ''trace_function_count'' then s\<lparr>ss_functionCount := Some intValue\<rparr>
      else s)"

definition loadInfo :: "HeapDb \<Rightarrow> int \<Rightarrow> HeapSnapshotStruct \<Rightarrow> HeapSnapshotStruct" where
  "loadInfo db fileId s = fold info_row (db_info db fileId) s"

definition loadStrings :: "HeapDb \<Rightarrow> int \<Rightarrow> HeapSnapshotStruct \<Rightarrow> HeapSnapshotStruct" where
  "loadStrings db fileId s = s\<lparr>ss_strings := ss_strings s @ db_strings db fileId\<rparr>"

definition load_node_row :: "int \<Rightarrow> node_row \<Rightarrow> nat \<times> HeapSnapshotStruct \<Rightarrow> nat \<times> HeapSnapshotStruct" where
  "load_node_row fileId row st =
     (case st of (firstEdgeIndex, s) \<Rightarrow>
      let node = mkHeapNode fileId (nr_nodeIndex row) (nr_type row) (ss_strings s ! nr_nameIdx row) (nr_id row) (nr_selfSize row)
            (nr_edgeCount row) (nr_traceNodeId row) (nr_detachedness row) firstEdgeIndex;
          s1 = (if ss_rootNodeId s = - 1 then s\<lparr>ss_rootNodeId := int (nr_id row)\<rparr> else s)
      in (firstEdgeIndex + nr_edgeCount row, s1\<lparr>ss_nodeMap := js_map_set (hn_id node) node (ss_nodeMap s1)\<rparr>))"

definition loadNode :: "HeapDb \<Rightarrow> int \<Rightarrow> HeapSnapshotStruct \<Rightarrow> HeapSnapshotStruct" where
  "loadNode db fileId s = snd (fold (load_node_row fileId) (db_nodes db fileId) (0, s))"

definition loadEdge :: "HeapDb \<Rightarrow> int \<Rightarrow> HeapSnapshotStruct \<Rightarrow> HeapSnapshotStruct" where
  "loadEdge db fileId s = s\<lparr>ss_edges := db_edges db fileId\<rparr>"

definition loadTraceFunctionInfos :: "HeapDb \<Rightarrow> int \<Rightarrow> HeapSnapshotStruct \<Rightarrow> HeapSnapshotStruct" where
  "loadTraceFunctionInfos db fileId s = s\<lparr>ss_functionInfos := db_functions db fileId\<rparr>"

definition trace_node :: "int \<Rightarrow> jsstring list \<Rightarrow> trace_row \<Rightarrow> AllocationData" where
  "trace_node fileId strings row =
     (newAllocationFunction (tr_id row) (strings ! tr_name row) (strings ! tr_scriptName row) (tr_scriptId row) (tr_line row)
        (tr_column row) (tr_count row) (tr_size row) (tr_liveCount row) (tr_liveSize row) False)
     \<lparr>af_parentsId := [tr_parentId row], af_functionIndex := tr_functionInfoIndex row, af_fileId := fileId\<rparr>"

definition loadTraceTree :: "HeapDb \<Rightarrow> int \<Rightarrow> HeapSnapshotStruct \<Rightarrow> HeapSnapshotStruct" where
  "loadTraceTree db fileId s = s\<lparr>ss_traceNodes := ss_traceNodes s @ map (trace_node fileId (ss_strings s)) (db_traceNodes db fileId)\<rparr>"

definition loadSamples :: "HeapDb \<Rightarrow> int \<Rightarrow> HeapSnapshotStruct \<Rightarrow> HeapSnapshotStruct" where
  "loadSamples db fileId s = s\<lparr>ss_samples := db_samples db fileId\<rparr>"

definition load_snapshot :: "HeapDb \<Rightarrow> int \<Rightarrow> HeapSnapshotStruct \<Rightarrow> HeapSnapshotStruct" where
  "load_snapshot db fileId s =
     (let s1 = loadInfo db fileId s; s2 = loadStrings db fileId s1; s3 = loadNode db fileId s2; s4 = loadEdge db fileId s3;
          s5 = loadTraceFunctionInfos db fileId s4; s6 = loadTraceTree db fileId s5
      in loadSamples db fileId s6)"

definition loadFiles :: "HeapDb \<Rightarrow> FileStruct list" where
  "loadFiles db = map (\<lambda>row. let file = newFileStruct row in
     file\<lparr>fs_snapshotStruct := load_snapshot db (fs_id file) (fs_snapshotStruct file)\<rparr>) (db_files db)"

section \<open>The constructor of HeapLoader\<close>

definition of_fuel :: "'a option \<Rightarrow> 'a result" where
  "of_fuel r = (case r of None \<Rightarrow> Inl Blocked | Some x \<Rightarrow> Inr x)"

lemma of_fuel_simps [simp]: "of_fuel None = Inl Blocked" "of_fuel (Some x) = Inr x"
  by (simp_all add: of_fuel_def)

text \<open>The first loop over an array of nodes with holes reads a field of \<open>undefined\<close>.\<close>

definition preprocess :: "HeapLoader \<Rightarrow> HeapLoader result" where
  "preprocess L =
     (if hl_nodes L = [] then Inr L
      else if hl_holes L > 0 then Inl TypeError
      else (let L1 = buildNodeEdge L; L2 = buildRetainers L1 in
        bindr (of_fuel (distributeDOMState L2)) (\<lambda>L3.
        bindr (of_fuel (calFlags L3)) (\<lambda>L4.
        bindr (calDistances L4) (\<lambda>L5.
        bindr (calRetainedSize L5) (\<lambda>L6.
        bindr (buildDominatedNode L6) (\<lambda>L7.
        Inr (buildSamples L7))))))))"

definition new_loader :: "int \<Rightarrow> HeapSnapshotStruct \<Rightarrow> HeapLoader result" where
  "new_loader f S = newHeapLoader f (the (ss_nodeCount S)) (the (ss_edgeCount S)) (js_values (ss_nodeMap S)) (ss_edges S) (ss_samples S)"

text \<open>The samples are those of the file, and the loader writes their sizes into them.\<close>

definition constructHeapLoader :: "FileStruct \<Rightarrow> FileStruct result" where
  "constructHeapLoader file =
     (let s = fs_snapshotStruct file; A = newAllocationLogic (ss_functionInfos s) (ss_traceNodes s) in
      bindr (new_loader (fs_id file) s) (\<lambda>L0.
      bindr (preprocess L0) (\<lambda>L.
      Inr (file\<lparr>fs_snapshotStruct := s\<lparr>ss_traceNodes := al_traceNodes A, ss_samples := hl_samples L\<rparr>,
             fs_heapLoader := Some (L, A)\<rparr>))))"

section \<open>Loading a file gives a well-formed snapshot\<close>

text \<open>What the tables of one file promise: nodes numbered in the order of the rows with unique ids, edges
  numbered in order, as many as the nodes announce together, and counts that agree with both tables.\<close>

definition db_ok :: "HeapDb \<Rightarrow> int \<Rightarrow> bool" where
  "db_ok db f \<longleftrightarrow>
     (let rows = db_nodes db f; es = db_edges db f in
      0 < length rows \<and> length rows < 4294967296 \<and> length es < 4294967296
      \<and> (\<forall>i<length rows. nr_nodeIndex (rows ! i) = i \<and> nr_id (rows ! i) < 4294967296) \<and> distinct (map nr_id rows)
      \<and> sum_list (map nr_edgeCount rows) = length es
      \<and> (\<forall>k<length es. he_edgeIndex (es ! k) = k \<and> he_toNodeId (es ! k) \<in> nr_id ` set rows)
      \<and> filter (\<lambda>r. fst r = js ''node_count'') (db_info db f) = [(js ''node_count'', length rows)]
      \<and> filter (\<lambda>r. fst r = js ''edge_count'') (db_info db f) = [(js ''edge_count'', length es)])"

definition row_node :: "int \<Rightarrow> jsstring list \<Rightarrow> node_row list \<Rightarrow> nat \<Rightarrow> HeapNode" where
  "row_node f strings rows i = mkHeapNode f (nr_nodeIndex (rows ! i)) (nr_type (rows ! i)) (strings ! nr_nameIdx (rows ! i)) (nr_id (rows ! i))
     (nr_selfSize (rows ! i)) (nr_edgeCount (rows ! i)) (nr_traceNodeId (rows ! i)) (nr_detachedness (rows ! i))
     (sum_list (map nr_edgeCount (take i rows)))"

lemma row_node_sel [simp]:
  "hn_id (row_node f st rows i) = nr_id (rows ! i)" "hn_nodeIndex (row_node f st rows i) = nr_nodeIndex (rows ! i)"
  "hn_edgeCount (row_node f st rows i) = nr_edgeCount (rows ! i)" "hn_edges (row_node f st rows i) = []"
  "hn_firstEdgeIndex (row_node f st rows i) = sum_list (map nr_edgeCount (take i rows))"
  "hn_distance (row_node f st rows i) = - 5" "hn_flag (row_node f st rows i) = 0"
  "hn_retainsNodeIdx (row_node f st rows i) = []" "hn_retainsEdgeIdx (row_node f st rows i) = []"
  by (simp_all add: row_node_def mkHeapNode_def)

lemma fold_load_node_row:
  assumes "distinct (map nr_id rows)" "ss_nodeMap s = []" "k \<le> length rows"
  shows "\<exists>r. fold (load_node_row f) (take k rows) (0, s) = (sum_list (map nr_edgeCount (take k rows)),
     s\<lparr>ss_rootNodeId := r, ss_nodeMap := map (\<lambda>i. (nr_id (rows ! i), row_node f (ss_strings s) rows i)) [0..<k]\<rparr>)"
  using assms(3)
proof (induction k)
  case 0
  show ?case using assms(2) by (intro exI [of _ "ss_rootNodeId s"]) simp
next
  case (Suc k)
  have "nr_id (rows ! k) \<noteq> nr_id (rows ! i)" if "i < k" for i
    using that Suc.prems nth_eq_iff_index_eq [OF assms(1), of k i] by simp
  then have "nr_id (rows ! k) \<notin> (\<lambda>i. nr_id (rows ! i)) ` {0..<k}" by (metis (no_types, lifting) atLeastLessThan_iff imageE)
  then have new: "nr_id (rows ! k) \<notin> fst ` set (map (\<lambda>i. (nr_id (rows ! i), row_node f (ss_strings s) rows i)) [0..<k])"
    by (simp add: image_image)
  obtain r where r: "fold (load_node_row f) (take k rows) (0, s) = (sum_list (map nr_edgeCount (take k rows)),
      s\<lparr>ss_rootNodeId := r, ss_nodeMap := map (\<lambda>i. (nr_id (rows ! i), row_node f (ss_strings s) rows i)) [0..<k]\<rparr>)"
    using Suc by auto
  have "fold (load_node_row f) (take (Suc k) rows) (0, s) = load_node_row f (rows ! k) (fold (load_node_row f) (take k rows) (0, s))"
    using Suc.prems by (simp add: take_Suc_conv_app_nth)
  also have "\<dots> = (sum_list (map nr_edgeCount (take (Suc k) rows)), s\<lparr>ss_rootNodeId := if r = - 1 then int (nr_id (rows ! k)) else r,
      ss_nodeMap := map (\<lambda>i. (nr_id (rows ! i), row_node f (ss_strings s) rows i)) [0..<Suc k]\<rparr>)"
    using Suc.prems js_map_set_new [OF map_of_eq_None_iff [THEN iffD2, OF new]] by (simp add: r load_node_row_def Let_def take_Suc_conv_app_nth row_node_def mkHeapNode_def)
  finally show ?case by blast
qed

lemma loadNode_eq:
  assumes "distinct (map nr_id (db_nodes db f))" "ss_nodeMap s = []"
  shows "\<exists>r. loadNode db f s = s\<lparr>ss_rootNodeId := r,
    ss_nodeMap := map (\<lambda>i. (nr_id (db_nodes db f ! i), row_node f (ss_strings s) (db_nodes db f) i)) [0..<length (db_nodes db f)]\<rparr>"
  using fold_load_node_row [OF assms order_refl, of f] by (auto simp: loadNode_def)

lemma fold_info_row:
  "ss_nodeCount (fold info_row rs s) = (case filter (\<lambda>r. fst r = js ''node_count'') rs of [] \<Rightarrow> ss_nodeCount s | xs \<Rightarrow> Some (snd (last xs)))"
  "ss_edgeCount (fold info_row rs s) = (case filter (\<lambda>r. fst r = js ''edge_count'') rs of [] \<Rightarrow> ss_edgeCount s | xs \<Rightarrow> Some (snd (last xs)))"
  "ss_nodeMap (fold info_row rs s) = ss_nodeMap s"
proof -
  have lit: "\<not> js_includes (js ''node_count'') (js ''types'')" "\<not> js_includes (js ''edge_count'') (js ''types'')"
    "js ''edge_count'' \<noteq> js ''node_count''"
    by (simp_all add: js_includes_def js_eq_iff js_take upt_rec js_drop)
  have step: "ss_nodeCount (info_row r s) = (if fst r = js ''node_count'' then Some (snd r) else ss_nodeCount s)"
    "ss_edgeCount (info_row r s) = (if fst r = js ''edge_count'' then Some (snd r) else ss_edgeCount s)"
    "ss_nodeMap (info_row r s) = ss_nodeMap s" for r s
    using lit by (cases r; auto simp: info_row_def)+
  show "ss_nodeMap (fold info_row rs s) = ss_nodeMap s" by (induction rs arbitrary: s) (simp_all add: step)
  show "ss_nodeCount (fold info_row rs s) = (case filter (\<lambda>r. fst r = js ''node_count'') rs of [] \<Rightarrow> ss_nodeCount s | xs \<Rightarrow> Some (snd (last xs)))"
    by (induction rs arbitrary: s) (auto simp: step split: list.split)
  show "ss_edgeCount (fold info_row rs s) = (case filter (\<lambda>r. fst r = js ''edge_count'') rs of [] \<Rightarrow> ss_edgeCount s | xs \<Rightarrow> Some (snd (last xs)))"
    by (induction rs arbitrary: s) (auto simp: step split: list.split)
qed

lemma fold_place_node:
  assumes "\<And>i. i < n \<Longrightarrow> hn_nodeIndex (g i) = i"
  shows "k \<le> n \<Longrightarrow> fold place_node (map g [0..<k]) (replicate n None) = map (Some \<circ> g) [0..<k] @ replicate (n - k) None"
proof (induction k)
  case (Suc k)
  then have "n - k = Suc (n - Suc k)" by simp
  then show ?case using Suc assms [of k] by (simp add: place_node_def list_update_append nth_append)
qed simp

lemma sort_placed:
  assumes "\<And>i. i < n \<Longrightarrow> hn_nodeIndex (g i) = i"
  shows "sort_nodes (map (Some \<circ> g) [0..<n]) = (map g [0..<n], 0)"
proof -
  have "map hn_nodeIndex (map g [0..<n]) = [0..<n]" by (intro nth_equalityI) (simp_all add: assms)
  then have "sorted (map hn_nodeIndex (map g [0..<n]))" by (simp only: sorted_upt)
  then have "sort_key hn_nodeIndex (map g [0..<n]) = map g [0..<n]" by (rule sort_key_id_if_sorted)
  then show ?thesis by (simp add: sort_nodes_def Let_def comp_def filter_map)
qed

lemma load_snapshot_fields:
  assumes "db_ok db f"
  defines "S \<equiv> load_snapshot db f newSnapshotStruct"
  shows "ss_nodeCount S = Some (length (db_nodes db f))" "ss_edgeCount S = Some (length (db_edges db f))" "ss_edges S = db_edges db f"
    "js_values (ss_nodeMap S) = map (row_node f (ss_strings S) (db_nodes db f)) [0..<length (db_nodes db f)]"
proof -
  define s2 where "s2 = loadStrings db f (loadInfo db f newSnapshotStruct)"
  have s2: "ss_nodeMap s2 = []" "ss_nodeCount s2 = Some (length (db_nodes db f))" "ss_edgeCount s2 = Some (length (db_edges db f))"
    using assms by (simp_all add: s2_def loadStrings_def loadInfo_def fold_info_row newSnapshotStruct_def db_ok_def Let_def)
  have dst: "distinct (map nr_id (db_nodes db f))" using assms(1) by (simp add: db_ok_def Let_def)
  obtain r where r: "loadNode db f s2 = s2\<lparr>ss_rootNodeId := r,
      ss_nodeMap := map (\<lambda>i. (nr_id (db_nodes db f ! i), row_node f (ss_strings s2) (db_nodes db f) i)) [0..<length (db_nodes db f)]\<rparr>"
    using loadNode_eq [OF _ s2(1)] dst by blast
  have S: "S = loadSamples db f (loadTraceTree db f (loadTraceFunctionInfos db f (loadEdge db f (loadNode db f s2))))"
    by (simp add: S_def load_snapshot_def s2_def Let_def)
  show "ss_nodeCount S = Some (length (db_nodes db f))" "ss_edgeCount S = Some (length (db_edges db f))" "ss_edges S = db_edges db f"
    "js_values (ss_nodeMap S) = map (row_node f (ss_strings S) (db_nodes db f)) [0..<length (db_nodes db f)]"
    by (simp_all add: S r s2 loadSamples_def loadTraceTree_def loadTraceFunctionInfos_def loadEdge_def js_values_def)
qed

lemma loaded_wf:
  assumes "db_ok db f"
  defines "S \<equiv> load_snapshot db f newSnapshotStruct"
  shows "\<exists>L. new_loader f S = Inr L \<and> wf_loader L
    \<and> hl_nodes L = map (row_node f (ss_strings S) (db_nodes db f)) [0..<length (db_nodes db f)] \<and> hl_edges L = db_edges db f
    \<and> fresh_retainers L \<and> length (hl_dominatorTree L) = length (hl_nodes L)
    \<and> hl_firstDominatedNodesIdx L = replicate (length (hl_nodes L) + 1) 0 \<and> hl_dominatedNodes L = replicate (length (hl_nodes L) - 1) 0"
proof -
  let ?rows = "db_nodes db f" and ?g = "row_node f (ss_strings S) (db_nodes db f)" let ?n = "length ?rows"
  note ok = assms(1) [unfolded db_ok_def Let_def]
  note S = load_snapshot_fields [OF assms(1), folded S_def]
  have idx: "hn_nodeIndex (?g i) = i" if "i < ?n" for i using ok that by simp
  have placed: "fold place_node (map ?g [0..<?n]) (replicate ?n None) = map (Some \<circ> ?g) [0..<?n]"
    using fold_place_node [of ?n ?g, OF idx order_refl] by simp
  let ?ns = "map ?g [0..<?n]"
  define L where "L = \<lparr>hl_fileId = f, hl_nodes = ?ns, hl_holes = 0, hl_nodeMap = nodeMap_of ?ns,
        hl_edges = db_edges db f, hl_nodeCount = ?n, hl_edgeCount = length (db_edges db f),
        hl_retainingNodes = replicate (length (db_edges db f)) 0, hl_retainingEdges = replicate (length (db_edges db f)) 0,
        hl_firstRetainerIndex = replicate (?n + 1) 0, hl_dominatorTree = replicate ?n 0,
        hl_firstDominatedNodesIdx = replicate (?n + 1) 0, hl_dominatedNodes = replicate (?n - 1) 0,
        hl_samples = ss_samples S, hl_allClasses = None, hl_diffToOtherFile = (\<lambda>_. None)\<rparr>"
  have run: "new_loader f S = Inr L"
    using ok by (simp add: new_loader_def newHeapLoader_def S placed sort_placed [OF idx] L_def del: replicate_Suc)
  have ids: "map hn_id ?ns = map nr_id ?rows" by (intro nth_equalityI) simp_all
  have cnt: "map hn_edgeCount ?ns = map nr_edgeCount ?rows" by (intro nth_equalityI) simp_all
  have before: "edges_before ?ns i = sum_list (map nr_edgeCount (take i ?rows))" for i
    unfolding edges_before_def take_map [symmetric] cnt ..
  have "hn_id ` set ?ns = nr_id ` set ?rows" using arg_cong [OF ids, of set] by (simp only: set_map)
  then have "wf_snapshot ?ns (db_edges db f)"
    using ok ids unfolding wf_snapshot_def before by simp
  then have "wf_loader L" by (simp add: wf_loader_def L_def)
  then show ?thesis using run by (intro exI [of _ L]) (auto simp: L_def fresh_retainers_def simp del: replicate_Suc)
qed

text \<open>C29: loading a file whose tables are consistent gives the loader a well-formed snapshot: the nodes are
  the rows in order, every node knows where its edges begin, and all tables of the loader have the size of
  the snapshot. The analyses start from here.\<close>

theorem load_gives_wf_loader:
  assumes "db_ok db f"
  shows "\<exists>L. new_loader f (load_snapshot db f newSnapshotStruct) = Inr L \<and> wf_loader L
    \<and> map hn_id (hl_nodes L) = map nr_id (db_nodes db f) \<and> hl_edges L = db_edges db f
    \<and> wf_loader (buildNodeEdge L) \<and> edges_built (buildNodeEdge L)"
proof -
  obtain L where L: "new_loader f (load_snapshot db f newSnapshotStruct) = Inr L" "wf_loader L" "hl_edges L = db_edges db f"
    "hl_nodes L = map (row_node f (ss_strings (load_snapshot db f newSnapshotStruct)) (db_nodes db f)) [0..<length (db_nodes db f)]"
    using loaded_wf [OF assms] by blast
  have "map hn_id (hl_nodes L) = map nr_id (db_nodes db f)" unfolding L(4) by (intro nth_equalityI) simp_all
  moreover have "\<forall>n\<in>set (hl_nodes L). hn_edges n = []" unfolding L(4) by auto
  ultimately show ?thesis using buildNodeEdge_built [OF L(2)] L by blast
qed

lemma sort_holes:
  assumes "\<And>i. i < k \<Longrightarrow> hn_nodeIndex (g i) = i"
  shows "sort_nodes (map (Some \<circ> g) [0..<k] @ replicate m None) = (map g [0..<k], m)"
  using sort_placed [OF assms] by (auto simp: sort_nodes_def Let_def)

text \<open>C29: a file that announces more nodes than its table has cannot be analysed: the constructor of its
  loader raises a \<open>TypeError\<close>.\<close>

theorem missing_nodes_raise:
  assumes "ss_nodeCount (fs_snapshotStruct file) = Some n" "js_values (ss_nodeMap (fs_snapshotStruct file)) = ns"
    and "\<forall>i<length ns. hn_nodeIndex (ns ! i) = i" "0 < length ns" "length ns < n"
  shows "constructHeapLoader file = Inl TypeError"
proof -
  let ?k = "length ns" and ?g = "\<lambda>i. ns ! i"
  have idx: "\<And>i. i < ?k \<Longrightarrow> hn_nodeIndex (?g i) = i" using assms(3) by blast
  have ns: "ns = map ?g [0..<?k]" by (simp add: map_nth)
  have "fold place_node (map ?g [0..<k]) (replicate n None) = map (Some \<circ> ?g) [0..<k] @ replicate (n - k) None" if "k \<le> ?k" for k
    using that
  proof (induction k)
    case (Suc k)
    then have "n - k = Suc (n - Suc k)" "k < n" using assms(5) by simp_all
    then show ?case using Suc idx [of k] by (simp add: place_node_def list_update_append nth_append)
  qed simp
  from this [of ?k] have "sort_nodes (fold place_node ns (replicate n None)) = (ns, n - ?k)"
    using sort_holes [of ?k ?g "n - ?k", OF idx] by (simp add: map_nth)
  then show ?thesis
    using assms by (auto simp: constructHeapLoader_def Let_def new_loader_def newHeapLoader_def preprocess_def)
qed

section \<open>Concrete instances\<close>

definition demo_db :: HeapDb where
  "demo_db = \<lparr>db_files = [\<lparr>fr_id = 0, fr_name = js ''Snapshot0'', fr_startTs = 0, fr_endTs = 9, fr_pid = 7, fr_size = 17\<rparr>],
     db_info = (\<lambda>_. [(js ''node_count'', 2), (js ''edge_count'', 1)]), db_strings = (\<lambda>_. [js ''root'', js ''A'']),
     db_nodes = (\<lambda>_. [\<lparr>nr_nodeIndex = 0, nr_type = 9, nr_nameIdx = 0, nr_id = 1, nr_selfSize = 0, nr_edgeCount = 1, nr_traceNodeId = 0, nr_detachedness = 0\<rparr>,
       \<lparr>nr_nodeIndex = 1, nr_type = 3, nr_nameIdx = 1, nr_id = 3, nr_selfSize = 10, nr_edgeCount = 0, nr_traceNodeId = 0, nr_detachedness = 0\<rparr>]),
     db_edges = (\<lambda>_. [mkHeapEdge 0 1 (js ''0'') 0 1 3]), db_functions = (\<lambda>_. []), db_traceNodes = (\<lambda>_. []), db_samples = (\<lambda>_. [])\<rparr>"

lemma demo_db_ok: "db_ok demo_db 0"
  by (simp add: db_ok_def Let_def demo_db_def mkHeapEdge_def js_eq_iff less_Suc_eq numeral_2_eq_2)

theorem load_gives_wf_loader_witness:
  "\<exists>L. new_loader 0 (load_snapshot demo_db 0 newSnapshotStruct) = Inr L \<and> wf_loader L \<and> map hn_id (hl_nodes L) = [1, 3]"
  using load_gives_wf_loader [OF demo_db_ok] by (auto simp: demo_db_def)

definition demo_file :: FileStruct where
  "demo_file = hd (loadFiles demo_db)"

lemma demo_file_fields:
  "ss_nodeCount (fs_snapshotStruct demo_file) = Some 2" "fs_id demo_file = 0" "fs_heapLoader demo_file = None"
  "js_values (ss_nodeMap (fs_snapshotStruct demo_file)) = map (row_node 0 (ss_strings (fs_snapshotStruct demo_file)) (db_nodes demo_db 0)) [0..<2]"
proof -
  have f: "fs_snapshotStruct demo_file = load_snapshot demo_db 0 newSnapshotStruct" "fs_id demo_file = 0" "fs_heapLoader demo_file = None"
    "length (db_nodes demo_db 0) = 2"
    by (simp_all add: demo_file_def loadFiles_def demo_db_def newFileStruct_def Let_def)
  then show "ss_nodeCount (fs_snapshotStruct demo_file) = Some 2" "fs_id demo_file = 0" "fs_heapLoader demo_file = None"
    "js_values (ss_nodeMap (fs_snapshotStruct demo_file)) = map (row_node 0 (ss_strings (fs_snapshotStruct demo_file)) (db_nodes demo_db 0)) [0..<2]"
    using load_snapshot_fields [OF demo_db_ok] by simp_all
qed

theorem missing_nodes_raise_witness:
  "constructHeapLoader (demo_file\<lparr>fs_snapshotStruct := (fs_snapshotStruct demo_file)\<lparr>ss_nodeCount := Some 5\<rparr>\<rparr>) = Inl TypeError"
proof -
  let ?ns = "js_values (ss_nodeMap (fs_snapshotStruct demo_file))"
  have "\<forall>i<length ?ns. hn_nodeIndex (?ns ! i) = i" "length ?ns = 2"
    by (simp_all add: demo_file_fields(4)) (simp add: demo_db_def less_Suc_eq numeral_2_eq_2)
  then show ?thesis by (intro missing_nodes_raise [of _ 5 ?ns]) simp_all
qed

end
