(* ===== verification/Heap_Rows.thy ===== *)
theory Heap_Rows
  imports Heap_Loader
begin

text \<open>
  The rows below a selected row: \<open>getNextNode\<close> (the objects an object refers to), \<open>getRetains\<close> (the
  objects that refer to it), \<open>findParentsFunc\<close> and \<open>clear\<close> of \<open>HeapLoader.ts\<close>. The parent of a row is a
  copy of the row as it was when its children were made; only its id, its type and its own parent are
  read later, and these do not change.
\<close>

section \<open>Operations\<close>

fun set_parent :: "ConstructorItem \<Rightarrow> ConstructorItem \<Rightarrow> ConstructorItem" where
  "set_parent p (ConstructorItem d _ c r k) = ConstructorItem d (Some p) c r k"

fun set_rows :: "ConstructorItem list \<Rightarrow> ConstructorItem \<Rightarrow> ConstructorItem" where
  "set_rows c (ConstructorItem d p _ r k) = ConstructorItem d p c r k"

lemma set_parent_sel [simp]:
  "ci_data (set_parent p x) = ci_data x" "ci_parent (set_parent p x) = Some p" "ci_classChildren (set_parent p x) = ci_classChildren x"
  by (cases x; simp)+

lemma set_rows_sel [simp]: "ci_data (set_rows c x) = ci_data x" "ci_children (set_rows c x) = c"
  by (cases x; simp)+

lemma parent_size: "ci_parent x = Some p \<Longrightarrow> size p < size x"
  by (cases x) auto

definition mark_repeated :: "int list \<Rightarrow> ConstructorItem list \<Rightarrow> ConstructorItem list" where
  "mark_repeated parents childNodes =
     map (\<lambda>c. fold (\<lambda>p c. if p = cd_id (ci_data c) then upd_data (cd_hasNext_update (\<lambda>_. False)) c else c) parents c) childNodes"

text \<open>\<open>parents\<close> holds the ids of the rows met so far.\<close>

function findParents :: "ConstructorItem \<Rightarrow> int list \<Rightarrow> ConstructorItem list \<Rightarrow> ConstructorItem list" where
  "findParents clickNode parents childNodes =
     (case ci_parent clickNode of
        None \<Rightarrow> childNodes
      | Some p \<Rightarrow> (let parents' = parents @ [cd_id (ci_data clickNode)] in findParents p parents' (mark_repeated parents' childNodes)))"
  by pat_completeness auto
termination
  by (relation "measure (\<lambda>(x, _, _). size x)") (auto simp: parent_size)

declare findParents.simps [simp del]

definition findParentsFunc :: "ConstructorItem list \<Rightarrow> ConstructorItem \<Rightarrow> ConstructorItem list" where
  "findParentsFunc childNodes clickNode = findParents clickNode [] childNodes"

definition field_row :: "HeapLoader \<Rightarrow> ConstructorItem \<Rightarrow> HeapEdge \<Rightarrow> nat \<Rightarrow> ConstructorItem" where
  "field_row L item edge c =
     (let childNode = hl_nodes L ! c in
      set_parent item (upd_data (\<lambda>d. d\<lparr>cd_childCount := int (hn_edgeCount childNode), cd_edgeCount := int (hn_edgeCount childNode),
        cd_edgeName := he_nameOrIndex edge, cd_hasNext := hn_edgeCount childNode > 0,
        cd_traceNodeId := hn_traceNodeId childNode, cd_type := Some FiledType\<rparr>) (HeapNodeToConstructorItem childNode)))"

definition field_rows :: "HeapLoader \<Rightarrow> ConstructorItem \<Rightarrow> HeapNode \<Rightarrow> ConstructorItem list" where
  "field_rows L item node =
     List.map_filter (\<lambda>edge. map_option (field_row L item edge) (hl_nodeMap L (he_toNodeId edge))) (hn_edges node)"

definition not_root :: "HeapLoader \<Rightarrow> ConstructorItem \<Rightarrow> bool" where
  "not_root L x \<longleftrightarrow> cd_id (ci_data x) \<noteq> int (hn_id (rootNode L))"

text \<open>The rows and the item, which keeps them. Without a row to take the clicked one from, the code
  reads a field of \<open>undefined\<close>.\<close>

definition getNextNode :: "HeapLoader \<Rightarrow> ConstructorItem \<Rightarrow> (ConstructorItem list \<times> ConstructorItem) result" where
  "getNextNode L item =
     (let index = cd_index (ci_data item) in
      if ci_children item \<noteq> [] then Inr (ci_children item, item)
      else if \<not> (0 \<le> index \<and> nat index < length (hl_nodes L)) then Inl TypeError
      else (let childNodes = field_rows L item (hl_nodes L ! nat index) in
        if childNodes = [] then Inl TypeError
        else (let childNodes' = (if cd_type (ci_data item) = Some FiledType then findParentsFunc childNodes item else childNodes);
                  rows = filter (not_root L) childNodes'
              in Inr (rows, set_rows rows item))))"

definition retain_row :: "HeapLoader \<Rightarrow> ConstructorItem \<Rightarrow> nat \<Rightarrow> HeapEdge \<Rightarrow> ConstructorItem" where
  "retain_row L item r retainEdge =
     (let retainsNode = hl_nodes L ! r; n = length (hn_retainsNodeIdx retainsNode);
          x = upd_data (\<lambda>d. d\<lparr>cd_edgeName := he_nameOrIndex retainEdge, cd_edgeType := Some (he_type retainEdge),
            cd_type := Some RetainersType, cd_childCount := int n, cd_hasNext := n > 0\<rparr>) (HeapNodeToConstructorItem retainsNode)
      in if cd_type (ci_data item) = Some RetainersType then set_parent item x else x)"

fun retain_rows :: "HeapLoader \<Rightarrow> ConstructorItem \<Rightarrow> (nat \<times> nat) list \<Rightarrow> ConstructorItem list result" where
  "retain_rows L item [] = Inr []"
| "retain_rows L item ((r, e) # res) =
     (if \<not> e < length (hl_edges L) then Inl TypeError
      else if he_type (hl_edges L ! e) = EdgeType_num EdgeType_WEAK then retain_rows L item res
      else if \<not> r < length (hl_nodes L) then Inl TypeError
      else bindr (retain_rows L item res) (\<lambda>rows. Inr (retain_row L item r (hl_edges L ! e) # rows)))"

text \<open>A row whose only retainer is the root cannot be expanded.\<close>

definition only_root_retains :: "HeapLoader \<Rightarrow> ConstructorItem \<Rightarrow> bool result" where
  "only_root_retains L x =
     (let index = cd_index (ci_data x); node = hl_nodes L ! nat index in
      if 0 \<le> index \<and> nat index < length (hl_nodes L) \<and> length (hn_retainsEdgeIdx node) = length (hn_retainsNodeIdx node)
        \<and> length (hn_retainsNodeIdx node) = 1
      then (let r = hd (hn_retainsNodeIdx node) in
            if r < length (hl_nodes L) then Inr (hn_id (hl_nodes L ! r) = hn_id (rootNode L)) else Inl TypeError)
      else Inr False)"

fun close_root_only :: "HeapLoader \<Rightarrow> ConstructorItem list \<Rightarrow> ConstructorItem list result" where
  "close_root_only L [] = Inr []"
| "close_root_only L (x # xs) =
     bindr (only_root_retains L x) (\<lambda>only. bindr (close_root_only L xs) (\<lambda>ys.
       Inr ((if only then upd_data (cd_hasNext_update (\<lambda>_. False)) x else x) # ys)))"

definition getRetains :: "HeapLoader \<Rightarrow> ConstructorItem \<Rightarrow> ConstructorItem list result" where
  "getRetains L item =
     (let index = cd_index (ci_data item); node = hl_nodes L ! nat index in
      if ci_retains item \<noteq> [] then Inr (ci_retains item)
      else if cd_type (ci_data item) = Some ClassType then Inr []
      else bindr (if 0 \<le> index \<and> nat index < length (hl_nodes L) \<and> length (hn_retainsEdgeIdx node) = length (hn_retainsNodeIdx node)
                  then retain_rows L item (zip (hn_retainsNodeIdx node) (hn_retainsEdgeIdx node)) else Inr []) (\<lambda>retains.
        bindr (close_root_only L retains) (\<lambda>retains1.
        let retains2 = (case retains1 of [] \<Rightarrow> []
              | x # _ \<Rightarrow> (case ci_parent x of
                  None \<Rightarrow> retains1
                | Some clickNode \<Rightarrow> if cd_type (ci_data clickNode) = Some RetainersType then findParentsFunc retains1 clickNode else retains1))
        in Inr (filter (not_root L) (sort_key (\<lambda>x. cd_distance (ci_data x)) retains2)))))"

definition clear :: "HeapLoader \<Rightarrow> HeapLoader" where
  "clear L = L\<lparr>hl_allClasses := map_option (\<lambda>_. []) (hl_allClasses L), hl_diffToOtherFile := (\<lambda>_. None),
     hl_nodeMap := (\<lambda>_. None), hl_edges := [], hl_nodes := []\<rparr>"

section \<open>Rows that repeat an ancestor\<close>

text \<open>The ids on the way up from a row: the row and its ancestors, as far as they have a parent.\<close>

function ancestor_ids :: "ConstructorItem \<Rightarrow> int set" where
  "ancestor_ids x = (case ci_parent x of None \<Rightarrow> {} | Some p \<Rightarrow> insert (cd_id (ci_data x)) (ancestor_ids p))"
  by pat_completeness auto
termination
  by (relation "measure size") (auto simp: parent_size)

declare ancestor_ids.simps [simp del]

text \<open>Closing the rows with an id of a set.\<close>

definition close_ids :: "int set \<Rightarrow> ConstructorItem \<Rightarrow> ConstructorItem" where
  "close_ids A c = (if cd_id (ci_data c) \<in> A then upd_data (cd_hasNext_update (\<lambda>_. False)) c else c)"

lemma upd_data_idem: "upd_data f (upd_data g x) = upd_data (f \<circ> g) x"
  by (cases x) simp

lemma fold_close: "fold (\<lambda>p c. if p = cd_id (ci_data c) then upd_data (cd_hasNext_update (\<lambda>_. False)) c else c) ps c = close_ids (set ps) c"
  by (induction ps arbitrary: c) (auto simp: close_ids_def upd_data_idem comp_def)

lemma mark_repeated_close: "mark_repeated ps cs = map (close_ids (set ps)) cs"
  by (simp add: mark_repeated_def fold_close)

lemma close_close: "close_ids A (close_ids B c) = close_ids (A \<union> B) c"
  by (simp add: close_ids_def upd_data_idem comp_def)

lemma findParents_closes:
  "findParents x ps cs = map (close_ids (if ci_parent x = None then {} else set ps \<union> ancestor_ids x)) cs"
proof (induction x ps cs rule: findParents.induct)
  case (1 x ps cs)
  show ?case
  proof (cases "ci_parent x")
    case None
    then show ?thesis by (simp add: findParents.simps [of x] close_ids_def)
  next
    case (Some p)
    have up: "ancestor_ids x = insert (cd_id (ci_data x)) (ancestor_ids p)" by (simp add: ancestor_ids.simps [of x] Some)
    have none: "ci_parent p = None \<Longrightarrow> ancestor_ids p = {}" by (simp add: ancestor_ids.simps)
    show ?thesis
      using "1.IH" [OF Some refl] none
      by (cases "ci_parent p") (simp_all add: findParents.simps [of x] Some up mark_repeated_close close_close Un_absorb Un_ac)
  qed
qed

text \<open>Expanding an object shows one row per edge to a node of the snapshot other than the root, in
  the order of the edges; below a field row, a row can be expanded exactly when its object has edges
  and its id is none of those on the way up, so that cycles of the heap are not unfolded for ever.\<close>

theorem getNextNode_rows:
  assumes "ci_children item = []" "cd_index (ci_data item) = int i" "i < length (hl_nodes L)"
    and "field_rows L item (hl_nodes L ! i) \<noteq> []"
  shows "\<exists>rows. getNextNode L item = Inr (rows, set_rows rows item)
    \<and> map (\<lambda>x. (cd_id (ci_data x), cd_edgeName (ci_data x))) rows
      = map (\<lambda>(e, c). (int (hn_id (hl_nodes L ! c)), he_nameOrIndex e))
          (filter (\<lambda>(e, c). hn_id (hl_nodes L ! c) \<noteq> hn_id (rootNode L))
            (List.map_filter (\<lambda>e. map_option (Pair e) (hl_nodeMap L (he_toNodeId e))) (hn_edges (hl_nodes L ! i))))
    \<and> (cd_type (ci_data item) = Some FiledType \<and> ci_parent item \<noteq> None \<longrightarrow>
        (\<forall>x\<in>set rows. cd_hasNext (ci_data x) \<longrightarrow> cd_id (ci_data x) \<notin> ancestor_ids item))
    \<and> (\<forall>x\<in>set rows. ci_parent x = Some item)"
proof -
  let ?A = "if cd_type (ci_data item) = Some FiledType \<and> ci_parent item \<noteq> None then ancestor_ids item else {}"
  let ?es = "List.map_filter (\<lambda>e. map_option (Pair e) (hl_nodeMap L (he_toNodeId e))) (hn_edges (hl_nodes L ! i))"
  have id: "close_ids {} = id" by (simp add: close_ids_def fun_eq_iff)
  define rows where "rows = filter (not_root L) (map (close_ids ?A) (field_rows L item (hl_nodes L ! i)))"
  have run: "getNextNode L item = Inr (rows, set_rows rows item)"
    using assms by (auto simp: getNextNode_def Let_def rows_def findParentsFunc_def findParents_closes id)
  have fr: "field_rows L item (hl_nodes L ! i) = map (\<lambda>(e, c). field_row L item e c) ?es"
    by (simp add: field_rows_def List.map_filter_def filter_map comp_def case_prod_beta option.map_sel cong: map_cong)
  have f: "cd_id (ci_data (close_ids A (field_row L item e c))) = int (hn_id (hl_nodes L ! c))"
    "cd_edgeName (ci_data (close_ids A (field_row L item e c))) = he_nameOrIndex e" 
    "ci_parent (close_ids A (field_row L item e c)) = Some item" for A e c
    by (simp_all add: close_ids_def field_row_def Let_def HeapNodeToConstructorItem_def)
  have r: "rows = map (\<lambda>(e, c). close_ids ?A (field_row L item e c)) (filter (\<lambda>(e, c). hn_id (hl_nodes L ! c) \<noteq> hn_id (rootNode L)) ?es)"
    by (simp add: rows_def fr filter_map comp_def case_prod_unfold not_root_def f)
  have "\<forall>x\<in>set rows. cd_hasNext (ci_data x) \<longrightarrow> cd_id (ci_data x) \<notin> ancestor_ids item"
    if "cd_type (ci_data item) = Some FiledType \<and> ci_parent item \<noteq> None"
    using that by (auto simp: rows_def close_ids_def split: if_splits)
  moreover have "\<forall>x\<in>set rows. ci_parent x = Some item" by (auto simp: r f)
  moreover have "map (\<lambda>x. (cd_id (ci_data x), cd_edgeName (ci_data x))) rows = map (\<lambda>(e, c). (int (hn_id (hl_nodes L ! c)), he_nameOrIndex e))
          (filter (\<lambda>(e, c). hn_id (hl_nodes L ! c) \<noteq> hn_id (rootNode L)) ?es)"
    by (simp add: r comp_def case_prod_beta f)
  ultimately show ?thesis using run by blast
qed

section \<open>The retainers of an object\<close>

text \<open>What later steps keep of a row: everything but whether it can be expanded.\<close>

definition row_of :: "ConstructorItem \<Rightarrow> int \<times> jsstring \<times> int" where
  "row_of x = (cd_id (ci_data x), cd_edgeName (ci_data x), cd_distance (ci_data x))"

definition retain_of :: "HeapLoader \<Rightarrow> nat \<times> nat \<Rightarrow> int \<times> jsstring \<times> int" where
  "retain_of L re = (int (hn_id (hl_nodes L ! fst re)), he_nameOrIndex (hl_edges L ! snd re), hn_distance (hl_nodes L ! fst re))"

lemma row_of_upd [simp]: "row_of (upd_data (cd_hasNext_update b) x) = row_of x"
  by (simp add: row_of_def)

lemma row_of_close [simp]: "row_of (close_ids A x) = row_of x"
  by (simp add: close_ids_def)

lemma row_of_findParentsFunc: "map row_of (findParentsFunc xs x) = map row_of xs"
  by (simp add: findParentsFunc_def findParents_closes comp_def)

text \<open>The positions in the retainer lists that the code can follow.\<close>

definition retains_ok :: "HeapLoader \<Rightarrow> bool" where
  "retains_ok L \<longleftrightarrow> (\<forall>n\<in>set (hl_nodes L). length (hn_retainsEdgeIdx n) = length (hn_retainsNodeIdx n)
     \<and> (\<forall>r\<in>set (hn_retainsNodeIdx n). r < length (hl_nodes L)) \<and> (\<forall>e\<in>set (hn_retainsEdgeIdx n). e < length (hl_edges L)))"

definition strong :: "HeapLoader \<Rightarrow> nat \<times> nat \<Rightarrow> bool" where
  "strong L re \<longleftrightarrow> he_type (hl_edges L ! snd re) \<noteq> EdgeType_num EdgeType_WEAK"

lemma retain_rows_row_of:
  "\<forall>(r, e)\<in>set res. r < length (hl_nodes L) \<and> e < length (hl_edges L) \<Longrightarrow>
   \<exists>rows. retain_rows L item res = Inr rows \<and> map row_of rows = map (retain_of L) (filter (strong L) res)"
  by (induction res) (auto simp: strong_def retain_row_def Let_def row_of_def retain_of_def HeapNodeToConstructorItem_def)

lemma only_root_retains_ok:
  assumes "retains_ok L"
  shows "\<exists>b. only_root_retains L x = Inr b"
proof -
  let ?i = "nat (cd_index (ci_data x))"
  have "hd (hn_retainsNodeIdx (hl_nodes L ! ?i)) < length (hl_nodes L)"
    if "?i < length (hl_nodes L)" "length (hn_retainsNodeIdx (hl_nodes L ! ?i)) = 1"
  proof -
    have "hd (hn_retainsNodeIdx (hl_nodes L ! ?i)) \<in> set (hn_retainsNodeIdx (hl_nodes L ! ?i))" using that(2) by (intro hd_in_set) auto
    then show ?thesis using assms nth_mem [OF that(1)] unfolding retains_ok_def by blast
  qed
  then show ?thesis by (auto simp: only_root_retains_def Let_def)
qed

lemma close_root_only_row_of:
  assumes "retains_ok L"
  shows "\<exists>ys. close_root_only L xs = Inr ys \<and> map row_of ys = map row_of xs"
proof (induction xs)
  case (Cons x xs)
  then show ?case using only_root_retains_ok [OF assms, of x] by auto
qed simp

lemma row_of_dist: "cd_distance (ci_data x) = snd (snd (row_of x))"
  by (simp add: row_of_def)

lemma row_of_not_root: "not_root L x = (fst (row_of x) \<noteq> int (hn_id (rootNode L)))"
  by (simp add: row_of_def not_root_def)

text \<open>The rows below an object in the retainers view are its strong retainers other than the root,
  each with the name of the edge, nearest to the root first and otherwise in the order of the retainer
  list.\<close>

theorem getRetains_rows:
  assumes "retains_ok L" "ci_retains item = []" "cd_type (ci_data item) \<noteq> Some ClassType"
    and "cd_index (ci_data item) = int i" "i < length (hl_nodes L)"
  shows "\<exists>rows. getRetains L item = Inr rows \<and>
    map row_of rows = filter (\<lambda>(j, _). j \<noteq> int (hn_id (rootNode L))) (sort_key (\<lambda>(_, _, d). d)
      (map (retain_of L) (filter (strong L) (zip (hn_retainsNodeIdx (hl_nodes L ! i)) (hn_retainsEdgeIdx (hl_nodes L ! i))))))"
proof -
  let ?n = "hl_nodes L ! i" let ?z = "zip (hn_retainsNodeIdx ?n) (hn_retainsEdgeIdx ?n)"
  have n: "length (hn_retainsEdgeIdx ?n) = length (hn_retainsNodeIdx ?n)" "\<forall>(r, e)\<in>set ?z. r < length (hl_nodes L) \<and> e < length (hl_edges L)"
    using assms(1) nth_mem [OF assms(5)] unfolding retains_ok_def by (blast, auto dest: set_zip_leftD set_zip_rightD)
  obtain rows where rows: "retain_rows L item ?z = Inr rows" "map row_of rows = map (retain_of L) (filter (strong L) ?z)"
    using retain_rows_row_of [OF n(2)] by blast
  obtain rows1 where rows1: "close_root_only L rows = Inr rows1" "map row_of rows1 = map row_of rows"
    using close_root_only_row_of [OF assms(1)] by blast
  define rows2 where "rows2 = (case rows1 of [] \<Rightarrow> []
    | x # _ \<Rightarrow> (case ci_parent x of None \<Rightarrow> rows1
        | Some clickNode \<Rightarrow> if cd_type (ci_data clickNode) = Some RetainersType then findParentsFunc rows1 clickNode else rows1))"
  have "map row_of rows2 = map row_of rows1"
    by (auto simp: rows2_def row_of_findParentsFunc split: list.split option.split)
  then have "map row_of (sort_key (\<lambda>x. cd_distance (ci_data x)) rows2) = sort_key (\<lambda>(_, _, d). d) (map (retain_of L) (filter (strong L) ?z))"
    using map_sort_key [of row_of "\<lambda>(_, _, d). d" rows2] rows(2) rows1(2) by (simp add: row_of_dist comp_def case_prod_unfold)
  note srt = this
  have "map row_of (filter (not_root L) (sort_key (\<lambda>x. cd_distance (ci_data x)) rows2))
      = filter (\<lambda>(j, _). j \<noteq> int (hn_id (rootNode L))) (sort_key (\<lambda>(_, _, d). d) (map (retain_of L) (filter (strong L) ?z)))"
    unfolding srt [symmetric] filter_map by (simp add: row_of_not_root [abs_def] comp_def case_prod_unfold)
  moreover have "getRetains L item = Inr (filter (not_root L) (sort_key (\<lambda>x. cd_distance (ci_data x)) rows2))"
    using assms n(1) rows(1) rows1(1) by (simp add: getRetains_def rows2_def Let_def)
  ultimately show ?thesis by blast
qed

section \<open>Concrete instances\<close>

definition demo_row :: "HeapLoader \<Rightarrow> nat \<Rightarrow> ConstructorItem" where
  "demo_row L i = upd_data (cd_type_update (\<lambda>_. Some InstanceType)) (HeapNodeToConstructorItem (hl_nodes L ! i))"

lemma demo_row_sel: "ci_children (demo_row L i) = []" "ci_retains (demo_row L i) = []" "cd_index (ci_data (demo_row L i)) = int (hn_nodeIndex (hl_nodes L ! i))"
  "cd_type (ci_data (demo_row L i)) = Some InstanceType"
  by (simp_all add: demo_row_def HeapNodeToConstructorItem_def)

theorem getNextNode_rows_witness:
  "\<exists>rows item. getNextNode demo_graph (demo_row demo_graph 0) = Inr (rows, item)
     \<and> map (\<lambda>x. (cd_id (ci_data x), cd_edgeName (ci_data x))) rows = [(3, js ''0''), (5, js ''s'')]"
proof -
  have "field_rows demo_graph (demo_row demo_graph 0) (hl_nodes demo_graph ! 0) \<noteq> []"
    by (simp add: field_rows_def List.map_filter_def demo_graph_nodes demo_graph_map mkHeapEdge_def demo_edges_def)
  then show ?thesis
    using getNextNode_rows [of "demo_row demo_graph 0" 0 demo_graph]
    by (simp add: demo_row_sel demo_graph_nodes mkHeapNode_def List.map_filter_def demo_graph_map mkHeapEdge_def demo_edges_def
        demo_graph_nodes(2) [unfolded One_nat_def]) (elim exE conjE, intro exI conjI)
qed

definition demo_retained :: HeapLoader where
  "demo_retained = upd_node 2 (\<lambda>n. n\<lparr>hn_retainsNodeIdx := [1, 1], hn_retainsEdgeIdx := [2, 3]\<rparr>) demo_graph"

lemma demo_retained_nodes:
  "length (hl_nodes demo_retained) = 3" "hl_edges demo_retained = demo_edges"
  "hl_nodes demo_retained ! 0 = hl_nodes demo_graph ! 0" "hl_nodes demo_retained ! 1 = hl_nodes demo_graph ! 1"
  "hl_nodes demo_retained ! 2 = (hl_nodes demo_graph ! 2)\<lparr>hn_retainsNodeIdx := [1, 1], hn_retainsEdgeIdx := [2, 3]\<rparr>"
  by (simp_all add: demo_retained_def upd_node_def demo_graph_nodes)

lemma demo_retained_ok: "retains_ok demo_retained"
  unfolding retains_ok_def all_set_conv_all_nth demo_retained_nodes(1,2)
  by (auto simp: less_Suc_eq numeral_3_eq_3 demo_retained_nodes [unfolded One_nat_def numeral_2_eq_2] demo_edges_def
        demo_graph_nodes [unfolded One_nat_def numeral_2_eq_2] mkHeapNode_def)

theorem getRetains_rows_witness:
  "\<exists>rows. getRetains demo_retained (demo_row demo_retained 2) = Inr rows \<and> map row_of rows = [(3, js ''p'', - 5)]"
proof -
  have "cd_index (ci_data (demo_row demo_retained 2)) = int 2" "2 < length (hl_nodes demo_retained)"
    by (simp_all add: demo_row_sel demo_retained_nodes demo_graph_nodes mkHeapNode_def)
  from getRetains_rows [OF demo_retained_ok _ _ this] show ?thesis
    by (simp add: demo_row_sel demo_retained_nodes demo_graph_nodes mkHeapNode_def strong_def retain_of_def demo_edges_def mkHeapEdge_def
          demo_retained_nodes(4) [unfolded One_nat_def] demo_graph_nodes(2) [unfolded One_nat_def])
qed

end
