(* ===== verification/Heap_Interface.thy ===== *)
theory Heap_Interface
  imports Heap_Database Heap_Rows
begin

text \<open>
  \<open>HeapDataInterface\<close> (\<open>js-heap/HeapDataInterface.ts\<close>): the facade between the views and the loaders of
  the heap files, and the \<open>getChildren\<close> methods of the rows (\<open>js-heap/model/UiStruct.ts\<close>) that call it.

  File structs are objects of a store and referred to by address, because the current file
  (\<open>baseFileStruct\<close>) is shared with the list of files and survives the list. An operation that loads or
  drops files returns the state it leaves together with the exception it ends with, if any; what a
  constructor that fails leaves in the tables of its own file is left out, since nothing reads them without
  a loader. The listener's callback is not part of the state.
\<close>

section \<open>State\<close>

record HeapDataInterface =
  hd_isParseDone :: bool
  hd_fileStructs :: "nat list option"
  hd_baseFileStruct :: "nat option"
  hd_store :: "FileStruct list"

definition newInterface :: HeapDataInterface where
  "newInterface = \<lparr>hd_isParseDone = False, hd_fileStructs = None, hd_baseFileStruct = None, hd_store = []\<rparr>"

abbreviation file_at :: "HeapDataInterface \<Rightarrow> nat \<Rightarrow> FileStruct" where
  "file_at H a \<equiv> hd_store H ! a"

definition set_file :: "nat \<Rightarrow> FileStruct \<Rightarrow> HeapDataInterface \<Rightarrow> HeapDataInterface" where
  "set_file a f H = H\<lparr>hd_store := (hd_store H)[a := f]\<rparr>"

definition getFileStructById :: "HeapDataInterface \<Rightarrow> int \<Rightarrow> nat option result" where
  "getFileStructById H i =
     (case hd_fileStructs H of
        None \<Rightarrow> Inl TypeError
      | Some fs \<Rightarrow> Inr (List.find (\<lambda>a. fs_id (file_at H a) = i) fs))"

definition current_file :: "HeapDataInterface \<Rightarrow> int \<Rightarrow> nat option result" where
  "current_file H i = (case hd_baseFileStruct H of Some a \<Rightarrow> Inr (Some a) | None \<Rightarrow> getFileStructById H i)"

definition setFileId :: "HeapDataInterface \<Rightarrow> int \<Rightarrow> HeapDataInterface result" where
  "setFileId H fileId = bindr (getFileStructById H fileId) (\<lambda>a. Inr (H\<lparr>hd_baseFileStruct := a\<rparr>))"

text \<open>Reading a method of a loader that was never set raises.\<close>

definition loader_at :: "HeapDataInterface \<Rightarrow> nat \<Rightarrow> HeapLoader result" where
  "loader_at H a = (case fs_heapLoader (file_at H a) of None \<Rightarrow> Inl TypeError | Some (L, _) \<Rightarrow> Inr L)"

definition allocation_at :: "HeapDataInterface \<Rightarrow> nat \<Rightarrow> AllocationLogic result" where
  "allocation_at H a = (case fs_heapLoader (file_at H a) of None \<Rightarrow> Inl TypeError | Some (_, A) \<Rightarrow> Inr A)"

definition set_loader :: "nat \<Rightarrow> HeapLoader \<Rightarrow> HeapDataInterface \<Rightarrow> HeapDataInterface" where
  "set_loader a L H = set_file a (fs_heapLoader_update (map_option (\<lambda>(_, A). (L, A))) (file_at H a)) H"

section \<open>Classes\<close>

definition getClassesListForSummary ::
  "HeapDataInterface \<Rightarrow> int \<Rightarrow> int option \<Rightarrow> int option \<Rightarrow> (ConstructorItem list \<times> HeapDataInterface) result" where
  "getClassesListForSummary H fileId minNodeId maxNodeId =
     bindr (current_file H fileId) (\<lambda>f.
       case f of
         None \<Rightarrow> Inr ([], H)
       | Some a \<Rightarrow>
           if \<not> hd_isParseDone H then Inr ([], H)
           else bindr (loader_at H a) (\<lambda>L.
                bindr (getClassesForSummary L minNodeId maxNodeId) (\<lambda>(constructorMap, L').
                Inr (sort_key (\<lambda>x. - cd_retainedSize (ci_data x)) (js_values constructorMap), set_loader a L' H))))"

text \<open>The classes of the target are the map that its loader keeps, so sorting their instances shows there;
  the loader of the base file is read after that, which matters when it is the same.\<close>

definition getClassListForComparison ::
  "HeapDataInterface \<Rightarrow> int \<Rightarrow> int \<Rightarrow> (ConstructorItem list \<times> HeapDataInterface) result" where
  "getClassListForComparison H baseFileId targetFileId =
     bindr (current_file H baseFileId) (\<lambda>b.
     bindr (getFileStructById H targetFileId) (\<lambda>t.
       case (b, t) of
         (Some a, Some c) \<Rightarrow>
           bindr (loader_at H a) (\<lambda>_.
           bindr (loader_at H c) (\<lambda>Lt.
           bindr (getClassesForSummary Lt None None) (\<lambda>(targets, Lt').
           let H1 = set_loader c Lt' H in
           bindr (loader_at H1 a) (\<lambda>Lb.
           bindr (getClassesForComparison Lb targetFileId targets) (\<lambda>(diffClassMap, targets', Lb').
           let H2 = set_loader a Lb' (set_loader c (Lt'\<lparr>hl_allClasses := Some targets'\<rparr>) H1) in
           Inr (if diffClassMap = [] then [] else sort_key (\<lambda>x. - cd_addedSize (ci_data x)) (js_values diffClassMap), H2))))))
       | _ \<Rightarrow> Inr ([], H)))"

section \<open>Rows\<close>

definition getSamples :: "HeapDataInterface \<Rightarrow> int \<Rightarrow> HeapSample list result" where
  "getSamples H fileId =
     bindr (current_file H fileId) (\<lambda>f. Inr (case f of None \<Rightarrow> [] | Some a \<Rightarrow> ss_samples (fs_snapshotStruct (file_at H a))))"

definition getParentFunction :: "HeapDataInterface \<Rightarrow> AllocationFunction \<Rightarrow> AllocationFunction result" where
  "getParentFunction H node =
     bindr (current_file H (af_fileId (fn_data node))) (\<lambda>f.
       case f of None \<Rightarrow> Inr node | Some a \<Rightarrow> bindr (allocation_at H a) (\<lambda>A. getParent A node))"

text \<open>The children of a row and the row, which may keep them.\<close>

definition getNextForConstructor :: "HeapDataInterface \<Rightarrow> ConstructorItem \<Rightarrow> (ConstructorItem list \<times> ConstructorItem) result" where
  "getNextForConstructor H node =
     bindr (current_file H (cd_fileId (ci_data node))) (\<lambda>f.
       case cd_type (ci_data node) of
         Some ClassType \<Rightarrow> Inr (ci_classChildren node, node)
       | Some InstanceType \<Rightarrow> (case f of None \<Rightarrow> Inl TypeError | Some a \<Rightarrow> bindr (loader_at H a) (\<lambda>L. getNextNode L node))
       | Some FiledType \<Rightarrow> (case f of None \<Rightarrow> Inl TypeError | Some a \<Rightarrow> bindr (loader_at H a) (\<lambda>L. getNextNode L node))
       | _ \<Rightarrow> Inr ([], node))"

definition compare_row :: "bool \<Rightarrow> HeapLoader \<Rightarrow> int \<Rightarrow> ConstructorItem result" where
  "compare_row isAdd L idx =
     (if 0 \<le> idx \<and> nat idx < length (hl_nodes L)
      then (let node = hl_nodes L ! nat idx; x = HeapNodeToConstructorItem node in
            Inr (upd_data (\<lambda>d. let d1 = d\<lparr>cd_type := Some InstanceType, cd_isAdd := isAdd, cd_hasNext := hn_edgeCount node > 0\<rparr> in
              if isAdd then d1\<lparr>cd_addedSize := cd_shallowSize d\<rparr> else d1\<lparr>cd_removedSize := cd_shallowSize d\<rparr>) x))
      else Inl TypeError)"

definition getNextForComparison :: "HeapDataInterface \<Rightarrow> ConstructorItem \<Rightarrow> (ConstructorItem list \<times> ConstructorItem) result" where
  "getNextForComparison H node =
     bindr (current_file H (cd_fileId (ci_data node))) (\<lambda>b.
     bindr (getFileStructById H (cd_targetFileId (ci_data node))) (\<lambda>t.
       case (b, t) of
         (Some a, Some c) \<Rightarrow>
           if cd_type (ci_data node) = Some ComparisonType
           then bindr (traverse (\<lambda>i. bindr (loader_at H a) (\<lambda>L. compare_row True L i)) (cd_addedIndx (ci_data node))) (\<lambda>added.
                bindr (traverse (\<lambda>i. bindr (loader_at H c) (\<lambda>L. compare_row False L i)) (cd_deletedIdx (ci_data node))) (\<lambda>deleted.
                Inr (added @ deleted, node)))
           else getNextForConstructor H node
       | _ \<Rightarrow> Inr ([], node)))"

definition getRetainsFor :: "HeapDataInterface \<Rightarrow> ConstructorItem \<Rightarrow> ConstructorItem list result" where
  "getRetainsFor H x =
     bindr (current_file H (cd_fileId (ci_data x))) (\<lambda>f.
       case f of None \<Rightarrow> Inr [] | Some a \<Rightarrow> bindr (loader_at H a) (\<lambda>L. getRetains L x))"

definition getAllocationStackData :: "HeapDataInterface \<Rightarrow> ConstructorItem \<Rightarrow> HeapTraceFunctionInfo option list result" where
  "getAllocationStackData H node =
     bindr (current_file H (cd_fileId (ci_data node))) (\<lambda>f.
       case f of
         None \<Rightarrow> (if cd_type (ci_data node) = Some ClassType \<or> cd_type (ci_data node) = Some RetainersType then Inr [] else Inl TypeError)
       | Some a \<Rightarrow> bindr (allocation_at H a) (\<lambda>A. getNodeStack A (cd_traceNodeId (ci_data node))))"

definition getMinNodeId :: "HeapDataInterface \<Rightarrow> int \<Rightarrow> nat option result" where
  "getMinNodeId H fileId =
     bindr (current_file H fileId) (\<lambda>f.
       case f of None \<Rightarrow> Inr None
       | Some a \<Rightarrow> bindr (loader_at H a) (\<lambda>L. bindr (getMinAndMaxNodeId L) (\<lambda>(lo, _). Inr (Some lo))))"

definition getMaxNodeId :: "HeapDataInterface \<Rightarrow> int \<Rightarrow> nat option result" where
  "getMaxNodeId H fileId =
     bindr (current_file H fileId) (\<lambda>f.
       case f of None \<Rightarrow> Inr None
       | Some a \<Rightarrow> bindr (loader_at H a) (\<lambda>L. bindr (getMinAndMaxNodeId L) (\<lambda>(_, hi). Inr (Some hi))))"

section \<open>Expanding a row\<close>

definition item_getChildren :: "HeapDataInterface \<Rightarrow> ConstructorItem \<Rightarrow> (ConstructorItem list \<times> ConstructorItem) result" where
  "item_getChildren H x =
     (if \<not> cd_hasNext (ci_data x) then Inr ([], x)
      else (case cd_type (ci_data x) of
         Some RetainersType \<Rightarrow> bindr (getRetainsFor H x) (\<lambda>rows. Inr (rows, set_rows rows x))
       | Some ComparisonType \<Rightarrow> Inr (ci_children x, x)
       | None \<Rightarrow> Inr (ci_children x, x)
       | _ \<Rightarrow> bindr (getNextForConstructor H x) (\<lambda>(rows, x'). Inr (rows, set_rows rows x'))))"

definition comparison_getChildren :: "HeapDataInterface \<Rightarrow> ConstructorItem \<Rightarrow> (ConstructorItem list \<times> ConstructorItem) result" where
  "comparison_getChildren H x =
     (if cd_type (ci_data x) \<noteq> Some ComparisonType then item_getChildren H x
      else if \<not> cd_hasNext (ci_data x) then Inr ([], x)
      else bindr (getNextForComparison H x) (\<lambda>(rows, x'). Inr (rows, set_rows rows x')))"

definition function_getChildren :: "HeapDataInterface \<Rightarrow> AllocationFunction \<Rightarrow> (AllocationFunction list \<times> AllocationFunction) result" where
  "function_getChildren H node =
     (if \<not> af_hasParent (fn_data node) then Inr ([], node)
      else bindr (getParentFunction H node) (\<lambda>node'. Inr (fn_parents node', node')))"

section \<open>Loading and dropping files\<close>

fun parse_files :: "nat list \<Rightarrow> HeapDataInterface \<Rightarrow> HeapDataInterface \<times> js_error option" where
  "parse_files [] H = (H\<lparr>hd_isParseDone := True\<rparr>, None)"
| "parse_files (a # as) H =
     (case constructHeapLoader (file_at H a) of
        Inl e \<Rightarrow> (H, Some e)
      | Inr f \<Rightarrow> parse_files as (set_file a f H))"

definition parseData :: "HeapDataInterface \<Rightarrow> FileStruct list \<Rightarrow> HeapDataInterface \<times> js_error option" where
  "parseData H fileModule =
     (let n = length (hd_store H); as = [n..<n + length fileModule] in
      parse_files as (H\<lparr>hd_store := hd_store H @ fileModule, hd_fileStructs := Some as, hd_isParseDone := False\<rparr>))"

definition loadDatabase :: "HeapDb \<Rightarrow> HeapDataInterface \<Rightarrow> HeapDataInterface \<times> js_error option" where
  "loadDatabase db H = parseData H (loadFiles db)"

text \<open>The trace nodes and functions of the allocation logic are the arrays of the snapshot.\<close>

definition file_clear :: "FileStruct \<Rightarrow> FileStruct" where
  "file_clear f = f\<lparr>fs_snapshotStruct := snapshot_clear (fs_snapshotStruct f), fs_heapLoader := 
     map_option (\<lambda>(L, A). (clear L, A\<lparr>al_traceNodes := [], al_functionInfos := []\<rparr>)) (fs_heapLoader f)\<rparr>"

fun clear_files :: "nat list \<Rightarrow> HeapDataInterface \<Rightarrow> HeapDataInterface \<times> js_error option" where
  "clear_files [] H = (H\<lparr>hd_fileStructs := Some []\<rparr>, None)"
| "clear_files (a # as) H =
     (let H1 = set_file a (file_clear (file_at H a)) H in
      if fs_heapLoader (file_at H a) = None then (H1, Some TypeError) else clear_files as H1)"

definition clearData :: "HeapDataInterface \<Rightarrow> HeapDataInterface \<times> js_error option" where
  "clearData H = (case hd_fileStructs H of None \<Rightarrow> (H, None) | Some as \<Rightarrow> clear_files as H)"

section \<open>The states of the interface\<close>

inductive iface_step :: "HeapDataInterface \<Rightarrow> HeapDataInterface \<Rightarrow> bool" where
  parse: "parseData H fileModule = (H', e) \<Longrightarrow> iface_step H H'"
| clear: "clearData H = (H', e) \<Longrightarrow> iface_step H H'"
| set_id: "setFileId H i = Inr H' \<Longrightarrow> iface_step H H'"
| summary: "getClassesListForSummary H i lo hi = Inr (rows, H') \<Longrightarrow> iface_step H H'"
| comparison: "getClassListForComparison H b t = Inr (rows, H') \<Longrightarrow> iface_step H H'"

inductive_cases iface_stepE: "iface_step H H'"

abbreviation iface_reachable :: "HeapDataInterface \<Rightarrow> bool" where
  "iface_reachable H \<equiv> iface_step\<^sup>*\<^sup>* newInterface H"

definition loaded :: "HeapDataInterface \<Rightarrow> nat set" where
  "loaded H = {a. a < length (hd_store H) \<and> fs_heapLoader (file_at H a) \<noteq> None}"

definition iface_ok :: "HeapDataInterface \<Rightarrow> bool" where
  "iface_ok H \<longleftrightarrow> set_option (hd_baseFileStruct H) \<subseteq> {..<length (hd_store H)}
     \<and> (\<forall>as. hd_fileStructs H = Some as \<longrightarrow> distinct as \<and> set as \<subseteq> {..<length (hd_store H)}
          \<and> (hd_isParseDone H \<longrightarrow> set as \<subseteq> loaded H))"

lemma loaded_same: "(fs_heapLoader f = None) = (fs_heapLoader (file_at H a) = None) \<Longrightarrow> loaded (set_file a f H) = loaded H"
  by (auto simp: loaded_def set_file_def nth_update_if simp del: not_None_eq)

text \<open>What an update of a loader keeps.\<close>

lemma set_loader_keeps [simp]:
  "hd_isParseDone (set_loader a L H) = hd_isParseDone H" "hd_fileStructs (set_loader a L H) = hd_fileStructs H"
  "hd_baseFileStruct (set_loader a L H) = hd_baseFileStruct H" "length (hd_store (set_loader a L H)) = length (hd_store H)"
  "loaded (set_loader a L H) = loaded H"
  by (simp_all add: set_loader_def loaded_same) (simp_all add: set_file_def)

lemma iface_ok_set_loader [simp]: "iface_ok (set_loader a L H) = iface_ok H"
  by (simp add: iface_ok_def)

lemma constructHeapLoader_loads: "constructHeapLoader f = Inr f' \<Longrightarrow> fs_heapLoader f' \<noteq> None"
  by (auto simp: constructHeapLoader_def Let_def bindr_eq_Inr_iff)

lemma parse_files_effect:
  assumes "parse_files as H = (H', e)" "set as \<subseteq> {..<length (hd_store H)}"
  shows "length (hd_store H') = length (hd_store H) \<and> hd_fileStructs H' = hd_fileStructs H \<and> hd_baseFileStruct H' = hd_baseFileStruct H
    \<and> loaded H \<subseteq> loaded H' \<and> (e = None \<longrightarrow> set as \<subseteq> loaded H') \<and> hd_isParseDone H' = (hd_isParseDone H \<or> e = None)"
  using assms
proof (induction as arbitrary: H)
  case (Cons a as)
  show ?case
  proof (cases "constructHeapLoader (file_at H a)")
    case (Inr f)
    then have "loaded (set_file a f H) = insert a (loaded H)"
      using constructHeapLoader_loads [OF Inr] Cons.prems(2) by (auto simp: loaded_def set_file_def nth_list_update)
    then show ?thesis using Cons.IH [of "set_file a f H"] Cons.prems Inr by (auto simp: set_file_def)
  qed (use Cons.prems in auto)
qed (auto simp: loaded_def)

lemma clear_files_effect:
  assumes "clear_files as H = (H', e)" "set as \<subseteq> {..<length (hd_store H)}"
  shows "length (hd_store H') = length (hd_store H) \<and> hd_baseFileStruct H' = hd_baseFileStruct H
    \<and> hd_isParseDone H' = hd_isParseDone H \<and> loaded H' = loaded H
    \<and> (hd_fileStructs H' = Some [] \<or> hd_fileStructs H' = hd_fileStructs H)"
  using assms
proof (induction as arbitrary: H)
  case (Cons a as)
  have "loaded (set_file a (file_clear (file_at H a)) H) = loaded H"
    by (rule loaded_same) (simp add: file_clear_def)
  then show ?case
    using Cons.IH [of "set_file a (file_clear (file_at H a)) H"] Cons.prems by (auto simp: Let_def set_file_def split: if_splits)
qed (auto simp: loaded_def)

lemma getFileStructById_in:
  "getFileStructById H i = Inr (Some a) \<Longrightarrow> \<exists>as. hd_fileStructs H = Some as \<and> a \<in> set as \<and> fs_id (file_at H a) = i"
  by (auto simp: getFileStructById_def find_Some_iff split: option.splits)

lemma iface_ok_parse:
  assumes "iface_ok H" "parseData H fileModule = (H', e)"
  shows "iface_ok H'"
proof -
  let ?n = "length (hd_store H)"
  let ?H = "H\<lparr>hd_store := hd_store H @ fileModule, hd_fileStructs := Some [?n..<?n + length fileModule], hd_isParseDone := False\<rparr>"
  have "parse_files [?n..<?n + length fileModule] ?H = (H', e)" using assms(2) by (simp add: parseData_def Let_def)
  moreover have "set [?n..<?n + length fileModule] \<subseteq> {..<length (hd_store ?H)}" by auto
  ultimately have "length (hd_store H') = length (hd_store ?H) \<and> hd_fileStructs H' = hd_fileStructs ?H \<and> hd_baseFileStruct H' = hd_baseFileStruct ?H
      \<and> (e = None \<longrightarrow> set [?n..<?n + length fileModule] \<subseteq> loaded H') \<and> hd_isParseDone H' = (hd_isParseDone ?H \<or> e = None)"
    using parse_files_effect by blast
  then show ?thesis using assms(1) by (auto simp: iface_ok_def)
qed

lemma iface_ok_clear:
  assumes "iface_ok H" "clearData H = (H', e)"
  shows "iface_ok H'"
proof (cases "hd_fileStructs H")
  case (Some as)
  then have "clear_files as H = (H', e)" "set as \<subseteq> {..<length (hd_store H)}" using assms by (auto simp: clearData_def iface_ok_def)
  from clear_files_effect [OF this] show ?thesis using assms(1) by (auto simp: iface_ok_def)
qed (use assms in \<open>simp add: clearData_def\<close>)

lemma iface_ok_set_id:
  assumes "iface_ok H" "setFileId H i = Inr H'"
  shows "iface_ok H'"
proof -
  obtain r where r: "getFileStructById H i = Inr r" "H' = H\<lparr>hd_baseFileStruct := r\<rparr>" using assms(2) by (auto simp: setFileId_def bindr_eq_Inr_iff)
  have "set_option r \<subseteq> {..<length (hd_store H)}"
    using assms(1) getFileStructById_in [of H i] r(1) by (cases r) (auto simp: iface_ok_def)
  then show ?thesis using assms(1) by (simp add: r(2) iface_ok_def loaded_def)
qed

lemma iface_ok_summary: "iface_ok H \<Longrightarrow> getClassesListForSummary H i lo hi = Inr (rows, H') \<Longrightarrow> iface_ok H'"
  by (auto simp: getClassesListForSummary_def bindr_eq_Inr_iff split: option.splits if_splits)

lemma iface_ok_comparison:
  assumes "iface_ok H" "getClassListForComparison H b t = Inr (rows, H')"
  shows "iface_ok H'"
proof -
  obtain f g where "current_file H b = Inr f" "getFileStructById H t = Inr g"
    using assms(2) by (auto simp: getClassListForComparison_def bindr_eq_Inr_iff)
  then show ?thesis
    using assms by (cases f; cases g) (auto simp: getClassListForComparison_def Let_def bindr_eq_Inr_iff split: if_splits)
qed

lemma iface_reachable_ok: "iface_reachable H \<Longrightarrow> iface_ok H"
proof (induction rule: rtranclp_induct)
  case base
  show ?case by (simp add: iface_ok_def newInterface_def)
next
  case (step H H')
  then show ?case
    by (auto elim!: iface_stepE intro: iface_ok_parse iface_ok_clear iface_ok_set_id iface_ok_summary iface_ok_comparison)
qed

text \<open>In every state that the operations can reach, the files are distinct objects, and once parsing is
  done every listed file has its loader: looking up a file by its id never leads to a file that is not
  analysed.\<close>

theorem iface_files_loaded:
  assumes "iface_reachable H" "hd_isParseDone H" "getFileStructById H i = Inr (Some a)"
  shows "\<exists>L A. fs_heapLoader (file_at H a) = Some (L, A) \<and> loader_at H a = Inr L \<and> allocation_at H a = Inr A \<and> fs_id (file_at H a) = i"
proof -
  obtain as where "hd_fileStructs H = Some as" "a \<in> set as" "fs_id (file_at H a) = i" using getFileStructById_in [OF assms(3)] by blast
  moreover from this have "a \<in> loaded H" using iface_reachable_ok [OF assms(1)] assms(2) by (auto simp: iface_ok_def)
  ultimately show ?thesis by (auto simp: loaded_def loader_at_def allocation_at_def)
qed

section \<open>The class list\<close>

lemma file_at_set_loader:
  "file_at (set_loader a L H) b = (if a = b \<and> a < length (hd_store H) then fs_heapLoader_update (map_option (\<lambda>(_, A). (L, A))) (file_at H a) else file_at H b)"
  by (simp add: set_loader_def set_file_def nth_update_if)

lemma current_file_set_loader [simp]: "current_file (set_loader a L H) i = current_file H i"
proof -
  have "fs_id (file_at (set_loader a L H) b) = fs_id (file_at H b)" for b by (simp add: file_at_set_loader)
  then show ?thesis by (simp add: current_file_def getFileStructById_def split: option.split)
qed

lemma set_loader_twice: "set_loader a L (set_loader a L H) = set_loader a L H"
  by (cases "a < length (hd_store H)")
    (simp_all add: set_loader_def set_file_def comp_def option.map_comp case_prod_unfold list_update_beyond)

lemma distinct_sort_map: "distinct (map f (sort_key k xs)) = distinct (map f xs)"
  by (rule mset_eq_imp_distinct_iff) simp

text \<open>The summary of an analysed file lists every class of its counted objects exactly once, the class
  that retains most first; asking again gives the same list from the loader's cache.\<close>

theorem getClassesListForSummary_rows:
  assumes "hd_isParseDone H" "current_file H i = Inr (Some a)" "a < length (hd_store H)" "fs_heapLoader (file_at H a) = Some (L, A)"
    and "wf_loader L" "dominated_ok L" "hl_allClasses L = None"
  shows "\<exists>rows H'. getClassesListForSummary H i None None = Inr (rows, H')
    \<and> sorted (map (\<lambda>x. - cd_retainedSize (ci_data x)) rows) \<and> distinct (map (\<lambda>x. cd_nodeName (ci_data x)) rows)
    \<and> (\<lambda>x. cd_nodeName (ci_data x)) ` set rows = className ` {n \<in> set (hl_nodes L). counted None None n}
    \<and> getClassesListForSummary H' i None None = Inr (rows, H')"
proof -
  obtain classes L' where c: "getClassesForSummary L None None = Inr (classes, L')" "js_map_ok classes"
    "fst ` set classes = className ` {n \<in> set (hl_nodes L). counted None None n}"
    "\<forall>(c, x)\<in>set classes. class_row L None None c x" "hl_allClasses L' = Some classes"
    using getClassesForSummary_total [OF assms(5,6), of None None] assms(7) by (auto simp: hasFiler_def)
  let ?rows = "sort_key (\<lambda>x. - cd_retainedSize (ci_data x)) (js_values classes)" and ?H = "set_loader a L' H"
  have run: "getClassesListForSummary H i None None = Inr (?rows, ?H)"
    using assms c(1) by (simp add: getClassesListForSummary_def loader_at_def)
  have "getClassesForSummary L' None None = Inr (classes, L')" using c(5) by (simp add: getClassesForSummary_def hasFiler_def)
  then have again: "getClassesListForSummary ?H i None None = Inr (?rows, ?H)"
    using assms by (simp add: getClassesListForSummary_def loader_at_def file_at_set_loader set_loader_twice)
  have "map (\<lambda>x. cd_nodeName (ci_data x)) (js_values classes) = map fst classes"
    using c(4) by (auto simp: js_values_def class_row_def Let_def)
  note names = this
  have d: "distinct (map (\<lambda>x. cd_nodeName (ci_data x)) ?rows)"
    unfolding distinct_sort_map names using c(2) by (simp add: js_map_ok_def)
  have n: "(\<lambda>x. cd_nodeName (ci_data x)) ` set ?rows = className ` {n \<in> set (hl_nodes L). counted None None n}"
    using arg_cong [OF names, of set] by (simp only: set_sort list.set_map c(3))
  show ?thesis
    by (intro exI [of _ ?rows] exI [of _ ?H] conjI run again d n sorted_sort_key)
qed

section \<open>Dropping the files\<close>

definition emptied :: "FileStruct \<Rightarrow> bool" where
  "emptied f \<longleftrightarrow> (\<exists>L A. fs_heapLoader f = Some (L, A) \<and> hl_nodes L = [] \<and> hl_edges L = [] \<and> al_traceNodes A = [])
     \<and> ss_nodeMap (fs_snapshotStruct f) = [] \<and> ss_edges (fs_snapshotStruct f) = []"

lemma clear_files_emptied:
  assumes "distinct as" "set as \<subseteq> loaded H"
  shows "\<exists>H'. clear_files as H = (H', None) \<and> hd_fileStructs H' = Some [] \<and> hd_baseFileStruct H' = hd_baseFileStruct H
    \<and> hd_isParseDone H' = hd_isParseDone H \<and> (\<forall>a\<in>set as. emptied (file_at H' a)) \<and> (\<forall>a. a \<notin> set as \<longrightarrow> file_at H' a = file_at H a)"
  using assms
proof (induction as arbitrary: H)
  case (Cons a as)
  let ?f = "file_clear (file_at H a)" let ?H = "set_file a ?f H"
  have a: "a < length (hd_store H)" "fs_heapLoader (file_at H a) \<noteq> None" using Cons.prems(2) by (auto simp: loaded_def)
  have "loaded ?H = loaded H" by (rule loaded_same) (simp add: file_clear_def)
  then obtain H' where H': "clear_files as ?H = (H', None)" "hd_fileStructs H' = Some []" "hd_baseFileStruct H' = hd_baseFileStruct ?H"
    "hd_isParseDone H' = hd_isParseDone ?H" "\<forall>b\<in>set as. emptied (file_at H' b)" "\<forall>b. b \<notin> set as \<longrightarrow> file_at H' b = file_at ?H b"
    using Cons.IH [of ?H] Cons.prems by auto
  have "file_at ?H a = ?f" using a(1) by (simp add: set_file_def)
  moreover have "emptied ?f" using a(2) by (auto simp: emptied_def file_clear_def clear_def snapshot_clear_def)
  ultimately show ?case
    using H' a(2) Cons.prems(1) by (intro exI [of _ H']) (auto simp: Let_def set_file_def)
qed simp

text \<open>Dropping the data of a parsed database succeeds, empties the tables of every listed file and the
  list. The current file is not reset: once it was set, a database loaded later is still answered from the
  emptied file of the old one.\<close>

theorem clearData_keeps_base:
  assumes "iface_reachable H" "hd_isParseDone H" "hd_fileStructs H = Some as"
  shows "\<exists>H'. clearData H = (H', None) \<and> hd_fileStructs H' = Some [] \<and> (\<forall>a\<in>set as. emptied (file_at H' a))
    \<and> (\<forall>a fileModule H'' e i. hd_baseFileStruct H = Some a \<longrightarrow> parseData H' fileModule = (H'', e) \<longrightarrow> current_file H'' i = Inr (Some a))"
proof -
  have "distinct as" "set as \<subseteq> loaded H" using iface_reachable_ok [OF assms(1)] assms(2,3) by (auto simp: iface_ok_def)
  from clear_files_emptied [OF this] obtain H' where H': "clear_files as H = (H', None)" "hd_fileStructs H' = Some []"
    "hd_baseFileStruct H' = hd_baseFileStruct H" "\<forall>a\<in>set as. emptied (file_at H' a)" by blast
  have "hd_baseFileStruct H'' = hd_baseFileStruct H" if p: "parseData H' fileModule = (H'', e)" for fileModule H'' e
  proof -
    let ?n = "length (hd_store H')"
    let ?G = "H'\<lparr>hd_store := hd_store H' @ fileModule, hd_fileStructs := Some [?n..<?n + length fileModule], hd_isParseDone := False\<rparr>"
    have sub: "set [?n..<?n + length fileModule] \<subseteq> {..<length (hd_store ?G)}" by auto
    have run: "parse_files [?n..<?n + length fileModule] ?G = (H'', e)" using p by (simp add: parseData_def Let_def)
    have "hd_baseFileStruct H'' = hd_baseFileStruct ?G" using parse_files_effect [OF run sub] by blast
    then show ?thesis using H'(3) by simp
  qed
  then show ?thesis using H' assms(3) by (auto simp: clearData_def current_file_def)
qed

section \<open>Concrete instances\<close>

text \<open>A file that announces a node and has none is accepted without an analysis.\<close>

definition demo_empty :: FileStruct where
  "demo_empty = demo_file\<lparr>fs_snapshotStruct := newSnapshotStruct\<lparr>ss_nodeCount := Some 1, ss_edgeCount := Some 0\<rparr>\<rparr>"

definition demo_iface :: HeapDataInterface where
  "demo_iface = fst (parseData newInterface [demo_empty])"

lemma demo_construct: "\<exists>f. constructHeapLoader demo_empty = Inr f \<and> fs_id f = 0 \<and> fs_heapLoader f \<noteq> None"
  by (simp add: constructHeapLoader_def Let_def demo_empty_def new_loader_def newHeapLoader_def newSnapshotStruct_def js_values_def
      sort_nodes_def preprocess_def demo_file_fields)

lemma demo_iface_facts:
  "iface_reachable demo_iface" "hd_isParseDone demo_iface" "hd_fileStructs demo_iface = Some [0]" "getFileStructById demo_iface 0 = Inr (Some 0)"
  "hd_baseFileStruct demo_iface = None"
proof -
  obtain f where f: "constructHeapLoader demo_empty = Inr f" "fs_id f = 0" using demo_construct by blast
  have run: "parseData newInterface [demo_empty] = (demo_iface, snd (parseData newInterface [demo_empty]))" by (simp add: demo_iface_def)
  show "iface_reachable demo_iface" using iface_step.parse [OF run] by (rule r_into_rtranclp)
  have "parse_files [0..<1] (newInterface\<lparr>hd_store := [demo_empty], hd_fileStructs := Some [0..<1], hd_isParseDone := False\<rparr>)
      = (newInterface\<lparr>hd_store := [f], hd_fileStructs := Some [0], hd_isParseDone := True\<rparr>, None)"
    using f(1) by (simp add: set_file_def upt_rec)
  then have i: "demo_iface = newInterface\<lparr>hd_store := [f], hd_fileStructs := Some [0], hd_isParseDone := True\<rparr>"
    by (simp add: demo_iface_def parseData_def newInterface_def Let_def)
  show "hd_isParseDone demo_iface" "hd_fileStructs demo_iface = Some [0]" "getFileStructById demo_iface 0 = Inr (Some 0)"
    "hd_baseFileStruct demo_iface = None"
    by (simp_all add: i getFileStructById_def f(2) newInterface_def)
qed

theorem iface_files_loaded_witness: "\<exists>L. loader_at demo_iface 0 = Inr L"
  using iface_files_loaded [OF demo_iface_facts(1,2,4)] by blast

theorem clearData_keeps_base_witness: "\<exists>H. clearData demo_iface = (H, None) \<and> emptied (file_at H 0)"
  using clearData_keeps_base [OF demo_iface_facts(1,2,3)] by auto

theorem getClassesListForSummary_rows_witness:
  "\<exists>rows H. getClassesListForSummary (newInterface\<lparr>hd_isParseDone := True, hd_baseFileStruct := Some 0,
      hd_store := [demo_empty\<lparr>fs_heapLoader := Some (demo_dominated, newAllocationLogic [] [])\<rparr>]\<rparr>) 0 None None = Inr (rows, H)
     \<and> (\<lambda>x. cd_nodeName (ci_data x)) ` set rows = {js ''A'', js ''B''}"
proof -
  let ?H = "newInterface\<lparr>hd_isParseDone := True, hd_baseFileStruct := Some 0,
      hd_store := [demo_empty\<lparr>fs_heapLoader := Some (demo_dominated, newAllocationLogic [] [])\<rparr>]\<rparr>"
  have "hl_allClasses demo_dominated = None" by (simp add: demo_dominated_def demo_loader_def)
  from getClassesListForSummary_rows [of ?H 0 0 demo_dominated "newAllocationLogic [] []", OF _ _ _ _ demo_dominated_ok this]
  show ?thesis by (auto simp: current_file_def demo_dominated_classes)
qed

end
