(* ===== verification/Profiler_Chart.thy ===== *)
theory Profiler_Chart
  imports JS_Map Call_Depth
begin

text \<open>
  The ArkTS CPU profiler: from samples to the chart
  (\<open>trace/database/logic-worker/ProcedureLogicWorkerJsCpuProfiler.ts\<close>, the symbols of
  \<open>ProcedureLogicWorkerCommon.ts\<close> and the frames of \<open>trace/bean/JsStruct.ts\<close>).

  The rows of the database are plain objects, so a depth that was never set is \<open>undefined\<close> and one more than
  that is \<open>NaN\<close>; both are \<open>None\<close> here, since the code only compares a depth with a number. A frame of the
  chart is a tree; the code extends the last frame of each level in place.
\<close>

section \<open>Data\<close>

datatype SampleType = S_OTHER | S_NAPI | S_ARKUI_ENGINE | S_BUILTIN | S_GC | S_AINT | S_CINT | S_AOT | S_RUNTIME

record JsProfilerSymbol =
  sy_id :: int
  sy_nameId :: int
  sy_name :: jsstring
  sy_urlId :: int
  sy_url :: jsstring
  sy_line :: int
  sy_column :: int
  sy_children :: "int list"
  sy_parentId :: int
  sy_depth :: "int option"

record JsCpuProfilerSample =
  sm_id :: int
  sm_functionId :: int
  sm_startTime :: int
  sm_endTime :: int
  sm_dur :: int
  sm_type :: "SampleType option"
  sm_stack :: "JsProfilerSymbol list option"

record ChartData =
  cf_id :: int
  cf_parentId :: int
  cf_name :: jsstring
  cf_depth :: "int option"
  cf_selfTime :: int
  cf_totalTime :: int
  cf_url :: jsstring
  cf_scriptName :: jsstring
  cf_line :: int
  cf_column :: int
  cf_startTime :: int
  cf_endTime :: int
  cf_samplesIds :: "int list"
  cf_isSelect :: bool

datatype ChartFrame = ChartFrame (cf_data: ChartData) (cf_children: "ChartFrame list")

text \<open>The last component of a path: \<open>url.split('/').pop()\<close>.\<close>

definition scriptName :: "jsstring \<Rightarrow> jsstring" where
  "scriptName url = rev (takeWhile (\<lambda>c. c \<noteq> of_char (CHR ''/'')) (rev url))"

definition newChartFrame ::
  "int \<Rightarrow> jsstring \<Rightarrow> int \<Rightarrow> int \<Rightarrow> int \<Rightarrow> int option \<Rightarrow> jsstring \<Rightarrow> int \<Rightarrow> int \<Rightarrow> ChartData" where
  "newChartFrame i nm startTime endTime totalTime depth url line column =
     \<lparr>cf_id = i, cf_parentId = - 1, cf_name = nm, cf_depth = depth, cf_selfTime = 0, cf_totalTime = totalTime, cf_url = url,
      cf_scriptName = scriptName url,      cf_line = line, cf_column = column, cf_startTime = startTime, cf_endTime = endTime, cf_samplesIds = [], cf_isSelect = False\<rparr>"

definition ROOT_ID :: int where "ROOT_ID = 1"

definition LAMBDA_FUNCTION_NAME :: jsstring where "LAMBDA_FUNCTION_NAME = js ''(anonymous)''"

section \<open>The call chain\<close>

type_synonym symbol_map = "int \<Rightarrow> JsProfilerSymbol option"

text \<open>\<open>dict.get(i) || d\<close>: a missing or empty string gives the default.\<close>

definition dict_or :: "(int \<Rightarrow> jsstring option) \<Rightarrow> int \<Rightarrow> jsstring \<Rightarrow> jsstring" where
  "dict_or dict i d = (case dict i of None \<Rightarrow> d | Some s \<Rightarrow> if s = [] then d else s)"

text \<open>The item is in the map before its parent is looked up, so an item can be its own parent.\<close>

definition chain_item :: "(int \<Rightarrow> jsstring option) \<Rightarrow> JsProfilerSymbol \<Rightarrow> symbol_map \<Rightarrow> symbol_map" where
  "chain_item dataDict item m =
     (let item1 = item\<lparr>sy_depth := (if sy_id item = ROOT_ID then Some (- 1) else sy_depth item),
            sy_name := dict_or dataDict (sy_nameId item) LAMBDA_FUNCTION_NAME, sy_url := dict_or dataDict (sy_urlId item) (js ''unknown'')\<rparr>;
          m1 = m(sy_id item \<mapsto> item1) in
      if sy_parentId item > 0
      then (case m1 (sy_parentId item) of
              None \<Rightarrow> m1
            | Some parentSymbol \<Rightarrow>
                (let m2 = m1(sy_parentId item \<mapsto> parentSymbol\<lparr>sy_children := sy_children parentSymbol @ [sy_id item]\<rparr>);
                     item2 = the (m2 (sy_id item))
                 in m2(sy_id item \<mapsto> item2\<lparr>sy_depth := map_option (\<lambda>d. d + 1) (sy_depth parentSymbol)\<rparr>)))
      else m1)"

definition createCallChain :: "(int \<Rightarrow> jsstring option) \<Rightarrow> JsProfilerSymbol list \<Rightarrow> symbol_map \<Rightarrow> symbol_map" where
  "createCallChain dataDict jsCallChain m = fold (chain_item dataDict) jsCallChain m"

text \<open>The loop follows the parents; with a bound on the number of symbols it runs out exactly on a cycle,
  where the code pushes for ever.\<close>

fun parents_above :: "nat \<Rightarrow> symbol_map \<Rightarrow> JsProfilerSymbol \<Rightarrow> JsProfilerSymbol list result" where
  "parents_above 0 m node = Inl Blocked"
| "parents_above (Suc fuel) m node =
     (if sy_parentId node \<noteq> 0
      then (case m (sy_parentId node) of
              None \<Rightarrow> Inr []
            | Some parent \<Rightarrow>
                if sy_id parent \<le> ROOT_ID then Inr []
                else bindr (parents_above fuel m parent) (\<lambda>ps. Inr (parent # ps)))
      else Inr [])"

definition getFullCallChainOfNode :: "nat \<Rightarrow> symbol_map \<Rightarrow> JsProfilerSymbol \<Rightarrow> JsProfilerSymbol list result" where
  "getFullCallChainOfNode fuel m node = bindr (parents_above fuel m node) (\<lambda>ps. Inr (rev (node # ps)))"

section \<open>Frames\<close>

definition symbolToChartFrame :: "int \<Rightarrow> JsCpuProfilerSample \<Rightarrow> JsProfilerSymbol \<Rightarrow> ChartData" where
  "symbolToChartFrame chartId sample symbol =
     (newChartFrame chartId (if sy_name symbol = [] then LAMBDA_FUNCTION_NAME else sy_name symbol) (sm_startTime sample) (sm_endTime sample)
        (sm_dur sample) (sy_depth symbol) (sy_url symbol) (sy_line symbol) (sy_column symbol))\<lparr>cf_samplesIds := [sm_id sample]\<rparr>"

definition isSymbolEqual :: "JsProfilerSymbol \<Rightarrow> ChartData \<Rightarrow> bool" where
  "isSymbolEqual symbol uiData \<longleftrightarrow> sy_name symbol = cf_name uiData \<and> sy_url symbol = cf_url uiData"

text \<open>A new branch: one frame below the other, the last one with the time of the sample.\<close>

fun new_branch :: "JsCpuProfilerSample \<Rightarrow> int \<Rightarrow> JsProfilerSymbol list \<Rightarrow> int \<Rightarrow> ChartFrame list \<times> int" where
  "new_branch sample parentId [] chartId = ([], chartId)"
| "new_branch sample parentId (symbol # stack) chartId =
     (let d = (symbolToChartFrame chartId sample symbol)\<lparr>cf_parentId := parentId\<rparr>;
          d1 = (if stack = [] then d\<lparr>cf_selfTime := cf_selfTime d + sm_dur sample\<rparr> else d);
          (kids, chartId') = new_branch sample chartId stack (chartId + 1)
      in ([ChartFrame d1 kids], chartId'))"

declare new_branch.simps [simp del]

definition createNewChartFrame :: "JsCpuProfilerSample \<Rightarrow> JsProfilerSymbol list \<Rightarrow> ChartFrame list \<Rightarrow> int \<Rightarrow> ChartFrame list \<times> int" where
  "createNewChartFrame sample stack combineSample chartId =
     (let (frames, chartId') = new_branch sample (- 1) stack chartId in (combineSample @ frames, chartId'))"

definition frame_matches :: "JsCpuProfilerSample \<Rightarrow> nat \<Rightarrow> JsProfilerSymbol \<Rightarrow> ChartData \<Rightarrow> bool" where
  "frame_matches sample idx symbol d \<longleftrightarrow> isSymbolEqual symbol d \<and> cf_depth d = Some (int idx) \<and> cf_endTime d = sm_startTime sample"

text \<open>The frame matches the symbol at position \<open>idx\<close>; \<open>stack\<close> holds the symbols above it. The next symbol is
  compared with the last child; a frame without children is compared again itself, and its depth differs.\<close>

fun extend_frame :: "JsCpuProfilerSample \<Rightarrow> nat \<Rightarrow> JsProfilerSymbol list \<Rightarrow> ChartFrame \<Rightarrow> int \<Rightarrow> ChartFrame \<times> int" where
  "extend_frame sample idx stack (ChartFrame d kids) chartId =
     (let d1 = d\<lparr>cf_endTime := sm_endTime sample, cf_totalTime := sm_endTime sample - cf_startTime d,
            cf_samplesIds := cf_samplesIds d @ [sm_id sample]\<rparr> in
      case stack of
        [] \<Rightarrow> (ChartFrame (d1\<lparr>cf_selfTime := cf_selfTime d1 + sm_dur sample\<rparr>) kids, chartId)
      | symbol # stack' \<Rightarrow>
          if kids \<noteq> [] \<and> frame_matches sample (idx + 1) symbol (cf_data (last kids))
          then (let (kid, chartId') = extend_frame sample (idx + 1) stack' (last kids) chartId in (ChartFrame d1 (butlast kids @ [kid]), chartId'))
          else (let (branch, chartId') = new_branch sample (cf_id d) stack chartId in (ChartFrame d1 (kids @ branch), chartId')))"

text \<open>A bottom symbol that matches the last tree by name and time but not by depth has no frame to be pushed to.\<close>

definition combineCallChain :: "JsCpuProfilerSample \<Rightarrow> JsProfilerSymbol list \<Rightarrow> ChartFrame \<Rightarrow> int \<Rightarrow> (ChartFrame \<times> int) result" where
  "combineCallChain sample stack lastCallTree chartId =
     (case stack of
        [] \<Rightarrow> Inr (lastCallTree, chartId)
      | symbol # stack' \<Rightarrow>
          if frame_matches sample 0 symbol (cf_data lastCallTree) then Inr (extend_frame sample 0 stack' lastCallTree chartId)
          else Inl TypeError)"

section \<open>The type of a sample\<close>

definition lastIndexOf :: "cunit \<Rightarrow> jsstring \<Rightarrow> int" where
  "lastIndexOf c s = (if c \<in> set s then int (length s) - 1 - int (length (takeWhile (\<lambda>d. d \<noteq> c) (rev s))) else - 1)"

text \<open>\<open>substring\<close> clamps both arguments and swaps them when they are in the wrong order.\<close>

definition js_substring :: "jsstring \<Rightarrow> int \<Rightarrow> int \<Rightarrow> jsstring" where
  "js_substring s a b =
     (let n = int (length s); a1 = max 0 (min a n); b1 = max 0 (min b n); lo = min a1 b1; hi = max a1 b1
      in take (nat (hi - lo)) (drop (nat lo) s))"

definition type_names :: "(jsstring \<times> SampleType) list" where
  "type_names = [(js ''NAPI'', S_NAPI), (js ''ARKUI_ENGINE'', S_ARKUI_ENGINE), (js ''BUILTIN'', S_BUILTIN), (js ''GC'', S_GC),
     (js ''AINT'', S_AINT), (js ''CINT'', S_CINT), (js ''AOT'', S_AOT), (js ''RUNTIME'', S_RUNTIME)]"

definition sample_type :: "jsstring \<Rightarrow> SampleType option \<Rightarrow> SampleType option" where
  "sample_type nm old =
     (if nm = [] then old
      else (case map_of type_names (js_substring nm (lastIndexOf (of_char (CHR ''('')) nm + 1) (lastIndexOf (of_char (CHR '')'')) nm)) of
              Some t \<Rightarrow> Some t
            | None \<Rightarrow> if nm \<noteq> js ''(program)'' then Some S_OTHER else old))"

section \<open>Combining the samples\<close>

record ChartState =
  ch_frames :: "ChartFrame list"
  ch_chartId :: int
  ch_samples :: "JsCpuProfilerSample list"

text \<open>One sample; \<open>fuel\<close> bounds its call chain.\<close>

definition combine_sample :: "nat \<Rightarrow> symbol_map \<Rightarrow> JsCpuProfilerSample \<Rightarrow> ChartState \<Rightarrow> ChartState result" where
  "combine_sample fuel m sample s =
     (case m (sm_functionId sample) of
        None \<Rightarrow> Inr (s\<lparr>ch_samples := ch_samples s @ [sample]\<rparr>)
      | Some topSymbol \<Rightarrow>
          if sy_id topSymbol = ROOT_ID then Inr (s\<lparr>ch_samples := ch_samples s @ [sample\<lparr>sm_type := Some S_OTHER\<rparr>]\<rparr>)
          else bindr (getFullCallChainOfNode fuel m topSymbol) (\<lambda>stack.
            let sample1 = sample\<lparr>sm_type := sample_type (sy_name topSymbol) (sm_type sample), sm_stack := Some stack\<rparr>;
                s1 = s\<lparr>ch_samples := ch_samples s @ [sample1]\<rparr>;
                fresh = (let (frames, chartId) = createNewChartFrame sample1 stack (ch_frames s) (ch_chartId s)
                         in s1\<lparr>ch_frames := frames, ch_chartId := chartId\<rparr>)
            in if ch_frames s = [] then Inr fresh
               else (let lastCallChart = last (ch_frames s) in
                 if isSymbolEqual (hd stack) (cf_data lastCallChart) \<and> cf_endTime (cf_data lastCallChart) = sm_startTime sample
                 then bindr (combineCallChain sample1 stack lastCallChart (ch_chartId s)) (\<lambda>(f, chartId).
                      Inr (s1\<lparr>ch_frames := butlast (ch_frames s) @ [f], ch_chartId := chartId\<rparr>))
                 else Inr fresh)))"

fun combine_samples :: "nat \<Rightarrow> symbol_map \<Rightarrow> JsCpuProfilerSample list \<Rightarrow> ChartState \<Rightarrow> ChartState result" where
  "combine_samples fuel m [] s = Inr s"
| "combine_samples fuel m (x # xs) s = bindr (combine_sample fuel m x s) (combine_samples fuel m xs)"

definition combineChartData :: "nat \<Rightarrow> symbol_map \<Rightarrow> JsCpuProfilerSample list \<Rightarrow> int \<Rightarrow> ChartState result" where
  "combineChartData fuel m samples chartId = combine_samples fuel m samples \<lparr>ch_frames = [], ch_chartId = chartId, ch_samples = []\<rparr>"

section \<open>Times of a chart\<close>

text \<open>The own times of a frame and everything below it.\<close>

fun self_sum :: "ChartFrame \<Rightarrow> int" where
  "self_sum (ChartFrame d kids) = cf_selfTime d + sum_list (map self_sum kids)"

text \<open>The time of a frame is the length of its interval, and its own time plus the times of its children.\<close>

fun balanced :: "ChartFrame \<Rightarrow> bool" where
  "balanced (ChartFrame d kids) \<longleftrightarrow> cf_totalTime d = cf_endTime d - cf_startTime d
     \<and> cf_totalTime d = cf_selfTime d + sum_list (map (\<lambda>k. cf_totalTime (cf_data k)) kids) \<and> (\<forall>k\<in>set kids. balanced k)"

definition sample_ok :: "JsCpuProfilerSample \<Rightarrow> bool" where
  "sample_ok x \<longleftrightarrow> sm_dur x = sm_endTime x - sm_startTime x"

lemma symbolToChartFrame_sel [simp]:
  "cf_selfTime (symbolToChartFrame n x y) = 0" "cf_totalTime (symbolToChartFrame n x y) = sm_dur x"
  "cf_startTime (symbolToChartFrame n x y) = sm_startTime x" "cf_endTime (symbolToChartFrame n x y) = sm_endTime x"
  "cf_depth (symbolToChartFrame n x y) = sy_depth y"
  by (simp_all add: symbolToChartFrame_def newChartFrame_def)

lemma new_branch_effect:
  "stack \<noteq> [] \<Longrightarrow> \<exists>f n'. new_branch x p stack n = ([f], n') \<and> self_sum f = sm_dur x \<and> (sample_ok x \<longrightarrow> balanced f)
     \<and> cf_totalTime (cf_data f) = sm_dur x \<and> cf_depth (cf_data f) = sy_depth (hd stack)"
proof (induction stack arbitrary: p n)
  case (Cons y stack)
  show ?case
  proof (cases "stack = []")
    case False
    then obtain f n' where "new_branch x n stack (n + 1) = ([f], n')" "self_sum f = sm_dur x" "sample_ok x \<longrightarrow> balanced f"
      "cf_totalTime (cf_data f) = sm_dur x"
      using Cons.IH by blast
    then show ?thesis using False by (simp add: new_branch.simps Let_def sample_ok_def)
  qed (simp add: new_branch.simps Let_def sample_ok_def)
qed simp

lemma sum_butlast: "xs \<noteq> [] \<Longrightarrow> sum_list (map f (butlast xs)) = (sum_list (map f xs) - f (last xs) :: int)"
  by (induction xs) auto

lemma extend_frame_self: "self_sum (fst (extend_frame x idx stack f n)) = self_sum f + sm_dur x"
proof (induction x idx stack f n rule: extend_frame.induct)
  case (1 x idx stack d kids n)
  show ?case
  proof (cases stack)
    case (Cons y stack')
    show ?thesis
    proof (cases "kids \<noteq> [] \<and> frame_matches x (idx + 1) y (cf_data (last kids))")
      case True
      then show ?thesis using "1.IH" [OF refl Cons True] Cons by (simp add: Let_def case_prod_unfold sum_butlast)
    next
      case False
      obtain f n' where "new_branch x (cf_id d) stack n = ([f], n')" "self_sum f = sm_dur x" using new_branch_effect [of stack] Cons by blast
      then show ?thesis using False Cons by (auto simp: Let_def)
    qed
  qed simp
qed

lemma extend_frame_balanced:
  assumes "sample_ok x" "balanced f" "cf_endTime (cf_data f) = sm_startTime x"
  shows "balanced (fst (extend_frame x idx stack f n))
    \<and> cf_totalTime (cf_data (fst (extend_frame x idx stack f n))) = cf_totalTime (cf_data f) + sm_dur x"
  using assms
proof (induction x idx stack f n rule: extend_frame.induct)
  case (1 x idx stack d kids n)
  then have ok: "sm_dur x = sm_endTime x - sm_startTime x" "cf_endTime d = sm_startTime x" by (simp_all add: sample_ok_def)
  show ?case
  proof (cases stack)
    case Nil
    then show ?thesis using "1.prems" ok by simp
  next
    case (Cons y stack')
    show ?thesis
    proof (cases "kids \<noteq> [] \<and> frame_matches x (idx + 1) y (cf_data (last kids))")
      case True
      then have "balanced (last kids)" "cf_endTime (cf_data (last kids)) = sm_startTime x" using "1.prems"(2) by (auto simp: frame_matches_def)
      note IH = "1.IH" [OF refl Cons True "1.prems"(1) this]
      show ?thesis
        using True Cons IH "1.prems"(2) ok by (auto simp: Let_def case_prod_unfold sum_butlast dest: in_set_butlastD)
    next
      case False
      obtain f n' where "new_branch x (cf_id d) stack n = ([f], n')" "sample_ok x \<longrightarrow> balanced f" "cf_totalTime (cf_data f) = sm_dur x"
        using new_branch_effect [of stack] Cons by blast
      then show ?thesis using False Cons "1.prems" ok by (auto simp: Let_def)
    qed
  qed
qed

lemma extend_frame_depth: "cf_depth (cf_data (fst (extend_frame x idx stack f n))) = cf_depth (cf_data f)"
  by (cases f; cases stack) (auto simp: Let_def case_prod_unfold)

section \<open>Symbols\<close>

text \<open>The rows of the call chain: the root first, then every row after its parent.\<close>

definition rows_ok :: "JsProfilerSymbol list \<Rightarrow> bool" where
  "rows_ok rows \<longleftrightarrow> rows \<noteq> [] \<and> sy_id (hd rows) = ROOT_ID \<and> sy_parentId (hd rows) = 0 \<and> distinct (map sy_id rows)
     \<and> (\<forall>k<length rows. 0 < k \<longrightarrow> sy_id (rows ! k) > ROOT_ID \<and> sy_parentId (rows ! k) \<in> sy_id ` set (take k rows))"

text \<open>Symbols form a tree below the root, with their depths.\<close>

definition symbols_ok :: "nat \<Rightarrow> symbol_map \<Rightarrow> bool" where
  "symbols_ok n m \<longleftrightarrow> (\<forall>i s. m i = Some s \<longrightarrow> sy_id s = i \<and> i \<ge> ROOT_ID
     \<and> (\<exists>d. sy_depth s = Some d \<and> - 1 \<le> d \<and> d + 1 < int n \<and> (i = ROOT_ID \<longleftrightarrow> d = - 1)
          \<and> (i \<noteq> ROOT_ID \<longrightarrow> (\<exists>p. sy_parentId s > 0 \<and> m (sy_parentId s) = Some p \<and> sy_depth p = Some (d - 1)))))"

lemma symbols_ok_id:
  assumes "symbols_ok n m" "m i = Some s"
  shows "sy_id s = i" "ROOT_ID \<le> i" "i = ROOT_ID \<longleftrightarrow> sy_depth s = Some (- 1)" "\<exists>d. sy_depth s = Some d \<and> - 1 \<le> d \<and> d + 1 < int n"
proof -
  note * = assms(1) [unfolded symbols_ok_def, rule_format, OF assms(2)]
  then obtain d where d: "sy_depth s = Some d" "- 1 \<le> d" "d + 1 < int n" "i = ROOT_ID \<longleftrightarrow> d = - 1" by blast
  then show "i = ROOT_ID \<longleftrightarrow> sy_depth s = Some (- 1)" "\<exists>d. sy_depth s = Some d \<and> - 1 \<le> d \<and> d + 1 < int n" by simp_all
  show "sy_id s = i" "ROOT_ID \<le> i" using * by simp_all
qed

lemma symbols_ok_parent:
  assumes "symbols_ok n m" "m i = Some s" "sy_depth s = Some d" "0 \<le> d"
  shows "\<exists>p. sy_parentId s > 0 \<and> m (sy_parentId s) = Some p \<and> sy_depth p = Some (d - 1)"
proof -
  have "i \<noteq> ROOT_ID" using symbols_ok_id(3) [OF assms(1,2)] assms(3,4) by simp
  then show ?thesis using assms(1) [unfolded symbols_ok_def, rule_format, OF assms(2)] assms(3) by auto
qed

lemma parents_above_ok:
  assumes "symbols_ok n m" "m (sy_id s) = Some s" "sy_depth s = Some (int k)" "k < fuel"
  shows "\<exists>ps. parents_above fuel m s = Inr ps \<and> sy_depth (last (s # ps)) = Some 0"
  using assms(2-)
proof (induction k arbitrary: s fuel)
  case 0
  then obtain fuel' where f: "fuel = Suc fuel'" by (cases fuel) auto
  obtain p where p: "sy_parentId s > 0" "m (sy_parentId s) = Some p" "sy_depth p = Some (- 1)"
    using symbols_ok_parent [OF assms(1) 0(1,2)] by auto
  have "sy_id p = ROOT_ID" using symbols_ok_id(1,3) [OF assms(1) p(2)] p(3) by simp
  then show ?case using p 0 by (simp add: f)
next
  case (Suc k)
  then obtain fuel' where f: "fuel = Suc fuel'" "k < fuel'" by (cases fuel) auto
  obtain p where p: "sy_parentId s > 0" "m (sy_parentId s) = Some p" "sy_depth p = Some (int k)"
    using symbols_ok_parent [OF assms(1) Suc.prems(1,2)] by auto
  have id: "sy_id p = sy_parentId s" "sy_id p > ROOT_ID" using symbols_ok_id [OF assms(1) p(2)] p(3) by auto
  obtain ps where "parents_above fuel' m p = Inr ps" "sy_depth (last (p # ps)) = Some 0" using Suc.IH [of p fuel'] p id f by auto
  then show ?case using p id f by simp
qed

lemma hd_rev_Cons: "hd (rev (x # xs)) = last (x # xs)"
  by (simp add: hd_rev)

lemma getFullCallChainOfNode_ok:
  assumes "symbols_ok n m" "m i = Some s" "i \<noteq> ROOT_ID" "n \<le> fuel"
  shows "\<exists>stack. getFullCallChainOfNode fuel m s = Inr stack \<and> stack \<noteq> [] \<and> sy_depth (hd stack) = Some 0"
proof -
  obtain d where d: "sy_id s = i" "sy_depth s = Some d" "- 1 \<le> d" "d + 1 < int n" "d \<noteq> - 1"
    using symbols_ok_id [OF assms(1,2)] assms(3) by auto
  then have "sy_depth s = Some (int (nat d))" "nat d < fuel" using assms(4) by simp_all
  then obtain ps where "parents_above fuel m s = Inr ps" "sy_depth (last (s # ps)) = Some 0"
    using parents_above_ok [OF assms(1), of s "nat d" fuel] d(1) assms(2) by auto
  then show ?thesis unfolding getFullCallChainOfNode_def by (metis bindr.simps(2) hd_rev_Cons list.distinct(1) rev_is_Nil_conv)
qed

section \<open>The chart\<close>

text \<open>The samples that appear in the chart.\<close>

definition charted :: "symbol_map \<Rightarrow> JsCpuProfilerSample \<Rightarrow> bool" where
  "charted m x \<longleftrightarrow> (\<exists>s. m (sm_functionId x) = Some s \<and> sy_id s \<noteq> ROOT_ID)"

definition chart_ok :: "ChartState \<Rightarrow> bool" where
  "chart_ok s \<longleftrightarrow> (\<forall>f\<in>set (ch_frames s). cf_depth (cf_data f) = Some 0)"

abbreviation chart_self :: "ChartState \<Rightarrow> int" where
  "chart_self s \<equiv> sum_list (map self_sum (ch_frames s))"

lemma sample_upd [simp]: "sample_ok (x\<lparr>sm_type := t, sm_stack := k\<rparr>) = sample_ok x"
  by (simp add: sample_ok_def)

text \<open>What combining leaves of a sample.\<close>

definition same_sample :: "JsCpuProfilerSample \<Rightarrow> JsCpuProfilerSample \<Rightarrow> bool" where
  "same_sample y x \<longleftrightarrow> sm_id y = sm_id x \<and> sm_functionId y = sm_functionId x \<and> sm_startTime y = sm_startTime x
     \<and> sm_endTime y = sm_endTime x \<and> sm_dur y = sm_dur x"

text \<open>The three ways a sample goes: it is skipped, it opens a tree, or it extends the last tree.\<close>

inductive combined :: "symbol_map \<Rightarrow> JsCpuProfilerSample \<Rightarrow> ChartState \<Rightarrow> ChartState \<Rightarrow> bool" for m x s where
  combined_skip: "\<not> charted m x \<Longrightarrow> same_sample y x \<Longrightarrow> combined m x s (s\<lparr>ch_samples := ch_samples s @ [y]\<rparr>)"
| combined_fresh: "charted m x \<Longrightarrow> same_sample y x \<Longrightarrow> stack \<noteq> [] \<Longrightarrow> sy_depth (hd stack) = Some 0
    \<Longrightarrow> new_branch y (- 1) stack (ch_chartId s) = ([f], n)
    \<Longrightarrow> combined m x s (s\<lparr>ch_samples := ch_samples s @ [y], ch_frames := ch_frames s @ [f], ch_chartId := n\<rparr>)"
| combined_extend: "charted m x \<Longrightarrow> same_sample y x \<Longrightarrow> ch_frames s \<noteq> [] \<Longrightarrow> cf_endTime (cf_data (last (ch_frames s))) = sm_startTime x
    \<Longrightarrow> extend_frame y 0 stack (last (ch_frames s)) (ch_chartId s) = (f, n)
    \<Longrightarrow> combined m x s (s\<lparr>ch_samples := ch_samples s @ [y], ch_frames := butlast (ch_frames s) @ [f], ch_chartId := n\<rparr>)"

lemma combine_sample_run:
  assumes m: "symbols_ok n m" "n \<le> fuel" and s: "chart_ok s"
  shows "\<exists>s'. combine_sample fuel m x s = Inr s' \<and> combined m x s s'"
proof (cases "charted m x")
  case False
  have skip: "\<exists>s'. Inr (s\<lparr>ch_samples := ch_samples s @ [y]\<rparr>) = Inr s' \<and> combined m x s s'" if "same_sample y x" for y
    using combined_skip [OF False that] by blast
  show ?thesis
  proof (cases "m (sm_functionId x)")
    case None
    then show ?thesis using skip [of x] by (simp add: combine_sample_def same_sample_def)
  next
    case (Some t)
    then have "sy_id t = ROOT_ID" using False by (simp add: charted_def)
    then show ?thesis using skip [of "x\<lparr>sm_type := Some S_OTHER\<rparr>"] Some by (simp add: combine_sample_def same_sample_def)
  qed
next
  case True
  then obtain t where t: "m (sm_functionId x) = Some t" "sy_id t \<noteq> ROOT_ID" by (auto simp: charted_def)
  then have "sm_functionId x \<noteq> ROOT_ID" using symbols_ok_id(1) [OF m(1) t(1)] by simp
  then obtain stack where k: "getFullCallChainOfNode fuel m t = Inr stack" "stack \<noteq> []" "sy_depth (hd stack) = Some 0"
    using getFullCallChainOfNode_ok [OF m(1) t(1) _ m(2)] by blast
  define x1 where "x1 = x\<lparr>sm_type := sample_type (sy_name t) (sm_type x), sm_stack := Some stack\<rparr>"
  have x1: "same_sample x1 x" by (simp add: x1_def same_sample_def)
  show ?thesis
  proof (cases "ch_frames s \<noteq> [] \<and> isSymbolEqual (hd stack) (cf_data (last (ch_frames s)))
      \<and> cf_endTime (cf_data (last (ch_frames s))) = sm_startTime x")
    case False
    obtain f n' where b: "new_branch x1 (- 1) stack (ch_chartId s) = ([f], n')" using new_branch_effect [OF k(2)] by blast
    have "combine_sample fuel m x s = Inr (s\<lparr>ch_samples := ch_samples s @ [x1], ch_frames := ch_frames s @ [f], ch_chartId := n'\<rparr>)"
      using t k(1) b False by (auto simp: combine_sample_def createNewChartFrame_def Let_def x1_def [symmetric])
    then show ?thesis using combined_fresh [OF True x1 k(2,3) b] by blast
  next
    case eq: True
    let ?l = "last (ch_frames s)"
    obtain y stack' where st: "stack = y # stack'" using k(2) by (cases stack) auto
    have "?l \<in> set (ch_frames s)" using eq by simp
    then have match: "frame_matches x1 0 y (cf_data ?l)" using eq s x1 by (auto simp: frame_matches_def chart_ok_def st same_sample_def)
    obtain f n' where e: "extend_frame x1 0 stack' ?l (ch_chartId s) = (f, n')" by fastforce
    have "combineCallChain x1 stack ?l (ch_chartId s) = Inr (f, n')" using match e by (simp add: combineCallChain_def st)
    then have "combine_sample fuel m x s = Inr (s\<lparr>ch_samples := ch_samples s @ [x1], ch_frames := butlast (ch_frames s) @ [f], ch_chartId := n'\<rparr>)"
      using t k(1) eq by (simp add: combine_sample_def Let_def x1_def [symmetric])
    then show ?thesis using combined_extend [OF True x1 _ _ e] eq by blast
  qed
qed

lemma same_sample_dur: "same_sample y x \<Longrightarrow> sm_dur y = sm_dur x" "same_sample y x \<Longrightarrow> sample_ok y = sample_ok x"
  by (simp_all add: same_sample_def sample_ok_def)

lemma combined_effect:
  assumes "combined m x s s'" "chart_ok s"
  shows "chart_ok s'" "chart_self s' = chart_self s + (if charted m x then sm_dur x else 0)"
    "sample_ok x \<Longrightarrow> \<forall>f\<in>set (ch_frames s). balanced f \<Longrightarrow> \<forall>f\<in>set (ch_frames s'). balanced f"
  using assms
proof (induction rule: combined.induct)
  case (combined_skip y)
  { case 1 with combined_skip show ?case by (simp add: chart_ok_def) }
  { case 2 with combined_skip show ?case by simp }
  { case 3 with combined_skip show ?case by simp }
next
  case (combined_fresh y stack f n)
  then have f: "self_sum f = sm_dur x" "sample_ok x \<longrightarrow> balanced f" "cf_depth (cf_data f) = Some 0"
    using new_branch_effect [of stack y "- 1" "ch_chartId s"] by (auto simp: same_sample_dur)
  { case 1 with f show ?case by (simp add: chart_ok_def) }
  { case 2 with f combined_fresh show ?case by simp }
  { case 3 with f show ?case by simp }
next
  case (combined_extend y stack f n)
  let ?l = "last (ch_frames s)"
  note e = combined_extend.hyps
  have l: "?l \<in> set (ch_frames s)" using e by simp
  have f: "self_sum f = self_sum ?l + sm_dur x" "cf_depth (cf_data f) = cf_depth (cf_data ?l)"
    using extend_frame_self [of y 0 stack ?l "ch_chartId s"] extend_frame_depth [of y 0 stack ?l "ch_chartId s"] e same_sample_dur(1) [OF e(2)] by simp_all
  { case 1 with f l show ?case by (auto simp: chart_ok_def dest: in_set_butlastD) }
  { case 2 with f e show ?case by (simp add: sum_butlast) }
  { case 3
    have "sample_ok y" "balanced ?l" "cf_endTime (cf_data ?l) = sm_startTime y"
      using 3(1) bspec [OF 3(2) l] e(4) same_sample_dur(2) [OF e(2)] e(2) [unfolded same_sample_def] by simp_all
    from extend_frame_balanced [OF this, of 0 stack "ch_chartId s"] have "balanced f" unfolding e(5) by simp
    then show ?case using 3(2) by (simp add: ball_Un) (blast dest: in_set_butlastD) }
qed

lemma combine_samples_effect:
  assumes m: "symbols_ok n m" "n \<le> fuel"
  shows "chart_ok s \<Longrightarrow> \<exists>s'. combine_samples fuel m xs s = Inr s'
    \<and> chart_self s' = chart_self s + sum_list (map sm_dur (filter (charted m) xs))
    \<and> ((\<forall>x\<in>set xs. sample_ok x) \<longrightarrow> (\<forall>f\<in>set (ch_frames s). balanced f) \<longrightarrow> (\<forall>f\<in>set (ch_frames s'). balanced f))"
proof (induction xs arbitrary: s)
  case (Cons x xs)
  obtain s1 where run: "combine_sample fuel m x s = Inr s1" "combined m x s s1" using combine_sample_run [OF m Cons.prems] by blast
  note s1 = combined_effect [OF run(2) Cons.prems]
  have bal: "sample_ok x \<longrightarrow> (\<forall>f\<in>set (ch_frames s). balanced f) \<longrightarrow> (\<forall>f\<in>set (ch_frames s1). balanced f)" using s1(3) by blast
  obtain s' where s': "combine_samples fuel m xs s1 = Inr s'" "chart_self s' = chart_self s1 + sum_list (map sm_dur (filter (charted m) xs))"
    "(\<forall>x\<in>set xs. sample_ok x) \<longrightarrow> (\<forall>f\<in>set (ch_frames s1). balanced f) \<longrightarrow> (\<forall>f\<in>set (ch_frames s'). balanced f)"
    using Cons.IH [OF s1(1)] by blast
  have "combine_samples fuel m (x # xs) s = Inr s'" using run(1) s'(1) by simp
  moreover have "chart_self s' = chart_self s + sum_list (map sm_dur (filter (charted m) (x # xs)))" using s'(2) s1(2) by simp
  moreover have "(\<forall>x\<in>set (x # xs). sample_ok x) \<longrightarrow> (\<forall>f\<in>set (ch_frames s). balanced f) \<longrightarrow> (\<forall>f\<in>set (ch_frames s'). balanced f)"
    using s'(3) bal by simp
  ultimately show ?case by blast
qed simp

section \<open>Building the call chain\<close>

text \<open>What adding a child to a symbol keeps.\<close>

lemma symbols_ok_children:
  assumes ok: "symbols_ok n m" and i: "m i = Some p"
  shows "symbols_ok n (m(i \<mapsto> p\<lparr>sy_children := c\<rparr>))"
proof -
  let ?m = "m(i \<mapsto> p\<lparr>sy_children := c\<rparr>)"
  have up: "\<exists>q'. ?m j = Some q' \<and> sy_depth q' = sy_depth q" if "m j = Some q" for j q
    using that i by (cases "j = i") auto
  have "sy_id t = j \<and> ROOT_ID \<le> j \<and> (\<exists>d. sy_depth t = Some d \<and> - 1 \<le> d \<and> d + 1 < int n \<and> (j = ROOT_ID \<longleftrightarrow> d = - 1)
      \<and> (j \<noteq> ROOT_ID \<longrightarrow> (\<exists>p. sy_parentId t > 0 \<and> ?m (sy_parentId t) = Some p \<and> sy_depth p = Some (d - 1))))"
    if t: "?m j = Some t" for j t
  proof -
    obtain q where q: "m j = Some q" "sy_id t = sy_id q" "sy_depth t = sy_depth q" "sy_parentId t = sy_parentId q"
      using t i by (cases "j = i") auto
    obtain e where e: "sy_depth q = Some e" "- 1 \<le> e" "e + 1 < int n" using symbols_ok_id(4) [OF ok q(1)] by blast
    have "\<exists>p. sy_parentId t > 0 \<and> ?m (sy_parentId t) = Some p \<and> sy_depth p = Some (e - 1)" if "j \<noteq> ROOT_ID"
    proof -
      have "0 \<le> e" using symbols_ok_id(3) [OF ok q(1)] that e by auto
      then obtain r where r: "sy_parentId q > 0" "m (sy_parentId q) = Some r" "sy_depth r = Some (e - 1)"
        using symbols_ok_parent [OF ok q(1) e(1)] by blast
      then show ?thesis using up [OF r(2)] q(4) by simp
    qed
    then show ?thesis using symbols_ok_id(1,2,3) [OF ok q(1)] e q by simp
  qed
  then show ?thesis unfolding symbols_ok_def by blast
qed

lemma symbols_ok_insert:
  assumes ok: "symbols_ok n m" and new: "m i = None" "i > ROOT_ID"
    and p: "m (sy_parentId s) = Some p" "sy_parentId s > 0" "sy_depth p = Some d" and s: "sy_id s = i" "sy_depth s = Some (d + 1)"
  shows "symbols_ok (Suc n) (m(i \<mapsto> s))"
proof -
  have d: "- 1 \<le> d" "d + 1 < int n" using symbols_ok_id(4) [OF ok p(1)] p(3) by auto
  have neq: "sy_parentId s \<noteq> i" using p(1) new(1) by auto
  have "sy_id t = j \<and> ROOT_ID \<le> j \<and> (\<exists>d. sy_depth t = Some d \<and> - 1 \<le> d \<and> d + 1 < int (Suc n) \<and> (j = ROOT_ID \<longleftrightarrow> d = - 1)
      \<and> (j \<noteq> ROOT_ID \<longrightarrow> (\<exists>p. sy_parentId t > 0 \<and> (m(i \<mapsto> s)) (sy_parentId t) = Some p \<and> sy_depth p = Some (d - 1))))"
    if "(m(i \<mapsto> s)) j = Some t" for j t
  proof (cases "j = i")
    case True
    then show ?thesis using that s new(2) d p neq by auto
  next
    case False
    then have t: "m j = Some t" using that by simp
    obtain e where e: "sy_depth t = Some e" "- 1 \<le> e" "e + 1 < int n" using symbols_ok_id(4) [OF ok t] by blast
    have "\<exists>p. sy_parentId t > 0 \<and> (m(i \<mapsto> s)) (sy_parentId t) = Some p \<and> sy_depth p = Some (e - 1)" if "j \<noteq> ROOT_ID"
    proof -
      have "0 \<le> e" using symbols_ok_id(3) [OF ok t] that e by auto
      then obtain q where "sy_parentId t > 0" "m (sy_parentId t) = Some q" "sy_depth q = Some (e - 1)"
        using symbols_ok_parent [OF ok t e(1)] by blast
      then show ?thesis using new(1) by auto
    qed
    then show ?thesis using symbols_ok_id [OF ok t] e by auto
  qed
  then show ?thesis unfolding symbols_ok_def by blast
qed

lemma chain_item_ok:
  assumes ok: "symbols_ok n m" and new: "m (sy_id r) = None" "sy_id r > ROOT_ID" and par: "m (sy_parentId r) = Some p"
  shows "symbols_ok (Suc n) (chain_item dict r m)" "dom (chain_item dict r m) = insert (sy_id r) (dom m)"
proof -
  obtain d where d: "sy_depth p = Some d" using symbols_ok_id(4) [OF ok par] by blast
  have pos: "sy_parentId r > 0" using symbols_ok_id(2) [OF ok par] by (simp add: ROOT_ID_def)
  have neq: "sy_parentId r \<noteq> sy_id r" using par new(1) by auto
  define r1 where "r1 = r\<lparr>sy_depth := Some (d + 1), sy_name := dict_or dict (sy_nameId r) LAMBDA_FUNCTION_NAME, sy_url := dict_or dict (sy_urlId r) (js ''unknown'')\<rparr>"
  let ?m = "m(sy_parentId r \<mapsto> p\<lparr>sy_children := sy_children p @ [sy_id r]\<rparr>)"
  have run: "chain_item dict r m = ?m(sy_id r \<mapsto> r1)"
    using par pos neq new d by (auto simp: chain_item_def Let_def r1_def fun_eq_iff)
  have "symbols_ok (Suc n) (?m(sy_id r \<mapsto> r1))"
  proof (rule symbols_ok_insert [OF symbols_ok_children [OF ok par]])
    show "?m (sy_parentId r1) = Some (p\<lparr>sy_children := sy_children p @ [sy_id r]\<rparr>)" by (simp add: r1_def)
  qed (use new neq pos d in \<open>auto simp: r1_def\<close>)
  then show "symbols_ok (Suc n) (chain_item dict r m)" by (simp only: run)
  show "dom (chain_item dict r m) = insert (sy_id r) (dom m)" using par by (auto simp: run)
qed

lemma createCallChain_take:
  assumes "rows_ok rows" "0 < k" "k \<le> length rows"
  shows "symbols_ok k (createCallChain dict (take k rows) Map.empty) \<and> dom (createCallChain dict (take k rows) Map.empty) = sy_id ` set (take k rows)"
  using assms(2,3)
proof (induction k rule: nat_induct_non_zero)
  case 1
  obtain r rs where rows: "rows = r # rs" using assms(1) by (cases rows) (auto simp: rows_ok_def)
  have "sy_id r = ROOT_ID" "sy_parentId r = 0" using assms(1) by (auto simp: rows_ok_def rows)
  then show ?case by (auto simp: rows createCallChain_def chain_item_def symbols_ok_def Let_def split: if_splits)
next
  case (Suc k)
  let ?m = "createCallChain dict (take k rows) Map.empty" and ?r = "rows ! k"
  have k: "k < length rows" using Suc.prems by simp
  then have r: "sy_id ?r > ROOT_ID" "sy_parentId ?r \<in> sy_id ` set (take k rows)" using assms(1) Suc.hyps by (auto simp: rows_ok_def)
  have "distinct (map sy_id (take (Suc k) rows))" using assms(1) by (simp add: rows_ok_def distinct_take flip: take_map)
  then have "sy_id ?r \<notin> sy_id ` set (take k rows)" using k by (simp add: take_Suc_conv_app_nth)
  note new = this
  have run: "createCallChain dict (take (Suc k) rows) Map.empty = chain_item dict ?r ?m"
    using k by (simp add: createCallChain_def take_Suc_conv_app_nth)
  have m: "symbols_ok k ?m" "dom ?m = sy_id ` set (take k rows)" using Suc.IH Suc.prems by simp_all
  then obtain p where p: "?m (sy_parentId ?r) = Some p" using r(2) by (metis domD)
  have "?m (sy_id ?r) = None" using new m(2) by (metis domIff)
  note item = chain_item_ok [OF m(1) this r(1) p, of dict]
  show ?case unfolding run using item m(2) k by (simp add: take_Suc_conv_app_nth)
qed

lemma createCallChain_ok: "rows_ok rows \<Longrightarrow> symbols_ok (length rows) (createCallChain dict rows Map.empty)"
  using createCallChain_take [of rows "length rows" dict] by (simp add: rows_ok_def)


text \<open>C1: a function whose parent row is missing has no depth; two adjacent samples of it make the chart fail
  with a \<open>TypeError\<close>.\<close>

theorem orphan_samples_raise:
  assumes "m i = Some f" "sy_id f = i" "i \<noteq> ROOT_ID" "sy_parentId f \<noteq> 0" "m (sy_parentId f) = None" "sy_depth f = None" "sy_name f \<noteq> []"
    and "sm_functionId x = i" "sm_functionId y = i" "sm_endTime x = sm_startTime y"
  shows "combineChartData (Suc n) m [x, y] chartId = Inl TypeError"
  using assms
  by (simp add: combineChartData_def combine_sample_def getFullCallChainOfNode_def createNewChartFrame_def new_branch.simps Let_def
      combineCallChain_def frame_matches_def isSymbolEqual_def symbolToChartFrame_def newChartFrame_def)

section \<open>Concrete instances\<close>

definition demo_symbol :: "int \<Rightarrow> int \<Rightarrow> JsProfilerSymbol" where
  "demo_symbol i p = \<lparr>sy_id = i, sy_nameId = i, sy_name = js ''f'', sy_urlId = 0, sy_url = [], sy_line = 1, sy_column = 1,
     sy_children = [], sy_parentId = p, sy_depth = None\<rparr>"

definition demo_sample :: "int \<Rightarrow> int \<Rightarrow> int \<Rightarrow> JsCpuProfilerSample" where
  "demo_sample i f t = \<lparr>sm_id = i, sm_functionId = f, sm_startTime = t, sm_endTime = t + 5, sm_dur = 5, sm_type = None, sm_stack = None\<rparr>"


theorem orphan_samples_raise_witness:
  "combineChartData (Suc 2) [7 \<mapsto> demo_symbol 7 5] [demo_sample 0 7 0, demo_sample 1 7 5] 0 = Inl TypeError"
  by (rule orphan_samples_raise [of _ 7 "demo_symbol 7 5"]) (simp_all add: demo_symbol_def demo_sample_def ROOT_ID_def js_def)

end
