(* ===== verification/Profiler_Tabs.thy ===== *)
theory Profiler_Tabs
  imports Profiler_Chart "HOL-Library.Multiset"
begin

text \<open>
  The ArkTS CPU profiler: the tables of the selected functions
  (\<open>trace/database/logic-worker/ProcedureLogicWorkerJsCpuProfiler.ts\<close>, \<open>combineTopDownData\<close> and
  \<open>combineBottomUpData\<close>, with \<open>JsCpuProfilerTabStruct\<close> of \<open>trace/bean/JsStruct.ts\<close>).

  A level of the top-down table is a grouping of the selected frames by their symbol; the frames below
  the members of a group are grouped again. The code keeps them in \<open>chartFrameChildren\<close> until then, which is the
  second component of a group here. The bottom-up table is the top-down table of the reversed call chains.
\<close>

section \<open>Data\<close>

record TabData =
  tb_id :: int
  tb_parentId :: int
  tb_name :: jsstring
  tb_depth :: "int option"
  tb_selfTime :: int
  tb_totalTime :: int
  tb_url :: jsstring
  tb_scriptName :: jsstring
  tb_line :: int
  tb_column :: int

datatype TabStruct = TabStruct (tb_data: TabData) (tb_children: "TabStruct list")

definition newTabStruct :: "jsstring \<Rightarrow> int \<Rightarrow> int \<Rightarrow> int option \<Rightarrow> jsstring \<Rightarrow> int \<Rightarrow> int \<Rightarrow> int \<Rightarrow> TabData" where
  "newTabStruct nm selfTime totalTime depth url line column i =
     \<lparr>tb_id = i, tb_parentId = - 1, tb_name = nm, tb_depth = depth, tb_selfTime = selfTime, tb_totalTime = totalTime, tb_url = url,
      tb_scriptName = scriptName url, tb_line = line, tb_column = column\<rparr>"

text \<open>The code draws the identifier from \<open>tabDataId\<close>.\<close>

definition chartFrameToTabStruct :: "ChartData \<Rightarrow> int \<Rightarrow> TabData" where
  "chartFrameToTabStruct d tabDataId =
     newTabStruct (cf_name d) (cf_selfTime d) (cf_totalTime d) (cf_depth d) (cf_url d) (cf_line d) (cf_column d) tabDataId"

section \<open>Top-down\<close>

definition symbol_key :: "jsstring \<Rightarrow> jsstring \<Rightarrow> int \<Rightarrow> int \<Rightarrow> jsstring" where
  "symbol_key nm url line column =
     nm @ js '' '' @ url @ (if nm = LAMBDA_FUNCTION_NAME then js '' '' @ js_num line @ js '' '' @ js_num column else [])"

definition frame_key :: "ChartFrame \<Rightarrow> jsstring" where
  "frame_key f = symbol_key (cf_name (cf_data f)) (cf_url (cf_data f)) (cf_line (cf_data f)) (cf_column (cf_data f))"

type_synonym tab_group = "TabData \<times> ChartFrame list"

text \<open>A further frame of a group: its times are added and its children appended.\<close>

definition group_merge :: "ChartFrame \<Rightarrow> tab_group \<Rightarrow> tab_group" where
  "group_merge f = (\<lambda>(t, fs). (t\<lparr>tb_totalTime := tb_totalTime t + cf_totalTime (cf_data f), tb_selfTime := tb_selfTime t + cf_selfTime (cf_data f)\<rparr>,
     fs @ cf_children f))"

definition level_step :: "ChartFrame \<Rightarrow> (jsstring \<times> tab_group) list \<times> int \<Rightarrow> (jsstring \<times> tab_group) list \<times> int" where
  "level_step f = (\<lambda>(m, n).
     if \<not> cf_isSelect (cf_data f) then (m, n)
     else (case map_of m (frame_key f) of
             Some v \<Rightarrow> (js_map_set (frame_key f) (group_merge f v) m, n)
           | None \<Rightarrow> (js_map_set (frame_key f) (chartFrameToTabStruct (cf_data f) n, cf_children f) m, n + 1)))"

definition level :: "ChartFrame list \<Rightarrow> int \<Rightarrow> (jsstring \<times> tab_group) list \<times> int" where
  "level fs n = fold level_step fs ([], n)"

subsection \<open>Levels as groupings\<close>

text \<open>Up to the identifiers a level is a grouping of the selected frames.\<close>

definition group_fresh :: "ChartFrame \<Rightarrow> tab_group" where
  "group_fresh f = (chartFrameToTabStruct (cf_data f) 0, cf_children f)"

definition strip_id :: "tab_group \<Rightarrow> tab_group" where
  "strip_id = (\<lambda>(t, fs). (t\<lparr>tb_id := 0\<rparr>, fs))"

definition selected :: "ChartFrame list \<Rightarrow> ChartFrame list" where
  "selected fs = filter (\<lambda>f. cf_isSelect (cf_data f)) fs"

lemma strip_id_sel [simp]:
  "tb_selfTime (fst (strip_id v)) = tb_selfTime (fst v)" "tb_totalTime (fst (strip_id v)) = tb_totalTime (fst v)"
  "tb_name (fst (strip_id v)) = tb_name (fst v)" "tb_url (fst (strip_id v)) = tb_url (fst v)"
  "tb_line (fst (strip_id v)) = tb_line (fst v)" "tb_column (fst (strip_id v)) = tb_column (fst v)" "snd (strip_id v) = snd v"
  by (simp_all add: strip_id_def case_prod_unfold)

lemma strip_id_merge: "strip_id (group_merge f v) = group_merge f (strip_id v)"
  by (simp add: strip_id_def group_merge_def case_prod_unfold)

lemma strip_id_fresh: "strip_id (chartFrameToTabStruct (cf_data f) n, cf_children f) = group_fresh f"
  by (simp add: strip_id_def group_fresh_def chartFrameToTabStruct_def newTabStruct_def)

lemma level_strip: "map (apsnd strip_id) (fst (level fs n)) = group_all frame_key group_fresh group_merge (selected fs)"
proof (induction fs rule: rev_induct)
  case Nil
  then show ?case by (simp add: level_def selected_def group_all_def)
next
  case (snoc f fs)
  let ?m = "fst (level fs n)"
  have run: "level (fs @ [f]) n = level_step f (level fs n)" by (simp add: level_def)
  show ?case
  proof (cases "cf_isSelect (cf_data f)")
    case True
    then have g: "group_all frame_key group_fresh group_merge (selected (fs @ [f]))
        = group_step frame_key group_fresh group_merge f (map (apsnd strip_id) ?m)"
      unfolding snoc.IH by (simp add: selected_def group_all_def)
    show ?thesis unfolding g run using True
      by (cases "map_of ?m (frame_key f)")
        (simp_all add: level_step_def group_step_def map_of_apsnd map_apsnd_js_map_set strip_id_fresh strip_id_merge case_prod_beta)
  qed (simp add: run level_step_def case_prod_unfold selected_def snoc.IH)
qed

interpretation group_self: additive_group group_fresh group_merge "\<lambda>v. tb_selfTime (fst v)" "\<lambda>f. cf_selfTime (cf_data f)"
  by unfold_locales (auto simp: group_fresh_def group_merge_def chartFrameToTabStruct_def newTabStruct_def case_prod_unfold)

interpretation group_total: additive_group group_fresh group_merge "\<lambda>v. tb_totalTime (fst v)" "\<lambda>f. cf_totalTime (cf_data f)"
  by unfold_locales (auto simp: group_fresh_def group_merge_def chartFrameToTabStruct_def newTabStruct_def case_prod_unfold)

interpretation group_kids: additive_group group_fresh group_merge "\<lambda>v. sum_list (map h (snd v))" "\<lambda>f. sum_list (map h (cf_children f))"
  for h :: "ChartFrame \<Rightarrow> 'a :: comm_monoid_add"
  by unfold_locales (auto simp: group_fresh_def group_merge_def case_prod_unfold)

text \<open>What a sum over the groups of a level is, for a quantity that does not look at the identifiers.\<close>

lemma level_sum:
  assumes "\<And>v. g (strip_id v) = g v"
  shows "sum_list (map g (map snd (fst (level fs n)))) = sum_list (map (g \<circ> snd) (group_all frame_key group_fresh group_merge (selected fs)))"
  using assms by (simp add: comp_def flip: level_strip [of fs n])

lemma level_keys: "js_map_ok (fst (level fs n))" "fst ` set (fst (level fs n)) = frame_key ` set (selected fs)"
proof -
  have "map fst (fst (level fs n)) = map fst (group_all frame_key group_fresh group_merge (selected fs))"
    by (simp add: comp_def flip: level_strip [of fs n])
  note * = this arg_cong [OF this, of set]
  show "js_map_ok (fst (level fs n))" using *(1) group_all_keys(1) by (simp add: js_map_ok_def)
  show "fst ` set (fst (level fs n)) = frame_key ` set (selected fs)" using *(2) by (simp add: group_all_keys(2))
qed

lemma level_lookup: "map_option strip_id (map_of (fst (level fs n)) k) = merged group_fresh group_merge (filter (\<lambda>f. frame_key f = k) (selected fs))"
  by (simp add: level_strip flip: map_of_apsnd group_all_lookup)

subsection \<open>The recursion\<close>

fun frame_size :: "ChartFrame \<Rightarrow> nat" where
  "frame_size (ChartFrame d kids) = Suc (sum_list (map frame_size kids))"

lemma frame_size_children: "frame_size f = Suc (sum_list (map frame_size (cf_children f)))"
  by (cases f) simp

lemma group_all_length: "length (group_all key fresh merge ns) \<le> length ns"
proof -
  have "length (group_all key fresh merge ns) = card (key ` set ns)"
    using group_all_keys [of key fresh merge ns] distinct_card by (fastforce simp: js_map_ok_def)
  then show ?thesis by (metis card_image_le card_length finite_set le_trans)
qed

lemma selected_size: "sum_list (map (\<lambda>f. sum_list (map frame_size (cf_children f))) (selected fs)) + length (selected fs) \<le> sum_list (map frame_size fs)"
proof (induction fs)
  case (Cons f fs)
  then show ?case using frame_size_children [of f] by (simp add: selected_def)
qed (simp add: selected_def)

text \<open>There are fewer frames below the groups of a level than frames at the level and below.\<close>

lemma level_size:
  "sum_list (map (\<lambda>v. sum_list (map frame_size (snd v))) (map snd (fst (level fs n)))) + length (fst (level fs n)) \<le> sum_list (map frame_size fs)"
proof -
  have "length (fst (level fs n)) = length (group_all frame_key group_fresh group_merge (selected fs))"
    by (metis length_map level_strip)
  then have "length (fst (level fs n)) \<le> length (selected fs)" by (simp add: group_all_length)
  moreover have "sum_list (map (\<lambda>v. sum_list (map frame_size (snd v))) (map snd (fst (level fs n))))
      = sum_list (map (\<lambda>f. sum_list (map frame_size (cf_children f))) (selected fs))"
    by (subst level_sum) (simp_all add: group_kids.sum_group)
  ultimately show ?thesis using selected_size [of fs] by linarith
qed

text \<open>All groups of a level get their identifiers before any group is entered.\<close>

function combineTopDownData :: "ChartFrame list \<Rightarrow> int \<Rightarrow> TabStruct list \<times> int"
  and topdown_groups :: "tab_group list \<Rightarrow> int \<Rightarrow> TabStruct list \<times> int" where
  "combineTopDownData fs n = topdown_groups (map snd (fst (level fs n))) (snd (level fs n))"
| "topdown_groups [] n = ([], n)"
| "topdown_groups (v # vs) n =
     (let (ts, n1) = combineTopDownData (snd v) n; (rest, n2) = topdown_groups vs n1 in (TabStruct (fst v) ts # rest, n2))"
  by pat_completeness auto

termination
proof (relation "measure (\<lambda>x. case x of Inl (fs, n) \<Rightarrow> 2 * sum_list (map frame_size fs) + 1
    | Inr (vs, n) \<Rightarrow> 2 * (sum_list (map (\<lambda>v. sum_list (map frame_size (snd v))) vs) + length vs))", goal_cases)
  case (2 fs n)
  then show ?case using level_size [of fs n] by simp
qed auto

declare combineTopDownData.simps [simp del]

section \<open>What the table holds\<close>

lemma topdown_groups_shape:
  "list_all2 (\<lambda>v t. tb_data t = fst v \<and> (\<exists>n. tb_children t = fst (combineTopDownData (snd v) n))) vs (fst (topdown_groups vs n))"
  by (induction vs arbitrary: n) (auto simp: case_prod_unfold Let_def)

fun tab_self :: "TabStruct \<Rightarrow> int" where
  "tab_self (TabStruct d ts) = tb_selfTime d + sum_list (map tab_self ts)"

text \<open>The own times of the frames that are selected together with all frames above them.\<close>

fun visible_self :: "ChartFrame \<Rightarrow> int" where
  "visible_self (ChartFrame d kids) = (if cf_isSelect d then cf_selfTime d + sum_list (map visible_self kids) else 0)"

lemma visible_self_selected:
  "sum_list (map visible_self fs) = sum_list (map (\<lambda>f. cf_selfTime (cf_data f)) (selected fs)) + sum_list (map (\<lambda>f. sum_list (map visible_self (cf_children f))) (selected fs))"
proof (induction fs)
  case (Cons f fs)
  then show ?case by (cases f) (simp add: selected_def)
qed (simp add: selected_def)

lemma combineTopDownData_self_sum:
  "sum_list (map tab_self (fst (combineTopDownData fs n))) = sum_list (map visible_self fs)"
  "sum_list (map tab_self (fst (topdown_groups vs n))) = sum_list (map (\<lambda>v. tb_selfTime (fst v)) vs) + sum_list (map (\<lambda>v. sum_list (map visible_self (snd v))) vs)"
proof (induction fs n and vs n rule: combineTopDownData_topdown_groups.induct)
  case (1 fs n)
  have "sum_list (map (\<lambda>v. tb_selfTime (fst v)) (map snd (fst (level fs n)))) = sum_list (map (\<lambda>f. cf_selfTime (cf_data f)) (selected fs))"
    by (subst level_sum) (simp_all add: group_self.sum_group)
  moreover have "sum_list (map (\<lambda>v. sum_list (map visible_self (snd v))) (map snd (fst (level fs n))))
      = sum_list (map (\<lambda>f. sum_list (map visible_self (cf_children f))) (selected fs))"
    by (subst level_sum) (simp_all add: group_kids.sum_group)
  ultimately show ?case using 1 visible_self_selected [of fs] by (simp add: combineTopDownData.simps)
next
  case (3 v vs n)
  then show ?case by (cases "combineTopDownData (snd v) n") (simp add: case_prod_unfold Let_def)
qed simp

subsection \<open>Identifiers\<close>

fun tab_ids :: "TabStruct \<Rightarrow> int list" where
  "tab_ids (TabStruct d ts) = tb_id d # concat (map tab_ids ts)"

lemma js_map_set_map: "map_of m k = Some v \<Longrightarrow> h v' = h v \<Longrightarrow> map (h \<circ> snd) (js_map_set k v' m) = map (h \<circ> snd) m"
  by (induction m) (auto split: if_splits)

lemma level_ids: "n \<le> snd (level fs n) \<and> map (\<lambda>v. tb_id (fst v)) (map snd (fst (level fs n))) = [n..snd (level fs n) - 1]"
proof (induction fs rule: rev_induct)
  case Nil
  then show ?case by (simp add: level_def)
next
  case (snoc f fs)
  obtain m k where mk: "level fs n = (m, k)" by fastforce
  have IH: "n \<le> k" "map ((\<lambda>v. tb_id (fst v)) \<circ> snd) m = [n..k - 1]" using snoc.IH by (simp_all add: mk comp_def)
  have run: "level (fs @ [f]) n = level_step f (m, k)" using mk by (simp add: level_def)
  have id: "tb_id (fst (group_merge f v)) = tb_id (fst v)" for v by (simp add: group_merge_def case_prod_unfold)
  show ?case
  proof (cases "map_of m (frame_key f)")
    case None
    then show ?thesis using IH upto_rec2 [of n k]
      by (auto simp: run level_step_def js_map_set_new comp_def chartFrameToTabStruct_def newTabStruct_def)
  next
    case (Some v)
    have "map ((\<lambda>v. tb_id (fst v)) \<circ> snd) (js_map_set (frame_key f) (group_merge f v) m) = [n..k - 1]"
      using js_map_set_map [OF Some, where h = "\<lambda>v. tb_id (fst v)", OF id] IH(2) by simp
    then show ?thesis using IH Some by (auto simp: run level_step_def comp_def)
  qed
qed

lemma upto_append: "n \<le> l \<Longrightarrow> l \<le> k \<Longrightarrow> [n..k - 1] = [n..l - 1] @ [l..k - 1]" for k :: int
  using upto_split1 [of n l "k - 1"] by (cases "l = k") auto

lemma combineTopDownData_ids:
  "n \<le> snd (combineTopDownData fs n) \<and> mset (concat (map tab_ids (fst (combineTopDownData fs n)))) = mset [n..snd (combineTopDownData fs n) - 1]"
  "n' \<le> snd (topdown_groups vs n') \<and> mset (concat (map tab_ids (fst (topdown_groups vs n')))) = mset (map (\<lambda>v. tb_id (fst v)) vs) + mset [n'..snd (topdown_groups vs n') - 1]"
proof (induction fs n and vs n' rule: combineTopDownData_topdown_groups.induct)
  case (1 fs n)
  then show ?case
    using level_ids [of n fs] upto_append [of n "snd (level fs n)" "snd (topdown_groups (map snd (fst (level fs n))) (snd (level fs n)))"]
    by (auto simp: combineTopDownData.simps simp del: mset_map)
next
  case (3 v vs n)
  obtain ts n1 where a: "combineTopDownData (snd v) n = (ts, n1)" by fastforce
  obtain rest n2 where b: "topdown_groups vs n1 = (rest, n2)" by fastforce
  have le: "n \<le> n1" "n1 \<le> n2" using 3 a b by simp_all
  then have "[n..n2 - 1] = [n..n1 - 1] @ [n1..n2 - 1]"
    by (rule upto_append)
  then show ?case using 3 a b le by auto
qed simp_all

subsection \<open>Call paths\<close>

definition tab_key :: "TabStruct \<Rightarrow> jsstring" where
  "tab_key t = symbol_key (tb_name (tb_data t)) (tb_url (tb_data t)) (tb_line (tb_data t)) (tb_column (tb_data t))"

text \<open>The row of a table that a path of symbols leads to, and the frames it stands for.\<close>

fun tab_at :: "jsstring list \<Rightarrow> TabStruct list \<Rightarrow> TabData option" where
  "tab_at [] ts = None"
| "tab_at (k # p) ts =
     (case List.find (\<lambda>t. tab_key t = k) ts of None \<Rightarrow> None | Some t \<Rightarrow> if p = [] then Some (tb_data t) else tab_at p (tb_children t))"

definition frames_with :: "jsstring \<Rightarrow> ChartFrame list \<Rightarrow> ChartFrame list" where
  "frames_with k fs = filter (\<lambda>f. frame_key f = k) (selected fs)"

fun frames_at :: "jsstring list \<Rightarrow> ChartFrame list \<Rightarrow> ChartFrame list" where
  "frames_at [] fs = []"
| "frames_at (k # p) fs = (if p = [] then frames_with k fs else frames_at p (concat (map cf_children (frames_with k fs))))"

text \<open>Every table has one row per symbol at each level.\<close>

fun tab_ok :: "TabStruct \<Rightarrow> bool" where
  "tab_ok (TabStruct d ts) \<longleftrightarrow> distinct (map tab_key ts) \<and> (\<forall>t\<in>set ts. tab_ok t)"

definition data_key :: "TabData \<Rightarrow> jsstring" where
  "data_key d = symbol_key (tb_name d) (tb_url d) (tb_line d) (tb_column d)"

lemma data_key_strip: "data_key (fst (strip_id v)) = data_key (fst v)"
  by (simp add: data_key_def)

lemma merged_group:
  assumes "merged group_fresh group_merge fs = Some v"
  shows "snd v = concat (map cf_children fs)" "\<exists>f\<in>set fs. data_key (fst v) = frame_key f" "fs \<noteq> []"
proof -
  obtain f fs' where fs: "fs = f # fs'" "v = fold group_merge fs' (group_fresh f)" using assms by (cases fs) auto
  have "snd (fold group_merge gs w) = snd w @ concat (map cf_children gs) \<and> data_key (fst (fold group_merge gs w)) = data_key (fst w)" for gs w
    by (induction gs arbitrary: w) (simp_all add: group_merge_def case_prod_unfold data_key_def)
  then show "snd v = concat (map cf_children fs)" "\<exists>f\<in>set fs. data_key (fst v) = frame_key f"
    by (simp_all add: fs group_fresh_def data_key_def frame_key_def chartFrameToTabStruct_def newTabStruct_def)
  show "fs \<noteq> []" by (simp add: fs)
qed

lemma level_entry:
  assumes "map_of (fst (level fs n)) k = Some v"
  shows "data_key (fst v) = k" "snd v = concat (map cf_children (frames_with k fs))" "frames_with k fs \<noteq> []"
    "tb_selfTime (fst v) = sum_list (map (\<lambda>f. cf_selfTime (cf_data f)) (frames_with k fs))"
    "tb_totalTime (fst v) = sum_list (map (\<lambda>f. cf_totalTime (cf_data f)) (frames_with k fs))"
proof -
  have m: "merged group_fresh group_merge (frames_with k fs) = Some (strip_id v)"
    using level_lookup [of fs n k] assms by (simp add: frames_with_def)
  show "data_key (fst v) = k" using merged_group(2) [OF m] by (auto simp: data_key_strip frames_with_def)
  show "snd v = concat (map cf_children (frames_with k fs))" "frames_with k fs \<noteq> []" using merged_group(1,3) [OF m] by simp_all
  show "tb_selfTime (fst v) = sum_list (map (\<lambda>f. cf_selfTime (cf_data f)) (frames_with k fs))"
    "tb_totalTime (fst v) = sum_list (map (\<lambda>f. cf_totalTime (cf_data f)) (frames_with k fs))"
    using group_self.total_merged [OF m] group_total.total_merged [OF m] by simp_all
qed

lemma level_entry_none: "map_of (fst (level fs n)) k = None \<Longrightarrow> frames_with k fs = []"
  using level_lookup [of fs n k] by (cases "frames_with k fs") (simp_all add: frames_with_def)

lemma tab_key_data: "tab_key t = data_key (tb_data t)"
  by (simp add: tab_key_def data_key_def)

text \<open>A level of the table in terms of the entries of the grouping.\<close>

lemma find_rows:
  assumes "list_all2 (\<lambda>v t. tb_data t = fst v \<and> P v t) (map snd m) ts" "\<And>k v. (k, v) \<in> set m \<Longrightarrow> data_key (fst v) = k"
  shows "case map_of m k of None \<Rightarrow> List.find (\<lambda>t. tab_key t = k) ts = None
    | Some v \<Rightarrow> (\<exists>t. List.find (\<lambda>t. tab_key t = k) ts = Some t \<and> tb_data t = fst v \<and> P v t)"
  using assms
proof (induction m arbitrary: ts)
  case (Cons kv m)
  obtain k' v where kv: "kv = (k', v)" by (cases kv)
  obtain t ts' where ts: "ts = t # ts'" "tb_data t = fst v" "P v t" "list_all2 (\<lambda>v t. tb_data t = fst v \<and> P v t) (map snd m) ts'"
    using Cons.prems(1) by (auto simp: kv list_all2_Cons1)
  have key: "tab_key t = k'" using Cons.prems(2) [of k' v] ts(2) by (simp add: kv tab_key_data)
  show ?case using Cons.IH [OF ts(4)] Cons.prems(2) ts key by (auto simp: kv split: option.splits)
qed simp

lemma topdown_find:
  "case map_of (fst (level fs n)) k of None \<Rightarrow> List.find (\<lambda>t. tab_key t = k) (fst (combineTopDownData fs n)) = None
    | Some v \<Rightarrow> (\<exists>t. List.find (\<lambda>t. tab_key t = k) (fst (combineTopDownData fs n)) = Some t \<and> tb_data t = fst v
        \<and> (\<exists>n. tb_children t = fst (combineTopDownData (snd v) n)))"
  unfolding combineTopDownData.simps [of fs n]
  by (rule find_rows [OF topdown_groups_shape]) (auto dest: level_entry(1) simp: js_map_ok_get [OF level_keys(1)])

lemma tab_at_frames:
  "case tab_at p (fst (combineTopDownData fs n)) of
     None \<Rightarrow> frames_at p fs = []
   | Some d \<Rightarrow> frames_at p fs \<noteq> [] \<and> tb_selfTime d = sum_list (map (\<lambda>f. cf_selfTime (cf_data f)) (frames_at p fs))
       \<and> tb_totalTime d = sum_list (map (\<lambda>f. cf_totalTime (cf_data f)) (frames_at p fs))"
proof (induction p arbitrary: fs n)
  case (Cons k p)
  note find = topdown_find [of k fs n]
  have empty: "frames_at q [] = []" for q by (induction q) (simp_all add: frames_with_def selected_def)
  show ?case
  proof (cases "map_of (fst (level fs n)) k")
    case None
    then show ?thesis using find level_entry_none [OF None] empty by simp
  next
    case (Some v)
    then obtain t n' where t: "List.find (\<lambda>t. tab_key t = k) (fst (combineTopDownData fs n)) = Some t" "tb_data t = fst v"
      "tb_children t = fst (combineTopDownData (snd v) n')"
      using find by auto
    show ?thesis using Cons.IH [of "snd v" n'] t level_entry [OF Some] by (cases "p = []") (simp_all split: option.splits)
  qed
qed simp

lemma topdown_keys: "distinct (map tab_key (fst (combineTopDownData fs n)))"
proof -
  let ?m = "fst (level fs n)"
  have "map tab_key ts = map (\<lambda>v. data_key (fst v)) vs" if "list_all2 (\<lambda>v t. tb_data t = fst v \<and> P v t) vs ts" for P vs ts
    using that by (induction rule: list_all2_induct) (simp_all add: tab_key_data)
  from this [OF topdown_groups_shape] have "map tab_key (fst (combineTopDownData fs n)) = map (\<lambda>v. data_key (fst v)) (map snd ?m)"
    by (simp only: combineTopDownData.simps [of fs n])
  also have "\<dots> = map fst ?m"
    unfolding map_map
  proof (rule map_cong [OF refl])
    show "((\<lambda>v. data_key (fst v)) \<circ> snd) kv = fst kv" if "kv \<in> set ?m" for kv
      using level_entry(1) [of fs n "fst kv" "snd kv"] that js_map_ok_get [OF level_keys(1), of "fst kv" "snd kv" fs n] by simp
  qed
  finally show ?thesis using level_keys(1) [of fs n] by (simp add: js_map_ok_def)
qed

lemma topdown_ok:
  "\<forall>t\<in>set (fst (combineTopDownData fs n)). tab_ok t"
  "\<forall>t\<in>set (fst (topdown_groups vs n')). tab_ok t"
proof (induction fs n and vs n' rule: combineTopDownData_topdown_groups.induct)
  case (3 v vs n)
  then show ?case using topdown_keys [of "snd v" n] by (cases "combineTopDownData (snd v) n") (auto simp: case_prod_unfold Let_def)
qed (simp_all add: combineTopDownData.simps)

section \<open>Bottom-up\<close>

definition cloneChartFrame :: "ChartData \<Rightarrow> ChartData" where
  "cloneChartFrame d =
     (newChartFrame (cf_id d) (cf_name d) (cf_startTime d) (cf_endTime d) (cf_totalTime d) (cf_depth d) (cf_url d) (cf_line d) (cf_column d))
       \<lparr>cf_parentId := cf_parentId d, cf_isSelect := True\<rparr>"

definition clone_with :: "ChartData \<Rightarrow> ChartData \<Rightarrow> ChartData" where
  "clone_with t d = (cloneChartFrame d)\<lparr>cf_selfTime := cf_selfTime t, cf_totalTime := cf_totalTime t\<rparr>"

text \<open>The callers of a frame, the nearest first, become a chain below its copy; all of them carry its times. The code finds
  them through the \<open>parent\<close> links that the traversal sets.\<close>

fun copyParent :: "ChartData \<Rightarrow> ChartData list \<Rightarrow> ChartFrame" where
  "copyParent frame [] = ChartFrame frame []"
| "copyParent frame (parent # parents) = ChartFrame frame [copyParent (clone_with frame parent) parents]"

fun recursionTree :: "ChartData list \<Rightarrow> ChartFrame \<Rightarrow> ChartFrame list" where
  "recursionTree parents (ChartFrame d kids) =
     (if \<not> cf_isSelect d then []
      else (if cf_selfTime d > 0 then [copyParent (clone_with d d) parents] else []) @ concat (map (recursionTree (d # parents)) kids))"

definition reverseChartFrameTree :: "ChartFrame list \<Rightarrow> ChartFrame list" where
  "reverseChartFrameTree chartTreeArray = concat (map (recursionTree []) chartTreeArray)"

definition combineBottomUpData :: "ChartFrame list \<Rightarrow> int \<Rightarrow> TabStruct list \<times> int" where
  "combineBottomUpData chartTreeArray tabDataId = combineTopDownData (reverseChartFrameTree chartTreeArray) tabDataId"

text \<open>The selected functions with time of their own, each with its callers.\<close>

fun hot_chains :: "ChartData list \<Rightarrow> ChartFrame \<Rightarrow> (ChartData \<times> ChartData list) list" where
  "hot_chains parents (ChartFrame d kids) =
     (if cf_isSelect d then (if cf_selfTime d > 0 then [(d, parents)] else []) @ concat (map (hot_chains (d # parents)) kids) else [])"

definition chart_key :: "ChartData \<Rightarrow> jsstring" where
  "chart_key d = symbol_key (cf_name d) (cf_url d) (cf_line d) (cf_column d)"

text \<open>The chains that begin with a path, from the function to its callers.\<close>

definition on_path :: "jsstring list \<Rightarrow> ChartData \<times> ChartData list \<Rightarrow> bool" where
  "on_path p c \<longleftrightarrow> take (length p) (map chart_key (fst c # snd c)) = p"

definition chains_on :: "jsstring list \<Rightarrow> ChartFrame list \<Rightarrow> (ChartData \<times> ChartData list) list" where
  "chains_on p fs = filter (on_path p) (concat (map (hot_chains []) fs))"

abbreviation chain_frame :: "ChartData \<times> ChartData list \<Rightarrow> ChartFrame" where
  "chain_frame c \<equiv> copyParent (fst c) (snd c)"

definition clone_head :: "ChartData \<times> ChartData list \<Rightarrow> ChartData \<times> ChartData list" where
  "clone_head c = (clone_with (fst c) (fst c), snd c)"

text \<open>The chain of the caller.\<close>

definition caller_chain :: "ChartData \<times> ChartData list \<Rightarrow> (ChartData \<times> ChartData list) list" where
  "caller_chain c = (case snd c of [] \<Rightarrow> [] | q # qs \<Rightarrow> [(clone_with (fst c) q, qs)])"

abbreviation chain_times :: "ChartData \<times> ChartData list \<Rightarrow> int \<times> int" where
  "chain_times c \<equiv> (cf_selfTime (fst c), cf_totalTime (fst c))"

abbreviation frame_times :: "ChartFrame \<Rightarrow> int \<times> int" where
  "frame_times f \<equiv> (cf_selfTime (cf_data f), cf_totalTime (cf_data f))"

lemma clone_with_sel [simp]:
  "cf_selfTime (clone_with t d) = cf_selfTime t" "cf_totalTime (clone_with t d) = cf_totalTime t" "cf_isSelect (clone_with t d)"
  "chart_key (clone_with t d) = chart_key d"
  by (simp_all add: clone_with_def cloneChartFrame_def newChartFrame_def chart_key_def)

lemma copyParent_data [simp]: "cf_data (copyParent d ps) = d"
  by (cases ps) simp_all

lemma chain_frame_children: "cf_children (chain_frame c) = map chain_frame (caller_chain c)"
  by (cases "snd c") (simp_all add: caller_chain_def)

lemma recursionTree_chains: "recursionTree ps f = map (\<lambda>c. chain_frame (clone_head c)) (hot_chains ps f)"
  by (induction ps f rule: recursionTree.induct) (auto simp: map_concat clone_head_def intro!: arg_cong [of _ _ concat])

lemma reverse_chains: "reverseChartFrameTree fs = map chain_frame (map clone_head (concat (map (hot_chains []) fs)))"
  unfolding reverseChartFrameTree_def by (induction fs) (simp_all add: recursionTree_chains)

text \<open>The frames on a path of a list of chains: the chains that begin with it.\<close>

lemma frames_with_chains:
  "\<forall>c\<in>set L. cf_isSelect (fst c) \<Longrightarrow> frames_with k (map chain_frame L) = map chain_frame (filter (\<lambda>c. chart_key (fst c) = k) L)"
  by (induction L) (simp_all add: frames_with_def selected_def frame_key_def chart_key_def)

lemma caller_chain_path:
  "p \<noteq> [] \<Longrightarrow> map chain_times (filter (on_path p) (concat (map caller_chain (filter (\<lambda>c. chart_key (fst c) = k) L))))
    = map chain_times (filter (on_path (k # p)) L)"
proof (induction L)
  case (Cons c L)
  then show ?case by (cases "snd c") (simp_all add: caller_chain_def on_path_def)
qed simp

lemma frames_at_chains:
  assumes "p \<noteq> []" "\<forall>c\<in>set L. cf_isSelect (fst c)"
  shows "map frame_times (frames_at p (map chain_frame L)) = map chain_times (filter (on_path p) L)"
  using assms
proof (induction p arbitrary: L)
  case (Cons k p)
  let ?L = "concat (map caller_chain (filter (\<lambda>c. chart_key (fst c) = k) L))"
  show ?case
  proof (cases "p = []")
    case True
    then show ?thesis using frames_with_chains [OF Cons.prems(2)] by (simp add: on_path_def)
  next
    case False
    have "concat (map cf_children (map chain_frame M)) = map chain_frame (concat (map caller_chain M))" for M
      by (induction M) (simp_all add: chain_frame_children)
    then have "frames_at (k # p) (map chain_frame L) = frames_at p (map chain_frame ?L)"
      using False frames_with_chains [OF Cons.prems(2)] by simp
    moreover have "\<forall>c\<in>set ?L. cf_isSelect (fst c)" by (auto simp: caller_chain_def split: list.splits)
    ultimately show ?thesis using Cons.IH [OF False, of ?L] caller_chain_path [OF False, of k L] by simp
  qed
qed simp

lemma frames_at_reverse:
  assumes "p \<noteq> []"
  shows "map frame_times (frames_at p (reverseChartFrameTree fs)) = map chain_times (chains_on p fs)"
proof -
  have "map frame_times (frames_at p (map chain_frame (map clone_head L))) = map chain_times (filter (on_path p) (map clone_head L))" for L
    by (rule frames_at_chains [OF assms]) (auto simp: clone_head_def)
  also have "map chain_times (filter (on_path p) (map clone_head L)) = map chain_times (filter (on_path p) L)" for L
    by (induction L) (simp_all add: clone_head_def on_path_def)
  finally show ?thesis by (simp only: reverse_chains chains_on_def)
qed

section \<open>Properties of the tables\<close>

text \<open>C10: the top-down table is the call tree of the selected frames: a path of symbols leads to a row exactly when
  selected frames lie on it, and the row holds the sums of their own and of their total times.\<close>

theorem topdown_rows:
  "case tab_at p (fst (combineTopDownData fs n)) of
     None \<Rightarrow> frames_at p fs = []
   | Some d \<Rightarrow> frames_at p fs \<noteq> [] \<and> tb_selfTime d = sum_list (map (\<lambda>f. cf_selfTime (cf_data f)) (frames_at p fs))
       \<and> tb_totalTime d = sum_list (map (\<lambda>f. cf_totalTime (cf_data f)) (frames_at p fs))"
  by (rule tab_at_frames)

text \<open>C23: in the bottom-up table a path leads from a function to its callers. The row at its end holds the times of exactly those
  selected functions with time of their own whose call chain begins with the path; there is no row
  when there is no such function.\<close>

theorem bottomup_rows:
  "case tab_at (k # p) (fst (combineBottomUpData fs n)) of
     None \<Rightarrow> chains_on (k # p) fs = []
   | Some d \<Rightarrow> chains_on (k # p) fs \<noteq> [] \<and> tb_selfTime d = sum_list (map (\<lambda>c. cf_selfTime (fst c)) (chains_on (k # p) fs))
       \<and> tb_totalTime d = sum_list (map (\<lambda>c. cf_totalTime (fst c)) (chains_on (k # p) fs))"
proof -
  let ?g = "frames_at (k # p) (reverseChartFrameTree fs)" and ?c = "chains_on (k # p) fs"
  have times: "map frame_times ?g = map chain_times ?c"
    by (rule frames_at_reverse) simp
  have "length ?g = length ?c" using arg_cong [OF times, of length] by (simp only: length_map)
  then have "?g = [] \<longleftrightarrow> ?c = []" by (metis length_0_conv)
  moreover have "map (\<lambda>f. cf_selfTime (cf_data f)) ?g = map (\<lambda>c. cf_selfTime (fst c)) ?c"
    "map (\<lambda>f. cf_totalTime (cf_data f)) ?g = map (\<lambda>c. cf_totalTime (fst c)) ?c"
    using arg_cong [OF times, of "map fst"] arg_cong [OF times, of "map snd"] by (simp_all add: comp_def del: frames_at.simps)
  ultimately show ?thesis
    using tab_at_frames [of "k # p" "reverseChartFrameTree fs" n] by (simp only: combineBottomUpData_def)
qed

text \<open>In a top-down table no level has two rows of one symbol, the identifiers of the rows are the numbers drawn from
  the counter, each once, and the own times of all rows add up to those of the selected frames below selected frames.\<close>

theorem topdown_invariant:
  "let r = combineTopDownData fs n in distinct (map tab_key (fst r)) \<and> list_all tab_ok (fst r)
     \<and> mset (concat (map tab_ids (fst r))) = mset [n..snd r - 1] \<and> sum_list (map tab_self (fst r)) = sum_list (map visible_self fs)"
  using topdown_keys [of fs n] topdown_ok(1) [of fs n] combineTopDownData_ids(1) [of n fs] combineTopDownData_self_sum(1) [of fs n]
  by (simp add: list_all_iff Let_def)

end
