(* ===== verification/Profiler_Statistics.thy ===== *)
theory Profiler_Statistics
  imports Profiler_Tabs
begin

text \<open>
  The ArkTS CPU profiler: the time of every kind of code
  (\<open>trace/database/logic-worker/ProcedureLogicWorkerJsCpuProfiler.ts\<close>, \<open>calStatistic\<close> and \<open>findSamplesIds\<close>).

  The code asks whether a frame or a sample was met before by the identity of the objects. A frame is known by the number that
  \<open>chartId\<close> gave it (\<open>combine_frame_ids\<close>: no two frames of a chart share one), a sample by its index in \<open>samples\<close>.
\<close>

section \<open>The samples of the selected frames\<close>

function findSamplesIds :: "ChartFrame list \<Rightarrow> int list \<Rightarrow> int list \<Rightarrow> int list \<times> int list" where
  "findSamplesIds [] lastLayerData samplesIds = (lastLayerData, samplesIds)"
| "findSamplesIds (ChartFrame d kids # fs) lastLayerData samplesIds =
     (if cf_isSelect d \<and> cf_selfTime d > 0 \<and> cf_id d \<notin> set lastLayerData
      then findSamplesIds fs (lastLayerData @ [cf_id d]) (samplesIds @ cf_samplesIds d)
      else if kids \<noteq> []
      then (let (lastLayerData', samplesIds') = findSamplesIds kids lastLayerData samplesIds in findSamplesIds fs lastLayerData' samplesIds')
      else findSamplesIds fs lastLayerData samplesIds)"
  by pat_completeness auto

termination
  by (relation "measure (\<lambda>(fs, _, _). sum_list (map frame_size fs))") auto

section \<open>The time of every type\<close>

definition in_range :: "int option \<Rightarrow> int option \<Rightarrow> (int \<times> int) option" where
  "in_range leftNs rightNs =
     (case (leftNs, rightNs) of (Some l, Some r) \<Rightarrow> if l \<noteq> 0 \<and> r \<noteq> 0 then Some (l, r) else None | _ \<Rightarrow> None)"

text \<open>The time a sample counts for; \<open>None\<close> outside of the range.\<close>

definition sample_time :: "(int \<times> int) option \<Rightarrow> JsCpuProfilerSample \<Rightarrow> int option" where
  "sample_time rng x =
     (case rng of
        None \<Rightarrow> Some (sm_dur x)
      | Some (l, r) \<Rightarrow>
          if sm_startTime x > r \<or> sm_endTime x < l then None
          else Some ((if sm_endTime x > r then r else sm_endTime x) - (if sm_startTime x < l then l else sm_startTime x)))"

definition sample_at :: "JsCpuProfilerSample list \<Rightarrow> int \<Rightarrow> JsCpuProfilerSample option" where
  "sample_at samples i = (if 0 \<le> i \<and> nat i < length samples then Some (samples ! nat i) else None)"

text \<open>The type and the time of a sample that counts.\<close>

definition sample_entry :: "JsCpuProfilerSample list \<Rightarrow> (int \<times> int) option \<Rightarrow> int \<Rightarrow> (SampleType \<times> int) option" where
  "sample_entry samples rng i =
     (case sample_at samples i of
        None \<Rightarrow> None
      | Some x \<Rightarrow> (case sm_type x of None \<Rightarrow> None | Some t \<Rightarrow> map_option (Pair t) (sample_time rng x)))"

definition stat_step ::
  "JsCpuProfilerSample list \<Rightarrow> (int \<times> int) option \<Rightarrow> int \<Rightarrow> int list \<times> (SampleType \<times> int) list \<Rightarrow> int list \<times> (SampleType \<times> int) list" where
  "stat_step samples rng i = (\<lambda>(samplesIdsArr, typeMap).
     case sample_entry samples rng i of
       None \<Rightarrow> (samplesIdsArr, typeMap)
     | Some (t, sampleTotalTime) \<Rightarrow>
         if i \<in> set samplesIdsArr then (samplesIdsArr, typeMap)
         else (samplesIdsArr @ [i],
               (case map_of typeMap t of
                  Some typeDur \<Rightarrow> if typeDur \<noteq> 0 then js_map_set t (typeDur + sampleTotalTime) typeMap else js_map_set t sampleTotalTime typeMap
                | None \<Rightarrow> js_map_set t sampleTotalTime typeMap)))"

definition calStatistic :: "JsCpuProfilerSample list \<Rightarrow> ChartFrame list \<Rightarrow> int option \<Rightarrow> int option \<Rightarrow> (SampleType \<times> int) list" where
  "calStatistic samples chartData leftNs rightNs =
     snd (fold (stat_step samples (in_range leftNs rightNs)) (snd (findSamplesIds chartData [] [])) ([], []))"

subsection \<open>The statistic as a grouping\<close>

text \<open>The entries that count: those of the samples found, each sample once.\<close>

definition stat_entries :: "JsCpuProfilerSample list \<Rightarrow> (int \<times> int) option \<Rightarrow> int list \<Rightarrow> (SampleType \<times> int) list" where
  "stat_entries samples rng ids = List.map_filter (sample_entry samples rng) (rev (remdups (rev ids)))"

lemma stat_step_group:
  "sample_entry samples rng i = Some e \<Longrightarrow> i \<notin> set seen \<Longrightarrow>
   stat_step samples rng i (seen, m) = (seen @ [i], group_step fst snd (\<lambda>e v. v + snd e) e m)"
  by (auto simp: stat_step_def group_step_def split: option.split prod.split)

lemma stat_step_skip:
  "sample_entry samples rng i = None \<or> i \<in> set seen \<Longrightarrow> stat_step samples rng i (seen, m) = (seen, m)"
  by (auto simp: stat_step_def split: option.split)

lemma stat_entries_snoc:
  "stat_entries samples rng (ids @ [i]) =
     stat_entries samples rng ids @ (if i \<in> set ids then [] else case sample_entry samples rng i of None \<Rightarrow> [] | Some e \<Rightarrow> [e])"
  by (simp add: stat_entries_def List.map_filter_def split: option.split del: not_None_eq)

lemma stat_fold:
  "\<exists>seen. fold (stat_step samples rng) ids ([], []) = (seen, group_all fst snd (\<lambda>e v. v + snd e) (stat_entries samples rng ids))
     \<and> set seen = {i \<in> set ids. sample_entry samples rng i \<noteq> None}"
proof (induction ids rule: rev_induct)
  case Nil
  then show ?case by (simp add: stat_entries_def group_all_def map_filter_simps)
next
  case (snoc i ids)
  then obtain seen where run: "fold (stat_step samples rng) ids ([], []) = (seen, group_all fst snd (\<lambda>e v. v + snd e) (stat_entries samples rng ids))"
    and seen: "set seen = {i \<in> set ids. sample_entry samples rng i \<noteq> None}" by blast
  show ?case
  proof (cases "sample_entry samples rng i = None \<or> i \<in> set ids")
    case True
    then have "sample_entry samples rng i = None \<or> i \<in> set seen" by (simp add: seen del: not_None_eq) blast
    from stat_step_skip [OF this] True seen show ?thesis
      by (auto simp: run stat_entries_snoc simp del: not_None_eq split: option.split)
  next
    case False
    then obtain e where e: "sample_entry samples rng i = Some e" "i \<notin> set ids" "i \<notin> set seen" using seen by auto
    have "set (seen @ [i]) = {j \<in> set (ids @ [i]). sample_entry samples rng j \<noteq> None}" using seen e by auto
    then show ?thesis using e stat_step_group [OF e(1,3)] by (simp add: run stat_entries_snoc group_all_def del: not_None_eq)
  qed
qed

interpretation type_time: additive_group "snd :: SampleType \<times> int \<Rightarrow> int" "\<lambda>e v. v + snd e" id snd
  by unfold_locales auto

lemma calStatistic_group:
  "calStatistic samples fs l r = group_all fst snd (\<lambda>e v. v + snd e) (stat_entries samples (in_range l r) (snd (findSamplesIds fs [] [])))"
  using stat_fold [of samples "in_range l r" "snd (findSamplesIds fs [] [])"] by (auto simp: calStatistic_def)

section \<open>Bounds\<close>

definition clip :: "int \<Rightarrow> int \<Rightarrow> JsCpuProfilerSample \<Rightarrow> int" where
  "clip l r x = (case sample_time (Some (l, r)) x of None \<Rightarrow> 0 | Some t \<Rightarrow> t)"

lemma clip_bounds:
  assumes "sm_startTime x \<le> sm_endTime x" "l \<le> r"
  shows "0 \<le> clip l r x" "clip l r x \<le> max 0 (min r (sm_endTime x) - max l (sm_startTime x))"
  using assms by (auto simp: clip_def sample_time_def)

text \<open>The samples in their order of time, none overlapping another.\<close>

definition samples_ordered :: "JsCpuProfilerSample list \<Rightarrow> bool" where
  "samples_ordered xs \<longleftrightarrow> (\<forall>x\<in>set xs. sm_startTime x \<le> sm_endTime x) \<and> sorted_wrt (\<lambda>x y. sm_endTime x \<le> sm_startTime y) xs"

lemma clip_sum:
  assumes "samples_ordered xs" "l \<le> r" "\<forall>x\<in>set xs. sm_endTime x \<le> t"
  shows "sum_list (map (clip l r) xs) \<le> max 0 (min r t - l)"
  using assms
proof (induction xs arbitrary: t rule: rev_induct)
  case (snoc x xs)
  have x: "sm_startTime x \<le> sm_endTime x" "sm_endTime x \<le> t" "\<forall>y\<in>set xs. sm_endTime y \<le> sm_startTime x" "samples_ordered xs"
    using snoc.prems by (auto simp: samples_ordered_def sorted_wrt_append)
  have "sum_list (map (clip l r) xs) \<le> max 0 (min r (sm_startTime x) - l)" using snoc.IH [OF x(4) snoc.prems(2) x(3)] .
  then show ?case using clip_bounds(2) [OF x(1) snoc.prems(2)] x(1,2) by (auto simp: max_def min_def split: if_splits)
qed simp

lemma sum_sub_indices:
  fixes c :: "nat \<Rightarrow> int"
  assumes "distinct is" "set is \<subseteq> {..<n}" "\<And>i. i < n \<Longrightarrow> 0 \<le> c i"
  shows "sum_list (map c is) \<le> (\<Sum>i<n. c i)"
proof -
  have "sum_list (map c is) = sum c (set is)" using assms(1) by (simp add: sum_list_distinct_conv_sum_set)
  also have "\<dots> \<le> (\<Sum>i<n. c i)" by (rule sum_mono2) (use assms in auto)
  finally show ?thesis .
qed

text \<open>The entries of a range, by the indices of their samples.\<close>

lemma stat_entries_clip:
  "\<exists>is. distinct is \<and> set is \<subseteq> {..<length samples}
     \<and> map snd (stat_entries samples (Some (l, r)) ids) = map (\<lambda>i. clip l r (samples ! i)) is"
proof -
  let ?e = "sample_entry samples (Some (l, r))"
  let ?js = "filter (\<lambda>i. ?e i \<noteq> None) (rev (remdups (rev ids)))"
  have ok: "0 \<le> i \<and> nat i < length samples \<and> snd (the (?e i)) = clip l r (samples ! nat i)" if "?e i \<noteq> None" for i
    using that by (auto simp: sample_entry_def sample_at_def clip_def split: option.splits if_splits)
  have "inj_on nat (set ?js)"
  proof (rule inj_onI)
    fix i j assume "i \<in> set ?js" "j \<in> set ?js" "nat i = nat j"
    then show "i = j" using ok [of i] ok [of j] eq_nat_nat_iff [of i j] by simp
  qed
  then have "distinct (map nat ?js)" by (simp add: distinct_map)
  moreover have "set (map nat ?js) \<subseteq> {..<length samples}" using ok by (auto simp del: not_None_eq)
  moreover have "map snd (stat_entries samples (Some (l, r)) ids) = map (\<lambda>i. clip l r (samples ! i)) (map nat ?js)"
    using ok by (simp add: stat_entries_def List.map_filter_def del: not_None_eq)
  ultimately show ?thesis by blast
qed

lemma calStatistic_sum: "sum_list (map snd (calStatistic samples fs l r)) = sum_list (map snd (stat_entries samples (in_range l r) (snd (findSamplesIds fs [] []))))"
  using type_time.sum_group [of fst "stat_entries samples (in_range l r) (snd (findSamplesIds fs [] []))"]
  by (simp add: calStatistic_group)

lemma sum_list_nth_upto: "sum_list (map f xs) = (\<Sum>i<length xs. f (xs ! i))" for f :: "'a \<Rightarrow> int"
  by (simp add: sum_list_sum_nth atLeast0LessThan)

text \<open>In a selected range of time that does not begin or end at zero, the times of all types together are never more than the length of the
  range, whatever frames are selected, when the samples do not overlap.\<close>

theorem calStatistic_bound:
  assumes "samples_ordered samples" "0 < l" "l \<le> r"
  shows "sum_list (map snd (calStatistic samples fs (Some l) (Some r))) \<le> r - l"
proof -
  obtain idx where idx: "distinct idx" "set idx \<subseteq> {..<length samples}"
    "map snd (stat_entries samples (Some (l, r)) (snd (findSamplesIds fs [] []))) = map (\<lambda>i. clip l r (samples ! i)) idx"
    using stat_entries_clip by blast
  have pos: "0 \<le> clip l r (samples ! i)" if "i < length samples" for i
    using clip_bounds(1) assms that by (auto simp: samples_ordered_def)
  have "sum_list (map snd (calStatistic samples fs (Some l) (Some r))) = sum_list (map (\<lambda>i. clip l r (samples ! i)) idx)"
    using assms idx(3) by (simp add: calStatistic_sum in_range_def)
  also have "\<dots> \<le> sum_list (map (clip l r) samples)" using sum_sub_indices [OF idx(1,2) pos] by (simp add: sum_list_nth_upto)
  also have "\<dots> \<le> r - l"
  proof -
    obtain t where "\<forall>x\<in>set samples. sm_endTime x \<le> t" by (metis List.finite_set finite_imageI imageI Max_ge)
    from clip_sum [OF assms(1,3) this] show ?thesis using assms(3) by (simp add: max_def min_def split: if_splits)
  qed
  finally show ?thesis .
qed

section \<open>Every sample of a chart is found\<close>

fun frame_ids :: "ChartFrame \<Rightarrow> int list" where
  "frame_ids (ChartFrame d kids) = cf_id d # concat (map frame_ids kids)"

abbreviation frame_samples :: "ChartFrame \<Rightarrow> int set" where
  "frame_samples f \<equiv> set (cf_samplesIds (cf_data f))"

text \<open>A frame has the samples of the frames below it, and no others unless it has time of its own.\<close>

fun covers :: "ChartFrame \<Rightarrow> bool" where
  "covers (ChartFrame d kids) \<longleftrightarrow> cf_selfTime d \<ge> 0 \<and> (\<forall>k\<in>set kids. covers k \<and> frame_samples k \<subseteq> set (cf_samplesIds d))
     \<and> (cf_selfTime d > 0 \<or> set (cf_samplesIds d) \<subseteq> (\<Union>k\<in>set kids. frame_samples k))"

fun all_selected :: "ChartFrame \<Rightarrow> bool" where
  "all_selected (ChartFrame d kids) \<longleftrightarrow> cf_isSelect d \<and> (\<forall>k\<in>set kids. all_selected k)"

text \<open>The samples that a selection stands for: those of the topmost frames that are selected and have time of their own.\<close>

fun selected_samples :: "ChartFrame \<Rightarrow> int set" where
  "selected_samples (ChartFrame d kids) = (if cf_isSelect d \<and> cf_selfTime d > 0 then set (cf_samplesIds d) else (\<Union>k\<in>set kids. selected_samples k))"

lemma findSamplesIds_selected:
  assumes "distinct (concat (map frame_ids fs))" "set layer \<inter> set (concat (map frame_ids fs)) = {}"
  shows "set (snd (findSamplesIds fs layer ids)) = set ids \<union> (\<Union>f\<in>set fs. selected_samples f)
    \<and> set (fst (findSamplesIds fs layer ids)) \<subseteq> set layer \<union> set (concat (map frame_ids fs))"
  using assms
proof (induction fs layer ids rule: findSamplesIds.induct)
  case (2 d kids fs layer ids)
  have dist: "distinct (concat (map frame_ids kids))" "distinct (concat (map frame_ids fs))" "set layer \<inter> set (concat (map frame_ids kids)) = {}"
    "set (concat (map frame_ids fs)) \<inter> set (frame_ids (ChartFrame d kids)) = {}" "set layer \<inter> set (concat (map frame_ids fs)) = {}" "cf_id d \<notin> set layer"
    using "2.prems" by auto
  show ?case
  proof (cases "cf_isSelect d \<and> cf_selfTime d > 0")
    case True
    then have c: "cf_isSelect d \<and> 0 < cf_selfTime d \<and> cf_id d \<notin> set layer" using dist(6) by simp
    have "set (layer @ [cf_id d]) \<inter> set (concat (map frame_ids fs)) = {}" using dist(4,5) by auto
    from "2.IH"(1) [OF c dist(2) this] c show ?thesis by auto
  next
    case False
    then have c: "\<not> (cf_isSelect d \<and> 0 < cf_selfTime d \<and> cf_id d \<notin> set layer)" by blast
    show ?thesis
    proof (cases "kids = []")
      case True
      from "2.IH"(4) [OF c] True dist c show ?thesis by auto
    next
      case ne: False
      obtain layer' ids' where r: "findSamplesIds kids layer ids = (layer', ids')" by fastforce
      have k: "set ids' = set ids \<union> (\<Union>f\<in>set kids. selected_samples f)" "set layer' \<subseteq> set layer \<union> set (concat (map frame_ids kids))"
        using "2.IH"(2) [OF c ne dist(1,3)] r by simp_all
      have "set layer' \<inter> set (concat (map frame_ids fs)) = {}" using k(2) dist(4,5) by fastforce
      from "2.IH"(3) [OF c ne r [symmetric] refl dist(2) this] c ne r k False show ?thesis by auto
    qed
  qed
qed simp

lemma selected_all: "all_selected f \<Longrightarrow> covers f \<Longrightarrow> selected_samples f = frame_samples f"
proof (induction f)
  case (ChartFrame d kids)
  then show ?case by (cases "cf_selfTime d > 0") auto
qed

lemma findSamplesIds_all:
  assumes "\<forall>f\<in>set fs. all_selected f \<and> covers f" "distinct (concat (map frame_ids fs))"
  shows "set (snd (findSamplesIds fs [] [])) = (\<Union>f\<in>set fs. frame_samples f)"
  using findSamplesIds_selected [OF assms(2), of "[]" "[]"] selected_all assms(1) by auto

section \<open>The time of every type, exactly\<close>

text \<open>What the range means: it restricts the samples and cuts their times unless an end is missing or zero.\<close>

definition no_range :: "int option \<Rightarrow> int option \<Rightarrow> bool" where
  "no_range l r \<longleftrightarrow> l = None \<or> r = None \<or> l = Some 0 \<or> r = Some 0"

definition meets_range :: "int option \<Rightarrow> int option \<Rightarrow> JsCpuProfilerSample \<Rightarrow> bool" where
  "meets_range l r x \<longleftrightarrow> no_range l r \<or> sm_startTime x \<le> the r \<and> the l \<le> sm_endTime x"

definition time_in_range :: "int option \<Rightarrow> int option \<Rightarrow> JsCpuProfilerSample \<Rightarrow> int" where
  "time_in_range l r x = (if no_range l r then sm_dur x else min (the r) (sm_endTime x) - max (the l) (sm_startTime x))"

lemma sample_time_range: "sample_time (in_range l r) x = (if meets_range l r x then Some (time_in_range l r x) else None)"
  by (cases l; cases r) (auto simp: sample_time_def in_range_def meets_range_def time_in_range_def no_range_def)

lemma sample_entry_range:
  "sample_entry samples (in_range l r) i = Some (t, d) \<longleftrightarrow>
     0 \<le> i \<and> nat i < length samples \<and> sm_type (samples ! nat i) = Some t \<and> meets_range l r (samples ! nat i) \<and> d = time_in_range l r (samples ! nat i)"
  by (auto simp: sample_entry_def sample_at_def sample_time_range split: option.splits if_splits)

lemma stat_entries_of:
  fixes t :: SampleType and samples :: "JsCpuProfilerSample list" and rng :: "(int \<times> int) option"
  defines "S \<equiv> \<lambda>ids. {i \<in> set ids. \<exists>d. sample_entry samples rng i = Some (t, d)}"
  shows "sum_list (map snd (filter (\<lambda>e. fst e = t) (stat_entries samples rng ids))) = (\<Sum>i\<in>S ids. snd (the (sample_entry samples rng i)))
    \<and> (filter (\<lambda>e. fst e = t) (stat_entries samples rng ids) = [] \<longleftrightarrow> S ids = {})"
proof (induction ids rule: rev_induct)
  case Nil
  then show ?case by (simp add: stat_entries_def map_filter_simps S_def)
next
  case (snoc i ids)
  have fin: "finite (S ids)" by (simp add: S_def)
  show ?case
  proof (cases "i \<in> set ids \<or> i \<notin> S [i]")
    case True
    then have "S (ids @ [i]) = S ids" by (auto simp: S_def)
    moreover have "filter (\<lambda>e. fst e = t) (stat_entries samples rng (ids @ [i])) = filter (\<lambda>e. fst e = t) (stat_entries samples rng ids)"
      using True by (auto simp: stat_entries_snoc S_def split: option.split)
    ultimately show ?thesis using snoc by simp
  next
    case False
    then obtain d where d: "sample_entry samples rng i = Some (t, d)" "i \<notin> S ids" "i \<notin> set ids" by (auto simp: S_def)
    then have "S (ids @ [i]) = insert i (S ids)" by (auto simp: S_def)
    then show ?thesis using snoc d fin by (simp add: stat_entries_snoc)
  qed
qed

text \<open>C26: the statistic, exactly: a type has an entry if and only if the selection has a sample of that type that meets the range, and its time is the sum over those samples,
  each once, of the part that lies in the range. The samples of a selection are those of its topmost selected frames with own time. A range that
  begins or ends at zero counts as no range, and the whole durations are added.\<close>

theorem calStatistic_times:
  fixes l r :: "int option" and samples :: "JsCpuProfilerSample list" and fs :: "ChartFrame list" and t :: SampleType
  assumes "distinct (concat (map frame_ids fs))"
  defines "S \<equiv> {i \<in> (\<Union>f\<in>set fs. selected_samples f). 0 \<le> i \<and> nat i < length samples \<and> sm_type (samples ! nat i) = Some t \<and> meets_range l r (samples ! nat i)}"
  shows "map_of (calStatistic samples fs l r) t = (if S = {} then None else Some (\<Sum>i\<in>S. time_in_range l r (samples ! nat i)))"
proof -
  let ?ids = "snd (findSamplesIds fs [] [])" and ?e = "sample_entry samples (in_range l r)"
  let ?es = "filter (\<lambda>e. fst e = t) (stat_entries samples (in_range l r) ?ids)"
  have "set ?ids = (\<Union>f\<in>set fs. selected_samples f)" using findSamplesIds_selected [OF assms(1), of "[]" "[]"] by simp
  then have S: "{i \<in> set ?ids. \<exists>d. ?e i = Some (t, d)} = S" by (auto simp: S_def sample_entry_range)
  have "(\<Sum>i\<in>S. snd (the (?e i))) = (\<Sum>i\<in>S. time_in_range l r (samples ! nat i))"
  proof (rule sum.cong [OF refl])
    fix i assume "i \<in> S"
    then have "?e i = Some (t, time_in_range l r (samples ! nat i))" by (simp add: S_def sample_entry_range)
    then show "snd (the (?e i)) = time_in_range l r (samples ! nat i)" by simp
  qed
  then have entries: "sum_list (map snd ?es) = (\<Sum>i\<in>S. time_in_range l r (samples ! nat i))" "?es = [] \<longleftrightarrow> S = {}"
    using stat_entries_of [of t samples "in_range l r" ?ids] unfolding S by simp_all
  have look: "map_of (calStatistic samples fs l r) t = merged snd (\<lambda>e v. v + snd e) ?es" by (simp add: calStatistic_group group_all_lookup)
  show ?thesis
  proof (cases ?es)
    case Nil
    then show ?thesis using look entries(2) by simp
  next
    case (Cons e es)
    then obtain v where v: "merged snd (\<lambda>e v. v + snd e) ?es = Some v" by simp
    then show ?thesis using type_time.total_merged [OF v] look entries Cons by simp
  qed
qed

subsection \<open>The charts the profiler builds\<close>

lemma symbolToChartFrame_ids [simp]: "cf_id (symbolToChartFrame n x y) = n" "cf_samplesIds (symbolToChartFrame n x y) = [sm_id x]"
  by (simp_all add: symbolToChartFrame_def newChartFrame_def)

lemma upto_Cons: "n < k \<Longrightarrow> [n..k - 1] = n # [n + 1..k - 1]" for k :: int
  by (simp add: upto_rec1)

lemma new_branch_ids:
  assumes "stack \<noteq> []" "sm_dur x > 0" "new_branch x p stack n = ([f], n')"
  shows "covers f \<and> frame_samples f = {sm_id x} \<and> frame_ids f = [n..n' - 1] \<and> n < n'"
  using assms
proof (induction stack arbitrary: p n f n')
  case (Cons y stack)
  show ?case
  proof (cases "stack = []")
    case True
    then show ?thesis using Cons.prems by (auto simp: new_branch.simps Let_def)
  next
    case False
    obtain k n1 where k: "new_branch x n stack (n + 1) = ([k], n1)" using new_branch_effect [OF False] by blast
    note IH = Cons.IH [OF False Cons.prems(2) k]
    have "f = ChartFrame ((symbolToChartFrame n x y)\<lparr>cf_parentId := p\<rparr>) [k]" "n' = n1" using Cons.prems(3) False k by (auto simp: new_branch.simps Let_def)
    then show ?thesis using IH upto_Cons [of n n1] by auto
  qed
qed simp

text \<open>A frame that gets one more sample, in time of its own or below it.\<close>

lemma covers_grow:
  assumes "covers (ChartFrame d kids)" "set (cf_samplesIds d') = insert a (set (cf_samplesIds d))"
    and "\<forall>k\<in>set kids'. covers k \<and> frame_samples k \<subseteq> insert a (set (cf_samplesIds d))"
    and "(\<Union>k\<in>set kids. frame_samples k) \<subseteq> (\<Union>k\<in>set kids'. frame_samples k)"
    and "cf_selfTime d < cf_selfTime d' \<or> cf_selfTime d = cf_selfTime d' \<and> a \<in> (\<Union>k\<in>set kids'. frame_samples k)"
  shows "covers (ChartFrame d' kids')"
proof -
  have own: "0 \<le> cf_selfTime d'" using assms(1,5) by auto
  have "cf_selfTime d' > 0 \<or> set (cf_samplesIds d') \<subseteq> (\<Union>k\<in>set kids'. frame_samples k)"
  proof (cases "cf_selfTime d < cf_selfTime d'")
    case True
    then show ?thesis using assms(1) by simp
  next
    case False
    then have eq: "cf_selfTime d = cf_selfTime d'" "a \<in> (\<Union>k\<in>set kids'. frame_samples k)" using assms(5) by blast+
    have "cf_selfTime d > 0 \<or> set (cf_samplesIds d) \<subseteq> (\<Union>k\<in>set kids. frame_samples k)" using assms(1) by simp
    then show ?thesis
    proof
      assume "set (cf_samplesIds d) \<subseteq> (\<Union>k\<in>set kids. frame_samples k)"
      then have "set (cf_samplesIds d) \<subseteq> (\<Union>k\<in>set kids'. frame_samples k)" using assms(4) by (rule subset_trans)
      then show ?thesis using eq(2) by (simp only: assms(2) insert_subset simp_thms)
    qed (simp add: eq(1))
  qed
  then show ?thesis using own assms(2,3) by simp
qed

lemma extend_frame_ids:
  assumes "sm_dur x > 0" "covers f" "extend_frame x idx stack f n = (f', n')"
  shows "n \<le> n' \<and> covers f' \<and> frame_samples f' = insert (sm_id x) (frame_samples f) \<and> mset (frame_ids f') = mset (frame_ids f) + mset [n..n' - 1]"
  using assms
proof (induction x idx stack f n arbitrary: f' n' rule: extend_frame.induct)
  case (1 x idx stack d kids n)
  define d1 where "d1 = d\<lparr>cf_endTime := sm_endTime x, cf_totalTime := sm_endTime x - cf_startTime d, cf_samplesIds := cf_samplesIds d @ [sm_id x]\<rparr>"
  have d1: "set (cf_samplesIds d1) = insert (sm_id x) (set (cf_samplesIds d))" "cf_selfTime d1 = cf_selfTime d" "cf_id d1 = cf_id d" by (simp_all add: d1_def)
  have kids: "\<forall>k\<in>set kids. covers k \<and> frame_samples k \<subseteq> set (cf_samplesIds d)" using "1.prems"(2) by simp
  show ?case
  proof (cases stack)
    case Nil
    have f': "f' = ChartFrame (d1\<lparr>cf_selfTime := cf_selfTime d1 + sm_dur x\<rparr>) kids" "n' = n"
      using "1.prems"(3) Nil by (simp_all add: d1_def)
    have "covers f'" unfolding f' by (rule covers_grow [OF "1.prems"(2)]) (use "1.prems"(1) d1 kids in auto)
    then show ?thesis using f' d1 by simp
  next
    case (Cons y stack')
    show ?thesis
    proof (cases "kids \<noteq> [] \<and> frame_matches x (idx + 1) y (cf_data (last kids))")
      case True
      obtain k n1 where e: "extend_frame x (idx + 1) stack' (last kids) n = (k, n1)" by fastforce
      have f': "f' = ChartFrame d1 (butlast kids @ [k])" "n' = n1" using "1.prems"(3) Cons True e by (simp_all add: Let_def d1_def)
      have l: "last kids \<in> set kids" using True by simp
      note IH = "1.IH" [OF refl Cons True "1.prems"(1) _ e]
      have k: "n \<le> n1" "covers k" "frame_samples k = insert (sm_id x) (frame_samples (last kids))"
        "mset (frame_ids k) = mset (frame_ids (last kids)) + mset [n..n1 - 1]" using IH kids l by simp_all
      have split: "kids = butlast kids @ [last kids]" using True by simp
      have "covers f'" unfolding f'
      proof (rule covers_grow [OF "1.prems"(2) d1(1)])
        show "\<forall>c\<in>set (butlast kids @ [k]). covers c \<and> frame_samples c \<subseteq> insert (sm_id x) (set (cf_samplesIds d))"
          using kids l k(2,3) by (auto dest: in_set_butlastD)
        show "(\<Union>c\<in>set kids. frame_samples c) \<subseteq> (\<Union>c\<in>set (butlast kids @ [k]). frame_samples c)" by (subst split) (auto simp: k(3))
      qed (simp add: d1 k(3))
      moreover have "concat (map frame_ids kids) = concat (map frame_ids (butlast kids)) @ frame_ids (last kids)"
        using arg_cong [OF split, of "\<lambda>ks. concat (map frame_ids ks)"] by simp
      then have "mset (frame_ids f') = mset (frame_ids (ChartFrame d kids)) + mset [n..n1 - 1]" by (simp add: f' d1 k(4))
      ultimately show ?thesis using f' d1 k(1) by simp
    next
      case False
      obtain k n1 where e: "new_branch x (cf_id d) stack n = ([k], n1)" using new_branch_effect [of stack] Cons by blast
      have f': "f' = ChartFrame d1 (kids @ [k])" "n' = n1" using "1.prems"(3) Cons False e by (auto simp: Let_def d1_def)
      have "stack \<noteq> []" using Cons by simp
      note k = new_branch_ids [OF this "1.prems"(1) e]
      have "covers f'" unfolding f' by (rule covers_grow [OF "1.prems"(2) d1(1)]) (use d1 k kids in auto)
      then show ?thesis using f' d1 k by simp
    qed
  qed
qed

definition chart_inv :: "symbol_map \<Rightarrow> int \<Rightarrow> ChartState \<Rightarrow> bool" where
  "chart_inv m n0 s \<longleftrightarrow> n0 \<le> ch_chartId s \<and> mset (concat (map frame_ids (ch_frames s))) = mset [n0..ch_chartId s - 1]
     \<and> (\<forall>f\<in>set (ch_frames s). covers f) \<and> (\<Union>f\<in>set (ch_frames s). frame_samples f) = sm_id ` {x \<in> set (ch_samples s). charted m x}"

lemma same_sample_charted: "same_sample y x \<Longrightarrow> charted m y = charted m x" "same_sample y x \<Longrightarrow> sm_id y = sm_id x"
  by (simp_all add: same_sample_def charted_def)

lemma chart_inv_append:
  assumes "chart_inv m n0 s" "charted m y" "ch_chartId s \<le> n" "covers f" "frame_samples f = insert (sm_id y) (\<Union>g\<in>set gs. frame_samples g)"
    and "fs @ gs = ch_frames s" "mset (frame_ids f) = mset (concat (map frame_ids gs)) + mset [ch_chartId s..n - 1]"
  shows "chart_inv m n0 (s\<lparr>ch_samples := ch_samples s @ [y], ch_frames := fs @ [f], ch_chartId := n\<rparr>)"
proof -
  have frames: "ch_frames s = fs @ gs" using assms(6) by simp
  have inv: "n0 \<le> ch_chartId s" "mset (concat (map frame_ids fs)) + mset (concat (map frame_ids gs)) = mset [n0..ch_chartId s - 1]"
    "\<forall>f\<in>set fs. covers f" "(\<Union>f\<in>set fs. frame_samples f) \<union> (\<Union>f\<in>set gs. frame_samples f) = sm_id ` {x \<in> set (ch_samples s). charted m x}"
    using assms(1) by (auto simp: chart_inv_def frames)
  have "mset (concat (map frame_ids (fs @ [f]))) = mset [n0..ch_chartId s - 1] + mset [ch_chartId s..n - 1]"
    using inv(2) assms(7) by (simp add: union_assoc flip: inv(2))
  then have "mset (concat (map frame_ids (fs @ [f]))) = mset [n0..n - 1]" using upto_append [OF inv(1) assms(3)] by simp
  moreover have "{x \<in> set (ch_samples s @ [y]). charted m x} = insert y {x \<in> set (ch_samples s). charted m x}" using assms(2) by auto
  then have "(\<Union>g\<in>set (fs @ [f]). frame_samples g) = sm_id ` {x \<in> set (ch_samples s @ [y]). charted m x}"
    using inv(4) assms(5) by (simp flip: inv(4)) blast
  ultimately show ?thesis using inv(1,3) assms(3,4) by (simp add: chart_inv_def)
qed

lemma combined_inv:
  assumes "combined m x s s'" "sm_dur x > 0" "chart_inv m n0 s"
  shows "chart_inv m n0 s'"
  using assms
proof (induction rule: combined.induct)
  case (combined_skip y)
  then have "\<not> charted m y" using same_sample_charted(1) by blast
  then have "{x \<in> set (ch_samples s @ [y]). charted m x} = {x \<in> set (ch_samples s). charted m x}" by auto
  then show ?case using combined_skip by (simp add: chart_inv_def)
next
  case (combined_fresh y stack f n)
  have "sm_dur y > 0" using combined_fresh same_sample_dur(1) by metis
  note f = new_branch_ids [OF combined_fresh(3) this combined_fresh(5)]
  have "charted m y" using combined_fresh(1,2) same_sample_charted(1) by blast
  then show ?case by (rule chart_inv_append [OF combined_fresh(7), where gs = "[]"]) (use f in auto)
next
  case (combined_extend y stack f n)
  let ?l = "last (ch_frames s)"
  have "sm_dur y > 0" using combined_extend same_sample_dur(1) by metis
  moreover have "covers ?l" using combined_extend(3,7) by (simp add: chart_inv_def)
  ultimately have f: "ch_chartId s \<le> n" "covers f" "frame_samples f = insert (sm_id y) (frame_samples ?l)"
    "mset (frame_ids f) = mset (frame_ids ?l) + mset [ch_chartId s..n - 1]"
    using extend_frame_ids [OF _ _ combined_extend(5)] by blast+
  have "charted m y" using combined_extend(1,2) same_sample_charted(1) by blast
  then show ?case by (rule chart_inv_append [OF combined_extend(7), where gs = "[?l]"]) (use f combined_extend(3) in auto)
qed

lemma combined_samples: "combined m x s s' \<Longrightarrow> \<exists>y. same_sample y x \<and> ch_samples s' = ch_samples s @ [y]"
  by (erule combined.cases) auto

lemma combine_samples_inv:
  assumes m: "symbols_ok n m" "n \<le> fuel"
  shows "chart_ok s \<Longrightarrow> chart_inv m n0 s \<Longrightarrow> \<forall>x\<in>set xs. sm_dur x > 0 \<Longrightarrow> combine_samples fuel m xs s = Inr s' \<Longrightarrow>
    chart_inv m n0 s' \<and> (\<exists>ys. ch_samples s' = ch_samples s @ ys \<and> list_all2 same_sample ys xs)"
proof (induction xs arbitrary: s)
  case (Cons x xs)
  obtain s1 where run: "combine_sample fuel m x s = Inr s1" "combined m x s s1" using combine_sample_run [OF m Cons.prems(1)] by blast
  have s1: "chart_ok s1" "chart_inv m n0 s1" using combined_effect(1) [OF run(2) Cons.prems(1)] combined_inv [OF run(2) _ Cons.prems(2)] Cons.prems(3) by simp_all
  obtain y where y: "same_sample y x" "ch_samples s1 = ch_samples s @ [y]" using combined_samples [OF run(2)] by blast
  have "combine_samples fuel m xs s1 = Inr s'" using Cons.prems(4) run(1) by simp
  then obtain ys where ys: "chart_inv m n0 s'" "ch_samples s' = ch_samples s1 @ ys" "list_all2 same_sample ys xs"
    using Cons.IH [OF s1] Cons.prems(3) by auto
  then have "ch_samples s' = ch_samples s @ (y # ys)" "list_all2 same_sample (y # ys) (x # xs)" using y by simp_all
  then show ?case using ys(1) by blast
qed simp

section \<open>The statistic of a whole chart\<close>

text \<open>The selection of everything, as the views send it.\<close>

fun select_all :: "ChartFrame \<Rightarrow> ChartFrame" where
  "select_all (ChartFrame d kids) = ChartFrame (d\<lparr>cf_isSelect := True\<rparr>) (map select_all kids)"

lemma select_all_data [simp]: "cf_samplesIds (cf_data (select_all f)) = cf_samplesIds (cf_data f)"
  by (cases f) simp

lemma select_all_ok: "all_selected (select_all f)" "covers (select_all f) = covers f" "frame_ids (select_all f) = frame_ids f"
proof (induction f)
  case (ChartFrame d kids)
  { case 1 then show ?case using ChartFrame by simp }
  { case 2 then show ?case using ChartFrame by simp }
  { case 3
    show ?case using ChartFrame by (simp cong: map_cong) }
qed

lemma stat_entries_sum:
  "sum_list (map snd (stat_entries samples rng ids)) = (\<Sum>i\<in>set ids. case sample_entry samples rng i of None \<Rightarrow> 0 | Some e \<Rightarrow> snd e)"
proof (induction ids rule: rev_induct)
  case (snoc i ids)
  then show ?case by (cases "i \<in> set ids") (auto simp: stat_entries_snoc insert_absorb split: option.split)
qed (simp add: stat_entries_def map_filter_simps)

lemma whole_chart_entries:
  assumes "map sm_id ys = [0..int (length ys) - 1]" "set ids = sm_id ` {x \<in> set ys. P x}"
  shows "sum_list (map snd (stat_entries ys None ids)) = sum_list (map sm_dur (filter (\<lambda>x. P x \<and> sm_type x \<noteq> None) ys))"
proof -
  let ?J = "{j. j < length ys \<and> P (ys ! j)}"
  have id: "sm_id (ys ! j) = int j" if "j < length ys" for j
    using arg_cong [OF assms(1), of "\<lambda>l. l ! j"] that by (simp add: nth_upto)
  have "{x \<in> set ys. P x} = (\<lambda>j. ys ! j) ` ?J" by (auto simp: in_set_conv_nth)
  then have "set ids = (\<lambda>j. sm_id (ys ! j)) ` ?J" using assms(2) by (simp add: image_image)
  also have "\<dots> = int ` ?J" using id by (intro image_cong) auto
  finally have "(\<Sum>i\<in>set ids. case sample_entry ys None i of None \<Rightarrow> 0 | Some e \<Rightarrow> snd e)
      = (\<Sum>j\<in>?J. case sample_entry ys None (int j) of None \<Rightarrow> 0 | Some e \<Rightarrow> snd e)" by (simp add: sum.reindex)
  also have "\<dots> = (\<Sum>j\<in>?J. if sm_type (ys ! j) \<noteq> None then sm_dur (ys ! j) else 0)"
    by (intro sum.cong) (auto simp: sample_entry_def sample_at_def sample_time_def split: option.split)
  also have "\<dots> = (\<Sum>j<length ys. if P (ys ! j) \<and> sm_type (ys ! j) \<noteq> None then sm_dur (ys ! j) else 0)"
    by (rule sum.mono_neutral_cong_left) auto
  also have "\<dots> = sum_list (map (\<lambda>x. if P x \<and> sm_type x \<noteq> None then sm_dur x else 0) ys)"
    by (simp add: sum_list_nth_upto)
  also have "\<dots> = sum_list (map sm_dur (filter (\<lambda>x. P x \<and> sm_type x \<noteq> None) ys))" by (rule sum_list_map_filter' [symmetric])
  finally show ?thesis by (simp only: stat_entries_sum)
qed

lemma charted_ids:
  assumes "rows_ok rows" "\<forall>x\<in>set samples. sm_dur x > 0"
    and "combineChartData (length rows) (createCallChain dict rows Map.empty) samples chartId = Inr s"
  shows "chart_inv (createCallChain dict rows Map.empty) chartId s" "list_all2 same_sample (ch_samples s) samples"
proof -
  let ?m = "createCallChain dict rows Map.empty" and ?s0 = "\<lparr>ch_frames = [], ch_chartId = chartId, ch_samples = []\<rparr>"
  have "chart_ok ?s0" "chart_inv ?m chartId ?s0" by (simp_all add: chart_ok_def chart_inv_def)
  from combine_samples_inv [OF createCallChain_ok [OF assms(1)] order_refl this assms(2)] assms(3)
  show "chart_inv ?m chartId s" "list_all2 same_sample (ch_samples s) samples" by (auto simp: combineChartData_def)
qed

text \<open>When every frame of a chart is selected, the times of all types together are the durations of the samples in the
  chart that have a type: no sample is missed or counted twice, although it appears in every frame of its call chain.\<close>

theorem whole_chart_statistic:
  assumes "rows_ok rows" "map sm_id samples = [0..int (length samples) - 1]" "\<forall>x\<in>set samples. sm_dur x > 0"
    and "combineChartData (length rows) (createCallChain dict rows Map.empty) samples chartId = Inr s"
  shows "sum_list (map snd (calStatistic (ch_samples s) (map select_all (ch_frames s)) None None))
    = sum_list (map sm_dur (filter (\<lambda>x. charted (createCallChain dict rows Map.empty) x \<and> sm_type x \<noteq> None) (ch_samples s)))"
proof -
  let ?m = "createCallChain dict rows Map.empty" and ?fs = "map select_all (ch_frames s)"
  note inv = charted_ids(1) [OF assms(1,3,4)] and same = charted_ids(2) [OF assms(1,3,4)]
  have eq: "concat (map frame_ids ?fs) = concat (map frame_ids (ch_frames s))" by (simp add: comp_def select_all_ok(3))
  have "mset (concat (map frame_ids ?fs)) = mset [chartId..ch_chartId s - 1]" using inv by (simp only: eq chart_inv_def)
  then have "distinct (concat (map frame_ids ?fs))" by (metis distinct_upto mset_eq_imp_distinct_iff)
  moreover have "\<forall>f\<in>set ?fs. all_selected f \<and> covers f" using inv by (auto simp: chart_inv_def select_all_ok)
  ultimately have "set (snd (findSamplesIds ?fs [] [])) = (\<Union>f\<in>set ?fs. frame_samples f)" using findSamplesIds_all [of ?fs] by simp
  then have ids: "set (snd (findSamplesIds ?fs [] [])) = sm_id ` {x \<in> set (ch_samples s). charted ?m x}" using inv by (simp add: chart_inv_def)
  have "map sm_id (ch_samples s) = map sm_id samples" "length (ch_samples s) = length samples"
    using same by (induction rule: list_all2_induct) (simp_all add: same_sample_def)
  then show ?thesis using whole_chart_entries [OF _ ids] assms(2) by (simp add: calStatistic_sum in_range_def)
qed

section \<open>Concrete instances\<close>

text \<open>A sample from 3 to 8 in the range from 0 to 4 counts in full, and in the range from 1 to 4 with one nanosecond.\<close>

theorem calStatistic_times_witness:
  "map_of (calStatistic [(demo_sample 0 3 0)\<lparr>sm_type := Some S_GC, sm_startTime := 3, sm_endTime := 8, sm_dur := 5\<rparr>] [ChartFrame ((newChartFrame 0 [] 0 5 5 None [] 0 0)
     \<lparr>cf_isSelect := True, cf_selfTime := 5, cf_samplesIds := [0]\<rparr>) []] (Some 0) (Some 4)) S_GC = Some 5
   \<and> map_of (calStatistic [(demo_sample 0 3 0)\<lparr>sm_type := Some S_GC, sm_startTime := 3, sm_endTime := 8, sm_dur := 5\<rparr>] [ChartFrame ((newChartFrame 0 [] 0 5 5 None [] 0 0)
     \<lparr>cf_isSelect := True, cf_selfTime := 5, cf_samplesIds := [0]\<rparr>) []] (Some 1) (Some 4)) S_GC = Some 1"
proof -
  let ?x = "(demo_sample 0 3 0)\<lparr>sm_type := Some S_GC, sm_startTime := 3, sm_endTime := 8, sm_dur := 5\<rparr>"
    and ?f = "ChartFrame ((newChartFrame 0 [] 0 5 5 None [] 0 0)\<lparr>cf_isSelect := True, cf_selfTime := 5, cf_samplesIds := [0]\<rparr>) []"
  have d: "distinct (concat (map frame_ids [?f]))" by simp
  have "{i \<in> (\<Union>f\<in>set [?f]. selected_samples f). 0 \<le> i \<and> nat i < length [?x] \<and> sm_type ([?x] ! nat i) = Some S_GC \<and> meets_range (Some l) (Some 4) ([?x] ! nat i)} = {0}" if "l < 8" for l
    using that by (auto simp: meets_range_def)
  then show ?thesis using calStatistic_times [OF d, of "[?x]" "Some 0" "Some 4" S_GC] calStatistic_times [OF d, of "[?x]" "Some 1" "Some 4" S_GC]
    by (simp add: time_in_range_def no_range_def)
qed

theorem calStatistic_bound_witness:
  "sum_list (map snd (calStatistic [(demo_sample 0 3 0)\<lparr>sm_type := Some S_GC\<rparr>] [ChartFrame ((newChartFrame 0 [] 0 5 5 None [] 0 0)
     \<lparr>cf_isSelect := True, cf_selfTime := 5, cf_samplesIds := [0]\<rparr>) []] (Some 1) (Some 3))) \<le> 2"
proof -
  have "samples_ordered [(demo_sample 0 3 0)\<lparr>sm_type := Some S_GC\<rparr>]" by (simp add: samples_ordered_def demo_sample_def)
  from calStatistic_bound [OF this, of 1 3] show ?thesis by simp
qed

lemma demo_rows_ok: "rows_ok [demo_symbol 1 0, demo_symbol 2 1, demo_symbol 3 2]"
  by (auto simp: rows_ok_def demo_symbol_def ROOT_ID_def less_Suc_eq)

theorem whole_chart_statistic_witness:
  "\<exists>s. combineChartData 3 (createCallChain Map.empty [demo_symbol 1 0, demo_symbol 2 1, demo_symbol 3 2] Map.empty)
      [demo_sample 0 3 0, demo_sample 1 2 5] 0 = Inr s
    \<and> sum_list (map snd (calStatistic (ch_samples s) (map select_all (ch_frames s)) None None))
      = sum_list (map sm_dur (filter (\<lambda>x. charted (createCallChain Map.empty [demo_symbol 1 0, demo_symbol 2 1, demo_symbol 3 2] Map.empty) x
          \<and> sm_type x \<noteq> None) (ch_samples s)))"
proof -
  let ?rows = "[demo_symbol 1 0, demo_symbol 2 1, demo_symbol 3 2]" and ?xs = "[demo_sample 0 3 0, demo_sample 1 2 5]"
  have "chart_ok \<lparr>ch_frames = [], ch_chartId = 0, ch_samples = []\<rparr>" by (simp add: chart_ok_def)
  then obtain s where s: "combineChartData (length ?rows) (createCallChain Map.empty ?rows Map.empty) ?xs 0 = Inr s"
    using combine_samples_effect [OF createCallChain_ok [OF demo_rows_ok] order_refl] unfolding combineChartData_def by blast
  have "map sm_id ?xs = [0..int (length ?xs) - 1]" "\<forall>x\<in>set ?xs. sm_dur x > 0" by (simp_all add: demo_sample_def upto_rec1)
  from whole_chart_statistic [OF demo_rows_ok this s] s show ?thesis by (simp add: eval_nat_numeral)
qed

end
