(* ===== verification/Profiler_Worker.thy ===== *)
theory Profiler_Worker
  imports Profiler_Statistics
begin

text \<open>
  The ArkTS CPU profiler: the worker
  (\<open>trace/database/logic-worker/ProcedureLogicWorkerJsCpuProfiler.ts\<close>, \<open>handle\<close> and \<open>clearAll\<close>, with the profiler's part of
  \<open>DataCache\<close> in \<open>ProcedureLogicWorkerCommon.ts\<close>).

  A message carries the rows that \<open>convertJSON\<close> gives; what the worker posts is a list of queries and replies, without the text
  of the SQL. Of the rows kept in \<open>jsCallChain\<close> the worker only ever asks whether there are any, so they are kept here as they
  arrived. An exception leaves \<open>handle\<close> and nothing is posted.
\<close>

section \<open>State and messages\<close>

record ProfilerWorker =
  pw_currentEventId :: jsstring
  pw_dataDict :: "(int \<times> jsstring) list"
  pw_jsCallChain :: "JsProfilerSymbol list option"
  pw_jsSymbolMap :: symbol_map
  pw_samples :: "JsCpuProfilerSample list"
  pw_chartId :: int
  pw_tabDataId :: int

datatype ProfilerParams =
    JsInit "(int \<times> jsstring) list"
  | JsCallChain "JsProfilerSymbol list"
  | JsSamples "JsCpuProfilerSample list"
  | JsCallTree "ChartFrame list"
  | JsBottomUp "ChartFrame list"
  | JsStatistics "ChartFrame list" "int option" "int option"
  | JsOther

record ProfilerMsg =
  pm_id :: jsstring
  pm_action :: jsstring
  pm_params :: ProfilerParams

datatype ProfilerResults = RChart "ChartFrame list" | RTabs "TabStruct list" | RStatistic "(SampleType \<times> int) list"

datatype ProfilerPost = PQuery jsstring jsstring | PReply jsstring jsstring ProfilerResults

definition clearJsCache :: "ProfilerWorker \<Rightarrow> ProfilerWorker" where
  "clearJsCache w = w\<lparr>pw_jsCallChain := map_option (\<lambda>_. []) (pw_jsCallChain w), pw_jsSymbolMap := Map.empty\<rparr>"

definition profiler_clearAll :: "ProfilerWorker \<Rightarrow> ProfilerWorker" where
  "profiler_clearAll w = clearJsCache (w\<lparr>pw_dataDict := [], pw_samples := []\<rparr>)"

definition initCallChain :: "ProfilerWorker \<Rightarrow> ProfilerPost" where
  "initCallChain w = PQuery (pw_currentEventId w) (js ''jsCpuProfiler-call-chain'')"

definition queryChartData :: "ProfilerWorker \<Rightarrow> ProfilerPost" where
  "queryChartData w = PQuery (pw_currentEventId w) (js ''jsCpuProfiler-samples'')"

text \<open>The steps that \<open>getFullCallChainOfNode\<close> may take before it must repeat itself: \<open>chain_returns\<close> below.\<close>

definition chain_fuel :: "ProfilerWorker \<Rightarrow> nat" where
  "chain_fuel w = (case pw_jsCallChain w of None \<Rightarrow> 1 | Some rows \<Rightarrow> Suc (length rows))"

definition profiler_handle :: "ProfilerMsg \<Rightarrow> ProfilerWorker \<Rightarrow> (ProfilerWorker \<times> ProfilerPost list) result" where
  "profiler_handle msg w0 =
     (let w = w0\<lparr>pw_currentEventId := pm_id msg\<rparr> in
      case pm_params msg of
        JsInit dict \<Rightarrow>
          (let w1 = w\<lparr>pw_chartId := 0\<rparr>; w2 = (if pw_dataDict w1 = [] then w1\<lparr>pw_dataDict := dict\<rparr> else w1) in Inr (w2, [initCallChain w2]))
      | JsCallChain list \<Rightarrow>
          (let w1 = (if pw_jsCallChain w = None \<or> pw_jsCallChain w = Some []
                     then w\<lparr>pw_jsCallChain := Some list, pw_jsSymbolMap := createCallChain (map_of (pw_dataDict w)) list (pw_jsSymbolMap w)\<rparr>
                     else w)
           in Inr (w1, [queryChartData w1]))
      | JsSamples list \<Rightarrow>
          bindr (combineChartData (chain_fuel w) (pw_jsSymbolMap w) list (pw_chartId w)) (\<lambda>s.
            Inr (clearJsCache (w\<lparr>pw_samples := ch_samples s, pw_chartId := ch_chartId s\<rparr>), [PReply (pm_id msg) (pm_action msg) (RChart (ch_frames s))]))
      | JsCallTree data \<Rightarrow>
          (let (ts, n) = combineTopDownData data 0 in Inr (w\<lparr>pw_tabDataId := n\<rparr>, [PReply (pm_id msg) (pm_action msg) (RTabs ts)]))
      | JsBottomUp data \<Rightarrow>
          (let (ts, n) = combineBottomUpData data 0 in Inr (w\<lparr>pw_tabDataId := n\<rparr>, [PReply (pm_id msg) (pm_action msg) (RTabs ts)]))
      | JsStatistics data leftNs rightNs \<Rightarrow>
          Inr (w, [PReply (pm_id msg) (pm_action msg) (RStatistic (calStatistic (pw_samples w) data leftNs rightNs))])
      | JsOther \<Rightarrow> Inr (w, []))"

fun profiler_run :: "ProfilerMsg list \<Rightarrow> ProfilerWorker \<Rightarrow> (ProfilerWorker \<times> ProfilerPost list) result" where
  "profiler_run [] w = Inr (w, [])"
| "profiler_run (msg # msgs) w =
     bindr (profiler_handle msg w) (\<lambda>(w1, out1). bindr (profiler_run msgs w1) (\<lambda>(w2, out2). Inr (w2, out1 @ out2)))"

definition new_worker :: ProfilerWorker where
  "new_worker = \<lparr>pw_currentEventId = [], pw_dataDict = [], pw_jsCallChain = None, pw_jsSymbolMap = Map.empty, pw_samples = [], pw_chartId = 0, pw_tabDataId = 0\<rparr>"

section \<open>Reachable states\<close>

inductive profiler_step :: "ProfilerWorker \<Rightarrow> ProfilerWorker \<Rightarrow> bool" where
  profiler_msg: "profiler_handle msg w = Inr (w', out) \<Longrightarrow> profiler_step w w'"
| profiler_clear: "profiler_step w (profiler_clearAll w)"

inductive_cases profiler_stepE: "profiler_step w w'"

inductive profiler_reachable :: "ProfilerWorker \<Rightarrow> bool" where
  reachable_new: "profiler_reachable new_worker"
| reachable_step: "profiler_reachable w \<Longrightarrow> profiler_step w w' \<Longrightarrow> profiler_reachable w'"

text \<open>The symbols are those of the rows that are kept.\<close>

definition cache_ok :: "ProfilerWorker \<Rightarrow> bool" where
  "cache_ok w \<longleftrightarrow> (\<exists>dict. pw_jsSymbolMap w = createCallChain dict (case pw_jsCallChain w of None \<Rightarrow> [] | Some rows \<Rightarrow> rows) Map.empty)"

lemma cache_ok_empty: "cache_ok w \<Longrightarrow> pw_jsCallChain w = None \<or> pw_jsCallChain w = Some [] \<Longrightarrow> pw_jsSymbolMap w = Map.empty"
  by (auto simp: cache_ok_def createCallChain_def)

lemma cache_ok_same: "cache_ok w \<Longrightarrow> pw_jsSymbolMap w' = pw_jsSymbolMap w \<Longrightarrow> pw_jsCallChain w' = pw_jsCallChain w \<Longrightarrow> cache_ok w'"
  by (simp add: cache_ok_def)

lemma cache_ok_clear: "cache_ok (clearJsCache w)"
  by (simp add: cache_ok_def clearJsCache_def createCallChain_def split: option.split)

lemma cache_ok_handle:
  assumes "cache_ok w" "profiler_handle msg w = Inr (w', out)"
  shows "cache_ok w'"
proof (cases "pm_params msg")
  case (JsCallChain rows)
  show ?thesis
  proof (cases "pw_jsCallChain w = None \<or> pw_jsCallChain w = Some []")
    case True
    then show ?thesis using assms JsCallChain cache_ok_empty [OF assms(1) True] by (auto simp: profiler_handle_def Let_def cache_ok_def)
  next
    case False
    then show ?thesis using assms JsCallChain by (auto simp: profiler_handle_def Let_def intro: cache_ok_same)
  qed
next
  case (JsSamples list)
  then show ?thesis using assms by (auto simp: profiler_handle_def Let_def bindr_eq_Inr_iff cache_ok_clear)
qed (use assms in \<open>auto simp: profiler_handle_def Let_def case_prod_unfold intro: cache_ok_same\<close>)

lemma reachable_cache_ok: "profiler_reachable w \<Longrightarrow> cache_ok w"
proof (induction rule: profiler_reachable.induct)
  case reachable_new
  then show ?case by (simp add: cache_ok_def new_worker_def createCallChain_def)
next
  case (reachable_step w w')
  then show ?case by (auto simp: profiler_clearAll_def cache_ok_clear elim!: profiler_stepE intro: cache_ok_handle)
qed

section \<open>The walk to the root returns or repeats itself\<close>

definition parent_of :: "symbol_map \<Rightarrow> JsProfilerSymbol \<Rightarrow> JsProfilerSymbol option" where
  "parent_of m s = (if sy_parentId s \<noteq> 0 then (case m (sy_parentId s) of None \<Rightarrow> None | Some p \<Rightarrow> if sy_id p \<le> ROOT_ID then None else Some p) else None)"

abbreviation ancestor :: "symbol_map \<Rightarrow> nat \<Rightarrow> JsProfilerSymbol \<Rightarrow> JsProfilerSymbol option" where
  "ancestor m k s \<equiv> ((\<lambda>x. Option.bind x (parent_of m)) ^^ k) (Some s)"

lemma ancestor_none: "((\<lambda>x. Option.bind x (parent_of m)) ^^ k) None = None"
  by (induction k) simp_all

lemma ancestor_add: "ancestor m (j + k) s = ((\<lambda>x. Option.bind x (parent_of m)) ^^ j) (ancestor m k s)"
  by (simp add: funpow_add)

lemma ancestor_less: "ancestor m k s \<noteq> None \<Longrightarrow> j \<le> k \<Longrightarrow> ancestor m j s \<noteq> None"
  by (metis ancestor_add ancestor_none le_add_diff_inverse2)

lemma parents_above_ancestor: "parents_above fuel m s = Inl Blocked \<longleftrightarrow> ancestor m fuel s \<noteq> None"
proof (induction fuel arbitrary: s)
  case (Suc fuel)
  show ?case
  proof (cases "parent_of m s")
    case None
    then have "\<exists>ps. parents_above (Suc fuel) m s = Inr ps" by (auto simp: parent_of_def split: option.splits if_splits)
    then show ?thesis using None by (auto simp: funpow_Suc_right ancestor_none simp del: funpow.simps)
  next
    case (Some p)
    then have "parents_above (Suc fuel) m s = bindr (parents_above fuel m p) (\<lambda>ps. Inr (p # ps))"
      by (auto simp: parent_of_def split: option.splits if_splits)
    then have "parents_above (Suc fuel) m s = Inl Blocked \<longleftrightarrow> parents_above fuel m p = Inl Blocked" by (cases "parents_above fuel m p") auto
    then show ?thesis using Suc.IH [of p] Some by (simp add: funpow_Suc_right del: funpow.simps)
  qed
qed simp

lemma parent_of_ran: "parent_of m s = Some p \<Longrightarrow> p \<in> ran m"
  by (auto simp: parent_of_def ran_def split: if_splits option.splits)

text \<open>A walk longer than the number of symbols has met one twice, and goes round for ever.\<close>

lemma ancestor_for_ever:
  assumes "finite (dom m)" "ancestor m k s \<noteq> None" "card (dom m) < k"
  shows "ancestor m n s \<noteq> None"
proof (induction n rule: less_induct)
  case (less n)
  show ?case
  proof (cases "n \<le> k")
    case True
    then show ?thesis using ancestor_less [OF assms(2)] by blast
  next
    case False
    have "ancestor m j s \<in> Some ` ran m" if j: "j \<in> {1..k}" for j
    proof -
      from j obtain i where i: "j = Suc i" by (cases j) auto
      from j obtain p where "ancestor m j s = Some p" using ancestor_less [OF assms(2), of j] by auto
      then show ?thesis by (auto simp: i intro: parent_of_ran split: bind_splits)
    qed
    then have sub: "(\<lambda>j. ancestor m j s) ` {1..k} \<subseteq> Some ` ran m" by blast
    have "ran m \<subseteq> (\<lambda>i. the (m i)) ` dom m" by (force simp: ran_def)
    then have "card (ran m) \<le> card (dom m)" by (rule surj_card_le [OF assms(1)])
    then have "card (Some ` ran m) < card {1..k}" "finite (Some ` ran m)"
      using assms(1,3) by (simp_all add: card_image finite_ran)
    then have "\<not> inj_on (\<lambda>j. ancestor m j s) {1..k}" using card_inj_on_le sub by (metis not_le)
    then obtain a b where "a \<le> k" "b \<le> k" "ancestor m a s = ancestor m b s" "a < b"
      by (auto simp: inj_on_def) (metis linorder_neqE_nat)
    then have "ancestor m n s = ancestor m (n - b + a) s" "n - b + a < n"
      using False ancestor_add [of "n - b" b m s] ancestor_add [of "n - b" a m s] by simp_all
    then show ?thesis using less.IH by simp
  qed
qed

lemma parents_above_mono: "parents_above fuel m s = Inr ps \<Longrightarrow> fuel \<le> fuel' \<Longrightarrow> parents_above fuel' m s = Inr ps"
proof (induction fuel arbitrary: s ps fuel')
  case (Suc fuel)
  obtain k where k: "fuel' = Suc k" "fuel \<le> k" using Suc.prems(2) by (cases fuel') auto
  show ?case using Suc.prems(1) Suc.IH [OF _ k(2)] by (auto simp: k(1) bindr_eq_Inr_iff split: if_splits option.splits)
qed simp

lemma parents_above_error: "parents_above fuel m s = Inl e \<Longrightarrow> e = Blocked"
proof (induction fuel arbitrary: s)
  case (Suc fuel)
  then show ?case
    by (cases "m (sy_parentId s)"; cases "parents_above fuel m (the (m (sy_parentId s)))") (auto split: if_splits)
qed simp

lemma chain_fuel_irrelevant:
  assumes "finite (dom m)" "card (dom m) < fuel" "fuel \<le> fuel'"
  shows "getFullCallChainOfNode fuel' m s = getFullCallChainOfNode fuel m s"
proof (cases "parents_above fuel m s")
  case (Inl e)
  then have "ancestor m fuel s \<noteq> None" using parents_above_error parents_above_ancestor by metis
  then have "ancestor m fuel' s \<noteq> None" by (rule ancestor_for_ever [OF assms(1) _ assms(2)])
  then have "parents_above fuel' m s = Inl Blocked" using parents_above_ancestor by blast
  then show ?thesis using Inl parents_above_error [OF Inl] by (simp add: getFullCallChainOfNode_def)
next
  case (Inr ps)
  then show ?thesis using parents_above_mono [OF Inr assms(3)] by (simp add: getFullCallChainOfNode_def)
qed

lemma dom_createCallChain: "dom (createCallChain dict rows m) \<subseteq> sy_id ` set rows \<union> dom m"
proof -
  have item: "dom (chain_item dict r m) \<subseteq> insert (sy_id r) (dom m)" for r m
    by (auto simp: chain_item_def Let_def split: if_splits option.splits)
  show ?thesis unfolding createCallChain_def
  proof (induction rows arbitrary: m)
    case (Cons r rows)
    have "dom (fold (chain_item dict) rows (chain_item dict r m)) \<subseteq> sy_id ` set rows \<union> dom (chain_item dict r m)" by (rule Cons.IH)
    also have "\<dots> \<subseteq> sy_id ` set rows \<union> insert (sy_id r) (dom m)" using item by (rule Un_mono [OF order_refl])
    finally show ?case by simp
  qed simp
qed

lemma cache_ok_fuel:
  assumes "cache_ok w"
  shows "finite (dom (pw_jsSymbolMap w)) \<and> card (dom (pw_jsSymbolMap w)) < chain_fuel w"
proof -
  define rows where "rows = (case pw_jsCallChain w of None \<Rightarrow> [] | Some rows \<Rightarrow> rows)"
  have sub: "dom (pw_jsSymbolMap w) \<subseteq> sy_id ` set rows" using assms dom_createCallChain [where m = Map.empty] by (fastforce simp: cache_ok_def rows_def)
  then have "card (dom (pw_jsSymbolMap w)) \<le> length rows"
    by (meson List.finite_set card_image_le card_length card_mono finite_imageI le_trans)
  moreover have "chain_fuel w = Suc (length rows)" by (simp add: chain_fuel_def rows_def split: option.split)
  ultimately show ?thesis using finite_subset [OF sub] by simp
qed

section \<open>Loading a profile\<close>

text \<open>The three messages of a load: the strings, the rows of the call chain and the samples.\<close>

definition load_messages :: "jsstring \<Rightarrow> jsstring \<Rightarrow> (int \<times> jsstring) list \<Rightarrow> JsProfilerSymbol list \<Rightarrow> JsCpuProfilerSample list \<Rightarrow> ProfilerMsg list" where
  "load_messages i act dict rows xs = map (\<lambda>p. \<lparr>pm_id = i, pm_action = act, pm_params = p\<rparr>) [JsInit dict, JsCallChain rows, JsSamples xs]"

lemma load_run:
  fixes dict :: "(int \<times> jsstring) list"
  assumes "cache_ok w" "pw_jsCallChain w = None \<or> pw_jsCallChain w = Some []" "rows_ok rows"
  defines "d \<equiv> (if pw_dataDict w = [] then dict else pw_dataDict w)"
  shows "\<exists>s w'. combineChartData (Suc (length rows)) (createCallChain (map_of d) rows Map.empty) xs 0 = Inr s
    \<and> profiler_run (load_messages i act dict rows xs) w =
        Inr (w', [PQuery i (js ''jsCpuProfiler-call-chain''), PQuery i (js ''jsCpuProfiler-samples''), PReply i act (RChart (ch_frames s))])
    \<and> pw_samples w' = ch_samples s \<and> pw_dataDict w' = d \<and> pw_jsCallChain w' = Some [] \<and> cache_ok w'"
proof -
  let ?m = "createCallChain (map_of d) rows Map.empty"
  have "chart_ok \<lparr>ch_frames = [], ch_chartId = 0, ch_samples = []\<rparr>" by (simp add: chart_ok_def)
  moreover have "length rows \<le> Suc (length rows)" by simp
  ultimately obtain s where s: "combineChartData (Suc (length rows)) ?m xs 0 = Inr s"
    using combine_samples_effect [OF createCallChain_ok [OF assms(3)]] unfolding combineChartData_def by blast
  have m: "pw_jsSymbolMap w = Map.empty" by (rule cache_ok_empty [OF assms(1,2)])
  have d: "(if pw_dataDict w = [] then dict else pw_dataDict w) = d" by (simp add: d_def)
  show ?thesis
    using s assms(2) m d
    by (auto simp: load_messages_def profiler_handle_def Let_def chain_fuel_def initCallChain_def queryChartData_def clearJsCache_def cache_ok_def
        createCallChain_def [of _ "[]"] split: if_splits)
qed

text \<open>In every state the worker can be in, the bound that the model puts on the walk from a function to its root makes no
  difference: a walk that needs more steps never ends.\<close>

theorem call_chain_bound:
  assumes "profiler_reachable w" "chain_fuel w \<le> fuel"
  shows "getFullCallChainOfNode fuel (pw_jsSymbolMap w) node = getFullCallChainOfNode (chain_fuel w) (pw_jsSymbolMap w) node"
  using chain_fuel_irrelevant [OF _ _ assms(2)] cache_ok_fuel [OF reachable_cache_ok [OF assms(1)]] by blast

text \<open>C1: after \<open>clearAll\<close>, whatever the worker did before, a load of well-formed rows answers with the chart of those rows, after the two queries
  of its protocol. A second load of the same profile gives the same chart, frame numbers included.\<close>

theorem load_replies_chart:
  assumes "profiler_reachable w" "rows_ok rows" "dict \<noteq> []"
  shows "\<exists>s w1 w2. combineChartData (Suc (length rows)) (createCallChain (map_of dict) rows Map.empty) xs 0 = Inr s
    \<and> profiler_run (load_messages i act dict rows xs) (profiler_clearAll w) =
        Inr (w1, [PQuery i (js ''jsCpuProfiler-call-chain''), PQuery i (js ''jsCpuProfiler-samples''), PReply i act (RChart (ch_frames s))])
    \<and> pw_samples w1 = ch_samples s
    \<and> profiler_run (load_messages j act' dict' rows xs) w1 =
        Inr (w2, [PQuery j (js ''jsCpuProfiler-call-chain''), PQuery j (js ''jsCpuProfiler-samples''), PReply j act' (RChart (ch_frames s))])
    \<and> pw_samples w2 = ch_samples s"
proof -
  let ?w = "profiler_clearAll w"
  have w: "cache_ok ?w" "pw_jsCallChain ?w = None \<or> pw_jsCallChain ?w = Some []" "pw_dataDict ?w = []"
    by (auto simp: profiler_clearAll_def cache_ok_clear) (auto simp: clearJsCache_def)
  obtain s w1 where s: "combineChartData (Suc (length rows)) (createCallChain (map_of dict) rows Map.empty) xs 0 = Inr s"
    and w1: "profiler_run (load_messages i act dict rows xs) ?w =
        Inr (w1, [PQuery i (js ''jsCpuProfiler-call-chain''), PQuery i (js ''jsCpuProfiler-samples''), PReply i act (RChart (ch_frames s))])"
      "pw_samples w1 = ch_samples s" "pw_dataDict w1 = dict" "pw_jsCallChain w1 = Some []" "cache_ok w1"
    using load_run [OF w(1,2) assms(2), of dict xs i act] w(3) by auto
  then obtain w2 where "profiler_run (load_messages j act' dict' rows xs) w1 =
        Inr (w2, [PQuery j (js ''jsCpuProfiler-call-chain''), PQuery j (js ''jsCpuProfiler-samples''), PReply j act' (RChart (ch_frames s))])"
      "pw_samples w2 = ch_samples s"
    using load_run [OF w1(5) _ assms(2), of dict' xs j act'] assms(3) by auto
  then show ?thesis using s w1(1,2) by blast
qed

section \<open>Concrete instances\<close>

theorem call_chain_bound_witness:
  "getFullCallChainOfNode 5 (pw_jsSymbolMap new_worker) (demo_symbol 2 1) = getFullCallChainOfNode 1 (pw_jsSymbolMap new_worker) (demo_symbol 2 1)"
  using call_chain_bound [OF reachable_new, of 5 "demo_symbol 2 1"] by (simp add: chain_fuel_def new_worker_def)

theorem load_replies_chart_witness:
  "\<exists>s w1. combineChartData 4 (createCallChain (map_of [(2, js ''f'')]) [demo_symbol 1 0, demo_symbol 2 1, demo_symbol 3 2] Map.empty)
       [demo_sample 0 3 0] 0 = Inr s
    \<and> profiler_run (load_messages [] [] [(2, js ''f'')] [demo_symbol 1 0, demo_symbol 2 1, demo_symbol 3 2] [demo_sample 0 3 0]) (profiler_clearAll new_worker)
      = Inr (w1, [PQuery [] (js ''jsCpuProfiler-call-chain''), PQuery [] (js ''jsCpuProfiler-samples''), PReply [] [] (RChart (ch_frames s))])"
  using load_replies_chart [OF reachable_new demo_rows_ok, of "[(2, js ''f'')]" "[demo_sample 0 3 0]" "[]" "[]" "[]" "[]" "[]"]
  by (simp add: eval_nat_numeral) blast

end
