(* ===== verification/Logic_Common.thy ===== *)
theory Logic_Common
  imports JS_Text JS_Map
begin

text \<open>
  What the logic workers share (\<open>trace/database/logic-worker/ProcedureLogicWorkerCommon.ts\<close> and the dispatch of
  \<open>ProcedureLogicWorker.ts\<close>): posting long results in pages, file names, times as text and the choice of a worker.
\<close>

section \<open>Pages\<close>

text \<open>\<open>slice\<close> with arguments that are not negative.\<close>

definition js_slice :: "'a list \<Rightarrow> nat \<Rightarrow> nat \<Rightarrow> 'a list" where
  "js_slice xs a b = take (b - a) (drop a xs)"

definition pagination :: "nat \<Rightarrow> nat \<Rightarrow> 'a list \<Rightarrow> 'a list" where
  "pagination page pageSize source =
     (let offset = (page - 1) * pageSize in
      if offset + pageSize \<ge> length source then js_slice source offset (length source) else js_slice source offset (offset + pageSize))"

definition PAGE_SIZE :: nat where "PAGE_SIZE = 500000"

record 'a Msg =
  msg_tag :: jsstring
  msg_index :: nat
  msg_isSending :: bool
  msg_data :: "'a list"

definition page_tag :: "nat \<Rightarrow> nat \<Rightarrow> jsstring" where
  "page_tag pageCount i = (if i = 1 then js ''start'' else if i = pageCount then js ''end'' else js ''sending'')"

definition page_msg :: "nat \<Rightarrow> nat \<Rightarrow> 'a list \<Rightarrow> nat \<Rightarrow> 'a Msg" where
  "page_msg psize pageCount results i =
     \<lparr>msg_tag = page_tag pageCount i, msg_index = i, msg_isSending = (page_tag pageCount i \<noteq> js ''end''), msg_data = pagination i psize results\<rparr>"

text \<open>The messages that are posted. The number of pages comes from the argument, what is on a page from the constant: \<open>psize\<close>.\<close>

definition post_pages :: "nat \<Rightarrow> nat \<Rightarrow> 'a list \<Rightarrow> 'a Msg list" where
  "post_pages psize pageSize results =
     (if length results > pageSize
      then (let pageCount = (length results + pageSize - 1) div pageSize in map (page_msg psize pageCount results) [1..<Suc pageCount])
      else [\<lparr>msg_tag = js ''end'', msg_index = 0, msg_isSending = False, msg_data = results\<rparr>])"

definition postMessage :: "'a list \<Rightarrow> nat \<Rightarrow> 'a Msg list" where
  "postMessage results pageSize = post_pages PAGE_SIZE pageSize results"

lemma pagination_slice: "1 \<le> i \<Longrightarrow> pagination i n xs = take n (drop ((i - 1) * n) xs)"
  by (auto simp: pagination_def js_slice_def Let_def)

lemma pages_prefix: "concat (map (\<lambda>i. pagination i n xs) [1..<Suc k]) = take (k * n) xs"
proof (induction k)
  case (Suc k)
  have "concat (map (\<lambda>i. pagination i n xs) [1..<Suc (Suc k)]) = take (k * n) xs @ pagination (Suc k) n xs"
    using Suc by simp
  also have "\<dots> = take (Suc k * n) xs" using take_add [of "k * n" n xs] by (simp add: pagination_slice add.commute)
  finally show ?case .
qed simp

lemma page_count:
  fixes n len :: nat
  assumes "0 < n" "n < len"
  shows "len \<le> (len + n - 1) div n * n" "2 \<le> (len + n - 1) div n"
proof -
  let ?c = "(len + n - 1) div n"
  show le: "len \<le> ?c * n" using assms(1) dividend_less_div_times [of n "len + n - 1"] by simp
  have "?c \<noteq> 0" "?c \<noteq> 1" using le assms(2) by (metis mult_0 not_less0 le_zero_eq) (metis le assms(2) leD mult_1)
  then show "2 \<le> ?c" by linarith
qed

lemma post_pages_data:
  assumes "0 < n"
  shows "concat (map msg_data (post_pages n n xs)) = xs"
proof (cases "length xs > n")
  case True
  have "concat (map msg_data (post_pages n n xs)) = take ((length xs + n - 1) div n * n) xs"
    using True pages_prefix [of n xs] by (simp add: post_pages_def Let_def page_msg_def comp_def del: upt_Suc)
  then show ?thesis using page_count(1) [OF assms True] by simp
qed (simp add: post_pages_def)

lemma post_pages_last:
  assumes "0 < n"
  shows "msg_isSending (last (post_pages n n xs)) = False \<and> (\<forall>m\<in>set (butlast (post_pages n n xs)). msg_isSending m)"
proof (cases "length xs > n")
  case True
  define c where "c = (length xs + n - 1) div n"
  have c: "2 \<le> c" using page_count(2) [OF assms True] by (simp add: c_def)
  then have ends: "[1..<Suc c] = [1..<c] @ [c]" by simp
  have post: "post_pages n n xs = map (page_msg n c xs) [1..<c] @ [page_msg n c xs c]"
    using True c by (simp add: post_pages_def Let_def c_def)
  have "page_tag c i \<noteq> js ''end''" if "i \<in> set [1..<c]" for i using that by (auto simp: page_tag_def js_def)
  moreover have "page_tag c c = js ''end''" using c by (simp add: page_tag_def)
  ultimately show ?thesis by (auto simp: post page_msg_def)
qed (simp add: post_pages_def)

text \<open>What is posted in pages is the result, and exactly the last message says that nothing more follows, when the page size is the constant
  that the pages are cut with, as it is in every call.\<close>

theorem postMessage_complete:
  "concat (map msg_data (postMessage xs PAGE_SIZE)) = xs \<and> \<not> msg_isSending (last (postMessage xs PAGE_SIZE))
     \<and> list_all msg_isSending (butlast (postMessage xs PAGE_SIZE))"
  unfolding postMessage_def list_all_iff using post_pages_data [of PAGE_SIZE xs] post_pages_last [of PAGE_SIZE xs] by (simp add: PAGE_SIZE_def)

text \<open>With another page size the pages do not follow it: a smaller one gives one page with everything and empty pages after it.\<close>

lemma postMessage_ignores_size:
  assumes "0 < n" "n < length xs" "length xs \<le> PAGE_SIZE"
  shows "map msg_data (postMessage xs n) = xs # replicate ((length xs + n - 1) div n - 1) []"
proof -
  define c where "c = (length xs + n - 1) div n"
  have "2 \<le> c" using page_count(2) [OF assms(1,2)] by (simp add: c_def)
  then have idx: "[1..<Suc c] = 1 # [2..<Suc c]" by (simp add: upt_conv_Cons numeral_2_eq_2)
  have "map msg_data (postMessage xs n) = map (\<lambda>i. pagination i PAGE_SIZE xs) [1..<Suc c]"
    using assms(2) by (simp add: postMessage_def post_pages_def Let_def c_def page_msg_def comp_def del: upt_Suc)
  also have "\<dots> = pagination 1 PAGE_SIZE xs # map (\<lambda>i. pagination i PAGE_SIZE xs) [2..<Suc c]" by (simp only: idx list.map)
  also have "pagination 1 PAGE_SIZE xs = xs" using assms(3) by (simp add: pagination_slice)
  also have "map (\<lambda>i. pagination i PAGE_SIZE xs) [2..<Suc c] = map (\<lambda>i. []) [2..<Suc c]"
  proof (rule map_cong [OF refl])
    fix i assume "i \<in> set [2..<Suc c]"
    then have "1 \<le> i - 1" by auto
    then have "PAGE_SIZE \<le> (i - 1) * PAGE_SIZE" using mult_le_mono1 [of 1 "i - 1" PAGE_SIZE] by simp
    then have "length xs \<le> (i - 1) * PAGE_SIZE" using assms(3) by (rule le_trans [rotated])
    moreover have "1 \<le> i" using \<open>1 \<le> i - 1\<close> by simp
    ultimately show "pagination i PAGE_SIZE xs = []" by (simp add: pagination_slice)
  qed
  also have "map (\<lambda>i. []) [2..<Suc c] = replicate (c - 1) []" using \<open>2 \<le> c\<close> by (simp add: map_replicate_const del: upt_Suc) 
  finally show ?thesis by (simp only: c_def)
qed

section \<open>Texts\<close>

definition setFileName :: "jsstring \<Rightarrow> jsstring" where
  "setFileName path =
     (let slash = of_char (CHR ''/'') in
      if slash \<in> set path \<and> length (takeWhile (\<lambda>c. c \<noteq> slash) (rev path)) + 1 < length path
      then rev (takeWhile (\<lambda>c. c \<noteq> slash) (rev path)) else path)"

text \<open>One part of a time: its number in the unit \<open>u\<close>, and what is left. The rest is taken from \<open>whole\<close>.\<close>

definition time_part :: "int \<Rightarrow> int \<Rightarrow> jsstring \<Rightarrow> int \<Rightarrow> (int \<times> jsstring) list \<times> int" where
  "time_part whole u nm n = (if n \<ge> u then ([(n div u, nm)], n - whole div u * u) else ([], n))"

text \<open>The parts of a time in nanoseconds. For the minutes the code subtracts all minutes of the time, those of the hours too.\<close>

definition time_parts :: "int \<Rightarrow> (int \<times> jsstring) list" where
  "time_parts ns =
     (let (p1, n1) = time_part ns 3600000000000 (js ''h '') ns;
          (p2, n2) = time_part ns 60000000000 (js ''m '') n1;
          (p3, n3) = time_part n2 1000000000 (js ''s '') n2;
          (p4, n4) = time_part n3 1000000 (js ''ms '') n3;
          (p5, n5) = time_part n4 1000 (0x3BC # js ''s '') n4
      in p1 @ p2 @ p3 @ p4 @ p5 @ (if n5 > 0 then [(n5, js ''ns '')] else []))"

definition getTimeString :: "int \<Rightarrow> jsstring" where
  "getTimeString ns = (let res = concat (map (\<lambda>(n, u). js_num n @ u) (time_parts ns)) in if res = [] then js_num ns else res)"

definition unit_ns :: "jsstring \<Rightarrow> int" where
  "unit_ns u = the (map_of [(js ''h '', 3600000000000), (js ''m '', 60000000000), (js ''s '', 1000000000), (js ''ms '', 1000000),
     (0x3BC # js ''s '', 1000), (js ''ns '', 1)] u)"

definition parts_ns :: "(int \<times> jsstring) list \<Rightarrow> int" where
  "parts_ns ps = sum_list (map (\<lambda>(n, u). n * unit_ns u) ps)"

lemma unit_ns_values [simp]:
  "unit_ns (js ''h '') = 3600000000000" "unit_ns (js ''m '') = 60000000000" "unit_ns (js ''s '') = 1000000000" "unit_ns (js ''ms '') = 1000000"
  "unit_ns (0x3BC # js ''s '') = 1000" "unit_ns (js ''ns '') = 1"
  by (simp_all add: unit_ns_def js_def)

lemma parts_ns_append [simp]: "parts_ns (xs @ ys) = parts_ns xs + parts_ns ys"
  by (simp add: parts_ns_def)

lemma parts_ns_simps [simp]: "parts_ns [] = 0" "parts_ns [(n, u)] = n * unit_ns u"
  by (simp_all add: parts_ns_def)

lemma time_part_exact:
  "time_part n u nm n = (ps, n') \<Longrightarrow> unit_ns nm = u \<Longrightarrow> 0 < u \<Longrightarrow> 0 \<le> n \<Longrightarrow> parts_ns ps + n' = n \<and> 0 \<le> n'"
  by (auto simp: time_part_def minus_div_mult_eq_mod split: if_splits)

lemma time_parts_below_hour:
  assumes "0 \<le> ns" "ns < 3600000000000"
  shows "parts_ns (time_parts ns) = ns"
proof -
  obtain p2 n2 where 2: "time_part ns 60000000000 (js ''m '') ns = (p2, n2)" by fastforce
  obtain p3 n3 where 3: "time_part n2 1000000000 (js ''s '') n2 = (p3, n3)" by fastforce
  obtain p4 n4 where 4: "time_part n3 1000000 (js ''ms '') n3 = (p4, n4)" by fastforce
  obtain p5 n5 where 5: "time_part n4 1000 (0x3BC # js ''s '') n4 = (p5, n5)" by fastforce
  have s2: "parts_ns p2 + n2 = ns" "0 \<le> n2" using time_part_exact [OF 2] assms by simp_all
  have s3: "parts_ns p3 + n3 = n2" "0 \<le> n3" using time_part_exact [OF 3] s2(2) by simp_all
  have s4: "parts_ns p4 + n4 = n3" "0 \<le> n4" using time_part_exact [OF 4] s3(2) by simp_all
  have s5: "parts_ns p5 + n5 = n4" "0 \<le> n5" using time_part_exact [OF 5] s4(2) by simp_all
  have "time_part ns 3600000000000 (js ''h '') ns = ([], ns)" using assms(2) by (simp add: time_part_def)
  then have "time_parts ns = p2 @ p3 @ p4 @ p5 @ (if n5 > 0 then [(n5, js ''ns '')] else [])" by (simp add: time_parts_def 2 3 4 5)
  then show ?thesis using s2 s3 s4 s5 by simp
qed

lemma time_parts_above_hour:
  assumes "3600000000000 \<le> ns" "60000000000 \<le> ns mod 3600000000000"
  shows "time_parts ns = [(ns div 3600000000000, js ''h ''), (ns mod 3600000000000 div 60000000000, js ''m '')]"
proof -
  let ?n1 = "ns mod 3600000000000"
  let ?n2 = "?n1 - ns div 60000000000 * 60000000000"
  have 1: "time_part ns 3600000000000 (js ''h '') ns = ([(ns div 3600000000000, js ''h '')], ?n1)"
    using assms(1) by (simp add: time_part_def minus_div_mult_eq_mod)
  have 2: "time_part ns 60000000000 (js ''m '') ?n1 = ([(?n1 div 60000000000, js ''m '')], ?n2)"
    using assms(2) by (simp add: time_part_def)
  have "60 \<le> ns div 60000000000" using zdiv_mono1 [OF assms(1), of 60000000000] by simp
  moreover have "?n1 < 3600000000000" by simp
  ultimately have "?n2 < 0" by linarith
  then have "time_part ?n2 u nm ?n2 = ([], ?n2)" if "0 < u" for u nm using that by (simp add: time_part_def)
  then show ?thesis using \<open>?n2 < 0\<close> by (simp add: time_parts_def 1 2)
qed

lemma nat_digits_nonempty: "nat_digits n \<noteq> []"
  by (simp add: nat_digits.simps [of n])

lemma js_num_nonempty: "js_num n \<noteq> []"
  by (simp add: js_num_def nat_digits_nonempty)

lemma time_text_empty: "concat (map (\<lambda>(n, u). js_num n @ u) ps) = [] \<longleftrightarrow> ps = []"
  by (cases ps) (auto simp: js_num_nonempty)

text \<open>A time below one hour is shown exactly: the numbers in the text, taken with their units, add up to it.\<close>

theorem getTimeString_exact:
  assumes "0 < ns" "ns < 3600000000000"
  shows "getTimeString ns = concat (map (\<lambda>(n, u). js_num n @ u) (time_parts ns)) \<and> parts_ns (time_parts ns) = ns"
proof -
  have *: "parts_ns (time_parts ns) = ns" by (rule time_parts_below_hour) (use assms in simp_all)
  then have "time_parts ns \<noteq> []" using assms(1) by auto
  then have "concat (map (\<lambda>(n, u). js_num n @ u) (time_parts ns)) \<noteq> []" unfolding time_text_empty .
  then show ?thesis using * by (simp only: getTimeString_def Let_def if_False simp_thms)
qed

text \<open>Above one hour the text loses everything below the minutes: it is only hours and minutes, whatever the seconds are.\<close>

theorem getTimeString_drops_seconds:
  assumes "3600000000000 \<le> ns" "60000000000 \<le> ns mod 3600000000000"
  shows "getTimeString ns = js_num (ns div 3600000000000) @ js ''h '' @ js_num (ns mod 3600000000000 div 60000000000) @ js ''m ''"
  using time_parts_above_hour [OF assms] by (simp add: getTimeString_def js_num_nonempty)

section \<open>Dispatch\<close>

definition logicWorker_keys :: "jsstring list" where
  "logicWorker_keys = map js [''perf'', ''native-memory'', ''fileSystem'', ''CpuState'', ''spt'', ''scheduling'', ''jsCpuProfile'']"

text \<open>The workers that a request goes to; a request of type \<open>clear\<close> clears all of them.\<close>

definition match_workers :: "jsstring \<Rightarrow> jsstring list" where
  "match_workers reqType = (if reqType = js ''clear'' then [] else filter (js_startsWith reqType) logicWorker_keys)"

lemma prefix_unique:
  assumes "js_startsWith t a" "js_startsWith t b" "length a \<le> length b"
  shows "take (length a) b = a"
proof -
  have "take (length a) (take (length b) t) = take (length a) t" using assms(3) by (simp add: min_absorb1)
  then show ?thesis using assms(1,2) by (simp only: js_startsWith_def)
qed

text \<open>No request reaches two workers.\<close>

theorem match_workers_unique: "length (match_workers reqType) \<le> 1"
proof -
  have "a = b" if "a \<in> set logicWorker_keys" "b \<in> set logicWorker_keys" "js_startsWith reqType a" "js_startsWith reqType b" for a b
  proof -
    have "take (length a) b = a \<or> take (length b) a = b" using prefix_unique [OF that(3,4)] prefix_unique [OF that(4,3)] by linarith
    then show ?thesis using that(1,2) by (auto simp: logicWorker_keys_def js_take js_eq_iff)
  qed
  then have "set (filter (js_startsWith reqType) logicWorker_keys) \<subseteq> {x} \<or> filter (js_startsWith reqType) logicWorker_keys = []"
    if "x \<in> set (filter (js_startsWith reqType) logicWorker_keys)" for x using that by auto
  moreover have "distinct (filter (js_startsWith reqType) logicWorker_keys)" by (simp add: logicWorker_keys_def js_eq_iff)
  ultimately have "length (filter (js_startsWith reqType) logicWorker_keys) \<le> 1"
    by (metis List.finite_set card.empty card_insert_disjoint card_mono distinct_card empty_iff finite.intros le_SucI le_zero_eq length_0_conv list.set_intros(1) neq_Nil_conv One_nat_def zero_le insert_absorb)
  then show ?thesis by (simp add: match_workers_def)
qed

section \<open>Concrete instances\<close>

theorem getTimeString_exact_witness: "parts_ns (time_parts 61500000) = 61500000"
  using getTimeString_exact [of 61500000] by simp

theorem getTimeString_drops_seconds_witness:
  "getTimeString 3665000000000 = js_num 1 @ js ''h '' @ js_num 1 @ js ''m ''"
  using getTimeString_drops_seconds [of 3665000000000] by simp

end
