(* ===== verification/Logic_States.thy ===== *)
theory Logic_States
  imports Logic_Common "HOL-Library.Multiset" "HOL-Library.Sublist"
begin

text \<open>
  The workers for thread and CPU states: the states of a CPU with their gaps filled
  (\<open>trace/database/logic-worker/ProcedureLogicWorkerCpuState.ts\<close>) and the tables of states, processes and threads of a
  range of time (\<open>trace/database/logic-worker/ProcedureLogicWorkerSPT.ts\<close>).

  The rows have the columns of the query, which are never missing except \<open>cpu\<close>, \<open>pid\<close> and \<open>tid\<close>; those are \<open>None\<close> when the
  database has \<open>NULL\<close>. The average of a row is a text; it is kept as the quotient that \<open>toFixed\<close> formats.
\<close>

section \<open>The states of a CPU\<close>

record CpuState =
  cs_startTs :: int
  cs_endTs :: int
  cs_dur :: int
  cs_value :: int

definition gap_state :: "int \<Rightarrow> int \<Rightarrow> CpuState" where
  "gap_state a b = \<lparr>cs_startTs = a, cs_endTs = b, cs_dur = b - a, cs_value = 3\<rparr>"

fun fill_gaps :: "CpuState \<Rightarrow> CpuState list \<Rightarrow> CpuState list" where
  "fill_gaps prev [] = []"
| "fill_gaps prev (current # arr) =
     (if cs_startTs current > cs_endTs prev then [gap_state (cs_endTs prev) (cs_startTs current)] else []) @ current # fill_gaps current arr"

definition supplementCpuState :: "CpuState list \<Rightarrow> CpuState list" where
  "supplementCpuState arr =
     (case arr of
        [] \<Rightarrow> []
      | first # rest \<Rightarrow> (if cs_startTs first > 0 then [gap_state 0 (cs_startTs first)] else []) @ first # fill_gaps first rest)"

text \<open>Rows in order, each with the duration of its interval.\<close>

fun states_ok :: "int \<Rightarrow> CpuState list \<Rightarrow> bool" where
  "states_ok t [] \<longleftrightarrow> True"
| "states_ok t (c # cs) \<longleftrightarrow> t \<le> cs_startTs c \<and> cs_endTs c = cs_startTs c + cs_dur c \<and> cs_dur c \<ge> 0 \<and> states_ok (cs_endTs c) cs"

text \<open>Intervals that follow each other from \<open>t\<close> to \<open>u\<close> without a gap.\<close>

fun seamless :: "int \<Rightarrow> CpuState list \<Rightarrow> int \<Rightarrow> bool" where
  "seamless t [] u \<longleftrightarrow> t = u"
| "seamless t (c # cs) u \<longleftrightarrow> cs_startTs c = t \<and> cs_endTs c = t + cs_dur c \<and> cs_dur c \<ge> 0 \<and> seamless (cs_endTs c) cs u"

lemma seamless_append: "seamless t (xs @ ys) u \<longleftrightarrow> (\<exists>v. seamless t xs v \<and> seamless v ys u)"
  by (induction xs arbitrary: t) auto

lemma seamless_sum: "seamless t cs u \<Longrightarrow> sum_list (map cs_dur cs) = u - t"
  by (induction cs arbitrary: t) auto

lemma fill_gaps_seamless:
  "states_ok (cs_endTs prev) cs \<Longrightarrow> seamless (cs_endTs prev) (fill_gaps prev cs) (cs_endTs (last (prev # cs)))"
proof (induction cs arbitrary: prev)
  case (Cons c cs)
  then show ?case using Cons.IH [of c] by (auto simp: gap_state_def)
qed simp

lemma fill_gaps_subseq: "subseq cs (fill_gaps prev cs)"
  by (induction cs arbitrary: prev) auto

text \<open>C31: the supplemented states cover the time from zero to the end of the last row without gap or overlap, their durations add up to that time, and all
  rows are still there in their order.\<close>

theorem supplementCpuState_seamless:
  assumes "states_ok 0 arr" "arr \<noteq> []"
  shows "seamless 0 (supplementCpuState arr) (cs_endTs (last arr)) \<and> sum_list (map cs_dur (supplementCpuState arr)) = cs_endTs (last arr)
    \<and> subseq arr (supplementCpuState arr)"
proof -
  obtain first rest where arr: "arr = first # rest" using assms(2) by (cases arr) auto
  have ok: "0 \<le> cs_startTs first" "cs_endTs first = cs_startTs first + cs_dur first" "0 \<le> cs_dur first" "states_ok (cs_endTs first) rest"
    using assms(1) by (auto simp: arr)
  have "seamless 0 (supplementCpuState arr) (cs_endTs (last arr))"
    using fill_gaps_seamless [OF ok(4)] ok(1-3) by (auto simp: arr supplementCpuState_def gap_state_def)
  moreover have "subseq arr (supplementCpuState arr)" using fill_gaps_subseq [of rest first] by (auto simp: arr supplementCpuState_def intro: list_emb_append2)
  ultimately show ?thesis using seamless_sum [of 0] by simp
qed

section \<open>The tables of states, processes and threads\<close>

record ThreadSlice =
  sl_state :: jsstring
  sl_dur :: int
  sl_startTs :: int
  sl_endTs :: int
  sl_cpu :: "int option"
  sl_tid :: "int option"
  sl_pid :: "int option"
  sl_itId :: int
  sl_argSetID :: "int option"

text \<open>The average: the duration itself, or the quotient that is formatted.\<close>

datatype AvgText = AvgDur int | AvgFixed int int

record SptData =
  sd_title :: jsstring
  sd_count :: int
  sd_state :: "jsstring option"
  sd_pid :: "int option"
  sd_tid :: "int option"
  sd_minDuration :: int
  sd_maxDuration :: int
  sd_wallDuration :: int
  sd_avgDuration :: AvgText

datatype SptNode = SptNode (sn_data: SptData) (sn_children: "SptNode list")

definition num_text :: "int option \<Rightarrow> jsstring" where
  "num_text x = (case x of None \<Rightarrow> js ''null'' | Some i \<Rightarrow> js_num i)"

definition spt_data :: "jsstring \<Rightarrow> jsstring option \<Rightarrow> int option \<Rightarrow> int option \<Rightarrow> int \<Rightarrow> SptData" where
  "spt_data title state pid tid dur =
     \<lparr>sd_title = title, sd_count = 1, sd_state = state, sd_pid = pid, sd_tid = tid, sd_minDuration = dur, sd_maxDuration = dur,
      sd_wallDuration = dur, sd_avgDuration = AvgDur dur\<rparr>"

text \<open>A further slice of a row.\<close>

definition add_slice :: "int \<Rightarrow> SptData \<Rightarrow> SptData" where
  "add_slice dur d = d\<lparr>sd_count := sd_count d + 1, sd_wallDuration := sd_wallDuration d + dur, sd_minDuration := min (sd_minDuration d) dur,
     sd_maxDuration := max (sd_maxDuration d) dur, sd_avgDuration := AvgFixed (sd_wallDuration d + dur) (sd_count d + 1)\<rparr>"

text \<open>New rows, one below the other.\<close>

fun spt_branch :: "SptData \<Rightarrow> SptData list \<Rightarrow> SptNode" where
  "spt_branch d [] = SptNode d []"
| "spt_branch d (e # ds) = SptNode d [spt_branch e ds]"

text \<open>Into the rows below one: \<open>children.find\<close> by the title, or a new row at the end.\<close>

fun add_child :: "int \<Rightarrow> SptData list \<Rightarrow> SptNode list \<Rightarrow> SptNode list" where
  "add_child dur [] cs = cs"
| "add_child dur (d # ds) [] = [spt_branch d ds]"
| "add_child dur (d # ds) (SptNode e ks # cs) =
     (if sd_title e = sd_title d then SptNode (add_slice dur e) (add_child dur ds ks) # cs else SptNode e ks # add_child dur (d # ds) cs)"

text \<open>Into the object \<open>group\<close>: the first row has a property of its own.\<close>

definition group_slice :: "jsstring \<Rightarrow> int \<Rightarrow> SptData \<Rightarrow> SptData list \<Rightarrow> (jsstring \<times> SptNode) list \<Rightarrow> (jsstring \<times> SptNode) list" where
  "group_slice key dur d ds m =
     (case map_of m key of
        Some (SptNode e ks) \<Rightarrow> js_map_set key (SptNode (add_slice dur e) (add_child dur ds ks)) m
      | None \<Rightarrow> js_map_set key (spt_branch d ds) m)"

definition state_title :: "ThreadSlice \<Rightarrow> jsstring" where "state_title s = js ''S-'' @ sl_state s"
definition process_title :: "ThreadSlice \<Rightarrow> jsstring" where "process_title s = js ''P-'' @ num_text (sl_pid s)"
definition thread_title :: "ThreadSlice \<Rightarrow> jsstring" where "thread_title s = js ''T-'' @ num_text (sl_tid s)"

definition spt_filter :: "int \<Rightarrow> int \<Rightarrow> int list \<Rightarrow> ThreadSlice \<Rightarrow> bool" where
  "spt_filter leftNs rightNs cpus s \<longleftrightarrow> max leftNs (sl_startTs s) < min rightNs (sl_startTs s + sl_dur s)
     \<and> (case sl_cpu s of None \<Rightarrow> True | Some c \<Rightarrow> c \<in> set cpus)"

definition pts_step :: "ThreadSlice \<Rightarrow> (jsstring \<times> SptNode) list \<Rightarrow> (jsstring \<times> SptNode) list" where
  "pts_step s = group_slice (num_text (sl_pid s)) (sl_dur s)
     (spt_data (process_title s) None (sl_pid s) None (sl_dur s))
     [spt_data (thread_title s) None (sl_pid s) (sl_tid s) (sl_dur s),
      spt_data (state_title s) (Some (sl_state s)) (sl_pid s) (sl_tid s) (sl_dur s)]"

definition spt_step :: "ThreadSlice \<Rightarrow> (jsstring \<times> SptNode) list \<Rightarrow> (jsstring \<times> SptNode) list" where
  "spt_step s = group_slice (sl_state s) (sl_dur s)
     (spt_data (state_title s) (Some (sl_state s)) None None (sl_dur s))
     [spt_data (process_title s) (Some (sl_state s)) (sl_pid s) None (sl_dur s),
      spt_data (thread_title s) (Some (sl_state s)) (sl_pid s) (sl_tid s) (sl_dur s)]"

definition getPTSData :: "ThreadSlice list \<Rightarrow> int \<Rightarrow> int \<Rightarrow> int list \<Rightarrow> SptNode list" where
  "getPTSData threadSlice leftNs rightNs cpus = js_object_values (fold pts_step (filter (spt_filter leftNs rightNs cpus) threadSlice) [])"

definition getSPTData :: "ThreadSlice list \<Rightarrow> int \<Rightarrow> int \<Rightarrow> int list \<Rightarrow> SptNode list" where
  "getSPTData threadSlice leftNs rightNs cpus = js_object_values (fold spt_step (filter (spt_filter leftNs rightNs cpus) threadSlice) [])"

subsection \<open>Rows by their path\<close>

fun node_at :: "jsstring list \<Rightarrow> SptNode list \<Rightarrow> SptData option" where
  "node_at [] ns = None"
| "node_at (t # p) ns =
     (case List.find (\<lambda>n. sd_title (sn_data n) = t) ns of None \<Rightarrow> None | Some n \<Rightarrow> if p = [] then Some (sn_data n) else node_at p (sn_children n))"

lemma node_at_Nil [simp]: "node_at p [] = None"
  by (cases p) simp_all

lemma add_slice_title [simp]: "sd_title (add_slice dur d) = sd_title d"
  by (simp add: add_slice_def)

abbreviation on_titles :: "jsstring list \<Rightarrow> SptData list \<Rightarrow> bool" where
  "on_titles p ds \<equiv> take (length p) (map sd_title ds) = p"

lemma spt_branch_data [simp]: "sn_data (spt_branch d ds) = d"
  by (cases ds) simp_all

lemma node_at_branch: "node_at p [spt_branch d ds] = (if p \<noteq> [] \<and> on_titles p (d # ds) then Some ((d # ds) ! (length p - 1)) else None)"
proof (induction ds arbitrary: p d)
  case Nil
  show ?case by (cases p) (auto simp: take_Cons')
next
  case (Cons e ds)
  show ?case
  proof (cases p)
    case (Cons t q)
    then show ?thesis using Cons.IH [of q e] by (cases q) auto
  qed simp
qed

text \<open>What a table holds after a slice.\<close>

lemma node_at_add_child:
  "node_at p (add_child dur ds cs) =
     (if p \<noteq> [] \<and> on_titles p ds then Some (case node_at p cs of None \<Rightarrow> ds ! (length p - 1) | Some e \<Rightarrow> add_slice dur e) else node_at p cs)"
proof (induction dur ds cs arbitrary: p rule: add_child.induct)
  case (2 dur d ds)
  then show ?case by (simp add: node_at_branch)
next
  case (3 dur d ds e ks cs)
  show ?case
  proof (cases p)
    case (Cons t q)
    show ?thesis
    proof (cases "sd_title e = sd_title d")
      case True
      then show ?thesis using "3.IH"(1) [OF True, of q] Cons by (cases "q = []") (auto simp: nth_Cons' split: option.split)
    next
      case False
      then show ?thesis using "3.IH"(2) [OF False, of p] Cons by (cases "sd_title e = t") auto
    qed
  qed simp
qed auto

lemma find_distinct: "distinct (map f xs) \<Longrightarrow> List.find (\<lambda>x. f x = k) xs = Some x \<longleftrightarrow> x \<in> set xs \<and> f x = k"
  by (induction xs) (auto simp: image_iff)

lemma find_same_rows:
  assumes "distinct (map f xs)" "mset xs = mset ys"
  shows "List.find (\<lambda>x. f x = k) xs = List.find (\<lambda>x. f x = k) ys"
proof -
  have "distinct (map f ys)" using assms mset_eq_imp_distinct_iff by (metis mset_map)
  then have "List.find (\<lambda>x. f x = k) xs = Some x \<longleftrightarrow> List.find (\<lambda>x. f x = k) ys = Some x" for x
    using find_distinct [OF assms(1)] find_distinct [of f ys] mset_eq_setD [OF assms(2)] by simp
  then show ?thesis by (metis not_Some_eq)
qed

lemma node_at_same_rows:
  assumes "distinct (map (sd_title \<circ> sn_data) xs)" "mset xs = mset ys"
  shows "node_at p xs = node_at p ys"
  using find_same_rows [OF assms] by (cases p) (simp_all add: comp_def)

subsection \<open>The contract of a table\<close>

text \<open>
  Both tables put the rows of a slice, from the top to the bottom, under a property of the object. The contract is that the title of the top
  row is the property with a prefix, and that new rows hold the slice itself. Under it every row sums up the slices on its path.
\<close>

definition fresh_row :: "int \<Rightarrow> SptData \<Rightarrow> bool" where
  "fresh_row dur d \<longleftrightarrow> sd_count d = 1 \<and> sd_wallDuration d = dur \<and> sd_minDuration d = dur \<and> sd_maxDuration d = dur \<and> sd_avgDuration d = AvgDur dur"

text \<open>The values of a row for a list of durations.\<close>

definition sums_up :: "SptData \<Rightarrow> int list \<Rightarrow> bool" where
  "sums_up d durs \<longleftrightarrow> durs \<noteq> [] \<and> sd_count d = int (length durs) \<and> sd_wallDuration d = sum_list durs
     \<and> sd_minDuration d = Min (set durs) \<and> sd_maxDuration d = Max (set durs)
     \<and> sd_avgDuration d = (if length durs = 1 then AvgDur (hd durs) else AvgFixed (sum_list durs) (int (length durs)))"

lemma sums_up_fresh: "fresh_row dur d \<Longrightarrow> sums_up d [dur]"
  by (simp add: fresh_row_def sums_up_def)

lemma sums_up_add: "sums_up d durs \<Longrightarrow> sums_up (add_slice dur d) (durs @ [dur])"
  by (auto simp: sums_up_def add_slice_def min.commute max.commute)

locale slice_table =
  fixes pre :: jsstring and key :: "ThreadSlice \<Rightarrow> jsstring" and top :: "ThreadSlice \<Rightarrow> SptData" and rest :: "ThreadSlice \<Rightarrow> SptData list"
  assumes top_title: "sd_title (top s) = pre @ key s"
    and rows_fresh: "d \<in> set (top s # rest s) \<Longrightarrow> fresh_row (sl_dur s) d"
begin

definition table :: "ThreadSlice list \<Rightarrow> (jsstring \<times> SptNode) list" where
  "table xs = fold (\<lambda>s. group_slice (key s) (sl_dur s) (top s) (rest s)) xs []"

definition titled :: "(jsstring \<times> SptNode) list \<Rightarrow> bool" where
  "titled m \<longleftrightarrow> js_map_ok m \<and> (\<forall>e\<in>set m. sd_title (sn_data (snd e)) = pre @ fst e)"

lemma group_slice_rows:
  assumes "\<forall>e\<in>set m. sd_title (sn_data (snd e)) = pre @ fst e"
  shows "map snd (group_slice (key s) dur (top s) (rest s) m) = add_child dur (top s # rest s) (map snd m)"
  using assms
proof (induction m)
  case (Cons e m)
  obtain k d ks where e: "e = (k, SptNode d ks)" by (metis SptNode.collapse prod.collapse)
  then show ?case using Cons top_title [of s] by (auto simp: group_slice_def split: option.splits SptNode.splits)
qed (simp add: group_slice_def)

lemma group_slice_titled:
  assumes "titled m"
  shows "titled (group_slice (key s) dur (top s) (rest s) m)"
proof -
  have upd: "titled (js_map_set (key s) v m)" if "sd_title (sn_data v) = pre @ key s" for v
  proof -
    have "set (js_map_set k v m) \<subseteq> insert (k, v) (set m)" for k by (induction m) (auto split: if_splits)
    moreover have "\<forall>e\<in>insert (key s, v) (set m). sd_title (sn_data (snd e)) = pre @ fst e" using that assms by (simp add: titled_def)
    ultimately have "\<forall>e\<in>set (js_map_set (key s) v m). sd_title (sn_data (snd e)) = pre @ fst e" by blast
    then show ?thesis using assms by (simp add: titled_def)
  qed
  show ?thesis
  proof (cases "map_of m (key s)")
    case None
    then show ?thesis using upd [of "spt_branch (top s) (rest s)"] top_title [of s] by (simp add: group_slice_def)
  next
    case (Some v)
    then have "sd_title (sn_data v) = pre @ key s" using assms map_of_SomeD [OF Some] by (auto simp: titled_def)
    then show ?thesis using upd Some by (cases v) (simp add: group_slice_def)
  qed
qed

lemma table_titled: "titled (table xs)"
  by (induction xs rule: rev_induct) (simp_all add: table_def group_slice_titled, simp add: titled_def js_map_ok_def)

lemma table_rows: "map snd (table xs) = fold (\<lambda>s. add_child (sl_dur s) (top s # rest s)) xs []"
proof (induction xs rule: rev_induct)
  case (snoc s xs)
  have "\<forall>e\<in>set (table xs). sd_title (sn_data (snd e)) = pre @ fst e" using table_titled [of xs] by (simp add: titled_def)
  from group_slice_rows [OF this] snoc show ?case by (simp add: table_def)
qed (simp add: table_def)

definition slices_at :: "jsstring list \<Rightarrow> ThreadSlice list \<Rightarrow> ThreadSlice list" where
  "slices_at p xs = filter (\<lambda>s. on_titles p (top s # rest s)) xs"

lemma node_at_rows:
  assumes "p \<noteq> []"
  shows "case node_at p (map snd (table xs)) of None \<Rightarrow> slices_at p xs = [] | Some d \<Rightarrow> sums_up d (map sl_dur (slices_at p xs))"
  unfolding table_rows
proof (induction xs rule: rev_induct)
  case (snoc s xs)
  show ?case
  proof (cases "on_titles p (top s # rest s)")
    case True
    let ?ds = "top s # rest s"
    have "length p \<le> length ?ds" using arg_cong [OF True, of length] by (simp add: min_def split: if_splits)
    then have "?ds ! (length p - 1) \<in> set ?ds" using assms by (intro nth_mem) (cases p, auto)
    then have "sums_up (?ds ! (length p - 1)) [sl_dur s]" by (intro sums_up_fresh rows_fresh)
    then show ?thesis
      using snoc True assms by (auto simp: node_at_add_child slices_at_def sums_up_add split: option.splits)
  next
    case False
    then have "slices_at p (xs @ [s]) = slices_at p xs" by (simp add: slices_at_def)
    then show ?thesis using snoc False by (simp add: node_at_add_child split: option.splits)
  qed
qed (simp add: slices_at_def)

text \<open>The order of the object's properties makes no difference.\<close>

lemma table_rows_at:
  "case node_at (t # p) (js_object_values (table xs)) of None \<Rightarrow> slices_at (t # p) xs = [] | Some d \<Rightarrow> sums_up d (map sl_dur (slices_at (t # p) xs))"
proof -
  have "map (sd_title \<circ> sn_data) (map snd (table xs)) = map (\<lambda>k. pre @ k) (map fst (table xs))"
    using table_titled [of xs] by (simp add: titled_def)
  moreover have "distinct (map (\<lambda>k. pre @ k) (map fst (table xs)))"
    using table_titled [of xs] by (simp add: titled_def js_map_ok_def distinct_map inj_on_def)
  ultimately have "distinct (map (sd_title \<circ> sn_data) (js_object_values (table xs)))" by (simp only: distinct_js_object_values)
  from node_at_same_rows [OF this mset_js_object_values] show ?thesis using node_at_rows [of "t # p" xs] by simp
qed

end

subsection \<open>The two tables\<close>

lemma spt_data_fresh: "fresh_row dur (spt_data t st pid tid dur)"
  by (simp add: fresh_row_def spt_data_def)

lemma spt_data_title [simp]: "sd_title (spt_data t st pid tid dur) = t"
  by (simp add: spt_data_def)

definition pts_top :: "ThreadSlice \<Rightarrow> SptData" where
  "pts_top s = spt_data (process_title s) None (sl_pid s) None (sl_dur s)"

definition pts_rest :: "ThreadSlice \<Rightarrow> SptData list" where
  "pts_rest s = [spt_data (thread_title s) None (sl_pid s) (sl_tid s) (sl_dur s),
     spt_data (state_title s) (Some (sl_state s)) (sl_pid s) (sl_tid s) (sl_dur s)]"

definition spt_top :: "ThreadSlice \<Rightarrow> SptData" where
  "spt_top s = spt_data (state_title s) (Some (sl_state s)) None None (sl_dur s)"

definition spt_rest :: "ThreadSlice \<Rightarrow> SptData list" where
  "spt_rest s = [spt_data (process_title s) (Some (sl_state s)) (sl_pid s) None (sl_dur s),
     spt_data (thread_title s) (Some (sl_state s)) (sl_pid s) (sl_tid s) (sl_dur s)]"

interpretation pts: slice_table "js ''P-''" "\<lambda>s. num_text (sl_pid s)" pts_top pts_rest
  by unfold_locales (auto simp: pts_top_def pts_rest_def process_title_def spt_data_fresh)

interpretation spt: slice_table "js ''S-''" sl_state spt_top spt_rest
  by unfold_locales (auto simp: spt_top_def spt_rest_def state_title_def spt_data_fresh)

lemma getPTSData_table: "getPTSData xs l r cpus = js_object_values (pts.table (filter (spt_filter l r cpus) xs))"
  unfolding getPTSData_def pts.table_def pts_step_def pts_top_def pts_rest_def ..

lemma getSPTData_table: "getSPTData xs l r cpus = js_object_values (spt.table (filter (spt_filter l r cpus) xs))"
  unfolding getSPTData_def spt.table_def spt_step_def spt_top_def spt_rest_def ..

text \<open>The slices of a range and of a path of titles.\<close>

definition pts_slices :: "ThreadSlice list \<Rightarrow> int \<Rightarrow> int \<Rightarrow> int list \<Rightarrow> jsstring list \<Rightarrow> ThreadSlice list" where
  "pts_slices xs l r cpus p =
     filter (\<lambda>s. spt_filter l r cpus s \<and> take (length p) [process_title s, thread_title s, state_title s] = p) xs"

definition spt_slices :: "ThreadSlice list \<Rightarrow> int \<Rightarrow> int \<Rightarrow> int list \<Rightarrow> jsstring list \<Rightarrow> ThreadSlice list" where
  "spt_slices xs l r cpus p =
     filter (\<lambda>s. spt_filter l r cpus s \<and> take (length p) [state_title s, process_title s, thread_title s] = p) xs"

lemma pts_slices_at: "pts.slices_at p (filter (spt_filter l r cpus) xs) = pts_slices xs l r cpus p"
  by (simp add: pts.slices_at_def pts_slices_def pts_top_def pts_rest_def conj_commute)

lemma spt_slices_at: "spt.slices_at p (filter (spt_filter l r cpus) xs) = spt_slices xs l r cpus p"
  by (simp add: spt.slices_at_def spt_slices_def spt_top_def spt_rest_def conj_commute)

text \<open>In the table of processes, threads and states of a range, a path of titles leads to a row exactly when slices of the range lie on it,
  and the row holds their number and the sum, the least and the greatest of their durations.\<close>

theorem getPTSData_rows:
  "case node_at (t # p) (getPTSData xs l r cpus) of
     None \<Rightarrow> pts_slices xs l r cpus (t # p) = []
   | Some d \<Rightarrow> sums_up d (map sl_dur (pts_slices xs l r cpus (t # p)))"
  using pts.table_rows_at [of t p "filter (spt_filter l r cpus) xs"] by (simp only: getPTSData_table pts_slices_at)

text \<open>The same for the table of states, processes and threads.\<close>

theorem getSPTData_rows:
  "case node_at (t # p) (getSPTData xs l r cpus) of
     None \<Rightarrow> spt_slices xs l r cpus (t # p) = []
   | Some d \<Rightarrow> sums_up d (map sl_dur (spt_slices xs l r cpus (t # p)))"
  using spt.table_rows_at [of t p "filter (spt_filter l r cpus) xs"] by (simp only: getSPTData_table spt_slices_at)

section \<open>The workers\<close>

datatype SptParams = SptInit "ThreadSlice list option" | SptGetPTS int int "int list" | SptGetSPT int int "int list"
  | SptGetCpuPriority | SptGetCpuPriorityByTime int int | SptOther

datatype SptPost = SptQuery | SptInitDone | SptTable jsstring "SptNode list" | SptRows jsstring "ThreadSlice list"

definition spt_handle :: "SptParams \<Rightarrow> ThreadSlice list \<Rightarrow> ThreadSlice list \<times> SptPost list" where
  "spt_handle msg threadSlice =
     (case msg of
        SptInit (Some rows) \<Rightarrow> (rows, [SptInitDone])
      | SptInit None \<Rightarrow> (threadSlice, [SptQuery])
      | SptGetPTS l r cpus \<Rightarrow> (threadSlice, [SptTable (js ''spt-getPTS'') (getPTSData threadSlice l r cpus)])
      | SptGetSPT l r cpus \<Rightarrow> (threadSlice, [SptTable (js ''spt-getSPT'') (getSPTData threadSlice l r cpus)])
      | SptGetCpuPriority \<Rightarrow> (threadSlice, [SptRows (js ''spt-getCpuPriority'') threadSlice])
      | SptGetCpuPriorityByTime l r \<Rightarrow>
          (threadSlice, [SptRows (js ''spt-getCpuPriorityByTime'') (filter (\<lambda>s. \<not> (sl_endTs s < l \<or> sl_startTs s > r)) threadSlice)])
      | SptOther \<Rightarrow> (threadSlice, []))"

definition spt_clearAll :: "ThreadSlice list \<Rightarrow> ThreadSlice list" where
  "spt_clearAll threadSlice = []"

datatype CpuStatePost = CpuQuery int | CpuStates "CpuState list"

definition cpuState_handle :: "CpuState list option \<Rightarrow> int \<Rightarrow> CpuStatePost" where
  "cpuState_handle list cpu = (case list of None \<Rightarrow> CpuQuery cpu | Some rows \<Rightarrow> CpuStates (supplementCpuState rows))"

section \<open>Concrete instances\<close>

theorem supplementCpuState_seamless_witness:
  "seamless 0 (supplementCpuState [\<lparr>cs_startTs = 2, cs_endTs = 5, cs_dur = 3, cs_value = 0\<rparr>, \<lparr>cs_startTs = 7, cs_endTs = 8, cs_dur = 1, cs_value = 1\<rparr>]) 8"
  using supplementCpuState_seamless [of "[\<lparr>cs_startTs = 2, cs_endTs = 5, cs_dur = 3, cs_value = 0\<rparr>, \<lparr>cs_startTs = 7, cs_endTs = 8, cs_dur = 1, cs_value = 1\<rparr>]"]
  by simp

end
