(* ===== verification/Logic_Merge.thy ===== *)
theory Logic_Merge
  imports Logic_Common
begin

text \<open>
  The call trees of the views: hiding, cutting and searching (\<open>MerageBeanDataSplit\<close> of
  \<open>trace/database/logic-worker/ProcedureLogicWorkerCommon.ts\<close>).

  A node is known by a number. What a tree is built with does not change afterwards: names, counts and \<open>initChildren\<close>; that is the
  tree \<open>MTree\<close>, and the links \<open>parent\<close> and \<open>parentNode\<close> lead to the node above. The fields that the operations change are in
  \<open>MState\<close>. A node is shown when it is not stored away and the search has not excluded it.
\<close>

section \<open>Data\<close>

record MBean =
  mb_symbolName :: jsstring
  mb_libName :: jsstring
  mb_path :: jsstring
  mb_count :: int

datatype MTree = MTree (mt_id: nat) (mt_bean: MBean) (mt_kids: "MTree list")

record MState =
  ms_isStore :: "nat \<Rightarrow> int"
  ms_searchShow :: "nat \<Rightarrow> bool"
  ms_isSearch :: "nat \<Rightarrow> bool"
  ms_children :: "nat \<Rightarrow> nat list"
  ms_treeParent :: "nat \<Rightarrow> nat option"
  ms_splitMap :: "jsstring \<Rightarrow> nat list option"

definition shown :: "MState \<Rightarrow> nat \<Rightarrow> bool" where
  "shown s i \<longleftrightarrow> ms_isStore s i = 0 \<and> ms_searchShow s i"

text \<open>The nodes above each node, the nearest first.\<close>

fun tree_ups :: "nat list \<Rightarrow> MTree \<Rightarrow> (nat \<times> nat list) list" where
  "tree_ups ps (MTree i b kids) = (i, ps) # concat (map (tree_ups (i # ps)) kids)"

definition parent_chain :: "MTree list \<Rightarrow> nat \<Rightarrow> nat list" where
  "parent_chain data i = (case map_of (concat (map (tree_ups []) data)) i of None \<Rightarrow> [] | Some ps \<Rightarrow> ps)"

section \<open>Storing nodes away\<close>

definition bean_matches :: "jsstring \<Rightarrow> bool \<Rightarrow> MBean \<Rightarrow> bool" where
  "bean_matches nm isSymbol b \<longleftrightarrow> (isSymbol \<and> mb_symbolName b = nm) \<or> (\<not> isSymbol \<and> mb_libName b = nm)"

definition store_node :: "jsstring \<Rightarrow> nat \<Rightarrow> MState \<Rightarrow> MState" where
  "store_node nm i s = s\<lparr>ms_splitMap := (ms_splitMap s)(nm \<mapsto> (case ms_splitMap s nm of None \<Rightarrow> [] | Some l \<Rightarrow> l) @ [i]),
     ms_isStore := (ms_isStore s)(i := ms_isStore s i + 1)\<rparr>"

fun recursionChargeInitTree :: "jsstring \<Rightarrow> bool \<Rightarrow> MTree \<Rightarrow> MState \<Rightarrow> MState" where
  "recursionChargeInitTree nm isSymbol (MTree i b kids) s =
     fold (recursionChargeInitTree nm isSymbol) kids (if bean_matches nm isSymbol b then store_node nm i s else s)"

fun pruneChildren :: "jsstring \<Rightarrow> MTree \<Rightarrow> MState \<Rightarrow> MState" where
  "pruneChildren nm (MTree i b kids) s = fold (\<lambda>child s. pruneChildren nm child (store_node nm (mt_id child) s)) kids s"

fun recursionPruneInitTree :: "jsstring \<Rightarrow> bool \<Rightarrow> MTree \<Rightarrow> MState \<Rightarrow> MState" where
  "recursionPruneInitTree nm isSymbol (MTree i b kids) s =
     (if bean_matches nm isSymbol b then pruneChildren nm (MTree i b kids) (store_node nm i s)
      else fold (recursionPruneInitTree nm isSymbol) kids s)"

fun recursionChargeByRule :: "jsstring \<Rightarrow> (MBean \<Rightarrow> bool) \<Rightarrow> MTree \<Rightarrow> MState \<Rightarrow> MState" where
  "recursionChargeByRule nm rule (MTree i b kids) s =
     fold (\<lambda>child s. recursionChargeByRule nm rule child (if rule (mt_bean child) then store_node nm (mt_id child) s else s)) kids s"

definition clear_children :: "nat list \<Rightarrow> MState \<Rightarrow> MState" where
  "clear_children is s = s\<lparr>ms_children := (\<lambda>i. if i \<in> set is then [] else ms_children s i)\<rparr>"

definition systmeRuleName :: jsstring where "systmeRuleName = js ''/system/''"
definition numRuleName :: jsstring where "numRuleName = js ''/max/min/''"

definition hideSystemLibrary :: "MTree list \<Rightarrow> MState \<Rightarrow> MState" where
  "hideSystemLibrary allProcess =
     fold (\<lambda>item s. recursionChargeByRule systmeRuleName (\<lambda>b. js_startsWith (mb_path b) systmeRuleName) item (clear_children [mt_id item] s)) allProcess"

text \<open>The upper bound is \<open>None\<close> for infinity.\<close>

definition num_rule :: "int \<Rightarrow> int option \<Rightarrow> MBean \<Rightarrow> bool" where
  "num_rule startNum endNum b \<longleftrightarrow> mb_count b < startNum \<or> (case endNum of None \<Rightarrow> False | Some e \<Rightarrow> mb_count b > e)"

definition hideNumMaxAndMin :: "MTree list \<Rightarrow> int \<Rightarrow> int option \<Rightarrow> MState \<Rightarrow> MState" where
  "hideNumMaxAndMin allProcess startNum endNum =
     fold (\<lambda>item s. recursionChargeByRule numRuleName (num_rule startNum endNum) item (clear_children [mt_id item] s)) allProcess"

definition unstore_node :: "nat \<Rightarrow> MState \<Rightarrow> MState" where
  "unstore_node i s = s\<lparr>ms_isStore := (ms_isStore s)(i := ms_isStore s i - 1)\<rparr>"

definition resotreAllNode :: "jsstring list \<Rightarrow> MState \<Rightarrow> MState" where
  "resotreAllNode symbols = fold (\<lambda>nm s. case ms_splitMap s nm of None \<Rightarrow> s | Some l \<Rightarrow> fold unstore_node l s) symbols"

definition clearSplitMapData :: "jsstring \<Rightarrow> MState \<Rightarrow> MState" where
  "clearSplitMapData nm s = s\<lparr>ms_splitMap := (ms_splitMap s)(nm := None)\<rparr>"

record SplitItem =
  si_name :: jsstring
  si_select :: jsstring
  si_type :: jsstring
  si_checked :: bool

definition split_process :: "jsstring \<Rightarrow> bool \<Rightarrow> bool \<Rightarrow> MTree \<Rightarrow> MState \<Rightarrow> MState" where
  "split_process nm isCharge isSymbol process s =
     (if isCharge then recursionChargeInitTree nm isSymbol process s else recursionPruneInitTree nm isSymbol process s)"

definition splitAllProcess :: "MTree list \<Rightarrow> SplitItem list \<Rightarrow> MState \<Rightarrow> MState" where
  "splitAllProcess allProcess list =
     fold (\<lambda>item s.
       let s1 = fold (split_process (si_name item) (si_select item = js ''0'') (si_type item = js ''symbol'')) allProcess s
       in if \<not> si_checked item then resotreAllNode [si_name item] s1 else s1) list"

section \<open>The tree that is shown\<close>

definition attach_node :: "MTree list \<Rightarrow> nat \<Rightarrow> MState \<Rightarrow> MState" where
  "attach_node data i s =
     (if parent_chain data i \<noteq> [] \<and> shown s i
      then (case List.find (shown s) (parent_chain data i) of
              None \<Rightarrow> s
            | Some p \<Rightarrow> s\<lparr>ms_treeParent := (ms_treeParent s)(i := Some p), ms_children := (ms_children s)(p := ms_children s p @ [i])\<rparr>)
      else s)"

definition resetNewAllNode :: "MTree list \<Rightarrow> nat list \<Rightarrow> MState \<Rightarrow> MState" where
  "resetNewAllNode data currentTreeList s = fold (attach_node data) currentTreeList (clear_children (map mt_id data @ currentTreeList) s)"

definition clearSearchNode :: "nat list \<Rightarrow> MState \<Rightarrow> MState" where
  "clearSearchNode is s = s\<lparr>ms_searchShow := (\<lambda>i. i \<in> set is \<or> ms_searchShow s i), ms_isSearch := (\<lambda>i. i \<notin> set is \<and> ms_isSearch s i)\<rparr>"

fun js_includes :: "jsstring \<Rightarrow> jsstring \<Rightarrow> bool" where
  "js_includes [] t \<longleftrightarrow> t = []"
| "js_includes (c # s) t \<longleftrightarrow> take (length t) (c # s) = t \<or> js_includes s t"

text \<open>The walk up while the nodes are not shown by the search.\<close>

fun reveal :: "nat list \<Rightarrow> MState \<Rightarrow> MState" where
  "reveal [] s = s"
| "reveal (p # ps) s = (if ms_searchShow s p then s else reveal ps (s\<lparr>ms_searchShow := (ms_searchShow s)(p := True)\<rparr>))"

text \<open>\<open>tolower\<close> is \<open>toLocaleLowerCase\<close> of the host, \<open>name_of\<close> the symbol name of a node.\<close>

definition search_node :: "(jsstring \<Rightarrow> jsstring) \<Rightarrow> (nat \<Rightarrow> jsstring) \<Rightarrow> MTree list \<Rightarrow> jsstring \<Rightarrow> bool \<Rightarrow> nat \<Rightarrow> MState \<Rightarrow> MState" where
  "search_node tolower name_of data search parentSearch i s =
     (let hit = js_includes (tolower (name_of i)) search in
      if (name_of i \<noteq> [] \<and> hit) \<or> parentSearch
      then reveal (parent_chain data i) (s\<lparr>ms_searchShow := (ms_searchShow s)(i := True), ms_isSearch := (ms_isSearch s)(i := hit)\<rparr>)
      else s\<lparr>ms_searchShow := (ms_searchShow s)(i := False), ms_isSearch := (ms_isSearch s)(i := False)\<rparr>)"

text \<open>The recursion follows the children that are shown; a bound on its depth makes it total. The text searched for is in lower case already
  and is lowered again for the next level.\<close>

fun findSearchNode ::
  "nat \<Rightarrow> (jsstring \<Rightarrow> jsstring) \<Rightarrow> (nat \<Rightarrow> jsstring) \<Rightarrow> MTree list \<Rightarrow> nat list \<Rightarrow> jsstring \<Rightarrow> bool \<Rightarrow> MState \<Rightarrow> MState option" where
  "findSearchNode fuel tolower name_of data [] search parentSearch s = Some s"
| "findSearchNode 0 tolower name_of data (i # is) search parentSearch s = None"
| "findSearchNode (Suc fuel) tolower name_of data (i # is) search parentSearch s =
     (let s1 = search_node tolower name_of data search parentSearch i s in
      if ms_children s1 i \<noteq> []
      then (case findSearchNode fuel tolower name_of data (ms_children s1 i) (tolower search) (ms_searchShow s1 i) s1 of
              None \<Rightarrow> None
            | Some s2 \<Rightarrow> findSearchNode (Suc fuel) tolower name_of data is search parentSearch s2)
      else findSearchNode (Suc fuel) tolower name_of data is search parentSearch s1)"

definition resetAllNode ::
  "nat \<Rightarrow> (jsstring \<Rightarrow> jsstring) \<Rightarrow> (nat \<Rightarrow> jsstring) \<Rightarrow> MTree list \<Rightarrow> nat list \<Rightarrow> jsstring \<Rightarrow> MState \<Rightarrow> MState option" where
  "resetAllNode fuel tolower name_of data currentTreeList searchValue s =
     (let s1 = resetNewAllNode data currentTreeList (clearSearchNode (map mt_id data) (clearSearchNode currentTreeList s)) in
      if searchValue \<noteq> []
      then map_option (resetNewAllNode data currentTreeList) (findSearchNode fuel tolower name_of data (map mt_id data) (tolower searchValue) False s1)
      else Some s1)"

definition splitTree ::
  "nat \<Rightarrow> (jsstring \<Rightarrow> jsstring) \<Rightarrow> (nat \<Rightarrow> jsstring) \<Rightarrow> MTree list \<Rightarrow> jsstring \<Rightarrow> bool \<Rightarrow> bool \<Rightarrow> nat list \<Rightarrow> jsstring \<Rightarrow> MState \<Rightarrow> MState option" where
  "splitTree fuel tolower name_of data nm isCharge isSymbol currentTreeList searchValue s =
     resetAllNode fuel tolower name_of data currentTreeList searchValue
       (fold (\<lambda>process s. split_process nm isCharge isSymbol process (clear_children [mt_id process] s)) data s)"

section \<open>Which nodes are stored away\<close>

fun tree_ids :: "MTree \<Rightarrow> nat list" where
  "tree_ids (MTree i b kids) = i # concat (map tree_ids kids)"

fun charge_marks :: "jsstring \<Rightarrow> bool \<Rightarrow> MTree \<Rightarrow> nat list" where
  "charge_marks nm isSymbol (MTree i b kids) = (if bean_matches nm isSymbol b then [i] else []) @ concat (map (charge_marks nm isSymbol) kids)"

fun prune_marks :: "jsstring \<Rightarrow> bool \<Rightarrow> MTree \<Rightarrow> nat list" where
  "prune_marks nm isSymbol (MTree i b kids) =
     (if bean_matches nm isSymbol b then tree_ids (MTree i b kids) else concat (map (prune_marks nm isSymbol) kids))"

fun rule_marks :: "(MBean \<Rightarrow> bool) \<Rightarrow> MTree \<Rightarrow> nat list" where
  "rule_marks rule (MTree i b kids) = concat (map (\<lambda>k. (if rule (mt_bean k) then [mt_id k] else []) @ rule_marks rule k) kids)"

lemma fold_concat_map: "(\<And>x s. x \<in> set xs \<Longrightarrow> g x s = fold f (h x) s) \<Longrightarrow> fold g xs s = fold f (concat (map h xs)) s"
  by (induction xs arbitrary: s) simp_all

lemma recursionCharge_marks: "recursionChargeInitTree nm c t s = fold (store_node nm) (charge_marks nm c t) s"
proof (induction t arbitrary: s)
  case (MTree i b kids)
  then show ?case by (simp add: fold_concat_map [of kids _ "store_node nm" "charge_marks nm c"])
qed

lemma pruneChildren_marks: "pruneChildren nm t s = fold (store_node nm) (tl (tree_ids t)) s"
proof (induction t arbitrary: s)
  case (MTree i b kids)
  have ids: "tree_ids k = mt_id k # tl (tree_ids k)" for k by (cases k) simp
  have "pruneChildren nm k (store_node nm (mt_id k) s) = fold (store_node nm) (tree_ids k) s" if "k \<in> set kids" for k s
    using MTree [OF that] by (subst ids) simp
  then show ?case by (simp add: fold_concat_map [of kids _ "store_node nm" tree_ids])
qed

lemma recursionPrune_marks: "recursionPruneInitTree nm c t s = fold (store_node nm) (prune_marks nm c t) s"
proof (induction t arbitrary: s)
  case (MTree i b kids)
  then show ?case
    by (simp add: fold_concat_map [of kids _ "store_node nm" "prune_marks nm c"] pruneChildren_marks del: pruneChildren.simps)
qed

lemma recursionRule_marks: "recursionChargeByRule nm rule t s = fold (store_node nm) (rule_marks rule t) s"
proof (induction t arbitrary: s)
  case (MTree i b kids)
  then show ?case
    by (simp add: fold_concat_map [of kids _ "store_node nm" "\<lambda>k. (if rule (mt_bean k) then [mt_id k] else []) @ rule_marks rule k"])
qed

definition split_marks :: "jsstring \<Rightarrow> bool \<Rightarrow> bool \<Rightarrow> MTree list \<Rightarrow> nat list" where
  "split_marks nm isCharge isSymbol data = concat (map (if isCharge then charge_marks nm isSymbol else prune_marks nm isSymbol) data)"

lemma split_process_marks: "fold (split_process nm isCharge isSymbol) data s = fold (store_node nm) (split_marks nm isCharge isSymbol data) s"
  unfolding split_marks_def
  by (rule fold_concat_map) (simp add: split_process_def recursionCharge_marks recursionPrune_marks)

lemma store_fold:
  "fold (store_node nm) is s = s\<lparr>ms_isStore := (\<lambda>i. ms_isStore s i + int (count_list is i)),
     ms_splitMap := (if is = [] then ms_splitMap s else (ms_splitMap s)(nm \<mapsto> (case ms_splitMap s nm of None \<Rightarrow> [] | Some l \<Rightarrow> l) @ is))\<rparr>"
  by (induction "is" arbitrary: s) (auto simp: store_node_def fun_eq_iff)

lemma unstore_fold: "fold unstore_node l s = s\<lparr>ms_isStore := (\<lambda>i. ms_isStore s i - int (count_list l i))\<rparr>"
  by (induction l arbitrary: s) (auto simp: unstore_node_def fun_eq_iff)

lemma resotre_one: "resotreAllNode [nm] s = (case ms_splitMap s nm of None \<Rightarrow> s | Some l \<Rightarrow> s\<lparr>ms_isStore := (\<lambda>i. ms_isStore s i - int (count_list l i))\<rparr>)"
  by (simp add: resotreAllNode_def unstore_fold split: option.split)

text \<open>C32: taking a filter away, exactly: restoring the nodes of a name and clearing its entry takes from the counter of every node what an earlier entry of that
  name held, and nothing else remains of the charging or pruning. So for a name that had no entry yet it gives back the very state before the trees were
  charged or pruned by that name.\<close>

theorem split_restore_roundtrip:
  fixes nm :: jsstring and s :: MState and isCharge isSymbol :: bool and data :: "MTree list"
  defines "earlier \<equiv> case ms_splitMap s nm of None \<Rightarrow> [] | Some l \<Rightarrow> l"
    and "s' \<equiv> clearSplitMapData nm (resotreAllNode [nm] (fold (split_process nm isCharge isSymbol) data s))"
  shows "s' = s\<lparr>ms_isStore := (\<lambda>i. ms_isStore s i - int (count_list earlier i)), ms_splitMap := (ms_splitMap s)(nm := None)\<rparr>
    \<and> (ms_splitMap s nm = None \<longrightarrow> s' = s)"
proof -
  have "s' = s\<lparr>ms_isStore := (\<lambda>i. ms_isStore s i - int (count_list earlier i)), ms_splitMap := (ms_splitMap s)(nm := None)\<rparr>"
    by (cases "split_marks nm isCharge isSymbol data = []"; cases "ms_splitMap s nm")
      (simp_all add: s'_def earlier_def split_process_marks store_fold resotre_one clearSplitMapData_def count_list_append)
  moreover have "(ms_splitMap s)(nm := None) = ms_splitMap s" if "ms_splitMap s nm = None" using that by auto
  ultimately show ?thesis by (simp add: earlier_def)
qed

text \<open>An item of the filter that is not checked leaves its entry behind. Checking it and taking the check away again then stores every node of the item
  away once too little: its counter is one below what it was, so the node is not shown although no filter is on.\<close>

theorem unchecked_item_hides:
  assumes "ms_splitMap s (si_name item) = None" "\<not> si_checked item"
  shows "ms_isStore (resotreAllNode [si_name item]
      (fold (split_process (si_name item) (si_select item = js ''0'') (si_type item = js ''symbol'')) data (splitAllProcess data [item] s))) i
    = ms_isStore s i - int (count_list (split_marks (si_name item) (si_select item = js ''0'') (si_type item = js ''symbol'') data) i)"
  using assms
  by (cases "split_marks (si_name item) (si_select item = js ''0'') (si_type item = js ''symbol'') data = []")
    (simp_all add: splitAllProcess_def split_process_marks store_fold resotre_one count_list_append)

subsection \<open>Charging and pruning\<close>

text \<open>Every node with its bean and the beans above it, its own first.\<close>

fun tree_beans :: "MBean list \<Rightarrow> MTree \<Rightarrow> (nat \<times> MBean list) list" where
  "tree_beans bs (MTree i b kids) = (i, b # bs) # concat (map (tree_beans (b # bs)) kids)"

lemma tree_beans_ids: "map fst (tree_beans bs t) = tree_ids t"
proof (induction t arbitrary: bs)
  case (MTree i b kids)
  then show ?case by (simp add: map_concat comp_def cong: map_cong)
qed

lemma charge_marks_beans: "charge_marks nm c t = map fst (filter (\<lambda>e. bean_matches nm c (hd (snd e))) (tree_beans bs t))"
proof (induction t arbitrary: bs)
  case (MTree i b kids)
  have "charge_marks nm c k = map fst (filter (\<lambda>e. bean_matches nm c (hd (snd e))) (tree_beans (b # bs) k))" if "k \<in> set kids" for k
    using MTree [OF that] .
  then show ?case by (simp add: filter_concat map_concat comp_def cong: map_cong)
qed

lemma prune_marks_beans:
  assumes "\<not> (\<exists>b\<in>set bs. bean_matches nm c b)"
  shows "prune_marks nm c t = map fst (filter (\<lambda>e. \<exists>b\<in>set (snd e). bean_matches nm c b) (tree_beans bs t))"
  using assms
proof (induction t arbitrary: bs)
  case (MTree i b kids)
  show ?case
  proof (cases "bean_matches nm c b")
    case True
    have sub: "set cs \<subseteq> set (snd e)" if "e \<in> set (tree_beans cs t)" for cs e t
      using that
    proof (induction t arbitrary: cs)
      case (MTree i b kids)
      then show ?case by (fastforce dest: MTree.IH)
    qed
    have "b \<in> set (snd e)" if "e \<in> set (tree_beans bs (MTree i b kids))" for e
      using that sub [of e "b # bs"] by fastforce
    then have "filter (\<lambda>e. \<exists>b\<in>set (snd e). bean_matches nm c b) (tree_beans bs (MTree i b kids)) = tree_beans bs (MTree i b kids)"
      using True by (intro filter_True) blast
    then show ?thesis using True tree_beans_ids [of bs "MTree i b kids"] by simp
  next
    case False
    then have no: "\<not> (\<exists>a\<in>set (b # bs). bean_matches nm c a)" using MTree.prems by simp
    have "prune_marks nm c k = map fst (filter (\<lambda>e. \<exists>b\<in>set (snd e). bean_matches nm c b) (tree_beans (b # bs) k))" if "k \<in> set kids" for k
      using MTree.IH [OF that no] .
    then show ?thesis using False MTree.prems by (simp add: filter_concat map_concat comp_def cong: map_cong)
  qed
qed

definition forest_beans :: "MTree list \<Rightarrow> (nat \<times> MBean list) list" where
  "forest_beans data = concat (map (tree_beans []) data)"

lemma split_marks_beans:
  "split_marks nm isCharge isSymbol data =
     map fst (filter (\<lambda>e. if isCharge then bean_matches nm isSymbol (hd (snd e)) else (\<exists>b\<in>set (snd e). bean_matches nm isSymbol b)) (forest_beans data))"
proof -
  have "charge_marks nm isSymbol t = map fst (filter (\<lambda>e. bean_matches nm isSymbol (hd (snd e))) (tree_beans [] t))" for t
    by (rule charge_marks_beans)
  moreover have "prune_marks nm isSymbol t = map fst (filter (\<lambda>e. \<exists>b\<in>set (snd e). bean_matches nm isSymbol b) (tree_beans [] t))" for t
    by (rule prune_marks_beans) simp
  ultimately show ?thesis by (cases isCharge) (simp_all add: split_marks_def forest_beans_def filter_concat map_concat comp_def cong: map_cong)
qed

lemma count_map_filter: "distinct (map fst es) \<Longrightarrow> e \<in> set es \<Longrightarrow> count_list (map fst (filter P es)) (fst e) = (if P e then 1 else 0)"
proof (induction es)
  case (Cons a es)
  have "count_list (map fst (filter P es)) (fst a) = 0" using Cons.prems(1) by (auto simp: count_list_0_iff)
  then show ?case using Cons by (auto simp: image_iff)
qed simp

text \<open>Charging a name stores away exactly the nodes of that name, pruning it exactly those and all nodes below them, each once.\<close>

theorem split_stores:
  assumes "distinct (map fst (forest_beans data))" "(i, bs) \<in> set (forest_beans data)"
  shows "ms_isStore (fold (split_process nm isCharge isSymbol) data s) i =
    ms_isStore s i + (if isCharge then (if bean_matches nm isSymbol (hd bs) then 1 else 0)
      else if list_ex (bean_matches nm isSymbol) bs then 1 else 0)"
  using count_map_filter [OF assms, of "\<lambda>e. if isCharge then bean_matches nm isSymbol (hd (snd e)) else (\<exists>b\<in>set (snd e). bean_matches nm isSymbol b)"]
  by (simp add: split_process_marks store_fold split_marks_beans list_ex_iff)

section \<open>The children that are shown\<close>

lemma attach_shown: "shown (attach_node data i s) = shown s"
  by (auto simp: attach_node_def shown_def fun_eq_iff split: option.split)

lemma attach_children:
  "ms_children (attach_node data i s) p =
     ms_children s p @ (if shown s i \<and> List.find (shown s) (parent_chain data i) = Some p then [i] else [])"
  by (auto simp: attach_node_def split: option.split)

lemma attach_fold:
  "shown (fold (attach_node data) is s) = shown s \<and>
   ms_children (fold (attach_node data) is s) p = ms_children s p @ filter (\<lambda>i. shown s i \<and> List.find (shown s) (parent_chain data i) = Some p) is"
  by (induction "is" arbitrary: s) (auto simp: attach_shown attach_children)

lemma reset_frame:
  "ms_isStore (resetNewAllNode data is s) = ms_isStore s" "ms_searchShow (resetNewAllNode data is s) = ms_searchShow s"
proof -
  have "ms_isStore (attach_node data i s) = ms_isStore s \<and> ms_searchShow (attach_node data i s) = ms_searchShow s" for i s
    by (simp add: attach_node_def split: option.split)
  then have "ms_isStore (fold (attach_node data) is s) = ms_isStore s \<and> ms_searchShow (fold (attach_node data) is s) = ms_searchShow s" for s
    by (induction "is" arbitrary: s) simp_all
  then show "ms_isStore (resetNewAllNode data is s) = ms_isStore s" "ms_searchShow (resetNewAllNode data is s) = ms_searchShow s"
    by (simp_all add: resetNewAllNode_def clear_children_def)
qed

lemma reset_children:
  assumes "p \<in> set (map mt_id data @ currentTreeList)"
  shows "ms_children (resetNewAllNode data currentTreeList s) p =
      filter (\<lambda>i. shown s i \<and> List.find (shown s) (parent_chain data i) = Some p) currentTreeList"
    "shown (resetNewAllNode data currentTreeList s) = shown s"
proof -
  let ?s = "clear_children (map mt_id data @ currentTreeList) s"
  have "shown ?s = shown s" "ms_children ?s p = []" using assms by (auto simp: clear_children_def shown_def fun_eq_iff)
  then show "ms_children (resetNewAllNode data currentTreeList s) p =
      filter (\<lambda>i. shown s i \<and> List.find (shown s) (parent_chain data i) = Some p) currentTreeList"
    "shown (resetNewAllNode data currentTreeList s) = shown s"
    using attach_fold [of data currentTreeList ?s p] by (simp_all only: resetNewAllNode_def append_Nil simp_thms)
qed

text \<open>C33: in the tree that is shown the children of a node are the shown nodes of the list that have it as their nearest shown node above, in the order of
  the list; nothing else is changed for the question what is shown.\<close>

theorem resetNewAllNode_children:
  assumes "p \<in> set (map mt_id data @ currentTreeList)"
  shows "ms_children (resetNewAllNode data currentTreeList s) p =
      filter (\<lambda>i. shown s i \<and> List.find (shown s) (parent_chain data i) = Some p) currentTreeList
    \<and> shown (resetNewAllNode data currentTreeList s) = shown s"
  using reset_children [OF assms] by blast

section \<open>Concrete instances\<close>

definition demo_bean :: "string \<Rightarrow> MBean" where
  "demo_bean nm = \<lparr>mb_symbolName = js nm, mb_libName = js ''lib'', mb_path = js ''/lib'', mb_count = 1\<rparr>"

text \<open>A process with the call chain \<open>g\<close>, \<open>h\<close>, \<open>c\<close>.\<close>

definition demo_tree :: "MTree list" where
  "demo_tree = [MTree 0 (demo_bean ''p'') [MTree 1 (demo_bean ''g'') [MTree 2 (demo_bean ''h'') [MTree 3 (demo_bean ''c'') []]]]]"

definition demo_names :: "nat \<Rightarrow> jsstring" where
  "demo_names i = js (if i = 0 then ''p'' else if i = 1 then ''g'' else if i = 2 then ''h'' else ''c'')"

definition demo_state :: MState where
  "demo_state = \<lparr>ms_isStore = (\<lambda>_. 0), ms_searchShow = (\<lambda>_. True), ms_isSearch = (\<lambda>_. False), ms_children = (\<lambda>_. []), ms_treeParent = (\<lambda>_. None),
     ms_splitMap = Map.empty\<rparr>"

lemmas demo_defs = demo_tree_def demo_bean_def demo_names_def demo_state_def

lemma demo_chains [simp]:
  "parent_chain demo_tree 0 = []" "parent_chain demo_tree 1 = [0]" "parent_chain demo_tree (Suc 0) = [0]" "parent_chain demo_tree 2 = [1, 0]" "parent_chain demo_tree 3 = [2, 1, 0]"
  by (simp_all add: parent_chain_def demo_tree_def)

text \<open>C1: the search stops at a node that is stored away: with \<open>h\<close> charged to its caller, a search for the function \<open>c\<close> that it calls shows no child
  of the process at all, although the same search without the charge shows the whole chain.\<close>

theorem search_stops_at_stored_node:
  "map_option (\<lambda>s. ms_children s 0) (splitTree 4 id demo_names demo_tree (js ''h'') True True [1, 2, 3] (js ''c'') demo_state) = Some []
   \<and> map_option (\<lambda>s. ms_children s 0) (resetAllNode 4 id demo_names demo_tree [1, 2, 3] (js ''c'') demo_state) = Some [1]"
  by code_simp

theorem split_restore_roundtrip_witness:
  "clearSplitMapData (js ''h'') (resotreAllNode [js ''h''] (fold (split_process (js ''h'') True True) demo_tree demo_state)) = demo_state"
  using split_restore_roundtrip [where nm = "js ''h''" and s = demo_state and isCharge = True and isSymbol = True and data = demo_tree] by (simp add: demo_state_def)

theorem unchecked_item_hides_witness:
  "ms_isStore (resotreAllNode [js ''h''] (fold (split_process (js ''h'') True True) demo_tree
     (splitAllProcess demo_tree [\<lparr>si_name = js ''h'', si_select = js ''0'', si_type = js ''symbol'', si_checked = False\<rparr>] demo_state))) 2 = - 1"
  using unchecked_item_hides [of demo_state "\<lparr>si_name = js ''h'', si_select = js ''0'', si_type = js ''symbol'', si_checked = False\<rparr>" demo_tree 2]
  by (simp add: demo_defs split_marks_def bean_matches_def js_eq_iff)

theorem split_stores_witness: "ms_isStore (fold (split_process (js ''h'') False True) demo_tree demo_state) 3 = 1"
  using split_stores [of demo_tree 3 "[demo_bean ''c'', demo_bean ''h'', demo_bean ''g'', demo_bean ''p'']" "js ''h''" False True demo_state]
  by (simp add: forest_beans_def demo_defs bean_matches_def)

theorem resetNewAllNode_children_witness: "ms_children (resetNewAllNode demo_tree [1, 2, 3] (store_node (js ''h'') 2 demo_state)) 1 = [3]"
  using resetNewAllNode_children [of 1 demo_tree "[1, 2, 3]" "store_node (js ''h'') 2 demo_state"]
  by (simp add: shown_def store_node_def demo_state_def)

end
