(* ===== verification/Logic_Search.thy ===== *)
theory Logic_Search
  imports Logic_Merge
begin

text \<open>
  The search in a call tree (\<open>findSearchNode\<close> and \<open>resetAllNode\<close> of \<open>MerageBeanDataSplit\<close>,
  \<open>trace/database/logic-worker/ProcedureLogicWorkerCommon.ts\<close>). When no node is stored away, the search ends and shows exactly the nodes that
  match, those below and those above a match. \<open>Logic_Merge\<close> has an example that this fails for trees with nodes that are stored away.
\<close>

section \<open>What a search should show\<close>

abbreviation has_match :: "(nat \<Rightarrow> bool) \<Rightarrow> MTree \<Rightarrow> bool" where
  "has_match M t \<equiv> \<exists>j\<in>set (tree_ids t). M j"

text \<open>The nodes of a tree that are shown; \<open>b\<close> says that a node above matches.\<close>

fun search_spec :: "(nat \<Rightarrow> bool) \<Rightarrow> bool \<Rightarrow> MTree \<Rightarrow> nat set" where
  "search_spec M b (MTree i bean kids) =
     (if b \<or> has_match M (MTree i bean kids) then {i} else {}) \<union> (\<Union>k\<in>set kids. search_spec M (b \<or> M i) k)"

text \<open>The children that are shown are those of the tree, in any order.\<close>

fun kids_shown :: "MState \<Rightarrow> MTree \<Rightarrow> bool" where
  "kids_shown s (MTree i bean kids) \<longleftrightarrow> mset (ms_children s i) = mset (map mt_id kids) \<and> (\<forall>k\<in>set kids. kids_shown s k)"

text \<open>The nodes above are those of the whole data.\<close>

definition ups_agree :: "MTree list \<Rightarrow> nat list \<Rightarrow> MTree \<Rightarrow> bool" where
  "ups_agree data ps t \<longleftrightarrow> (\<forall>(i, qs)\<in>set (tree_ups ps t). parent_chain data i = qs)"

fun tree_height :: "MTree \<Rightarrow> nat" where
  "tree_height (MTree i bean kids) = Suc (foldr max (map tree_height kids) 0)"

section \<open>The search\<close>

text \<open>Among the nodes above, those that are shown have all nodes above them shown.\<close>

fun up_closed :: "(nat \<Rightarrow> bool) \<Rightarrow> nat list \<Rightarrow> bool" where
  "up_closed f [] \<longleftrightarrow> True"
| "up_closed f (p # ps) \<longleftrightarrow> (f p \<longrightarrow> (\<forall>q\<in>set ps. f q)) \<and> up_closed f ps"

lemma up_closed_cong: "(\<And>q. q \<in> set ps \<Longrightarrow> f q = g q) \<Longrightarrow> up_closed f ps = up_closed g ps"
  by (induction ps) auto

lemma up_closed_all: "(\<And>q. q \<in> set ps \<Longrightarrow> f q) \<Longrightarrow> up_closed f ps"
  by (induction ps) auto

lemma reveal_all:
  "distinct ps \<Longrightarrow> up_closed (ms_searchShow s) ps \<Longrightarrow> reveal ps s = s\<lparr>ms_searchShow := (\<lambda>j. j \<in> set ps \<or> ms_searchShow s j)\<rparr>"
proof (induction ps arbitrary: s)
  case (Cons p ps)
  show ?case
  proof (cases "ms_searchShow s p")
    case True
    then have "(\<lambda>j. j \<in> set (p # ps) \<or> ms_searchShow s j) = ms_searchShow s" using Cons.prems by (auto simp: fun_eq_iff)
    then show ?thesis using True by simp
  next
    case False
    let ?s = "s\<lparr>ms_searchShow := (ms_searchShow s)(p := True)\<rparr>"
    have "up_closed (ms_searchShow ?s) ps = up_closed (ms_searchShow s) ps" using Cons.prems(1) by (intro up_closed_cong) auto
    then have "reveal ps ?s = ?s\<lparr>ms_searchShow := (\<lambda>j. j \<in> set ps \<or> ms_searchShow ?s j)\<rparr>" using Cons by simp
    moreover have "(\<lambda>j. j \<in> set ps \<or> ms_searchShow ?s j) = (\<lambda>j. j \<in> set (p # ps) \<or> ms_searchShow s j)" by auto
    ultimately show ?thesis using False by simp
  qed
qed simp

lemma permute_map: "mset xs = mset (map f ys) \<Longrightarrow> \<exists>zs. mset zs = mset ys \<and> map f zs = xs"
proof (induction xs arbitrary: ys)
  case (Cons x xs)
  then have "x \<in> set (map f ys)" by (metis list.set_intros(1) mset_eq_setD)
  then obtain y us vs where y: "ys = us @ y # vs" "x = f y" by (metis in_set_conv_decomp map_eq_append_conv map_eq_Cons_conv)
  have "mset xs = mset (map f (us @ vs))" using Cons.prems by (simp add: y)
  then obtain zs where "mset zs = mset (us @ vs)" "map f zs = xs" using Cons.IH by blast
  then have "mset (y # zs) = mset ys" "map f (y # zs) = x # xs" by (simp_all add: y)
  then show ?case by (intro exI conjI)
qed simp

abbreviation trees_ids :: "MTree list \<Rightarrow> nat set" where
  "trees_ids ts \<equiv> \<Union>t\<in>set ts. set (tree_ids t)"

definition after_search :: "(nat \<Rightarrow> bool) \<Rightarrow> bool \<Rightarrow> MTree list \<Rightarrow> nat list \<Rightarrow> MState \<Rightarrow> MState" where
  "after_search M b ts ps s = s\<lparr>
     ms_searchShow := (\<lambda>j. if j \<in> trees_ids ts then j \<in> (\<Union>t\<in>set ts. search_spec M b t)
       else ms_searchShow s j \<or> (j \<in> set ps \<and> (\<exists>t\<in>set ts. has_match M t))),
     ms_isSearch := (\<lambda>j. if j \<in> trees_ids ts then M j else ms_isSearch s j)\<rparr>"

text \<open>The visit of one node.\<close>

lemma search_node_effect:
  assumes "search \<noteq> []" "distinct ps" "i \<notin> set ps" "up_closed (ms_searchShow s) ps" "parent_chain data i = ps"
    and M: "M = (\<lambda>i. js_includes (tolower (name_of i)) search)" and low: "tolower [] = []"
  shows "search_node tolower name_of data search b i s = s\<lparr>
     ms_searchShow := (\<lambda>j. if j = i then M i \<or> b else ms_searchShow s j \<or> (j \<in> set ps \<and> (M i \<or> b))),
     ms_isSearch := (ms_isSearch s)(i := M i)\<rparr>"
proof -
  have named: "M i \<Longrightarrow> name_of i \<noteq> []" using assms(1) low by (auto simp: M)
  show ?thesis
  proof (cases "M i \<or> b")
    case True
    let ?s = "s\<lparr>ms_searchShow := (ms_searchShow s)(i := True), ms_isSearch := (ms_isSearch s)(i := M i)\<rparr>"
    have "up_closed (ms_searchShow ?s) ps = up_closed (ms_searchShow s) ps" using assms(3) by (intro up_closed_cong) auto
    then have r: "reveal ps ?s = ?s\<lparr>ms_searchShow := (\<lambda>j. j \<in> set ps \<or> ms_searchShow ?s j)\<rparr>" using reveal_all [OF assms(2), of ?s] assms(4) by simp
    have "(\<lambda>j. j \<in> set ps \<or> ms_searchShow ?s j) = (\<lambda>j. if j = i then M i \<or> b else ms_searchShow s j \<or> (j \<in> set ps \<and> (M i \<or> b)))"
      using True by (auto simp: fun_eq_iff)
    then show ?thesis using True named r assms(5) by (auto simp: search_node_def M)
  next
    case False
    then show ?thesis using assms(5) by (auto simp: search_node_def M fun_eq_iff)
  qed
qed

lemma after_search_cong: "mset ks = mset kids \<Longrightarrow> after_search M b ks ps s = after_search M b kids ps s"
  by (drule mset_eq_setD) (simp add: after_search_def)

lemma search_spec_sub: "search_spec M b t \<subseteq> set (tree_ids t)"
proof (induction t arbitrary: b)
  case (MTree i bean kids)
  have "(\<Union>k\<in>set kids. search_spec M c k) \<subseteq> (\<Union>k\<in>set kids. set (tree_ids k))" for c using MTree by (intro UN_mono) auto
  then show ?case by auto
qed

lemma search_spec_True: "search_spec M True t = set (tree_ids t)"
  by (induction t) auto

text \<open>A node and its subtrees, then the nodes beside it.\<close>

lemma after_search_Cons:
  fixes i :: nat and M :: "nat \<Rightarrow> bool"
  assumes "distinct (concat (map tree_ids (MTree i bean kids # ts)))" "set ps \<inter> trees_ids (MTree i bean kids # ts) = {}" "b \<Longrightarrow> \<forall>p\<in>set ps. ms_searchShow s p"
  defines "s1 \<equiv> s\<lparr>ms_searchShow := (\<lambda>j. if j = i then M i \<or> b else ms_searchShow s j \<or> (j \<in> set ps \<and> (M i \<or> b))), ms_isSearch := (ms_isSearch s)(i := M i)\<rparr>"
  shows "after_search M b ts ps (after_search M (M i \<or> b) kids (i # ps) s1) = after_search M b (MTree i bean kids # ts) ps s"
proof -
  have d: "i \<notin> trees_ids kids" "i \<notin> trees_ids ts" "trees_ids kids \<inter> trees_ids ts = {}" using assms(1) by auto
  have p: "i \<notin> set ps" "set ps \<inter> trees_ids kids = {}" "set ps \<inter> trees_ids ts = {}" using assms(2) by auto
  have sub: "j \<notin> trees_ids us \<Longrightarrow> \<forall>t\<in>set us. \<forall>c. j \<notin> search_spec M c t" for j us using search_spec_sub by blast
  have "ms_searchShow (after_search M b ts ps (after_search M (M i \<or> b) kids (i # ps) s1)) j = ms_searchShow (after_search M b (MTree i bean kids # ts) ps s) j" for j
  proof -
    consider "j = i" | "j \<in> trees_ids kids" | "j \<in> trees_ids ts" | "j \<noteq> i" "j \<notin> trees_ids kids" "j \<notin> trees_ids ts" by blast
    then show ?thesis
    proof cases
      case 1
      then show ?thesis using d p sub [OF d(1)] sub [OF d(2)] by (auto simp: after_search_def s1_def)
    next
      case 2
      then have "j \<noteq> i" "j \<notin> trees_ids ts" using d by auto
      then show ?thesis using 2 p sub [of j ts] by (auto simp: after_search_def s1_def disj_commute)
    next
      case 3
      then have "j \<noteq> i" "j \<notin> trees_ids kids" using d by auto
      then show ?thesis using 3 p sub [of j kids] by (auto simp: after_search_def s1_def)
    next
      case 4
      then show ?thesis using assms(3) by (auto simp: after_search_def s1_def)
    qed
  qed
  moreover have "ms_isSearch (after_search M b ts ps (after_search M (M i \<or> b) kids (i # ps) s1)) j = ms_isSearch (after_search M b (MTree i bean kids # ts) ps s) j" for j
    using d by (auto simp: after_search_def s1_def)
  ultimately show ?thesis by (simp add: after_search_def s1_def fun_eq_iff)
qed

lemma kids_shown_cong: "ms_children s = ms_children s' \<Longrightarrow> kids_shown s t = kids_shown s' t"
  by (induction t) simp

lemma ups_agree_simps:
  "ups_agree data ps (MTree i bean kids) \<longleftrightarrow> parent_chain data i = ps \<and> (\<forall>k\<in>set kids. ups_agree data (i # ps) k)"
  by (fastforce simp: ups_agree_def)

lemma height_kids: "k \<in> set kids \<Longrightarrow> tree_height k \<le> foldr max (map tree_height kids) 0"
  by (induction kids) auto

lemma distinct_concat_perm: "mset ks = mset kids \<Longrightarrow> distinct (concat (map f ks)) = distinct (concat (map f kids))"
  by (rule mset_eq_imp_distinct_iff) (simp add: mset_concat flip: sum_mset_sum_list)

text \<open>The visit of a node keeps the nodes above it closed, and so does the search below it.\<close>

definition visited :: "(nat \<Rightarrow> bool) \<Rightarrow> bool \<Rightarrow> nat \<Rightarrow> nat list \<Rightarrow> MState \<Rightarrow> MState" where
  "visited M b i ps s = s\<lparr>ms_searchShow := (\<lambda>j. if j = i then M i \<or> b else ms_searchShow s j \<or> (j \<in> set ps \<and> (M i \<or> b))), ms_isSearch := (ms_isSearch s)(i := M i)\<rparr>"

lemma visited_sel [simp]: "ms_children (visited M b i ps s) = ms_children s" "ms_searchShow (visited M b i ps s) i = (M i \<or> b)"
  "ms_children (after_search M b ts ps s) = ms_children s"
  by (simp_all add: visited_def after_search_def)

lemma visited_closed:
  assumes "i \<notin> set ps" "up_closed (ms_searchShow s) ps"
  shows "up_closed (ms_searchShow (visited M b i ps s)) (i # ps)" "M i \<or> b \<longrightarrow> (\<forall>p\<in>set (i # ps). ms_searchShow (visited M b i ps s) p)"
proof -
  have "up_closed (ms_searchShow (visited M b i ps s)) ps"
  proof (cases "M i \<or> b")
    case True
    then show ?thesis by (intro up_closed_all) (simp add: visited_def)
  next
    case False
    then have "up_closed (ms_searchShow (visited M b i ps s)) ps = up_closed (ms_searchShow s) ps" using assms(1) by (intro up_closed_cong) (auto simp: visited_def)
    then show ?thesis using assms(2) by simp
  qed
  then show "up_closed (ms_searchShow (visited M b i ps s)) (i # ps)" "M i \<or> b \<longrightarrow> (\<forall>p\<in>set (i # ps). ms_searchShow (visited M b i ps s) p)"
    by (auto simp: visited_def)
qed

lemma after_search_closed:
  assumes "set ps \<inter> trees_ids ts = {}" "up_closed (ms_searchShow s) (i # ps)"
  shows "up_closed (ms_searchShow (after_search M b ts (i # ps) s)) ps"
proof (cases "\<exists>t\<in>set ts. has_match M t")
  case True
  then show ?thesis using assms(1) by (intro up_closed_all) (auto simp: after_search_def)
next
  case False
  then have "up_closed (ms_searchShow (after_search M b ts (i # ps) s)) ps = up_closed (ms_searchShow s) ps" using assms(1) by (intro up_closed_cong) (auto simp: after_search_def)
  then show ?thesis using assms(2) by simp
qed

text \<open>The search in trees side by side: \<open>ps\<close> are the nodes above them.\<close>

lemma find_search:
  fixes tolower :: "jsstring \<Rightarrow> jsstring" and name_of :: "nat \<Rightarrow> jsstring"
  assumes low: "search \<noteq> []" "tolower search = search" "tolower [] = []"
  defines "M \<equiv> \<lambda>i. js_includes (tolower (name_of i)) search"
  shows "\<forall>t\<in>set ts. tree_height t \<le> fuel \<Longrightarrow> distinct (concat (map tree_ids ts)) \<Longrightarrow> set ps \<inter> trees_ids ts = {} \<Longrightarrow> distinct ps \<Longrightarrow>
    \<forall>t\<in>set ts. ups_agree data ps t \<and> kids_shown s t \<Longrightarrow> up_closed (ms_searchShow s) ps \<Longrightarrow> b \<longrightarrow> (\<forall>p\<in>set ps. ms_searchShow s p) \<Longrightarrow>
    findSearchNode fuel tolower name_of data (map mt_id ts) search b s = Some (after_search M b ts ps s)"
proof (induction fuel arbitrary: ts ps b s)
  case 0
  have "ts = []"
  proof (cases ts)
    case (Cons t us)
    then show ?thesis using "0.prems"(1) by (cases t) simp
  qed
  then show ?case by (simp add: after_search_def)
next
  case (Suc fuel)
  note outer = Suc.IH
  from Suc.prems show ?case
  proof (induction ts arbitrary: s)
    case Nil
    then show ?case by (simp add: after_search_def)
  next
    case (Cons t ts)
    obtain i bean kids where t: "t = MTree i bean kids" by (cases t)
    have ok: "parent_chain data i = ps" "\<forall>k\<in>set kids. ups_agree data (i # ps) k" "mset (ms_children s i) = mset (map mt_id kids)" "\<forall>k\<in>set kids. kids_shown s k"
      "\<forall>t\<in>set ts. ups_agree data ps t \<and> kids_shown s t"
      using Cons.prems(5) by (auto simp: t ups_agree_simps)
    have ids: "i \<notin> set ps" "i \<notin> trees_ids kids" "distinct (concat (map tree_ids kids))" "set ps \<inter> trees_ids kids = {}" "distinct (concat (map tree_ids ts))" "set ps \<inter> trees_ids ts = {}"
      using Cons.prems(2,3) by (auto simp: t)
    let ?c = "M i \<or> b" and ?s1 = "visited M b i ps s"
    let ?s2 = "after_search M ?c kids (i # ps) ?s1"
    have s1: "search_node tolower name_of data search b i s = ?s1" unfolding visited_def
      by (rule search_node_effect [OF low(1) Cons.prems(4) ids(1) Cons.prems(6) ok(1) meta_eq_to_obj_eq [OF M_def] low(3)])
    note closed = visited_closed [OF ids(1) Cons.prems(6)]
    obtain ks where ks: "mset ks = mset kids" "map mt_id ks = ms_children s i" using permute_map [OF ok(3)] by blast
    have ks_set: "set ks = set kids" using mset_eq_setD [OF ks(1)] .
    have below: "findSearchNode fuel tolower name_of data (ms_children s i) search ?c ?s1 = Some ?s2"
    proof -
      have "\<forall>k\<in>set ks. tree_height k \<le> fuel" using Cons.prems(1) height_kids unfolding ks_set t by fastforce
      moreover have "distinct (concat (map tree_ids ks))" using ids(3) distinct_concat_perm [OF ks(1), of tree_ids] by simp
      moreover have "set (i # ps) \<inter> trees_ids ks = {}" "distinct (i # ps)" using ids(1,2,4) Cons.prems(4) by (auto simp: ks_set)
      moreover have "\<forall>k\<in>set ks. ups_agree data (i # ps) k \<and> kids_shown ?s1 k" using ok(2,4) kids_shown_cong [of ?s1 s] by (simp add: ks_set)
      ultimately show ?thesis using outer [OF _ _ _ _ _ closed, of ks] after_search_cong [OF ks(1)] by (simp add: ks(2))
    qed
    have "findSearchNode (Suc fuel) tolower name_of data (map mt_id ts) search b ?s2 = Some (after_search M b ts ps ?s2)"
    proof (rule Cons.IH)
      show "\<forall>t\<in>set ts. ups_agree data ps t \<and> kids_shown ?s2 t" using ok(5) kids_shown_cong [of ?s2 s] by simp
      show "up_closed (ms_searchShow ?s2) ps" by (rule after_search_closed [OF ids(4) closed(1)])
      show "b \<longrightarrow> (\<forall>p\<in>set ps. ms_searchShow ?s2 p)" using closed(2) ids(4) by (auto simp: after_search_def)
    qed (use Cons.prems ids in \<open>auto simp: t\<close>)
    moreover have "ms_children s i = [] \<Longrightarrow> ?s2 = ?s1" using ok(3) by (simp add: after_search_def)
    moreover have "after_search M b ts ps ?s2 = after_search M b (t # ts) ps s"
      using after_search_Cons [of i bean kids ts ps b s M] Cons.prems(2,3,7) by (simp add: t visited_def)
    ultimately show ?case using below by (auto simp: t s1 low(2) Let_def)
  qed
qed

section \<open>The children after a reset\<close>

text \<open>Every node with its children.\<close>

fun tree_kids :: "MTree \<Rightarrow> (nat \<times> nat list) list" where
  "tree_kids (MTree i bean kids) = (i, map mt_id kids) # concat (map tree_kids kids)"

lemma tree_kids_ids: "map fst (tree_kids t) = tree_ids t"
proof (induction t)
  case (MTree i bean kids)
  then show ?case by (simp add: map_concat comp_def cong: map_cong)
qed

lemma tree_ups_ids: "map fst (tree_ups ps t) = tree_ids t"
proof (induction t arbitrary: ps)
  case (MTree i bean kids)
  then show ?case by (simp add: map_concat comp_def cong: map_cong)
qed

lemma kids_shown_iff: "kids_shown s t \<longleftrightarrow> (\<forall>(p, ks)\<in>set (tree_kids t). mset (ms_children s p) = mset ks)"
  by (induction t) auto

lemma mt_id_in: "mt_id t \<in> set (tree_ids t)"
  by (cases t) simp

lemma ups_kid: "(i, p # qs) \<in> set (tree_ups ps t) \<Longrightarrow> (i, p # qs) = (mt_id t, ps) \<or> (\<exists>ks. (p, ks) \<in> set (tree_kids t) \<and> i \<in> set ks)"
proof (induction t arbitrary: ps)
  case (MTree r bean kids)
  show ?case
  proof (cases "(i, p # qs) = (r, ps)")
    case False
    then obtain k where k: "k \<in> set kids" "(i, p # qs) \<in> set (tree_ups (r # ps) k)" using MTree.prems by auto
    show ?thesis using MTree.IH [OF k] k(1) by fastforce
  qed simp
qed

lemma kid_ups: "(p, ks) \<in> set (tree_kids t) \<Longrightarrow> i \<in> set ks \<Longrightarrow> \<exists>qs. (i, p # qs) \<in> set (tree_ups ps t)"
proof (induction t arbitrary: ps)
  case (MTree r bean kids)
  show ?case
  proof (cases "(p, ks) = (r, map mt_id kids)")
    case True
    then obtain k where k: "k \<in> set kids" "i = mt_id k" using MTree.prems(2) by auto
    have "(mt_id k, r # ps) \<in> set (tree_ups (r # ps) k)" by (cases k) simp
    then show ?thesis using k True by auto
  next
    case False
    then obtain k where k: "k \<in> set kids" "(p, ks) \<in> set (tree_kids k)" using MTree.prems(1) by auto
    from MTree.IH [OF k MTree.prems(2), of "r # ps"] show ?thesis using k(1) by auto
  qed
qed

text \<open>A forest whose nodes have different numbers; the list of nodes has all but the roots.\<close>

definition forest_list :: "MTree list \<Rightarrow> nat list \<Rightarrow> bool" where
  "forest_list data list \<longleftrightarrow> distinct (concat (map tree_ids data)) \<and> distinct list \<and> set list = trees_ids data - mt_id ` set data"

lemma parent_chain_ups:
  assumes "distinct (concat (map tree_ids data))" "t \<in> set data" "(i, qs) \<in> set (tree_ups [] t)"
  shows "parent_chain data i = qs"
proof -
  have "map fst (concat (map (tree_ups []) data)) = concat (map tree_ids data)" by (simp add: map_concat comp_def tree_ups_ids)
  then have "map_of (concat (map (tree_ups []) data)) i = Some qs" using assms by (intro map_of_is_SomeI) auto
  then show ?thesis by (simp add: parent_chain_def)
qed

lemma ups_agree_data: "distinct (concat (map tree_ids data)) \<Longrightarrow> t \<in> set data \<Longrightarrow> ups_agree data [] t"
  using parent_chain_ups by (auto simp: ups_agree_def)

lemma root_ups: "t \<in> set data \<Longrightarrow> distinct (concat (map tree_ids data)) \<Longrightarrow> parent_chain data (mt_id t) = []"
  using parent_chain_ups [of data t "mt_id t" "[]"] by (cases t) auto

lemma distinct_mt_id: "distinct (concat (map tree_ids ts)) \<Longrightarrow> distinct (map mt_id ts)"
proof (induction ts)
  case (Cons t ts)
  have "mt_id t \<notin> mt_id ` set ts"
  proof
    assume "mt_id t \<in> mt_id ` set ts"
    then obtain u where "u \<in> set ts" "mt_id t \<in> set (tree_ids u)" using mt_id_in by force
    then show False using Cons.prems mt_id_in [of t] by auto
  qed
  then show ?case using Cons by simp
qed simp

lemma distinct_kids: "distinct (tree_ids t) \<Longrightarrow> (p, ks) \<in> set (tree_kids t) \<Longrightarrow> distinct ks"
proof (induction t)
  case (MTree i bean kids)
  have "distinct (map mt_id kids)" using MTree.prems(1) by (simp add: distinct_mt_id)
  moreover have "distinct (tree_ids k)" if "k \<in> set kids" for k using MTree.prems(1) that by (auto simp: distinct_concat_iff)
  ultimately show ?case using MTree by auto
qed

lemma ups_in: "(i, qs) \<in> set (tree_ups ps t) \<Longrightarrow> set qs \<subseteq> set ps \<union> set (tree_ids t)"
proof (induction t arbitrary: ps)
  case (MTree r bean kids)
  show ?case
  proof (cases "(i, qs) = (r, ps)")
    case False
    then obtain k where k: "k \<in> set kids" "(i, qs) \<in> set (tree_ups (r # ps) k)" using MTree.prems by auto
    show ?thesis using MTree.IH [OF k] k(1) by auto
  qed auto
qed

lemma kids_unique:
  assumes "distinct (concat (map tree_ids data))" "t \<in> set data" "u \<in> set data" "(p, ks) \<in> set (tree_kids t)" "(p, ks') \<in> set (tree_kids u)"
  shows "ks = ks'"
proof -
  have "map fst (concat (map tree_kids data)) = concat (map tree_ids data)" by (simp add: map_concat comp_def tree_kids_ids)
  then have "distinct (map fst (concat (map tree_kids data)))" using assms(1) by simp
  then show ?thesis by (rule eq_key_imp_eq_value) (use assms in auto)
qed

lemma parent_first:
  assumes d: "distinct (concat (map tree_ids data))" and i: "i \<in> trees_ids data" and shown: "\<forall>j\<in>trees_ids data. f j" and t: "t \<in> set data" "(p, ks) \<in> set (tree_kids t)"
  shows "List.find f (parent_chain data i) = Some p \<longleftrightarrow> i \<in> set ks"
proof
  assume f: "List.find f (parent_chain data i) = Some p"
  obtain u where u: "u \<in> set data" "i \<in> fst ` set (tree_ups [] u)" using i by (auto simp flip: tree_ups_ids [of "[]"])
  then obtain qs where qs: "(i, qs) \<in> set (tree_ups [] u)" by auto
  have chain: "parent_chain data i = qs" by (rule parent_chain_ups [OF d u(1) qs])
  have "\<forall>q\<in>set qs. f q" using ups_in [OF qs] shown u(1) by auto
  then obtain qs' where "qs = p # qs'" using f unfolding chain by (cases qs) auto
  then obtain ks' where "(p, ks') \<in> set (tree_kids u)" "i \<in> set ks'" using ups_kid [of i p qs' "[]" u] qs by auto
  then show "i \<in> set ks" using kids_unique [OF d t(1) u(1) t(2)] by blast
next
  assume "i \<in> set ks"
  then obtain qs where qs: "(i, p # qs) \<in> set (tree_ups [] t)" using kid_ups [OF t(2)] by blast
  then have "parent_chain data i = p # qs" by (rule parent_chain_ups [OF d t(1)])
  moreover have "f p" using ups_in [OF qs] shown t(1) by auto
  ultimately show "List.find f (parent_chain data i) = Some p" by simp
qed

lemma reset_kids:
  assumes list: "forest_list data list" and shown: "\<forall>j\<in>trees_ids data. shown s j" and t: "t \<in> set data"
  shows "kids_shown (resetNewAllNode data list s) t"
proof -
  have d: "distinct (concat (map tree_ids data))" "distinct list" and set: "set list = trees_ids data - mt_id ` set data" using list by (auto simp: forest_list_def)
  have "mset (ms_children (resetNewAllNode data list s) p) = mset ks" if pk: "(p, ks) \<in> set (tree_kids t)" for p ks
  proof -
    have "p \<in> set (tree_ids t)" using pk by (force simp flip: tree_kids_ids)
    then have p: "p \<in> set (map mt_id data @ list)" using t set by auto
    have ks: "i \<in> set list" if i: "i \<in> set ks" for i
    proof -
      obtain qs where qs: "(i, p # qs) \<in> set (tree_ups [] t)" using kid_ups [OF pk i] by blast
      then have "parent_chain data i \<noteq> []" using parent_chain_ups [OF d(1) t] by auto
      then have "i \<notin> mt_id ` set data" using root_ups [OF _ d(1)] by auto
      moreover have "i \<in> set (tree_ids t)" using qs by (force simp flip: tree_ups_ids [of "[]"])
      ultimately show ?thesis using set t by auto
    qed
    have "shown s i \<and> List.find (shown s) (parent_chain data i) = Some p \<longleftrightarrow> i \<in> set ks" if "i \<in> set list" for i
      using parent_first [OF d(1) _ shown t pk, of i] shown set that by auto
    then have "set (ms_children (resetNewAllNode data list s) p) = set ks" using ks by (auto simp: reset_children(1) [OF p])
    moreover have "distinct (ms_children (resetNewAllNode data list s) p)" using d(2) by (simp add: reset_children(1) [OF p])
    moreover have "distinct ks" using d(1) t distinct_kids [OF _ pk] by (auto simp: distinct_concat_iff)
    ultimately show ?thesis by (simp add: set_eq_iff_mset_eq_distinct)
  qed
  then show ?thesis by (auto simp: kids_shown_iff)
qed

section \<open>The end of a search\<close>

lemma search_node_children [simp]: "ms_children (search_node tolower name_of data search b i s) = ms_children s"
proof -
  have "ms_children (reveal ps s) = ms_children s" for ps s by (induction ps s rule: reveal.induct) auto
  then show ?thesis by (simp add: search_node_def Let_def)
qed

text \<open>A rank that grows from a node to its children bounds the depth of the search.\<close>

lemma find_ends:
  assumes "\<And>p i. p \<in> A \<Longrightarrow> i \<in> set (kids p) \<Longrightarrow> i \<in> A \<and> rank p < rank i \<and> rank i \<le> N"
  shows "ms_children s = kids \<Longrightarrow> set is \<subseteq> A \<Longrightarrow> \<forall>i\<in>set is. N - rank i < fuel \<Longrightarrow>
    \<exists>s'. findSearchNode fuel tolower name_of data is search b s = Some s' \<and> ms_children s' = kids"
proof (induction fuel tolower name_of data "is" search b s rule: findSearchNode.induct)
  case (3 fuel tolower name_of data i "is" search b s)
  let ?s1 = "search_node tolower name_of data search b i s"
  have i: "i \<in> A" "set is \<subseteq> A" "\<forall>j\<in>set is. N - rank j < Suc fuel" using "3.prems" by auto
  show ?case
  proof (cases "ms_children ?s1 i = []")
    case True
    then show ?thesis using "3.IH"(3) [OF refl _ _ i(2,3)] "3.prems"(1) by (simp add: Let_def)
  next
    case False
    have "set (ms_children ?s1 i) \<subseteq> A" "\<forall>j\<in>set (ms_children ?s1 i). N - rank j < fuel"
      using assms [OF i(1)] "3.prems"(1,3) by fastforce+
    from "3.IH"(1) [OF refl False _ this] obtain s2 where s2: "findSearchNode fuel tolower name_of data (ms_children ?s1 i) (tolower search) (ms_searchShow ?s1 i) ?s1 = Some s2"
      "ms_children s2 = kids" using "3.prems"(1) by auto
    from "3.IH"(2) [OF refl False s2(1) s2(2) i(2,3)] show ?thesis using False s2(1) by (simp add: Let_def)
  qed
next
  case (2 tolower name_of data i "is" search b s)
  then show ?case by fastforce
qed simp

lemma ups_rank: "(i, qs) \<in> set (tree_ups ps t) \<Longrightarrow> p \<in> set qs \<Longrightarrow> p \<notin> set ps \<Longrightarrow> \<exists>qs'. (p, qs') \<in> set (tree_ups ps t) \<and> length qs' < length qs"
proof (induction t arbitrary: ps)
  case (MTree r bean kids)
  have len: "length ps' \<le> length qs" if "(i, qs) \<in> set (tree_ups ps' k)" for ps' k
    using that
  proof (induction k arbitrary: ps')
    case (MTree r bean kids)
    then show ?case by fastforce
  qed
  obtain k where k: "k \<in> set kids" "(i, qs) \<in> set (tree_ups (r # ps) k)" using MTree.prems by auto
  show ?case
  proof (cases "p = r")
    case True
    then show ?thesis using len [OF k(2)] by auto
  next
    case False
    then obtain qs' where "(p, qs') \<in> set (tree_ups (r # ps) k)" "length qs' < length qs" using MTree.IH [OF k MTree.prems(2)] MTree.prems(3) by auto
    then show ?thesis using k(1) by auto
  qed
qed

lemma parent_rank:
  assumes d: "distinct (concat (map tree_ids data))" and i: "i \<in> trees_ids data" "p \<in> set (parent_chain data i)"
  shows "length (parent_chain data p) < length (parent_chain data i) \<and> p \<in> trees_ids data"
proof -
  obtain t where t: "t \<in> set data" "i \<in> fst ` set (tree_ups [] t)" using i(1) by (auto simp flip: tree_ups_ids [of "[]"])
  then obtain qs where qs: "(i, qs) \<in> set (tree_ups [] t)" by auto
  have chain: "parent_chain data i = qs" by (rule parent_chain_ups [OF d t(1) qs])
  then obtain qs' where "(p, qs') \<in> set (tree_ups [] t)" "length qs' < length qs" using ups_rank [OF qs, of p] i(2) by auto
  then show ?thesis using parent_chain_ups [OF d t(1)] chain ups_in [OF qs] i(2) t(1) by auto
qed

lemma chain_bound:
  assumes d: "distinct (concat (map tree_ids data))" and i: "i \<in> trees_ids data"
  shows "length (parent_chain data i) < length (concat (map tree_ids data))"
proof -
  obtain t where t: "t \<in> set data" "i \<in> fst ` set (tree_ups [] t)" using i(1) by (auto simp flip: tree_ups_ids [of "[]"])
  then obtain qs where qs: "(i, qs) \<in> set (tree_ups [] t)" by auto
  have "length qs < length ps + length (tree_ids k)" if "(i, qs) \<in> set (tree_ups ps k)" for k ps
    using that
  proof (induction k arbitrary: ps)
    case (MTree r bean kids)
    show ?case
    proof (cases "(i, qs) = (r, ps)")
      case False
      then obtain k where k: "k \<in> set kids" "(i, qs) \<in> set (tree_ups (r # ps) k)" using MTree.prems by auto
      have "length (tree_ids k) \<le> length (concat (map tree_ids kids))" using k(1) by (auto simp: length_concat comp_def intro: member_le_sum_list)
      then show ?thesis using MTree.IH [OF k] by simp
    qed simp
  qed
  from this [OF qs] have "length qs < length (tree_ids t)" by simp
  also have "\<dots> \<le> length (concat (map tree_ids data))" using t(1) by (auto simp: length_concat comp_def intro: member_le_sum_list)
  finally show ?thesis using parent_chain_ups [OF d t(1) qs] by simp
qed

lemma search_end:
  assumes list: "forest_list data list" and fuel: "length (concat (map tree_ids data)) \<le> fuel"
  shows "\<exists>s'. resetAllNode fuel tolower name_of data list searchValue s = Some s'"
proof -
  let ?s = "resetNewAllNode data list (clearSearchNode (map mt_id data) (clearSearchNode list s))"
  let ?rank = "\<lambda>i. length (parent_chain data i)" and ?N = "length (concat (map tree_ids data))"
  have d: "distinct (concat (map tree_ids data))" and ids: "set list \<union> mt_id ` set data = trees_ids data"
    using list mt_id_in by (fastforce simp: forest_list_def)+
  have step: "i \<in> trees_ids data \<and> ?rank p < ?rank i \<and> ?rank i \<le> ?N - 1" if "p \<in> trees_ids data" "i \<in> set (ms_children ?s p)" for p i
  proof -
    have "p \<in> set (map mt_id data @ list)" using that(1) ids by auto
    from that(2) [unfolded reset_children(1) [OF this]] obtain f where f: "i \<in> set list" "List.find f (parent_chain data i) = Some p" by auto
    then have i: "i \<in> trees_ids data" "p \<in> set (parent_chain data i)" using ids by (auto simp: find_Some_iff)
    show ?thesis using parent_rank [OF d i] chain_bound [OF d i(1)] i(1) by simp
  qed
  have sub: "set (map mt_id data) \<subseteq> trees_ids data" using ids by auto
  have "?N - 1 - ?rank i < fuel" if "i \<in> set (map mt_id data)" for i
  proof -
    have "0 < ?N" using chain_bound [OF d, of i] sub that by fastforce
    then show ?thesis using fuel by linarith
  qed
  then have "\<forall>i\<in>set (map mt_id data). ?N - 1 - ?rank i < fuel" by blast
  from find_ends [where rank = ?rank and N = "?N - 1", OF step refl sub this] show ?thesis by (fastforce simp: resetAllNode_def Let_def)
qed

text \<open>Showing a tree and searching in it always ends, whatever is stored away and whatever the text is: a depth of as many levels as there are nodes is enough.\<close>

theorem search_ends:
  assumes "forest_list data list" "length (concat (map tree_ids data)) \<le> fuel"
  shows "\<exists>s'. resetAllNode fuel tolower name_of data list searchValue s = Some s'"
  using assms by (rule search_end)

section \<open>The result of a search\<close>

text \<open>C13: in a forest of which no node is stored away, a search ends, however deep the trees are, and shows exactly the nodes that match, the nodes below a match and the nodes above a match.
  The lower-casing of the host is only assumed to leave a lowered text as it is and an empty text empty.\<close>

theorem search_shows:
  fixes tolower :: "jsstring \<Rightarrow> jsstring" and name_of :: "nat \<Rightarrow> jsstring"
  assumes list: "forest_list data list" and store: "\<forall>j\<in>trees_ids data. ms_isStore s j = 0" and fuel: "\<forall>t\<in>set data. tree_height t \<le> fuel"
    and low: "tolower searchValue \<noteq> []" "tolower (tolower searchValue) = tolower searchValue" "tolower [] = []"
  defines "M \<equiv> \<lambda>i. js_includes (tolower (name_of i)) (tolower searchValue)"
  shows "\<exists>s'. resetAllNode fuel tolower name_of data list searchValue s = Some s'
    \<and> (\<forall>j\<in>trees_ids data. shown s' j \<longleftrightarrow> j \<in> (\<Union>t\<in>set data. search_spec M False t))"
proof -
  let ?s0 = "clearSearchNode (map mt_id data) (clearSearchNode list s)" and ?v = "tolower searchValue"
  let ?s1 = "resetNewAllNode data list ?s0"
  have d: "distinct (concat (map tree_ids data))" and ids: "set list \<union> mt_id ` set data = trees_ids data"
    using list mt_id_in by (fastforce simp: forest_list_def)+
  have "\<forall>j\<in>trees_ids data. shown ?s0 j" using store ids by (auto simp: shown_def clearSearchNode_def)
  note kids = reset_kids [OF list this]
  have run: "findSearchNode fuel tolower name_of data (map mt_id data) ?v False ?s1 = Some (after_search M False data [] ?s1)"
    unfolding M_def by (rule find_search [OF low]) (use fuel d kids ups_agree_data in auto)
  let ?s2 = "after_search M False data [] ?s1"
  have "searchValue \<noteq> []" using low(1,3) by auto
  then have res: "resetAllNode fuel tolower name_of data list searchValue s = Some (resetNewAllNode data list ?s2)"
    by (simp add: resetAllNode_def Let_def run)
  have "ms_isStore ?s2 j = ms_isStore s j" for j by (simp add: after_search_def reset_frame clearSearchNode_def)
  then have "shown (resetNewAllNode data list ?s2) j \<longleftrightarrow> j \<in> (\<Union>t\<in>set data. search_spec M False t)" if "j \<in> trees_ids data" for j
    using store that by (auto simp: shown_def reset_frame after_search_def)
  then show ?thesis using res by blast
qed

theorem search_ends_witness: "\<exists>s'. resetAllNode 4 id demo_names demo_tree [1, 2, 3] (js ''c'') (store_node (js ''h'') 2 demo_state) = Some s'"
  by (rule search_ends) (auto simp: forest_list_def demo_tree_def)

theorem search_shows_witness:
  "\<exists>s'. resetAllNode 4 id demo_names demo_tree [1, 2, 3] (js ''h'') demo_state = Some s' \<and> shown s' 0 \<and> shown s' 2 \<and> shown s' 3"
proof -
  have "forest_list demo_tree [1, 2, 3]" by (auto simp: forest_list_def demo_tree_def)
  from search_shows [OF this, of demo_state 4 id "js ''h''" demo_names]
  obtain s' where "resetAllNode 4 id demo_names demo_tree [1, 2, 3] (js ''h'') demo_state = Some s'"
    "\<forall>j\<in>trees_ids demo_tree. shown s' j \<longleftrightarrow> j \<in> (\<Union>t\<in>set demo_tree. search_spec (\<lambda>i. js_includes (demo_names i) (js ''h'')) False t)"
    by (auto simp: demo_tree_def demo_state_def js_def)
  moreover have "js_includes (demo_names 2) (js ''h'')" by (simp add: demo_names_def js_def)
  ultimately show ?thesis by (auto simp: demo_tree_def)
qed

end
