(* ===== verification/Call_Tree.thy ===== *)
theory Call_Tree
  imports JS_Map "HOL-Library.Sublist"
begin

text \<open>
  Call trees. Several logic workers merge samples into a tree: the call chain of a sample is walked from one end, the sample is merged into the
  child that matches the next entry of the chain, and a new child is opened when none does. What a node holds, when it matches an
  entry and how a sample is merged differs from worker to worker; they are arguments here. A new node is given the next number, its
  place in \<open>currentTreeList\<close>, to which every new node is appended.

  The locale \<open>call_tree\<close> is what the workers promise: nodes and entries have keys, and a node matches an entry exactly when their keys agree.
  Then the tree is described path by path.
\<close>

section \<open>Merging\<close>

datatype 'b CallTree = CallTree (ct_bean: 'b) (ct_kids: "'b CallTree list")

text \<open>
  One sample below a node: \<open>chain\<close> holds the rest of its call chain in the order of the walk. The sample is merged into every child that matches
  the next entry, and the walk goes on below the last of them; without a match it opens a new child.
\<close>

fun merge_chain ::
  "('b \<Rightarrow> 'c \<Rightarrow> bool) \<Rightarrow> (nat \<Rightarrow> 'b) \<Rightarrow> ('b \<Rightarrow> 'c \<Rightarrow> 's \<Rightarrow> bool \<Rightarrow> 'b) \<Rightarrow> 's \<Rightarrow> 'c list \<Rightarrow> 'b CallTree list \<Rightarrow> nat \<Rightarrow> 'b CallTree list \<times> nat" where
  "merge_chain matches new mrg x [] kids n = (kids, n)"
| "merge_chain matches new mrg x (c # chain) kids n =
     (let isEnd = (chain = []); other = (\<lambda>k. \<not> matches (ct_bean k) c) in
      case dropWhile other (rev kids) of
        [] \<Rightarrow> (let (below, n') = merge_chain matches new mrg x chain [] (n + 1)
               in (kids @ [CallTree (mrg (new n) c x isEnd) below], n'))
      | k # before \<Rightarrow>
          (let (below, n') = merge_chain matches new mrg x chain (ct_kids k) n;
               merge = (\<lambda>j. if other j then j else CallTree (mrg (ct_bean j) c x isEnd) (ct_kids j))
           in (map merge (rev before) @ [CallTree (mrg (ct_bean k) c x isEnd) below] @ rev (takeWhile other (rev kids)), n')))"

text \<open>A sample in the forest: the tree of its first entry is looked up by a key, and opened when it is not there.\<close>

definition root_step ::
  "('b \<Rightarrow> 'c \<Rightarrow> bool) \<Rightarrow> (nat \<Rightarrow> 'b) \<Rightarrow> ('b \<Rightarrow> 'c \<Rightarrow> 's \<Rightarrow> bool \<Rightarrow> 'b) \<Rightarrow> ('c \<Rightarrow> 's \<Rightarrow> 'r) \<Rightarrow> 's \<Rightarrow> 'c list \<Rightarrow>
   ('r \<times> 'b CallTree) list \<times> nat \<Rightarrow> ('r \<times> 'b CallTree) list \<times> nat" where
  "root_step matches new mrg rkey x entries = (\<lambda>(trees, n).
     case entries of
       [] \<Rightarrow> (trees, n)
     | c # chain \<Rightarrow>
         (let (root, n1) = (case map_of trees (rkey c x) of None \<Rightarrow> (CallTree (new n) [], n + 1) | Some t \<Rightarrow> (t, n));
              (kids, n2) = merge_chain matches new mrg x chain (ct_kids root) n1
          in (js_map_set (rkey c x) (CallTree (mrg (ct_bean root) c x False) kids) trees, n2)))"

section \<open>Paths\<close>

text \<open>The node that a path of keys leads to.\<close>

fun tree_at :: "('b \<Rightarrow> 'k) \<Rightarrow> 'k list \<Rightarrow> 'b CallTree list \<Rightarrow> 'b option" where
  "tree_at key [] kids = None"
| "tree_at key (k # p) kids =
     (case List.find (\<lambda>t. key (ct_bean t) = k) kids of
        None \<Rightarrow> None
      | Some t \<Rightarrow> if p = [] then Some (ct_bean t) else tree_at key p (ct_kids t))"

text \<open>Nodes side by side have different keys, and every node is a valid one.\<close>

fun tree_ok :: "('b \<Rightarrow> 'k) \<Rightarrow> ('b \<Rightarrow> bool) \<Rightarrow> 'b CallTree \<Rightarrow> bool" where
  "tree_ok key valid (CallTree b kids) \<longleftrightarrow> valid b \<and> distinct (map (\<lambda>k. key (ct_bean k)) kids) \<and> (\<forall>k\<in>set kids. tree_ok key valid k)"

definition kids_ok :: "('b \<Rightarrow> 'k) \<Rightarrow> ('b \<Rightarrow> bool) \<Rightarrow> 'b CallTree list \<Rightarrow> bool" where
  "kids_ok key valid kids \<longleftrightarrow> distinct (map (\<lambda>k. key (ct_bean k)) kids) \<and> (\<forall>k\<in>set kids. tree_ok key valid k)"

lemma tree_ok_alt: "tree_ok key valid t \<longleftrightarrow> valid (ct_bean t) \<and> kids_ok key valid (ct_kids t)"
  by (cases t) (simp add: kids_ok_def)

lemma kids_okD:
  assumes "kids_ok key valid kids" "k \<in> set kids"
  shows "valid (ct_bean k)" "kids_ok key valid (ct_kids k)"
  using assms tree_ok_alt [of key valid k] by (simp_all add: kids_ok_def)

lemma kids_ok_distinct: "kids_ok key valid kids \<Longrightarrow> distinct (map (\<lambda>k. key (ct_bean k)) kids)"
  by (simp add: kids_ok_def)

lemma kids_ok_Nil [simp]: "kids_ok key valid []"
  by (simp add: kids_ok_def)

lemma find_key:
  assumes "distinct (map f xs)"
  shows "List.find (\<lambda>x. f x = k) xs = Some y \<longleftrightarrow> y \<in> set xs \<and> f y = k"
  using assms by (induction xs) auto

lemma find_key_of: "List.find (\<lambda>x. f x = k) xs = Some y \<Longrightarrow> f y = k"
  by (induction xs) (auto split: if_splits)

lemma find_key_None: "List.find (\<lambda>x. f x = k) xs = None \<longleftrightarrow> k \<notin> f ` set xs"
  by (induction xs) auto

text \<open>What a sample does to the node at a path: when its call chain begins with the path it is merged into it, and otherwise nothing changes.\<close>

definition step_at :: "('c \<Rightarrow> 'k) \<Rightarrow> (nat \<Rightarrow> 'b) \<Rightarrow> ('b \<Rightarrow> 'c \<Rightarrow> 's \<Rightarrow> bool \<Rightarrow> 'b) \<Rightarrow> 's \<Rightarrow> 'c list \<Rightarrow> 'k list \<Rightarrow> 'b option \<Rightarrow> 'b option \<Rightarrow> bool" where
  "step_at ckey new mrg x chain p before after \<longleftrightarrow>
     (if p \<noteq> [] \<and> prefix p (map ckey chain)
      then (\<exists>b. after = Some (mrg b (chain ! (length p - 1)) x (length p = length chain))
              \<and> (case before of None \<Rightarrow> b \<in> range new | Some b0 \<Rightarrow> b = b0))
      else after = before)"

lemma step_at_Cons:
  "step_at ckey new mrg x (c # chain) (k # p) before after \<longleftrightarrow>
    (if k \<noteq> ckey c then after = before
     else if p = [] then (\<exists>b. after = Some (mrg b c x (chain = [])) \<and> (case before of None \<Rightarrow> b \<in> range new | Some b0 \<Rightarrow> b = b0))
     else step_at ckey new mrg x chain p before after)"
  by (cases p) (auto simp: step_at_def)

lemma find_append: "List.find P (xs @ ys) = (case List.find P xs of None \<Rightarrow> List.find P ys | Some x \<Rightarrow> Some x)"
  by (induction xs) auto

lemma find_map_key:
  assumes "\<And>t. f t = k \<Longrightarrow> f (g t) = k" "\<And>t. f t \<noteq> k \<Longrightarrow> g t = t"
  shows "List.find (\<lambda>t. f t = j) (map g xs) = map_option g (List.find (\<lambda>t. f t = j) xs)"
proof (induction xs)
  case (Cons x xs)
  then show ?case using assms [of x] by (cases "f x = k") auto
qed simp

section \<open>Numbers\<close>

fun tree_indexes :: "('b \<Rightarrow> nat) \<Rightarrow> 'b CallTree \<Rightarrow> nat list" where
  "tree_indexes index (CallTree b kids) = index b # concat (map (tree_indexes index) kids)"

text \<open>A new node has the number it was opened with, and merging does not change it: then the nodes are numbered one after the other.\<close>

locale numbered_tree =
  fixes new :: "nat \<Rightarrow> 'b" and mrg :: "'b \<Rightarrow> 'c \<Rightarrow> 's \<Rightarrow> bool \<Rightarrow> 'b" and index :: "'b \<Rightarrow> nat"
  assumes index_new: "index (new n) = n" and index_merge: "index (mrg b c x e) = index b"
begin

lemma merge_chain_numbers:
  "merge_chain matches new mrg x chain kids n = (kids', n') \<Longrightarrow> n \<le> n' \<and>
    mset (concat (map (tree_indexes index) kids')) = mset (concat (map (tree_indexes index) kids)) + mset [n..<n']"
proof (induction chain arbitrary: kids n kids' n')
  case (Cons c chain)
  let ?other = "\<lambda>k. \<not> matches (ct_bean k) c" and ?idx = "\<lambda>ks. mset (concat (map (tree_indexes index) ks))"
  show ?case
  proof (cases "dropWhile ?other (rev kids)")
    case Nil
    obtain below m where r: "merge_chain matches new mrg x chain [] (n + 1) = (below, m)" by fastforce
    have "kids' = kids @ [CallTree (mrg (new n) c x (chain = [])) below]" "n' = m" using Cons.prems Nil r by (simp_all add: Let_def)
    moreover have "[n..<m] = n # [n + 1..<m]" using Cons.IH [OF r] by (simp add: upt_conv_Cons)
    ultimately show ?thesis using Cons.IH [OF r] by (simp add: index_new index_merge)
  next
    case (Cons k before)
    obtain below m where r: "merge_chain matches new mrg x chain (ct_kids k) n = (below, m)" by fastforce
    let ?merge = "\<lambda>j. if ?other j then j else CallTree (mrg (ct_bean j) c x (chain = [])) (ct_kids j)" and ?post = "rev (takeWhile ?other (rev kids))"
    have "rev kids = takeWhile ?other (rev kids) @ k # before" using Cons takeWhile_dropWhile_id [of ?other "rev kids"] by simp
    from arg_cong [OF this, of rev] have split: "kids = rev before @ k # ?post" by simp
    have kids': "kids' = map ?merge (rev before) @ CallTree (mrg (ct_bean k) c x (chain = [])) below # ?post" "n' = m"
      using Cons.prems Cons r by (simp_all add: Let_def)
    have same: "tree_indexes index (?merge j) = tree_indexes index j" for j by (cases j) (simp add: index_merge)
    have "?idx (map ?merge ks) = ?idx ks" for ks by (induction ks) (simp_all only: list.map concat.simps mset_append same)
    moreover have "tree_indexes index k = index (ct_bean k) # concat (map (tree_indexes index) (ct_kids k))" by (cases k) simp
    ultimately show ?thesis using Cons.IH [OF r] arg_cong [OF split, of ?idx] by (simp add: kids' index_merge)
  qed
qed simp

abbreviation forest_indexes :: "('r \<times> 'b CallTree) list \<Rightarrow> nat list" where
  "forest_indexes trees \<equiv> concat (map (\<lambda>e. tree_indexes index (snd e)) trees)"

lemma root_step_numbers:
  assumes "js_map_ok trees" "root_step matches new mrg rkey x entries (trees, n) = (trees', n')"
  shows "js_map_ok trees' \<and> n \<le> n' \<and> mset (forest_indexes trees') = mset (forest_indexes trees) + mset [n..<n']"
proof (cases entries)
  case Nil
  then show ?thesis using assms by (simp add: root_step_def)
next
  case (Cons c chain)
  let ?old = "map_of trees (rkey c x)"
  define root where "root = (case ?old of None \<Rightarrow> CallTree (new n) [] | Some t \<Rightarrow> t)"
  define n1 where "n1 = (case ?old of None \<Rightarrow> n + 1 | Some t \<Rightarrow> n)"
  obtain kids n2 where k: "merge_chain matches new mrg x chain (ct_kids root) n1 = (kids, n2)" by fastforce
  have "(case ?old of None \<Rightarrow> (CallTree (new n) [], n + 1) | Some t \<Rightarrow> (t, n)) = (root, n1)"
    by (simp add: root_def n1_def split: option.split)
  then have run: "trees' = js_map_set (rkey c x) (CallTree (mrg (ct_bean root) c x False) kids) trees" "n' = n2"
    using assms(2) k Cons by (simp_all add: root_step_def)
  note m = mset_js_map_set [OF assms(1), of "tree_indexes index" "rkey c x" "CallTree (mrg (ct_bean root) c x False) kids"]
  note below = merge_chain_numbers [OF k]
  show ?thesis
  proof (cases ?old)
    case None
    then have "[n..<n2] = n # [n + 1..<n2]" using below by (simp add: n1_def upt_conv_Cons)
    then show ?thesis using assms(1) m below None by (simp add: run root_def n1_def index_new index_merge)
  next
    case (Some t)
    have "tree_indexes index t = index (ct_bean t) # concat (map (tree_indexes index) (ct_kids t))" by (cases t) simp
    then show ?thesis using assms(1) m below Some by (simp add: run root_def n1_def index_merge)
  qed
qed

lemma forest_numbers:
  "let r = fold (\<lambda>x. root_step matches new mrg rkey x (entries x)) xs ([], n0) in
   js_map_ok (fst r) \<and> n0 \<le> snd r \<and> mset (forest_indexes (fst r)) = mset [n0..<snd r]"
proof (induction xs rule: rev_induct)
  case (snoc x xs)
  obtain trees n where r: "fold (\<lambda>x. root_step matches new mrg rkey x (entries x)) xs ([], n0) = (trees, n)" by fastforce
  obtain trees' n' where step: "root_step matches new mrg rkey x (entries x) (trees, n) = (trees', n')" by fastforce
  have IH: "js_map_ok trees" "n0 \<le> n" "mset (forest_indexes trees) = mset [n0..<n]" using snoc by (simp_all add: r)
  note s = root_step_numbers [OF IH(1) step]
  have "[n0..<n'] = [n0..<n] @ [n..<n']" using IH(2) s upt_add_eq_append [of n0 n "n' - n"] by simp
  then have "mset [n0..<n'] = mset [n0..<n] + mset [n..<n']" by (simp only: mset_append)
  then show ?case using IH s by (simp add: r step del: mset_upt)
qed (simp add: js_map_ok_def)

end

section \<open>The contract of a worker\<close>

locale call_tree =
  fixes matches :: "'b \<Rightarrow> 'c \<Rightarrow> bool" and new :: "nat \<Rightarrow> 'b" and mrg :: "'b \<Rightarrow> 'c \<Rightarrow> 's \<Rightarrow> bool \<Rightarrow> 'b"
    and bkey :: "'b \<Rightarrow> 'k" and ckey :: "'c \<Rightarrow> 'k" and consistent :: "'c set \<Rightarrow> bool" and valid :: "'c set \<Rightarrow> 'b \<Rightarrow> bool"
  assumes matches_key: "consistent C \<Longrightarrow> valid C b \<Longrightarrow> c \<in> C \<Longrightarrow> matches b c \<longleftrightarrow> bkey b = ckey c"
    and new_key: "c \<in> C \<Longrightarrow> valid C (mrg (new n) c x e) \<and> bkey (mrg (new n) c x e) = ckey c"
    and old_key: "valid C b \<Longrightarrow> c \<in> C \<Longrightarrow> bkey b = ckey c \<Longrightarrow> valid C (mrg b c x e) \<and> bkey (mrg b c x e) = bkey b"
begin

text \<open>With distinct keys one child at most matches, and it alone is changed.\<close>

lemma merge_chain_new:
  assumes "consistent C" "c \<in> C" "kids_ok bkey (valid C) kids" "List.find (\<lambda>t. bkey (ct_bean t) = ckey c) kids = None"
    and "merge_chain matches new mrg x chain [] (n + 1) = (below, n')"
  shows "merge_chain matches new mrg x (c # chain) kids n = (kids @ [CallTree (mrg (new n) c x (chain = [])) below], n')"
proof -
  have "\<forall>k\<in>set kids. \<not> matches (ct_bean k) c"
    using assms(4) matches_key [OF assms(1) kids_okD(1) [OF assms(3)] assms(2)] by (auto simp: find_key_None image_iff)
  then have "dropWhile (\<lambda>k. \<not> matches (ct_bean k) c) (rev kids) = []" by (simp add: dropWhile_eq_Nil_conv)
  then show ?thesis by (simp only: merge_chain.simps Let_def list.case assms(5) prod.case)
qed

lemma merge_chain_old:
  assumes C: "consistent C" "c \<in> C" and ok: "kids_ok bkey (valid C) kids" and k: "List.find (\<lambda>t. bkey (ct_bean t) = ckey c) kids = Some k"
    and r: "merge_chain matches new mrg x chain (ct_kids k) n = (below, n')"
  shows "merge_chain matches new mrg x (c # chain) kids n =
    (map (\<lambda>t. if bkey (ct_bean t) = ckey c then CallTree (mrg (ct_bean k) c x (chain = [])) below else t) kids, n')"
proof -
  let ?other = "\<lambda>k. \<not> matches (ct_bean k) c"
  have d: "distinct (map (\<lambda>k. bkey (ct_bean k)) kids)" by (rule kids_ok_distinct [OF ok])
  have k': "k \<in> set kids" "bkey (ct_bean k) = ckey c" using k find_key [OF d] by auto
  have m: "\<forall>t\<in>set kids. matches (ct_bean t) c \<longleftrightarrow> t = k"
  proof
    fix t assume t: "t \<in> set kids"
    then have "matches (ct_bean t) c \<longleftrightarrow> bkey (ct_bean t) = ckey c" by (rule matches_key [OF C(1) kids_okD(1) [OF ok] C(2)])
    also have "\<dots> \<longleftrightarrow> t = k" using d t k' by (metis distinct_map inj_onD)
    finally show "matches (ct_bean t) c \<longleftrightarrow> t = k" .
  qed
  obtain pre post where split: "kids = pre @ k # post" using k'(1) by (meson split_list)
  have n: "k \<notin> set pre" "k \<notin> set post" using d unfolding split by (auto simp: image_iff)
  have "dropWhile ?other (rev kids) = k # rev pre" "takeWhile ?other (rev kids) = rev post"
    using m n unfolding split by (simp_all add: dropWhile_append takeWhile_append)
  moreover have "map (\<lambda>j. if ?other j then j else g j) pre = pre" for g using m n unfolding split by (auto intro!: map_idI)
  moreover have "map (\<lambda>t. if bkey (ct_bean t) = ckey c then u else t) kids = pre @ u # post" for u
    using d k'(2) unfolding split by (auto intro!: map_idI simp: image_iff)
  ultimately show ?thesis using r by simp
qed

lemma merge_chain_paths:
  assumes C: "consistent C"
  shows "set chain \<subseteq> C \<Longrightarrow> kids_ok bkey (valid C) kids \<Longrightarrow> merge_chain matches new mrg x chain kids n = (kids', n') \<Longrightarrow>
    kids_ok bkey (valid C) kids' \<and> (\<forall>p. step_at ckey new mrg x chain p (tree_at bkey p kids) (tree_at bkey p kids'))"
proof (induction chain arbitrary: kids n kids' n')
  case Nil
  then show ?case by (auto simp: step_at_def)
next
  case (Cons c chain)
  have c: "c \<in> C" "set chain \<subseteq> C" using Cons.prems(1) by auto
  let ?find = "List.find (\<lambda>t. bkey (ct_bean t) = ckey c) kids"
  show ?case
  proof (cases ?find)
    case None
    obtain below n1 where r: "merge_chain matches new mrg x chain [] (n + 1) = (below, n1)" by fastforce
    let ?t = "CallTree (mrg (new n) c x (chain = [])) below"
    have k': "kids' = kids @ [?t]" using Cons.prems(3) merge_chain_new [OF C c(1) Cons.prems(2) None r] by simp
    have IH: "kids_ok bkey (valid C) below" "\<forall>p. step_at ckey new mrg x chain p (tree_at bkey p []) (tree_at bkey p below)"
      using Cons.IH [OF c(2) _ r] by simp_all
    have t: "tree_ok bkey (valid C) ?t" "bkey (ct_bean ?t) = ckey c" using new_key [OF c(1)] IH(1) by (auto simp: tree_ok_alt)
    have "kids_ok bkey (valid C) kids'" using Cons.prems(2) None t by (auto simp: kids_ok_def k' find_key_None simp del: tree_ok.simps)
    moreover have "step_at ckey new mrg x (c # chain) p (tree_at bkey p kids) (tree_at bkey p kids')" for p
    proof (cases p)
      case (Cons k q)
      have "tree_at bkey q [] = None" by (cases q) simp_all
      then show ?thesis using None t(2) IH(2) [rule_format, of q] unfolding Cons step_at_Cons
        by (auto simp: k' find_append split: option.split)
    qed (simp add: step_at_def)
    ultimately show ?thesis by blast
  next
    case (Some k)
    obtain below n1 where r: "merge_chain matches new mrg x chain (ct_kids k) n = (below, n1)" by fastforce
    let ?t = "CallTree (mrg (ct_bean k) c x (chain = [])) below"
    have k': "kids' = map (\<lambda>t. if bkey (ct_bean t) = ckey c then ?t else t) kids"
      using Cons.prems(3) merge_chain_old [OF C c(1) Cons.prems(2) Some r] by simp
    have kk: "k \<in> set kids" "bkey (ct_bean k) = ckey c" using Some find_key [OF kids_ok_distinct [OF Cons.prems(2)]] by auto
    note ok = kids_okD [OF Cons.prems(2) kk(1)]
    have IH: "kids_ok bkey (valid C) below" "\<forall>p. step_at ckey new mrg x chain p (tree_at bkey p (ct_kids k)) (tree_at bkey p below)"
      using Cons.IH [OF c(2) ok(2) r] by simp_all
    have t: "tree_ok bkey (valid C) ?t" "bkey (ct_bean ?t) = ckey c" using old_key [OF ok(1) c(1) kk(2)] kk(2) IH(1) by (auto simp: tree_ok_alt)
    have keys: "map (\<lambda>t. bkey (ct_bean t)) kids' = map (\<lambda>t. bkey (ct_bean t)) kids" using t(2) by (simp add: k')
    have "set kids' \<subseteq> insert ?t (set kids)" by (auto simp: k')
    then have "kids_ok bkey (valid C) kids'" using Cons.prems(2) t(1) unfolding kids_ok_def keys by blast
    moreover have "step_at ckey new mrg x (c # chain) p (tree_at bkey p kids) (tree_at bkey p kids')" for p
    proof (cases p)
      case (Cons j q)
      have "List.find (\<lambda>t. bkey (ct_bean t) = j) kids' =
          map_option (\<lambda>t. if bkey (ct_bean t) = ckey c then ?t else t) (List.find (\<lambda>t. bkey (ct_bean t) = j) kids)"
        unfolding k' by (rule find_map_key) (use t(2) in auto)
      then have f: "List.find (\<lambda>t. bkey (ct_bean t) = j) kids' = (if j = ckey c then Some ?t else List.find (\<lambda>t. bkey (ct_bean t) = j) kids)"
        using Some kk(2) find_key_of [of "\<lambda>t. bkey (ct_bean t)" j kids] by (cases "List.find (\<lambda>t. bkey (ct_bean t) = j) kids") auto
      show ?thesis
      proof (cases "j = ckey c")
        case True
        then show ?thesis using Some IH(2) [rule_format, of q] f [unfolded True] by (simp add: Cons step_at_Cons)
      qed (simp add: Cons step_at_Cons f)
    qed (simp add: step_at_def)
    ultimately show ?thesis by blast
  qed
qed

end

section \<open>Quantities\<close>

text \<open>The samples that lead to a root, and those among them whose call chain goes along a path below it.\<close>

definition rooted :: "('c \<Rightarrow> 's \<Rightarrow> 'r) \<Rightarrow> ('s \<Rightarrow> 'c list) \<Rightarrow> 'r \<Rightarrow> 's list \<Rightarrow> 's list" where
  "rooted rkey entries r xs = filter (\<lambda>x. entries x \<noteq> [] \<and> rkey (hd (entries x)) x = r) xs"

definition passing :: "('c \<Rightarrow> 'k) \<Rightarrow> ('s \<Rightarrow> 'c list) \<Rightarrow> 'k list \<Rightarrow> 's list \<Rightarrow> 's list" where
  "passing ckey entries p xs = filter (\<lambda>x. prefix p (map ckey (tl (entries x)))) xs"

lemma rooted_snoc [simp]: "rooted rkey entries r (xs @ [x]) = rooted rkey entries r xs @ (if entries x \<noteq> [] \<and> rkey (hd (entries x)) x = r then [x] else [])"
  by (simp add: rooted_def)

lemma passing_snoc [simp]: "passing ckey entries p (xs @ [x]) = passing ckey entries p xs @ (if prefix p (map ckey (tl (entries x))) then [x] else [])"
  by (simp add: passing_def)

lemma passing_Nil [simp]: "passing ckey entries p [] = []"
  by (simp add: passing_def)

lemma prefix_full: "prefix p l \<Longrightarrow> length p = length l \<longleftrightarrow> l = p"
  by (auto simp: prefix_def)

text \<open>A quantity of the nodes to which every sample contributes a weight, which may depend on whether the call chain ends at the node.\<close>

locale weighted_tree = call_tree matches new mrg bkey ckey consistent valid
  for matches :: "'b \<Rightarrow> 'c \<Rightarrow> bool" and new :: "nat \<Rightarrow> 'b" and mrg :: "'b \<Rightarrow> 'c \<Rightarrow> 's \<Rightarrow> bool \<Rightarrow> 'b"
    and bkey :: "'b \<Rightarrow> 'k" and ckey :: "'c \<Rightarrow> 'k" and consistent :: "'c set \<Rightarrow> bool" and valid :: "'c set \<Rightarrow> 'b \<Rightarrow> bool" +
  fixes total :: "'b \<Rightarrow> int" and weight :: "'s \<Rightarrow> bool \<Rightarrow> int"
  assumes total_new: "total (new n) = 0"
    and total_merge: "total (mrg b c x e) = total b + weight x e"
begin

text \<open>A node at a path below a root holds the weights of the samples along the path; there is none when there are no such samples.\<close>

abbreviation row_sums :: "('s \<Rightarrow> 'c list) \<Rightarrow> 's list \<Rightarrow> 'b CallTree list \<Rightarrow> 'k list \<Rightarrow> bool" where
  "row_sums entries xs kids p \<equiv>
     (case tree_at bkey p kids of
        None \<Rightarrow> passing ckey entries p xs = []
      | Some b \<Rightarrow> passing ckey entries p xs \<noteq> []
          \<and> total b = sum_list (map (\<lambda>x. weight x (map ckey (tl (entries x)) = p)) (passing ckey entries p xs)))"

lemma row_sums_step:
  assumes "p \<noteq> []" "row_sums entries xs kids p" "step_at ckey new mrg x (tl (entries x)) p (tree_at bkey p kids) (tree_at bkey p kids')"
  shows "row_sums entries (xs @ [x]) kids' p"
proof (cases "prefix p (map ckey (tl (entries x)))")
  case True
  then have len: "length p = length (tl (entries x)) \<longleftrightarrow> map ckey (tl (entries x)) = p" using prefix_full [OF True] by (simp only: length_map)
  obtain b where b: "tree_at bkey p kids' = Some (mrg b (tl (entries x) ! (length p - 1)) x (length p = length (tl (entries x))))"
    "case tree_at bkey p kids of None \<Rightarrow> b \<in> range new | Some b0 \<Rightarrow> b = b0"
    using assms(1,3) True unfolding step_at_def by auto
  have "total b = sum_list (map (\<lambda>x. weight x (map ckey (tl (entries x)) = p)) (passing ckey entries p xs))"
    using b(2) assms(2) total_new by (auto split: option.splits)
  then show ?thesis using b(1) [unfolded len] True by (simp add: total_merge)
next
  case False
  then have "passing ckey entries p (xs @ [x]) = passing ckey entries p xs" by simp
  then show ?thesis using assms(2,3) False by (simp add: step_at_def cong: option.case_cong)
qed

definition tree_sums :: "('s \<Rightarrow> 'c list) \<Rightarrow> 'c set \<Rightarrow> 's list \<Rightarrow> 'b CallTree option \<Rightarrow> bool" where
  "tree_sums entries C ys tree \<longleftrightarrow>
     (case tree of
        None \<Rightarrow> ys = []
      | Some t \<Rightarrow> ys \<noteq> [] \<and> kids_ok bkey (valid C) (ct_kids t) \<and> total (ct_bean t) = sum_list (map (\<lambda>x. weight x False) ys)
          \<and> (\<forall>p. p \<noteq> [] \<longrightarrow> row_sums entries ys (ct_kids t) p))"

definition forest_sums :: "('c \<Rightarrow> 's \<Rightarrow> 'r) \<Rightarrow> ('s \<Rightarrow> 'c list) \<Rightarrow> 'c set \<Rightarrow> 's list \<Rightarrow> ('r \<times> 'b CallTree) list \<Rightarrow> bool" where
  "forest_sums rkey entries C xs trees \<longleftrightarrow> (\<forall>r. tree_sums entries C (rooted rkey entries r xs) (map_of trees r))"

lemma forest_sums_step:
  assumes C: "consistent C" and sub: "set (entries x) \<subseteq> C" and IH: "forest_sums rkey entries C xs trees"
    and step: "root_step matches new mrg rkey x (entries x) (trees, n) = (trees', n')"
  shows "forest_sums rkey entries C (xs @ [x]) trees'"
proof (cases "entries x")
  case Nil
  then show ?thesis using IH step by (simp add: root_step_def forest_sums_def)
next
  case (Cons c chain)
  define root where "root = (case map_of trees (rkey c x) of None \<Rightarrow> CallTree (new n) [] | Some t \<Rightarrow> t)"
  define n1 where "n1 = (case map_of trees (rkey c x) of None \<Rightarrow> n + 1 | Some t \<Rightarrow> n)"
  obtain kids n2 where k: "merge_chain matches new mrg x chain (ct_kids root) n1 = (kids, n2)" by fastforce
  have "(case map_of trees (rkey c x) of None \<Rightarrow> (CallTree (new n) [], n + 1) | Some t \<Rightarrow> (t, n)) = (root, n1)"
    by (simp add: root_def n1_def split: option.split)
  then have trees': "trees' = js_map_set (rkey c x) (CallTree (mrg (ct_bean root) c x False) kids) trees"
    using step k Cons by (simp add: root_step_def)
  let ?xs = "rooted rkey entries (rkey c x) xs"
  have root: "kids_ok bkey (valid C) (ct_kids root) \<and> total (ct_bean root) = sum_list (map (\<lambda>x. weight x False) ?xs)
      \<and> (\<forall>p. p \<noteq> [] \<longrightarrow> row_sums entries ?xs (ct_kids root) p)"
  proof (cases "map_of trees (rkey c x)")
    case None
    then have "?xs = []" using IH [unfolded forest_sums_def, THEN spec, of "rkey c x"] by (simp add: tree_sums_def)
    moreover have "tree_at bkey p [] = None" for p by (cases p) simp_all
    ultimately show ?thesis by (simp add: root_def None total_new)
  next
    case (Some t)
    then show ?thesis using IH [unfolded forest_sums_def, THEN spec, of "rkey c x"] by (simp add: root_def tree_sums_def)
  qed
  have "set chain \<subseteq> C" using sub Cons by simp
  note paths = merge_chain_paths [OF C this conjunct1 [OF root] k]
  have "row_sums entries (?xs @ [x]) kids p" if "p \<noteq> []" for p
    by (rule row_sums_step [OF that, where kids = "ct_kids root"]) (use root paths Cons that in simp_all)
  then have "tree_sums entries C (?xs @ [x]) (Some (CallTree (mrg (ct_bean root) c x False) kids))"
    using paths root by (simp add: tree_sums_def total_merge)
  then show ?thesis using IH by (auto simp: forest_sums_def trees' Cons)
qed

lemma forest_sums:
  assumes "consistent C" "\<forall>x\<in>set xs. set (entries x) \<subseteq> C"
  shows "forest_sums rkey entries C xs (fst (fold (\<lambda>x. root_step matches new mrg rkey x (entries x)) xs ([], n0)))"
  using assms(2)
proof (induction xs rule: rev_induct)
  case Nil
  then show ?case by (simp add: forest_sums_def tree_sums_def rooted_def)
next
  case (snoc x xs)
  obtain trees n where r: "fold (\<lambda>x. root_step matches new mrg rkey x (entries x)) xs ([], n0) = (trees, n)" by fastforce
  obtain trees' n' where step: "root_step matches new mrg rkey x (entries x) (trees, n) = (trees', n')" by fastforce
  have "forest_sums rkey entries C xs trees" using snoc by (simp add: r)
  then show ?case using forest_sums_step [where entries = entries and x = x, OF assms(1) _ _ step] snoc.prems by (simp add: r step)
qed

end

context weighted_tree
begin

text \<open>Over all roots the quantity adds up to the weights of the samples that have a call chain.\<close>

abbreviation roots_total :: "('r \<times> 'b CallTree) list \<Rightarrow> int" where
  "roots_total trees \<equiv> sum_list (map (\<lambda>e. total (ct_bean (snd e))) trees)"

lemma root_step_total:
  assumes "js_map_ok trees" "root_step matches new mrg rkey x entries (trees, n) = (trees', n')"
  shows "js_map_ok trees' \<and> roots_total trees' = roots_total trees + (if entries = [] then 0 else weight x False)"
proof (cases entries)
  case Nil
  then show ?thesis using assms by (simp add: root_step_def)
next
  case (Cons c chain)
  define root where "root = (case map_of trees (rkey c x) of None \<Rightarrow> CallTree (new n) [] | Some t \<Rightarrow> t)"
  define n1 where "n1 = (case map_of trees (rkey c x) of None \<Rightarrow> n + 1 | Some t \<Rightarrow> n)"
  obtain kids n2 where k: "merge_chain matches new mrg x chain (ct_kids root) n1 = (kids, n2)" by fastforce
  have "(case map_of trees (rkey c x) of None \<Rightarrow> (CallTree (new n) [], n + 1) | Some t \<Rightarrow> (t, n)) = (root, n1)"
    by (simp add: root_def n1_def split: option.split)
  then have trees': "trees' = js_map_set (rkey c x) (CallTree (mrg (ct_bean root) c x False) kids) trees"
    using assms(2) k Cons by (simp add: root_step_def)
  show ?thesis using assms(1) Cons unfolding trees' sum_js_map_set [OF assms(1), where f = "\<lambda>t. total (ct_bean t)"]
    by (simp add: total_merge root_def total_new split: option.split)
qed

lemma forest_total:
  "js_map_ok (fst (fold (\<lambda>x. root_step matches new mrg rkey x (entries x)) xs ([], n0)))
   \<and> roots_total (fst (fold (\<lambda>x. root_step matches new mrg rkey x (entries x)) xs ([], n0))) = sum_list (map (\<lambda>x. weight x False) (filter (\<lambda>x. entries x \<noteq> []) xs))"
proof (induction xs rule: rev_induct)
  case (snoc x xs)
  obtain trees n where r: "fold (\<lambda>x. root_step matches new mrg rkey x (entries x)) xs ([], n0) = (trees, n)" by fastforce
  obtain trees' n' where step: "root_step matches new mrg rkey x (entries x) (trees, n) = (trees', n')" by fastforce
  show ?case using root_step_total [OF _ step] snoc by (simp add: r step)
qed (simp add: js_map_ok_def)

lemma forest_at:
  assumes "consistent C" "\<forall>x\<in>set xs. set (entries x) \<subseteq> C" and "map_of (fst (fold (\<lambda>x. root_step matches new mrg rkey x (entries x)) xs ([], n0))) r = Some t"
  shows "rooted rkey entries r xs \<noteq> []" "total (ct_bean t) = sum_list (map (\<lambda>x. weight x False) (rooted rkey entries r xs))"
    "p \<noteq> [] \<Longrightarrow> row_sums entries (rooted rkey entries r xs) (ct_kids t) p"
  using forest_sums [OF assms(1,2), of rkey n0, unfolded forest_sums_def, THEN spec, of r] assms(3) by (simp_all add: tree_sums_def)

lemma forest_at_None:
  assumes "consistent C" "\<forall>x\<in>set xs. set (entries x) \<subseteq> C" and "map_of (fst (fold (\<lambda>x. root_step matches new mrg rkey x (entries x)) xs ([], n0))) r = None"
  shows "rooted rkey entries r xs = []"
  using forest_sums [OF assms(1,2), of rkey n0, unfolded forest_sums_def, THEN spec, of r] assms(3) by (simp add: tree_sums_def)

end

section \<open>Times\<close>

text \<open>The time of a node is its own time and the times of its children.\<close>

abbreviation kids_sum :: "('b \<Rightarrow> int) \<Rightarrow> 'b CallTree list \<Rightarrow> int" where
  "kids_sum dur kids \<equiv> sum_list (map (\<lambda>k. dur (ct_bean k)) kids)"

fun tree_balanced :: "('b \<Rightarrow> int) \<Rightarrow> ('b \<Rightarrow> int) \<Rightarrow> 'b CallTree \<Rightarrow> bool" where
  "tree_balanced dur self (CallTree b kids) \<longleftrightarrow> dur b = self b + kids_sum dur kids \<and> (\<forall>k\<in>set kids. tree_balanced dur self k)"

lemma tree_balanced_alt:
  "tree_balanced dur self t \<longleftrightarrow> dur (ct_bean t) = self (ct_bean t) + kids_sum dur (ct_kids t) \<and> (\<forall>k\<in>set (ct_kids t). tree_balanced dur self k)"
  by (cases t) simp

lemma sum_map_key:
  fixes g :: "'t \<Rightarrow> int"
  assumes "distinct (map f xs)" "List.find (\<lambda>x. f x = k) xs = Some y"
  shows "sum_list (map g (map (\<lambda>x. if f x = k then u else x) xs)) = sum_list (map g xs) - g y + g u"
  using assms
proof (induction xs)
  case (Cons x xs)
  have "map (\<lambda>x. if f x = k then u else x) xs = xs" if "k \<notin> f ` set xs" using that by (auto intro!: map_idI)
  then show ?case using Cons by (auto split: if_splits simp del: map_map)
qed simp

locale timed_tree = call_tree matches new mrg bkey ckey consistent valid
  for matches :: "'b \<Rightarrow> 'c \<Rightarrow> bool" and new :: "nat \<Rightarrow> 'b" and mrg :: "'b \<Rightarrow> 'c \<Rightarrow> 's \<Rightarrow> bool \<Rightarrow> 'b"
    and bkey :: "'b \<Rightarrow> 'k" and ckey :: "'c \<Rightarrow> 'k" and consistent :: "'c set \<Rightarrow> bool" and valid :: "'c set \<Rightarrow> 'b \<Rightarrow> bool" +
  fixes dur :: "'b \<Rightarrow> int" and self :: "'b \<Rightarrow> int" and time :: "'s \<Rightarrow> int"
  assumes dur_new: "dur (new n) = 0" and self_new: "self (new n) = 0"
    and dur_merge: "dur (mrg b c x e) = dur b + time x"
    and self_merge: "self (mrg b c x e) = self b + (if e then time x else 0)"
begin

lemma merge_chain_balanced:
  assumes C: "consistent C"
  shows "set chain \<subseteq> C \<Longrightarrow> kids_ok bkey (valid C) kids \<Longrightarrow> \<forall>k\<in>set kids. tree_balanced dur self k \<Longrightarrow> merge_chain matches new mrg x chain kids n = (kids', n') \<Longrightarrow>
    (\<forall>k\<in>set kids'. tree_balanced dur self k) \<and> kids_sum dur kids' = kids_sum dur kids + (if chain = [] then 0 else time x)"
proof (induction chain arbitrary: kids n kids' n')
  case (Cons c chain)
  have c: "c \<in> C" "set chain \<subseteq> C" using Cons.prems(1) by auto
  show ?case
  proof (cases "List.find (\<lambda>t. bkey (ct_bean t) = ckey c) kids")
    case None
    obtain below n1 where r: "merge_chain matches new mrg x chain [] (n + 1) = (below, n1)" by fastforce
    then have "kids' = kids @ [CallTree (mrg (new n) c x (chain = [])) below]"
      using Cons.prems(4) merge_chain_new [OF C c(1) Cons.prems(2) None r] by simp
    then show ?thesis using Cons.prems(3) Cons.IH [OF c(2) _ _ r] by (auto simp: dur_merge self_merge dur_new self_new)
  next
    case (Some k)
    obtain below n1 where r: "merge_chain matches new mrg x chain (ct_kids k) n = (below, n1)" by fastforce
    let ?t = "CallTree (mrg (ct_bean k) c x (chain = [])) below"
    have kids': "kids' = map (\<lambda>t. if bkey (ct_bean t) = ckey c then ?t else t) kids"
      using Cons.prems(4) merge_chain_old [OF C c(1) Cons.prems(2) Some r] by simp
    note d = kids_ok_distinct [OF Cons.prems(2)]
    have k: "k \<in> set kids" using Some find_key [OF d] by auto
    have bal: "dur (ct_bean k) = self (ct_bean k) + kids_sum dur (ct_kids k)" "\<forall>j\<in>set (ct_kids k). tree_balanced dur self j"
      using Cons.prems(3) k tree_balanced_alt [of dur self k] by auto
    have "tree_balanced dur self ?t"
      using Cons.IH [OF c(2) kids_okD(2) [OF Cons.prems(2) k] bal(2) r] bal(1) by (simp add: dur_merge self_merge)
    moreover have "kids_sum dur kids' = kids_sum dur kids + time x"
      unfolding kids' sum_map_key [OF d Some] by (simp add: dur_merge)
    moreover have "set kids' \<subseteq> insert ?t (set kids)" by (auto simp: kids')
    ultimately show ?thesis using Cons.prems(3) by auto
  qed
qed simp

definition forest_balanced :: "'c set \<Rightarrow> ('r \<times> 'b CallTree) list \<Rightarrow> bool" where
  "forest_balanced C trees \<longleftrightarrow> (\<forall>e\<in>set trees. kids_ok bkey (valid C) (ct_kids (snd e)) \<and> tree_balanced dur self (snd e))"

text \<open>A call chain with one entry only would leave its time at the root without own time.\<close>

lemma root_step_balanced:
  assumes C: "consistent C" and sub: "set entries \<subseteq> C" and len: "length entries \<noteq> 1" and IH: "forest_balanced C trees"
    and step: "root_step matches new mrg rkey x entries (trees, n) = (trees', n')"
  shows "forest_balanced C trees'"
proof (cases entries)
  case Nil
  then show ?thesis using IH step by (simp add: root_step_def)
next
  case (Cons c chain)
  define root where "root = (case map_of trees (rkey c x) of None \<Rightarrow> CallTree (new n) [] | Some t \<Rightarrow> t)"
  define n1 where "n1 = (case map_of trees (rkey c x) of None \<Rightarrow> n + 1 | Some t \<Rightarrow> n)"
  obtain kids n2 where k: "merge_chain matches new mrg x chain (ct_kids root) n1 = (kids, n2)" by fastforce
  have "(case map_of trees (rkey c x) of None \<Rightarrow> (CallTree (new n) [], n + 1) | Some t \<Rightarrow> (t, n)) = (root, n1)"
    by (simp add: root_def n1_def split: option.split)
  then have trees': "trees' = js_map_set (rkey c x) (CallTree (mrg (ct_bean root) c x False) kids) trees"
    using step k Cons by (simp add: root_step_def)
  have root: "kids_ok bkey (valid C) (ct_kids root)" "tree_balanced dur self root"
    using IH map_of_SomeD [of trees "rkey c x"] by (fastforce simp: root_def forest_balanced_def dur_new self_new split: option.splits)+
  have chain: "set chain \<subseteq> C" "chain \<noteq> []" using sub len Cons by auto
  have bal: "dur (ct_bean root) = self (ct_bean root) + kids_sum dur (ct_kids root)" "\<forall>k\<in>set (ct_kids root). tree_balanced dur self k"
    using root(2) by (cases root; simp)+
  have "tree_balanced dur self (CallTree (mrg (ct_bean root) c x False) kids)"
    using merge_chain_balanced [OF C chain(1) root(1) bal(2) k] bal(1) chain(2) by (simp add: dur_merge self_merge)
  moreover have "kids_ok bkey (valid C) kids" using merge_chain_paths [OF C chain(1) root(1) k] by blast
  ultimately show ?thesis using IH set_js_map_set [of "rkey c x" "CallTree (mrg (ct_bean root) c x False) kids" trees]
    unfolding forest_balanced_def trees' by (auto simp del: tree_balanced.simps)
qed

lemma forest_balanced:
  assumes "consistent C" "\<forall>x\<in>set xs. set (entries x) \<subseteq> C \<and> length (entries x) \<noteq> 1"
  shows "forest_balanced C (fst (fold (\<lambda>x. root_step matches new mrg rkey x (entries x)) xs ([], n0)))"
  using assms(2)
proof (induction xs rule: rev_induct)
  case Nil
  then show ?case by (simp add: forest_balanced_def)
next
  case (snoc x xs)
  obtain trees n where r: "fold (\<lambda>x. root_step matches new mrg rkey x (entries x)) xs ([], n0) = (trees, n)" by fastforce
  obtain trees' n' where step: "root_step matches new mrg rkey x (entries x) (trees, n) = (trees', n')" by fastforce
  have "forest_balanced C trees" using snoc by (simp add: r)
  then show ?case using root_step_balanced [OF assms(1) _ _ _ step] snoc.prems by (simp add: r step)
qed

end

sublocale timed_tree \<subseteq> tree_dur: weighted_tree matches new mrg bkey ckey consistent valid dur "\<lambda>x e. time x"
  by unfold_locales (simp_all add: dur_new dur_merge)

sublocale timed_tree \<subseteq> tree_self: weighted_tree matches new mrg bkey ckey consistent valid self "\<lambda>x e. if e then time x else 0"
  by unfold_locales (simp_all add: self_new self_merge)

context timed_tree
begin

text \<open>The forest path by path: times and own times.\<close>

lemma forest_rows:
  fixes rkey :: "'c \<Rightarrow> 's \<Rightarrow> 'r" and entries :: "'s \<Rightarrow> 'c list" and r :: 'r
  assumes C: "consistent C" "\<forall>x\<in>set xs. set (entries x) \<subseteq> C"
  defines "ys \<equiv> rooted rkey entries r xs" and "on \<equiv> passing ckey entries"
  shows "case map_of (fst (fold (\<lambda>x. root_step matches new mrg rkey x (entries x)) xs ([], n0))) r of
     None \<Rightarrow> ys = []
   | Some t \<Rightarrow> ys \<noteq> [] \<and> dur (ct_bean t) = sum_list (map time ys) \<and> (\<forall>k q. let p = k # q in
       case tree_at bkey p (ct_kids t) of
         None \<Rightarrow> on p ys = []
       | Some b \<Rightarrow> on p ys \<noteq> [] \<and> dur b = sum_list (map time (on p ys))
           \<and> self b = sum_list (map (\<lambda>x. if map ckey (tl (entries x)) = p then time x else 0) (on p ys)))"
proof (cases "map_of (fst (fold (\<lambda>x. root_step matches new mrg rkey x (entries x)) xs ([], n0))) r")
  case None
  then show ?thesis using tree_dur.forest_at_None [OF C None] by (simp add: ys_def)
next
  case (Some t)
  have "case tree_at bkey p (ct_kids t) of None \<Rightarrow> on p ys = []
     | Some b \<Rightarrow> on p ys \<noteq> [] \<and> dur b = sum_list (map time (on p ys))
         \<and> self b = sum_list (map (\<lambda>x. if map ckey (tl (entries x)) = p then time x else 0) (on p ys))" if "p = k # q" for p k q
    using tree_dur.forest_at(3) [OF C Some, of p] tree_self.forest_at(3) [OF C Some, of p] that
    by (cases "tree_at bkey p (ct_kids t)") (simp_all add: ys_def on_def del: tree_at.simps)
  from this [OF refl] show ?thesis using tree_dur.forest_at(1,2) [OF C Some] Some unfolding Let_def by (simp add: ys_def del: tree_at.simps)
qed

end

end
