(* ===== verification/Logic_FileSystem.thy ===== *)
theory Logic_FileSystem
  imports Logic_Merge Call_Tree
begin

text \<open>
  The file system worker: call chains, the analysis of the samples and the call tree
  (\<open>trace/database/logic-worker/ProcedureLogicWorkerFileSystem.ts\<close>).

  An identifier that the database leaves \<open>NULL\<close> is \<open>None\<close>. The call tree is kept as a tree; the number of a node is its place in
  \<open>currentTreeList\<close>, to which every new node is appended.
\<close>

section \<open>Data\<close>

record FileCallChain =
  fc_callChainId :: int
  fc_symbolsId :: "int option"
  fc_pathId :: int
  fc_ip :: jsstring

record FileSample =
  fs_type :: int
  fs_callChainId :: int
  fs_dur :: int
  fs_pid :: int
  fs_tid :: int
  fs_threadName :: "jsstring option"
  fs_processName :: "jsstring option"
  fs_ts :: int

type_synonym data_dict = "int \<Rightarrow> jsstring option"

section \<open>Call chains\<close>

definition initCallChainTopDown :: "FileCallChain list \<Rightarrow> (int \<times> FileCallChain list) list \<Rightarrow> (int \<times> FileCallChain list) list" where
  "initCallChainTopDown list m = fold (group_step fc_callChainId (\<lambda>c. [c]) (\<lambda>c l. l @ [c])) list m"

record Stack =
  st_type :: int
  st_symbol :: jsstring
  st_path :: jsstring

definition js_endsWith :: "jsstring \<Rightarrow> jsstring \<Rightarrow> bool" where
  "js_endsWith s t \<longleftrightarrow> length t \<le> length s \<and> drop (length s - length t) s = t"

text \<open>\<open>split('/').reverse()[0]\<close>.\<close>

definition last_segment :: "jsstring \<Rightarrow> jsstring" where
  "last_segment s = rev (takeWhile (\<lambda>c. c \<noteq> of_char (CHR ''/'')) (rev s))"

definition chain_symbol :: "data_dict \<Rightarrow> FileCallChain \<Rightarrow> jsstring" where
  "chain_symbol dict c = (case fc_symbolsId c of None \<Rightarrow> fc_ip c | Some i \<Rightarrow> (case dict i of None \<Rightarrow> [] | Some s \<Rightarrow> s))"

definition getStacksByCallchainId :: "data_dict \<Rightarrow> (int \<times> FileCallChain list) list \<Rightarrow> int \<Rightarrow> Stack list" where
  "getStacksByCallchainId dict m i =
     map (\<lambda>c. let path = last_segment (case dict (fc_pathId c) of None \<Rightarrow> js ''Unknown Path'' | Some p \<Rightarrow> p) in
        \<lparr>st_type = (if js_endsWith path (js ''.so.1'') \<or> js_endsWith path (js ''.dll'') \<or> js_endsWith path (js ''.so'') then 0 else 1),
         st_symbol = chain_symbol dict c @ js '' ('' @ path @ js '')'', st_path = path\<rparr>)
       (case map_of m i of None \<Rightarrow> [] | Some l \<Rightarrow> l)"

section \<open>The analysis of the samples\<close>

definition FS_TYPE :: int where "FS_TYPE = 0"
definition PF_TYPE :: int where "PF_TYPE = 1"
definition BIO_TYPE :: int where "BIO_TYPE = 2"

record FileAnalysisSample =
  fa_sample :: FileSample
  fa_libId :: int
  fa_symbolId :: "int option"
  fa_libName :: jsstring
  fa_symbolName :: jsstring

definition dict_includes :: "data_dict \<Rightarrow> int option \<Rightarrow> jsstring \<Rightarrow> bool" where
  "dict_includes dict i t = (case Option.bind i dict of None \<Rightarrow> False | Some s \<Rightarrow> js_includes s t)"

text \<open>The frames that the search for the last frame passes over.\<close>

definition skip_frame :: "data_dict \<Rightarrow> int \<Rightarrow> FileCallChain \<Rightarrow> bool" where
  "skip_frame dict ty c =
     (if ty = BIO_TYPE then dict_includes dict (fc_symbolsId c) (js ''submit_bio'')
      else dict_includes dict (Some (fc_pathId c)) (js ''musl'') \<or> dict_includes dict (Some (fc_pathId c)) (js ''libc++''))"

text \<open>The loop goes down from the last frame; below the first it reads an element that is \<open>undefined\<close>.\<close>

fun last_frame :: "data_dict \<Rightarrow> int \<Rightarrow> FileCallChain list \<Rightarrow> nat \<Rightarrow> FileCallChain option" where
  "last_frame dict ty chain 0 = None"
| "last_frame dict ty chain (Suc depth) =
     (if skip_frame dict ty (chain ! depth) then last_frame dict ty chain depth else Some (chain ! depth))"

text \<open>The constructor of an analysed sample copies all fields but the time stamp.\<close>

definition analyse_sample :: "data_dict \<Rightarrow> (int \<times> FileCallChain list) list \<Rightarrow> int \<Rightarrow> FileSample \<Rightarrow> FileAnalysisSample option" where
  "analyse_sample dict m ty x =
     (case map_of m (fs_callChainId x) of
        None \<Rightarrow> None
      | Some chain \<Rightarrow>
          (case last_frame dict ty chain (length chain) of
             None \<Rightarrow> None
           | Some c \<Rightarrow>
               (let libName = last_segment (case dict (fc_pathId c) of None \<Rightarrow> [] | Some p \<Rightarrow> p);
                    symbolName = (case Option.bind (fc_symbolsId c) dict of None \<Rightarrow> [] | Some s \<Rightarrow> s)
                in Some \<lparr>fa_sample = x\<lparr>fs_ts := 0\<rparr>, fa_libId = fc_pathId c, fa_symbolId = fc_symbolsId c, fa_libName = libName,
                     fa_symbolName = (if symbolName = [] then fc_ip c @ js '' ('' @ libName @ js '')'' else symbolName)\<rparr>)))"

definition fileSystemAnalysis :: "data_dict \<Rightarrow> (int \<times> FileCallChain list) list \<Rightarrow> int \<Rightarrow> FileSample list \<Rightarrow> FileAnalysisSample list" where
  "fileSystemAnalysis dict m ty samplesList = List.map_filter (analyse_sample dict m ty) samplesList"

lemma chain_rows:
  "map_of (initCallChainTopDown rows []) i = (if filter (\<lambda>c. fc_callChainId c = i) rows = [] then None else Some (filter (\<lambda>c. fc_callChainId c = i) rows))"
proof -
  have "fold (\<lambda>c l. l @ [c]) cs l = l @ cs" for cs l :: "FileCallChain list" by (induction cs arbitrary: l) simp_all
  then have "merged (\<lambda>c. [c]) (\<lambda>c l. l @ [c]) cs = (if cs = [] then None else Some cs)" for cs :: "FileCallChain list" by (cases cs) simp_all
  moreover have "initCallChainTopDown rows [] = group_all fc_callChainId (\<lambda>c. [c]) (\<lambda>c l. l @ [c]) rows"
    by (simp add: initCallChainTopDown_def group_all_def)
  ultimately show ?thesis by (simp add: group_all_lookup)
qed

lemma last_frame_find:
  "k \<le> length chain \<Longrightarrow> last_frame dict ty chain k = List.find (\<lambda>c. \<not> skip_frame dict ty c) (rev (take k chain))"
  by (induction k) (simp_all add: take_Suc_conv_app_nth)

lemma map_map_filter: "map g (List.map_filter f xs) = List.map_filter (\<lambda>x. map_option g (f x)) xs"
  by (induction xs) (simp_all add: map_filter_simps split: option.split)

lemma analyse_sample_frame:
  "map_option (\<lambda>a. (fa_sample a, fa_libId a, fa_symbolId a)) (analyse_sample dict (initCallChainTopDown rows []) ty x) =
    map_option (\<lambda>c. (x\<lparr>fs_ts := 0\<rparr>, fc_pathId c, fc_symbolsId c))
      (List.find (\<lambda>c. \<not> skip_frame dict ty c) (rev (filter (\<lambda>c. fc_callChainId c = fs_callChainId x) rows)))"
  by (auto simp: analyse_sample_def chain_rows last_frame_find Let_def split: option.split)

text \<open>The analysis keeps, in their order, exactly the samples that have a frame outside of the libraries it passes over, and attributes each to the
  last such frame of its call chain as the database lists it.\<close>

theorem fileSystemAnalysis_frames:
  "map (\<lambda>a. (fa_sample a, fa_libId a, fa_symbolId a)) (fileSystemAnalysis dict (initCallChainTopDown rows []) ty xs) =
     List.map_filter (\<lambda>x. map_option (\<lambda>c. (x\<lparr>fs_ts := 0\<rparr>, fc_pathId c, fc_symbolsId c))
       (List.find (\<lambda>c. \<not> skip_frame dict ty c) (rev (filter (\<lambda>c. fc_callChainId c = fs_callChainId x) rows)))) xs"
  by (simp only: fileSystemAnalysis_def map_map_filter analyse_sample_frame)

section \<open>The call tree\<close>

definition FILE_TYPE_MAP :: "(jsstring \<times> jsstring) list" where
  "FILE_TYPE_MAP = [(js ''0'', js ''OPEN''), (js ''1'', js ''CLOSE''), (js ''2'', js ''READ''), (js ''3'', js ''WRITE'')]"

definition DISKIO_TYPE_MAP :: "(jsstring \<times> jsstring) list" where
  "DISKIO_TYPE_MAP = [(js ''1'', js ''DATA_READ''), (js ''2'', js ''DATA_WRITE''), (js ''3'', js ''METADATA_READ''), (js ''4'', js ''METADATA_WRITE''),
     (js ''5'', js ''PAGE_IN''), (js ''6'', js ''PAGE_OUT'')]"

definition VM_TYPE_MAP :: "(jsstring \<times> jsstring) list" where
  "VM_TYPE_MAP = [(js ''1'', js ''File Backed In''), (js ''2'', js ''Page Cache Hit''), (js ''3'', js ''Swap From Zram''), (js ''4'', js ''Swap From Disk''),
     (js ''5'', js ''Zero Fill Page''), (js ''6'', js ''Zero FAKE Page''), (js ''7'', js ''Copy On Write'')]"

datatype FileDataType = D_fileSystem | D_io | D_virtualMemory | D_none

definition type_map :: "FileDataType \<Rightarrow> (jsstring \<times> jsstring) list" where
  "type_map t = (case t of D_fileSystem \<Rightarrow> FILE_TYPE_MAP | D_io \<Rightarrow> DISKIO_TYPE_MAP | D_virtualMemory \<Rightarrow> VM_TYPE_MAP | D_none \<Rightarrow> [])"

definition createThreadAndType :: "FileDataType \<Rightarrow> (int \<times> FileCallChain list) list \<Rightarrow> FileSample \<Rightarrow> FileCallChain list" where
  "createThreadAndType ty m x =
     \<lparr>fc_callChainId = fs_callChainId x, fc_symbolsId = Some (fs_type x), fc_pathId = - 1,
      fc_ip = (case map_of (type_map ty) (js_num (fs_type x)) of None \<Rightarrow> js ''UNKNOWN'' | Some s \<Rightarrow> s)\<rparr>
     # \<lparr>fc_callChainId = fs_callChainId x, fc_symbolsId = Some (fs_tid x), fc_pathId = - 1,
        fc_ip = (case fs_threadName x of None \<Rightarrow> js ''Thread'' | Some s \<Rightarrow> if s = [] then js ''Thread'' else s) @ js ''-'' @ js_num (fs_tid x)\<rparr>
     # (case map_of m (fs_callChainId x) of None \<Rightarrow> [] | Some l \<Rightarrow> l)"

record FileBean =
  fb_index :: nat
  fb_ip :: jsstring
  fb_symbolsId :: "int option"
  fb_pathId :: int
  fb_processName :: jsstring
  fb_pid :: int
  fb_selfDur :: int
  fb_dur :: int
  fb_count :: int
  fb_tsArray :: "int list"
  fb_durArray :: "int list"

type_synonym FileTree = "FileBean CallTree"

definition newFileBean :: "nat \<Rightarrow> FileBean" where
  "newFileBean n = \<lparr>fb_index = n, fb_ip = [], fb_symbolsId = Some 0, fb_pathId = 0, fb_processName = [], fb_pid = 0, fb_selfDur = 0, fb_dur = 0,
     fb_count = 0, fb_tsArray = [], fb_durArray = []\<rparr>"

definition merageCallChainSample :: "FileBean \<Rightarrow> FileCallChain \<Rightarrow> FileSample \<Rightarrow> bool \<Rightarrow> FileBean" where
  "merageCallChainSample b c x isEnd =
     (let b1 = (if fb_processName b = []
                then b\<lparr>fb_ip := fc_ip c, fb_pid := fs_pid x, fb_pathId := fc_pathId c, fb_symbolsId := fc_symbolsId c,
                     fb_processName := (case fs_processName x of None \<Rightarrow> js ''Process('' @ js_num (fs_pid x) @ js '')''
                       | Some s \<Rightarrow> if s = [] then js ''Process('' @ js_num (fs_pid x) @ js '')'' else s)\<rparr>
                else b);
          b2 = (if isEnd then b1\<lparr>fb_selfDur := fb_selfDur b1 + fs_dur x\<rparr> else b1)
      in b2\<lparr>fb_dur := fb_dur b2 + fs_dur x, fb_count := fb_count b2 + 1, fb_tsArray := fb_tsArray b2 @ [fs_ts x], fb_durArray := fb_durArray b2 @ [fs_dur x]\<rparr>)"

definition bean_is :: "FileBean \<Rightarrow> FileCallChain \<Rightarrow> bool" where
  "bean_is b c \<longleftrightarrow> fb_ip b = fc_ip c \<or> (fb_symbolsId b \<noteq> None \<and> fb_symbolsId b = fc_symbolsId c \<and> fb_pathId b = fc_pathId c)"

definition merageChildrenByIndex :: "FileSample \<Rightarrow> FileCallChain list \<Rightarrow> FileTree list \<Rightarrow> nat \<Rightarrow> FileTree list \<times> nat" where
  "merageChildrenByIndex = merge_chain bean_is newFileBean merageCallChainSample"

text \<open>The key of a root: the three numbers are written without a separator.\<close>

definition root_key :: "FileCallChain \<Rightarrow> FileSample \<Rightarrow> jsstring" where
  "root_key c x = (case fc_symbolsId c of None \<Rightarrow> js ''null'' | Some i \<Rightarrow> js_num i) @ js_num (fc_pathId c) @ js_num (fs_pid x)"

text \<open>The call chain of a sample in the order of the walk; a sample without frames of its own is left out.\<close>

definition file_entries :: "FileDataType \<Rightarrow> (int \<times> FileCallChain list) list \<Rightarrow> bool \<Rightarrow> FileSample \<Rightarrow> FileCallChain list" where
  "file_entries ty m isTopDown x =
     (let callChains = createThreadAndType ty m x in if length callChains = 2 then [] else if isTopDown then callChains else rev callChains)"

definition tree_step :: "FileDataType \<Rightarrow> (int \<times> FileCallChain list) list \<Rightarrow> bool \<Rightarrow> FileSample \<Rightarrow> (jsstring \<times> FileTree) list \<times> nat \<Rightarrow> (jsstring \<times> FileTree) list \<times> nat" where
  "tree_step ty m isTopDown x = root_step bean_is newFileBean merageCallChainSample root_key x (file_entries ty m isTopDown x)"

text \<open>The processes: a node for every process with the roots below it.\<close>

record FileProcess =
  fp_pid :: int
  fp_symbolName :: jsstring
  fp_dur :: int
  fp_count :: int
  fp_tsArray :: "int list"
  fp_durArray :: "int list"
  fp_children :: "FileTree list"

definition process_new :: "FileTree \<Rightarrow> FileProcess" where
  "process_new t = (let b = ct_bean t in
     \<lparr>fp_pid = fb_pid b, fp_symbolName = fb_processName b, fp_dur = fb_dur b, fp_count = fb_count b, fp_tsArray = fb_tsArray b, fp_durArray = fb_durArray b,
      fp_children = [t]\<rparr>)"

definition process_add :: "FileTree \<Rightarrow> FileProcess \<Rightarrow> FileProcess" where
  "process_add t p = (let b = ct_bean t in
     p\<lparr>fp_children := fp_children p @ [t], fp_dur := fp_dur p + fb_dur b, fp_count := fp_count p + fb_count b,
       fp_tsArray := fp_tsArray p @ fb_tsArray b, fp_durArray := fp_durArray p @ fb_durArray b\<rparr>)"

definition rootMerageMap :: "FileTree list \<Rightarrow> (jsstring \<times> FileProcess) list" where
  "rootMerageMap trees = group_all (\<lambda>t. js_num (fb_pid (ct_bean t))) process_new process_add trees"

text \<open>The processes, the number after the last node and the sum that percentages refer to.\<close>

definition freshCurrentCallChains :: "FileDataType \<Rightarrow> (int \<times> FileCallChain list) list \<Rightarrow> FileSample list \<Rightarrow> bool \<Rightarrow> nat \<Rightarrow> FileProcess list \<times> nat \<times> int" where
  "freshCurrentCallChains ty m samples isTopDown start =
     (let (trees, n) = fold (tree_step ty m isTopDown) samples ([], start)
      in (js_object_values (rootMerageMap (js_object_values trees)), n, sum_list (map fs_dur samples)))"

section \<open>Keys\<close>

text \<open>An address belongs to one symbol of one file.\<close>

definition ip_consistent :: "FileCallChain set \<Rightarrow> bool" where
  "ip_consistent C \<longleftrightarrow> (\<forall>c\<in>C. \<forall>d\<in>C. fc_ip c = fc_ip d \<longrightarrow> fc_symbolsId c = fc_symbolsId d \<and> fc_pathId c = fc_pathId d)"

text \<open>Then an entry matches a node exactly when they agree in a key.\<close>

definition chain_key :: "jsstring \<Rightarrow> int option \<Rightarrow> int \<Rightarrow> jsstring + (int \<times> int)" where
  "chain_key ip si path = (case si of None \<Rightarrow> Inl ip | Some i \<Rightarrow> Inr (i, path))"

abbreviation bean_key :: "FileBean \<Rightarrow> jsstring + (int \<times> int)" where
  "bean_key b \<equiv> chain_key (fb_ip b) (fb_symbolsId b) (fb_pathId b)"

abbreviation entry_key :: "FileCallChain \<Rightarrow> jsstring + (int \<times> int)" where
  "entry_key c \<equiv> chain_key (fc_ip c) (fc_symbolsId c) (fc_pathId c)"

definition bean_of :: "FileCallChain set \<Rightarrow> FileBean \<Rightarrow> bool" where
  "bean_of C b \<longleftrightarrow> fb_processName b \<noteq> [] \<and> (\<exists>c\<in>C. fb_ip b = fc_ip c \<and> fb_symbolsId b = fc_symbolsId c \<and> fb_pathId b = fc_pathId c)"

lemma bean_is_key:
  assumes "ip_consistent C" "bean_of C b" "c \<in> C"
  shows "bean_is b c \<longleftrightarrow> bean_key b = entry_key c"
proof -
  obtain d where d: "d \<in> C" "fb_ip b = fc_ip d" "fb_symbolsId b = fc_symbolsId d" "fb_pathId b = fc_pathId d" using assms(2) by (auto simp: bean_of_def)
  have "fc_ip d = fc_ip c \<Longrightarrow> fc_symbolsId d = fc_symbolsId c \<and> fc_pathId d = fc_pathId c" 
    using assms(1) [unfolded ip_consistent_def, rule_format, OF d(1) assms(3)] .
  then show ?thesis by (cases "fc_symbolsId d"; cases "fc_symbolsId c") (auto simp: bean_is_def chain_key_def d)
qed

lemma merage_bean_new: "c \<in> C \<Longrightarrow> bean_of C (merageCallChainSample (newFileBean n) c x e) \<and> bean_key (merageCallChainSample (newFileBean n) c x e) = entry_key c"
  by (auto simp: merageCallChainSample_def newFileBean_def bean_of_def Let_def js_def split: option.split)

lemma merage_bean_old: "bean_of C b \<Longrightarrow> bean_of C (merageCallChainSample b c x e) \<and> bean_key (merageCallChainSample b c x e) = bean_key b"
  by (auto simp: merageCallChainSample_def bean_of_def Let_def)

lemma merage_dur [simp]:
  "fb_dur (merageCallChainSample b c x e) = fb_dur b + fs_dur x" "fb_count (merageCallChainSample b c x e) = fb_count b + 1"
  "fb_selfDur (merageCallChainSample b c x e) = fb_selfDur b + (if e then fs_dur x else 0)"
  by (simp_all add: merageCallChainSample_def Let_def)

interpretation files: timed_tree bean_is newFileBean merageCallChainSample bean_key entry_key ip_consistent bean_of fb_dur fb_selfDur fs_dur
  by unfold_locales (simp_all add: bean_is_key merage_bean_new merage_bean_old, simp_all add: newFileBean_def)

interpretation file_count: weighted_tree bean_is newFileBean merageCallChainSample bean_key entry_key ip_consistent bean_of fb_count "\<lambda>x e. 1"
  by unfold_locales (simp_all add: newFileBean_def)

section \<open>The times of the processes\<close>

text \<open>The samples with a call chain of their own.\<close>

definition has_chain :: "(int \<times> FileCallChain list) list \<Rightarrow> FileSample \<Rightarrow> bool" where
  "has_chain m x \<longleftrightarrow> (case map_of m (fs_callChainId x) of None \<Rightarrow> False | Some l \<Rightarrow> l \<noteq> [])"

lemma chain_length: "length (createThreadAndType ty m x) = 2 \<longleftrightarrow> \<not> has_chain m x"
  by (simp add: createThreadAndType_def has_chain_def split: option.split)

lemma file_entries_simps:
  "file_entries ty m d x = [] \<longleftrightarrow> \<not> has_chain m x" "set (file_entries ty m d x) \<subseteq> set (createThreadAndType ty m x)" "length (file_entries ty m d x) \<noteq> 1"
proof -
  have two: "2 \<le> length (createThreadAndType ty m x)" by (simp add: createThreadAndType_def)
  then have "createThreadAndType ty m x \<noteq> []" by auto
  then show "file_entries ty m d x = [] \<longleftrightarrow> \<not> has_chain m x" using chain_length [of ty m x] by (simp add: file_entries_def Let_def del: length_0_conv)
  show "set (file_entries ty m d x) \<subseteq> set (createThreadAndType ty m x)" "length (file_entries ty m d x) \<noteq> 1" using two by (simp_all add: file_entries_def Let_def)
qed

lemma file_entries_ok: "x \<in> set samples \<Longrightarrow> set (file_entries ty m d x) \<subseteq> (\<Union>x\<in>set samples. set (createThreadAndType ty m x)) \<and> length (file_entries ty m d x) \<noteq> 1"
  using file_entries_simps(2,3) [of ty m d x] by auto

interpretation process_dur: additive_group process_new process_add fp_dur "\<lambda>t. fb_dur (ct_bean t)"
  by unfold_locales (simp_all add: process_new_def process_add_def Let_def)

interpretation process_count: additive_group process_new process_add fp_count "\<lambda>t. fb_count (ct_bean t)"
  by unfold_locales (simp_all add: process_new_def process_add_def Let_def)

text \<open>No time is lost on the way into the call tree: the times of all processes add up to the durations of the samples that have a call chain, and their counts to
  the number of these samples, in either direction of the tree.\<close>

theorem process_times:
  "sum_list (map fp_dur (fst (freshCurrentCallChains ty m samples isTopDown start))) = sum_list (map fs_dur (filter (has_chain m) samples))
   \<and> sum_list (map fp_count (fst (freshCurrentCallChains ty m samples isTopDown start))) = int (length (filter (has_chain m) samples))"
proof -
  let ?trees = "fst (fold (tree_step ty m isTopDown) samples ([], start))"
  have "filter (\<lambda>x. file_entries ty m isTopDown x \<noteq> []) samples = filter (has_chain m) samples" by (simp add: file_entries_simps(1))
  then have "files.tree_dur.roots_total ?trees = sum_list (map fs_dur (filter (has_chain m) samples))"
    "file_count.roots_total ?trees = int (length (filter (has_chain m) samples))"
    using files.tree_dur.forest_total [of root_key "file_entries ty m isTopDown" samples]
      file_count.forest_total [of root_key "file_entries ty m isTopDown" samples]
    unfolding tree_step_def by (simp_all add: sum_list_triv)
  then show ?thesis
    using process_dur.sum_group [of "\<lambda>t. js_num (fb_pid (ct_bean t))" "js_object_values ?trees"]
      process_count.sum_group [of "\<lambda>t. js_num (fb_pid (ct_bean t))" "js_object_values ?trees"]
    by (simp add: freshCurrentCallChains_def case_prod_unfold Let_def rootMerageMap_def sum_js_object_values comp_def)
qed

section \<open>The times in the call tree\<close>

lemma process_children:
  assumes "(k, p) \<in> set (rootMerageMap ts)"
  shows "fp_children p = filter (\<lambda>t. js_num (fb_pid (ct_bean t)) = k) ts"
proof -
  have f: "fp_children (fold process_add us q) = fp_children q @ us" for us q
    by (induction us arbitrary: q) (simp_all add: process_add_def Let_def)
  have "merged process_new process_add (filter (\<lambda>t. js_num (fb_pid (ct_bean t)) = k) ts) = Some p"
    using assms js_map_ok_get [OF group_all_keys(1)] group_all_lookup unfolding rootMerageMap_def by metis
  then show ?thesis by (cases "filter (\<lambda>t. js_num (fb_pid (ct_bean t)) = k) ts") (auto simp: f process_new_def Let_def)
qed

text \<open>When an address always belongs to one symbol, the times of the call tree add up: the time of a process is the times of its roots, and the time of every
  node below is its own time and the times of its children, in either direction of the tree.\<close>

theorem call_tree_balanced:
  assumes "ip_consistent (\<Union>x\<in>set samples. set (createThreadAndType ty m x))"
  shows "list_all (\<lambda>p. fp_dur p = kids_sum fb_dur (fp_children p) \<and> list_all (tree_balanced fb_dur fb_selfDur) (fp_children p)) (fst (freshCurrentCallChains ty m samples isTopDown start))"
proof -
  let ?m = "fst (fold (tree_step ty m isTopDown) samples ([], start))"
  have "files.forest_balanced (\<Union>x\<in>set samples. set (createThreadAndType ty m x)) ?m"
    unfolding tree_step_def by (rule files.forest_balanced [OF assms]) (intro ballI file_entries_ok)
  then have bal: "\<forall>t\<in>set (js_object_values ?m). tree_balanced fb_dur fb_selfDur t"
    by (auto simp: set_js_object_values files.forest_balanced_def simp del: tree_balanced.simps)
  have "fp_dur p = kids_sum fb_dur (fp_children p) \<and> list_all (tree_balanced fb_dur fb_selfDur) (fp_children p)"
    if p: "(k, p) \<in> set (rootMerageMap (js_object_values ?m))" for k p
  proof -
    have "fp_dur p = kids_sum fb_dur (filter (\<lambda>t. js_num (fb_pid (ct_bean t)) = k) (js_object_values ?m))"
      by (rule process_dur.total_group [OF p [unfolded rootMerageMap_def]])
    then show ?thesis using bal unfolding process_children [OF p] by (simp add: list_all_iff)
  qed
  then show ?thesis by (auto simp: freshCurrentCallChains_def case_prod_unfold Let_def list_all_iff set_js_object_values)
qed

text \<open>Under the same condition the call tree is described path by path. The tree of a root key is there exactly when samples lead to it. Below it, a path of keys
  leads to a node exactly when the call chains of some of these samples go along it, and the node holds the times of these samples and, as its own time, of those whose
  call chain ends there.\<close>

theorem call_tree_rows:
  fixes isTopDown :: bool and r :: jsstring
  assumes "ip_consistent (\<Union>x\<in>set samples. set (createThreadAndType ty m x))"
  defines "ys \<equiv> rooted root_key (file_entries ty m isTopDown) r samples"
    and "on \<equiv> passing entry_key (file_entries ty m isTopDown)"
  shows "case map_of (fst (fold (tree_step ty m isTopDown) samples ([], start))) r of
     None \<Rightarrow> ys = []
   | Some t \<Rightarrow> ys \<noteq> [] \<and> fb_dur (ct_bean t) = sum_list (map fs_dur ys) \<and> (\<forall>k q. let p = k # q in
       case tree_at bean_key p (ct_kids t) of
         None \<Rightarrow> on p ys = []
       | Some b \<Rightarrow> on p ys \<noteq> [] \<and> fb_dur b = sum_list (map fs_dur (on p ys))
           \<and> fb_selfDur b = sum_list (map (\<lambda>x. if map entry_key (tl (file_entries ty m isTopDown x)) = p then fs_dur x else 0) (on p ys)))"
proof -
  let ?C = "\<Union>x\<in>set samples. set (createThreadAndType ty m x)" and ?e = "file_entries ty m isTopDown"
  have sub: "\<forall>x\<in>set samples. set (?e x) \<subseteq> ?C" by (intro ballI) (rule conjunct1 [OF file_entries_ok])
  have run: "tree_step ty m isTopDown = (\<lambda>x. root_step bean_is newFileBean merageCallChainSample root_key x (?e x))"
    by (rule ext) (simp add: tree_step_def)
  show ?thesis unfolding run ys_def on_def by (rule files.forest_rows [OF assms(1) sub])
qed

section \<open>Concrete instances\<close>

definition demo_sample_of :: "int \<Rightarrow> int \<Rightarrow> FileSample" where
  "demo_sample_of pid chain = \<lparr>fs_type = 2, fs_callChainId = chain, fs_dur = 5, fs_pid = pid, fs_tid = 9, fs_threadName = None, fs_processName = None, fs_ts = 0\<rparr>"

definition demo_entry :: "int \<Rightarrow> int \<Rightarrow> int \<Rightarrow> string \<Rightarrow> FileCallChain" where
  "demo_entry chain si path ip = \<lparr>fc_callChainId = chain, fc_symbolsId = Some si, fc_pathId = path, fc_ip = js ip\<rparr>"

theorem call_tree_balanced_witness:
  "list_all (\<lambda>p. fp_dur p = kids_sum fb_dur (fp_children p) \<and> list_all (tree_balanced fb_dur fb_selfDur) (fp_children p))
     (fst (freshCurrentCallChains D_fileSystem [(1, [demo_entry 1 5 6 ''0x1''])] [demo_sample_of 3 1] True 0))"
  by (rule call_tree_balanced)
    (auto simp: ip_consistent_def createThreadAndType_def demo_sample_of_def demo_entry_def type_map_def FILE_TYPE_MAP_def js_num_def nat_digits.simps js_def)

theorem call_tree_rows_witness:
  "fb_dur (ct_bean (the (map_of (fst (fold (tree_step D_fileSystem [(1, [demo_entry 1 5 6 ''0x1''])] True) [demo_sample_of 3 1] ([], 0)))
     (root_key (hd (createThreadAndType D_fileSystem [] (demo_sample_of 3 1))) (demo_sample_of 3 1))))) = 5"
proof -
  let ?m = "[(1, [demo_entry 1 5 6 ''0x1''])]" and ?r = "root_key (hd (createThreadAndType D_fileSystem [] (demo_sample_of 3 1))) (demo_sample_of 3 1)"
  have "ip_consistent (\<Union>x\<in>set [demo_sample_of 3 1]. set (createThreadAndType D_fileSystem ?m x))"
    by (auto simp: ip_consistent_def createThreadAndType_def demo_sample_of_def demo_entry_def type_map_def FILE_TYPE_MAP_def js_num_def nat_digits.simps js_def)
  note rows = call_tree_rows [OF this, where isTopDown = True and start = 0 and r = ?r]
  have ids: "fs_callChainId (demo_sample_of 3 1) = 1" "fs_dur (demo_sample_of 3 1) = 5" by (simp_all add: demo_sample_of_def)
  then have ys: "rooted root_key (file_entries D_fileSystem ?m True) ?r [demo_sample_of 3 1] = [demo_sample_of 3 1]"
    by (simp add: rooted_def file_entries_def createThreadAndType_def root_key_def)
  show ?thesis using rows ids(2) unfolding ys
    by (cases "map_of (fst (fold (tree_step D_fileSystem ?m True) [demo_sample_of 3 1] ([], 0))) ?r") simp_all
qed

text \<open>In the bottom-up tree the roots of different processes are merged when their numbers, written one after the other, give the same text: a sample of
  process 23 in symbol 1 of file 1 and one of process 3 in symbol 1 of file 12 make one root, and the second process is missing.\<close>

theorem root_keys_collide:
  "map (\<lambda>p. (fp_pid p, fp_dur p)) (fst (freshCurrentCallChains D_fileSystem [(1, [demo_entry 1 1 1 ''0x1'']), (2, [demo_entry 2 1 12 ''0x2''])]
     [demo_sample_of 23 1, demo_sample_of 3 2] False 0)) = [(23, 10)]"
proof -
  let ?m = "[(1, [demo_entry 1 1 1 ''0x1'']), (2, [demo_entry 2 1 12 ''0x2''])]"
  have single: "js_object_values [(k, v)] = [v]" for k and v :: 'v by (simp add: js_object_values_def)
  have key: "root_key (demo_entry 2 1 12 ''0x2'') (demo_sample_of 3 2) = root_key (demo_entry 1 1 1 ''0x1'') (demo_sample_of 23 1)"
    by (simp add: root_key_def demo_entry_def demo_sample_of_def js_num_def nat_digits.simps)
  obtain kids n' where k: "merageChildrenByIndex (demo_sample_of 23 1) (tl (rev (createThreadAndType D_fileSystem ?m (demo_sample_of 23 1)))) [] (Suc 0) = (kids, n')" by fastforce
  obtain kids2 n2 where k2: "merageChildrenByIndex (demo_sample_of 3 2) (tl (rev (createThreadAndType D_fileSystem ?m (demo_sample_of 3 2)))) kids n' = (kids2, n2)" by fastforce
  define b where "b = merageCallChainSample (newFileBean 0) (demo_entry 1 1 1 ''0x1'') (demo_sample_of 23 1) False"
  define b2 where "b2 = merageCallChainSample b (demo_entry 2 1 12 ''0x2'') (demo_sample_of 3 2) False"
  let ?k = "root_key (demo_entry 1 1 1 ''0x1'') (demo_sample_of 23 1)"
  have id: "fs_callChainId (demo_sample_of p c) = c" for p c by (simp add: demo_sample_of_def)
  have l: "rev (createThreadAndType D_fileSystem ?m (demo_sample_of 23 1)) = demo_entry 1 1 1 ''0x1'' # tl (rev (createThreadAndType D_fileSystem ?m (demo_sample_of 23 1)))"
    "rev (createThreadAndType D_fileSystem ?m (demo_sample_of 3 2)) = demo_entry 2 1 12 ''0x2'' # tl (rev (createThreadAndType D_fileSystem ?m (demo_sample_of 3 2)))"
    "length (createThreadAndType D_fileSystem ?m (demo_sample_of 23 1)) = 3" "length (createThreadAndType D_fileSystem ?m (demo_sample_of 3 2)) = 3"
    by (simp_all add: createThreadAndType_def id)
  have e: "file_entries D_fileSystem ?m False (demo_sample_of 23 1) = demo_entry 1 1 1 ''0x1'' # tl (rev (createThreadAndType D_fileSystem ?m (demo_sample_of 23 1)))"
    "file_entries D_fileSystem ?m False (demo_sample_of 3 2) = demo_entry 2 1 12 ''0x2'' # tl (rev (createThreadAndType D_fileSystem ?m (demo_sample_of 3 2)))"
    using l by (simp_all add: file_entries_def Let_def)
  have s1: "tree_step D_fileSystem ?m False (demo_sample_of 23 1) ([], 0) = ([(?k, CallTree b kids)], n')"
    using k by (simp add: tree_step_def e(1) root_step_def merageChildrenByIndex_def b_def)
  have s2: "tree_step D_fileSystem ?m False (demo_sample_of 3 2) ([(?k, CallTree b kids)], n') = ([(?k, CallTree b2 kids2)], n2)"
    using k2 by (simp add: tree_step_def e(2) root_step_def merageChildrenByIndex_def b2_def key)
  have "fb_pid b2 = 23" "fb_dur b2 = 10" by (simp_all add: b_def b2_def merageCallChainSample_def newFileBean_def demo_sample_of_def Let_def js_num_nonempty)
  then show ?thesis
    by (simp add: freshCurrentCallChains_def s1 s2 single rootMerageMap_def group_all_def group_step_def process_new_def Let_def)
qed

end
