(* ===== verification/Native_Tree.thy ===== *)
theory Native_Tree
  imports Logic_Search Logic_FileSystem
begin

text \<open>
  The native memory worker: the samples of a selection and their call tree
  (\<open>trace/database/logic-worker/ProcedureLogicWorkerNativeNemory.ts\<close>).

  \<open>null\<close> and \<open>undefined\<close> fields are options; an array that is \<open>undefined\<close> or empty is the empty list. A row of a recorded trace has no count. The texts of the
  types are those of numbers and are represented by these, but for the type of allocation, which is compared with literals.
  Frames from the database have no \<open>AllocationFunction\<close>, so the test for an empty symbol holds for every merge: names are set after the tree is built.
\<close>

section \<open>Data\<close>

record HeapTreeDataBean =
  ht_eventId :: int
  ht_symbolId :: int
  ht_fileId :: int
  ht_depth :: int
  ht_addr :: jsstring

type_synonym frame_map = "(int \<times> HeapTreeDataBean list) list"

definition initNMStack :: "HeapTreeDataBean list \<Rightarrow> frame_map \<Rightarrow> frame_map" where
  "initNMStack frameArr m = fold (group_step ht_eventId (\<lambda>f. [f]) (\<lambda>f l. l @ [f])) frameArr m"

record NativeHookStatistics =
  nh_id :: int
  nh_eventId :: int
  nh_eventType :: jsstring
  nh_subType :: jsstring
  nh_subTypeId :: "int option"
  nh_heapSize :: int
  nh_freeSize :: int
  nh_addr :: jsstring
  nh_startTs :: int
  nh_endTs :: "int option"
  nh_count :: "int option"
  nh_freeCount :: int
  nh_tid :: int
  nh_threadName :: jsstring
  nh_lastLibId :: int
  nh_lastSymbolId :: int
  nh_tsArray :: "int list"
  nh_countArray :: "int option list"

definition count_or_1 :: "int option \<Rightarrow> int" where
  "count_or_1 c = (case c of None \<Rightarrow> 1 | Some n \<Rightarrow> if n = 0 then 1 else n)"

section \<open>Filters\<close>

datatype MemoryTap = TapName jsstring | TapId int | TapNone

record StatisticsSelection =
  ss_memoryTap :: MemoryTap
  ss_max :: "int option"

text \<open>The types of a sample or row that the filter reads.\<close>

record TypeInfo =
  ti_eventType :: jsstring
  ti_heapSize :: int
  ti_subType :: jsstring
  ti_subTypeId :: "int option"

definition AllocEvent :: jsstring where "AllocEvent = js ''AllocEvent''"
definition MmapEvent :: jsstring where "MmapEvent = js ''MmapEvent''"

text \<open>A number has no method \<open>indexOf\<close>.\<close>

definition selection_matches :: "StatisticsSelection \<Rightarrow> TypeInfo \<Rightarrow> bool result" where
  "selection_matches sel item =
     (case (ss_memoryTap sel, ss_max sel) of
        (TapName nm, Some mx) \<Rightarrow>
          Inr (if js_includes nm (js ''Malloc'') then ti_eventType item = AllocEvent \<and> ti_heapSize item = mx
               else if js_includes nm (js ''Mmap'') then ti_eventType item = MmapEvent \<and> ti_heapSize item = mx \<and> ti_subTypeId item = None
               else ti_subType item = nm)
      | (TapId i, Some mx) \<Rightarrow> Inl TypeError
      | (TapId i, None) \<Rightarrow> Inr (ti_subTypeId item = Some i)
      | _ \<Rightarrow> Inr False)"

definition getTypeFromIndex :: "int \<Rightarrow> TypeInfo \<Rightarrow> StatisticsSelection list \<Rightarrow> bool result" where
  "getTypeFromIndex i item sels =
     (if i = - 1 then Inr False
      else if i < 3 then Inr (if i = 0 then True else if i = 1 then ti_eventType item = AllocEvent else if i = 2 then ti_eventType item = MmapEvent else False)
      else if i - 3 < int (length sels) then selection_matches (sels ! nat (i - 3)) item
      else Inr False)"

definition sample_type_info :: "NativeHookStatistics \<Rightarrow> TypeInfo" where
  "sample_type_info x = \<lparr>ti_eventType = nh_eventType x, ti_heapSize = nh_heapSize x, ti_subType = nh_subType x, ti_subTypeId = nh_subTypeId x\<rparr>"

text \<open>The expression: libraries with their functions, to keep and to leave out.\<close>

record NativeMemoryExpression =
  nx_includeLib :: "(jsstring \<times> jsstring list) list"
  nx_abandonLib :: "(jsstring \<times> jsstring list) list"

definition lib_matches :: "(jsstring \<Rightarrow> jsstring) \<Rightarrow> jsstring \<Rightarrow> jsstring \<Rightarrow> bool" where
  "lib_matches tolower libName lib \<longleftrightarrow> js_includes (tolower libName) (tolower lib) \<or> lib = js ''*''"

fun isMatch :: "(jsstring \<Rightarrow> jsstring) \<Rightarrow> jsstring \<Rightarrow> jsstring \<Rightarrow> (jsstring \<times> jsstring list) list \<Rightarrow> bool \<Rightarrow> bool" where
  "isMatch tolower libName symbolName [] match = match"
| "isMatch tolower libName symbolName ((lib, symbols) # rest) match =
     (if \<not> lib_matches tolower libName lib then isMatch tolower libName symbolName rest match
      else if js ''*'' \<in> set symbols then True
      else let match1 = (match \<or> list_ex (\<lambda>symbol. js_includes (tolower symbolName) (tolower symbol)) symbols)
           in if match1 then True else isMatch tolower libName symbolName rest False)"

definition filterExpressionSample :: "(jsstring \<Rightarrow> jsstring) \<Rightarrow> data_dict \<Rightarrow> NativeHookStatistics \<Rightarrow> NativeMemoryExpression \<Rightarrow> bool" where
  "filterExpressionSample tolower dict x expr =
     (case (dict (nh_lastLibId x), dict (nh_lastSymbolId x)) of
        (Some libName, Some symbolName) \<Rightarrow>
          if libName = [] \<or> symbolName = [] then False
          else (let includeMatch = isMatch tolower libName symbolName (nx_includeLib expr) (nx_includeLib expr = []) in
                if nx_abandonLib expr = [] then includeMatch
                else includeMatch \<and> \<not> isMatch tolower libName symbolName (nx_abandonLib expr) False)
      | _ \<Rightarrow> False)"

text \<open>What an expression means: some entry has a library that is part of the name of the sample's library, or the star, and a function likewise.\<close>

definition expr_matches :: "(jsstring \<Rightarrow> jsstring) \<Rightarrow> jsstring \<Rightarrow> jsstring \<Rightarrow> (jsstring \<times> jsstring list) list \<Rightarrow> bool" where
  "expr_matches tolower libName symbolName libs \<longleftrightarrow>
     (\<exists>(lib, symbols)\<in>set libs. lib_matches tolower libName lib \<and> (\<exists>symbol\<in>set symbols. symbol = js ''*'' \<or> js_includes (tolower symbolName) (tolower symbol)))"

lemma isMatch_False: "isMatch tolower libName symbolName libs False \<longleftrightarrow> expr_matches tolower libName symbolName libs"
proof (induction libs)
  case (Cons e libs)
  obtain lib symbols where e: "e = (lib, symbols)" by (cases e)
  show ?case using Cons by (auto simp: e expr_matches_def Let_def list_ex_iff)
qed (simp add: expr_matches_def)

text \<open>A filter expression keeps exactly the samples whose library and function have names, which match an entry to keep, when there are any, and no entry to leave out.\<close>

theorem filterExpressionSample_iff:
  "filterExpressionSample tolower dict x expr \<longleftrightarrow>
   (\<exists>libName symbolName. dict (nh_lastLibId x) = Some libName \<and> dict (nh_lastSymbolId x) = Some symbolName \<and> libName \<noteq> [] \<and> symbolName \<noteq> []
     \<and> (nx_includeLib expr = [] \<or> expr_matches tolower libName symbolName (nx_includeLib expr)) \<and> \<not> expr_matches tolower libName symbolName (nx_abandonLib expr))"
proof (cases "nx_includeLib expr = []")
  case True
  then show ?thesis by (auto simp: filterExpressionSample_def isMatch_False Let_def split: option.splits) (simp_all add: expr_matches_def)
next
  case False
  then show ?thesis by (auto simp: filterExpressionSample_def isMatch_False Let_def split: option.splits) (simp_all add: expr_matches_def)
qed

section \<open>Grouping the samples of a selection\<close>

record NmParams =
  np_allocType :: jsstring
  np_eventType :: int
  np_responseType :: int
  np_expression :: "NativeMemoryExpression option"
  np_leftNs :: int
  np_rightNs :: int
  np_nativeHookType :: jsstring
  np_selection :: "StatisticsSelection list"

definition recorded :: "NmParams \<Rightarrow> bool" where
  "recorded p \<longleftrightarrow> np_nativeHookType p = js ''native-hook''"

definition end_unset :: "int option \<Rightarrow> bool" where
  "end_unset e \<longleftrightarrow> e = None \<or> e = Some 0"

definition alloc_filter :: "NmParams \<Rightarrow> NativeHookStatistics \<Rightarrow> bool" where
  "alloc_filter p x =
     (let inside = (np_leftNs p \<le> nh_startTs x \<and> nh_startTs x \<le> np_rightNs p) in
      if recorded p
      then (if np_allocType p = js ''1'' then inside \<and> (end_unset (nh_endTs x) \<or> the (nh_endTs x) > np_rightNs p)
            else if np_allocType p = js ''2'' then inside \<and> \<not> end_unset (nh_endTs x) \<and> the (nh_endTs x) \<le> np_rightNs p
            else True)
      else (if np_allocType p = js ''1'' then nh_heapSize x > nh_freeSize x
            else if np_allocType p = js ''2'' then nh_heapSize x = nh_freeSize x
            else True))"

definition keep_sample :: "(jsstring \<Rightarrow> jsstring) \<Rightarrow> data_dict \<Rightarrow> NmParams \<Rightarrow> NativeHookStatistics \<Rightarrow> bool result" where
  "keep_sample tolower dict p x =
     (let lib = (case np_expression p of Some expr \<Rightarrow> filterExpressionSample tolower dict x expr | None \<Rightarrow> np_responseType p = - 1 \<or> np_responseType p = nh_lastLibId x)
      in bindr (getTypeFromIndex (np_eventType p) (sample_type_info x) (np_selection p)) (\<lambda>native. Inr (alloc_filter p x \<and> native \<and> lib)))"

fun filter_r :: "('a \<Rightarrow> bool result) \<Rightarrow> 'a list \<Rightarrow> 'a list result" where
  "filter_r P [] = Inr []"
| "filter_r P (x # xs) = bindr (P x) (\<lambda>b. bindr (filter_r P xs) (\<lambda>ys. Inr (if b then x # ys else ys)))"

lemma filter_r_sub: "filter_r P xs = Inr ys \<Longrightarrow> set ys \<subseteq> set xs"
  by (induction xs arbitrary: ys) (auto simp: bindr_eq_Inr_iff split: if_splits)

definition group_key :: "NativeHookStatistics \<Rightarrow> jsstring" where
  "group_key x = js_num (nh_tid x) @ js ''-'' @ js_num (nh_eventId x)"

text \<open>A new object, and what a sample does to an object whose count is zero or not. Rows have no arrays; a row without a count leaves the zero.\<close>

definition blank_sample :: NativeHookStatistics where
  "blank_sample = \<lparr>nh_id = 0, nh_eventId = 0, nh_eventType = [], nh_subType = [], nh_subTypeId = Some 0, nh_heapSize = 0, nh_freeSize = 0, nh_addr = [], nh_startTs = 0, nh_endTs = Some 0,
     nh_count = Some 0, nh_freeCount = 0, nh_tid = 0, nh_threadName = [], nh_lastLibId = 0, nh_lastSymbolId = 0, nh_tsArray = [], nh_countArray = []\<rparr>"

definition group_apply :: "NmParams \<Rightarrow> NativeHookStatistics \<Rightarrow> NativeHookStatistics \<Rightarrow> NativeHookStatistics" where
  "group_apply p x y =
     (if nh_count y = Some 0
      then (let a = x\<lparr>nh_count := (case nh_count x of None \<Rightarrow> Some 0 | Some c \<Rightarrow> Some c), nh_tsArray := nh_tsArray y, nh_countArray := nh_countArray y\<rparr>;
                b = (if np_allocType p = js ''1'' \<and> \<not> recorded p
                     then a\<lparr>nh_heapSize := nh_heapSize x - nh_freeSize x, nh_count := map_option (\<lambda>c. c - nh_freeCount x) (nh_count x)\<rparr> else a)
            in if nh_count b = Some 0
               then b\<lparr>nh_count := Some 1, nh_countArray := nh_countArray b @ [Some 1], nh_tsArray := nh_tsArray b @ [nh_startTs x]\<rparr> else b)
      else y\<lparr>nh_count := map_option (\<lambda>c. c + 1) (nh_count y), nh_heapSize := nh_heapSize y + nh_heapSize x,
             nh_countArray := nh_countArray y @ [Some 1], nh_tsArray := nh_tsArray y @ [nh_startTs x]\<rparr>)"

definition group_samples :: "NmParams \<Rightarrow> NativeHookStatistics list \<Rightarrow> (jsstring \<times> NativeHookStatistics) list" where
  "group_samples p xs = group_all group_key (\<lambda>x. group_apply p x blank_sample) (group_apply p) xs"

text \<open>The result is \<open>currentSamples\<close>. An expression also takes the search back, when there is a sample to test.\<close>

definition groupCallchainSample :: "(jsstring \<Rightarrow> jsstring) \<Rightarrow> data_dict \<Rightarrow> NmParams \<Rightarrow> NativeHookStatistics list \<Rightarrow> jsstring \<Rightarrow> (NativeHookStatistics list \<times> jsstring) result" where
  "groupCallchainSample tolower dict p samples searchValue =
     (if np_expression p = None \<and> np_allocType p = js ''0'' \<and> np_eventType p = 0 \<and> np_responseType p = - 1 then Inr (samples, searchValue)
      else bindr (filter_r (keep_sample tolower dict p) samples) (\<lambda>kept.
        Inr (js_object_values (group_samples p kept), if np_expression p \<noteq> None \<and> samples \<noteq> [] then [] else searchValue)))"

section \<open>The call tree\<close>

text \<open>\<open>nn_threadName\<close> is the thread of the sample that made the node; it is read for roots only.\<close>

record NativeNode =
  nn_index :: nat
  nn_symbolId :: int
  nn_fileId :: int
  nn_eventId :: int
  nn_eventType :: jsstring
  nn_addr :: jsstring
  nn_tid :: int
  nn_threadName :: "jsstring option"
  nn_count :: int
  nn_heapSize :: int
  nn_countArray :: "int option list"
  nn_tsArray :: "int list"

type_synonym NativeTree = "NativeNode CallTree"

definition newNativeNode :: "nat \<Rightarrow> NativeNode" where
  "newNativeNode n = \<lparr>nn_index = n, nn_symbolId = 0, nn_fileId = 0, nn_eventId = 0, nn_eventType = [], nn_addr = [], nn_tid = 0, nn_threadName = None,
     nn_count = 0, nn_heapSize = 0, nn_countArray = [], nn_tsArray = []\<rparr>"

definition nm_merageCallChainSample :: "NativeNode \<Rightarrow> HeapTreeDataBean \<Rightarrow> NativeHookStatistics \<Rightarrow> bool \<Rightarrow> NativeNode" where
  "nm_merageCallChainSample b c x isEnd =
     b\<lparr>nn_addr := ht_addr c, nn_eventId := nh_eventId x, nn_eventType := nh_eventType x, nn_symbolId := ht_symbolId c, nn_fileId := ht_fileId c, nn_tid := nh_tid x,
       nn_threadName := (case nn_threadName b of None \<Rightarrow> Some (nh_threadName x) | Some t \<Rightarrow> Some t),
       nn_count := nn_count b + count_or_1 (nh_count x),
       nn_countArray := nn_countArray b @ (if nh_countArray x \<noteq> [] then nh_countArray x else [nh_count x]),
       nn_tsArray := nn_tsArray b @ (if nh_tsArray x \<noteq> [] then nh_tsArray x else [nh_startTs x]),
       nn_heapSize := nn_heapSize b + nh_heapSize x\<rparr>"

definition native_matches :: "NativeNode \<Rightarrow> HeapTreeDataBean \<Rightarrow> bool" where
  "native_matches b c \<longleftrightarrow> nn_symbolId b = ht_symbolId c \<and> nn_fileId b = ht_fileId c"

definition id_text :: "int \<Rightarrow> jsstring" where
  "id_text i = (if i = 0 then [] else js_num i)"

definition native_root_key :: "HeapTreeDataBean \<Rightarrow> NativeHookStatistics \<Rightarrow> jsstring" where
  "native_root_key c x = js_num (nh_tid x) @ js ''-'' @ id_text (ht_symbolId c) @ js ''-'' @ id_text (ht_fileId c)"

definition createThreadSample :: "frame_map \<Rightarrow> NativeHookStatistics \<Rightarrow> HeapTreeDataBean list" where
  "createThreadSample m x = (case map_of m (nh_eventId x) of None \<Rightarrow> [] | Some l \<Rightarrow> l)"

definition native_entries :: "frame_map \<Rightarrow> bool \<Rightarrow> NativeHookStatistics \<Rightarrow> HeapTreeDataBean list" where
  "native_entries m isTopDown x = (if nh_eventId x = - 1 then [] else if isTopDown then createThreadSample m x else rev (createThreadSample m x))"

definition native_step :: "frame_map \<Rightarrow> bool \<Rightarrow> NativeHookStatistics \<Rightarrow> (jsstring \<times> NativeTree) list \<times> nat \<Rightarrow> (jsstring \<times> NativeTree) list \<times> nat" where
  "native_step m isTopDown x = root_step native_matches newNativeNode nm_merageCallChainSample native_root_key x (native_entries m isTopDown x)"

text \<open>Below a root: a child of the same function and library is merged with the frame, otherwise a new node is appended.\<close>

definition nm_merageChildrenByIndex :: "NativeHookStatistics \<Rightarrow> HeapTreeDataBean list \<Rightarrow> NativeTree list \<Rightarrow> nat \<Rightarrow> NativeTree list \<times> nat" where
  "nm_merageChildrenByIndex = merge_chain native_matches newNativeNode nm_merageCallChainSample"

record NativeThread =
  nt_tid :: int
  nt_symbolName :: jsstring
  nt_count :: int
  nt_heapSize :: int
  nt_tsArray :: "int list"
  nt_countArray :: "int option list"
  nt_children :: "NativeTree list"

definition or_1 :: "int \<Rightarrow> int" where
  "or_1 n = (if n = 0 then 1 else n)"

definition native_thread_new :: "NativeTree \<Rightarrow> NativeThread" where
  "native_thread_new t = (let b = ct_bean t; nm = (case nn_threadName b of None \<Rightarrow> [] | Some nm \<Rightarrow> nm) in
     \<lparr>nt_tid = nn_tid b, nt_symbolName = (if nm \<noteq> [] then nm else js ''Thread'') @ js '' ['' @ js_num (nn_tid b) @ js '']'', nt_count = or_1 (nn_count b),
      nt_heapSize = nn_heapSize b, nt_tsArray = nn_tsArray b, nt_countArray = nn_countArray b, nt_children = [t]\<rparr>)"

definition native_thread_add :: "NativeTree \<Rightarrow> NativeThread \<Rightarrow> NativeThread" where
  "native_thread_add t th = (let b = ct_bean t in
     th\<lparr>nt_children := nt_children th @ [t], nt_count := nt_count th + or_1 (nn_count b), nt_heapSize := nt_heapSize th + nn_heapSize b,
        nt_countArray := nt_countArray th @ nn_countArray b, nt_tsArray := nt_tsArray th @ nn_tsArray b\<rparr>)"

definition native_threads :: "NativeTree list \<Rightarrow> NativeThread list" where
  "native_threads trees = js_object_values (group_all (\<lambda>t. js_num (nn_tid (ct_bean t))) native_thread_new native_thread_add trees)"

text \<open>The threads, the number after the last node, and the totals that percentages refer to.\<close>

definition nm_freshCurrentCallchains :: "frame_map \<Rightarrow> NativeHookStatistics list \<Rightarrow> bool \<Rightarrow> nat \<Rightarrow> NativeThread list \<times> nat \<times> int \<times> int" where
  "nm_freshCurrentCallchains m samples isTopDown n0 =
     (let (trees, n) = fold (native_step m isTopDown) samples ([], n0); shown = filter (\<lambda>x. nh_eventId x \<noteq> - 1) samples
      in (native_threads (js_object_values trees), n, sum_list (map nh_heapSize shown), sum_list (map (\<lambda>x. count_or_1 (nh_count x)) shown)))"

section \<open>The sizes of a selection\<close>

abbreviation native_frame_key :: "HeapTreeDataBean \<Rightarrow> int \<times> int" where
  "native_frame_key c \<equiv> (ht_symbolId c, ht_fileId c)"

abbreviation native_node_key :: "NativeNode \<Rightarrow> int \<times> int" where
  "native_node_key b \<equiv> (nn_symbolId b, nn_fileId b)"

interpretation native_sizes: weighted_tree native_matches newNativeNode nm_merageCallChainSample native_node_key native_frame_key "\<lambda>C. True" "\<lambda>C b. True" nn_heapSize "\<lambda>x e. nh_heapSize x"
  by unfold_locales (auto simp: native_matches_def newNativeNode_def nm_merageCallChainSample_def)

interpretation native_counts: weighted_tree native_matches newNativeNode nm_merageCallChainSample native_node_key native_frame_key "\<lambda>C. True" "\<lambda>C b. True" nn_count "\<lambda>x e. count_or_1 (nh_count x)"
  by unfold_locales (auto simp: native_matches_def newNativeNode_def nm_merageCallChainSample_def)

interpretation native_numbers: numbered_tree newNativeNode nm_merageCallChainSample nn_index
  by unfold_locales (simp_all add: newNativeNode_def nm_merageCallChainSample_def)

interpretation native_thread_sizes: additive_group native_thread_new native_thread_add nt_heapSize "\<lambda>t. nn_heapSize (ct_bean t)"
  by unfold_locales (simp_all add: native_thread_new_def native_thread_add_def Let_def)

text \<open>A group of a recorded trace: its samples in their order.\<close>

lemma group_of_recorded:
  assumes "recorded p" "\<forall>x\<in>set xs. nh_count x = None" "merged (\<lambda>x. group_apply p x blank_sample) (group_apply p) xs = Some v"
  shows "nh_count v = Some (int (length xs)) \<and> nh_heapSize v = sum_list (map nh_heapSize xs) \<and> nh_tsArray v = map nh_startTs xs
    \<and> nh_countArray v = replicate (length xs) (Some 1) \<and> nh_tid v = nh_tid (hd xs) \<and> nh_eventId v = nh_eventId (hd xs)"
  using assms(2,3)
proof (induction xs arbitrary: v rule: rev_induct)
  case (snoc x xs)
  show ?case
  proof (cases "merged (\<lambda>x. group_apply p x blank_sample) (group_apply p) xs")
    case None
    then have "xs = []" by (cases xs) simp_all
    then show ?thesis using snoc.prems assms(1) by (auto simp: group_apply_def blank_sample_def Let_def)
  next
    case (Some u)
    then have "xs \<noteq> []" by (cases xs) simp_all
    moreover have "v = group_apply p x u" using snoc.prems(2) Some by (simp add: merged_snoc)
    ultimately show ?thesis using snoc.IH [OF _ Some] snoc.prems(1) by (simp add: group_apply_def replicate_append_same)
  qed
qed simp

lemma group_key_eq: "0 \<le> nh_tid x \<Longrightarrow> 0 \<le> nh_tid y \<Longrightarrow> group_key x = group_key y \<longleftrightarrow> nh_tid x = nh_tid y \<and> nh_eventId x = nh_eventId y"
proof -
  assume nn: "0 \<le> nh_tid x" "0 \<le> nh_tid y"
  have dash: "(45 :: cunit) \<notin> set (js_num n)" if "0 \<le> n" for n
    using that digits_ok(1) [of "nat n"] by (auto simp: js_num_def list_all_iff is_digit_def)
  have "group_key z = js_num (nh_tid z) @ 45 # js_num (nh_eventId z)" for z by (simp add: group_key_def js_def)
  then show ?thesis using append_sep_eq [OF dash [OF nn(1)] dash [OF nn(2)]] by (simp add: js_num_eq_iff)
qed

text \<open>A quantity of the groups that adds up the samples also adds them up over the groups of chosen call chains.\<close>

lemma group_sums:
  fixes f :: "NativeHookStatistics \<Rightarrow> int"
  assumes p: "recorded p" "\<forall>x\<in>set kept. nh_count x = None \<and> 0 \<le> nh_tid x"
    and Q: "\<And>x y. nh_tid x = nh_tid y \<Longrightarrow> nh_eventId x = nh_eventId y \<Longrightarrow> Q x = Q y"
    and f: "\<And>xs v. \<forall>x\<in>set xs. nh_count x = None \<Longrightarrow> merged (\<lambda>x. group_apply p x blank_sample) (group_apply p) xs = Some v \<Longrightarrow> f v = sum_list (map w xs)"
  shows "sum_list (map f (filter Q (js_object_values (group_samples p kept)))) = sum_list (map w (filter Q kept))"
proof -
  let ?m = "group_samples p kept" and ?g = "\<lambda>x. if Q x then w x else 0"
  have each: "(if Q v then f v else 0) = sum_list (map ?g (filter (\<lambda>x. group_key x = k) kept))" if kv: "(k, v) \<in> set ?m" for k v
  proof -
    let ?xs = "filter (\<lambda>x. group_key x = k) kept"
    have v: "merged (\<lambda>x. group_apply p x blank_sample) (group_apply p) ?xs = Some v"
      using kv by (simp add: group_samples_def js_map_ok_get [OF group_all_keys(1)] group_all_lookup)
    have none: "\<forall>x\<in>set ?xs. nh_count x = None" using p(2) by auto
    have "?xs \<noteq> []" using v by auto
    then have hd: "hd ?xs \<in> set ?xs" by (rule hd_in_set)
    have "Q x = Q v" if "x \<in> set ?xs" for x
      using that hd p(2) group_key_eq [of x "hd ?xs"] group_of_recorded [OF p(1) none v] by (intro Q) auto
    then have "sum_list (map ?g ?xs) = sum_list (map (\<lambda>x. if Q v then w x else 0) ?xs)" by (intro arg_cong [of _ _ sum_list] map_cong) auto
    then show ?thesis using f [OF none v] by simp
  qed
  have filt: "sum_list (map h (filter Q xs)) = sum_list (map (\<lambda>x. if Q x then h x else 0) xs)" for h :: "NativeHookStatistics \<Rightarrow> int" and xs by (induction xs) simp_all
  have "sum_list (map f (filter Q (js_object_values ?m))) = sum_list (map (\<lambda>e. if Q (snd e) then f (snd e) else 0) ?m)" by (simp add: filt sum_js_object_values)
  also have "\<dots> = sum_list (map (\<lambda>k. sum_list (map ?g (filter (\<lambda>x. group_key x = k) kept))) (map fst ?m))" using each by (auto intro!: arg_cong [of _ _ sum_list])
  also have "\<dots> = sum_list (map ?g (filter (\<lambda>x. group_key x \<in> set (map fst ?m)) kept))"
    using group_all_keys(1) by (intro sum_by_key) (simp add: group_samples_def js_map_ok_def)
  also have "filter (\<lambda>x. group_key x \<in> set (map fst ?m)) kept = kept" by (simp add: group_samples_def filter_id_conv group_all_keys(2))
  finally show ?thesis by (simp add: filt)
qed

lemma recorded_sizes:
  assumes "recorded p" "\<forall>x\<in>set kept. nh_count x = None \<and> 0 \<le> nh_tid x" "\<And>x y. nh_tid x = nh_tid y \<Longrightarrow> nh_eventId x = nh_eventId y \<Longrightarrow> Q x = Q y"
  defines "cur \<equiv> js_object_values (group_samples p kept)"
  shows "sum_list (map nh_heapSize (filter Q cur)) = sum_list (map nh_heapSize (filter Q kept))"
    "sum_list (map (\<lambda>x. count_or_1 (nh_count x)) (filter Q cur)) = int (length (filter Q kept))" "filter Q cur = [] \<longleftrightarrow> filter Q kept = []"
proof -
  show "sum_list (map nh_heapSize (filter Q cur)) = sum_list (map nh_heapSize (filter Q kept))"
    unfolding cur_def by (rule group_sums [OF assms(1-3)]) (use group_of_recorded [OF assms(1)] in auto)
  have "sum_list (map (\<lambda>x. count_or_1 (nh_count x)) (filter Q cur)) = sum_list (map (\<lambda>x. 1) (filter Q kept))"
    unfolding cur_def
  proof (rule group_sums [OF assms(1-3)])
    fix xs v
    assume xs: "\<forall>x\<in>set xs. nh_count x = None" and v: "merged (\<lambda>x. group_apply p x blank_sample) (group_apply p) xs = Some v"
    have "xs \<noteq> []" using v by auto
    then show "count_or_1 (nh_count v) = sum_list (map (\<lambda>x. 1) xs)" using group_of_recorded [OF assms(1) xs v] by (simp add: count_or_1_def sum_list_triv)
  qed
  then show counts: "sum_list (map (\<lambda>x. count_or_1 (nh_count x)) (filter Q cur)) = int (length (filter Q kept))" by (simp add: sum_list_triv)
  have pos: "1 \<le> count_or_1 (nh_count v)" if "v \<in> set cur" for v
  proof -
    have "v \<in> snd ` set (group_samples p kept)" using that by (simp add: cur_def set_js_object_values)
    then obtain k where "(k, v) \<in> set (group_samples p kept)" by auto
    then have v: "merged (\<lambda>x. group_apply p x blank_sample) (group_apply p) (filter (\<lambda>x. group_key x = k) kept) = Some v"
      by (simp add: group_samples_def js_map_ok_get [OF group_all_keys(1)] group_all_lookup)
    have "\<forall>x\<in>set (filter (\<lambda>x. group_key x = k) kept). nh_count x = None" using assms(2) by auto
    from group_of_recorded [OF assms(1) this v] show ?thesis using v by (cases "filter (\<lambda>x. group_key x = k) kept") (auto simp: count_or_1_def)
  qed
  have "0 \<le> sum_list (map (\<lambda>x. count_or_1 (nh_count x)) ys) \<and> (ys \<noteq> [] \<longrightarrow> 0 < sum_list (map (\<lambda>x. count_or_1 (nh_count x)) ys))" if "set ys \<subseteq> set cur" for ys
    using that
  proof (induction ys)
    case (Cons y ys)
    then show ?case using pos [of y] by auto
  qed simp
  from this [of "filter Q cur"] show "filter Q cur = [] \<longleftrightarrow> filter Q kept = []" using counts by auto
qed

text \<open>C15: the call tree of a selection in a recorded trace, path by path. The samples that pass the filters are grouped by thread and call chain and the groups are merged into a tree. The tree of a
  root is there exactly when a kept sample leads to it; a path of functions below it leads to a node exactly when the call chains of kept samples go along it, and the node holds the
  number of these samples and the bytes that they have allocated. Grouping neither loses nor duplicates any.\<close>

theorem native_selection_rows:
  fixes m :: frame_map and isTopDown :: bool and r :: jsstring
  assumes "recorded p" "np_expression p \<noteq> None \<or> np_eventType p \<noteq> 0" "\<forall>x\<in>set samples. nh_count x = None \<and> 0 \<le> nh_tid x"
    and "filter_r (keep_sample tolower dict p) samples = Inr kept"
  defines "ys \<equiv> rooted native_root_key (native_entries m isTopDown) r kept" and "on \<equiv> passing native_frame_key (native_entries m isTopDown)"
  shows "\<exists>cur search. groupCallchainSample tolower dict p samples searchValue = Inr (cur, search) \<and>
    (case map_of (fst (fold (native_step m isTopDown) cur ([], start))) r of
       None \<Rightarrow> ys = []
     | Some t \<Rightarrow> ys \<noteq> [] \<and> nn_heapSize (ct_bean t) = sum_list (map nh_heapSize ys) \<and> nn_count (ct_bean t) = int (length ys) \<and> (\<forall>k q. let path = k # q in
         case tree_at native_node_key path (ct_kids t) of
           None \<Rightarrow> on path ys = []
         | Some b \<Rightarrow> on path ys \<noteq> [] \<and> nn_heapSize b = sum_list (map nh_heapSize (on path ys)) \<and> nn_count b = int (length (on path ys))))"
proof -
  let ?cur = "js_object_values (group_samples p kept)" and ?e = "native_entries m isTopDown"
  let ?run = "fold (\<lambda>x. root_step native_matches newNativeNode nm_merageCallChainSample native_root_key x (?e x)) ?cur ([], start)"
  have kept_sub: "set kept \<subseteq> set samples" using filter_r_sub [OF assms(4)] .
  then have ok: "\<forall>x\<in>set kept. nh_count x = None \<and> 0 \<le> nh_tid x" using assms(3) by auto
  have group: "\<exists>search. groupCallchainSample tolower dict p samples searchValue = Inr (?cur, search)"
    using assms(2) by (auto simp: groupCallchainSample_def assms(4))
  have same: "?e x = ?e y" if "nh_eventId x = nh_eventId y" for x y using that by (simp add: native_entries_def createThreadSample_def)
  have key: "native_root_key c x = native_root_key c y" if "nh_tid x = nh_tid y" for c x y using that by (simp add: native_root_key_def)
  define Q where "Q = (\<lambda>x. ?e x \<noteq> [] \<and> native_root_key (hd (?e x)) x = r)"
  have Q: "Q x = Q y" if "nh_tid x = nh_tid y" "nh_eventId x = nh_eventId y" for x y unfolding Q_def using same [OF that(2)] key [OF that(1)] by simp
  define R where "R = (\<lambda>path x. Q x \<and> prefix path (map native_frame_key (tl (?e x))))"
  have R: "R path x = R path y" if "nh_tid x = nh_tid y" "nh_eventId x = nh_eventId y" for path x y unfolding R_def using same [OF that(2)] Q [OF that] by simp
  have ys: "ys = filter Q kept" "rooted native_root_key ?e r ?cur = filter Q ?cur" by (simp_all add: ys_def rooted_def Q_def)
  have on: "on path (filter Q xs) = filter (R path) xs" for path xs by (simp add: on_def passing_def R_def)
  note root = recorded_sizes [where Q = Q, OF assms(1) ok Q]
  have C: "\<forall>x\<in>set ?cur. set (?e x) \<subseteq> UNIV" by simp
  note size_at = native_sizes.forest_at [OF TrueI C, of native_root_key start r, unfolded ys]
  note count_at = native_counts.forest_at [OF TrueI C, of native_root_key start r, unfolded ys]
  have "case map_of (fst ?run) r of
       None \<Rightarrow> ys = []
     | Some t \<Rightarrow> ys \<noteq> [] \<and> nn_heapSize (ct_bean t) = sum_list (map nh_heapSize ys) \<and> nn_count (ct_bean t) = int (length ys) \<and> (\<forall>k q. let path = k # q in
         case tree_at native_node_key path (ct_kids t) of
           None \<Rightarrow> on path ys = []
         | Some b \<Rightarrow> on path ys \<noteq> [] \<and> nn_heapSize b = sum_list (map nh_heapSize (on path ys)) \<and> nn_count b = int (length (on path ys)))"
  proof (cases "map_of (fst ?run) r")
    case None
    then show ?thesis using native_sizes.forest_at_None [OF TrueI C, of native_root_key start r] root(3) by (simp add: ys)
  next
    case (Some t)
    have "case tree_at native_node_key path (ct_kids t) of
        None \<Rightarrow> on path ys = []
      | Some b \<Rightarrow> on path ys \<noteq> [] \<and> nn_heapSize b = sum_list (map nh_heapSize (on path ys)) \<and> nn_count b = int (length (on path ys))" if "path \<noteq> []" for path
      using size_at(3) [OF Some that] count_at(3) [OF Some that] recorded_sizes [where Q = "R path", OF assms(1) ok R] by (auto simp: ys on [unfolded on_def] on split: option.splits)
    moreover have "ys \<noteq> [] \<and> nn_heapSize (ct_bean t) = sum_list (map nh_heapSize ys) \<and> nn_count (ct_bean t) = int (length ys)"
      using size_at(1,2) [OF Some] count_at(2) [OF Some] root by (simp add: ys)
    ultimately show ?thesis by (simp add: Some Let_def del: tree_at.simps)
  qed
  then show ?thesis using group by (auto simp: native_step_def [abs_def])
qed

section \<open>Concrete instances\<close>

definition demo_frame :: "int \<Rightarrow> HeapTreeDataBean" where
  "demo_frame i = \<lparr>ht_eventId = 1, ht_symbolId = i, ht_fileId = 9, ht_depth = 0, ht_addr = []\<rparr>"

definition demo_alloc :: "int \<Rightarrow> NativeHookStatistics" where
  "demo_alloc z = blank_sample\<lparr>nh_eventId := 1, nh_eventType := AllocEvent, nh_heapSize := z, nh_count := None, nh_tid := 7\<rparr>"

definition demo_params :: NmParams where
  "demo_params = \<lparr>np_allocType = js ''0'', np_eventType = 1, np_responseType = - 1, np_expression = None, np_leftNs = 0, np_rightNs = 100, np_nativeHookType = js ''native-hook'', np_selection = []\<rparr>"

theorem native_selection_rows_witness:
  "\<exists>cur search. groupCallchainSample id Map.empty demo_params [demo_alloc 8, demo_alloc 16] [] = Inr (cur, search)
     \<and> nn_heapSize (ct_bean (the (map_of (fst (fold (native_step [(1, [demo_frame 3, demo_frame 4])] True) cur ([], 0))) (native_root_key (demo_frame 3) (demo_alloc 8))))) = 24"
proof -
  let ?xs = "[demo_alloc 8, demo_alloc 16]" and ?m = "[(1, [demo_frame 3, demo_frame 4])]" and ?r = "native_root_key (demo_frame 3) (demo_alloc 8)"
  have p: "recorded demo_params" "np_expression demo_params \<noteq> None \<or> np_eventType demo_params \<noteq> 0" by (simp_all add: recorded_def demo_params_def)
  have xs: "\<forall>x\<in>set ?xs. nh_count x = None \<and> 0 \<le> nh_tid x" by (simp add: demo_alloc_def)
  have kept: "filter_r (keep_sample id Map.empty demo_params) ?xs = Inr ?xs"
    by (simp add: keep_sample_def getTypeFromIndex_def sample_type_info_def alloc_filter_def recorded_def demo_params_def demo_alloc_def js_def Let_def)
  have "rooted native_root_key (native_entries ?m True) ?r ?xs = ?xs"
    by (simp add: rooted_def native_entries_def createThreadSample_def native_root_key_def demo_alloc_def blank_sample_def)
  then show ?thesis using native_selection_rows [OF p xs kept, where m = ?m and isTopDown = True and start = 0 and r = ?r and searchValue = "[]"]
    by (auto simp: demo_alloc_def split: option.splits)
qed

end
