(* ===== verification/Native_Analysis.thy ===== *)
theory Native_Analysis
  imports Native_Tree
begin

text \<open>
  The native memory worker: the analysis of the samples of a selection
  (\<open>combineStatisticAndCallChain\<close> of \<open>trace/database/logic-worker/ProcedureLogicWorkerNativeNemory.ts\<close>).

  The lists of allocations that wait for their release hold objects of the result list; they are lists of positions in it. Fields that are not set are \<open>None\<close>.
\<close>

section \<open>Samples\<close>

record AnalysisSample =
  an_id :: int
  an_count :: "int option"
  an_size :: int
  an_type :: int
  an_startTs :: int
  an_isRelease :: bool
  an_releaseCount :: "int option"
  an_releaseSize :: "int option"
  an_endTs :: "int option"
  an_subType :: "jsstring option"
  an_tid :: "int option"
  an_addr :: "jsstring option"
  an_libId :: int
  an_libName :: jsstring
  an_symbolId :: int
  an_symbolName :: jsstring

definition FreeEvent :: jsstring where "FreeEvent = js ''FreeEvent''"
definition MunmapEvent :: jsstring where "MunmapEvent = js ''MunmapEvent''"

definition event_type :: "jsstring \<Rightarrow> int \<times> bool" where
  "event_type t =
     (if t = AllocEvent \<or> t = js ''0'' then (0, False) else if t = MmapEvent \<or> t = js ''1'' then (1, False)
      else if t = FreeEvent then (2, True) else if t = MunmapEvent then (3, True) else (- 1, False))"

definition new_analysis :: "int \<Rightarrow> int \<Rightarrow> int option \<Rightarrow> jsstring \<Rightarrow> int \<Rightarrow> AnalysisSample" where
  "new_analysis i z cnt t startTs = \<lparr>an_id = i, an_count = cnt, an_size = z, an_type = fst (event_type t), an_startTs = startTs, an_isRelease = snd (event_type t),
     an_releaseCount = None, an_releaseSize = None, an_endTs = None, an_subType = None, an_tid = None, an_addr = None, an_libId = 0, an_libName = [], an_symbolId = 0, an_symbolName = []\<rparr>"

definition dict_at :: "data_dict \<Rightarrow> int option \<Rightarrow> jsstring option" where
  "dict_at dict i = (case i of None \<Rightarrow> None | Some j \<Rightarrow> dict j)"

definition statistic_subType :: "data_dict \<Rightarrow> int option \<Rightarrow> jsstring option" where
  "statistic_subType dict i =
     (if i = Some 1 then Some MmapEvent else if i = Some 2 then Some (js ''FILE_PAGE_MSG'') else if i = Some 3 then Some (js ''MEMORY_USING_MSG'') else dict_at dict i)"

definition analysis_of :: "bool \<Rightarrow> data_dict \<Rightarrow> NativeHookStatistics \<Rightarrow> AnalysisSample" where
  "analysis_of isStatistic dict x =
     (let a = new_analysis (nh_id x) (nh_heapSize x) (if isStatistic then nh_count x else Some 1) (nh_eventType x) (nh_startTs x) in
      if isStatistic
      then a\<lparr>an_releaseCount := Some (nh_freeCount x), an_releaseSize := Some (nh_freeSize x), an_subType := statistic_subType dict (nh_subTypeId x)\<rparr>
      else a\<lparr>an_endTs := nh_endTs x, an_addr := Some (nh_addr x), an_tid := Some (nh_tid x),
             an_subType := (if nh_subTypeId x = Some 0 then None else dict_at dict (nh_subTypeId x))\<rparr>)"

section \<open>The library of a call chain\<close>

definition c_library :: "data_dict \<Rightarrow> HeapTreeDataBean \<Rightarrow> bool" where
  "c_library dict f = (case dict (ht_fileId f) of None \<Rightarrow> False | Some path \<Rightarrow> js_includes path (js ''musl'') \<or> js_includes path (js ''libc++''))"

text \<open>The loop from the end of the call chain over the C libraries, with \<open>n\<close> frames left to look at.\<close>

fun last_chain :: "data_dict \<Rightarrow> HeapTreeDataBean list \<Rightarrow> nat \<Rightarrow> HeapTreeDataBean" where
  "last_chain dict l 0 = last l"
| "last_chain dict l (Suc n) = (if c_library dict (l ! n) then last_chain dict l n else l ! n)"

definition set_frame :: "data_dict \<Rightarrow> NativeHookStatistics \<Rightarrow> HeapTreeDataBean list \<Rightarrow> AnalysisSample \<Rightarrow> AnalysisSample" where
  "set_frame dict x l a =
     (if l = [] then a\<lparr>an_libId := - 1, an_libName := js ''Unknown'', an_symbolId := - 1, an_symbolName := js ''Unknown''\<rparr>
      else (let f = last_chain dict l (length l); libName = (case dict (ht_fileId f) of None \<Rightarrow> [] | Some path \<Rightarrow> last_segment path);
                symbolName = (case dict (ht_symbolId f) of None \<Rightarrow> [] | Some s \<Rightarrow> s)
            in a\<lparr>an_libId := ht_fileId f, an_libName := libName, an_symbolId := ht_symbolId f,
                 an_symbolName := (if symbolName \<noteq> [] then symbolName else libName @ js '' ('' @ nh_addr x @ js '')'')\<rparr>))"

section \<open>Releases\<close>

text \<open>The last allocation of the list that the release belongs to; it leaves the list and is marked.\<close>

definition released_by :: "AnalysisSample list \<Rightarrow> AnalysisSample \<Rightarrow> nat \<Rightarrow> bool" where
  "released_by res rel i \<longleftrightarrow> an_endTs (res ! i) = Some (an_startTs rel) \<and> an_addr (res ! i) = an_addr rel"

definition setApplyIsRelease :: "AnalysisSample \<Rightarrow> nat list \<Rightarrow> AnalysisSample list \<Rightarrow> nat list \<times> AnalysisSample list" where
  "setApplyIsRelease rel arr res =
     (case List.find (released_by res rel) (rev arr) of
        None \<Rightarrow> (arr, res)
      | Some i \<Rightarrow> (rev (remove1 i (rev arr)), res[i := (res ! i)\<lparr>an_isRelease := True\<rparr>]))"

record Analysis =
  ay_list :: "AnalysisSample list"
  ay_alloc :: "nat list"
  ay_mmap :: "nat list"

definition analysis_step :: "bool \<Rightarrow> data_dict \<Rightarrow> frame_map \<Rightarrow> NativeHookStatistics \<Rightarrow> Analysis \<Rightarrow> Analysis" where
  "analysis_step isStatistic dict m x s =
     (let a = analysis_of isStatistic dict x in
      if nh_eventType x = FreeEvent
      then (let (arr, res) = setApplyIsRelease a (ay_alloc s) (ay_list s) in s\<lparr>ay_alloc := arr, ay_list := res\<rparr>)
      else if nh_eventType x = MunmapEvent
      then (let (arr, res) = setApplyIsRelease a (ay_mmap s) (ay_list s) in s\<lparr>ay_mmap := arr, ay_list := res\<rparr>)
      else (let n = length (ay_list s); s1 = (if nh_eventType x = AllocEvent then s\<lparr>ay_alloc := ay_alloc s @ [n]\<rparr> else s\<lparr>ay_mmap := ay_mmap s @ [n]\<rparr>)
            in s1\<lparr>ay_list := ay_list s1 @ [set_frame dict x (createThreadSample m x) a]\<rparr>))"

definition combineStatisticAndCallChain :: "bool \<Rightarrow> data_dict \<Rightarrow> frame_map \<Rightarrow> NativeHookStatistics list \<Rightarrow> AnalysisSample list" where
  "combineStatisticAndCallChain isStatistic dict m samples =
     ay_list (fold (analysis_step isStatistic dict m) (sort_key nh_id samples) \<lparr>ay_list = [], ay_alloc = [], ay_mmap = []\<rparr>)"

section \<open>Which allocations are released\<close>

lemma last_chain_find: "n \<le> length l \<Longrightarrow> last_chain dict l n = (case List.find (\<lambda>f. \<not> c_library dict f) (rev (take n l)) of None \<Rightarrow> last l | Some f \<Rightarrow> f)"
  by (induction n) (simp_all add: take_Suc_conv_app_nth)

lemma event_consts: "AllocEvent \<noteq> FreeEvent" "AllocEvent \<noteq> MunmapEvent" "MmapEvent \<noteq> FreeEvent" "MmapEvent \<noteq> MunmapEvent" "FreeEvent \<noteq> MunmapEvent" "AllocEvent \<noteq> MmapEvent"
  by (simp_all add: AllocEvent_def MmapEvent_def FreeEvent_def MunmapEvent_def js_eq_iff)

abbreviation is_free :: "NativeHookStatistics \<Rightarrow> bool" where
  "is_free x \<equiv> nh_eventType x = FreeEvent \<or> nh_eventType x = MunmapEvent"

text \<open>The release of an allocation: at its end, of its address and of its kind.\<close>

definition frees :: "NativeHookStatistics \<Rightarrow> NativeHookStatistics \<Rightarrow> bool" where
  "frees y x \<longleftrightarrow> is_free y \<and> (nh_eventType y = FreeEvent \<longleftrightarrow> nh_eventType x = AllocEvent) \<and> nh_endTs x = Some (nh_startTs y) \<and> nh_addr x = nh_addr y"

text \<open>The allocations in their order, with whether a later sample releases them.\<close>

definition releases :: "NativeHookStatistics list \<Rightarrow> (NativeHookStatistics \<times> bool) list" where
  "releases xs = map (\<lambda>(k, x). (x, list_ex (\<lambda>y. frees y x) (drop k xs))) (filter (\<lambda>(k, x). \<not> is_free x) (enumerate 0 xs))"

lemma releases_snoc:
  "releases (xs @ [z]) = map (\<lambda>(x, b). (x, b \<or> frees z x)) (releases xs) @ (if is_free z then [] else [(z, False)])"
proof -
  have "list_ex (\<lambda>y. frees y x) (drop k (xs @ [z])) = (list_ex (\<lambda>y. frees y x) (drop k xs) \<or> frees z x)" if "(k, x) \<in> set (enumerate 0 xs)" for k x
    using that by (auto simp: in_set_enumerate_eq)
  then show ?thesis by (auto simp: releases_def enumerate_append_eq frees_def)
qed

lemma releases_Nil [simp]: "releases [] = []"
  by (simp add: releases_def)

lemma map_fst_releases: "map fst (releases xs) = filter (\<lambda>x. \<not> is_free x) xs"
  by (induction xs rule: rev_induct) (auto simp: releases_snoc comp_def case_prod_unfold)

definition analysis_row :: "data_dict \<Rightarrow> frame_map \<Rightarrow> NativeHookStatistics \<times> bool \<Rightarrow> AnalysisSample" where
  "analysis_row dict m = (\<lambda>(x, b). (set_frame dict x (createThreadSample m x) (analysis_of False dict x))\<lparr>an_isRelease := b\<rparr>)"

definition waiting :: "bool \<Rightarrow> (NativeHookStatistics \<times> bool) list \<Rightarrow> nat list" where
  "waiting heap rr = filter (\<lambda>i. (nh_eventType (fst (rr ! i)) = AllocEvent) = heap \<and> \<not> snd (rr ! i)) [0..<length rr]"

definition analysis_inv :: "data_dict \<Rightarrow> frame_map \<Rightarrow> NativeHookStatistics list \<Rightarrow> Analysis \<Rightarrow> bool" where
  "analysis_inv dict m xs s \<longleftrightarrow> ay_list s = map (analysis_row dict m) (releases xs) \<and> ay_alloc s = waiting True (releases xs) \<and> ay_mmap s = waiting False (releases xs)"

text \<open>No two allocations of a kind end at the same time at the same address.\<close>

definition ends_differ :: "NativeHookStatistics list \<Rightarrow> bool" where
  "ends_differ xs \<longleftrightarrow> distinct (map (\<lambda>x. (nh_eventType x = AllocEvent, nh_endTs x, nh_addr x)) (filter (\<lambda>x. \<not> is_free x \<and> nh_endTs x \<noteq> None) xs))"

lemma row_sel [simp]:
  "an_endTs (analysis_row dict m (x, b)) = nh_endTs x" "an_addr (analysis_row dict m (x, b)) = Some (nh_addr x)"
  "(analysis_row dict m (x, b))\<lparr>an_isRelease := c\<rparr> = analysis_row dict m (x, c)"
  by (simp_all add: analysis_row_def set_frame_def analysis_of_def new_analysis_def Let_def)

lemma row_new: "\<not> is_free x \<Longrightarrow> set_frame dict x (createThreadSample m x) (analysis_of False dict x) = analysis_row dict m (x, False)"
  by (simp add: analysis_row_def set_frame_def analysis_of_def new_analysis_def event_type_def Let_def)

lemma distinct_filter_nth: "distinct (map f (filter P xs)) \<Longrightarrow> i < j \<Longrightarrow> j < length xs \<Longrightarrow> P (xs ! i) \<Longrightarrow> P (xs ! j) \<Longrightarrow> f (xs ! i) \<noteq> f (xs ! j)"
proof (induction xs arbitrary: i j)
  case (Cons x xs)
  obtain j' where j: "j = Suc j'" using Cons.prems(2) by (cases j) auto
  show ?case
  proof (cases i)
    case 0
    have "xs ! j' \<in> set (filter P xs)" using Cons.prems j by auto
    then have "f (xs ! j') \<in> f ` set (filter P xs)" by (rule imageI)
    then show ?thesis using Cons.prems 0 j by auto
  next
    case (Suc i')
    then show ?thesis using Cons.prems Cons.IH [of i' j'] j by (auto split: if_splits)
  qed
qed simp

lemma at_most_one:
  fixes rr :: "(NativeHookStatistics \<times> bool) list"
  assumes "ends_differ (map fst rr)" "\<forall>e\<in>set rr. \<not> is_free (fst e)" "i < length rr" "j < length rr" "frees z (fst (rr ! i))" "frees z (fst (rr ! j))"
  shows "i = j"
proof -
  let ?k = "\<lambda>e. (nh_eventType (fst e) = AllocEvent, nh_endTs (fst e), nh_addr (fst e))" and ?P = "\<lambda>e. \<not> is_free (fst e) \<and> nh_endTs (fst e) \<noteq> None"
  have d: "distinct (map ?k (filter ?P rr))" using assms(1) by (simp add: ends_differ_def filter_map comp_def)
  have P: "?P (rr ! i)" "?P (rr ! j)" "?k (rr ! i) = ?k (rr ! j)" using assms(2-6) by (auto simp: frees_def)
  show ?thesis using distinct_filter_nth [OF d, of i j] distinct_filter_nth [OF d, of j i] P assms(3,4) by (metis linorder_neqE_nat)
qed

lemma find_same: "i \<in> set l \<Longrightarrow> List.find (\<lambda>j. j = i) l = Some i"
  by (induction l) auto

text \<open>A release marks the allocation that it belongs to, when it waits.\<close>

lemma release_effect:
  assumes "ends_differ (map fst rr)" "\<forall>e\<in>set rr. \<not> is_free (fst e)" "is_free z" and heap: "heap \<longleftrightarrow> nh_eventType z = FreeEvent"
  defines "rr' \<equiv> map (\<lambda>(x, b). (x, b \<or> frees z x)) rr"
  shows "setApplyIsRelease (analysis_of False dict z) (waiting heap rr) (map (analysis_row dict m) rr) = (waiting heap rr', map (analysis_row dict m) rr')"
    "waiting (\<not> heap) rr' = waiting (\<not> heap) rr"
proof -
  have hit: "released_by (map (analysis_row dict m) rr) (analysis_of False dict z) i \<longleftrightarrow> frees z (fst (rr ! i))" if "i \<in> set (waiting heap rr)" for i
    using that assms(2,3) heap by (cases "rr ! i") (auto simp: released_by_def waiting_def frees_def analysis_of_def new_analysis_def Let_def)
  have nth: "rr' ! i = (fst (rr ! i), snd (rr ! i) \<or> frees z (fst (rr ! i)))" if "i < length rr" for i using that by (simp add: rr'_def case_prod_unfold)
  have len: "length rr' = length rr" by (simp add: rr'_def)
  show "waiting (\<not> heap) rr' = waiting (\<not> heap) rr"
    unfolding waiting_def len using heap assms(3) event_consts by (intro filter_cong refl) (auto simp: nth frees_def)
  show "setApplyIsRelease (analysis_of False dict z) (waiting heap rr) (map (analysis_row dict m) rr) = (waiting heap rr', map (analysis_row dict m) rr')"
  proof (cases "\<exists>i\<in>set (waiting heap rr). frees z (fst (rr ! i))")
    case True
    then obtain i where i: "i \<in> set (waiting heap rr)" "frees z (fst (rr ! i))" by blast
    then have il: "i < length rr" "\<not> snd (rr ! i)" by (auto simp: waiting_def)
    have only: "frees z (fst (rr ! j)) \<longleftrightarrow> j = i" if "j < length rr" for j using at_most_one [OF assms(1,2) that il(1)] i(2) by auto
    have "List.find (released_by (map (analysis_row dict m) rr) (analysis_of False dict z)) (rev (waiting heap rr)) = List.find (\<lambda>j. j = i) (rev (waiting heap rr))"
      using hit only by (intro find_cong refl) (auto simp: waiting_def)
    also have "\<dots> = Some i" using i(1) by (intro find_same) simp
    finally have find: "List.find (released_by (map (analysis_row dict m) rr) (analysis_of False dict z)) (rev (waiting heap rr)) = Some i" .
    have "distinct (waiting heap rr)" by (simp add: waiting_def)
    then have "rev (remove1 i (rev (waiting heap rr))) = filter (\<lambda>j. j \<noteq> i) (waiting heap rr)"
      by (simp add: distinct_remove1_removeAll removeAll_filter_not_eq rev_filter eq_commute)
    also have "\<dots> = waiting heap rr'" unfolding waiting_def len filter_filter using only by (intro filter_cong refl) (auto simp: nth)
    finally have arr: "rev (remove1 i (rev (waiting heap rr))) = waiting heap rr'" .
    have "(map (analysis_row dict m) rr)[i := (map (analysis_row dict m) rr ! i)\<lparr>an_isRelease := True\<rparr>] = map (analysis_row dict m) rr'"
    proof (rule nth_equalityI)
      fix j
      assume "j < length ((map (analysis_row dict m) rr)[i := (map (analysis_row dict m) rr ! i)\<lparr>an_isRelease := True\<rparr>])"
      then have j: "j < length rr" by simp
      obtain x b where x: "rr ! j = (x, b)" by (cases "rr ! j")
      show "(map (analysis_row dict m) rr)[i := (map (analysis_row dict m) rr ! i)\<lparr>an_isRelease := True\<rparr>] ! j = map (analysis_row dict m) rr' ! j"
        using only [OF j] nth [OF j] il(1) j x by (cases "j = i") (auto simp: len)
    qed (simp add: len)
    then show ?thesis by (simp add: setApplyIsRelease_def find arr)
  next
    case False
    then have "List.find (released_by (map (analysis_row dict m) rr) (analysis_of False dict z)) (rev (waiting heap rr)) = None" using hit by (auto simp: find_None_iff)
    moreover have "rr' = rr"
    proof (rule nth_equalityI)
      fix i
      assume "i < length rr'"
      then have i: "i < length rr" by (simp add: len)
      have "frees z (fst (rr ! i)) \<Longrightarrow> snd (rr ! i)" using False i heap assms(3) by (auto simp: waiting_def frees_def)
      then show "rr' ! i = rr ! i" using nth [OF i] by (cases "rr ! i") auto
    qed (rule len)
    ultimately show ?thesis by (simp add: setApplyIsRelease_def)
  qed
qed

lemma analysis_step_inv:
  assumes inv: "analysis_inv dict m xs s" and ends: "ends_differ xs"
  shows "analysis_inv dict m (xs @ [z]) (analysis_step False dict m z s)"
proof (cases "is_free z")
  case True
  have "ends_differ (map fst (releases xs))" using ends unfolding map_fst_releases by (simp add: ends_differ_def conj_ac)
  moreover have "\<forall>e\<in>set (releases xs). \<not> is_free (fst e)" by (auto simp: releases_def)
  ultimately have rr: "ends_differ (map fst (releases xs))" "\<forall>e\<in>set (releases xs). \<not> is_free (fst e)" .
  note eff = release_effect(1) [OF rr True refl, of dict m] release_effect(2) [OF rr True refl]
  show ?thesis using inv True eff event_consts by (auto simp: analysis_inv_def analysis_step_def releases_snoc Let_def)
next
  case False
  have same: "map (\<lambda>(x, b). (x, b \<or> frees z x)) (releases xs) = releases xs" using False by (intro map_idI) (auto simp: frees_def)
  have add: "waiting h (releases xs @ [(z, False)]) = waiting h (releases xs) @ (if (nh_eventType z = AllocEvent) = h then [length (releases xs)] else [])" for h
    by (auto simp: waiting_def nth_append intro!: filter_cong)
  show ?thesis using inv False by (simp add: analysis_inv_def analysis_step_def releases_snoc same add row_new Let_def)
qed

lemma distinct_sort_filter: "distinct (map f (filter P (sort_key k xs))) = distinct (map f (filter P xs))"
  by (rule mset_eq_imp_distinct_iff) simp

text \<open>C37: the analysis of a recorded trace has a row for every allocation, in the order of their numbers, with the function that made it, and the row is marked as released exactly when a later
  sample releases the memory: at the end of the allocation, of its address and of its kind.\<close>

theorem analysis_rows:
  assumes "ends_differ samples"
  shows "combineStatisticAndCallChain False dict m samples = map (analysis_row dict m) (releases (sort_key nh_id samples))"
proof -
  let ?s0 = "\<lparr>ay_list = [], ay_alloc = [], ay_mmap = []\<rparr>"
  have "analysis_inv dict m xs (fold (analysis_step False dict m) xs ?s0)" if "ends_differ xs" for xs
    using that
  proof (induction xs rule: rev_induct)
    case Nil
    then show ?case by (simp add: analysis_inv_def waiting_def)
  next
    case (snoc z xs)
    then have "ends_differ xs" by (simp add: ends_differ_def)
    then show ?case using snoc.IH analysis_step_inv by simp
  qed
  moreover have "ends_differ (sort_key nh_id samples)"
    using assms by (simp add: ends_differ_def distinct_sort_filter)
  ultimately show ?thesis by (simp add: combineStatisticAndCallChain_def analysis_inv_def)
qed

section \<open>Concrete instances\<close>

definition demo_event :: "int \<Rightarrow> jsstring \<Rightarrow> int \<Rightarrow> int option \<Rightarrow> NativeHookStatistics" where
  "demo_event i t startTs endTs = blank_sample\<lparr>nh_id := i, nh_eventId := 1, nh_eventType := t, nh_startTs := startTs, nh_endTs := endTs, nh_addr := js ''0x10''\<rparr>"

theorem analysis_rows_witness:
  "map an_isRelease (combineStatisticAndCallChain False Map.empty [] [demo_event 3 AllocEvent 12 None, demo_event 2 FreeEvent 9 None, demo_event 1 AllocEvent 5 (Some 9)]) = [True, False]"
proof -
  let ?xs = "[demo_event 3 AllocEvent 12 None, demo_event 2 FreeEvent 9 None, demo_event 1 AllocEvent 5 (Some 9)]"
  have "ends_differ ?xs" by (simp add: ends_differ_def demo_event_def)
  from analysis_rows [OF this, of Map.empty "[]"] show ?thesis
    by (simp add: releases_def frees_def demo_event_def event_consts analysis_row_def)
qed

end
