(* ===== verification/Native_Rows.thy ===== *)
theory Native_Rows
  imports Native_Analysis "HOL-Library.List_Lexorder"
begin

text \<open>
  The native memory worker: the table of the allocations of a selection and the names of nodes
  (\<open>trace/database/logic-worker/ProcedureLogicWorkerNativeNemory.ts\<close>).

  \<open>nmFileDict\<close> remembers the short name of every number of the data dictionary that was asked for. The table can be sorted by the columns that the view offers for it.
  The texts of the event type are those of numbers.
\<close>

section \<open>Short names\<close>

type_synonym cut_cache = "int \<Rightarrow> jsstring option"

definition cut_name :: "jsstring \<Rightarrow> jsstring" where
  "cut_name nm = (if nm = [] then js ''-'' else nm)"

definition groupCutFilePath :: "int \<Rightarrow> jsstring \<Rightarrow> cut_cache \<Rightarrow> jsstring \<times> cut_cache" where
  "groupCutFilePath fileId path cache =
     (case cache fileId of
        Some nm \<Rightarrow> (cut_name nm, cache)
      | None \<Rightarrow> (cut_name (last_segment path), cache(fileId \<mapsto> last_segment path)))"

text \<open>The entry of the dictionary, or a default when there is none or it is empty.\<close>

definition name_or :: "data_dict \<Rightarrow> int \<Rightarrow> jsstring \<Rightarrow> jsstring" where
  "name_or dict i d = (case dict i of None \<Rightarrow> d | Some s \<Rightarrow> if s = [] then d else s)"

record NmName =
  nmn_symbol :: jsstring
  nmn_path :: jsstring
  nmn_libName :: jsstring
  nmn_symbolName :: jsstring
  nmn_type :: int

definition library_type :: "jsstring \<Rightarrow> int" where
  "library_type lib = (if js_endsWith lib (js ''.so.1'') \<or> js_endsWith lib (js ''.dll'') \<or> js_endsWith lib (js ''.so'') then 0 else 1)"

definition setMerageName :: "data_dict \<Rightarrow> int \<Rightarrow> int \<Rightarrow> cut_cache \<Rightarrow> NmName \<times> cut_cache" where
  "setMerageName dict symbolId fileId cache =
     (let (symbol, cache1) = groupCutFilePath symbolId (name_or dict symbolId []) cache; path = name_or dict fileId (js ''unknown''); libName = setFileName path
      in (\<lparr>nmn_symbol = symbol, nmn_path = path, nmn_libName = libName, nmn_symbolName = js ''['' @ symbol @ js ''] '' @ libName, nmn_type = library_type libName\<rparr>, cache1))"

section \<open>The rows\<close>

record NativeMemory =
  nm_index :: int
  nm_eventId :: int
  nm_eventType :: jsstring
  nm_subType :: "jsstring option"
  nm_subTypeId :: "int option"
  nm_addr :: jsstring
  nm_startTs :: int
  nm_endTs :: "int option"
  nm_heapSize :: int
  nm_symbol :: jsstring
  nm_library :: jsstring
  nm_lastLibId :: int
  nm_isSelected :: bool

text \<open>The frame of a row: from the end, the first that is not in a C library; the first of all when there is none.\<close>

definition row_frame :: "data_dict \<Rightarrow> HeapTreeDataBean list \<Rightarrow> HeapTreeDataBean option" where
  "row_frame dict l = (case List.find (\<lambda>f. \<not> c_library dict f) (rev l) of Some f \<Rightarrow> Some f | None \<Rightarrow> if l = [] then None else Some (hd l))"

definition frames_of :: "frame_map \<Rightarrow> int \<Rightarrow> HeapTreeDataBean list" where
  "frames_of m i = (case map_of m i of None \<Rightarrow> [] | Some l \<Rightarrow> l)"

definition fillNativeHook :: "data_dict \<Rightarrow> frame_map \<Rightarrow> int \<Rightarrow> NativeMemory \<Rightarrow> cut_cache \<Rightarrow> NativeMemory \<times> cut_cache" where
  "fillNativeHook dict m k r cache =
     (let r1 = (if nm_subTypeId r \<noteq> None \<and> nm_subType r = None then r\<lparr>nm_subType := Some (name_or dict (the (nm_subTypeId r)) (js ''-''))\<rparr> else r);
          r2 = r1\<lparr>nm_index := k\<rparr>
      in case row_frame dict (frames_of m (nm_eventId r)) of
           None \<Rightarrow> (r2\<lparr>nm_symbol := js ''-'', nm_library := js ''-''\<rparr>, cache)
         | Some f \<Rightarrow>
             (let (symbol, cache1) = groupCutFilePath (ht_symbolId f) (name_or dict (ht_symbolId f) []) cache;
                  (library, cache2) = groupCutFilePath (ht_fileId f) (name_or dict (ht_fileId f) (js ''Unknown Path'')) cache1
              in (r2\<lparr>nm_symbol := symbol, nm_library := library\<rparr>, cache2)))"

definition fill_at :: "data_dict \<Rightarrow> frame_map \<Rightarrow> nat \<Rightarrow> NativeMemory list \<times> cut_cache \<Rightarrow> NativeMemory list \<times> cut_cache" where
  "fill_at dict m k = (\<lambda>(rows, cache). let (r, cache1) = fillNativeHook dict m (int k) (rows ! k) cache in (rows[k := r], cache1))"

text \<open>The loop goes from both ends to the middle; \<open>hi\<close> is one more than the index \<open>j\<close>.\<close>

function supplement_loop :: "data_dict \<Rightarrow> frame_map \<Rightarrow> nat \<Rightarrow> nat \<Rightarrow> NativeMemory list \<times> cut_cache \<Rightarrow> NativeMemory list \<times> cut_cache" where
  "supplement_loop dict m lo hi s =
     (if lo < hi
      then (let s1 = fill_at dict m lo s; s2 = (if lo \<noteq> hi - 1 then fill_at dict m (hi - 1) s1 else s1) in supplement_loop dict m (lo + 1) (hi - 1) s2)
      else s)"
  by pat_completeness auto

termination
  by (relation "measure (\<lambda>(dict, m, lo, hi, s). hi - lo)") auto

declare supplement_loop.simps [simp del]

definition supplementNativeHoodData :: "data_dict \<Rightarrow> frame_map \<Rightarrow> NativeMemory list \<Rightarrow> cut_cache \<Rightarrow> NativeMemory list \<times> cut_cache" where
  "supplementNativeHoodData dict m rows cache = supplement_loop dict m 0 (length rows) (rows, cache)"

text \<open>The names that a row is given, whatever the cache has remembered.\<close>

definition named_row :: "data_dict \<Rightarrow> frame_map \<Rightarrow> nat \<Rightarrow> NativeMemory \<Rightarrow> NativeMemory" where
  "named_row dict m k r = fst (fillNativeHook dict m (int k) r Map.empty)"

definition dict_names :: "data_dict \<Rightarrow> frame_map \<Rightarrow> bool" where
  "dict_names dict m \<longleftrightarrow> (\<forall>(i, l)\<in>set m. \<forall>f\<in>set l. dict (ht_symbolId f) \<notin> {None, Some []} \<and> dict (ht_fileId f) \<notin> {None, Some []})"

definition cache_agrees :: "data_dict \<Rightarrow> cut_cache \<Rightarrow> bool" where
  "cache_agrees dict cache \<longleftrightarrow> (\<forall>i s. cache i = Some s \<longrightarrow> (case dict i of None \<Rightarrow> True | Some p \<Rightarrow> p = [] \<or> s = last_segment p))"

lemma cut_agrees:
  assumes "cache_agrees dict cache" "dict i = Some p" "p \<noteq> []"
  shows "fst (groupCutFilePath i (name_or dict i d) cache) = cut_name (last_segment p)" "cache_agrees dict (snd (groupCutFilePath i (name_or dict i d) cache))"
proof -
  have "s = last_segment p" if "cache i = Some s" for s using assms(1) [unfolded cache_agrees_def, rule_format, OF that] assms(2,3) by simp
  then show "fst (groupCutFilePath i (name_or dict i d) cache) = cut_name (last_segment p)"
    using assms(2,3) by (auto simp: groupCutFilePath_def name_or_def split: option.split)
  show "cache_agrees dict (snd (groupCutFilePath i (name_or dict i d) cache))"
    using assms by (auto simp: groupCutFilePath_def name_or_def cache_agrees_def split: option.splits)
qed

lemma row_frame_in: "row_frame dict l = Some f \<Longrightarrow> f \<in> set l"
  by (auto simp: row_frame_def find_Some_iff split: option.splits if_splits) (metis nth_mem set_rev length_rev)

lemma fill_named:
  assumes "dict_names dict m" "cache_agrees dict cache"
  shows "fst (fillNativeHook dict m (int k) r cache) = named_row dict m k r" "cache_agrees dict (snd (fillNativeHook dict m (int k) r cache))"
proof -
  have "fst (fillNativeHook dict m (int k) r cache) = named_row dict m k r \<and> cache_agrees dict (snd (fillNativeHook dict m (int k) r cache))"
  proof (cases "row_frame dict (frames_of m (nm_eventId r))")
    case None
    then show ?thesis using assms(2) by (simp add: fillNativeHook_def named_row_def Let_def)
  next
    case (Some f)
    then have "f \<in> set (frames_of m (nm_eventId r))" by (rule row_frame_in)
    then obtain l where "(nm_eventId r, l) \<in> set m" "f \<in> set l" by (cases "map_of m (nm_eventId r)") (auto simp: frames_of_def dest: map_of_SomeD)
    then obtain p q where p: "dict (ht_symbolId f) = Some p" "p \<noteq> []" and q: "dict (ht_fileId f) = Some q" "q \<noteq> []" using assms(1) by (fastforce simp: dict_names_def)
    have empty: "cache_agrees dict Map.empty" by (simp add: cache_agrees_def)
    let ?A = "groupCutFilePath (ht_symbolId f) (name_or dict (ht_symbolId f) [])" and ?B = "groupCutFilePath (ht_fileId f) (name_or dict (ht_fileId f) (js ''Unknown Path''))"
    have run: "fillNativeHook dict m (int k) r c =
      ((if nm_subTypeId r \<noteq> None \<and> nm_subType r = None then r\<lparr>nm_subType := Some (name_or dict (the (nm_subTypeId r)) (js ''-''))\<rparr> else r)
         \<lparr>nm_index := int k, nm_symbol := fst (?A c), nm_library := fst (?B (snd (?A c)))\<rparr>, snd (?B (snd (?A c))))" for c
      by (simp add: fillNativeHook_def Some Let_def case_prod_unfold)
    have names: "fst (?A c) = cut_name (last_segment p)" "fst (?B (snd (?A c))) = cut_name (last_segment q)" if "cache_agrees dict c" for c
      by (rule cut_agrees(1) [OF that p], rule cut_agrees(1) [OF cut_agrees(2) [OF that p] q])
    have "cache_agrees dict (snd (?B (snd (?A cache))))" by (rule cut_agrees(2) [OF cut_agrees(2) [OF assms(2) p] q])
    then show ?thesis unfolding run named_row_def by (simp add: names [OF assms(2)] names [OF empty])
  qed
  then show "fst (fillNativeHook dict m (int k) r cache) = named_row dict m k r" "cache_agrees dict (snd (fillNativeHook dict m (int k) r cache))" by auto
qed

lemma fill_at_named:
  assumes "dict_names dict m" "cache_agrees dict (snd s)"
  shows "fst (fill_at dict m k s) = (fst s)[k := named_row dict m k (fst s ! k)]" "cache_agrees dict (snd (fill_at dict m k s))"
  using fill_named [OF assms, of k "fst s ! k"] by (simp_all add: fill_at_def case_prod_unfold Let_def)

lemma supplement_named:
  "dict_names dict m \<Longrightarrow> cache_agrees dict (snd s) \<Longrightarrow> hi \<le> length (fst s) \<Longrightarrow> length (fst (supplement_loop dict m lo hi s)) = length (fst s)
    \<and> (\<forall>i<length (fst s). fst (supplement_loop dict m lo hi s) ! i = (if lo \<le> i \<and> i < hi then named_row dict m i (fst s ! i) else fst s ! i))"
proof (induction dict m lo hi s rule: supplement_loop.induct)
  case (1 dict m lo hi s)
  show ?case
  proof (cases "lo < hi")
    case True
    let ?s1 = "fill_at dict m lo s" and ?n = "\<lambda>i. named_row dict m i (fst s ! i)"
    let ?s2 = "if lo \<noteq> hi - 1 then fill_at dict m (hi - 1) ?s1 else ?s1"
    note f1 = fill_at_named [OF "1.prems"(1,2), of lo]
    note f2 = fill_at_named [OF "1.prems"(1) f1(2), of "hi - 1"]
    have fst2: "fst ?s2 = (fst s)[lo := ?n lo, hi - 1 := ?n (hi - 1)]" using f1(1) f2(1) True "1.prems"(3) by auto
    have cache2: "cache_agrees dict (snd ?s2)" using f1(2) f2(2) by (cases "lo = hi - 1") simp_all
    have run: "supplement_loop dict m lo hi s = supplement_loop dict m (lo + 1) (hi - 1) ?s2" using True by (subst supplement_loop.simps) (simp add: Let_def)
    have IH: "length (fst (supplement_loop dict m (lo + 1) (hi - 1) ?s2)) = length (fst ?s2)
      \<and> (\<forall>i<length (fst ?s2). fst (supplement_loop dict m (lo + 1) (hi - 1) ?s2) ! i = (if lo + 1 \<le> i \<and> i < hi - 1 then named_row dict m i (fst ?s2 ! i) else fst ?s2 ! i))"
      by (rule "1.IH" [OF True refl refl "1.prems"(1) cache2]) (use fst2 "1.prems"(3) in simp)
    show ?thesis using IH True "1.prems"(3) unfolding run fst2 by (auto simp: nth_list_update)
  next
    case False
    then show ?thesis by (auto simp: supplement_loop.simps)
  qed
qed

lemma supplement_rows_of:
  assumes "dict_names dict m" "cache_agrees dict cache"
  shows "fst (supplementNativeHoodData dict m rows cache) = map (\<lambda>(i, r). named_row dict m i r) (enumerate 0 rows)"
  using supplement_named [OF assms(1), of "(rows, cache)" "length rows" 0] assms(2)
  by (intro nth_equalityI) (auto simp: supplementNativeHoodData_def nth_enumerate_eq)

text \<open>The loop from both ends fills every row of the table once: the row at a position is given this position as its index and the names of its call chain, and the names that the cache
  holds or gains on the way make no difference, when every number of a frame has a name in the dictionary.\<close>

theorem supplement_rows:
  assumes "dict_names dict m" "cache_agrees dict cache"
  shows "fst (supplementNativeHoodData dict m rows cache) = map (\<lambda>(i, r). named_row dict m i r) (enumerate 0 rows)"
  by (rule supplement_rows_of [OF assms])

section \<open>Filtering and sorting the rows\<close>

datatype NmColumn = Col_index | Col_addr | Col_startTs | Col_heapSize

record NmArgs =
  na_allocType :: "jsstring option"
  na_eventType :: "int option"
  na_responseType :: "int option"
  na_leftNs :: int
  na_rightNs :: int
  na_sortColumn :: "NmColumn option"
  na_sortType :: int
  na_selection :: "StatisticsSelection list"
  na_refresh :: bool
  na_types :: "jsstring list"

definition row_type_info :: "NativeMemory \<Rightarrow> TypeInfo" where
  "row_type_info r = \<lparr>ti_eventType = nm_eventType r, ti_heapSize = nm_heapSize r, ti_subType = (case nm_subType r of None \<Rightarrow> [] | Some t \<Rightarrow> t), ti_subTypeId = nm_subTypeId r\<rparr>"

definition freed :: "NmArgs \<Rightarrow> NativeMemory \<Rightarrow> bool" where
  "freed a r = (case nm_endTs r of None \<Rightarrow> False | Some e \<Rightarrow> na_leftNs a < e \<and> e \<le> na_rightNs a \<and> e \<noteq> 0)"

text \<open>Without an event type the number is not a number and no row is kept.\<close>

definition keep_row :: "NmArgs \<Rightarrow> NativeMemory \<Rightarrow> bool result" where
  "keep_row a r =
     (let alloc = (if na_allocType a = Some (js ''1'') then \<not> freed a r else if na_allocType a = Some (js ''2'') then freed a r else True);
          lib = (na_responseType a = Some (- 1) \<or> na_responseType a = Some (nm_lastLibId r))
      in bindr (case na_eventType a of None \<Rightarrow> Inr False | Some t \<Rightarrow> getTypeFromIndex t (row_type_info r) (na_selection a)) (\<lambda>native. Inr (alloc \<and> native \<and> lib)))"

definition filters_rows :: "NmArgs \<Rightarrow> bool" where
  "filters_rows a \<longleftrightarrow> na_allocType a \<noteq> None \<or> na_eventType a \<noteq> None \<or> na_responseType a \<notin> {None, Some (- 1)}"

text \<open>A descending sort keeps the order of rows that compare equal, as an ascending one does.\<close>

definition sort_by :: "('a \<Rightarrow> 'b :: linorder) \<Rightarrow> int \<Rightarrow> 'a list \<Rightarrow> 'a list" where
  "sort_by f sortType xs = (if sortType = 1 then sort_key f xs else rev (sort_key f (rev xs)))"

definition sortByNativeMemoryColumn :: "NmColumn \<Rightarrow> int \<Rightarrow> NativeMemory list \<Rightarrow> NativeMemory list" where
  "sortByNativeMemoryColumn column sortType rows =
     (if sortType = 0 then rows
      else case column of
          Col_index \<Rightarrow> sort_by nm_index sortType rows
        | Col_startTs \<Rightarrow> sort_by nm_startTs sortType rows
        | Col_heapSize \<Rightarrow> sort_by nm_heapSize sortType rows
        | Col_addr \<Rightarrow> sort_by nm_addr sortType rows)"

text \<open>The rows of the reply, and the rows that the worker keeps: sorting without a filter sorts these in place.\<close>

definition resolvingActionNativeMemory :: "NmArgs \<Rightarrow> NativeMemory list \<Rightarrow> (NativeMemory list \<times> NativeMemory list) result" where
  "resolvingActionNativeMemory a box =
     (let order = (\<lambda>rows. case na_sortColumn a of None \<Rightarrow> rows | Some c \<Rightarrow> if na_sortType a \<noteq> 0 then sortByNativeMemoryColumn c (na_sortType a) rows else rows)
      in if filters_rows a then bindr (filter_r (keep_row a) box) (\<lambda>rows. Inr (order rows, box))
         else Inr (order box, order box))"

section \<open>The table is sorted\<close>

lemma filter_r_filter: "filter_r P xs = Inr ys \<Longrightarrow> ys = filter (\<lambda>x. P x = Inr True) xs"
  by (induction xs arbitrary: ys) (auto simp: bindr_eq_Inr_iff split: if_splits)

definition column_le :: "NmColumn \<Rightarrow> NativeMemory \<Rightarrow> NativeMemory \<Rightarrow> bool" where
  "column_le c x y = (case c of
     Col_index \<Rightarrow> nm_index x \<le> nm_index y | Col_startTs \<Rightarrow> nm_startTs x \<le> nm_startTs y | Col_heapSize \<Rightarrow> nm_heapSize x \<le> nm_heapSize y | Col_addr \<Rightarrow> nm_addr x \<le> nm_addr y)"

lemma sort_by_sorted:
  "mset (sort_by f t xs) = mset xs \<and> sorted_wrt (\<lambda>x y. if t = 1 then f x \<le> f y else f y \<le> f x) (sort_by f t xs) \<and> filter (\<lambda>y. f y = k) (sort_by f t xs) = filter (\<lambda>y. f y = k) xs"
proof -
  have "sorted_wrt (\<lambda>x y. f x \<le> f y) (sort_key f ys)" for ys using sorted_sort_key [of f ys] by (simp add: sorted_map)
  then show ?thesis by (simp add: sort_by_def sorted_wrt_rev sort_key_stable flip: rev_filter)
qed

lemma sortByNativeMemoryColumn_sorted:
  assumes "t \<noteq> 0"
  shows "mset (sortByNativeMemoryColumn c t xs) = mset xs \<and> sorted_wrt (\<lambda>x y. if t = 1 then column_le c x y else column_le c y x) (sortByNativeMemoryColumn c t xs)
    \<and> filter (\<lambda>y. column_le c x y \<and> column_le c y x) (sortByNativeMemoryColumn c t xs) = filter (\<lambda>y. column_le c x y \<and> column_le c y x) xs"
proof -
  have eq: "u \<le> v \<and> v \<le> u \<longleftrightarrow> v = u" for u v :: "'k :: linorder" by auto
  show ?thesis
    using assms sort_by_sorted [of nm_index t xs "nm_index x"] sort_by_sorted [of nm_startTs t xs "nm_startTs x"] sort_by_sorted [of nm_heapSize t xs "nm_heapSize x"]
      sort_by_sorted [of nm_addr t xs "nm_addr x"]
    by (cases c; cases "t = 1") (simp_all add: sortByNativeMemoryColumn_def column_le_def eq)
qed

text \<open>A table that is asked for in the order of a column has exactly the rows that pass the filters, in ascending or descending order of this column, and rows that are equal in it
  stay in the order in which they were loaded.\<close>

theorem table_sorted:
  assumes "resolvingActionNativeMemory a box = Inr (page, kept)" "na_sortColumn a = Some c" "na_sortType a \<noteq> 0"
  defines "wanted \<equiv> filter (\<lambda>r. filters_rows a \<longrightarrow> keep_row a r = Inr True) box" and "equal_in \<equiv> (\<lambda>x y. column_le c x y \<and> column_le c y x)"
  shows "mset page = mset wanted \<and> sorted_wrt (\<lambda>x y. if na_sortType a = 1 then column_le c x y else column_le c y x) page
    \<and> (\<forall>x. filter (equal_in x) page = filter (equal_in x) wanted)"
proof -
  have page: "page = sortByNativeMemoryColumn c (na_sortType a) wanted"
  proof (cases "filters_rows a")
    case True
    then obtain rows where "filter_r (keep_row a) box = Inr rows" "page = sortByNativeMemoryColumn c (na_sortType a) rows"
      using assms(1-3) by (auto simp: resolvingActionNativeMemory_def bindr_eq_Inr_iff Let_def)
    then show ?thesis using filter_r_filter [of "keep_row a" box rows] True by (simp add: wanted_def)
  next
    case False
    then show ?thesis using assms(1-3) by (simp add: resolvingActionNativeMemory_def wanted_def Let_def)
  qed
  note sorted = sortByNativeMemoryColumn_sorted [OF assms(3), of c wanted]
  show ?thesis unfolding equal_in_def page using sorted by blast
qed

section \<open>Stacks and libraries\<close>

record NativeHookCallInfo =
  nc_eventId :: int
  nc_depth :: int
  nc_addr :: jsstring
  nc_symbol :: jsstring
  nc_library :: jsstring
  nc_title :: jsstring
  nc_type :: int

fun stack_rows :: "data_dict \<Rightarrow> HeapTreeDataBean list \<Rightarrow> cut_cache \<Rightarrow> NativeHookCallInfo list \<times> cut_cache" where
  "stack_rows dict [] cache = ([], cache)"
| "stack_rows dict (f # fs) cache =
     (let (symbol, cache1) = groupCutFilePath (ht_symbolId f) (name_or dict (ht_symbolId f) []) cache;
          (library, cache2) = groupCutFilePath (ht_fileId f) (name_or dict (ht_fileId f) []) cache1;
          (rows, cache3) = stack_rows dict fs cache2
      in (\<lparr>nc_eventId = ht_eventId f, nc_depth = ht_depth f, nc_addr = ht_addr f, nc_symbol = symbol, nc_library = library,
           nc_title = js ''[ '' @ symbol @ js '' ]  '' @ library, nc_type = library_type library\<rparr> # rows, cache3))"

definition resolvingActionNativeMemoryStack :: "data_dict \<Rightarrow> frame_map \<Rightarrow> int \<Rightarrow> cut_cache \<Rightarrow> NativeHookCallInfo list \<times> cut_cache" where
  "resolvingActionNativeMemoryStack dict m eventId cache = stack_rows dict (frames_of m eventId) cache"

text \<open>The first row that starts at a time is selected.\<close>

fun select_row :: "int \<Rightarrow> NativeMemory list \<Rightarrow> NativeMemory list" where
  "select_row startTs [] = []"
| "select_row startTs (r # rs) = (if nm_startTs r = startTs then r\<lparr>nm_isSelected := True\<rparr> # rs else r # select_row startTs rs)"

fun response_types :: "(int option \<times> jsstring) list \<Rightarrow> cut_cache \<Rightarrow> (int \<times> jsstring) list \<times> cut_cache" where
  "response_types [] cache = ([], cache)"
| "response_types ((lib, v) # items) cache =
     (case lib of
        None \<Rightarrow> (let (rest, cache1) = response_types items cache in ((0, js ''-'') # rest, cache1))
      | Some i \<Rightarrow> (let (nm, cache1) = groupCutFilePath i v cache; (rest, cache2) = response_types items cache1 in ((i, nm) # rest, cache2)))"

definition initResponseTypeList :: "(int option \<times> jsstring) list \<Rightarrow> cut_cache \<Rightarrow> (int \<times> jsstring) list \<times> cut_cache" where
  "initResponseTypeList list cache = (let (rest, cache1) = response_types list cache in ((- 1, js ''ALL'') # rest, cache1))"

section \<open>Both attributions\<close>

text \<open>The table and the analysis name the same frame of a call chain unless all of it is in the C libraries; then the analysis names its last frame and the table its first.\<close>

lemma frame_agrees: "l \<noteq> [] \<Longrightarrow> list_ex (\<lambda>f. \<not> c_library dict f) l \<Longrightarrow> row_frame dict l = Some (last_chain dict l (length l))"
  by (auto simp: row_frame_def last_chain_find find_None_iff list_ex_iff split: option.split)

lemma frame_differs: "l \<noteq> [] \<Longrightarrow> \<not> list_ex (\<lambda>f. \<not> c_library dict f) l \<Longrightarrow> row_frame dict l = Some (hd l) \<and> last_chain dict l (length l) = last l"
  by (auto simp: row_frame_def last_chain_find find_Some_iff list_ex_iff split: option.split) (metis length_rev nth_mem set_rev)+

section \<open>Concrete instances\<close>

definition demo_dict :: data_dict where
  "demo_dict = Map.empty(3 \<mapsto> js ''main'', 4 \<mapsto> js ''malloc'', 9 \<mapsto> js ''/lib/app.so'')"

definition demo_hook_row :: NativeMemory where
  "demo_hook_row = \<lparr>nm_index = 0, nm_eventId = 1, nm_eventType = AllocEvent, nm_subType = None, nm_subTypeId = None, nm_addr = [], nm_startTs = 5, nm_endTs = None, nm_heapSize = 8,
     nm_symbol = [], nm_library = [], nm_lastLibId = 9, nm_isSelected = False\<rparr>"

theorem supplement_rows_witness:
  "map nm_index (fst (supplementNativeHoodData demo_dict [(1, [demo_frame 3, demo_frame 4])] [demo_hook_row, demo_hook_row, demo_hook_row] Map.empty)) = [0, 1, 2]"
proof -
  have "dict_names demo_dict [(1, [demo_frame 3, demo_frame 4])]" by (simp add: dict_names_def demo_dict_def demo_frame_def js_def)
  moreover have "cache_agrees demo_dict Map.empty" by (simp add: cache_agrees_def)
  moreover have "nm_index (named_row dict m i r) = int i" for dict m i r by (simp add: named_row_def fillNativeHook_def Let_def case_prod_unfold split: option.split)
  ultimately show ?thesis by (simp add: supplement_rows)
qed

definition demo_table_args :: NmArgs where
  "demo_table_args = \<lparr>na_allocType = Some (js ''0''), na_eventType = Some 0, na_responseType = Some (- 1), na_leftNs = 0, na_rightNs = 9, na_sortColumn = Some Col_heapSize, na_sortType = 2,
     na_selection = [], na_refresh = False, na_types = []\<rparr>"

theorem table_sorted_witness:
  "\<exists>page. resolvingActionNativeMemory demo_table_args [demo_hook_row, demo_hook_row\<lparr>nm_heapSize := 9\<rparr>] = Inr (page, [demo_hook_row, demo_hook_row\<lparr>nm_heapSize := 9\<rparr>])
     \<and> mset page = mset [demo_hook_row, demo_hook_row\<lparr>nm_heapSize := 9\<rparr>] \<and> sorted_wrt (\<lambda>x y. column_le Col_heapSize y x) page"
proof -
  have keep: "keep_row demo_table_args r = Inr True" for r by (simp add: keep_row_def demo_table_args_def getTypeFromIndex_def js_eq_iff)
  then have "\<exists>page. resolvingActionNativeMemory demo_table_args [demo_hook_row, demo_hook_row\<lparr>nm_heapSize := 9\<rparr>] = Inr (page, [demo_hook_row, demo_hook_row\<lparr>nm_heapSize := 9\<rparr>])"
    by (simp add: resolvingActionNativeMemory_def) (simp add: demo_table_args_def filters_rows_def)
  then obtain page where page: "resolvingActionNativeMemory demo_table_args [demo_hook_row, demo_hook_row\<lparr>nm_heapSize := 9\<rparr>] = Inr (page, [demo_hook_row, demo_hook_row\<lparr>nm_heapSize := 9\<rparr>])" ..
  have "na_sortColumn demo_table_args = Some Col_heapSize" "na_sortType demo_table_args \<noteq> 0" "na_sortType demo_table_args \<noteq> 1" by (simp_all add: demo_table_args_def)
  then show ?thesis using table_sorted [OF page] page keep by simp
qed

end
