(* ===== verification/Native_Chart.thy ===== *)
theory Native_Chart
  imports JS_Map
begin

text \<open>
  The native memory worker: the charts of memory over time
  (\<open>trace/database/logic-worker/ProcedureLogicWorkerNativeNemory.ts\<close>).

  A recorded trace has an event for every allocation and release, from which \<open>putArr\<close> draws the balance; events that follow the last row too soon are put aside and added
  to the next one. A sampled trace has rows with the totals of a call chain so far, of which \<open>statisticDataHandler\<close> takes the differences and
  \<open>handleNativeHookStatisticData\<close> the running sums. Fields that the code leaves \<open>undefined\<close> are options.
\<close>

section \<open>Events\<close>

record NativeEvent =
  ne_startTime :: int
  ne_heapSize :: int
  ne_eventType :: int

record HeapStruct =
  hs_startTime :: int
  hs_dur :: "int option"
  hs_density :: int
  hs_heapsize :: int
  hs_maxHeapSize :: int
  hs_maxDensity :: int
  hs_minHeapSize :: int
  hs_minDensity :: int

record ChartAcc =
  ca_arr :: "HeapStruct list"
  ca_maxSize :: int
  ca_maxDensity :: int
  ca_minSize :: int
  ca_minDensity :: int
  ca_tempSize :: int
  ca_tempDensity :: int

definition chart_start :: ChartAcc where
  "chart_start = \<lparr>ca_arr = [], ca_maxSize = 0, ca_maxDensity = 0, ca_minSize = 0, ca_minDensity = 0, ca_tempSize = 0, ca_tempDensity = 0\<rparr>"

definition is_apply :: "NativeEvent \<Rightarrow> bool" where
  "is_apply e \<longleftrightarrow> ne_eventType e = 0 \<or> ne_eventType e = 1"

definition event_density :: "NativeEvent \<Rightarrow> int" where
  "event_density e = (if is_apply e then 1 else - 1)"

definition event_size :: "NativeEvent \<Rightarrow> int" where
  "event_size e = (if is_apply e then ne_heapSize e else - ne_heapSize e)"

definition chart_row :: "int \<Rightarrow> int \<Rightarrow> int \<Rightarrow> HeapStruct" where
  "chart_row t d z = \<lparr>hs_startTime = t, hs_dur = None, hs_density = d, hs_heapsize = z, hs_maxHeapSize = 0, hs_maxDensity = 0, hs_minHeapSize = 0, hs_minDensity = 0\<rparr>"

definition putArr :: "int \<Rightarrow> NativeEvent \<Rightarrow> bool \<Rightarrow> ChartAcc \<Rightarrow> ChartAcc" where
  "putArr filterLevel ne finish a =
     (if ca_arr a = []
      then (let r = chart_row (ne_startTime ne) (event_density ne) (event_size ne) in
            a\<lparr>ca_arr := [r], ca_maxSize := hs_heapsize r, ca_maxDensity := hs_density r, ca_minSize := hs_heapsize r, ca_minDensity := hs_density r\<rparr>)
      else (let l = last (ca_arr a); dur = ne_startTime ne - hs_startTime l; arr = butlast (ca_arr a) @ [l\<lparr>hs_dur := Some dur\<rparr>]
            in if dur > filterLevel \<or> finish
               then (let r = chart_row (ne_startTime ne) (hs_density l + ca_tempDensity a + event_density ne) (hs_heapsize l + ca_tempSize a + event_size ne)
                     in \<lparr>ca_arr = arr @ [r],
                       ca_maxSize = (if hs_heapsize r > ca_maxSize a then hs_heapsize r else ca_maxSize a),
                       ca_maxDensity = (if hs_density r > ca_maxDensity a then hs_density r else ca_maxDensity a),
                       ca_minSize = (if hs_heapsize r < ca_minSize a then hs_heapsize r else ca_minSize a),
                       ca_minDensity = (if hs_density r < ca_minDensity a then hs_density r else ca_minDensity a),
                       ca_tempSize = 0, ca_tempDensity = 0\<rparr>)
               else a\<lparr>ca_arr := arr, ca_tempDensity := ca_tempDensity a + event_density ne, ca_tempSize := ca_tempSize a + event_size ne\<rparr>))"

definition getFilterLevel :: "nat \<Rightarrow> int" where
  "getFilterLevel len =
     (if len > 3000000 then 500000 else if len > 2000000 then 300000 else if len > 1000000 then 100000 else if len > 500000 then 50000
      else if len > 300000 then 20000 else if len > 150000 then 10000 else 0)"

definition chart_events :: "int \<Rightarrow> NativeEvent list \<Rightarrow> NativeEvent list" where
  "chart_events nativeMemoryType data =
     (if nativeMemoryType = 1 then filter (\<lambda>ne. ne_eventType ne = 0 \<or> ne_eventType ne = 2) data
      else if nativeMemoryType = 2 then filter (\<lambda>ne. ne_eventType ne = 1 \<or> ne_eventType ne = 3) data
      else data)"

definition put_all :: "int \<Rightarrow> NativeEvent list \<Rightarrow> ChartAcc" where
  "put_all filterLevel es = fold (\<lambda>(ne, finish). putArr filterLevel ne finish) (zip es (map (\<lambda>i. Suc i = length es) [0..<length es])) chart_start"

definition close_chart :: "int \<Rightarrow> ChartAcc \<Rightarrow> HeapStruct list" where
  "close_chart totalNS a =
     (let arr = (if ca_arr a = [] then [] else butlast (ca_arr a) @ [(last (ca_arr a))\<lparr>hs_dur := Some (totalNS - hs_startTime (last (ca_arr a)))\<rparr>])
      in map (\<lambda>r. r\<lparr>hs_maxHeapSize := ca_maxSize a, hs_maxDensity := ca_maxDensity a, hs_minHeapSize := ca_minSize a, hs_minDensity := ca_minDensity a\<rparr>) arr)"

definition nm_chart :: "int \<Rightarrow> int \<Rightarrow> NativeEvent list \<Rightarrow> HeapStruct list" where
  "nm_chart nativeMemoryType totalNS data = (let es = chart_events nativeMemoryType data in close_chart totalNS (put_all (getFilterLevel (length es)) es))"

section \<open>What a chart shows\<close>

definition balance :: "NativeEvent list \<Rightarrow> int \<times> int" where
  "balance es = (sum_list (map event_density es), sum_list (map event_size es))"

definition row_at :: "NativeEvent list \<Rightarrow> nat \<Rightarrow> int \<times> int \<times> int" where
  "row_at es p = (ne_startTime (es ! p), balance (take (Suc p) es))"

definition chart_point :: "HeapStruct \<Rightarrow> int \<times> int \<times> int" where
  "chart_point r = (hs_startTime r, hs_density r, hs_heapsize r)"

definition linked :: "HeapStruct list \<Rightarrow> bool" where
  "linked rs \<longleftrightarrow> (\<forall>i. Suc i < length rs \<longrightarrow> hs_dur (rs ! i) = Some (hs_startTime (rs ! Suc i) - hs_startTime (rs ! i)))"

definition extremes :: "HeapStruct list \<Rightarrow> ChartAcc \<Rightarrow> bool" where
  "extremes rs a \<longleftrightarrow> ca_maxSize a = Max (hs_heapsize ` set rs) \<and> ca_minSize a = Min (hs_heapsize ` set rs)
     \<and> ca_maxDensity a = Max (hs_density ` set rs) \<and> ca_minDensity a = Min (hs_density ` set rs)"

text \<open>The rows are those of chosen events, the first of all among them; what is put aside completes the last row to the balance.\<close>

definition chart_inv :: "NativeEvent list \<Rightarrow> nat list \<Rightarrow> ChartAcc \<Rightarrow> bool" where
  "chart_inv es ps a \<longleftrightarrow> sorted_wrt (<) ps \<and> (\<forall>p\<in>set ps. p < length es) \<and> ps \<noteq> [] \<and> hd ps = 0 \<and> map chart_point (ca_arr a) = map (row_at es) ps
     \<and> (hs_density (last (ca_arr a)) + ca_tempDensity a, hs_heapsize (last (ca_arr a)) + ca_tempSize a) = balance es
     \<and> linked (ca_arr a) \<and> extremes (ca_arr a) a"

lemma row_at_append: "p < length es \<Longrightarrow> row_at (es @ [e]) p = row_at es p"
  by (simp add: row_at_def nth_append)

lemma row_at_last: "row_at (es @ [e]) (length es) = (ne_startTime e, fst (balance es) + event_density e, snd (balance es) + event_size e)"
  by (simp add: row_at_def balance_def)

lemma balance_snoc: "balance (es @ [e]) = (fst (balance es) + event_density e, snd (balance es) + event_size e)"
  by (simp add: balance_def)

text \<open>Setting the duration of the last row.\<close>

definition set_last :: "int \<Rightarrow> HeapStruct list \<Rightarrow> HeapStruct list" where
  "set_last d rs = butlast rs @ [(last rs)\<lparr>hs_dur := Some d\<rparr>]"

lemma set_last_simps:
  assumes "rs \<noteq> []"
  shows "map chart_point (set_last d rs) = map chart_point rs" "length (set_last d rs) = length rs" "hs_heapsize ` set (set_last d rs) = hs_heapsize ` set rs"
    "hs_density ` set (set_last d rs) = hs_density ` set rs" "set_last d rs \<noteq> []" "chart_point (last (set_last d rs)) = chart_point (last rs)" "hs_startTime (last (set_last d rs)) = hs_startTime (last rs)"
    "hs_dur (last (set_last d rs)) = Some d"
  using assms by (cases rs rule: rev_cases; force simp: set_last_def chart_point_def)+

lemma linked_set_last:
  assumes "rs \<noteq> []" "linked rs"
  shows "linked (set_last d rs)"
proof -
  obtain xs x where rs: "rs = xs @ [x]" using assms(1) by (cases rs rule: rev_cases) auto
  show ?thesis using assms(2) by (auto simp: linked_def rs set_last_def nth_append split: if_splits)
qed

lemma linked_snoc: "linked rs \<Longrightarrow> rs \<noteq> [] \<Longrightarrow> hs_dur (last rs) = Some (hs_startTime r - hs_startTime (last rs)) \<Longrightarrow> linked (rs @ [r])"
  by (cases rs rule: rev_cases) (auto simp: linked_def nth_append less_Suc_eq)

lemma linked_tiles:
  assumes "linked rs" "rs \<noteq> []" "hs_dur (last rs) = Some (e - hs_startTime (last rs))"
  shows "map (\<lambda>r. hs_startTime r + the (hs_dur r)) rs = tl (map hs_startTime rs) @ [e]"
proof (rule nth_equalityI)
  fix i
  assume "i < length (map (\<lambda>r. hs_startTime r + the (hs_dur r)) rs)"
  then consider "Suc i < length rs" | "Suc i = length rs" by fastforce
  then show "map (\<lambda>r. hs_startTime r + the (hs_dur r)) rs ! i = (tl (map hs_startTime rs) @ [e]) ! i"
  proof cases
    case 1
    then have "i < length rs - 1" by linarith
    then show ?thesis using assms(1) 1 by (simp add: linked_def nth_append nth_tl)
  next
    case 2
    then have "last rs = rs ! i" using assms(2) by (metis diff_Suc_1 last_conv_nth)
    moreover have "length rs - 1 = i" using 2 by linarith
    ultimately show ?thesis using assms(3) 2 by (simp add: nth_append)
  qed
qed (use assms(2) in simp)

lemma putArr_eq:
  "ca_arr a \<noteq> [] \<Longrightarrow> ca_arr (putArr lvl ne fin a) =
    set_last (ne_startTime ne - hs_startTime (last (ca_arr a))) (ca_arr a) @
    (if ne_startTime ne - hs_startTime (last (ca_arr a)) > lvl \<or> fin
     then [chart_row (ne_startTime ne) (hs_density (last (ca_arr a)) + ca_tempDensity a + event_density ne) (hs_heapsize (last (ca_arr a)) + ca_tempSize a + event_size ne)] else [])"
  by (simp add: putArr_def set_last_def Let_def)

lemma chart_inv_first: "ca_arr a = [] \<Longrightarrow> ca_tempSize a = 0 \<Longrightarrow> ca_tempDensity a = 0 \<Longrightarrow> chart_inv [ne] [0] (putArr lvl ne fin a)"
  by (simp add: chart_inv_def putArr_def chart_row_def chart_point_def row_at_def balance_def linked_def extremes_def Let_def)

lemma chart_inv_row:
  assumes "chart_inv es ps a"
  shows "ca_arr a \<noteq> []"
    "chart_row (ne_startTime ne) (hs_density (last (ca_arr a)) + ca_tempDensity a + event_density ne) (hs_heapsize (last (ca_arr a)) + ca_tempSize a + event_size ne) =
     chart_row (ne_startTime ne) (fst (balance es) + event_density ne) (snd (balance es) + event_size ne)"
proof -
  show "ca_arr a \<noteq> []" using assms by (auto simp: chart_inv_def)
  have "hs_density (last (ca_arr a)) + ca_tempDensity a = fst (balance es)" "hs_heapsize (last (ca_arr a)) + ca_tempSize a = snd (balance es)"
    using assms by (auto simp: chart_inv_def prod_eq_iff)
  then show "chart_row (ne_startTime ne) (hs_density (last (ca_arr a)) + ca_tempDensity a + event_density ne) (hs_heapsize (last (ca_arr a)) + ca_tempSize a + event_size ne) =
     chart_row (ne_startTime ne) (fst (balance es) + event_density ne) (snd (balance es) + event_size ne)" by simp
qed

text \<open>An event makes a row, or is put aside.\<close>

lemma chart_inv_push:
  assumes inv: "chart_inv es ps a" and push: "ne_startTime ne - hs_startTime (last (ca_arr a)) > lvl \<or> fin"
  shows "chart_inv (es @ [ne]) (ps @ [length es]) (putArr lvl ne fin a)"
proof -
  let ?l = "last (ca_arr a)" and ?r = "chart_row (ne_startTime ne) (fst (balance es) + event_density ne) (snd (balance es) + event_size ne)"
  let ?arr = "set_last (ne_startTime ne - hs_startTime ?l) (ca_arr a)" and ?a = "putArr lvl ne fin a"
  note ne = chart_inv_row(1) [OF inv] and row = chart_inv_row(2) [OF inv, of ne]
  have arr: "ca_arr ?a = ?arr @ [?r]" unfolding putArr_eq [OF ne] row using push by simp
  have r: "chart_point ?r = row_at (es @ [ne]) (length es)" by (simp add: chart_point_def chart_row_def row_at_last)
  have "map chart_point (ca_arr ?a) = map (row_at (es @ [ne])) (ps @ [length es])"
    using inv by (auto simp: arr set_last_simps(1) [OF ne] r chart_inv_def row_at_append)
  moreover have "ca_tempDensity ?a = 0" "ca_tempSize ?a = 0" using push ne by (simp_all add: putArr_def Let_def)
  moreover have "linked (ca_arr ?a)" unfolding arr
  proof (rule linked_snoc)
    show "linked ?arr" using inv by (intro linked_set_last [OF ne]) (simp add: chart_inv_def)
    show "hs_dur (last ?arr) = Some (hs_startTime ?r - hs_startTime (last ?arr))"
      using set_last_simps(7,8) [OF ne, of "ne_startTime ne - hs_startTime ?l"] by (simp add: chart_point_def chart_row_def)
  qed (rule set_last_simps(5) [OF ne])
  moreover have "extremes (ca_arr ?a) ?a"
  proof -
    have "ca_maxSize ?a = max (hs_heapsize ?r) (ca_maxSize a)" "ca_minSize ?a = min (hs_heapsize ?r) (ca_minSize a)"
      "ca_maxDensity ?a = max (hs_density ?r) (ca_maxDensity a)" "ca_minDensity ?a = min (hs_density ?r) (ca_minDensity a)"
      using push ne row by (simp_all add: putArr_def Let_def max_def min_def chart_row_def)
    then show ?thesis using inv ne by (simp add: extremes_def chart_inv_def arr set_last_simps [OF ne])
  qed
  ultimately show ?thesis using inv by (auto simp: chart_inv_def sorted_wrt_append arr chart_row_def balance_snoc less_Suc_eq)
qed

lemma chart_inv_aside:
  assumes inv: "chart_inv es ps a" and keep: "\<not> (ne_startTime ne - hs_startTime (last (ca_arr a)) > lvl \<or> fin)"
  shows "chart_inv (es @ [ne]) ps (putArr lvl ne fin a)"
proof -
  let ?l = "last (ca_arr a)" and ?a = "putArr lvl ne fin a"
  note ne = chart_inv_row(1) [OF inv]
  have arr: "ca_arr ?a = set_last (ne_startTime ne - hs_startTime ?l) (ca_arr a)" unfolding putArr_eq [OF ne] using keep by simp
  have temps: "ca_tempDensity ?a = ca_tempDensity a + event_density ne" "ca_tempSize ?a = ca_tempSize a + event_size ne"
    "ca_maxSize ?a = ca_maxSize a" "ca_minSize ?a = ca_minSize a" "ca_maxDensity ?a = ca_maxDensity a" "ca_minDensity ?a = ca_minDensity a"
    using keep ne by (simp_all add: putArr_def Let_def)
  have "chart_point (last (ca_arr ?a)) = chart_point ?l" unfolding arr by (rule set_last_simps(6) [OF ne])
  then have l: "hs_density (last (ca_arr ?a)) = hs_density ?l" "hs_heapsize (last (ca_arr ?a)) = hs_heapsize ?l" by (simp_all add: chart_point_def)
  have "map chart_point (ca_arr ?a) = map (row_at (es @ [ne])) ps" using inv by (auto simp: arr set_last_simps(1) [OF ne] chart_inv_def row_at_append)
  moreover have "linked (ca_arr ?a)" unfolding arr using inv by (intro linked_set_last [OF ne]) (simp add: chart_inv_def)
  moreover have "extremes (ca_arr ?a) ?a" using inv by (simp add: extremes_def chart_inv_def arr set_last_simps [OF ne] temps)
  moreover have "(hs_density ?l + ca_tempDensity a, hs_heapsize ?l + ca_tempSize a) = balance es" using inv by (simp add: chart_inv_def)
  ultimately show ?thesis using inv by (auto simp: chart_inv_def l temps balance_snoc prod_eq_iff less_Suc_eq)
qed

definition put_flags :: "int \<Rightarrow> (NativeEvent \<times> bool) list \<Rightarrow> ChartAcc" where
  "put_flags lvl fs = fold (\<lambda>(ne, finish). putArr lvl ne finish) fs chart_start"

lemma put_flags_inv: "fs \<noteq> [] \<Longrightarrow> \<exists>ps. chart_inv (map fst fs) ps (put_flags lvl fs) \<and> (snd (last fs) \<longrightarrow> last ps = length fs - 1)"
proof (induction fs rule: rev_induct)
  case (snoc f fs)
  obtain ne fin where f: "f = (ne, fin)" by (cases f)
  show ?case
  proof (cases "fs = []")
    case True
    then show ?thesis using chart_inv_first [of chart_start ne lvl fin] by (auto simp: put_flags_def chart_start_def f)
  next
    case False
    then obtain ps where ps: "chart_inv (map fst fs) ps (put_flags lvl fs)" using snoc.IH by blast
    have run: "put_flags lvl (fs @ [f]) = putArr lvl ne fin (put_flags lvl fs)" by (simp add: put_flags_def f)
    show ?thesis
    proof (cases "ne_startTime ne - hs_startTime (last (ca_arr (put_flags lvl fs))) > lvl \<or> fin")
      case True
      show ?thesis using chart_inv_push [OF ps True] unfolding run by (intro exI [of _ "ps @ [length fs]"]) (simp add: f)
    next
      case False
      show ?thesis using chart_inv_aside [OF ps False] False unfolding run by (intro exI [of _ ps]) (simp add: f)
    qed
  qed
qed simp

text \<open>C16: the chart of a memory type shows the balance: its rows are those of chosen events in their order, the first and the last event among them, and a row has as its heap size what all events
  up to then have allocated less what they have released, and as its density the number of allocations less that of releases, however many events were put aside. A row lasts until the next one
  begins, the last one until the end of the trace, and the extremes that scale the chart are those of its rows.\<close>

theorem nm_chart_balance:
  "let es = chart_events nativeMemoryType data; rows = nm_chart nativeMemoryType totalNS data in
   if es = [] then rows = []
   else \<exists>ps. sorted_wrt (<) ps \<and> ps \<noteq> [] \<and> hd ps = 0 \<and> last ps = length es - 1 \<and> map chart_point rows = map (row_at es) ps
     \<and> map (\<lambda>r. hs_startTime r + the (hs_dur r)) rows = tl (map hs_startTime rows) @ [totalNS]
     \<and> list_all (\<lambda>r. hs_maxHeapSize r = Max (hs_heapsize ` set rows) \<and> hs_minHeapSize r = Min (hs_heapsize ` set rows)
          \<and> hs_maxDensity r = Max (hs_density ` set rows) \<and> hs_minDensity r = Min (hs_density ` set rows)) rows"
proof -
  define es where "es = chart_events nativeMemoryType data"
  define fs where "fs = zip es (map (\<lambda>i. Suc i = length es) [0..<length es])"
  let ?a = "put_flags (getFilterLevel (length es)) fs"
  have rows: "nm_chart nativeMemoryType totalNS data = close_chart totalNS ?a" by (simp add: nm_chart_def Let_def es_def fs_def put_all_def put_flags_def)
  show ?thesis
  proof (cases "es = []")
    case True
    then show ?thesis by (simp add: rows fs_def put_flags_def close_chart_def chart_start_def flip: es_def)
  next
    case False
    then have fs: "fs \<noteq> []" "map fst fs = es" "length fs = length es" "snd (last fs)" by (auto simp: fs_def last_conv_nth)
    obtain ps where inv: "chart_inv es ps ?a" and ps: "last ps = length es - 1" using put_flags_inv [OF fs(1), of "getFilterLevel (length es)"] fs by auto
    let ?z = "\<lambda>r. r\<lparr>hs_maxHeapSize := ca_maxSize ?a, hs_maxDensity := ca_maxDensity ?a, hs_minHeapSize := ca_minSize ?a, hs_minDensity := ca_minDensity ?a\<rparr>"
    note ne = chart_inv_row(1) [OF inv]
    let ?d = "totalNS - hs_startTime (last (ca_arr ?a))"
    define arr where "arr = set_last ?d (ca_arr ?a)"
    have chart: "close_chart totalNS ?a = map ?z arr" using ne by (simp add: close_chart_def arr_def set_last_def Let_def)
    have z: "chart_point (?z r) = chart_point r" for r by (simp add: chart_point_def)
    have "map chart_point (map ?z arr) = map chart_point arr" unfolding map_map comp_def z ..
    also have "\<dots> = map (row_at es) ps" using inv by (simp add: arr_def set_last_simps(1) [OF ne] chart_inv_def)
    finally have "map chart_point (map ?z arr) = map (row_at es) ps" .
    moreover have "map (\<lambda>r. hs_startTime r + the (hs_dur r)) arr = tl (map hs_startTime arr) @ [totalNS]"
      by (rule linked_tiles) (use inv ne in \<open>auto simp: arr_def set_last_simps linked_set_last chart_inv_def chart_point_def\<close>)
    moreover have "extremes arr ?a" using inv by (simp add: extremes_def chart_inv_def arr_def set_last_simps [OF ne])
    ultimately show ?thesis using False inv ps by (auto simp: Let_def rows chart chart_inv_def extremes_def comp_def image_image list_all_iff map_tl simp flip: es_def)
  qed
qed

end
