(* ===== verification/Native_Statistic.thy ===== *)
theory Native_Statistic
  imports JS_Map
begin

text \<open>
  The native memory worker: the chart of a sampled trace
  (\<open>trace/database/logic-worker/ProcedureLogicWorkerNativeNemory.ts\<close>).

  A row of the database has the totals of a call chain up to a time. The rows of one time are collected in a property of an object, whose name is the time in decimal
  notation; \<open>Object.values\<close> then lists array indices before other names.
\<close>

section \<open>Differences and running sums\<close>

record StatHook =
  sh_callchainId :: int
  sh_ts :: int
  sh_applyCount :: int
  sh_applySize :: int
  sh_releaseCount :: int
  sh_releaseSize :: int

record StatRow =
  sr_startTime :: int
  sr_heapsize :: int
  sr_density :: int
  sr_dur :: int
  sr_maxHeapSize :: int
  sr_maxDensity :: int
  sr_minHeapSize :: int
  sr_minDensity :: int

definition live_size :: "StatHook \<Rightarrow> int" where
  "live_size h = sh_applySize h - sh_releaseSize h"

definition live_count :: "StatHook \<Rightarrow> int" where
  "live_count h = sh_applyCount h - sh_releaseCount h"

text \<open>What a row adds: the difference to the last row of its call chain, or all of it.\<close>

definition hook_delta :: "StatHook list option \<Rightarrow> StatHook \<Rightarrow> int \<times> int" where
  "hook_delta calls h =
     (case calls of
        None \<Rightarrow> (sh_applySize h - sh_releaseSize h, sh_applyCount h - sh_releaseCount h)
      | Some l \<Rightarrow> (sh_applySize h - sh_applySize (last l) - (sh_releaseSize h - sh_releaseSize (last l)),
          sh_applyCount h - sh_applyCount (last l) - (sh_releaseCount h - sh_releaseCount (last l))))"

definition stat_key :: "StatHook \<times> int \<times> int \<Rightarrow> jsstring" where
  "stat_key d = js_num (sh_ts (fst d))"

definition stat_fresh :: "StatHook \<times> int \<times> int \<Rightarrow> StatRow" where
  "stat_fresh = (\<lambda>(h, size, cnt). \<lparr>sr_startTime = sh_ts h, sr_heapsize = size, sr_density = cnt, sr_dur = 0, sr_maxHeapSize = 0, sr_maxDensity = 0, sr_minHeapSize = 0, sr_minDensity = 0\<rparr>)"

definition stat_add :: "StatHook \<times> int \<times> int \<Rightarrow> StatRow \<Rightarrow> StatRow" where
  "stat_add = (\<lambda>(h, size, cnt) r. r\<lparr>sr_startTime := sh_ts h, sr_dur := 0, sr_heapsize := sr_heapsize r + size, sr_density := sr_density r + cnt\<rparr>)"

definition statistic_step :: "StatHook \<Rightarrow> (int \<Rightarrow> StatHook list option) \<times> (jsstring \<times> StatRow) list \<Rightarrow> (int \<Rightarrow> StatHook list option) \<times> (jsstring \<times> StatRow) list" where
  "statistic_step h = (\<lambda>(calls, obj).
     (calls(sh_callchainId h \<mapsto> (case calls (sh_callchainId h) of None \<Rightarrow> [h] | Some l \<Rightarrow> l @ [h])),
      group_step stat_key stat_fresh stat_add (h, hook_delta (calls (sh_callchainId h)) h) obj))"

definition statisticDataHandler :: "StatHook list \<Rightarrow> StatRow list" where
  "statisticDataHandler hooks = js_object_values (snd (fold statistic_step hooks (Map.empty, [])))"

fun running :: "int \<Rightarrow> StatRow list \<Rightarrow> StatRow list" where
  "running totalNS [] = []"
| "running totalNS [r] = [r\<lparr>sr_dur := totalNS - sr_startTime r\<rparr>]"
| "running totalNS (r # q # rs) =
     r\<lparr>sr_dur := sr_startTime q - sr_startTime r\<rparr> #
     running totalNS (q\<lparr>sr_heapsize := sr_heapsize r + sr_heapsize q, sr_density := sr_density r + sr_density q\<rparr> # rs)"

definition handleNativeHookStatisticData :: "int \<Rightarrow> StatRow list \<Rightarrow> StatRow list" where
  "handleNativeHookStatisticData totalNS arr =
     (let rows = running totalNS arr;
          maxSize = fold (\<lambda>r m. max m (sr_heapsize r)) rows 0; maxDensity = fold (\<lambda>r m. max m (sr_density r)) rows 0;
          minSize = fold (\<lambda>r m. min m (sr_heapsize r)) rows 0; minDensity = fold (\<lambda>r m. min m (sr_density r)) rows 0
      in map (\<lambda>r. r\<lparr>sr_maxHeapSize := maxSize, sr_maxDensity := maxDensity, sr_minHeapSize := minSize, sr_minDensity := minDensity\<rparr>) rows)"

section \<open>Differences add up to the last totals\<close>

definition chain_of :: "StatHook list \<Rightarrow> int \<Rightarrow> StatHook list option" where
  "chain_of hs c = (let l = filter (\<lambda>h. sh_callchainId h = c) hs in if l = [] then None else Some l)"

definition delta_rows :: "StatHook list \<Rightarrow> (StatHook \<times> int \<times> int) list" where
  "delta_rows hs = map (\<lambda>i. (hs ! i, hook_delta (chain_of (take i hs) (sh_callchainId (hs ! i))) (hs ! i))) [0..<length hs]"

lemma delta_rows_snoc: "delta_rows (hs @ [h]) = delta_rows hs @ [(h, hook_delta (chain_of hs (sh_callchainId h)) h)]"
  by (simp add: delta_rows_def nth_append)

lemma delta_rows_Nil [simp]: "delta_rows [] = []"
  by (simp add: delta_rows_def)

lemma statistic_run: "fold statistic_step hs (Map.empty, []) = (chain_of hs, group_all stat_key stat_fresh stat_add (delta_rows hs))"
proof (induction hs rule: rev_induct)
  case (snoc h hs)
  have "(chain_of hs)(sh_callchainId h \<mapsto> (case chain_of hs (sh_callchainId h) of None \<Rightarrow> [h] | Some l \<Rightarrow> l @ [h])) = chain_of (hs @ [h])"
    by (rule ext) (simp add: chain_of_def Let_def)
  then show ?case using snoc by (simp add: statistic_step_def delta_rows_snoc group_all_def)
qed (simp_all add: chain_of_def group_all_def fun_eq_iff)

definition live :: "(StatHook \<Rightarrow> int) \<Rightarrow> StatHook list \<Rightarrow> int" where
  "live f hs = (\<Sum>c\<in>sh_callchainId ` set hs. f (last (filter (\<lambda>h. sh_callchainId h = c) hs)))"

lemma live_snoc:
  "live f (hs @ [h]) = live f hs + f h - (case chain_of hs (sh_callchainId h) of None \<Rightarrow> 0 | Some l \<Rightarrow> f (last l))"
proof -
  let ?k = "sh_callchainId h" and ?l = "\<lambda>hs c. f (last (filter (\<lambda>h. sh_callchainId h = c) hs))" and ?S = "sh_callchainId ` set hs"
  have "live f (hs @ [h]) = (\<Sum>c\<in>insert ?k ?S. ?l (hs @ [h]) c)" by (simp add: live_def)
  also have "\<dots> = ?l (hs @ [h]) ?k + (\<Sum>c\<in>?S - {?k}. ?l (hs @ [h]) c)" by (subst sum.insert_remove) simp_all
  also have "(\<Sum>c\<in>?S - {?k}. ?l (hs @ [h]) c) = (\<Sum>c\<in>?S - {?k}. ?l hs c)" by (rule sum.cong) auto
  also have "\<dots> = live f hs - (if ?k \<in> ?S then ?l hs ?k else 0)" by (simp add: live_def sum_diff1)
  finally show ?thesis by (auto simp: chain_of_def Let_def filter_empty_conv image_iff)
qed

lemma live_Nil [simp]: "live f [] = 0"
  by (simp add: live_def)

lemma delta_sum:
  "sum_list (map (\<lambda>d. fst (snd d)) (delta_rows hs)) = live live_size hs"
  "sum_list (map (\<lambda>d. snd (snd d)) (delta_rows hs)) = live live_count hs"
proof (induction hs rule: rev_induct)
  case (snoc h hs)
  case 1
  then show ?case using snoc by (simp add: delta_rows_snoc live_snoc hook_delta_def live_size_def split: option.split)
next
  case (snoc h hs)
  case 2
  then show ?case using snoc by (simp add: delta_rows_snoc live_snoc hook_delta_def live_count_def split: option.split)
qed simp_all

text \<open>The differences of the rows up to a time are those of the rows that come first.\<close>

lemma delta_prefix: "n \<le> length hs \<Longrightarrow> take n (delta_rows hs) = delta_rows (take n hs)"
  by (rule nth_equalityI) (simp_all add: delta_rows_def)

lemma sorted_filter_take:
  fixes f :: "'a \<Rightarrow> 'b :: linorder"
  assumes "sorted (map f xs)"
  shows "\<exists>n\<le>length xs. filter (\<lambda>x. f x \<le> t) xs = take n xs \<and> (\<forall>i<length xs. f (xs ! i) \<le> t \<longleftrightarrow> i < n)"
  using assms
proof (induction xs)
  case (Cons x xs)
  then obtain n where n: "n \<le> length xs" "filter (\<lambda>x. f x \<le> t) xs = take n xs" "\<forall>i<length xs. f (xs ! i) \<le> t \<longleftrightarrow> i < n" by auto
  show ?case
  proof (cases "f x \<le> t")
    case True
    then show ?thesis using n by (intro exI [of _ "Suc n"]) (auto simp: nth_Cons split: nat.split)
  next
    case False
    then have "\<forall>y\<in>set xs. \<not> f y \<le> t" using Cons.prems by auto
    then show ?thesis using False by (intro exI [of _ 0]) (auto simp: nth_Cons filter_empty_conv split: nat.split)
  qed
qed simp

lemma delta_filter:
  assumes "sorted (map sh_ts hs)"
  shows "filter (\<lambda>d. sh_ts (fst d) \<le> t) (delta_rows hs) = delta_rows (filter (\<lambda>h. sh_ts h \<le> t) hs)"
proof -
  obtain n where n: "n \<le> length hs" "filter (\<lambda>h. sh_ts h \<le> t) hs = take n hs" "\<forall>i<length hs. sh_ts (hs ! i) \<le> t \<longleftrightarrow> i < n"
    using sorted_filter_take [OF assms, of t] by blast
  have "map (\<lambda>d. sh_ts (fst d)) (delta_rows hs) = map sh_ts hs" by (rule nth_equalityI) (simp_all add: delta_rows_def)
  then have "sorted (map (\<lambda>d. sh_ts (fst d)) (delta_rows hs))" using assms by simp
  from sorted_filter_take [OF this, of t] obtain n' where n': "n' \<le> length hs" "filter (\<lambda>d. sh_ts (fst d) \<le> t) (delta_rows hs) = take n' (delta_rows hs)"
    "\<forall>i<length hs. sh_ts (hs ! i) \<le> t \<longleftrightarrow> i < n'" by (auto simp: delta_rows_def)
  have "n = n'" using n(1,3) n'(1,3) by (metis linorder_neqE_nat order_less_le_trans less_irrefl)
  then show ?thesis using n(1,2) n'(2) by (simp add: delta_prefix)
qed

section \<open>The rows by time\<close>

interpretation stat_sizes: additive_group stat_fresh stat_add sr_heapsize "\<lambda>d. fst (snd d)"
  by unfold_locales (auto simp: stat_fresh_def stat_add_def)

interpretation stat_counts: additive_group stat_fresh stat_add sr_density "\<lambda>d. snd (snd d)"
  by unfold_locales (auto simp: stat_fresh_def stat_add_def)

lemma stat_start [simp]: "sr_startTime (stat_fresh d) = sh_ts (fst d)" "sr_startTime (stat_add d r) = sh_ts (fst d)"
  by (cases d; simp add: stat_fresh_def stat_add_def)+

text \<open>The object has a row for every time, in ascending order, with the differences of that time.\<close>

lemma statistic_object:
  assumes "sorted (map sh_ts hs)" "\<forall>h\<in>set hs. 0 \<le> sh_ts h"
  shows "map sr_startTime (statisticDataHandler hs) = sorted_list_of_set (sh_ts ` set hs)"
    "\<forall>r\<in>set (statisticDataHandler hs). sr_heapsize r = sum_list (map (\<lambda>d. fst (snd d)) (filter (\<lambda>d. sh_ts (fst d) = sr_startTime r) (delta_rows hs)))
      \<and> sr_density r = sum_list (map (\<lambda>d. snd (snd d)) (filter (\<lambda>d. sh_ts (fst d) = sr_startTime r) (delta_rows hs)))"
proof -
  let ?m = "group_all stat_key stat_fresh stat_add (delta_rows hs)" and ?f = "\<lambda>d. sh_ts (fst d)"
  have map_f: "map ?f (delta_rows hs) = map sh_ts hs" by (rule nth_equalityI) (simp_all add: delta_rows_def)
  then have img: "?f ` set (delta_rows hs) = sh_ts ` set hs" by (metis set_map)
  have nn: "\<forall>d\<in>set (delta_rows hs). 0 \<le> ?f d"
  proof
    fix d
    assume "d \<in> set (delta_rows hs)"
    then have "?f d \<in> sh_ts ` set hs" unfolding img [symmetric] by (rule imageI)
    then show "0 \<le> ?f d" using assms(2) by auto
  qed
  obtain ts where ts: "sorted_wrt (<) ts" "set ts = sh_ts ` set hs" "map fst ?m = map js_num ts"
    using group_keys_ascending [of ?f "delta_rows hs" stat_key stat_fresh stat_add] assms(1) nn by (auto simp: map_f img stat_key_def)
  have start: "k = js_num (sr_startTime v) \<and> 0 \<le> sr_startTime v" if kv: "(k, v) \<in> set ?m" for k v
  proof -
    obtain d where "d \<in> set (delta_rows hs)" "stat_key d = k" "sr_startTime v = ?f d" using group_last [OF kv] by auto
    then show ?thesis using nn by (auto simp: stat_key_def)
  qed
  have starts: "map (\<lambda>e. sr_startTime (snd e)) ?m = ts" by (rule decimal_keys [OF ts(3)]) (use start ts(2) assms(2) in auto)
  have "sorted (map (\<lambda>e. nat (sr_startTime (snd e))) ?m)"
  proof -
    have "sorted ts" using ts(1) by (simp add: strict_sorted_imp_sorted)
    then have "sorted (map nat ts)" by (simp add: sorted_wrt_map sorted_wrt_mono_rel [of _ "(\<le>)"])
    then show ?thesis by (simp add: comp_def flip: starts)
  qed
  then have vals: "statisticDataHandler hs = map snd ?m" unfolding statisticDataHandler_def statistic_run snd_conv
    by (rule object_values_ascending) (use start in auto)
  show "map sr_startTime (statisticDataHandler hs) = sorted_list_of_set (sh_ts ` set hs)"
    using ts(1) starts sorted_list_of_set.idem_if_sorted_distinct [of ts] by (simp add: vals comp_def strict_sorted_iff flip: ts(2))
  have "filter (\<lambda>d. stat_key d = k) (delta_rows hs) = filter (\<lambda>d. ?f d = sr_startTime v) (delta_rows hs)" if kv: "(k, v) \<in> set ?m" for k v
    using start [OF kv] nn js_num_inj by (intro filter_cong refl) (auto simp: stat_key_def)
  then show "\<forall>r\<in>set (statisticDataHandler hs). sr_heapsize r = sum_list (map (\<lambda>d. fst (snd d)) (filter (\<lambda>d. ?f d = sr_startTime r) (delta_rows hs)))
      \<and> sr_density r = sum_list (map (\<lambda>d. snd (snd d)) (filter (\<lambda>d. ?f d = sr_startTime r) (delta_rows hs)))"
    using stat_sizes.total_group stat_counts.total_group by (fastforce simp: vals)
qed

lemma running_nth:
  "k < length rs \<Longrightarrow> sr_heapsize (running e rs ! k) = sum_list (map sr_heapsize (take (Suc k) rs)) \<and> sr_density (running e rs ! k) = sum_list (map sr_density (take (Suc k) rs))
    \<and> sr_startTime (running e rs ! k) = sr_startTime (rs ! k)"
proof (induction e rs arbitrary: k rule: running.induct)
  case (3 e r q rs)
  then show ?case by (cases k) (auto simp: nth_Cons split: nat.splits)
qed simp_all

lemma length_running [simp]: "length (running e rs) = length rs"
  by (induction e rs rule: running.induct) simp_all

lemma sorted_take_mem: "sorted_wrt (<) ts \<Longrightarrow> k < length ts \<Longrightarrow> t \<in> set ts \<Longrightarrow> t \<in> set (take (Suc k) ts) \<longleftrightarrow> t \<le> ts ! k" for ts :: "int list"
proof -
  assume ts: "sorted_wrt (<) ts" "k < length ts" "t \<in> set ts"
  then obtain i where i: "i < length ts" "t = ts ! i" by (auto simp: in_set_conv_nth)
  have lt: "a < b \<Longrightarrow> b < length ts \<Longrightarrow> ts ! a < ts ! b" for a b using ts(1) by (simp add: sorted_wrt_nth_less)
  have "t \<in> set (take (Suc k) ts) \<longleftrightarrow> i \<le> k"
  proof
    assume "t \<in> set (take (Suc k) ts)"
    then obtain j where "j \<le> k" "ts ! j = ts ! i" "j < length ts" using i(2) ts(2) by (auto simp: in_set_conv_nth less_Suc_eq_le)
    then show "i \<le> k" using lt [of i j] lt [of j i] i(1) by (metis linorder_neqE_nat less_irrefl)
  next
    assume "i \<le> k"
    then show "t \<in> set (take (Suc k) ts)" using i by (auto simp: in_set_conv_nth intro!: exI [of _ i])
  qed
  also have "\<dots> \<longleftrightarrow> t \<le> ts ! k" using lt [of k i] lt [of i k] i ts(2) by (metis linorder_not_le order_less_imp_le order.order_iff_strict nat_less_le)
  finally show ?thesis .
qed

text \<open>C36: the chart of a sampled trace has one row for every time, in ascending order, and a row shows what is alive then: the sum over all call chains of what their last row up to this time says is
  allocated and not released. The differences that the code takes and the sums that it forms lose nothing, whatever call chains the rows of one time belong to.\<close>

theorem statistic_rows:
  assumes "sorted (map sh_ts hooks)" "\<forall>h\<in>set hooks. 0 \<le> sh_ts h"
  shows "map (\<lambda>r. (sr_startTime r, sr_heapsize r, sr_density r)) (handleNativeHookStatisticData totalNS (statisticDataHandler hooks)) =
    map (\<lambda>t. let before = filter (\<lambda>h. sh_ts h \<le> t) hooks in (t, live live_size before, live live_count before)) (sorted_list_of_set (sh_ts ` set hooks))"
proof -
  let ?rs = "statisticDataHandler hooks" and ?ts = "sorted_list_of_set (sh_ts ` set hooks)" and ?ds = "delta_rows hooks"
  note starts = statistic_object(1) [OF assms] and vals = statistic_object(2) [OF assms]
  have len: "length ?rs = length ?ts" using arg_cong [OF starts, of length] by simp
  have map_ts: "sh_ts (fst d) \<in> sh_ts ` set hooks" if "d \<in> set ?ds" for d using that by (auto simp: delta_rows_def)
  have sums: "sum_list (map f (take (Suc k) ?rs)) = sum_list (map w (delta_rows (filter (\<lambda>h. sh_ts h \<le> ?ts ! k) hooks)))"
    if k: "k < length ?rs" and f: "\<forall>r\<in>set ?rs. f r = sum_list (map w (filter (\<lambda>d. sh_ts (fst d) = sr_startTime r) ?ds))" for f :: "StatRow \<Rightarrow> int" and w k
  proof -
    have "map f (take (Suc k) ?rs) = map (\<lambda>t. sum_list (map w (filter (\<lambda>d. sh_ts (fst d) = t) ?ds))) (take (Suc k) (map sr_startTime ?rs))"
      using f by (auto simp: take_map dest: in_set_takeD)
    then have "sum_list (map f (take (Suc k) ?rs)) = sum_list (map w (filter (\<lambda>d. sh_ts (fst d) \<in> set (take (Suc k) ?ts)) ?ds))"
      using sum_by_key [of "take (Suc k) ?ts" w "\<lambda>d. sh_ts (fst d)" ?ds] by (simp add: starts)
    also have "filter (\<lambda>d. sh_ts (fst d) \<in> set (take (Suc k) ?ts)) ?ds = filter (\<lambda>d. sh_ts (fst d) \<le> ?ts ! k) ?ds"
      using sorted_take_mem [of ?ts k] map_ts k len by (intro filter_cong refl) auto
    finally show ?thesis by (simp add: delta_filter [OF assms(1)])
  qed
  have row: "(sr_startTime r, sr_heapsize r, sr_density r) = (let before = filter (\<lambda>h. sh_ts h \<le> ?ts ! k) hooks in (?ts ! k, live live_size before, live live_count before))"
    if "k < length ?rs" "r = running totalNS ?rs ! k" for k r
    using that running_nth [of k ?rs totalNS] sums [OF that(1), of sr_heapsize "\<lambda>d. fst (snd d)"] sums [OF that(1), of sr_density "\<lambda>d. snd (snd d)"] vals arg_cong [OF starts, of "\<lambda>l. l ! k"]
    by (simp add: delta_sum Let_def)
  show ?thesis by (rule nth_equalityI) (simp_all add: handleNativeHookStatisticData_def Let_def len row [unfolded Let_def, OF _ refl])
qed

section \<open>Concrete instances\<close>

text \<open>Two call chains; the first has a row at both times.\<close>

definition demo_hooks :: "StatHook list" where
  "demo_hooks =
     [\<lparr>sh_callchainId = 1, sh_ts = 3, sh_applyCount = 2, sh_applySize = 64, sh_releaseCount = 0, sh_releaseSize = 0\<rparr>,
      \<lparr>sh_callchainId = 1, sh_ts = 5, sh_applyCount = 3, sh_applySize = 96, sh_releaseCount = 2, sh_releaseSize = 64\<rparr>,
      \<lparr>sh_callchainId = 2, sh_ts = 5, sh_applyCount = 1, sh_applySize = 8, sh_releaseCount = 0, sh_releaseSize = 0\<rparr>]"

theorem statistic_rows_witness:
  "map (\<lambda>r. (sr_startTime r, sr_heapsize r, sr_density r)) (handleNativeHookStatisticData 9 (statisticDataHandler demo_hooks)) = [(3, 64, 2), (5, 40, 2)]"
  using statistic_rows [of demo_hooks 9] by (simp add: demo_hooks_def live_def live_size_def live_count_def)

end
