(* ===== verification/Perf_Tree.thy ===== *)
theory Perf_Tree
  imports Logic_Search Call_Tree
begin

text \<open>
  The perf worker: files, threads, call chains and the call tree
  (\<open>trace/database/logic-worker/ProcedureLogicWorkerPerf.ts\<close>).

  The objects \<open>filesData\<close>, \<open>threadData\<close> and \<open>callChainData\<close> are maps with integer keys of which only single entries are read. The time stamps of a
  sample are the numbers of its text \<open>ts\<close>. The links \<open>nextNode\<close> and \<open>previousNode\<close> between the entries of a call chain, which only
  \<open>getPerfCallChainsBySampleIds\<close> follows and nothing calls, and the texts \<open>addr\<close>, \<open>self\<close>, \<open>weight\<close> and \<open>weightPercent\<close> for the view are left out.
\<close>

section \<open>Data\<close>

record PerfFile =
  pfl_fileId :: int
  pfl_symbol :: jsstring
  pfl_path :: jsstring
  pfl_fileName :: jsstring

record PerfThread =
  pth_tid :: int
  pth_threadName :: jsstring
  pth_pid :: int
  pth_processName :: jsstring

record PerfCallChain =
  pcc_sampleId :: int
  pcc_name :: jsstring
  pcc_fileId :: int
  pcc_symbolId :: int
  pcc_vaddrInFile :: int
  pcc_fileName :: jsstring
  pcc_path :: jsstring
  pcc_canCharge :: bool

record PerfCountSample =
  pcs_sampleId :: int
  pcs_tid :: int
  pcs_count :: int
  pcs_threadState :: jsstring
  pcs_pid :: int
  pcs_eventCount :: int
  pcs_ts :: "int list"

type_synonym files_data = "int \<Rightarrow> PerfFile list option"
type_synonym thread_data = "int \<Rightarrow> PerfThread option"
type_synonym chain_data = "int \<Rightarrow> PerfCallChain list option"

section \<open>Files and call chains\<close>

definition perf_setFileName :: "PerfFile \<Rightarrow> PerfFile" where
  "perf_setFileName f =
     (let slash = of_char (CHR ''/''); tail = takeWhile (\<lambda>c. c \<noteq> slash) (rev (pfl_path f)) in
      f\<lparr>pfl_fileName := (if slash \<in> set (pfl_path f) \<and> length tail + 1 < length (pfl_path f) then rev tail else pfl_path f)\<rparr>)"

definition add_file :: "PerfFile \<Rightarrow> files_data \<Rightarrow> files_data" where
  "add_file f files = files(pfl_fileId f \<mapsto> (case files (pfl_fileId f) of None \<Rightarrow> [] | Some l \<Rightarrow> l) @ [perf_setFileName f])"

definition add_thread :: "PerfThread \<Rightarrow> thread_data \<Rightarrow> thread_data" where
  "add_thread t threads = threads(pth_tid t \<mapsto> t)"

text \<open>A negative symbol other than -1 would read the field of a missing element.\<close>

definition setPerfCallChainFrameName :: "files_data \<Rightarrow> PerfCallChain \<Rightarrow> PerfCallChain result" where
  "setPerfCallChainFrameName files c =
     (let c1 = c\<lparr>pcc_canCharge := True\<rparr>;
          unknown = Inr (c1\<lparr>pcc_fileName := js ''unknown''\<rparr>);
          named = (\<lambda>f. Inr (c1\<lparr>pcc_fileName := pfl_fileName f, pcc_path := pfl_path f\<rparr>))
      in case files (pcc_fileId c) of
           None \<Rightarrow> unknown
         | Some l \<Rightarrow>
             if pcc_symbolId c = - 1 then (if l \<noteq> [] then named (hd l) else unknown)
             else if int (length l) > pcc_symbolId c then (if 0 \<le> pcc_symbolId c then named (l ! nat (pcc_symbolId c)) else Inl TypeError)
             else unknown)"

definition maxDepth :: nat where "maxDepth = 128"

text \<open>A list that is too long loses its first entry before the new one is appended.\<close>

definition push_bounded :: "'a \<Rightarrow> 'a list \<Rightarrow> 'a list" where
  "push_bounded c l = (if length l > maxDepth then tl l else l) @ [c]"

definition addPerfGroupData :: "PerfCallChain \<Rightarrow> chain_data \<Rightarrow> chain_data" where
  "addPerfGroupData c m = m(pcc_sampleId c \<mapsto> push_bounded c (case m (pcc_sampleId c) of None \<Rightarrow> [] | Some l \<Rightarrow> l))"

fun chain_rows_loop :: "files_data \<Rightarrow> PerfCallChain list \<Rightarrow> chain_data \<Rightarrow> chain_data result" where
  "chain_rows_loop files [] m = Inr m"
| "chain_rows_loop files (c # cs) m =
     bindr (setPerfCallChainFrameName files c) (\<lambda>c1. chain_rows_loop files cs (addPerfGroupData c1 m))"

definition initPerfCallChainTopDown :: "files_data \<Rightarrow> PerfCallChain list \<Rightarrow> chain_data result" where
  "initPerfCallChainTopDown files callChains = chain_rows_loop files callChains Map.empty"

text \<open>The name of a row's file when there is one, and the last entries of a list.\<close>

definition framed :: "files_data \<Rightarrow> PerfCallChain \<Rightarrow> PerfCallChain" where
  "framed files c = (case setPerfCallChainFrameName files c of Inl e \<Rightarrow> c | Inr c1 \<Rightarrow> c1)"

definition last_n :: "nat \<Rightarrow> 'a list \<Rightarrow> 'a list" where
  "last_n k l = drop (length l - k) l"

lemma push_bounded_last: "push_bounded c (last_n (Suc maxDepth) l) = last_n (Suc maxDepth) (l @ [c])"
proof (cases "length l > maxDepth")
  case True
  then have "length l - maxDepth = Suc (length l - Suc maxDepth)" by simp
  then show ?thesis using True by (simp add: push_bounded_def last_n_def drop_Suc tl_drop)
next
  case False
  then have "length l - Suc maxDepth = 0" "length l - maxDepth = 0" by simp_all
  then show ?thesis using False by (simp add: push_bounded_def last_n_def)
qed

lemma setPerfCallChainFrameName_ok: "- 1 \<le> pcc_symbolId c \<Longrightarrow> setPerfCallChainFrameName files c = Inr (framed files c)"
  by (auto simp: framed_def setPerfCallChainFrameName_def Let_def split: option.split)

lemma framed_sampleId [simp]: "pcc_sampleId (framed files c) = pcc_sampleId c"
  by (auto simp: framed_def setPerfCallChainFrameName_def Let_def split: option.split sum.split)

lemma chain_rows_snoc:
  "chain_rows_loop files (rows @ [c]) m0 =
    bindr (chain_rows_loop files rows m0) (\<lambda>m. bindr (setPerfCallChainFrameName files c) (\<lambda>c1. Inr (addPerfGroupData c1 m)))"
  by (induction rows arbitrary: m0) (simp_all add: bindr_assoc)

text \<open>C35: loading the call chains succeeds for rows with valid symbols, and the call chain of a sample holds the last 129 of its rows in their order, one more than \<open>maxDepth\<close>: when there are
  more, the frames that come first are lost, which are the roots of the stack.\<close>

theorem initPerfCallChainTopDown_rows:
  assumes "\<forall>c\<in>set rows. - 1 \<le> pcc_symbolId c"
  shows "\<exists>m. initPerfCallChainTopDown files rows = Inr m \<and> (\<forall>i. let own = filter (\<lambda>c. pcc_sampleId c = i) rows in
    m i = (if own = [] then None else Some (last_n 129 (map (framed files) own))))"
  using assms
proof (induction rows rule: rev_induct)
  case (snoc c rows)
  then obtain m where m: "chain_rows_loop files rows Map.empty = Inr m"
    "m i = (let own = filter (\<lambda>c. pcc_sampleId c = i) rows in if own = [] then None else Some (last_n 129 (map (framed files) own)))" for i
    unfolding initPerfCallChainTopDown_def by (auto simp: Let_def)
  have "(case m i of None \<Rightarrow> [] | Some l \<Rightarrow> l) = last_n 129 (map (framed files) (filter (\<lambda>c. pcc_sampleId c = i) rows))" for i
    by (simp add: m(2) Let_def last_n_def)
  then have "addPerfGroupData (framed files c) m i =
      (let own = filter (\<lambda>c. pcc_sampleId c = i) (rows @ [c]) in if own = [] then None else Some (last_n 129 (map (framed files) own)))" for i
    using push_bounded_last [of "framed files c", unfolded maxDepth_def] m(2) [of i] by (simp add: addPerfGroupData_def Let_def)
  moreover have "initPerfCallChainTopDown files (rows @ [c]) = Inr (addPerfGroupData (framed files c) m)"
    using snoc.prems by (simp add: initPerfCallChainTopDown_def chain_rows_snoc m(1) setPerfCallChainFrameName_ok)
  ultimately show ?case by (simp add: Let_def)
qed (simp add: initPerfCallChainTopDown_def)

section \<open>The call tree\<close>

record PerfNode =
  pn_index :: nat
  pn_symbolName :: jsstring
  pn_symbol :: jsstring
  pn_libName :: jsstring
  pn_path :: jsstring
  pn_tid :: int
  pn_pid :: int
  pn_vaddrInFile :: int
  pn_canCharge :: bool
  pn_selfDur :: int
  pn_dur :: int
  pn_count :: int
  pn_tsArray :: "int list"

type_synonym PerfTree = "PerfNode CallTree"

definition newPerfNode :: "nat \<Rightarrow> PerfNode" where
  "newPerfNode n = \<lparr>pn_index = n, pn_symbolName = [], pn_symbol = [], pn_libName = [], pn_path = [], pn_tid = 0, pn_pid = 0, pn_vaddrInFile = 0,
     pn_canCharge = True, pn_selfDur = 0, pn_dur = 0, pn_count = 0, pn_tsArray = []\<rparr>"

definition perf_merageCallChainSample :: "PerfNode \<Rightarrow> PerfCallChain \<Rightarrow> PerfCountSample \<Rightarrow> bool \<Rightarrow> PerfNode" where
  "perf_merageCallChainSample b c x isEnd =
     (let b1 = (if pn_symbolName b = []
                then b\<lparr>pn_symbol := pcc_name c @ js ''  '' @ (if pcc_fileName c \<noteq> [] then js ''('' @ pcc_fileName c @ js '')'' else []),
                     pn_symbolName := pcc_name c, pn_pid := pcs_pid x, pn_tid := pcs_tid x, pn_libName := pcc_fileName c,
                     pn_vaddrInFile := pcc_vaddrInFile c, pn_canCharge := pcc_canCharge c,
                     pn_path := (if pcc_path c \<noteq> [] then pcc_path c else pn_path b)\<rparr>
                else b);
          b2 = (if isEnd then b1\<lparr>pn_selfDur := pn_selfDur b1 + pcs_count x\<rparr> else b1)
      in b2\<lparr>pn_dur := pn_dur b2 + pcs_count x, pn_count := pn_count b2 + pcs_count x, pn_tsArray := pn_tsArray b2 @ pcs_ts x\<rparr>)"

text \<open>The entries for the thread and its state in front of the call chain; the class gives them the defaults of its fields.\<close>

definition perf_entry :: "jsstring \<Rightarrow> jsstring \<Rightarrow> PerfCallChain" where
  "perf_entry nm fileName = \<lparr>pcc_sampleId = 0, pcc_name = nm, pcc_fileId = 0, pcc_symbolId = 0, pcc_vaddrInFile = 0, pcc_fileName = fileName, pcc_path = [],
     pcc_canCharge = False\<rparr>"

definition addOtherCallchainsData :: "thread_data \<Rightarrow> PerfCountSample \<Rightarrow> PerfCallChain list \<Rightarrow> PerfCallChain list result" where
  "addOtherCallchainsData threads x list =
     (case threads (pcs_tid x) of
        None \<Rightarrow> Inl TypeError
      | Some t \<Rightarrow>
          (let threadName = (if pth_threadName t \<noteq> [] then pth_threadName t else js ''Thread('' @ js_num (pcs_tid x) @ js '')'');
               stateName = (if pcs_threadState x \<noteq> [] then pcs_threadState x else js ''Unknown State'')
           in Inr (perf_entry threadName [] # perf_entry stateName (if stateName = js ''-'' then js ''Unknown Thread State'' else []) # list)))"

text \<open>The entries of a sample in the order of the walk; none when the sample has no call chain.\<close>

definition perf_entries :: "thread_data \<Rightarrow> chain_data \<Rightarrow> bool \<Rightarrow> PerfCountSample \<Rightarrow> PerfCallChain list result" where
  "perf_entries threads m isTopDown x =
     (case m (pcs_sampleId x) of
        None \<Rightarrow> Inr []
      | Some l \<Rightarrow> if l = [] then Inr [] else bindr (addOtherCallchainsData threads x l) (\<lambda>es. Inr (if isTopDown then es else rev es)))"

definition perf_matches :: "PerfNode \<Rightarrow> PerfCallChain \<Rightarrow> bool" where
  "perf_matches b c \<longleftrightarrow> pn_symbolName b = pcc_name c"

definition mergeChildrenByIndex :: "PerfCountSample \<Rightarrow> PerfCallChain list \<Rightarrow> PerfTree list \<Rightarrow> nat \<Rightarrow> PerfTree list \<times> nat" where
  "mergeChildrenByIndex = merge_chain perf_matches newPerfNode perf_merageCallChainSample"

definition perf_root_key :: "PerfCallChain \<Rightarrow> PerfCountSample \<Rightarrow> jsstring" where
  "perf_root_key c x = pcc_name c @ js_num (pcs_pid x)"

fun perf_samples :: "thread_data \<Rightarrow> chain_data \<Rightarrow> bool \<Rightarrow> PerfCountSample list \<Rightarrow> (jsstring \<times> PerfTree) list \<times> nat \<Rightarrow> ((jsstring \<times> PerfTree) list \<times> nat) result" where
  "perf_samples threads m isTopDown [] st = Inr st"
| "perf_samples threads m isTopDown (x # xs) st =
     bindr (perf_entries threads m isTopDown x) (\<lambda>es.
       perf_samples threads m isTopDown xs (root_step perf_matches newPerfNode perf_merageCallChainSample perf_root_key x es st))"

record PerfProcess =
  pp_pid :: int
  pp_tid :: int
  pp_symbolName :: jsstring
  pp_dur :: int
  pp_count :: int
  pp_tsArray :: "int list"
  pp_children :: "PerfTree list"

text \<open>The process of a root; \<open>pp_pid\<close> is its key in \<open>rootMerageMap\<close>. Its thread is in the table: the entries of the sample that opened the root were built with it.\<close>

definition perf_process_new :: "thread_data \<Rightarrow> PerfTree \<Rightarrow> PerfProcess" where
  "perf_process_new threads t = (let b = ct_bean t; nm = (case threads (pn_tid b) of None \<Rightarrow> [] | Some th \<Rightarrow> pth_processName th) in
     \<lparr>pp_pid = pn_pid b, pp_tid = pn_tid b, pp_symbolName = (if nm \<noteq> [] then nm else js ''Process'') @ js ''('' @ js_num (pn_pid b) @ js '')'',
      pp_dur = pn_dur b, pp_count = pn_dur b, pp_tsArray = pn_tsArray b, pp_children = [t]\<rparr>)"

definition perf_process_add :: "PerfTree \<Rightarrow> PerfProcess \<Rightarrow> PerfProcess" where
  "perf_process_add t p = (let b = ct_bean t in
     p\<lparr>pp_children := pp_children p @ [t], pp_dur := pp_dur p + pn_dur b, pp_count := pp_count p + pn_dur b, pp_tsArray := pp_tsArray p @ pn_tsArray b\<rparr>)"

definition perf_processes :: "thread_data \<Rightarrow> PerfTree list \<Rightarrow> PerfProcess list" where
  "perf_processes threads trees =
     js_object_values (group_all (\<lambda>t. js_num (pn_pid (ct_bean t))) (perf_process_new threads) perf_process_add trees)"

text \<open>The result: the processes, the number after the last node and the number of samples that percentages refer to. Numbers of nodes begin at \<open>n0\<close>.\<close>

definition freshPerfCallchains :: "thread_data \<Rightarrow> chain_data \<Rightarrow> PerfCountSample list \<Rightarrow> bool \<Rightarrow> nat \<Rightarrow> (PerfProcess list \<times> nat \<times> int) result" where
  "freshPerfCallchains threads m samples isTopDown n0 =
     bindr (perf_samples threads m isTopDown samples ([], n0)) (\<lambda>(trees, n).
       Inr (perf_processes threads (js_object_values trees), n, sum_list (map pcs_count samples)))"

section \<open>The nodes of the tree\<close>

lemma perf_merage_sel [simp]:
  "pn_dur (perf_merageCallChainSample b c x e) = pn_dur b + pcs_count x"
  "pn_selfDur (perf_merageCallChainSample b c x e) = pn_selfDur b + (if e then pcs_count x else 0)"
  "pn_symbolName (perf_merageCallChainSample b c x e) = (if pn_symbolName b = [] then pcc_name c else pn_symbolName b)"
  "pn_index (perf_merageCallChainSample b c x e) = pn_index b"
  by (simp_all add: perf_merageCallChainSample_def Let_def)

interpretation perf: timed_tree perf_matches newPerfNode perf_merageCallChainSample pn_symbolName pcc_name "\<lambda>C. True" "\<lambda>C b. True" pn_dur pn_selfDur pcs_count
  by unfold_locales (auto simp: perf_matches_def newPerfNode_def)

interpretation perf_process: additive_group "perf_process_new threads" perf_process_add pp_dur "\<lambda>t. pn_dur (ct_bean t)" for threads
  by unfold_locales (simp_all add: perf_process_new_def perf_process_add_def Let_def)

text \<open>When the threads of the samples are known the loop does not fail.\<close>

definition threads_known :: "thread_data \<Rightarrow> chain_data \<Rightarrow> PerfCountSample list \<Rightarrow> bool" where
  "threads_known threads m xs \<longleftrightarrow> (\<forall>x\<in>set xs. m (pcs_sampleId x) \<in> {None, Some []} \<or> threads (pcs_tid x) \<noteq> None)"

definition perf_chain :: "thread_data \<Rightarrow> chain_data \<Rightarrow> bool \<Rightarrow> PerfCountSample \<Rightarrow> PerfCallChain list" where
  "perf_chain threads m isTopDown x = (case perf_entries threads m isTopDown x of Inl e \<Rightarrow> [] | Inr es \<Rightarrow> es)"

lemma perf_entries_ok: "m (pcs_sampleId x) \<in> {None, Some []} \<or> threads (pcs_tid x) \<noteq> None \<Longrightarrow> perf_entries threads m d x = Inr (perf_chain threads m d x)"
  by (auto simp: perf_chain_def perf_entries_def addOtherCallchainsData_def Let_def split: option.split)

lemma perf_samples_fold:
  "threads_known threads m xs \<Longrightarrow> perf_samples threads m d xs st =
    Inr (fold (\<lambda>x. root_step perf_matches newPerfNode perf_merageCallChainSample perf_root_key x (perf_chain threads m d x)) xs st)"
  by (induction xs arbitrary: st) (auto simp: threads_known_def perf_entries_ok)

lemma perf_chain_simps:
  assumes "m (pcs_sampleId x) \<in> {None, Some []} \<or> threads (pcs_tid x) \<noteq> None"
  shows "perf_chain threads m d x = [] \<longleftrightarrow> m (pcs_sampleId x) \<in> {None, Some []}" "length (perf_chain threads m d x) \<noteq> 1"
  using assms by (auto simp: perf_chain_def perf_entries_def addOtherCallchainsData_def Let_def split: option.splits)

text \<open>C11: when the threads of the samples are known the call tree of perf is built, and it is described path by path: the tree of a root key is there exactly when samples
  lead to it; a path of names below it leads to a node exactly when the call chains of some of these samples go along it, and the node holds the number of these samples and, as its own
  number, of those whose call chain ends there.\<close>

theorem perf_tree_rows:
  fixes threads :: thread_data and m :: chain_data and isTopDown :: bool and r :: jsstring
  assumes "threads_known threads m samples"
  defines "ys \<equiv> rooted perf_root_key (perf_chain threads m isTopDown) r samples" and "on \<equiv> passing pcc_name (perf_chain threads m isTopDown)"
  shows "\<exists>trees n. perf_samples threads m isTopDown samples ([], n0) = Inr (trees, n) \<and>
    (case map_of trees r of
       None \<Rightarrow> ys = []
     | Some t \<Rightarrow> ys \<noteq> [] \<and> pn_dur (ct_bean t) = sum_list (map pcs_count ys) \<and> (\<forall>k q. let p = k # q in
         case tree_at pn_symbolName p (ct_kids t) of
           None \<Rightarrow> on p ys = []
         | Some b \<Rightarrow> on p ys \<noteq> [] \<and> pn_dur b = sum_list (map pcs_count (on p ys))
             \<and> pn_selfDur b = sum_list (map (\<lambda>x. if map pcc_name (tl (perf_chain threads m isTopDown x)) = p then pcs_count x else 0) (on p ys))))"
proof -
  obtain trees n where r: "fold (\<lambda>x. root_step perf_matches newPerfNode perf_merageCallChainSample perf_root_key x (perf_chain threads m isTopDown x)) samples ([], n0) = (trees, n)"
    by fastforce
  have "\<forall>x\<in>set samples. set (perf_chain threads m isTopDown x) \<subseteq> UNIV" by simp
  note rows = perf.forest_rows [where C = UNIV and xs = samples and entries = "perf_chain threads m isTopDown" and rkey = perf_root_key and r = r, OF TrueI this, of n0, unfolded r fst_conv]
  show ?thesis unfolding ys_def on_def perf_samples_fold [OF assms(1)] r by (intro exI conjI, rule refl, rule rows)
qed

lemma perf_totals:
  assumes "threads_known threads m samples"
  shows "\<exists>ps n. freshPerfCallchains threads m samples isTopDown n0 = Inr (ps, n, sum_list (map pcs_count samples))
    \<and> sum_list (map pp_dur ps) = sum_list (map pcs_count (filter (\<lambda>x. m (pcs_sampleId x) \<notin> {None, Some []}) samples))"
proof -
  let ?step = "\<lambda>x. root_step perf_matches newPerfNode perf_merageCallChainSample perf_root_key x (perf_chain threads m isTopDown x)"
  obtain trees n where r: "fold ?step samples ([], n0) = (trees, n)" by fastforce
  have "filter (\<lambda>x. perf_chain threads m isTopDown x \<noteq> []) samples = filter (\<lambda>x. m (pcs_sampleId x) \<notin> {None, Some []}) samples"
    using assms perf_chain_simps(1) by (intro filter_cong refl) (auto simp: threads_known_def)
  then have "perf.tree_dur.roots_total trees = sum_list (map pcs_count (filter (\<lambda>x. m (pcs_sampleId x) \<notin> {None, Some []}) samples))"
    using perf.tree_dur.forest_total [of perf_root_key "perf_chain threads m isTopDown" samples n0] by (simp add: r)
  then show ?thesis
    using perf_process.sum_group [of "\<lambda>t. js_num (pn_pid (ct_bean t))" threads "js_object_values trees"]
    by (simp add: freshPerfCallchains_def perf_samples_fold [OF assms] r perf_processes_def sum_js_object_values comp_def)
qed

text \<open>The counts of all processes add up to the counts of the samples that have a call chain: no sample is lost or counted twice, in either direction of the tree.\<close>

theorem perf_process_totals:
  assumes "threads_known threads m samples"
  shows "\<exists>ps n. freshPerfCallchains threads m samples isTopDown n0 = Inr (ps, n, sum_list (map pcs_count samples))
    \<and> sum_list (map pp_dur ps) = sum_list (map pcs_count (filter (\<lambda>x. m (pcs_sampleId x) \<notin> {None, Some []}) samples))"
  by (rule perf_totals [OF assms])

text \<open>C1: a sample with a call chain whose thread is not in the thread table makes the call tree fail with a \<open>TypeError\<close>.\<close>

theorem unknown_thread_raises:
  assumes "x \<in> set samples" "m (pcs_sampleId x) = Some (c # l)" "threads (pcs_tid x) = None"
  shows "freshPerfCallchains threads m samples isTopDown n0 = Inl TypeError"
proof -
  have "perf_samples threads m isTopDown samples st = Inl TypeError" for st
    using assms(1)
  proof (induction samples arbitrary: st)
    case (Cons y ys)
    show ?case
    proof (cases "perf_entries threads m isTopDown y")
      case (Inl e)
      then show ?thesis by (auto simp: perf_entries_def addOtherCallchainsData_def Let_def split: option.splits if_splits)
    next
      case (Inr es)
      then have "y \<noteq> x" using assms(2,3) by (auto simp: perf_entries_def addOtherCallchainsData_def)
      then show ?thesis using Cons Inr by simp
    qed
  qed simp
  then show ?thesis by (simp add: freshPerfCallchains_def)
qed

section \<open>Identifiers\<close>

text \<open>The tree as the filters see it: a node is its number, a process the number after those of the nodes. The rule for counts reads the field \<open>dur\<close>.\<close>

fun perf_mtree :: "PerfTree \<Rightarrow> MTree" where
  "perf_mtree (CallTree b kids) =
     MTree (pn_index b) \<lparr>mb_symbolName = pn_symbolName b, mb_libName = pn_libName b, mb_path = pn_path b, mb_count = pn_dur b\<rparr> (map perf_mtree kids)"

definition perf_mprocess :: "nat \<Rightarrow> PerfProcess \<Rightarrow> MTree" where
  "perf_mprocess i p =
     MTree i \<lparr>mb_symbolName = pp_symbolName p, mb_libName = [], mb_path = [], mb_count = pp_dur p\<rparr> (map perf_mtree (pp_children p))"

definition perf_forest :: "nat \<Rightarrow> PerfProcess list \<Rightarrow> MTree list" where
  "perf_forest n ps = map (\<lambda>(i, p). perf_mprocess i p) (zip [n..<n + length ps] ps)"

lemma perf_mtree_ids: "tree_ids (perf_mtree t) = tree_indexes pn_index t"
proof (induction t)
  case (CallTree b kids)
  then show ?case by (simp add: comp_def cong: map_cong)
qed

interpretation perf_numbers: numbered_tree newPerfNode perf_merageCallChainSample pn_index
  by unfold_locales (simp_all add: newPerfNode_def)

interpretation perf_children: additive_group "perf_process_new threads" perf_process_add
  "\<lambda>p. mset (concat (map (tree_indexes pn_index) (pp_children p)))" "\<lambda>t. mset (tree_indexes pn_index t)" for threads
  by unfold_locales (simp_all add: perf_process_new_def perf_process_add_def Let_def)

lemma sum_mset_concat: "sum_list (map (\<lambda>x. mset (f x)) xs) = mset (concat (map f xs))"
  by (induction xs) simp_all

lemma concat_perm: "mset xs = mset ys \<Longrightarrow> mset (concat (map f xs)) = mset (concat (map f ys))"
  by (simp add: mset_concat flip: sum_mset_sum_list)

text \<open>Trees whose nodes have the numbers from \<open>n0\<close> on, under roots with the numbers after them.\<close>

lemma numbered_forest:
  assumes n: "n0 \<le> n" and kids: "mset (concat (map (\<lambda>p. concat (map ids (children p))) ps)) = mset [n0..<n]"
    and mk: "\<And>i p. mt_id (mk i p) = i" "\<And>i p. tree_ids (mk i p) = i # concat (map ids (children p))"
  shows "forest_list (map2 mk [n..<n + length ps] ps) [n0..<n] \<and> trees_ids (map2 mk [n..<n + length ps] ps) \<subseteq> {..<n + length ps}"
proof -
  let ?is = "[n..<n + length ps]" and ?f = "\<lambda>p. concat (map ids (children p))"
  have forest: "mset (concat (map tree_ids (map2 mk is ps))) = mset is + mset (concat (map ?f ps)) \<and> map mt_id (map2 mk is ps) = is" if "length is = length ps" for "is"
    using that by (induction "is" ps rule: list_induct2) (simp_all add: mk)
  have all: "mset (concat (map tree_ids (map2 mk ?is ps))) = mset ([n0..<n] @ ?is)" using forest [of ?is] by (simp add: kids del: mset_upt)
  have seq: "distinct ([n0..<n] @ ?is)" "set ([n0..<n] @ ?is) = {n0..<n + length ps}" using n by auto
  have "distinct (concat (map tree_ids (map2 mk ?is ps)))" using mset_eq_imp_distinct_iff [OF all] seq(1) by simp
  moreover have "trees_ids (map2 mk ?is ps) = {n0..<n + length ps}" using mset_eq_setD [OF all] seq(2) by simp
  moreover have "mt_id ` set (map2 mk ?is ps) = {n..<n + length ps}" using arg_cong [OF conjunct2 [OF forest [of ?is]], of set] by (simp add: image_image)
  ultimately show ?thesis using n by (auto simp: forest_list_def)
qed

text \<open>Grouping trees keeps their nodes.\<close>

lemma grouped_children:
  assumes "additive_group fresh merge (\<lambda>p. mset (concat (map idx (children p)))) (\<lambda>t. mset (idx t))" and "mset (concat (map idx (map snd trees))) = mset ns"
  shows "mset (concat (map (\<lambda>p. concat (map idx (children p))) (js_object_values (group_all key fresh merge (js_object_values trees))))) = mset ns"
proof -
  let ?idx = "\<lambda>p. concat (map idx (children p))" and ?g = "group_all key fresh merge (js_object_values trees)"
  have "mset (concat (map ?idx (js_object_values ?g))) = mset (concat (map ?idx (map snd ?g)))" by (rule concat_perm [OF mset_js_object_values])
  also have "\<dots> = mset (concat (map idx (js_object_values trees)))"
    using additive_group.sum_group [OF assms(1), of key "js_object_values trees"] by (simp add: sum_mset_concat comp_def)
  also have "\<dots> = mset (concat (map idx (map snd trees)))" by (rule concat_perm [OF mset_js_object_values])
  finally show ?thesis using assms(2) by simp
qed

text \<open>The nodes of the tree have different numbers, from \<open>n0\<close> on, and the processes the numbers after them.\<close>

lemma perf_forest_list:
  assumes "threads_known threads m samples" "freshPerfCallchains threads m samples isTopDown n0 = Inr (ps, n, tot)"
  shows "forest_list (perf_forest n ps) [n0..<n] \<and> trees_ids (perf_forest n ps) \<subseteq> {..<n + length ps} \<and> n0 \<le> n"
proof -
  let ?step = "\<lambda>x. root_step perf_matches newPerfNode perf_merageCallChainSample perf_root_key x (perf_chain threads m isTopDown x)"
  obtain trees where r: "fold ?step samples ([], n0) = (trees, n)" and ps: "ps = perf_processes threads (js_object_values trees)"
    using assms by (cases "fold ?step samples ([], n0)") (auto simp: freshPerfCallchains_def perf_samples_fold)
  have num: "n0 \<le> n" "mset (perf_numbers.forest_indexes trees) = mset [n0..<n]"
    using perf_numbers.forest_numbers [of perf_matches perf_root_key "perf_chain threads m isTopDown" samples n0] by (simp_all add: r Let_def)
  have kids: "mset (concat (map (\<lambda>p. concat (map (tree_indexes pn_index) (pp_children p))) ps)) = mset [n0..<n]"
    unfolding ps perf_processes_def by (rule grouped_children [OF perf_children.additive_group_axioms]) (use num(2) in \<open>simp add: comp_def\<close>)
  have "perf_forest n ps = map2 perf_mprocess [n..<n + length ps] ps" by (simp add: perf_forest_def)
  then show ?thesis using numbered_forest [OF num(1) kids, of perf_mprocess] num(1) by (simp add: perf_mprocess_def perf_mtree_ids comp_def)
qed

text \<open>Identifiers are drawn from a counter, for a node of the list and then for the node above it, unless they have one.\<close>

definition assign_id :: "nat \<Rightarrow> (nat \<rightharpoonup> nat) \<times> nat \<Rightarrow> (nat \<rightharpoonup> nat) \<times> nat" where
  "assign_id i = (\<lambda>(ids, k). case ids i of None \<Rightarrow> (ids(i \<mapsto> k), Suc k) | Some _ \<Rightarrow> (ids, k))"

definition id_step :: "MTree list \<Rightarrow> nat \<Rightarrow> (nat \<rightharpoonup> nat) \<times> nat \<Rightarrow> (nat \<rightharpoonup> nat) \<times> nat" where
  "id_step data i st = (case parent_chain data i of [] \<Rightarrow> assign_id i st | p # _ \<Rightarrow> assign_id p (assign_id i st))"

definition assign_ids :: "MTree list \<Rightarrow> nat list \<Rightarrow> nat \<rightharpoonup> nat" where
  "assign_ids data list = fst (fold (id_step data) list (Map.empty, 0))"

definition ids_ok :: "(nat \<rightharpoonup> nat) \<times> nat \<Rightarrow> bool" where
  "ids_ok st \<longleftrightarrow> inj_on (fst st) (dom (fst st)) \<and> ran (fst st) \<subseteq> {..<snd st}"

lemma assign_id_ok: "ids_ok st \<Longrightarrow> ids_ok (assign_id i st) \<and> dom (fst (assign_id i st)) = insert i (dom (fst st))"
proof (cases st)
  case (Pair ids k)
  assume ok: "ids_ok st"
  show ?thesis
  proof (cases "ids i")
    case None
    have "\<forall>j\<in>dom ids. ids j \<noteq> Some k" using ok Pair by (auto simp: ids_ok_def ran_def)
    then show ?thesis using ok None Pair by (auto simp: assign_id_def ids_ok_def inj_on_def ran_def)
  next
    case (Some n)
    then show ?thesis using ok Pair by (auto simp: assign_id_def)
  qed
qed

text \<open>Every node of the list and every node above one of them receives an identifier, and no two of them the same: rows of the view are told apart by it.\<close>

theorem assign_ids_unique:
  "inj_on (assign_ids data list) (dom (assign_ids data list))
   \<and> dom (assign_ids data list) = set list \<union> {p. list_ex (\<lambda>i. case parent_chain data i of [] \<Rightarrow> False | q # _ \<Rightarrow> q = p) list}"
proof -
  have "ids_ok (fold (id_step data) list st) \<and> dom (fst (fold (id_step data) list st)) =
      dom (fst st) \<union> set list \<union> {p. list_ex (\<lambda>i. case parent_chain data i of [] \<Rightarrow> False | q # _ \<Rightarrow> q = p) list}" if "ids_ok st" for st
    using that
  proof (induction list arbitrary: st)
    case (Cons i list)
    have "ids_ok (id_step data i st) \<and> dom (fst (id_step data i st)) =
        dom (fst st) \<union> {i} \<union> {p. case parent_chain data i of [] \<Rightarrow> False | q # _ \<Rightarrow> q = p}"
      using assign_id_ok Cons.prems by (auto simp: id_step_def split: list.split)
    then show ?case using Cons.IH [of "id_step data i st"] by auto
  qed simp
  moreover have "ids_ok (Map.empty, 0)" "dom (fst (Map.empty, 0)) = {}" by (simp_all add: ids_ok_def)
  ultimately show ?thesis unfolding assign_ids_def ids_ok_def by (metis Un_empty_left)
qed

section \<open>Concrete instances\<close>

definition demo_perf_threads :: thread_data where
  "demo_perf_threads = Map.empty(7 \<mapsto> \<lparr>pth_tid = 7, pth_threadName = js ''worker'', pth_pid = 5, pth_processName = js ''app''\<rparr>,
     8 \<mapsto> \<lparr>pth_tid = 8, pth_threadName = js ''worker'', pth_pid = 5, pth_processName = js ''app''\<rparr>)"

definition demo_perf_row :: "int \<Rightarrow> string \<Rightarrow> PerfCallChain" where
  "demo_perf_row i nm = \<lparr>pcc_sampleId = i, pcc_name = js nm, pcc_fileId = 1, pcc_symbolId = - 1, pcc_vaddrInFile = 0, pcc_fileName = [], pcc_path = [], pcc_canCharge = False\<rparr>"

definition demo_perf_chains :: chain_data where
  "demo_perf_chains = Map.empty(1 \<mapsto> [demo_perf_row 1 ''main'', demo_perf_row 1 ''f''], 2 \<mapsto> [demo_perf_row 2 ''main''])"

definition demo_perf_sample :: "int \<Rightarrow> int \<Rightarrow> int \<Rightarrow> PerfCountSample" where
  "demo_perf_sample i tid c = \<lparr>pcs_sampleId = i, pcs_tid = tid, pcs_count = c, pcs_threadState = js ''Running'', pcs_pid = 5, pcs_eventCount = 1, pcs_ts = [1]\<rparr>"

lemmas demo_perf_defs = demo_perf_threads_def demo_perf_row_def demo_perf_chains_def demo_perf_sample_def

theorem initPerfCallChainTopDown_rows_witness:
  "\<exists>m. initPerfCallChainTopDown Map.empty [demo_perf_row 1 ''main'', demo_perf_row 2 ''g''] = Inr m \<and> m 2 = Some [demo_perf_row 2 ''g''\<lparr>pcc_canCharge := True, pcc_fileName := js ''unknown''\<rparr>]"
  using initPerfCallChainTopDown_rows [of "[demo_perf_row 1 ''main'', demo_perf_row 2 ''g'']" Map.empty]
  by (auto simp: demo_perf_row_def last_n_def framed_def setPerfCallChainFrameName_def Let_def)

theorem perf_tree_rows_witness:
  "\<exists>trees n. perf_samples demo_perf_threads demo_perf_chains True [demo_perf_sample 1 7 3, demo_perf_sample 2 7 4] ([], 0) = Inr (trees, n)
     \<and> pn_dur (ct_bean (the (map_of trees (js ''worker'' @ js_num 5)))) = 7"
proof -
  let ?xs = "[demo_perf_sample 1 7 3, demo_perf_sample 2 7 4]" and ?r = "js ''worker'' @ js_num 5"
  have "threads_known demo_perf_threads demo_perf_chains ?xs" by (simp add: threads_known_def demo_perf_defs)
  from perf_tree_rows [OF this, of True 0 ?r] obtain trees n where t: "perf_samples demo_perf_threads demo_perf_chains True ?xs ([], 0) = Inr (trees, n)"
    "case map_of trees ?r of None \<Rightarrow> rooted perf_root_key (perf_chain demo_perf_threads demo_perf_chains True) ?r ?xs = []
     | Some t \<Rightarrow> pn_dur (ct_bean t) = sum_list (map pcs_count (rooted perf_root_key (perf_chain demo_perf_threads demo_perf_chains True) ?r ?xs))"
    by (auto split: option.splits)
  have "rooted perf_root_key (perf_chain demo_perf_threads demo_perf_chains True) ?r ?xs = ?xs"
    by (simp add: rooted_def perf_chain_def perf_entries_def addOtherCallchainsData_def perf_root_key_def perf_entry_def demo_perf_defs js_def)
  then have "map_of trees ?r \<noteq> None" "pn_dur (ct_bean (the (map_of trees ?r))) = 7" using t(2) by (auto simp: demo_perf_sample_def split: option.splits)
  then show ?thesis using t(1) by blast
qed

theorem perf_process_totals_witness:
  "\<exists>ps n. freshPerfCallchains demo_perf_threads demo_perf_chains [demo_perf_sample 1 7 3, demo_perf_sample 9 7 4] True 0 = Inr (ps, n, 7) \<and> sum_list (map pp_dur ps) = 3"
  using perf_process_totals [of demo_perf_threads demo_perf_chains "[demo_perf_sample 1 7 3, demo_perf_sample 9 7 4]" True 0]
  by (simp add: threads_known_def demo_perf_defs)

theorem unknown_thread_raises_witness:
  "freshPerfCallchains demo_perf_threads demo_perf_chains [demo_perf_sample 1 7 3, demo_perf_sample 1 6 3] True 0 = Inl TypeError"
  by (rule unknown_thread_raises [of "demo_perf_sample 1 6 3" _ _ "demo_perf_row 1 ''main''" "[demo_perf_row 1 ''f'']"]) (simp_all add: demo_perf_defs)

text \<open>In the top-down tree two threads of a process that have the same name make one node: its key is the name without the number of the thread, which is only appended
  when a thread has no name.\<close>

theorem same_name_threads_merge:
  "map_sum id (\<lambda>(trees, n). map (\<lambda>(k, t). (k, pn_tid (ct_bean t), pn_dur (ct_bean t))) trees)
     (perf_samples demo_perf_threads demo_perf_chains True [demo_perf_sample 1 7 3, demo_perf_sample 1 8 4] ([], 0)) = Inr [(js ''worker'' @ js_num 5, 7, 7)]"
  by (simp add: perf_entries_def addOtherCallchainsData_def perf_root_key_def perf_entry_def demo_perf_defs js_def root_step_def perf_merageCallChainSample_def newPerfNode_def
      perf_matches_def Let_def)

end
