(* ===== verification/Perf_BottomUp.thy ===== *)
theory Perf_BottomUp
  imports Perf_Tree Complex_Main
begin

text \<open>
  The analysis and the bottom-up table of the perf worker (\<open>combineCallChainForAnalysis\<close> and \<open>getBottomUp\<close> of
  \<open>trace/database/logic-worker/ProcedureLogicWorkerPerf.ts\<close>, \<open>trace/bean/PerfBottomUpStruct.ts\<close>).

  The milliseconds of a sample are a fraction; the model computes with exact fractions where the program has floating-point numbers.
\<close>

section \<open>The analysis\<close>

record PerfAnalysisSample =
  pas_threadName :: jsstring
  pas_processName :: jsstring
  pas_libId :: int
  pas_libName :: jsstring
  pas_symbolId :: int
  pas_symbolName :: jsstring
  pas_tid :: int
  pas_pid :: int
  pas_count :: int
  pas_threadState :: jsstring
  pas_eventCount :: int

text \<open>Spreading a missing call chain, reading the last entry of an empty one and reading the name of an unknown thread raise.\<close>

definition analysis_sample :: "thread_data \<Rightarrow> chain_data \<Rightarrow> PerfCountSample \<Rightarrow> PerfAnalysisSample result" where
  "analysis_sample threads m x =
     (case (m (pcs_sampleId x), threads (pcs_tid x), threads (pcs_pid x)) of
        (Some l, Some t, Some p) \<Rightarrow>
          if l = [] then Inl TypeError
          else Inr \<lparr>pas_threadName = (if pth_threadName t \<noteq> [] then pth_threadName t else js ''Thread''),
                pas_processName = (if pth_threadName p \<noteq> [] then pth_threadName p else js ''Process''),
                pas_libId = pcc_fileId (last l), pas_libName = pcc_fileName (last l), pas_symbolId = pcc_symbolId (last l), pas_symbolName = pcc_name (last l),
                pas_tid = pcs_tid x, pas_pid = pcs_pid x, pas_count = pcs_count x, pas_threadState = pcs_threadState x, pas_eventCount = pcs_eventCount x\<rparr>
      | _ \<Rightarrow> Inl TypeError)"

fun combineCallChainForAnalysis :: "thread_data \<Rightarrow> chain_data \<Rightarrow> PerfCountSample list \<Rightarrow> PerfAnalysisSample list result" where
  "combineCallChainForAnalysis threads m [] = Inr []"
| "combineCallChainForAnalysis threads m (x # xs) =
     bindr (analysis_sample threads m x) (\<lambda>a. bindr (combineCallChainForAnalysis threads m xs) (\<lambda>as. Inr (a # as)))"

section \<open>The tree of functions\<close>

record BottomUpData =
  bu_symbolName :: jsstring
  bu_selfTime :: rat
  bu_totalTime :: rat
  bu_tsArray :: "int list"

datatype BottomUpTree = BottomUpTree (bt_data: BottomUpData) (bt_children: "BottomUpTree list")

definition newBottomUp :: "jsstring \<Rightarrow> BottomUpData" where
  "newBottomUp nm = \<lparr>bu_symbolName = nm, bu_selfTime = 0, bu_totalTime = 0, bu_tsArray = []\<rparr>"

definition kids_time :: "BottomUpTree list \<Rightarrow> rat" where
  "kids_time kids = sum_list (map (\<lambda>k. bu_totalTime (bt_data k)) kids)"

definition calculateSelfTime :: "BottomUpTree \<Rightarrow> BottomUpTree" where
  "calculateSelfTime n = BottomUpTree ((bt_data n)\<lparr>bu_selfTime := bu_totalTime (bt_data n) - kids_time (bt_children n)\<rparr>) (bt_children n)"

definition item_key :: "PerfCallChain \<Rightarrow> jsstring" where
  "item_key c = pcc_name c @ js ''('' @ pcc_fileName c @ js '')''"

definition bump :: "rat \<Rightarrow> int list \<Rightarrow> BottomUpTree \<Rightarrow> BottomUpTree" where
  "bump t ts n = calculateSelfTime (BottomUpTree ((bt_data n)\<lparr>bu_tsArray := bu_tsArray (bt_data n) @ ts, bu_totalTime := bu_totalTime (bt_data n) + t\<rparr>) (bt_children n))"

text \<open>The first child of a name is replaced; without one a new child is appended.\<close>

fun change_child :: "jsstring \<Rightarrow> (BottomUpTree \<Rightarrow> BottomUpTree) \<Rightarrow> BottomUpTree \<Rightarrow> BottomUpTree list \<Rightarrow> BottomUpTree list" where
  "change_child k f new [] = [new]"
| "change_child k f new (n # ns) = (if bu_symbolName (bt_data n) = k then f n # ns else n # change_child k f new ns)"

text \<open>
  One sample: a child is given the time of the sample and its own time is computed, then that of the node above it, and the walk goes on at the child. The walk
  does not change the total time of the child again.
\<close>

fun add_chain :: "rat \<Rightarrow> int list \<Rightarrow> PerfCallChain list \<Rightarrow> BottomUpTree \<Rightarrow> BottomUpTree" where
  "add_chain t ts [] n = n"
| "add_chain t ts (c # cs) n =
     calculateSelfTime (BottomUpTree (bt_data n)
       (change_child (item_key c) (\<lambda>k. add_chain t ts cs (bump t ts k)) (add_chain t ts cs (bump t ts (BottomUpTree (newBottomUp (item_key c)) []))) (bt_children n)))"

fun topUp_samples :: "rat \<Rightarrow> chain_data \<Rightarrow> PerfCountSample list \<Rightarrow> BottomUpTree \<Rightarrow> BottomUpTree result" where
  "topUp_samples perfTime m [] n = Inr n"
| "topUp_samples perfTime m (x # xs) n =
     (case m (pcs_sampleId x) of
        None \<Rightarrow> Inl TypeError
      | Some callChains \<Rightarrow> topUp_samples perfTime m xs (add_chain (perfTime * of_int (pcs_count x)) (pcs_ts x) callChains n))"

section \<open>Turning it around\<close>

text \<open>The callers of a function as a chain; every one of them is given the times of the function.\<close>

fun copyParentNode :: "BottomUpData \<Rightarrow> jsstring list \<Rightarrow> BottomUpTree list" where
  "copyParentNode d [] = []"
| "copyParentNode d (nm # nms) = [BottomUpTree (d\<lparr>bu_symbolName := nm\<rparr>) (copyParentNode d nms)]"

text \<open>\<open>ups\<close> are the names of the nodes above, the nearest first.\<close>

fun reverse_tree :: "jsstring list \<Rightarrow> BottomUpTree \<Rightarrow> BottomUpTree list" where
  "reverse_tree ups (BottomUpTree d kids) =
     (if bu_selfTime d > 0 then [BottomUpTree d (copyParentNode d ups)] else []) @ concat (map (reverse_tree (bu_symbolName d # ups)) kids)"

definition merge_same :: "BottomUpTree \<Rightarrow> BottomUpTree \<Rightarrow> BottomUpTree" where
  "merge_same n v = BottomUpTree ((bt_data v)\<lparr>bu_totalTime := bu_totalTime (bt_data v) + bu_totalTime (bt_data n),
     bu_selfTime := bu_selfTime (bt_data v) + bu_selfTime (bt_data n), bu_tsArray := bu_tsArray (bt_data v) @ bu_tsArray (bt_data n)\<rparr>) (bt_children v)"

text \<open>
  The field \<open>frameChildren\<close> of a struct is not given a value by its constructor. Pushing the children of merged structs to it is optional
  chaining on \<open>undefined\<close> and does nothing, and the recursive call for the next level finds nothing to merge: the rows of the first level are merged, and
  a row keeps the callers of the struct that came first.
\<close>

definition mergeTreeBifurcation :: "BottomUpTree list \<Rightarrow> BottomUpTree list" where
  "mergeTreeBifurcation ns = js_values (group_all (\<lambda>n. bu_symbolName (bt_data n)) id merge_same ns)"

definition getBottomUp :: "rat \<Rightarrow> chain_data \<Rightarrow> PerfCountSample list \<Rightarrow> BottomUpTree list result" where
  "getBottomUp perfTime m samples =
     bindr (topUp_samples perfTime m samples (BottomUpTree (newBottomUp (js ''topUp'')) [])) (\<lambda>topUp.
       Inr (mergeTreeBifurcation (concat (map (reverse_tree []) (bt_children topUp)))))"

section \<open>Own times\<close>

text \<open>The own times of all nodes of a name.\<close>

fun self_of :: "jsstring \<Rightarrow> BottomUpTree \<Rightarrow> rat" where
  "self_of k (BottomUpTree d kids) = (if bu_symbolName d = k then bu_selfTime d else 0) + sum_list (map (self_of k) kids)"

text \<open>Own times are what the children leave of the total, and not negative.\<close>

fun bu_ok :: "BottomUpTree \<Rightarrow> bool" where
  "bu_ok (BottomUpTree d kids) \<longleftrightarrow> bu_selfTime d = bu_totalTime d - kids_time kids \<and> 0 \<le> bu_selfTime d \<and> (\<forall>k\<in>set kids. bu_ok k)"

lemma calculateSelfTime_sel [simp]:
  "bt_children (calculateSelfTime n) = bt_children n" "bu_symbolName (bt_data (calculateSelfTime n)) = bu_symbolName (bt_data n)"
  "bu_totalTime (bt_data (calculateSelfTime n)) = bu_totalTime (bt_data n)"
  by (simp_all add: calculateSelfTime_def)

lemma bump_sel [simp]:
  "bt_children (bump t ts n) = bt_children n" "bu_symbolName (bt_data (bump t ts n)) = bu_symbolName (bt_data n)"
  "bu_totalTime (bt_data (bump t ts n)) = bu_totalTime (bt_data n) + t"
  by (simp_all add: bump_def)

lemma add_chain_data [simp]:
  "bu_symbolName (bt_data (add_chain t ts cs n)) = bu_symbolName (bt_data n)" "bu_totalTime (bt_data (add_chain t ts cs n)) = bu_totalTime (bt_data n)"
  by (cases cs; simp)+

text \<open>A child that a chain is added below, and a new one.\<close>

abbreviation grown :: "rat \<Rightarrow> int list \<Rightarrow> PerfCallChain list \<Rightarrow> BottomUpTree \<Rightarrow> BottomUpTree" where
  "grown t ts cs n \<equiv> add_chain t ts cs (bump t ts n)"

abbreviation fresh_node :: "jsstring \<Rightarrow> BottomUpTree" where
  "fresh_node k \<equiv> BottomUpTree (newBottomUp k) []"

lemma change_child_sum:
  assumes "g (f n0) = g n0 + d" "\<And>n. n \<in> set kids \<Longrightarrow> bu_symbolName (bt_data n) = k \<Longrightarrow> g (f n) = g n + d" "g n0 = (0 :: rat)"
  shows "sum_list (map g (change_child k f (f n0) kids)) = sum_list (map g kids) + d"
  using assms(2) by (induction kids) (simp_all add: assms(1,3))

lemma change_child_set: "set (change_child k f new kids) \<subseteq> insert new (set kids \<union> f ` set kids)"
  by (induction kids) auto

lemma changed_kids:
  assumes f: "\<And>j. bu_ok j \<Longrightarrow> bu_ok (f j) \<and> self_of q (f j) = self_of q j + e (bu_symbolName (bt_data j))" and kids: "\<forall>j\<in>set kids. bu_ok j"
  shows "\<forall>j\<in>set (change_child k f (f (fresh_node k)) kids). bu_ok j"
    "sum_list (map (self_of q) (change_child k f (f (fresh_node k)) kids)) = sum_list (map (self_of q) kids) + e k"
proof -
  have fresh: "bu_ok (fresh_node k)" "self_of q (fresh_node k) = 0" "bu_symbolName (newBottomUp k) = k" by (simp_all add: newBottomUp_def kids_time_def)
  have "\<forall>j\<in>insert (f (fresh_node k)) (set kids \<union> f ` set kids). bu_ok j" using f fresh(1) kids by (auto simp del: bu_ok.simps)
  then show "\<forall>j\<in>set (change_child k f (f (fresh_node k)) kids). bu_ok j" using change_child_set [of k f "f (fresh_node k)" kids] by (meson subsetD)
  show "sum_list (map (self_of q) (change_child k f (f (fresh_node k)) kids)) = sum_list (map (self_of q) kids) + e k"
    by (rule change_child_sum) (use f [OF fresh(1)] f kids fresh in \<open>auto simp del: bu_ok.simps self_of.simps\<close>)
qed

definition end_time :: "jsstring \<Rightarrow> rat \<Rightarrow> jsstring \<Rightarrow> PerfCallChain list \<Rightarrow> rat" where
  "end_time q t nm cs = (if (if cs = [] then nm else item_key (last cs)) = q then t else 0)"

lemma grown_ok: "0 \<le> t \<Longrightarrow> bu_ok n \<Longrightarrow> bu_ok (grown t ts cs n) \<and> self_of q (grown t ts cs n) = self_of q n + end_time q t (bu_symbolName (bt_data n)) cs"
proof (induction cs arbitrary: n)
  case Nil
  obtain d kids where n: "n = BottomUpTree d kids" by (cases n)
  show ?case using Nil by (auto simp: n bump_def calculateSelfTime_def end_time_def)
next
  case (Cons c cs)
  obtain d kids where n: "n = BottomUpTree d kids" by (cases n)
  let ?k = "item_key c" and ?f = "grown t ts cs"
  let ?kids = "change_child ?k ?f (?f (fresh_node ?k)) kids"
  have IH: "bu_ok (?f j) \<and> self_of q (?f j) = self_of q j + end_time q t (bu_symbolName (bt_data j)) cs" if "bu_ok j" for j using Cons.IH Cons.prems(1) that by blast
  have kids: "\<forall>j\<in>set kids. bu_ok j" using Cons.prems(2) n by simp
  note changed = changed_kids [where q = q and e = "\<lambda>nm. end_time q t nm cs", OF IH kids, of ?k]
  have "kids_time ?kids = kids_time kids + t" unfolding kids_time_def by (rule change_child_sum) (simp_all add: newBottomUp_def)
  then show ?case using changed Cons.prems(2) by (simp add: n bump_def calculateSelfTime_def end_time_def)
qed

text \<open>The name of the function on top of a sample.\<close>

definition top_of :: "chain_data \<Rightarrow> PerfCountSample \<Rightarrow> jsstring" where
  "top_of m x = (case m (pcs_sampleId x) of None \<Rightarrow> [] | Some l \<Rightarrow> item_key (last l))"

definition chains_known :: "chain_data \<Rightarrow> PerfCountSample list \<Rightarrow> bool" where
  "chains_known m xs \<longleftrightarrow> (\<forall>x\<in>set xs. m (pcs_sampleId x) \<notin> {None, Some []} \<and> 0 < pcs_count x)"

lemma topUp_self:
  assumes "0 < perfTime" "chains_known m xs" "\<forall>k\<in>set (bt_children n). bu_ok k"
  shows "\<exists>n'. topUp_samples perfTime m xs n = Inr n' \<and> (\<forall>k\<in>set (bt_children n'). bu_ok k) \<and> (\<forall>q. sum_list (map (self_of q) (bt_children n')) =
    sum_list (map (self_of q) (bt_children n)) + perfTime * of_int (sum_list (map pcs_count (filter (\<lambda>x. top_of m x = q) xs))))"
  using assms(2,3)
proof (induction xs arbitrary: n)
  case (Cons x xs)
  then obtain c cs where chain: "m (pcs_sampleId x) = Some (c # cs)" and count: "0 < pcs_count x" by (auto simp: chains_known_def neq_Nil_conv)
  let ?t = "perfTime * of_int (pcs_count x)" and ?k = "item_key c"
  let ?f = "grown ?t (pcs_ts x) cs"
  let ?n = "add_chain ?t (pcs_ts x) (c # cs) n"
  have t: "0 \<le> ?t" using assms(1) count by simp
  have kids': "bt_children ?n = change_child ?k ?f (?f (fresh_node ?k)) (bt_children n)" by simp
  have ok: "\<forall>j\<in>set (bt_children ?n). bu_ok j" unfolding kids' by (rule changed_kids(1) [OF grown_ok [OF t] Cons.prems(2)])
  have sum: "sum_list (map (self_of q) (bt_children ?n)) = sum_list (map (self_of q) (bt_children n)) + (if top_of m x = q then ?t else 0)" for q
  proof -
    have "sum_list (map (self_of q) (bt_children ?n)) = sum_list (map (self_of q) (bt_children n)) + end_time q ?t ?k cs"
      unfolding kids' by (rule changed_kids(2) [OF grown_ok [OF t] Cons.prems(2)])
    then show ?thesis by (simp add: end_time_def top_of_def chain)
  qed
  have "chains_known m xs" using Cons.prems(1) by (simp add: chains_known_def)
  from Cons.IH [OF this ok] obtain n' where n': "topUp_samples perfTime m xs ?n = Inr n'" "\<forall>k\<in>set (bt_children n'). bu_ok k"
    "\<forall>q. sum_list (map (self_of q) (bt_children n')) = sum_list (map (self_of q) (bt_children ?n)) + perfTime * of_int (sum_list (map pcs_count (filter (\<lambda>x. top_of m x = q) xs)))"
    by blast
  then show ?case by (auto simp: chain sum algebra_simps simp del: add_chain.simps)
qed (simp add: chains_known_def)

lemma reverse_self:
  "bu_ok n \<Longrightarrow> sum_list (map (\<lambda>r. bu_selfTime (bt_data r)) (filter (\<lambda>r. bu_symbolName (bt_data r) = q) (reverse_tree ups n))) = self_of q n"
proof (induction n arbitrary: ups)
  case (BottomUpTree d kids)
  have "sum_list (map (\<lambda>r. bu_selfTime (bt_data r)) (filter (\<lambda>r. bu_symbolName (bt_data r) = q) (concat (map (reverse_tree (bu_symbolName d # ups)) ks))))
      = sum_list (map (self_of q) ks)" if "set ks \<subseteq> set kids" for ks
    using that BottomUpTree by (induction ks) simp_all
  from this [of kids] show ?case using BottomUpTree.prems by simp
qed

lemma reverse_pos: "r \<in> set (reverse_tree ups n) \<Longrightarrow> 0 < bu_selfTime (bt_data r)"
  by (induction n arbitrary: ups) (auto split: if_splits)

interpretation same_name: additive_group id merge_same "\<lambda>v. bu_selfTime (bt_data v)" "\<lambda>v. bu_selfTime (bt_data v)"
  by unfold_locales (simp_all add: merge_same_def)

lemma merged_name: "merged id merge_same ns = Some v \<Longrightarrow> bu_symbolName (bt_data v) = bu_symbolName (bt_data (hd ns)) \<and> bt_children v = bt_children (hd ns)"
proof -
  have "bu_symbolName (bt_data (fold merge_same us v)) = bu_symbolName (bt_data v) \<and> bt_children (fold merge_same us v) = bt_children v" for us v
    by (induction us arbitrary: v) (simp_all add: merge_same_def)
  then show "merged id merge_same ns = Some v \<Longrightarrow> ?thesis" by (cases ns) auto
qed

lemma name_rows:
  assumes "(k, v) \<in> set (group_all (\<lambda>n. bu_symbolName (bt_data n)) id merge_same ns)"
  shows "bu_symbolName (bt_data v) = k" "\<exists>n\<in>set ns. bu_symbolName (bt_data n) = k"
    "bu_selfTime (bt_data v) = sum_list (map (\<lambda>r. bu_selfTime (bt_data r)) (filter (\<lambda>r. bu_symbolName (bt_data r) = k) ns))"
proof -
  let ?own = "filter (\<lambda>n. bu_symbolName (bt_data n) = k) ns"
  have m: "merged id merge_same ?own = Some v"
    using assms js_map_ok_get [OF group_all_keys(1)] group_all_lookup [of "\<lambda>n. bu_symbolName (bt_data n)" id merge_same ns k] by metis
  then have ne: "?own \<noteq> []" by auto
  then have "hd ?own \<in> set ?own" by (rule hd_in_set)
  then show "bu_symbolName (bt_data v) = k" "\<exists>n\<in>set ns. bu_symbolName (bt_data n) = k" using merged_name [OF m] by auto
  show "bu_selfTime (bt_data v) = sum_list (map (\<lambda>r. bu_selfTime (bt_data r)) ?own)" by (rule same_name.total_group [OF assms])
qed

lemma sum_pos_iff: "(\<And>y. y \<in> set ys \<Longrightarrow> 0 < f y) \<Longrightarrow> 0 < sum_list (map f ys) \<longleftrightarrow> ys \<noteq> []" for f :: "'y \<Rightarrow> 'n :: linordered_idom"
proof (induction ys)
  case (Cons y ys)
  then show ?case by (cases ys) (auto intro: add_pos_pos)
qed simp

text \<open>When every sample has a call chain the bottom-up table is built. It has one row per function, and a row exactly for the functions that are on top of some sample; its own time is the
  time of these samples.\<close>

theorem getBottomUp_selfTimes:
  assumes "0 < perfTime" "chains_known m samples"
  shows "\<exists>rows. getBottomUp perfTime m samples = Inr rows \<and> distinct (map (\<lambda>r. bu_symbolName (bt_data r)) rows)
    \<and> (\<lambda>r. bu_symbolName (bt_data r)) ` set rows = top_of m ` set samples
    \<and> (\<forall>r\<in>set rows. bu_selfTime (bt_data r) = perfTime * of_int (sum_list (map pcs_count (filter (\<lambda>x. top_of m x = bu_symbolName (bt_data r)) samples))))"
proof -
  obtain n where n: "topUp_samples perfTime m samples (fresh_node (js ''topUp'')) = Inr n" "\<forall>k\<in>set (bt_children n). bu_ok k"
    "\<forall>q. sum_list (map (self_of q) (bt_children n)) = perfTime * of_int (sum_list (map pcs_count (filter (\<lambda>x. top_of m x = q) samples)))"
    using topUp_self [OF assms, of "fresh_node (js ''topUp'')"] by auto
  define ns where "ns = concat (map (reverse_tree []) (bt_children n))"
  let ?g = "group_all (\<lambda>n. bu_symbolName (bt_data n)) id merge_same ns"
  have rows: "getBottomUp perfTime m samples = Inr (map snd ?g)" by (simp add: getBottomUp_def n(1) mergeTreeBifurcation_def js_values_def ns_def)
  have self: "sum_list (map (\<lambda>r. bu_selfTime (bt_data r)) (filter (\<lambda>r. bu_symbolName (bt_data r) = q) ns)) = perfTime * of_int (sum_list (map pcs_count (filter (\<lambda>x. top_of m x = q) samples)))" for q
  proof -
    have "sum_list (map (\<lambda>r. bu_selfTime (bt_data r)) (filter (\<lambda>r. bu_symbolName (bt_data r) = q) (concat (map (reverse_tree []) ks)))) = sum_list (map (self_of q) ks)"
      if "\<forall>k\<in>set ks. bu_ok k" for ks using that by (induction ks) (simp_all add: reverse_self)
    then show ?thesis using n(2,3) by (simp add: ns_def)
  qed
  have names: "(\<exists>r\<in>set ns. bu_symbolName (bt_data r) = q) \<longleftrightarrow> q \<in> top_of m ` set samples" for q
  proof -
    have pos: "0 < bu_selfTime (bt_data r)" if "r \<in> set ns" for r using that reverse_pos by (auto simp: ns_def)
    have "(\<exists>r\<in>set ns. bu_symbolName (bt_data r) = q) \<longleftrightarrow> 0 < sum_list (map (\<lambda>r. bu_selfTime (bt_data r)) (filter (\<lambda>r. bu_symbolName (bt_data r) = q) ns))"
      using pos by (subst sum_pos_iff) (auto simp: filter_empty_conv)
    also have "\<dots> \<longleftrightarrow> 0 < sum_list (map pcs_count (filter (\<lambda>x. top_of m x = q) samples))"
      unfolding self using assms(1) by (simp add: zero_less_mult_iff)
    also have "\<dots> \<longleftrightarrow> q \<in> top_of m ` set samples"
      using assms(2) by (subst sum_pos_iff) (auto simp: chains_known_def filter_empty_conv)
    finally show ?thesis .
  qed
  have keys: "map (\<lambda>r. bu_symbolName (bt_data r)) (map snd ?g) = map fst ?g" using name_rows(1) [of _ _ ns] by auto
  have "distinct (map (\<lambda>r. bu_symbolName (bt_data r)) (map snd ?g))"
    unfolding keys using group_all_keys(1) [of "\<lambda>n. bu_symbolName (bt_data n)" id merge_same ns] by (simp add: js_map_ok_def)
  moreover have "(\<lambda>r. bu_symbolName (bt_data r)) ` set (map snd ?g) = top_of m ` set samples"
  proof -
    have "(\<lambda>n. bu_symbolName (bt_data n)) ` set ns = top_of m ` set samples"
    proof (rule set_eqI)
      show "q \<in> (\<lambda>n. bu_symbolName (bt_data n)) ` set ns \<longleftrightarrow> q \<in> top_of m ` set samples" for q using names [of q] by (auto simp: image_iff)
    qed
    then show ?thesis using arg_cong [OF keys, of set] group_all_keys(2) [of "\<lambda>n. bu_symbolName (bt_data n)" id merge_same ns] by (simp add: image_image)
  qed
  moreover have "\<forall>r\<in>set (map snd ?g). bu_selfTime (bt_data r) = perfTime * of_int (sum_list (map pcs_count (filter (\<lambda>x. top_of m x = bu_symbolName (bt_data r)) samples)))"
    using name_rows(1,3) [of _ _ ns] self by fastforce
  ultimately show ?thesis using rows by (intro exI conjI)
qed

section \<open>Concrete instances\<close>

definition demo_calls :: chain_data where
  "demo_calls = Map.empty(1 \<mapsto> [demo_perf_row 1 ''a'', demo_perf_row 1 ''f''], 2 \<mapsto> [demo_perf_row 2 ''b'', demo_perf_row 2 ''f''])"

theorem getBottomUp_selfTimes_witness:
  "\<exists>rows. getBottomUp 2 demo_calls [demo_perf_sample 1 7 3, demo_perf_sample 2 7 4] = Inr rows \<and> map (\<lambda>r. bu_symbolName (bt_data r)) rows \<noteq> []"
proof -
  have "chains_known demo_calls [demo_perf_sample 1 7 3, demo_perf_sample 2 7 4]" by (simp add: chains_known_def demo_calls_def demo_perf_sample_def)
  from getBottomUp_selfTimes [OF _ this, of 2] show ?thesis by force
qed

text \<open>C1: the function \<open>f\<close> is called by \<open>a\<close> in one sample and by \<open>b\<close> in another. Its row in the bottom-up table has the time of both samples, but its only caller is \<open>a\<close>, with
  the time of one sample; the other caller is missing.\<close>

theorem bottomUp_loses_callers:
  "map_sum id (map (\<lambda>r. (bu_symbolName (bt_data r), bu_selfTime (bt_data r), map (\<lambda>c. (bu_symbolName (bt_data c), bu_selfTime (bt_data c))) (bt_children r))))
     (getBottomUp 1 demo_calls [demo_perf_sample 1 7 3, demo_perf_sample 2 7 4]) = Inr [(js ''f()'', 7, [(js ''a()'', 3)])]"
  by (simp add: getBottomUp_def demo_calls_def demo_perf_sample_def demo_perf_row_def item_key_def bump_def calculateSelfTime_def newBottomUp_def kids_time_def
      mergeTreeBifurcation_def js_values_def group_all_def group_step_def merge_same_def js_def)

text \<open>A sample without a call chain makes the table fail.\<close>

lemma getBottomUp_missing_chain: "x \<in> set samples \<Longrightarrow> m (pcs_sampleId x) = None \<Longrightarrow> getBottomUp perfTime m samples = Inl TypeError"
proof -
  assume "x \<in> set samples" "m (pcs_sampleId x) = None"
  then have "topUp_samples perfTime m samples n = Inl TypeError" for n by (induction samples arbitrary: n) (auto split: option.split)
  then show ?thesis by (simp add: getBottomUp_def)
qed

end
