(* ===== verification/Perf_Worker.thy ===== *)
theory Perf_Worker
  imports Perf_BottomUp
begin

text \<open>
  The perf worker: its state, its messages and the actions of the view
  (\<open>trace/database/logic-worker/ProcedureLogicWorkerPerf.ts\<close>).

  The nodes of a call tree have numbers, and a new tree takes numbers that no earlier tree had, so the entries of \<open>splitMapData\<close> may name nodes of a tree
  that is gone, as the objects of the source do. The methods that hide, cut and search repeat those of \<open>MerageBeanDataSplit\<close> and use the definitions for these; the only
  differences are the fields that are read: the number of a node is its \<open>dur\<close> and its searched name is \<open>symbol\<close>.
  The texts of the queries are represented by the name of the query and the condition that the selection adds. A message that raises an exception ends a run.
\<close>

section \<open>State\<close>

record PerfCall =
  pcl_sampleId :: int
  pcl_depth :: int
  pcl_name :: jsstring

record PerfState =
  hp_files :: files_data
  hp_threads :: thread_data
  hp_chains :: chain_data
  hp_samples :: "PerfCountSample list option"
  hp_calls :: "(int \<times> PerfCall) list"
  hp_countToMs :: rat
  hp_processes :: "PerfProcess list"
  hp_total :: int
  hp_allProcess :: "MTree list"
  hp_list :: "nat list"
  hp_next :: nat
  hp_symbol :: "nat \<Rightarrow> jsstring"
  hp_tree :: MState
  hp_searchValue :: jsstring
  hp_dataSource :: "nat list"
  hp_event :: jsstring
  hp_isAnalysis :: bool
  hp_isBottomUp :: bool

definition mstate_new :: MState where
  "mstate_new = \<lparr>ms_isStore = \<lambda>i. 0, ms_searchShow = \<lambda>i. True, ms_isSearch = \<lambda>i. False, ms_children = \<lambda>i. [], ms_treeParent = Map.empty, ms_splitMap = Map.empty\<rparr>"

text \<open>\<open>samplesData\<close> begins as an object that is not an array: it is \<open>None\<close> until samples arrive.\<close>

definition perf_initial :: PerfState where
  "perf_initial = \<lparr>hp_files = Map.empty, hp_threads = Map.empty, hp_chains = Map.empty, hp_samples = None, hp_calls = [], hp_countToMs = 1, hp_processes = [], hp_total = 0,
     hp_allProcess = [], hp_list = [], hp_next = 0, hp_symbol = \<lambda>i. [], hp_tree = mstate_new, hp_searchValue = [], hp_dataSource = [], hp_event = [],
     hp_isAnalysis = False, hp_isBottomUp = False\<rparr>"

definition perf_clearAll :: "PerfState \<Rightarrow> PerfState" where
  "perf_clearAll s = s\<lparr>hp_files := Map.empty, hp_samples := None, hp_threads := Map.empty, hp_chains := Map.empty, hp_tree := (hp_tree s)\<lparr>ms_splitMap := Map.empty\<rparr>,
     hp_list := [], hp_searchValue := [], hp_dataSource := [], hp_allProcess := [], hp_processes := [], hp_calls := []\<rparr>"

section \<open>Queries\<close>

datatype PerfResult =
    RCalls "(int \<times> PerfCall) list"
  | RRows "nat list"
  | RAnalysis "PerfAnalysisSample list"
  | RBottomUp "BottomUpTree list"

datatype PerfOut =
    PQuery jsstring jsstring jsstring "(int \<times> int) option"
  | PPost jsstring jsstring PerfResult

record PerfSelection =
  sel_perfAll :: bool
  sel_perfCpus :: "int list"
  sel_perfProcess :: "int list"
  sel_perfThread :: "int list"
  sel_leftNs :: int
  sel_rightNs :: int

text \<open>The arguments of the condition; each begins with \<open>or\<close> and a blank, and the first of these is cut off.\<close>

definition in_clause :: "string \<Rightarrow> int list \<Rightarrow> string \<Rightarrow> jsstring" where
  "in_clause col l end = (if l = [] then [] else js ''or '' @ js col @ js '' in ('' @ js_join (js '','') (map js_num l) @ js '')'' @ js end)"

definition perf_condition :: "PerfSelection \<Rightarrow> jsstring" where
  "perf_condition sel =
     (let cpus = (if sel_perfAll sel then [] else sel_perfCpus sel); processes = (if sel_perfAll sel then [] else sel_perfProcess sel);
          threads = (if sel_perfAll sel then [] else sel_perfThread sel)
      in if cpus \<noteq> [] \<or> processes \<noteq> [] \<or> threads \<noteq> []
         then js '' and ('' @ js_substring_from (in_clause ''s.cpu_id'' cpus '' '' @ in_clause ''thread.process_id'' processes '' '' @ in_clause ''s.thread_id'' threads '''') 3 @ js '')''
         else [])"

definition perf_query :: "string \<Rightarrow> PerfState \<Rightarrow> PerfOut" where
  "perf_query nm s = PQuery (hp_event s) (js nm) [] None"

definition perf_getCurrentDataFromDb :: "PerfSelection \<Rightarrow> PerfState \<Rightarrow> PerfOut" where
  "perf_getCurrentDataFromDb sel s =
     PQuery (hp_event s) (js ''perf-queryCallchainsGroupSample'') (perf_condition sel) (Some (sel_leftNs sel, sel_rightNs sel))"

section \<open>Actions\<close>

text \<open>An action without arguments, or of another name, is skipped.\<close>

datatype PerfAction =
    Act_getCallChainsBySampleIds bool
  | Act_getCurrentDataFromDb PerfSelection
  | Act_hideSystemLibrary
  | Act_hideNumMaxAndMin int "int option"
  | Act_splitAllProcess "SplitItem list"
  | Act_resetAllNode
  | Act_resotreAllNode "jsstring list"
  | Act_clearSplitMapData jsstring
  | Act_splitTree jsstring bool bool
  | Act_setSearchValue jsstring
  | Act_setCombineCallChain
  | Act_setPerfBottomUp
  | Act_combineAnalysisCallChain
  | Act_getBottomUp
  | Act_skipped jsstring

text \<open>The symbols of the nodes and the fields of new nodes.\<close>

fun tree_symbols :: "PerfTree \<Rightarrow> (nat \<times> jsstring) list" where
  "tree_symbols (CallTree b kids) = (pn_index b, pn_symbol b) # concat (map tree_symbols kids)"

definition forest_symbols :: "nat \<Rightarrow> PerfProcess list \<Rightarrow> (nat \<times> jsstring) list" where
  "forest_symbols n ps = zip [n..<n + length ps] (map pp_symbolName ps) @ concat (map (\<lambda>p. concat (map tree_symbols (pp_children p))) ps)"

definition new_nodes :: "nat list \<Rightarrow> MTree list \<Rightarrow> MState \<Rightarrow> MState" where
  "new_nodes ns data s = (let is = set ns; kids = map_of (concat (map tree_kids data)) in
     s\<lparr>ms_isStore := (\<lambda>i. if i \<in> is then 0 else ms_isStore s i), ms_searchShow := (\<lambda>i. i \<in> is \<or> ms_searchShow s i), ms_isSearch := (\<lambda>i. i \<notin> is \<and> ms_isSearch s i),
       ms_treeParent := (\<lambda>i. if i \<in> is then None else ms_treeParent s i),
       ms_children := (\<lambda>i. if i \<in> is then (case kids i of None \<Rightarrow> [] | Some ks \<Rightarrow> ks) else ms_children s i)\<rparr>)"

definition fresh_tree :: "bool \<Rightarrow> PerfState \<Rightarrow> PerfState result" where
  "fresh_tree isTopDown s =
     (case hp_samples s of
        None \<Rightarrow> Inl TypeError
      | Some samples \<Rightarrow>
          bindr (freshPerfCallchains (hp_threads s) (hp_chains s) samples isTopDown (hp_next s)) (\<lambda>(ps, n, tot).
            let data = perf_forest n ps; ns = [hp_next s..<n + length ps] in
            Inr (s\<lparr>hp_processes := ps, hp_total := tot, hp_allProcess := data, hp_list := [hp_next s..<n], hp_next := n + length ps,
              hp_symbol := (\<lambda>i. case map_of (forest_symbols n ps) i of None \<Rightarrow> hp_symbol s i | Some nm \<Rightarrow> nm), hp_tree := new_nodes ns data (hp_tree s)\<rparr>)))"

text \<open>The depth of a search: as many levels as there are nodes. A search that went deeper would be \<open>Blocked\<close>.\<close>

definition search_fuel :: "PerfState \<Rightarrow> nat" where
  "search_fuel s = length (concat (map tree_ids (hp_allProcess s)))"

definition perf_resetAllNode :: "(jsstring \<Rightarrow> jsstring) \<Rightarrow> PerfState \<Rightarrow> PerfState result" where
  "perf_resetAllNode tolower s =
     (case resetAllNode (search_fuel s) tolower (hp_symbol s) (hp_allProcess s) (hp_list s) (hp_searchValue s) (hp_tree s) of
        None \<Rightarrow> Inl Blocked | Some t \<Rightarrow> Inr (s\<lparr>hp_tree := t\<rparr>))"

definition splitPerfTree :: "(jsstring \<Rightarrow> jsstring) \<Rightarrow> jsstring \<Rightarrow> bool \<Rightarrow> bool \<Rightarrow> PerfState \<Rightarrow> PerfState result" where
  "splitPerfTree tolower nm isCharge isSymbol s =
     (case splitTree (search_fuel s) tolower (hp_symbol s) (hp_allProcess s) nm isCharge isSymbol (hp_list s) (hp_searchValue s) (hp_tree s) of
        None \<Rightarrow> Inl Blocked | Some t \<Rightarrow> Inr (s\<lparr>hp_tree := t\<rparr>))"

definition perf_analysis :: "PerfState \<Rightarrow> (PerfState \<times> PerfResult) result" where
  "perf_analysis s = (case hp_samples s of
     None \<Rightarrow> Inl TypeError
   | Some xs \<Rightarrow> bindr (combineCallChainForAnalysis (hp_threads s) (hp_chains s) xs) (\<lambda>r. Inr (s\<lparr>hp_isAnalysis := False\<rparr>, RAnalysis r)))"

definition perf_bottomUp :: "PerfState \<Rightarrow> (PerfState \<times> PerfResult) result" where
  "perf_bottomUp s = (case hp_samples s of
     None \<Rightarrow> Inl TypeError
   | Some xs \<Rightarrow> bindr (getBottomUp (hp_countToMs s) (hp_chains s) xs) (\<lambda>r. Inr (s\<lparr>hp_isBottomUp := False\<rparr>, RBottomUp r)))"

text \<open>One action: the new state, the queries and the result when the action returns one.\<close>

definition perf_act :: "(jsstring \<Rightarrow> jsstring) \<Rightarrow> PerfAction \<Rightarrow> PerfState \<Rightarrow> (PerfState \<times> PerfOut list \<times> PerfResult option) result" where
  "perf_act tolower a s =
     (let go = (\<lambda>s1. Inr (s1, [], None)); on_tree = (\<lambda>f. Inr (s\<lparr>hp_tree := f (hp_tree s)\<rparr>, [], None)); ret = (\<lambda>(s1, r). Inr (s1, [], Some r))
      in case a of
        Act_getCallChainsBySampleIds isTopDown \<Rightarrow> bindr (fresh_tree isTopDown s) go
      | Act_getCurrentDataFromDb sel \<Rightarrow> Inr (s, [perf_getCurrentDataFromDb sel s], None)
      | Act_hideSystemLibrary \<Rightarrow> on_tree (hideSystemLibrary (hp_allProcess s))
      | Act_hideNumMaxAndMin startNum endNum \<Rightarrow> on_tree (hideNumMaxAndMin (hp_allProcess s) startNum endNum)
      | Act_splitAllProcess items \<Rightarrow> on_tree (splitAllProcess (hp_allProcess s) items)
      | Act_resetAllNode \<Rightarrow> bindr (perf_resetAllNode tolower s) go
      | Act_resotreAllNode symbols \<Rightarrow> on_tree (resotreAllNode symbols)
      | Act_clearSplitMapData nm \<Rightarrow> on_tree (clearSplitMapData nm)
      | Act_splitTree nm isCharge isSymbol \<Rightarrow> bindr (splitPerfTree tolower nm isCharge isSymbol s) go
      | Act_setSearchValue v \<Rightarrow> go (s\<lparr>hp_searchValue := v\<rparr>)
      | Act_setCombineCallChain \<Rightarrow> go (s\<lparr>hp_isAnalysis := True\<rparr>)
      | Act_setPerfBottomUp \<Rightarrow> go (s\<lparr>hp_isBottomUp := True\<rparr>)
      | Act_combineAnalysisCallChain \<Rightarrow> bindr (perf_analysis s) ret
      | Act_getBottomUp \<Rightarrow> bindr (perf_bottomUp s) ret
      | Act_skipped funcName \<Rightarrow> go s)"

fun perf_loop :: "(jsstring \<Rightarrow> jsstring) \<Rightarrow> PerfAction list \<Rightarrow> PerfState \<Rightarrow> (PerfState \<times> PerfOut list \<times> PerfResult option) result" where
  "perf_loop tolower [] s = Inr (s\<lparr>hp_dataSource := filter (\<lambda>i. ms_children (hp_tree s) i \<noteq> []) (map mt_id (hp_allProcess s))\<rparr>, [], None)"
| "perf_loop tolower (a # as) s =
     bindr (perf_act tolower a s) (\<lambda>(s1, outs, r).
       case r of
         Some v \<Rightarrow> Inr (s1, outs, Some v)
       | None \<Rightarrow> bindr (perf_loop tolower as s1) (\<lambda>(s2, outs2, r2). Inr (s2, outs @ outs2, r2)))"

definition resolvingAction :: "(jsstring \<Rightarrow> jsstring) \<Rightarrow> PerfAction list \<Rightarrow> PerfState \<Rightarrow> (PerfState \<times> PerfOut list \<times> PerfResult) result" where
  "resolvingAction tolower params s =
     (if params = [] then Inr (s, [], RRows (hp_dataSource s))
      else bindr (perf_loop tolower params s) (\<lambda>(s1, outs, r). Inr (s1, outs, case r of None \<Rightarrow> RRows (hp_dataSource s1) | Some v \<Rightarrow> v)))"

section \<open>Messages\<close>

datatype PerfMsg =
    Perf_init rat
  | Perf_queryPerfFiles "PerfFile list"
  | Perf_queryPerfThread "PerfThread list"
  | Perf_queryPerfCalls "PerfCall list"
  | Perf_queryPerfCallchains "PerfCallChain list"
  | Perf_queryCallchainsGroupSample "PerfCountSample list"
  | Perf_action "PerfAction list"
  | Perf_other

fun is_query :: "PerfAction \<Rightarrow> bool" where
  "is_query (Act_getCurrentDataFromDb sel) = True"
| "is_query (Act_skipped funcName) = (funcName = js ''getCurrentDataFromDb'')"
| "is_query _ = False"

definition sample_action :: "PerfState \<Rightarrow> PerfAction" where
  "sample_action s = (if hp_isAnalysis s then Act_combineAnalysisCallChain else if hp_isBottomUp s then Act_getBottomUp else Act_getCallChainsBySampleIds True)"

definition perf_handle :: "(jsstring \<Rightarrow> jsstring) \<Rightarrow> jsstring \<Rightarrow> jsstring \<Rightarrow> PerfMsg \<Rightarrow> PerfState \<Rightarrow> (PerfState \<times> PerfOut list) result" where
  "perf_handle tolower eid action msg s0 =
     (let s = s0\<lparr>hp_event := eid\<rparr> in
      case msg of
        Perf_init fValue \<Rightarrow> (let s1 = perf_clearAll (s\<lparr>hp_countToMs := fValue\<rparr>) in Inr (s1, [perf_query ''perf-queryPerfFiles'' s1]))
      | Perf_queryPerfFiles fs \<Rightarrow> Inr (s\<lparr>hp_files := fold add_file fs (hp_files s)\<rparr>, [perf_query ''perf-queryPerfThread'' s])
      | Perf_queryPerfThread ts \<Rightarrow> Inr (s\<lparr>hp_threads := fold add_thread ts (hp_threads s)\<rparr>, [perf_query ''perf-queryPerfCalls'' s])
      | Perf_queryPerfCalls cs \<Rightarrow>
          Inr (s\<lparr>hp_calls := fold (\<lambda>c. js_map_set (pcl_sampleId c) c) cs (hp_calls s)\<rparr>, [perf_query ''perf-queryPerfCallchains'' s])
      | Perf_queryPerfCallchains rows \<Rightarrow>
          bindr (initPerfCallChainTopDown (hp_files s) rows) (\<lambda>m. Inr (s\<lparr>hp_chains := m\<rparr>, [PPost eid action (RCalls (hp_calls s))]))
      | Perf_queryCallchainsGroupSample xs \<Rightarrow>
          (let s1 = s\<lparr>hp_samples := Some xs\<rparr> in
           bindr (resolvingAction tolower [sample_action s1] s1) (\<lambda>(s2, outs, r). Inr (s2, outs @ [PPost eid action r])))
      | Perf_action params \<Rightarrow>
          bindr (resolvingAction tolower params s) (\<lambda>(s1, outs, r).
            Inr (s1, if filter is_query params = [] then outs @ [PPost eid action r] else outs))
      | Perf_other \<Rightarrow> Inr (s, []))"

text \<open>The states that messages lead to; one message of the pool of workers clears them all.\<close>

inductive perf_reach :: "(jsstring \<Rightarrow> jsstring) \<Rightarrow> PerfState \<Rightarrow> bool" for tolower where
  perf_start: "perf_reach tolower perf_initial"
| perf_msg: "perf_reach tolower s \<Longrightarrow> perf_handle tolower eid action msg s = Inr (s', outs) \<Longrightarrow> perf_reach tolower s'"
| perf_clear: "perf_reach tolower s \<Longrightarrow> perf_reach tolower (perf_clearAll s)"

inductive_cases perf_reach_cases: "perf_reach tolower s"

section \<open>What can go wrong\<close>

lemma perf_samples_known: "perf_samples threads m d xs st = Inr r \<Longrightarrow> threads_known threads m xs"
proof (induction xs arbitrary: st)
  case (Cons x xs)
  then obtain es where es: "perf_entries threads m d x = Inr es"
    "perf_samples threads m d xs (root_step perf_matches newPerfNode perf_merageCallChainSample perf_root_key x es st) = Inr r"
    by (auto simp: bindr_eq_Inr_iff)
  have "m (pcs_sampleId x) \<in> {None, Some []} \<or> threads (pcs_tid x) \<noteq> None"
    using es(1) by (auto simp: perf_entries_def addOtherCallchainsData_def split: option.splits if_splits)
  then show ?case using Cons.IH [OF es(2)] by (simp add: threads_known_def)
qed (simp add: threads_known_def)

lemma fresh_known: "freshPerfCallchains threads m xs d n0 = Inr r \<Longrightarrow> threads_known threads m xs"
  by (auto simp: freshPerfCallchains_def bindr_eq_Inr_iff intro: perf_samples_known)

text \<open>Every exception of these operations is a \<open>TypeError\<close>.\<close>

lemma perf_samples_error: "perf_samples threads m d xs st = Inl e \<Longrightarrow> e = TypeError"
  by (induction xs arbitrary: st)
    (auto simp: perf_entries_def addOtherCallchainsData_def Let_def bindr_eq_Inl_iff split: option.splits if_splits)

lemma fresh_error: "freshPerfCallchains threads m xs d n0 = Inl e \<Longrightarrow> e = TypeError"
  by (auto simp: freshPerfCallchains_def bindr_eq_Inl_iff dest: perf_samples_error)

lemma combine_error: "combineCallChainForAnalysis threads m xs = Inl e \<Longrightarrow> e = TypeError"
  by (induction xs) (auto simp: analysis_sample_def bindr_eq_Inl_iff split: option.splits if_splits)

lemma bottomUp_error: "getBottomUp perfTime m xs = Inl e \<Longrightarrow> e = TypeError"
proof -
  have "topUp_samples perfTime m xs n = Inl e \<Longrightarrow> e = TypeError" for n by (induction xs arbitrary: n) (auto split: option.splits)
  then show "getBottomUp perfTime m xs = Inl e \<Longrightarrow> e = TypeError" by (auto simp: getBottomUp_def bindr_eq_Inl_iff)
qed

lemma chains_error: "initPerfCallChainTopDown files rows = Inl e \<Longrightarrow> e = TypeError"
proof -
  have "chain_rows_loop files rows m = Inl e \<Longrightarrow> e = TypeError" for m
    by (induction rows arbitrary: m) (auto simp: setPerfCallChainFrameName_def Let_def bindr_eq_Inl_iff split: option.splits if_splits)
  then show "initPerfCallChainTopDown files rows = Inl e \<Longrightarrow> e = TypeError" by (simp add: initPerfCallChainTopDown_def)
qed

lemmas perf_errors = fresh_error combine_error bottomUp_error chains_error

section \<open>The tree of a worker\<close>

definition perf_inv :: "PerfState \<Rightarrow> bool" where
  "perf_inv s \<longleftrightarrow> forest_list (hp_allProcess s) (hp_list s) \<and> trees_ids (hp_allProcess s) \<subseteq> {..<hp_next s}"

lemma perf_inv_cong:
  "perf_inv s \<Longrightarrow> hp_allProcess s' = hp_allProcess s \<Longrightarrow> hp_list s' = hp_list s \<Longrightarrow> hp_next s' = hp_next s \<Longrightarrow> perf_inv s'"
  by (simp add: perf_inv_def)

lemma perf_inv_empty: "hp_allProcess s = [] \<Longrightarrow> hp_list s = [] \<Longrightarrow> perf_inv s"
  by (simp add: perf_inv_def forest_list_def)

lemma perf_search_ends:
  assumes "perf_inv s"
  obtains t where "resetAllNode (search_fuel s) tolower (hp_symbol s) (hp_allProcess s) (hp_list s) v ts = Some t"
proof -
  have "forest_list (hp_allProcess s) (hp_list s)" using assms by (simp add: perf_inv_def)
  from search_end [OF this, of "search_fuel s" tolower "hp_symbol s" v ts] show thesis using that by (auto simp: search_fuel_def)
qed

lemma reset_not_blocked: "perf_inv s \<Longrightarrow> perf_resetAllNode tolower s \<noteq> Inl e"
  by (erule perf_search_ends [of s tolower "hp_searchValue s" "hp_tree s"]) (simp add: perf_resetAllNode_def)

lemma split_not_blocked: "perf_inv s \<Longrightarrow> splitPerfTree tolower nm isCharge isSymbol s \<noteq> Inl e"
  by (erule perf_search_ends [of s tolower "hp_searchValue s"
        "fold (\<lambda>process s. split_process nm isCharge isSymbol process (clear_children [mt_id process] s)) (hp_allProcess s) (hp_tree s)"])
    (simp add: splitPerfTree_def splitTree_def)

lemma fresh_tree_inv:
  assumes "fresh_tree d s = Inr s'"
  shows "perf_inv s'"
proof -
  obtain xs ps n tot where run: "hp_samples s = Some xs" "freshPerfCallchains (hp_threads s) (hp_chains s) xs d (hp_next s) = Inr (ps, n, tot)"
    and s': "hp_allProcess s' = perf_forest n ps" "hp_list s' = [hp_next s..<n]" "hp_next s' = n + length ps"
    using assms by (auto simp: fresh_tree_def bindr_eq_Inr_iff Let_def split: option.splits)
  show ?thesis unfolding perf_inv_def s' using perf_forest_list [OF fresh_known [OF run(2)] run(2)] by simp
qed

lemma perf_act_inv:
  assumes "perf_inv s" "perf_act tolower a s = Inr (s', outs, r)"
  shows "perf_inv s'"
proof (cases "\<exists>d. a = Act_getCallChainsBySampleIds d")
  case True
  then show ?thesis using assms(2) fresh_tree_inv by (auto simp: perf_act_def bindr_eq_Inr_iff)
next
  case False
  then have "hp_allProcess s' = hp_allProcess s" "hp_list s' = hp_list s" "hp_next s' = hp_next s"
    using assms(2) by (auto simp: perf_act_def Let_def bindr_eq_Inr_iff perf_resetAllNode_def splitPerfTree_def perf_analysis_def perf_bottomUp_def
        split: PerfAction.splits option.splits)
  then show ?thesis by (rule perf_inv_cong [OF assms(1)])
qed

lemma perf_act_error: "perf_inv s \<Longrightarrow> perf_act tolower a s = Inl e \<Longrightarrow> e = TypeError"
  using reset_not_blocked split_not_blocked
  by (cases a) (auto simp: perf_act_def Let_def bindr_eq_Inl_iff fresh_tree_def perf_analysis_def perf_bottomUp_def dest: perf_errors split: option.splits)

lemma perf_loop_inv: "perf_inv s \<Longrightarrow> perf_loop tolower as s = Inr (s', outs, r) \<Longrightarrow> perf_inv s'"
proof (induction "as" arbitrary: s outs r)
  case Nil
  then show ?case by (auto intro: perf_inv_cong)
next
  case (Cons a "as")
  then obtain s1 outs1 r1 where a: "perf_act tolower a s = Inr (s1, outs1, r1)" by (auto simp: bindr_eq_Inr_iff)
  then have "perf_inv s1" using perf_act_inv Cons.prems(1) by blast
  then show ?case using Cons a by (auto simp: bindr_eq_Inr_iff split: option.splits)
qed

lemma perf_loop_error: "perf_inv s \<Longrightarrow> perf_loop tolower as s = Inl e \<Longrightarrow> e = TypeError"
proof (induction "as" arbitrary: s)
  case (Cons a "as")
  show ?case
  proof (cases "perf_act tolower a s")
    case (Inl e')
    then show ?thesis using Cons.prems perf_act_error by simp
  next
    case (Inr q)
    obtain s1 outs1 r1 where q: "q = (s1, outs1, r1)" by (cases q)
    then have "perf_inv s1" using perf_act_inv Cons.prems(1) Inr by blast
    then show ?thesis using Cons.IH [of s1] Cons.prems Inr q by (auto simp: bindr_eq_Inl_iff split: option.splits)
  qed
qed simp

lemma resolving_inv: "perf_inv s \<Longrightarrow> resolvingAction tolower as s = Inr (s', outs, r) \<Longrightarrow> perf_inv s'"
  by (auto simp: resolvingAction_def bindr_eq_Inr_iff split: if_splits intro: perf_loop_inv)

lemma resolving_error: "perf_inv s \<Longrightarrow> resolvingAction tolower as s = Inl e \<Longrightarrow> e = TypeError"
  by (auto simp: resolvingAction_def bindr_eq_Inl_iff split: if_splits dest: perf_loop_error)

lemma perf_handle_inv:
  assumes "perf_inv s" "perf_handle tolower eid action msg s = Inr (s', outs)"
  shows "perf_inv s'"
proof -
  have same: "perf_inv s'" if "hp_allProcess s' = hp_allProcess s" "hp_list s' = hp_list s" "hp_next s' = hp_next s" for s' by (rule perf_inv_cong [OF assms(1) that])
  have act: "perf_inv s2" if "resolvingAction tolower ps s1 = Inr (s2, outs', r)" "hp_allProcess s1 = hp_allProcess s" "hp_list s1 = hp_list s" "hp_next s1 = hp_next s"
    for ps s1 s2 outs' r by (rule resolving_inv [OF same [OF that(2,3,4)] that(1)])
  show ?thesis
    using assms(2) by (cases msg) (auto simp: perf_handle_def Let_def bindr_eq_Inr_iff perf_clearAll_def intro: same act perf_inv_empty)
qed

lemma perf_reach_inv: "perf_reach tolower s \<Longrightarrow> perf_inv s"
  by (induction rule: perf_reach.induct) (auto intro: perf_inv_empty perf_handle_inv simp: perf_initial_def perf_clearAll_def)

text \<open>In every state that messages can lead the worker to, the nodes of the call tree are different, and the list of nodes that the filters and the search run over has each node below a
  process exactly once.\<close>

theorem perf_tree_invariant:
  assumes "perf_reach tolower s"
  shows "distinct (concat (map tree_ids (hp_allProcess s))) \<and> distinct (hp_list s) \<and> set (hp_list s) = trees_ids (hp_allProcess s) - mt_id ` set (hp_allProcess s)"
  using perf_reach_inv [OF assms] by (simp add: perf_inv_def forest_list_def)

text \<open>C12: whatever messages the worker has had, the next message is handled or raises a \<open>TypeError\<close>: no filter and no search in the call tree runs without end.\<close>

theorem perf_never_blocked:
  assumes "perf_reach tolower s" "perf_handle tolower eid action msg s = Inl e"
  shows "e = TypeError"
proof -
  have same: "perf_inv s'" if "hp_allProcess s' = hp_allProcess s" "hp_list s' = hp_list s" "hp_next s' = hp_next s" for s'
    by (rule perf_inv_cong [OF perf_reach_inv [OF assms(1)] that])
  have act: "e = TypeError" if "resolvingAction tolower ps s1 = Inl e" "hp_allProcess s1 = hp_allProcess s" "hp_list s1 = hp_list s" "hp_next s1 = hp_next s"
    for ps s1 by (rule resolving_error [OF same [OF that(2,3,4)] that(1)])
  show ?thesis
    using assms(2) by (cases msg) (auto simp: perf_handle_def Let_def bindr_eq_Inl_iff intro: act dest: chains_error)
qed

section \<open>Loading a trace\<close>

fun perf_run :: "(jsstring \<Rightarrow> jsstring) \<Rightarrow> jsstring \<Rightarrow> jsstring \<Rightarrow> PerfMsg list \<Rightarrow> PerfState \<Rightarrow> (PerfState \<times> PerfOut list) result" where
  "perf_run tolower eid action [] s = Inr (s, [])"
| "perf_run tolower eid action (msg # msgs) s =
     bindr (perf_handle tolower eid action msg s) (\<lambda>(s1, outs). bindr (perf_run tolower eid action msgs s1) (\<lambda>(s2, outs2). Inr (s2, outs @ outs2)))"

lemma chain_rows_ok: "\<forall>c\<in>set rows. - 1 \<le> pcc_symbolId c \<Longrightarrow> \<exists>m. initPerfCallChainTopDown files rows = Inr m"
proof -
  have "\<forall>c\<in>set rows. - 1 \<le> pcc_symbolId c \<Longrightarrow> \<exists>m'. chain_rows_loop files rows m = Inr m'" for m
    by (induction rows arbitrary: m) (simp_all add: setPerfCallChainFrameName_ok)
  then show "\<forall>c\<in>set rows. - 1 \<le> pcc_symbolId c \<Longrightarrow> ?thesis" by (simp add: initPerfCallChainTopDown_def)
qed

text \<open>Loading a trace: when the answers to the queries come in turn, each is followed by the next query, and the last by the reply with the depths of the call chains. Whatever the worker held
  before, its tables are then those of the new trace, and nothing is left of an earlier tree, search or filter.\<close>

theorem perf_load:
  assumes "\<forall>c\<in>set rows. - 1 \<le> pcc_symbolId c"
  shows "\<exists>m s'. initPerfCallChainTopDown (fold add_file fs Map.empty) rows = Inr m
    \<and> perf_run tolower eid action [Perf_init f, Perf_queryPerfFiles fs, Perf_queryPerfThread ts, Perf_queryPerfCalls cs, Perf_queryPerfCallchains rows] s =
        Inr (s', map (\<lambda>nm. PQuery eid (js nm) [] None) [''perf-queryPerfFiles'', ''perf-queryPerfThread'', ''perf-queryPerfCalls'', ''perf-queryPerfCallchains'']
          @ [PPost eid action (RCalls (fold (\<lambda>c. js_map_set (pcl_sampleId c) c) cs []))])
    \<and> hp_files s' = fold add_file fs Map.empty \<and> hp_threads s' = fold add_thread ts Map.empty \<and> hp_chains s' = m \<and> hp_samples s' = None \<and> hp_countToMs s' = f
    \<and> hp_allProcess s' = [] \<and> hp_list s' = [] \<and> hp_dataSource s' = [] \<and> hp_searchValue s' = [] \<and> ms_splitMap (hp_tree s') = Map.empty"
proof -
  obtain m where "initPerfCallChainTopDown (fold add_file fs Map.empty) rows = Inr m" using chain_rows_ok [OF assms] by blast
  then show ?thesis by (simp add: perf_handle_def perf_clearAll_def perf_query_def Let_def)
qed

section \<open>The rows of a selection\<close>

lemma processes_children: "p \<in> set (perf_processes threads trees) \<Longrightarrow> pp_children p \<noteq> []"
proof -
  assume "p \<in> set (perf_processes threads trees)"
  then have "p \<in> set (map snd (group_all (\<lambda>t. js_num (pn_pid (ct_bean t))) (perf_process_new threads) perf_process_add trees))"
    unfolding perf_processes_def mset_eq_setD [OF mset_js_object_values] .
  then have "p \<in> snd ` set (group_all (\<lambda>t. js_num (pn_pid (ct_bean t))) (perf_process_new threads) perf_process_add trees)" by (simp only: set_map)
  then show "pp_children p \<noteq> []" by (rule group_values) (simp_all add: perf_process_new_def perf_process_add_def Let_def)
qed

lemma new_nodes_children:
  assumes "distinct (concat (map tree_ids data))" "t \<in> set data" "mt_id t \<in> set ns"
  shows "ms_children (new_nodes ns data s) (mt_id t) = map mt_id (mt_kids t)"
proof -
  have "map fst (concat (map tree_kids data)) = concat (map tree_ids data)" by (simp add: map_concat comp_def tree_kids_ids)
  moreover have "(mt_id t, map mt_id (mt_kids t)) \<in> set (tree_kids t)" by (cases t) simp
  then have "(mt_id t, map mt_id (mt_kids t)) \<in> set (concat (map tree_kids data))" using assms(2) by auto
  ultimately have "map_of (concat (map tree_kids data)) (mt_id t) = Some (map mt_id (mt_kids t))" using assms(1) by simp
  then show ?thesis using assms(3) by (simp add: new_nodes_def Let_def)
qed

lemma fresh_tree_rows:
  assumes "fresh_tree d s = Inr s'"
  shows "filter (\<lambda>i. ms_children (hp_tree s') i \<noteq> []) (map mt_id (hp_allProcess s')) = map mt_id (hp_allProcess s')"
proof -
  obtain xs ps n tot where run: "hp_samples s = Some xs" "freshPerfCallchains (hp_threads s) (hp_chains s) xs d (hp_next s) = Inr (ps, n, tot)"
    and s': "hp_allProcess s' = perf_forest n ps" "hp_tree s' = new_nodes [hp_next s..<n + length ps] (perf_forest n ps) (hp_tree s)"
    using assms by (auto simp: fresh_tree_def bindr_eq_Inr_iff Let_def split: option.splits)
  have d: "distinct (concat (map tree_ids (perf_forest n ps)))" "hp_next s \<le> n"
    using perf_forest_list [OF fresh_known [OF run(2)] run(2)] by (simp_all add: forest_list_def)
  have "ms_children (hp_tree s') (mt_id t) \<noteq> []" if t: "t \<in> set (perf_forest n ps)" for t
  proof -
    obtain i p where p: "(i, p) \<in> set (zip [n..<n + length ps] ps)" "t = perf_mprocess i p" using t by (auto simp: perf_forest_def)
    have "pp_children p \<noteq> []" using set_zip_rightD [OF p(1)] run(2) processes_children by (auto simp: freshPerfCallchains_def bindr_eq_Inr_iff)
    moreover have "mt_id t \<in> set [hp_next s..<n + length ps]" using set_zip_leftD [OF p(1)] p(2) d(2) by (simp add: perf_mprocess_def)
    ultimately show ?thesis using new_nodes_children [OF d(1) t] p(2) by (simp add: s'(2) perf_mprocess_def)
  qed
  then show ?thesis unfolding s'(1) by (simp add: filter_id_conv)
qed

lemma forest_counts: "map (\<lambda>t. mb_count (mt_bean t)) (perf_forest n ps) = map pp_dur ps"
  by (rule nth_equalityI) (simp_all add: perf_forest_def perf_mprocess_def)

lemma perf_selection:
  assumes "\<not> hp_isAnalysis s" "\<not> hp_isBottomUp s" "threads_known (hp_threads s) (hp_chains s) xs"
  shows "\<exists>s'. perf_handle tolower eid action (Perf_queryCallchainsGroupSample xs) s = Inr (s', [PPost eid action (RRows (map mt_id (hp_allProcess s')))])
    \<and> sum_list (map (\<lambda>t. mb_count (mt_bean t)) (hp_allProcess s')) = sum_list (map pcs_count (filter (\<lambda>x. hp_chains s (pcs_sampleId x) \<notin> {None, Some []}) xs))
    \<and> hp_total s' = sum_list (map pcs_count xs)"
proof -
  let ?s = "s\<lparr>hp_event := eid, hp_samples := Some xs\<rparr>"
  from perf_totals [OF assms(3), of True "hp_next s"] obtain ps n where
    run: "freshPerfCallchains (hp_threads s) (hp_chains s) xs True (hp_next s) = Inr (ps, n, sum_list (map pcs_count xs))"
    and dur: "sum_list (map pp_dur ps) = sum_list (map pcs_count (filter (\<lambda>x. hp_chains s (pcs_sampleId x) \<notin> {None, Some []}) xs))" by blast
  obtain s1 where s1: "fresh_tree True ?s = Inr s1" "hp_allProcess s1 = perf_forest n ps" "hp_total s1 = sum_list (map pcs_count xs)"
    by (simp add: fresh_tree_def run Let_def)
  let ?s' = "s1\<lparr>hp_dataSource := map mt_id (hp_allProcess s1)\<rparr>"
  have "perf_handle tolower eid action (Perf_queryCallchainsGroupSample xs) s = Inr (?s', [PPost eid action (RRows (map mt_id (hp_allProcess s1)))])"
    using assms(1,2) by (simp add: perf_handle_def sample_action_def resolvingAction_def perf_act_def s1(1) fresh_tree_rows [OF s1(1)] Let_def)
  then show ?thesis using s1(2,3) dur by (intro exI [of _ ?s']) (simp add: forest_counts)
qed

text \<open>C14: when the samples of a selection arrive, their threads are known and the view has asked neither for the analysis nor for the bottom-up table, the worker posts one reply: the row of every
  process of the new tree. The counts of the rows add up to the number of samples that have a call chain, and the percentages refer to the number of all samples.\<close>

theorem perf_selection_rows:
  assumes "\<not> hp_isAnalysis s" "\<not> hp_isBottomUp s" "threads_known (hp_threads s) (hp_chains s) xs"
  shows "\<exists>s'. perf_handle tolower eid action (Perf_queryCallchainsGroupSample xs) s = Inr (s', [PPost eid action (RRows (map mt_id (hp_allProcess s')))])
    \<and> sum_list (map (\<lambda>t. mb_count (mt_bean t)) (hp_allProcess s')) = sum_list (map pcs_count (filter (\<lambda>x. hp_chains s (pcs_sampleId x) \<notin> {None, Some []}) xs))
    \<and> hp_total s' = sum_list (map pcs_count xs)"
  by (rule perf_selection [OF assms])

text \<open>Starting a new trace does not take back a request for the analysis table: when the view has asked for it and the trace is reloaded before the samples arrive, the first
  selection of the new trace, which asks for the call tree, is answered with the analysis table.\<close>

theorem stale_analysis_request:
  "map_sum id snd (perf_run id [] [] [Perf_action [Act_setCombineCallChain], Perf_init 1, Perf_queryPerfFiles [], Perf_queryPerfThread [], Perf_queryPerfCalls [],
      Perf_queryPerfCallchains [], Perf_queryCallchainsGroupSample []] perf_initial) =
   Inr ([PPost [] [] (RRows [])] @ map (\<lambda>nm. PQuery [] (js nm) [] None) [''perf-queryPerfFiles'', ''perf-queryPerfThread'', ''perf-queryPerfCalls'', ''perf-queryPerfCallchains'']
     @ [PPost [] [] (RCalls []), PPost [] [] (RAnalysis [])])"
  by (simp add: perf_handle_def perf_clearAll_def perf_query_def resolvingAction_def perf_act_def perf_analysis_def sample_action_def initPerfCallChainTopDown_def perf_initial_def Let_def)

section \<open>Concrete instances\<close>

text \<open>The state after a trace has been loaded.\<close>

definition demo_perf_state :: PerfState where
  "demo_perf_state = perf_initial\<lparr>hp_threads := demo_perf_threads, hp_chains := demo_perf_chains\<rparr>"

lemma demo_perf_reach:
  "\<exists>s. perf_reach id s \<and> hp_allProcess s \<noteq> []"
proof -
  let ?threads = "map snd [(7::int, \<lparr>pth_tid = 7, pth_threadName = js ''worker'', pth_pid = 5, pth_processName = js ''app''\<rparr>)]" and ?rows = "[demo_perf_row 1 ''main'']"
  obtain m where m: "initPerfCallChainTopDown Map.empty ?rows = Inr m" "m 1 \<noteq> None" "m 1 \<noteq> Some []"
    by (simp add: initPerfCallChainTopDown_def setPerfCallChainFrameName_def addPerfGroupData_def push_bounded_def demo_perf_row_def Let_def)
  let ?s1 = "perf_initial\<lparr>hp_threads := fold add_thread ?threads Map.empty\<rparr>"
  let ?s2 = "?s1\<lparr>hp_chains := m\<rparr>"
  have reach1: "perf_reach id ?s1"
    by (rule perf_msg [OF perf_start, of _ "[]" "[]" "Perf_queryPerfThread ?threads" _ "[perf_query ''perf-queryPerfCalls'' perf_initial]"]) (simp add: perf_handle_def perf_initial_def)
  have reach2: "perf_reach id ?s2"
    by (rule perf_msg [OF reach1, of "[]" "[]" "Perf_queryPerfCallchains ?rows" _ "[PPost [] [] (RCalls [])]"]) (simp add: perf_handle_def perf_initial_def m(1))
  have "threads_known (hp_threads ?s2) (hp_chains ?s2) [demo_perf_sample 1 7 3]" by (simp add: threads_known_def add_thread_def demo_perf_sample_def)
  from perf_selection [OF _ _ this, of id "[]" "[]"] obtain s' where
    s': "perf_handle id [] [] (Perf_queryCallchainsGroupSample [demo_perf_sample 1 7 3]) ?s2 = Inr (s', [PPost [] [] (RRows (map mt_id (hp_allProcess s')))])"
    "sum_list (map (\<lambda>t. mb_count (mt_bean t)) (hp_allProcess s')) = 3"
    using m(2,3) by (auto simp: perf_initial_def demo_perf_sample_def)
  then show ?thesis using perf_msg [OF reach2 s'(1)] by auto
qed

theorem perf_tree_invariant_witness:
  "\<exists>s :: PerfState. hp_allProcess s \<noteq> [] \<and> distinct (hp_list s) \<and> set (hp_list s) = trees_ids (hp_allProcess s) - mt_id ` set (hp_allProcess s)"
proof -
  obtain s where s: "perf_reach id s" "hp_allProcess s \<noteq> []" using demo_perf_reach by (elim exE conjE)
  show ?thesis using s(2) perf_tree_invariant [OF s(1)] by (intro exI [of _ s]) simp
qed

theorem perf_never_blocked_witness:
  "\<exists>s :: PerfState. hp_allProcess s \<noteq> [] \<and> perf_handle id [] [] (Perf_action [Act_setSearchValue (js ''a''), Act_resetAllNode]) s \<noteq> Inl Blocked"
proof -
  obtain s where s: "perf_reach id s" "hp_allProcess s \<noteq> []" using demo_perf_reach by (elim exE conjE)
  show ?thesis using s(2) perf_never_blocked [OF s(1), of "[]" "[]" _ Blocked] by (intro exI [of _ s]) auto
qed

theorem perf_load_witness:
  "\<exists>s'. perf_run id [] [] [Perf_init 1, Perf_queryPerfFiles [], Perf_queryPerfThread [], Perf_queryPerfCalls [], Perf_queryPerfCallchains [demo_perf_row 1 ''main'']] demo_perf_state =
     Inr (s', map (\<lambda>nm. PQuery [] (js nm) [] None) [''perf-queryPerfFiles'', ''perf-queryPerfThread'', ''perf-queryPerfCalls'', ''perf-queryPerfCallchains''] @ [PPost [] [] (RCalls [])])
     \<and> hp_threads s' = Map.empty"
proof -
  have "\<forall>c\<in>set [demo_perf_row 1 ''main'']. - 1 \<le> pcc_symbolId c" by (simp add: demo_perf_row_def)
  from perf_load [OF this, of "[]" id "[]" "[]" 1 "[]" "[]" demo_perf_state] show ?thesis by (elim exE conjE) (intro exI conjI, assumption?, simp_all)
qed

theorem perf_selection_rows_witness:
  "\<exists>s'. perf_handle id [] [] (Perf_queryCallchainsGroupSample [demo_perf_sample 1 7 3, demo_perf_sample 9 7 4]) demo_perf_state = Inr (s', [PPost [] [] (RRows (map mt_id (hp_allProcess s')))])
    \<and> sum_list (map (\<lambda>t. mb_count (mt_bean t)) (hp_allProcess s')) = 3 \<and> hp_total s' = 7"
proof -
  have "threads_known (hp_threads demo_perf_state) (hp_chains demo_perf_state) [demo_perf_sample 1 7 3, demo_perf_sample 9 7 4]"
    by (simp add: demo_perf_state_def threads_known_def demo_perf_defs)
  from perf_selection_rows [OF _ _ this, of id "[]" "[]"] show ?thesis by (simp add: demo_perf_state_def perf_initial_def demo_perf_chains_def demo_perf_sample_def)
qed

end
