(* ===== verification/Native_Worker.thy ===== *)
theory Native_Worker
  imports Native_Rows Native_Chart Native_Statistic Perf_Worker
begin

text \<open>
  The native memory worker: its state, its messages and the actions of the view
  (\<open>trace/database/logic-worker/ProcedureLogicWorkerNativeNemory.ts\<close>).

  As in the perf worker, the nodes of a call tree have numbers and a new tree takes numbers that no earlier tree had. The hiding, cutting and searching is done by
  \<open>merageBeanDataSplit\<close>; the number that hides a node is its \<open>count\<close> and its searched name is \<open>symbolName\<close>. The texts of the queries are represented by the name of the query, the
  condition that the arguments add and the range of time. A message that raises an exception ends a run. The dictionary and the cached frames are fields of
  the \<open>DataCache\<close>, of which this worker reads and writes \<open>dataDict\<close>, \<open>nmFileDict\<close> and \<open>nmHeapFrameMap\<close>.
\<close>

section \<open>State\<close>

record NmState =
  hn_events :: "NativeEvent list"
  hn_frames :: frame_map
  hn_dict :: data_dict
  hn_files :: cut_cache
  hn_samples :: "NativeHookStatistics list"
  hn_current :: "NativeHookStatistics list"
  hn_threads :: "NativeThread list"
  hn_totalSize :: int
  hn_totalCount :: int
  hn_allThreads :: "MTree list"
  hn_list :: "nat list"
  hn_next :: nat
  hn_names :: "nat \<Rightarrow> jsstring"
  hn_tree :: MState
  hn_searchValue :: jsstring
  hn_chartComplete :: "int list"
  hn_realTimeDif :: int
  hn_responseTypes :: "(int \<times> jsstring) list"
  hn_totalNS :: int
  hn_isStatistic :: bool
  hn_box :: "NativeMemory list"
  hn_clearBox :: bool
  hn_args :: "NmArgs option"
  hn_event :: jsstring

definition native_initial :: NmState where
  "native_initial = \<lparr>hn_events = [], hn_frames = [], hn_dict = Map.empty, hn_files = Map.empty, hn_samples = [], hn_current = [], hn_threads = [], hn_totalSize = 0, hn_totalCount = 0,
     hn_allThreads = [], hn_list = [], hn_next = 0, hn_names = \<lambda>i. [], hn_tree = mstate_new, hn_searchValue = [], hn_chartComplete = [], hn_realTimeDif = 0, hn_responseTypes = [],
     hn_totalNS = 0, hn_isStatistic = False, hn_box = [], hn_clearBox = False, hn_args = None, hn_event = []\<rparr>"

text \<open>The arguments of the table when their map has been emptied: none is set, so that no row is filtered and nothing is sorted. The range of time is then not read.\<close>

definition cleared_args :: NmArgs where
  "cleared_args = \<lparr>na_allocType = None, na_eventType = None, na_responseType = None, na_leftNs = 0, na_rightNs = 0, na_sortColumn = None, na_sortType = 0, na_selection = [],
     na_refresh = False, na_types = []\<rparr>"

definition native_clearAll :: "NmState \<Rightarrow> NmState" where
  "native_clearAll s = s\<lparr>hn_files := Map.empty, hn_frames := [], hn_tree := (hn_tree s)\<lparr>ms_splitMap := Map.empty\<rparr>, hn_current := [], hn_threads := [], hn_allThreads := [],
     hn_samples := [], hn_events := [], hn_chartComplete := [], hn_realTimeDif := 0, hn_list := [], hn_responseTypes := [], hn_box := [],
     hn_args := map_option (\<lambda>a. cleared_args) (hn_args s)\<rparr>"

section \<open>Queries\<close>

datatype NmResult =
    NEmpty
  | NRows "nat list"
  | NAnalysis "AnalysisSample list"
  | NTable "NativeMemory Msg"
  | NStack "NativeHookCallInfo list"
  | NChart "HeapStruct Msg"
  | NTypes "(int \<times> jsstring) list"
  | NStatistic "StatRow Msg"

datatype NmOut =
    NQuery jsstring jsstring jsstring "(int \<times> int) option"
  | NPost jsstring jsstring NmResult

definition quoted :: "jsstring \<Rightarrow> jsstring" where
  "quoted t = 39 # t @ [39]"

definition nm_queryNativeHookStatistic :: "int \<Rightarrow> NmState \<Rightarrow> NmOut" where
  "nm_queryNativeHookStatistic typ s =
     NQuery (hn_event s) (js ''native-memory-queryNativeHookStatistic'') (if typ = 0 then js ''and type = 0'' else if typ = 1 then js ''and type > 0'' else []) None"

text \<open>The conditions of the table. The types of the arguments come with their quotes.\<close>

definition hook_condition :: "NmArgs \<Rightarrow> jsstring" where
  "hook_condition a =
     (case na_types a of [t] \<Rightarrow> js ''and A.event_type = '' @ t
        | _ \<Rightarrow> js ''and (A.event_type = '' @ quoted AllocEvent @ js '' or A.event_type = '' @ quoted MmapEvent @ js '')'')
     @ (case na_responseType a of None \<Rightarrow> [] | Some libId \<Rightarrow> if libId = - 1 then [] else js '' and last_lib_id = '' @ js_num libId)
     @ (if na_eventType a = Some 1 then js '' and event_type = '' @ quoted AllocEvent else [])
     @ (if na_eventType a = Some 2 then js '' and event_type = '' @ quoted MmapEvent else [])
     @ (if na_allocType a = Some (js ''1'') then js '' and ((A.end_ts - B.start_ts) > '' @ js_num (na_rightNs a) @ js '' or A.end_ts is null)'' else [])
     @ (if na_allocType a = Some (js ''2'') then js '' and (A.end_ts - B.start_ts) <= '' @ js_num (na_rightNs a) else [])"

definition nm_queryNativeHookEvent :: "NmArgs \<Rightarrow> NmState \<Rightarrow> NmOut" where
  "nm_queryNativeHookEvent a s = NQuery (hn_event s) (js ''native-memory-queryNativeHookEvent'') (hook_condition a) (Some (na_leftNs a, na_rightNs a))"

definition nm_queryCallchainsSamples :: "string \<Rightarrow> int \<Rightarrow> int \<Rightarrow> jsstring list \<Rightarrow> NmState \<Rightarrow> NmOut" where
  "nm_queryCallchainsSamples action leftNs rightNs types s =
     NQuery (hn_event s) (js action) (js ''and A.event_type in ('' @ js_join (js '','') types @ js '')'') (Some (leftNs, rightNs))"

definition nm_queryStatisticCallchainsSamples :: "string \<Rightarrow> int \<Rightarrow> int \<Rightarrow> int list \<Rightarrow> NmState \<Rightarrow> NmOut" where
  "nm_queryStatisticCallchainsSamples action leftNs rightNs types s =
     NQuery (hn_event s) (js action) (case types of [t] \<Rightarrow> if t = 0 then js ''and type = 0'' else js ''and type != 0'' | _ \<Rightarrow> []) (Some (leftNs, rightNs))"

section \<open>The call tree\<close>

text \<open>The nodes of a tree with the numbers of their function and library; they are named in the order of the list, in which the nodes were made.\<close>

fun native_nodes :: "NativeTree \<Rightarrow> (nat \<times> int \<times> int) list" where
  "native_nodes (CallTree b kids) = (nn_index b, nn_symbolId b, nn_fileId b) # concat (map native_nodes kids)"

fun name_nodes :: "data_dict \<Rightarrow> (nat \<times> int \<times> int) list \<Rightarrow> cut_cache \<Rightarrow> (nat \<times> NmName) list \<times> cut_cache" where
  "name_nodes dict [] cache = ([], cache)"
| "name_nodes dict ((i, symbolId, fileId) # ns) cache =
     (let (nm, cache1) = setMerageName dict symbolId fileId cache; (rest, cache2) = name_nodes dict ns cache1 in ((i, nm) # rest, cache2))"

definition no_name :: NmName where
  "no_name = \<lparr>nmn_symbol = [], nmn_path = [], nmn_libName = [], nmn_symbolName = [], nmn_type = 0\<rparr>"

definition name_of_node :: "(nat \<times> NmName) list \<Rightarrow> nat \<Rightarrow> NmName" where
  "name_of_node names i = (case map_of names i of None \<Rightarrow> no_name | Some nm \<Rightarrow> nm)"

fun native_mtree :: "(nat \<times> NmName) list \<Rightarrow> NativeTree \<Rightarrow> MTree" where
  "native_mtree names (CallTree b kids) =
     (let nm = name_of_node names (nn_index b) in
      MTree (nn_index b) \<lparr>mb_symbolName = nmn_symbolName nm, mb_libName = nmn_libName nm, mb_path = nmn_path nm, mb_count = nn_count b\<rparr> (map (native_mtree names) kids))"

definition native_mthread :: "(nat \<times> NmName) list \<Rightarrow> nat \<Rightarrow> NativeThread \<Rightarrow> MTree" where
  "native_mthread names i th =
     MTree i \<lparr>mb_symbolName = nt_symbolName th, mb_libName = [], mb_path = [], mb_count = nt_count th\<rparr> (map (native_mtree names) (nt_children th))"

definition native_forest :: "(nat \<times> NmName) list \<Rightarrow> nat \<Rightarrow> NativeThread list \<Rightarrow> MTree list" where
  "native_forest names n ths = map2 (native_mthread names) [n..<n + length ths] ths"

definition native_fresh :: "NativeHookStatistics list \<Rightarrow> bool \<Rightarrow> NmState \<Rightarrow> NmState" where
  "native_fresh samples isTopDown s =
     (let (ths, n, totalSize, totalCount) = nm_freshCurrentCallchains (hn_frames s) samples isTopDown (hn_next s);
          nodes = sort_key fst (concat (map (\<lambda>th. concat (map native_nodes (nt_children th))) ths));
          (names, files) = name_nodes (hn_dict s) nodes (hn_files s);
          data = native_forest names n ths; ns = [hn_next s..<n + length ths];
          texts = map (\<lambda>(i, nm). (i, nmn_symbolName nm)) names @ zip [n..<n + length ths] (map nt_symbolName ths)
      in s\<lparr>hn_threads := ths, hn_totalSize := totalSize, hn_totalCount := totalCount, hn_allThreads := data, hn_list := [hn_next s..<n], hn_next := n + length ths, hn_files := files,
           hn_names := (\<lambda>i. case map_of texts i of None \<Rightarrow> hn_names s i | Some nm \<Rightarrow> nm), hn_tree := new_nodes ns data (hn_tree s)\<rparr>)"

section \<open>Actions\<close>

datatype NmAction =
    NAct_groupCallchainSample NmParams
  | NAct_getCallChainsBySampleIds bool
  | NAct_hideSystemLibrary
  | NAct_hideNumMaxAndMin int "int option"
  | NAct_splitAllProcess "SplitItem list"
  | NAct_resetAllNode
  | NAct_resotreAllNode "jsstring list"
  | NAct_splitTree jsstring bool bool
  | NAct_setSearchValue jsstring
  | NAct_clearSplitMapData jsstring
  | NAct_skipped jsstring

text \<open>A search that went deeper than there are nodes would be \<open>Blocked\<close>.\<close>

definition native_fuel :: "NmState \<Rightarrow> nat" where
  "native_fuel s = length (concat (map tree_ids (hn_allThreads s)))"

definition or_blocked :: "NmState \<Rightarrow> MState option \<Rightarrow> NmState result" where
  "or_blocked s r = (case r of None \<Rightarrow> Inl Blocked | Some t \<Rightarrow> Inr (s\<lparr>hn_tree := t\<rparr>))"

definition native_act :: "(jsstring \<Rightarrow> jsstring) \<Rightarrow> NmAction \<Rightarrow> NmState \<Rightarrow> NmState result" where
  "native_act tolower a s =
     (let on_tree = (\<lambda>f. Inr (s\<lparr>hn_tree := f (hn_tree s)\<rparr>)) in
      case a of
        NAct_groupCallchainSample p \<Rightarrow>
          bindr (groupCallchainSample tolower (hn_dict s) p (hn_samples s) (hn_searchValue s)) (\<lambda>(cur, search). Inr (s\<lparr>hn_current := cur, hn_searchValue := search\<rparr>))
      | NAct_getCallChainsBySampleIds isTopDown \<Rightarrow> Inr (native_fresh (hn_current s) isTopDown s)
      | NAct_hideSystemLibrary \<Rightarrow> on_tree (hideSystemLibrary (hn_allThreads s))
      | NAct_hideNumMaxAndMin startNum endNum \<Rightarrow> on_tree (hideNumMaxAndMin (hn_allThreads s) startNum endNum)
      | NAct_splitAllProcess items \<Rightarrow> on_tree (splitAllProcess (hn_allThreads s) items)
      | NAct_resetAllNode \<Rightarrow> or_blocked s (resetAllNode (native_fuel s) tolower (hn_names s) (hn_allThreads s) (hn_list s) (hn_searchValue s) (hn_tree s))
      | NAct_resotreAllNode symbols \<Rightarrow> on_tree (resotreAllNode symbols)
      | NAct_splitTree nm isCharge isSymbol \<Rightarrow>
          or_blocked s (splitTree (native_fuel s) tolower (hn_names s) (hn_allThreads s) nm isCharge isSymbol (hn_list s) (hn_searchValue s) (hn_tree s))
      | NAct_setSearchValue v \<Rightarrow> Inr (s\<lparr>hn_searchValue := v\<rparr>)
      | NAct_clearSplitMapData nm \<Rightarrow> on_tree (clearSplitMapData nm)
      | NAct_skipped funcName \<Rightarrow> Inr s)"

fun native_acts :: "(jsstring \<Rightarrow> jsstring) \<Rightarrow> NmAction list \<Rightarrow> NmState \<Rightarrow> NmState result" where
  "native_acts tolower [] s = Inr s"
| "native_acts tolower (a # as) s = bindr (native_act tolower a s) (native_acts tolower as)"

definition resolvingNMCallAction :: "(jsstring \<Rightarrow> jsstring) \<Rightarrow> NmAction list \<Rightarrow> NmState \<Rightarrow> (NmState \<times> NmResult) result" where
  "resolvingNMCallAction tolower params s =
     bindr (native_acts tolower params s) (\<lambda>s1. Inr (s1, NRows (filter (\<lambda>i. ms_children (hn_tree s1) i \<noteq> []) (map mt_id (hn_allThreads s1)))))"

section \<open>The table and the charts\<close>

text \<open>Posting an array in pages also empties it. Without a filter it is the array that the worker keeps.\<close>

definition post_pages_of :: "jsstring \<Rightarrow> jsstring \<Rightarrow> ('a Msg \<Rightarrow> NmResult) \<Rightarrow> nat \<Rightarrow> 'a list \<Rightarrow> NmOut list" where
  "post_pages_of eid action res pageSize rows = map (\<lambda>p. NPost eid action (res p)) (postMessage rows pageSize)"

definition post_table :: "jsstring \<Rightarrow> NmState \<Rightarrow> (NmState \<times> NmOut list) result" where
  "post_table action s =
     (case hn_args s of
        None \<Rightarrow> Inl TypeError
      | Some a \<Rightarrow> bindr (resolvingActionNativeMemory a (hn_box s)) (\<lambda>(rows, box).
          Inr (s\<lparr>hn_box := (if filters_rows a \<and> \<not> hn_clearBox s then box else [])\<rparr>, post_pages_of (hn_event s) action NTable 500000 rows)))"

definition hook_rows :: "jsstring \<Rightarrow> NativeMemory list \<Rightarrow> NmState \<Rightarrow> (NmState \<times> NmOut list) result" where
  "hook_rows action rows s =
     (let refresh = (case hn_args s of None \<Rightarrow> False | Some a \<Rightarrow> na_refresh a);
          (box, files) = supplementNativeHoodData (hn_dict s) (hn_frames s) rows (hn_files s)
      in post_table action (s\<lparr>hn_box := box, hn_files := files, hn_clearBox := (if refresh then length rows > 1000000 else hn_clearBox s)\<rparr>))"

definition hook_request :: "jsstring \<Rightarrow> NmArgs \<Rightarrow> NmState \<Rightarrow> (NmState \<times> NmOut list) result" where
  "hook_request action a s =
     (let s1 = s\<lparr>hn_args := Some a\<rparr> in
      if na_refresh a \<or> hn_box s = [] then Inr (s1\<lparr>hn_box := []\<rparr>, [nm_queryNativeHookEvent a s1]) else post_table action s1)"

definition charts_done :: "int list \<Rightarrow> bool" where
  "charts_done l \<longleftrightarrow> 0 \<in> set l \<and> 1 \<in> set l \<and> 2 \<in> set l"

definition resolvingActionNativeMemoryChartData :: "int \<Rightarrow> int \<Rightarrow> NmState \<Rightarrow> NmState \<times> HeapStruct list" where
  "resolvingActionNativeMemoryChartData nativeMemoryType totalNS s =
     (let done = nativeMemoryType # hn_chartComplete s in
      (s\<lparr>hn_chartComplete := done, hn_events := (if charts_done done then [] else hn_events s)\<rparr>, nm_chart nativeMemoryType totalNS (hn_events s)))"

section \<open>Messages\<close>

datatype NmMsg =
    NM_init "int option" data_dict
  | NM_queryNMChartData "NativeEvent list"
  | NM_queryNMFrameData "HeapTreeDataBean list"
  | NM_samples "NativeHookStatistics list"
  | NM_querySamples int int "jsstring list"
  | NM_statisticSamples "NativeHookStatistics list"
  | NM_queryStatisticSamples int int "int list"
  | NM_analysis "NativeHookStatistics list"
  | NM_queryAnalysis int int "jsstring list"
  | NM_queryStatisticAnalysis int int "int list"
  | NM_hookRows "NativeMemory list"
  | NM_hookRequest NmArgs
  | NM_stack int
  | NM_stateChange int
  | NM_otherAction
  | NM_chartAction int int
  | NM_calltreeAction "NmAction list"
  | NM_initResponseType "(int option \<times> jsstring) list"
  | NM_getResponseType
  | NM_statisticRows "StatHook list"
  | NM_queryStatistic int int
  | NM_other

text \<open>Samples that arrive take the search back; the reply has all threads.\<close>

definition native_samples :: "jsstring \<Rightarrow> NativeHookStatistics list \<Rightarrow> NmState \<Rightarrow> NmState \<times> NmOut list" where
  "native_samples action samples s =
     (let s1 = native_fresh samples True (s\<lparr>hn_searchValue := [], hn_samples := samples\<rparr>) in (s1, [NPost (hn_event s) action (NRows (map mt_id (hn_allThreads s1)))]))"

definition native_handle :: "(jsstring \<Rightarrow> jsstring) \<Rightarrow> jsstring \<Rightarrow> jsstring \<Rightarrow> NmMsg \<Rightarrow> NmState \<Rightarrow> (NmState \<times> NmOut list) result" where
  "native_handle tolower eid action msg s0 =
     (let s = s0\<lparr>hn_event := eid\<rparr>; reply = (\<lambda>s1 r. Inr (s1, [NPost eid action r])) in
      case msg of
        NM_init realTimeDif dict \<Rightarrow>
          (let s1 = native_clearAll s
           in Inr (s1\<lparr>hn_realTimeDif := (case realTimeDif of None \<Rightarrow> hn_realTimeDif s1 | Some d \<Rightarrow> d), hn_dict := dict\<rparr>, [NQuery eid (js ''native-memory-queryNMChartData'') [] None]))
      | NM_queryNMChartData es \<Rightarrow> Inr (s\<lparr>hn_events := es\<rparr>, [NQuery eid (js ''native-memory-queryNMFrameData'') [] None])
      | NM_queryNMFrameData fs \<Rightarrow> Inr (s\<lparr>hn_frames := initNMStack fs (hn_frames s)\<rparr>, [NPost eid (js ''native-memory-init'') NEmpty])
      | NM_samples xs \<Rightarrow> Inr (native_samples action xs s)
      | NM_querySamples leftNs rightNs types \<Rightarrow>
          (let s1 = s\<lparr>hn_searchValue := []\<rparr> in Inr (s1, [nm_queryCallchainsSamples ''native-memory-queryCallchainsSamples'' leftNs rightNs types s1]))
      | NM_statisticSamples xs \<Rightarrow> Inr (native_samples action xs s)
      | NM_queryStatisticSamples leftNs rightNs types \<Rightarrow>
          (let s1 = s\<lparr>hn_searchValue := []\<rparr> in Inr (s1, [nm_queryStatisticCallchainsSamples ''native-memory-queryStatisticCallchainsSamples'' leftNs rightNs types s1]))
      | NM_analysis xs \<Rightarrow> reply (s\<lparr>hn_samples := sort_key nh_id xs\<rparr>) (NAnalysis (combineStatisticAndCallChain (hn_isStatistic s) (hn_dict s) (hn_frames s) xs))
      | NM_queryAnalysis leftNs rightNs types \<Rightarrow>
          (let s1 = s\<lparr>hn_isStatistic := False\<rparr> in Inr (s1, [nm_queryCallchainsSamples ''native-memory-queryAnalysis'' leftNs rightNs types s1]))
      | NM_queryStatisticAnalysis leftNs rightNs types \<Rightarrow>
          (let s1 = s\<lparr>hn_isStatistic := True\<rparr> in Inr (s1, [nm_queryStatisticCallchainsSamples ''native-memory-queryAnalysis'' leftNs rightNs types s1]))
      | NM_hookRows rows \<Rightarrow> hook_rows action rows s
      | NM_hookRequest a \<Rightarrow> hook_request action a s
      | NM_stack eventId \<Rightarrow>
          (let (rows, files) = resolvingActionNativeMemoryStack (hn_dict s) (hn_frames s) eventId (hn_files s) in reply (s\<lparr>hn_files := files\<rparr>) (NStack rows))
      | NM_stateChange startTs \<Rightarrow> reply (s\<lparr>hn_box := select_row startTs (hn_box s)\<rparr>) NEmpty
      | NM_otherAction \<Rightarrow> reply s NEmpty
      | NM_chartAction nativeMemoryType totalNS \<Rightarrow>
          (let (s1, rows) = resolvingActionNativeMemoryChartData nativeMemoryType totalNS s in Inr (s1, post_pages_of eid action NChart PAGE_SIZE rows))
      | NM_calltreeAction params \<Rightarrow> bindr (resolvingNMCallAction tolower params s) (\<lambda>(s1, r). reply s1 r)
      | NM_initResponseType items \<Rightarrow>
          (let (types, files) = initResponseTypeList items (hn_files s) in reply (s\<lparr>hn_responseTypes := types, hn_files := files\<rparr>) NEmpty)
      | NM_getResponseType \<Rightarrow> reply s (NTypes (hn_responseTypes s))
      | NM_statisticRows hooks \<Rightarrow> Inr (s, post_pages_of eid action NStatistic PAGE_SIZE (handleNativeHookStatisticData (hn_totalNS s) (statisticDataHandler hooks)))
      | NM_queryStatistic totalNS typ \<Rightarrow> (let s1 = s\<lparr>hn_totalNS := totalNS\<rparr> in Inr (s1, [nm_queryNativeHookStatistic typ s1]))
      | NM_other \<Rightarrow> Inr (s, []))"

text \<open>The states that messages lead to; one message of the pool of workers clears them all and the \<open>DataCache\<close>.\<close>

inductive native_reach :: "(jsstring \<Rightarrow> jsstring) \<Rightarrow> NmState \<Rightarrow> bool" for tolower where
  native_start: "native_reach tolower native_initial"
| native_msg: "native_reach tolower s \<Longrightarrow> native_handle tolower eid action msg s = Inr (s', outs) \<Longrightarrow> native_reach tolower s'"
| native_clear: "native_reach tolower s \<Longrightarrow> native_reach tolower ((native_clearAll s)\<lparr>hn_dict := Map.empty\<rparr>)"


inductive_cases native_reach_cases: "native_reach tolower s"

section \<open>The tree of a worker\<close>

definition native_inv :: "NmState \<Rightarrow> bool" where
  "native_inv s \<longleftrightarrow> forest_list (hn_allThreads s) (hn_list s) \<and> trees_ids (hn_allThreads s) \<subseteq> {..<hn_next s}"

text \<open>The fields of a state that the invariant reads.\<close>

definition nm_core :: "NmState \<Rightarrow> MTree list \<times> nat list \<times> nat" where
  "nm_core s = (hn_allThreads s, hn_list s, hn_next s)"

lemma native_inv_core: "native_inv s \<Longrightarrow> nm_core s' = nm_core s \<Longrightarrow> native_inv s'"
  by (simp add: native_inv_def nm_core_def)

lemma nm_core_simps [simp]:
  "nm_core (s\<lparr>hn_event := e\<rparr>) = nm_core s" "nm_core (s\<lparr>hn_dict := dict\<rparr>) = nm_core s" "nm_core (s\<lparr>hn_realTimeDif := d\<rparr>) = nm_core s"
  "nm_core (s\<lparr>hn_events := es\<rparr>) = nm_core s" "nm_core (s\<lparr>hn_frames := fs\<rparr>) = nm_core s" "nm_core (s\<lparr>hn_searchValue := v\<rparr>) = nm_core s"
  "nm_core (s\<lparr>hn_samples := xs\<rparr>) = nm_core s" "nm_core (s\<lparr>hn_current := xs\<rparr>) = nm_core s" "nm_core (s\<lparr>hn_isStatistic := b\<rparr>) = nm_core s"
  "nm_core (s\<lparr>hn_box := box\<rparr>) = nm_core s" "nm_core (s\<lparr>hn_clearBox := b\<rparr>) = nm_core s" "nm_core (s\<lparr>hn_files := cache\<rparr>) = nm_core s"
  "nm_core (s\<lparr>hn_args := a\<rparr>) = nm_core s" "nm_core (s\<lparr>hn_tree := t\<rparr>) = nm_core s" "nm_core (s\<lparr>hn_chartComplete := l\<rparr>) = nm_core s"
  "nm_core (s\<lparr>hn_responseTypes := r\<rparr>) = nm_core s" "nm_core (s\<lparr>hn_totalNS := t0\<rparr>) = nm_core s"
  by (simp_all add: nm_core_def)

lemma native_inv_empty: "hn_allThreads s = [] \<Longrightarrow> hn_list s = [] \<Longrightarrow> native_inv s"
  by (simp add: native_inv_def forest_list_def)

interpretation native_children: additive_group native_thread_new native_thread_add
  "\<lambda>th. mset (concat (map (tree_indexes nn_index) (nt_children th)))" "\<lambda>t. mset (tree_indexes nn_index t)"
  by unfold_locales (simp_all add: native_thread_new_def native_thread_add_def Let_def)

lemma native_mtree_ids: "tree_ids (native_mtree names t) = tree_indexes nn_index t"
  by (induction t) (simp add: Let_def comp_def cong: map_cong)

lemma native_forest_list:
  assumes "nm_freshCurrentCallchains m samples isTopDown start = (ths, n, z, c)"
  shows "forest_list (native_forest names n ths) [start..<n] \<and> trees_ids (native_forest names n ths) \<subseteq> {..<n + length ths} \<and> start \<le> n"
proof -
  let ?step = "\<lambda>x. root_step native_matches newNativeNode nm_merageCallChainSample native_root_key x (native_entries m isTopDown x)"
  obtain trees where r: "fold ?step samples ([], start) = (trees, n)" and ths: "ths = native_threads (js_object_values trees)"
    using assms by (cases "fold ?step samples ([], start)") (auto simp: nm_freshCurrentCallchains_def native_step_def [abs_def] Let_def)
  have num: "start \<le> n" "mset (native_numbers.forest_indexes trees) = mset [start..<n]"
    using native_numbers.forest_numbers [of native_matches native_root_key "native_entries m isTopDown" samples start] by (simp_all add: r Let_def)
  have kids: "mset (concat (map (\<lambda>th. concat (map (tree_indexes nn_index) (nt_children th))) ths)) = mset [start..<n]"
    unfolding ths native_threads_def by (rule grouped_children [OF native_children.additive_group_axioms]) (use num(2) in \<open>simp add: comp_def\<close>)
  have mk: "mt_id (native_mthread names i th) = i" "tree_ids (native_mthread names i th) = i # concat (map (tree_indexes nn_index) (nt_children th))" for i th
    by (simp_all add: native_mthread_def native_mtree_ids comp_def)
  show ?thesis unfolding native_forest_def using numbered_forest [where mk = "native_mthread names", OF num(1) kids mk] num(1) by simp
qed

lemma native_fresh_inv: "native_inv (native_fresh samples isTopDown s)"
proof -
  obtain ths n z c where r: "nm_freshCurrentCallchains (hn_frames s) samples isTopDown (hn_next s) = (ths, n, z, c)" by (metis prod_cases4)
  show ?thesis using native_forest_list [OF r] by (simp add: native_fresh_def native_inv_def r Let_def case_prod_unfold)
qed

section \<open>What can go wrong\<close>

lemma filter_r_error: "filter_r P xs = Inl e \<Longrightarrow> (\<And>x e. P x = Inl e \<Longrightarrow> e = TypeError) \<Longrightarrow> e = TypeError"
  by (induction xs) (auto simp: bindr_eq_Inl_iff)

lemma type_error: "getTypeFromIndex i item sels = Inl e \<Longrightarrow> e = TypeError"
  by (auto simp: getTypeFromIndex_def selection_matches_def split: if_splits MemoryTap.splits option.splits)

lemma group_error: "groupCallchainSample tolower dict p samples searchValue = Inl e \<Longrightarrow> e = TypeError"
  by (auto simp: groupCallchainSample_def keep_sample_def Let_def bindr_eq_Inl_iff split: if_splits dest!: filter_r_error type_error)

lemma table_error: "resolvingActionNativeMemory a box = Inl e \<Longrightarrow> e = TypeError"
  by (auto simp: resolvingActionNativeMemory_def keep_row_def Let_def bindr_eq_Inl_iff split: if_splits option.splits dest!: filter_r_error type_error)

lemma native_search_ends:
  assumes "native_inv s"
  obtains t where "resetAllNode (native_fuel s) tolower (hn_names s) (hn_allThreads s) (hn_list s) v ts = Some t"
proof -
  have "forest_list (hn_allThreads s) (hn_list s)" using assms by (simp add: native_inv_def)
  from search_end [OF this, of "native_fuel s" tolower "hn_names s" v ts] show thesis using that by (auto simp: native_fuel_def)
qed

lemma native_act_inv:
  assumes "native_inv s" "native_act tolower a s = Inr s'"
  shows "native_inv s'"
proof (cases "\<exists>d. a = NAct_getCallChainsBySampleIds d")
  case True
  then show ?thesis using assms(2) by (auto simp: native_act_def native_fresh_inv)
next
  case False
  then have "nm_core s' = nm_core s"
    using assms(2) by (auto simp: native_act_def or_blocked_def Let_def bindr_eq_Inr_iff split: NmAction.splits option.splits)
  then show ?thesis by (rule native_inv_core [OF assms(1)])
qed

lemma native_act_error: "native_inv s \<Longrightarrow> native_act tolower a s = Inl e \<Longrightarrow> e = TypeError"
proof -
  assume s: "native_inv s" and e: "native_act tolower a s = Inl e"
  show ?thesis
  proof (cases a)
    case NAct_resetAllNode
    obtain t where "resetAllNode (native_fuel s) tolower (hn_names s) (hn_allThreads s) (hn_list s) (hn_searchValue s) (hn_tree s) = Some t" by (rule native_search_ends [OF s])
    then show ?thesis using e NAct_resetAllNode by (simp add: native_act_def or_blocked_def)
  next
    case (NAct_splitTree nm isCharge isSymbol)
    obtain t where "splitTree (native_fuel s) tolower (hn_names s) (hn_allThreads s) nm isCharge isSymbol (hn_list s) (hn_searchValue s) (hn_tree s) = Some t"
      unfolding splitTree_def by (rule native_search_ends [OF s])
    then show ?thesis using e NAct_splitTree by (simp add: native_act_def or_blocked_def)
  qed (use e in \<open>auto simp: native_act_def Let_def bindr_eq_Inl_iff dest: group_error\<close>)
qed

lemma native_acts_inv: "native_inv s \<Longrightarrow> native_acts tolower as s = Inr s' \<Longrightarrow> native_inv s'"
  by (induction "as" arbitrary: s) (auto simp: bindr_eq_Inr_iff dest: native_act_inv)

lemma native_acts_error: "native_inv s \<Longrightarrow> native_acts tolower as s = Inl e \<Longrightarrow> e = TypeError"
  by (induction "as" arbitrary: s) (auto simp: bindr_eq_Inl_iff dest: native_act_inv native_act_error)

lemma post_table_core: "post_table action s = Inr (s', outs) \<Longrightarrow> nm_core s' = nm_core s"
  by (auto simp: post_table_def bindr_eq_Inr_iff split: option.splits)

lemma native_handle_inv:
  assumes "native_inv s" "native_handle tolower eid action msg s = Inr (s', outs)"
  shows "native_inv s'"
proof -
  have event: "native_inv (s\<lparr>hn_event := eid\<rparr>)" using assms(1) by (rule native_inv_core) simp
  show ?thesis
  proof (cases msg)
    case (NM_calltreeAction params)
    then show ?thesis using assms(2) native_acts_inv [OF event] by (auto simp: native_handle_def resolvingNMCallAction_def bindr_eq_Inr_iff Let_def)
  next
    case (NM_init r d)
    then show ?thesis using assms(2) by (intro native_inv_empty) (auto simp: native_handle_def native_clearAll_def Let_def)
  qed (use assms(2) in \<open>auto simp: native_handle_def native_samples_def native_fresh_inv hook_rows_def hook_request_def resolvingActionNativeMemoryChartData_def Let_def case_prod_unfold
        split: if_splits dest!: post_table_core intro: native_inv_core [OF assms(1)]\<close>)
qed

lemma native_reach_inv: "native_reach tolower s \<Longrightarrow> native_inv s"
  by (induction rule: native_reach.induct) (auto intro: native_inv_empty native_handle_inv simp: native_initial_def native_clearAll_def)

lemma native_handle_error:
  assumes "native_inv s" "native_handle tolower eid action msg s = Inl e"
  shows "e = TypeError"
proof -
  have event: "native_inv (s\<lparr>hn_event := eid\<rparr>)" using assms(1) by (rule native_inv_core) simp
  have table: "post_table action t = Inl e \<Longrightarrow> e = TypeError" for t by (auto simp: post_table_def bindr_eq_Inl_iff split: option.splits dest: table_error)
  show ?thesis using assms(2) native_acts_error [OF event] table
    by (cases msg) (auto simp: native_handle_def hook_rows_def hook_request_def resolvingNMCallAction_def bindr_eq_Inl_iff Let_def case_prod_unfold split: if_splits)
qed

text \<open>C17: in every state that messages can lead the native memory worker to, the nodes of its call tree are different, the list that filters and searches run over has each node below a
  thread exactly once, and the next message is handled or raises a \<open>TypeError\<close>: no filter and no search runs without end.\<close>

theorem native_never_blocked:
  assumes "native_reach tolower s"
  shows "distinct (concat (map tree_ids (hn_allThreads s))) \<and> distinct (hn_list s) \<and> set (hn_list s) = trees_ids (hn_allThreads s) - mt_id ` set (hn_allThreads s)
    \<and> (\<forall>e. native_handle tolower eid action msg s = Inl e \<longrightarrow> e = TypeError)"
  using native_reach_inv [OF assms] native_handle_error [OF native_reach_inv [OF assms]] by (auto simp: native_inv_def forest_list_def)

section \<open>The rows of a selection\<close>

lemma native_totals:
  assumes "nm_freshCurrentCallchains m samples isTopDown start = (ths, n, z, c)"
  shows "sum_list (map nt_heapSize ths) = sum_list (map nh_heapSize (filter (\<lambda>x. nh_eventId x \<noteq> - 1 \<and> createThreadSample m x \<noteq> []) samples))"
    "z = sum_list (map nh_heapSize (filter (\<lambda>x. nh_eventId x \<noteq> - 1) samples))"
proof -
  let ?step = "\<lambda>x. root_step native_matches newNativeNode nm_merageCallChainSample native_root_key x (native_entries m isTopDown x)"
  obtain trees where r: "fold ?step samples ([], start) = (trees, n)" and ths: "ths = native_threads (js_object_values trees)"
    and z: "z = sum_list (map nh_heapSize (filter (\<lambda>x. nh_eventId x \<noteq> - 1) samples))"
    using assms by (cases "fold ?step samples ([], start)") (auto simp: nm_freshCurrentCallchains_def native_step_def [abs_def] Let_def)
  have "filter (\<lambda>x. native_entries m isTopDown x \<noteq> []) samples = filter (\<lambda>x. nh_eventId x \<noteq> - 1 \<and> createThreadSample m x \<noteq> []) samples"
    by (rule filter_cong) (auto simp: native_entries_def)
  then show "sum_list (map nt_heapSize ths) = sum_list (map nh_heapSize (filter (\<lambda>x. nh_eventId x \<noteq> - 1 \<and> createThreadSample m x \<noteq> []) samples))"
    using native_sizes.forest_total [of native_root_key "native_entries m isTopDown" samples start]
      native_thread_sizes.sum_group [of "\<lambda>t. js_num (nn_tid (ct_bean t))" "js_object_values trees"]
    by (simp add: r ths native_threads_def sum_js_object_values comp_def)
  show "z = sum_list (map nh_heapSize (filter (\<lambda>x. nh_eventId x \<noteq> - 1) samples))" by (rule z)
qed

text \<open>When the samples of a selection arrive, the worker posts one reply with a row for every thread. The rows are the numbers after those of the nodes, the bytes of the
  threads add up to the bytes of the samples that have a call chain, and the percentages refer to the bytes of all samples that have the number of one.\<close>

theorem native_samples_rows:
  "\<exists>s'. native_handle tolower eid action (NM_samples xs) s = Inr (s', [NPost eid action (NRows [hn_next s' - length (hn_threads s')..<hn_next s'])])
    \<and> sum_list (map nt_heapSize (hn_threads s')) = sum_list (map nh_heapSize (filter (\<lambda>x. nh_eventId x \<noteq> - 1 \<and> createThreadSample (hn_frames s) x \<noteq> []) xs))
    \<and> hn_totalSize s' = sum_list (map nh_heapSize (filter (\<lambda>x. nh_eventId x \<noteq> - 1) xs)) \<and> hn_samples s' = xs \<and> hn_searchValue s' = []"
proof -
  let ?s = "s\<lparr>hn_event := eid, hn_searchValue := [], hn_samples := xs\<rparr>"
  obtain ths n z c where r: "nm_freshCurrentCallchains (hn_frames s) xs True (hn_next s) = (ths, n, z, c)" by (metis prod_cases4)
  let ?s' = "native_fresh xs True ?s"
  have "map mt_id (map2 (native_mthread names) is ths) = is" if "length is = length ths" for names "is"
    using that by (induction "is" ths rule: list_induct2) (simp_all add: native_mthread_def)
  then have ids: "map mt_id (native_forest names n ths) = [n..<n + length ths]" for names by (simp add: native_forest_def)
  have "native_handle tolower eid action (NM_samples xs) s = Inr (?s', [NPost eid action (NRows [hn_next ?s' - length (hn_threads ?s')..<hn_next ?s'])])"
    by (simp add: native_handle_def native_samples_def native_fresh_def r ids Let_def case_prod_unfold)
  then show ?thesis using native_totals [OF r] by (intro exI [of _ ?s']) (simp add: native_fresh_def r Let_def case_prod_unfold)
qed

section \<open>The table\<close>

fun native_run :: "(jsstring \<Rightarrow> jsstring) \<Rightarrow> jsstring \<Rightarrow> jsstring \<Rightarrow> NmMsg list \<Rightarrow> NmState \<Rightarrow> (NmState \<times> NmOut list) result" where
  "native_run tolower eid action [] s = Inr (s, [])"
| "native_run tolower eid action (msg # msgs) s =
     bindr (native_handle tolower eid action msg s) (\<lambda>(s1, outs). bindr (native_run tolower eid action msgs s1) (\<lambda>(s2, outs2). Inr (s2, outs @ outs2)))"

lemma table_box: "filters_rows a \<Longrightarrow> resolvingActionNativeMemory a box = Inr (rows, box') \<Longrightarrow> box' = box"
  by (auto simp: resolvingActionNativeMemory_def bindr_eq_Inr_iff Let_def)

text \<open>C18: the table is loaded once. A request that asks for a refresh sends one query with the conditions of its arguments; the rows that answer it are given their index and names, kept, and
  those that pass the filters are posted. A later request without a refresh is answered from the kept rows, with its own filters and order, and sends no query.\<close>

theorem table_requests:
  assumes "na_refresh a" "filters_rows a" "\<not> na_refresh a'" "filters_rows a'" "rows \<noteq> []" "length rows \<le> 1000000"
    and "dict_names (hn_dict s) (hn_frames s)" "cache_agrees (hn_dict s) (hn_files s)"
    and "resolvingActionNativeMemory a (map (\<lambda>(i, r). named_row (hn_dict s) (hn_frames s) i r) (enumerate 0 rows)) = Inr (first, kept)"
    and "resolvingActionNativeMemory a' (map (\<lambda>(i, r). named_row (hn_dict s) (hn_frames s) i r) (enumerate 0 rows)) = Inr (second, kept')"
  shows "\<exists>s'. native_run tolower eid action [NM_hookRequest a, NM_hookRows rows, NM_hookRequest a'] s =
    Inr (s', NQuery eid (js ''native-memory-queryNativeHookEvent'') (hook_condition a) (Some (na_leftNs a, na_rightNs a)) #
      post_pages_of eid action NTable 500000 first @ post_pages_of eid action NTable 500000 second)"
proof -
  let ?rows = "map (\<lambda>(i, r). named_row (hn_dict s) (hn_frames s) i r) (enumerate 0 rows)"
  obtain files where sup: "supplementNativeHoodData (hn_dict s) (hn_frames s) rows (hn_files s) = (?rows, files)"
    using supplement_rows_of [OF assms(7,8), of rows] by (cases "supplementNativeHoodData (hn_dict s) (hn_frames s) rows (hn_files s)") simp
  have kept: "kept = ?rows" "kept' = ?rows" using table_box assms(2,4,9,10) by blast+
  have "?rows \<noteq> []" using assms(5) by (cases rows) simp_all
  then show ?thesis using assms(1-4,6) assms(9,10) [unfolded kept]
    by (simp add: native_handle_def hook_request_def hook_rows_def post_table_def nm_queryNativeHookEvent_def sup Let_def)
qed

section \<open>Charts\<close>

text \<open>The charts of all allocations, of the heap and of mappings are each drawn from all events of the trace, in whatever order they are asked for, and the events are given up only
  after the last of them.\<close>

theorem three_charts:
  assumes "set [t, u, v] = {0, 1, 2}" "hn_chartComplete s = []"
  shows "\<exists>s'. native_run tolower eid action (map (\<lambda>k. NM_chartAction k totalNS) [t, u, v]) s =
    Inr (s', concat (map (\<lambda>k. post_pages_of eid action NChart PAGE_SIZE (nm_chart k totalNS (hn_events s))) [t, u, v])) \<and> hn_events s' = []"
proof -
  have all: "0 \<in> {t, u, v}" "1 \<in> {t, u, v}" "2 \<in> {t, u, v}" unfolding assms(1) [simplified] by simp_all
  have "charts_done [v, u, t]" using all by (simp add: charts_done_def insert_commute disj_ac)
  moreover have "\<not> charts_done [t]" "\<not> charts_done [u, t]" by (auto simp: charts_done_def)
  ultimately show ?thesis using assms(2) by (simp add: native_handle_def resolvingActionNativeMemoryChartData_def Let_def)
qed

section \<open>Concrete instances\<close>

definition demo_native_state :: NmState where
  "demo_native_state = native_initial\<lparr>hn_dict := demo_dict, hn_frames := [(1, [demo_frame 3, demo_frame 4])]\<rparr>"

text \<open>The frames and a sample of a trace lead to a state with a tree.\<close>

lemma demo_native_reach: "\<exists>s. native_reach id s \<and> hn_threads s \<noteq> []"
proof -
  let ?s = "native_initial\<lparr>hn_frames := initNMStack [demo_frame 3, demo_frame 4] []\<rparr>"
  have reach: "native_reach id ?s"
    by (rule native_msg [OF native_start, of id "[]" "[]" "NM_queryNMFrameData [demo_frame 3, demo_frame 4]"]) (simp add: native_handle_def native_initial_def)
  have "createThreadSample (hn_frames ?s) (demo_alloc 8) \<noteq> []"
    by (simp add: createThreadSample_def initNMStack_def group_step_def demo_frame_def demo_alloc_def)
  moreover have "nh_eventId (demo_alloc 8) \<noteq> - 1" "nh_heapSize (demo_alloc 8) = 8" by (simp_all add: demo_alloc_def)
  ultimately obtain s' outs where s': "native_handle id [] [] (NM_samples [demo_alloc 8]) ?s = Inr (s', outs)" "sum_list (map nt_heapSize (hn_threads s')) = 8"
    using native_samples_rows [of id "[]" "[]" "[demo_alloc 8]" ?s] by auto
  have "hn_threads s' \<noteq> []" using s'(2) by auto
  then show ?thesis using native_msg [OF reach s'(1)] by blast
qed

theorem native_never_blocked_witness:
  "\<exists>s :: NmState. hn_threads s \<noteq> [] \<and> distinct (hn_list s) \<and>
    (\<forall>e. native_handle id [] [] (NM_calltreeAction [NAct_setSearchValue (js ''a''), NAct_resetAllNode]) s = Inl e \<longrightarrow> e = TypeError)"
proof -
  obtain s where s: "native_reach id s" "hn_threads s \<noteq> []" using demo_native_reach by (elim exE conjE)
  show ?thesis using s(2) native_never_blocked [OF s(1), of "[]" "[]"] by (intro exI [of _ s]) simp
qed

theorem table_requests_witness:
  "\<exists>s' outs. native_run id [] [] [NM_hookRequest (demo_table_args\<lparr>na_refresh := True\<rparr>), NM_hookRows [demo_hook_row], NM_hookRequest demo_table_args] demo_native_state = Inr (s', outs)
     \<and> length outs = 3"
proof -
  let ?a = "demo_table_args\<lparr>na_refresh := True\<rparr>" and ?s = demo_native_state
  let ?rows = "map (\<lambda>(i, r). named_row (hn_dict ?s) (hn_frames ?s) i r) (enumerate 0 [demo_hook_row])"
  have names: "dict_names (hn_dict ?s) (hn_frames ?s)" by (simp add: demo_native_state_def dict_names_def demo_dict_def demo_frame_def js_def)
  have cache: "cache_agrees (hn_dict ?s) (hn_files ?s)" by (simp add: demo_native_state_def native_initial_def cache_agrees_def)
  have keep: "keep_row a r = Inr True" "filters_rows a" "na_sortColumn a = Some Col_heapSize" if "a = ?a \<or> a = demo_table_args" for a r
    using that by (auto simp: keep_row_def demo_table_args_def getTypeFromIndex_def filters_rows_def js_eq_iff)
  have single: "sortByNativeMemoryColumn Col_heapSize t [r] = [r]" for t r by (simp add: sortByNativeMemoryColumn_def sort_by_def)
  have rows: "resolvingActionNativeMemory a ?rows = Inr (?rows, ?rows)" if "a = ?a \<or> a = demo_table_args" for a
    by (simp add: resolvingActionNativeMemory_def keep [OF that] single Let_def)
  have args: "na_refresh ?a" "filters_rows ?a" "\<not> na_refresh demo_table_args" "filters_rows demo_table_args" by (simp_all add: demo_table_args_def filters_rows_def)
  have one: "length (post_pages_of [] [] NTable 500000 ?rows) = 1" by (simp add: post_pages_of_def postMessage_def post_pages_def)
  have three: "length (NQuery e q c r # post_pages_of [] [] NTable 500000 ?rows @ post_pages_of [] [] NTable 500000 ?rows) = 3" for e q c r using one by simp
  obtain s' where "native_run id [] [] [NM_hookRequest ?a, NM_hookRows [demo_hook_row], NM_hookRequest demo_table_args] ?s =
      Inr (s', NQuery [] (js ''native-memory-queryNativeHookEvent'') (hook_condition ?a) (Some (na_leftNs ?a, na_rightNs ?a)) #
        post_pages_of [] [] NTable 500000 ?rows @ post_pages_of [] [] NTable 500000 ?rows)"
    using table_requests [OF args not_Cons_self2 _ names cache rows [OF disjI1 [OF refl]] rows [OF disjI2 [OF refl]], of id "[]" "[]"] by (elim meta_impE exE) simp_all
  then show ?thesis using three by (intro exI conjI)
qed

theorem three_charts_witness:
  "\<exists>s'. native_run id [] [] (map (\<lambda>k. NM_chartAction k 10) [2, 0, 1]) native_initial =
    Inr (s', concat (map (\<lambda>k. post_pages_of [] [] NChart PAGE_SIZE (nm_chart k 10 [])) [2, 0, 1])) \<and> hn_events s' = []"
proof -
  have "set [2, 0, 1] = {0, 1, 2 :: int}" "hn_chartComplete native_initial = []" by (auto simp: native_initial_def)
  from three_charts [OF this, of id "[]" "[]" 10] show ?thesis by (simp add: native_initial_def)
qed

end
