(* ===== verification/Logic_Format.thy ===== *)
theory Logic_Format
  imports Logic_Common Complex_Main
begin

text \<open>
  Sizes and times as texts (\<open>trace/database/logic-worker/ProcedureLogicWorkerCommon.ts\<close>).

  A quotient is an exact rational number, where the code has the nearest floating point number; \<open>toFixed\<close> rounds to the nearest decimal, upwards from the middle.
\<close>

section \<open>Decimal fractions\<close>

definition pad_zeros :: "nat \<Rightarrow> jsstring \<Rightarrow> jsstring" where
  "pad_zeros f s = replicate (f - length s) 48 @ s"

definition fixed_text :: "nat \<Rightarrow> nat \<Rightarrow> jsstring" where
  "fixed_text f n = (if f = 0 then nat_digits n else nat_digits (n div 10 ^ f) @ 46 # pad_zeros f (nat_digits (n mod 10 ^ f)))"

definition round_up :: "rat \<Rightarrow> nat" where
  "round_up x = nat \<lfloor>x + 1 / 2\<rfloor>"

definition toFixed :: "nat \<Rightarrow> rat \<Rightarrow> jsstring" where
  "toFixed f x = (if x < 0 then 45 # fixed_text f (round_up (- x * 10 ^ f)) else fixed_text f (round_up (x * 10 ^ f)))"

section \<open>Sizes and times\<close>

definition getByteWithUnit_pos :: "int \<Rightarrow> jsstring" where
  "getByteWithUnit_pos bytes =
     (if bytes > 2 ^ 30 then toFixed 2 (of_int bytes / 2 ^ 30) @ js '' Gb''
      else if bytes > 2 ^ 20 then toFixed 2 (of_int bytes / 2 ^ 20) @ js '' Mb''
      else if bytes > 2 ^ 10 then toFixed 2 (of_int bytes / 2 ^ 10) @ js '' Kb''
      else js_num bytes @ js '' byte'')"

definition getByteWithUnit :: "int \<Rightarrow> jsstring" where
  "getByteWithUnit bytes = (if bytes < 0 then 45 # getByteWithUnit_pos (- bytes) else getByteWithUnit_pos bytes)"

text \<open>The unit of a time: its name, its length and the number of decimals. A number that is not positive is written as it is; those that occur are whole.\<close>

definition time_unit :: "rat \<Rightarrow> jsstring \<times> rat \<times> nat" where
  "time_unit ns =
     (if ns \<ge> 3600000000000 then (js ''h '', 3600000000000, 2) else if ns \<ge> 60000000000 then (js ''m '', 60000000000, 2)
      else if ns \<ge> 1000000000 then (js ''s '', 1000000000, 2) else if ns \<ge> 1000000 then (js ''ms '', 1000000, 2)
      else if ns \<ge> 1000 then (0x3BC # js ''s '', 1000, 2) else (js ''ns '', 1, 0))"

definition getProbablyTime :: "rat \<Rightarrow> jsstring" where
  "getProbablyTime ns = (if ns > 0 then (case time_unit ns of (nm, u, f) \<Rightarrow> toFixed f (ns / u) @ nm) else js_num \<lfloor>ns\<rfloor>)"

text \<open>Whole hours, minutes and seconds are written with two decimals that are zero.\<close>

definition timeMsFormat2p :: "rat \<Rightarrow> jsstring" where
  "timeMsFormat2p ms =
     (if ms \<ge> 3600000 then toFixed 2 (of_int \<lfloor>ms / 3600000\<rfloor>) @ js ''h'' else if ms \<ge> 60000 then toFixed 2 (of_int \<lfloor>ms / 60000\<rfloor>) @ js ''min''
      else if ms \<ge> 1000 then toFixed 2 (of_int \<lfloor>ms / 1000\<rfloor>) @ js ''s'' else if ms > 0 then toFixed 2 ms @ js ''ms'' else js ''0s'')"

section \<open>Reading a text back\<close>

definition digits_of :: "jsstring \<Rightarrow> nat" where
  "digits_of s = fold (\<lambda>c n. 10 * n + (unat c - 48)) s 0"

definition read_decimal :: "jsstring \<Rightarrow> rat" where
  "read_decimal s = (let whole = takeWhile (\<lambda>c. c \<noteq> 46) s; frac = drop (Suc (length whole)) s in of_nat (digits_of whole) + of_nat (digits_of frac) / 10 ^ length frac)"

lemma digits_of_digits: "digits_of (nat_digits n) = n"
  by (simp add: digits_of_def digits_value)

lemma fold_zeros: "((*) 10 ^^ k) 0 = (0 :: nat)"
  by (induction k) simp_all

lemma digits_length: "n < 10 ^ f \<Longrightarrow> 0 < f \<Longrightarrow> length (nat_digits n) \<le> f"
proof (induction n arbitrary: f rule: nat_digits.induct)
  case (1 n)
  show ?case
  proof (cases "n < 10")
    case True
    then show ?thesis using "1.prems" by (simp add: nat_digits.simps)
  next
    case False
    have "1 < f"
    proof (rule ccontr)
      assume "\<not> 1 < f"
      then have "f = 1" using "1.prems" by simp
      then show False using "1.prems" False by simp
    qed
    then have "n div 10 < 10 ^ (f - 1)" using "1.prems" by (cases f) auto
    then show ?thesis using "1.IH" [OF False, of "f - 1"] False \<open>1 < f\<close> by (simp add: nat_digits.simps [of n])
  qed
qed

lemma no_dot: "c \<in> set (nat_digits n) \<Longrightarrow> c \<noteq> 46"
  using digits_ok(1) [of n] by (auto simp: list_all_iff is_digit_def)

lemma read_fixed: "read_decimal (fixed_text f n) = of_nat n / 10 ^ f"
proof (cases "f = 0")
  case True
  have whole: "takeWhile (\<lambda>c. c \<noteq> 46) (nat_digits n) = nat_digits n" by (rule takeWhile_eq_all_conv [THEN iffD2]) (use no_dot in blast)
  show ?thesis using True by (simp add: read_decimal_def fixed_text_def whole digits_of_def digits_value Let_def)
next
  case False
  let ?frac = "pad_zeros f (nat_digits (n mod 10 ^ f))" and ?whole = "nat_digits (n div 10 ^ f)"
  have whole: "takeWhile (\<lambda>c. c \<noteq> 46) (?whole @ 46 # ?frac) = ?whole" by (subst takeWhile_append2) (use no_dot in auto)
  have len: "length ?frac = f" using digits_length [of "n mod 10 ^ f" f] False by (simp add: pad_zeros_def)
  have frac: "digits_of ?frac = n mod 10 ^ f" by (simp add: digits_of_def pad_zeros_def fold_zeros digits_value)
  have split: "of_nat (n div 10 ^ f) * 10 ^ f + of_nat (n mod 10 ^ f) = (of_nat n :: rat)"
    using arg_cong [OF div_mult_mod_eq [of n "10 ^ f"], of "of_nat :: nat \<Rightarrow> rat"] by (simp only: of_nat_add of_nat_mult of_nat_power of_nat_numeral)
  have "read_decimal (fixed_text f n) = of_nat (digits_of ?whole) + of_nat (digits_of ?frac) / 10 ^ length ?frac"
    using False by (simp add: read_decimal_def fixed_text_def whole Let_def)
  also have "\<dots> = of_nat (n div 10 ^ f) + of_nat (n mod 10 ^ f) / 10 ^ f" by (simp only: frac len digits_of_digits)
  also have "\<dots> = (of_nat (n div 10 ^ f) * 10 ^ f + of_nat (n mod 10 ^ f)) / 10 ^ f" by (simp add: add_divide_distrib)
  finally show ?thesis by (simp only: split)
qed

lemma round_up_close: "0 \<le> x \<Longrightarrow> \<bar>of_nat (round_up x) - x\<bar> \<le> 1 / 2"
proof -
  assume x: "0 \<le> x"
  have "0 \<le> \<lfloor>x + 1 / 2\<rfloor>" using x by simp
  then have "of_nat (round_up x) = (of_int \<lfloor>x + 1 / 2\<rfloor> :: rat)" by (simp add: round_up_def)
  moreover have "of_int \<lfloor>x + 1 / 2\<rfloor> \<le> x + 1 / 2" "x + 1 / 2 < of_int \<lfloor>x + 1 / 2\<rfloor> + 1" by linarith+
  ultimately show ?thesis by linarith
qed

lemma round_up_whole: "round_up (of_nat n) = n"
proof -
  have "\<lfloor>(of_nat n :: rat) + 1 / 2\<rfloor> = int n" by (rule floor_unique) simp_all
  then show ?thesis by (simp add: round_up_def)
qed

lemma toFixed_close: "0 \<le> x \<Longrightarrow> \<bar>read_decimal (toFixed f x) - x\<bar> \<le> 1 / (2 * 10 ^ f)"
proof -
  assume x: "0 \<le> x"
  have "read_decimal (toFixed f x) - x = (of_nat (round_up (x * 10 ^ f)) - x * 10 ^ f) / 10 ^ f" using x by (simp add: toFixed_def read_fixed field_simps)
  then have "\<bar>read_decimal (toFixed f x) - x\<bar> = \<bar>of_nat (round_up (x * 10 ^ f)) - x * 10 ^ f\<bar> / 10 ^ f" by (simp add: abs_divide)
  also have "\<dots> \<le> (1 / 2) / 10 ^ f" using x by (intro divide_right_mono round_up_close) simp_all
  finally show ?thesis by simp
qed

text \<open>The text of a positive time is a decimal number and a unit, the largest that the time reaches; read back, it differs from the time by at most half of its last decimal.\<close>

theorem getProbablyTime_close:
  assumes "0 < ns"
  shows "\<exists>nm u f s. time_unit ns = (nm, u, f) \<and> getProbablyTime ns = s @ nm \<and> (u \<le> ns \<or> u = 1) \<and> \<bar>read_decimal s * u - ns\<bar> \<le> u / (2 * 10 ^ f)"
proof -
  obtain nm u f where t: "time_unit ns = (nm, u, f)" by (cases "time_unit ns")
  have u: "0 < u" "u \<le> ns \<or> u = 1" using t by (auto simp: time_unit_def split: if_splits)
  have "\<bar>read_decimal (toFixed f (ns / u)) - ns / u\<bar> * u \<le> 1 / (2 * 10 ^ f) * u" using assms u(1) by (intro mult_right_mono toFixed_close) simp_all
  then have "\<bar>read_decimal (toFixed f (ns / u)) * u - ns\<bar> \<le> u / (2 * 10 ^ f)"
    using u(1) by (simp add: abs_if field_simps split: if_splits)
  then show ?thesis using assms t u(2) by (intro exI [of _ nm] exI [of _ u] exI [of _ f] exI [of _ "toFixed f (ns / u)"]) (simp add: getProbablyTime_def)
qed

theorem getProbablyTime_close_witness: "\<exists>s. getProbablyTime 1234567 = s @ js ''ms '' \<and> \<bar>read_decimal s * 1000000 - 1234567\<bar> \<le> 5000"
  using getProbablyTime_close [of 1234567] by (auto simp: time_unit_def)

end
