(* ===== verification/File_Events.thy ===== *)
theory File_Events
  imports Logic_FileSystem Logic_Format
begin

text \<open>
  The file system worker: the tables of file, memory and disk events
  (\<open>trace/database/logic-worker/ProcedureLogicWorkerFileSystem.ts\<close>).

  Columns that the database leaves \<open>NULL\<close> are \<open>None\<close>. The fields that the worker fills in are given their values by these functions.
\<close>

section \<open>Names\<close>

text \<open>\<open>??\<close> on an entry of the dictionary: the default only when there is none.\<close>

definition dict_default :: "data_dict \<Rightarrow> int option \<Rightarrow> jsstring \<Rightarrow> jsstring" where
  "dict_default dict i d = (case Option.bind i dict of None \<Rightarrow> d | Some s \<Rightarrow> s)"

definition type_name :: "(jsstring \<times> jsstring) list \<Rightarrow> int \<Rightarrow> jsstring \<Rightarrow> jsstring" where
  "type_name m ty d = (case map_of m (js_num ty) of None \<Rightarrow> d | Some s \<Rightarrow> s)"

definition other_frames :: "nat \<Rightarrow> jsstring" where
  "other_frames n = js ''('' @ js_num (int n) @ js '' other frames)''"

definition chain_at :: "(int \<times> FileCallChain list) list \<Rightarrow> int \<Rightarrow> FileCallChain list" where
  "chain_at m i = (case map_of m i of None \<Rightarrow> [] | Some l \<Rightarrow> l)"

section \<open>File events\<close>

record FileSysEvent =
  fe_callchainId :: int
  fe_startTs :: int
  fe_dur :: int
  fe_type :: int
  fe_fileId :: "int option"
  fe_firstArg :: "jsstring option"
  fe_secondArg :: "jsstring option"
  fe_thirdArg :: "jsstring option"
  fe_fourthArg :: "jsstring option"
  fe_returnValue :: "jsstring option"
  fe_error :: "jsstring option"
  fe_startTsStr :: jsstring
  fe_durStr :: jsstring
  fe_typeStr :: jsstring
  fe_depth :: nat
  fe_symbol :: jsstring
  fe_path :: jsstring
  fe_backtrace :: "jsstring list"

definition or_0x0 :: "jsstring option \<Rightarrow> jsstring option" where
  "or_0x0 a = (case a of None \<Rightarrow> Some (js ''0x0'') | Some s \<Rightarrow> Some s)"

definition event_args :: "data_dict \<Rightarrow> FileSysEvent \<Rightarrow> FileSysEvent" where
  "event_args dict r = r\<lparr>fe_firstArg := or_0x0 (fe_firstArg r), fe_secondArg := or_0x0 (fe_secondArg r), fe_thirdArg := or_0x0 (fe_thirdArg r), fe_fourthArg := or_0x0 (fe_fourthArg r),
     fe_returnValue := or_0x0 (fe_returnValue r), fe_error := or_0x0 (fe_error r), fe_path := dict_default dict (fe_fileId r) (js ''-'')\<rparr>"

definition supplement_event :: "data_dict \<Rightarrow> (int \<times> FileCallChain list) list \<Rightarrow> jsstring \<Rightarrow> FileSysEvent \<Rightarrow> FileSysEvent" where
  "supplement_event dict m tab r0 =
     (let r1 = r0\<lparr>fe_startTsStr := getTimeString (fe_startTs r0), fe_durStr := getProbablyTime (of_int (fe_dur r0))\<rparr>;
          r2 = (if tab = js ''events'' then event_args dict r1 else r1);
          r = r2\<lparr>fe_typeStr := type_name FILE_TYPE_MAP (fe_type r2) []\<rparr>
      in case chain_at m (fe_callchainId r) of
           [] \<Rightarrow> r\<lparr>fe_depth := 0, fe_symbol := [], fe_path := [], fe_backtrace := []\<rparr>
         | c # cs \<Rightarrow>
             (let symbol = chain_symbol dict c; depth = Suc (length cs);
                  path = (if tab \<noteq> js ''events'' then dict_default dict (fe_fileId r) (js ''-'') else fe_path r)
              in r\<lparr>fe_depth := depth, fe_symbol := symbol, fe_path := path, fe_backtrace := [symbol, other_frames depth]\<rparr>))"

definition supplementFileSysEvents :: "data_dict \<Rightarrow> (int \<times> FileCallChain list) list \<Rightarrow> FileSysEvent list \<Rightarrow> jsstring \<Rightarrow> FileSysEvent list" where
  "supplementFileSysEvents dict m res tab = map (supplement_event dict m tab) res"

text \<open>An event has the path of its file only when it has a call chain: for every other event the path is emptied after it has been looked up.\<close>

theorem event_path:
  "fe_path (supplement_event dict m tab r) = (if chain_at m (fe_callchainId r) = [] then [] else dict_default dict (fe_fileId r) (js ''-''))"
  by (cases "chain_at m (fe_callchainId r)"; cases "tab = js ''events''") (simp_all add: supplement_event_def event_args_def Let_def)

section \<open>Memory events\<close>

record VirtualMemoryEvent =
  ve_startTs :: int
  ve_dur :: int
  ve_size :: int
  ve_type :: int
  ve_startTsStr :: jsstring
  ve_sizeStr :: jsstring
  ve_durStr :: jsstring
  ve_operation :: jsstring

definition supplementVMEvents :: "VirtualMemoryEvent list \<Rightarrow> VirtualMemoryEvent list" where
  "supplementVMEvents res = map (\<lambda>e. e\<lparr>ve_startTsStr := getTimeString (ve_startTs e), ve_sizeStr := getByteWithUnit (ve_size e * 4096), ve_durStr := getProbablyTime (of_int (ve_dur e)),
     ve_operation := type_name VM_TYPE_MAP (ve_type e) (js ''UNKNOWNN'')\<rparr>) res"

section \<open>Disk events\<close>

record IoCompletionTimes =
  io_callchainId :: int
  io_startTs :: int
  io_dur :: int
  io_type :: int
  io_size :: int
  io_pathId :: "int option"
  io_durPer4k :: int
  io_startTsStr :: jsstring
  io_durPer4kStr :: jsstring
  io_sizeStr :: jsstring
  io_durStr :: jsstring
  io_path :: jsstring
  io_operation :: jsstring
  io_backtrace :: "jsstring list"

definition supplementIoEvents :: "data_dict \<Rightarrow> (int \<times> FileCallChain list) list \<Rightarrow> IoCompletionTimes list \<Rightarrow> IoCompletionTimes list" where
  "supplementIoEvents dict m res = map (\<lambda>e. e\<lparr>io_startTsStr := getTimeString (io_startTs e),
     io_durPer4kStr := (if io_durPer4k e = 0 then js ''-'' else getProbablyTime (of_int (io_durPer4k e))), io_sizeStr := getByteWithUnit (io_size e),
     io_durStr := getProbablyTime (of_int (io_dur e)), io_path := (if io_pathId e = Some 0 then js ''-'' else dict_default dict (io_pathId e) (js ''-'')),
     io_operation := type_name DISKIO_TYPE_MAP (io_type e) (js ''UNKNOWN''),
     io_backtrace := (case chain_at m (io_callchainId e) of [] \<Rightarrow> [] | c # cs \<Rightarrow> [chain_symbol dict c, other_frames (Suc (length cs))])\<rparr>) res"

end
