(* ===== verification/File_Worker.thy ===== *)
theory File_Worker
  imports File_Events Perf_Worker
begin

text \<open>
  The file system worker: its three call tree handlers, its state and its messages
  (\<open>trace/database/logic-worker/ProcedureLogicWorkerFileSystem.ts\<close>).

  A handler is a record; \<open>handlerMap\<close> is a partial function from the kinds of samples. As in the other workers a new tree takes numbers that no earlier tree of its handler had. The
  texts of the queries are represented by the name of the query, the condition that the arguments add and the range of time. A message that raises an exception ends a run.
\<close>

section \<open>Handlers\<close>

record FileHandler =
  fh_samples :: "FileSample list"
  fh_processes :: "FileProcess list"
  fh_total :: int
  fh_allProcess :: "MTree list"
  fh_list :: "nat list"
  fh_next :: nat
  fh_names :: "nat \<Rightarrow> jsstring"
  fh_tree :: MState
  fh_searchValue :: jsstring
  fh_dataSource :: "nat list"
  fh_event :: jsstring

definition new_handler :: FileHandler where
  "new_handler = \<lparr>fh_samples = [], fh_processes = [], fh_total = 0, fh_allProcess = [], fh_list = [], fh_next = 0, fh_names = \<lambda>i. [], fh_tree = mstate_new, fh_searchValue = [],
     fh_dataSource = [], fh_event = []\<rparr>"

text \<open>The name of a node: thread and type have the path -1 and their text; other nodes are named from the dictionary.\<close>

definition file_bean :: "data_dict \<Rightarrow> FileBean \<Rightarrow> MBean" where
  "file_bean dict b =
     (if fb_pathId b = - 1 then \<lparr>mb_symbolName = fb_ip b, mb_libName = [], mb_path = [], mb_count = fb_count b\<rparr>
      else (let or_else = (\<lambda>a c. if a = [] then c else a); symbol = or_else (dict_default dict (fb_symbolsId b) []) (or_else (fb_ip b) (js ''unknown''));
                path = or_else (dict_default dict (Some (fb_pathId b)) []) (js ''unknown''); libName = setFileName path
            in \<lparr>mb_symbolName = symbol @ js '' ('' @ libName @ js '')'', mb_libName = libName, mb_path = path, mb_count = fb_count b\<rparr>))"

fun file_mtree :: "data_dict \<Rightarrow> FileTree \<Rightarrow> MTree" where
  "file_mtree dict (CallTree b kids) = MTree (fb_index b) (file_bean dict b) (map (file_mtree dict) kids)"

definition file_mprocess :: "data_dict \<Rightarrow> nat \<Rightarrow> FileProcess \<Rightarrow> MTree" where
  "file_mprocess dict i p =
     MTree i \<lparr>mb_symbolName = fp_symbolName p, mb_libName = [], mb_path = [], mb_count = fp_count p\<rparr> (map (file_mtree dict) (fp_children p))"

fun tree_names :: "MTree \<Rightarrow> (nat \<times> jsstring) list" where
  "tree_names (MTree i b kids) = (i, mb_symbolName b) # concat (map tree_names kids)"

definition file_fresh :: "FileDataType \<Rightarrow> data_dict \<Rightarrow> (int \<times> FileCallChain list) list \<Rightarrow> bool \<Rightarrow> FileHandler \<Rightarrow> FileHandler" where
  "file_fresh ty dict m isTopDown h =
     (let (ps, n, tot) = freshCurrentCallChains ty m (fh_samples h) isTopDown (fh_next h);
          data = map2 (file_mprocess dict) [n..<n + length ps] ps; ns = [fh_next h..<n + length ps]; names = concat (map tree_names data)
      in h\<lparr>fh_processes := ps, fh_total := tot, fh_allProcess := data, fh_list := [fh_next h..<n], fh_next := n + length ps,
           fh_names := (\<lambda>i. case map_of names i of None \<Rightarrow> fh_names h i | Some nm \<Rightarrow> nm), fh_tree := new_nodes ns data (fh_tree h), fh_dataSource := []\<rparr>)"

section \<open>Queries\<close>

datatype FileResult =
    FEmpty
  | FRows "nat list"
  | FAnalysis "FileAnalysisSample list"
  | FStacks "Stack list"
  | FFileEvents "FileSysEvent Msg"
  | FVmEvents "VirtualMemoryEvent Msg"
  | FIoEvents "IoCompletionTimes Msg"

datatype FileOut =
    FQuery jsstring jsstring jsstring "(int \<times> int) option"
  | FPost jsstring jsstring FileResult

record FileSelection =
  fx_fileSystemType :: "int list option"
  fx_diskIOipids :: "int list"
  fx_diskIOLatency :: bool
  fx_fileSysVirtualMemory :: bool
  fx_diskIOReadIds :: "int list"
  fx_diskIOWriteIds :: "int list"
  fx_leftNs :: int
  fx_rightNs :: int

definition num_list :: "int list \<Rightarrow> jsstring" where
  "num_list l = js_join (js '','') (map js_num l)"

text \<open>The length of \<open>fileSystemType\<close> is read without a check.\<close>

definition file_condition :: "FileSelection \<Rightarrow> jsstring result" where
  "file_condition sel =
     (let types = (case fx_fileSystemType sel of None \<Rightarrow> [] | Some l \<Rightarrow> if l = [] then [] else js '' and s.type in ('' @ num_list l @ js '')'')
      in if fx_diskIOipids sel \<noteq> [] \<and> \<not> fx_diskIOLatency sel
         then (case fx_fileSystemType sel of
                 None \<Rightarrow> Inl TypeError
               | Some l \<Rightarrow> Inr (types @ (if l = [] then js '' and s.ipid in ('' @ num_list (fx_diskIOipids sel) @ js '')'' else [])))
         else Inr types)"

definition io_condition :: "FileSelection \<Rightarrow> jsstring" where
  "io_condition sel =
     (let types = (if fx_diskIOReadIds sel \<noteq> [] then [1, 3] else []) @ (if fx_diskIOWriteIds sel \<noteq> [] then [2, 4] else [])
      in if fx_diskIOipids sel = [] then []
         else js ''and (s.ipid in ('' @ num_list (fx_diskIOipids sel) @ js '') and s.type in ('' @ num_list (types @ [5, 6]) @ js '')) '')"

definition fault_condition :: "FileSelection \<Rightarrow> jsstring" where
  "fault_condition sel =
     (if fx_diskIOipids sel \<noteq> [] \<and> \<not> fx_diskIOLatency sel \<and> \<not> fx_fileSysVirtualMemory sel then js '' and s.ipid in ('' @ num_list (fx_diskIOipids sel) @ js '')'' else [])"

definition queryCallChainsSamples :: "FileDataType \<Rightarrow> FileSelection \<Rightarrow> jsstring \<Rightarrow> FileOut list result" where
  "queryCallChainsSamples ty sel eid =
     (let range = Some (fx_leftNs sel, fx_rightNs sel) in
      case ty of
        D_fileSystem \<Rightarrow> bindr (file_condition sel) (\<lambda>c. Inr [FQuery eid (js ''fileSystem-queryFileSamples'') c range])
      | D_io \<Rightarrow> Inr [FQuery eid (js ''fileSystem-queryIoSamples'') (io_condition sel) range]
      | D_virtualMemory \<Rightarrow> Inr [FQuery eid (js ''fileSystem-queryVirtualMemorySamples'') (fault_condition sel) range]
      | D_none \<Rightarrow> Inr [])"

text \<open>The three statements for file events differ by the tab.\<close>

definition queryFileSysEvents :: "int \<Rightarrow> int \<Rightarrow> int list \<Rightarrow> jsstring \<Rightarrow> jsstring \<Rightarrow> FileOut" where
  "queryFileSysEvents leftNs rightNs typeArr tab eid =
     FQuery eid (js ''fileSystem-queryFileSysEvents'')
       (if tab = js ''events'' \<or> tab = js ''history'' then tab @ js '' A.type in ('' @ num_list typeArr @ js '')'' else js ''open'') (Some (leftNs, rightNs))"

definition queryIOEvents :: "int \<Rightarrow> int \<Rightarrow> int list \<Rightarrow> jsstring \<Rightarrow> FileOut" where
  "queryIOEvents leftNs rightNs diskIOipids eid =
     FQuery eid (js ''fileSystem-queryIOEvents'') (if diskIOipids = [] then [] else js ''and A.ipid in ('' @ num_list diskIOipids @ js '')'') (Some (leftNs, rightNs))"

section \<open>Actions\<close>

datatype FileAction =
    FAct_getCallChainsBySampleIds bool
  | FAct_getCurrentDataFromDb FileSelection
  | FAct_hideSystemLibrary
  | FAct_hideNumMaxAndMin int "int option"
  | FAct_splitAllProcess "SplitItem list"
  | FAct_resetAllNode
  | FAct_resotreAllNode "jsstring list"
  | FAct_clearSplitMapData jsstring
  | FAct_splitTree jsstring bool bool
  | FAct_setSearchValue jsstring
  | FAct_skipped jsstring

definition file_fuel :: "FileHandler \<Rightarrow> nat" where
  "file_fuel h = length (concat (map tree_ids (fh_allProcess h)))"

definition tree_or_blocked :: "FileHandler \<Rightarrow> MState option \<Rightarrow> (FileHandler \<times> FileOut list) result" where
  "tree_or_blocked h r = (case r of None \<Rightarrow> Inl Blocked | Some t \<Rightarrow> Inr (h\<lparr>fh_tree := t\<rparr>, []))"

definition file_act ::
  "(jsstring \<Rightarrow> jsstring) \<Rightarrow> FileDataType \<Rightarrow> data_dict \<Rightarrow> (int \<times> FileCallChain list) list \<Rightarrow> FileAction \<Rightarrow> FileHandler \<Rightarrow> (FileHandler \<times> FileOut list) result" where
  "file_act tolower ty dict m a h =
     (let on_tree = (\<lambda>f. Inr (h\<lparr>fh_tree := f (fh_tree h)\<rparr>, [])) in
      case a of
        FAct_getCallChainsBySampleIds isTopDown \<Rightarrow> Inr (file_fresh ty dict m isTopDown h, [])
      | FAct_getCurrentDataFromDb sel \<Rightarrow> bindr (queryCallChainsSamples ty sel (fh_event h)) (\<lambda>outs. Inr (h, outs))
      | FAct_hideSystemLibrary \<Rightarrow> on_tree (hideSystemLibrary (fh_allProcess h))
      | FAct_hideNumMaxAndMin startNum endNum \<Rightarrow> on_tree (hideNumMaxAndMin (fh_allProcess h) startNum endNum)
      | FAct_splitAllProcess items \<Rightarrow> on_tree (splitAllProcess (fh_allProcess h) items)
      | FAct_resetAllNode \<Rightarrow> tree_or_blocked h (resetAllNode (file_fuel h) tolower (fh_names h) (fh_allProcess h) (fh_list h) (fh_searchValue h) (fh_tree h))
      | FAct_resotreAllNode symbols \<Rightarrow> on_tree (resotreAllNode symbols)
      | FAct_clearSplitMapData nm \<Rightarrow> on_tree (clearSplitMapData nm)
      | FAct_splitTree nm isCharge isSymbol \<Rightarrow>
          tree_or_blocked h (splitTree (file_fuel h) tolower (fh_names h) (fh_allProcess h) nm isCharge isSymbol (fh_list h) (fh_searchValue h) (fh_tree h))
      | FAct_setSearchValue v \<Rightarrow> Inr (h\<lparr>fh_searchValue := v\<rparr>, [])
      | FAct_skipped funcName \<Rightarrow> Inr (h, []))"

fun file_acts ::
  "(jsstring \<Rightarrow> jsstring) \<Rightarrow> FileDataType \<Rightarrow> data_dict \<Rightarrow> (int \<times> FileCallChain list) list \<Rightarrow> FileAction list \<Rightarrow> FileHandler \<Rightarrow> (FileHandler \<times> FileOut list) result" where
  "file_acts tolower ty dict m [] h = Inr (h\<lparr>fh_dataSource := filter (\<lambda>i. ms_children (fh_tree h) i \<noteq> []) (map mt_id (fh_allProcess h))\<rparr>, [])"
| "file_acts tolower ty dict m (a # as) h =
     bindr (file_act tolower ty dict m a h) (\<lambda>(h1, outs). bindr (file_acts tolower ty dict m as h1) (\<lambda>(h2, outs2). Inr (h2, outs @ outs2)))"

definition file_resolvingAction ::
  "(jsstring \<Rightarrow> jsstring) \<Rightarrow> FileDataType \<Rightarrow> data_dict \<Rightarrow> (int \<times> FileCallChain list) list \<Rightarrow> FileAction list \<Rightarrow> FileHandler \<Rightarrow> (FileHandler \<times> FileOut list) result" where
  "file_resolvingAction tolower ty dict m params h = (if params = [] then Inr (h, []) else file_acts tolower ty dict m params h)"

section \<open>The worker\<close>

record FileState =
  ws_dict :: data_dict
  ws_chains :: "(int \<times> FileCallChain list) list"
  ws_handlers :: "FileDataType \<Rightarrow> FileHandler option"
  ws_event :: jsstring
  ws_tab :: jsstring
  ws_isAnalysis :: bool

definition file_initial :: FileState where
  "file_initial = \<lparr>ws_dict = Map.empty, ws_chains = [], ws_handlers = Map.empty, ws_event = [], ws_tab = [], ws_isAnalysis = False\<rparr>"

text \<open>The handlers that are made by the initialisation, in the place of any earlier ones.\<close>

definition new_handlers :: "FileDataType \<Rightarrow> FileHandler option" where
  "new_handlers = Map.empty(D_fileSystem \<mapsto> new_handler, D_io \<mapsto> new_handler, D_virtualMemory \<mapsto> new_handler)"

definition file_clearAll :: "FileState \<Rightarrow> FileState" where
  "file_clearAll s = s\<lparr>ws_chains := [], ws_handlers := Map.empty\<rparr>"

datatype FileMsg =
    FM_init data_dict
  | FM_queryCallchains "FileCallChain list"
  | FM_samples FileDataType "FileSample list"
  | FM_action FileDataType bool "FileAction list"
  | FM_queryStack int
  | FM_fileEvents "FileSysEvent list"
  | FM_queryFileEvents int int "int list" jsstring
  | FM_vmEvents "VirtualMemoryEvent list"
  | FM_queryVmEvents int int
  | FM_ioEvents "IoCompletionTimes list"
  | FM_queryIoEvents int int "int list"
  | FM_other

definition analysis_type :: "FileDataType \<Rightarrow> int" where
  "analysis_type ty = (case ty of D_io \<Rightarrow> BIO_TYPE | D_virtualMemory \<Rightarrow> PF_TYPE | _ \<Rightarrow> FS_TYPE)"

fun asks_db :: "FileAction \<Rightarrow> bool" where
  "asks_db (FAct_getCurrentDataFromDb sel) = True"
| "asks_db (FAct_skipped funcName) = (funcName = js ''getCurrentDataFromDb'')"
| "asks_db _ = False"

definition set_event :: "jsstring \<Rightarrow> FileState \<Rightarrow> FileState" where
  "set_event eid s = (if eid = [] then s else s\<lparr>ws_event := eid, ws_handlers := (\<lambda>ty. map_option (\<lambda>h. h\<lparr>fh_event := eid\<rparr>) (ws_handlers s ty))\<rparr>)"

text \<open>The action of one handler; a handler that is not there raises a \<open>TypeError\<close>. The result is its data source.\<close>

definition on_handler :: "(jsstring \<Rightarrow> jsstring) \<Rightarrow> FileDataType \<Rightarrow> FileAction list \<Rightarrow> FileState \<Rightarrow> (FileState \<times> FileOut list \<times> nat list) result" where
  "on_handler tolower ty params s =
     (case ws_handlers s ty of
        None \<Rightarrow> Inl TypeError
      | Some h \<Rightarrow> bindr (file_resolvingAction tolower ty (ws_dict s) (ws_chains s) params h) (\<lambda>(h1, outs).
          Inr (s\<lparr>ws_handlers := (ws_handlers s)(ty \<mapsto> h1)\<rparr>, outs, fh_dataSource h1)))"

definition file_samples :: "(jsstring \<Rightarrow> jsstring) \<Rightarrow> jsstring \<Rightarrow> FileDataType \<Rightarrow> FileSample list \<Rightarrow> FileState \<Rightarrow> (FileState \<times> FileOut list) result" where
  "file_samples tolower action ty xs s =
     (case ws_handlers s ty of
        None \<Rightarrow> Inl TypeError
      | Some h \<Rightarrow>
          (let s1 = s\<lparr>ws_handlers := (ws_handlers s)(ty \<mapsto> h\<lparr>fh_samples := xs\<rparr>)\<rparr> in
           if ws_isAnalysis s
           then Inr (s1\<lparr>ws_isAnalysis := False\<rparr>, [FPost (ws_event s) action (FAnalysis (fileSystemAnalysis (ws_dict s) (ws_chains s) (analysis_type ty) xs))])
           else bindr (on_handler tolower ty [FAct_getCallChainsBySampleIds True] s1) (\<lambda>(s2, outs, rows). Inr (s2, outs @ [FPost (ws_event s) action (FRows rows)]))))"

definition post_events :: "jsstring \<Rightarrow> jsstring \<Rightarrow> ('a Msg \<Rightarrow> FileResult) \<Rightarrow> 'a list \<Rightarrow> FileOut list" where
  "post_events eid action res rows = map (\<lambda>p. FPost eid action (res p)) (postMessage rows PAGE_SIZE)"

definition file_handle :: "(jsstring \<Rightarrow> jsstring) \<Rightarrow> jsstring \<Rightarrow> jsstring \<Rightarrow> FileMsg \<Rightarrow> FileState \<Rightarrow> (FileState \<times> FileOut list) result" where
  "file_handle tolower eid action msg s0 =
     (let s = set_event eid s0 in
      case msg of
        FM_init dict \<Rightarrow> Inr (s\<lparr>ws_dict := dict, ws_handlers := new_handlers\<rparr>, [FQuery (ws_event s) (js ''fileSystem-queryCallchains'') [] None])
      | FM_queryCallchains rows \<Rightarrow> Inr (s\<lparr>ws_chains := initCallChainTopDown rows []\<rparr>, [FPost eid (js ''fileSystem-init'') FEmpty])
      | FM_samples ty xs \<Rightarrow> file_samples tolower action ty xs s
      | FM_action ty isAnalysis params \<Rightarrow>
          (if filter asks_db params = []
           then bindr (on_handler tolower ty params s) (\<lambda>(s1, outs, rows). Inr (s1, outs @ [FPost eid action (FRows rows)]))
           else bindr (on_handler tolower ty params (if isAnalysis then s\<lparr>ws_isAnalysis := True\<rparr> else s)) (\<lambda>(s1, outs, rows). Inr (s1, outs)))
      | FM_queryStack i \<Rightarrow> Inr (s, [FPost eid action (FStacks (getStacksByCallchainId (ws_dict s) (ws_chains s) i))])
      | FM_fileEvents rows \<Rightarrow> Inr (s, post_events eid action FFileEvents (supplementFileSysEvents (ws_dict s) (ws_chains s) rows (ws_tab s)))
      | FM_queryFileEvents leftNs rightNs types tab \<Rightarrow> Inr (s\<lparr>ws_tab := tab\<rparr>, [queryFileSysEvents leftNs rightNs types tab (ws_event s)])
      | FM_vmEvents rows \<Rightarrow> Inr (s, post_events eid action FVmEvents (supplementVMEvents rows))
      | FM_queryVmEvents leftNs rightNs \<Rightarrow> Inr (s, [FQuery (ws_event s) (js ''fileSystem-queryVMEvents'') [] (Some (leftNs, rightNs))])
      | FM_ioEvents rows \<Rightarrow> Inr (s, post_events eid action FIoEvents (supplementIoEvents (ws_dict s) (ws_chains s) rows))
      | FM_queryIoEvents leftNs rightNs ipids \<Rightarrow> Inr (s, [queryIOEvents leftNs rightNs ipids (ws_event s)])
      | FM_other \<Rightarrow> Inr (s, []))"

text \<open>The states that messages lead to; one message of the pool of workers clears them all and the \<open>DataCache\<close>.\<close>

inductive file_reach :: "(jsstring \<Rightarrow> jsstring) \<Rightarrow> FileState \<Rightarrow> bool" for tolower where
  file_start: "file_reach tolower file_initial"
| file_msg: "file_reach tolower s \<Longrightarrow> file_handle tolower eid action msg s = Inr (s', outs) \<Longrightarrow> file_reach tolower s'"
| file_clear: "file_reach tolower s \<Longrightarrow> file_reach tolower ((file_clearAll s)\<lparr>ws_dict := Map.empty\<rparr>)"

inductive_cases file_reach_cases: "file_reach tolower s"

fun file_run :: "(jsstring \<Rightarrow> jsstring) \<Rightarrow> jsstring \<Rightarrow> jsstring \<Rightarrow> FileMsg list \<Rightarrow> FileState \<Rightarrow> (FileState \<times> FileOut list) result" where
  "file_run tolower eid action [] s = Inr (s, [])"
| "file_run tolower eid action (msg # msgs) s =
     bindr (file_handle tolower eid action msg s) (\<lambda>(s1, outs). bindr (file_run tolower eid action msgs s1) (\<lambda>(s2, outs2). Inr (s2, outs @ outs2)))"

section \<open>The trees of the handlers\<close>

definition handler_inv :: "FileHandler \<Rightarrow> bool" where
  "handler_inv h \<longleftrightarrow> forest_list (fh_allProcess h) (fh_list h) \<and> trees_ids (fh_allProcess h) \<subseteq> {..<fh_next h}"

definition file_inv :: "FileState \<Rightarrow> bool" where
  "file_inv s \<longleftrightarrow> (\<forall>h\<in>ran (ws_handlers s). handler_inv h)"

lemma handler_inv_cong:
  "handler_inv h \<Longrightarrow> fh_allProcess h' = fh_allProcess h \<Longrightarrow> fh_list h' = fh_list h \<Longrightarrow> fh_next h' = fh_next h \<Longrightarrow> handler_inv h'"
  by (simp add: handler_inv_def)

lemma handler_inv_simps [simp]:
  "handler_inv (h\<lparr>fh_event := e\<rparr>) = handler_inv h" "handler_inv (h\<lparr>fh_samples := xs\<rparr>) = handler_inv h" "handler_inv (h\<lparr>fh_tree := t\<rparr>) = handler_inv h"
  "handler_inv (h\<lparr>fh_dataSource := l\<rparr>) = handler_inv h" "handler_inv (h\<lparr>fh_searchValue := v\<rparr>) = handler_inv h"
  by (simp_all add: handler_inv_def)

lemma new_handler_inv [simp]: "handler_inv new_handler"
  by (simp add: handler_inv_def new_handler_def forest_list_def)

interpretation file_numbers: numbered_tree newFileBean merageCallChainSample fb_index
  by unfold_locales (simp_all add: newFileBean_def merageCallChainSample_def Let_def)

interpretation file_children: additive_group process_new process_add
  "\<lambda>p. mset (concat (map (tree_indexes fb_index) (fp_children p)))" "\<lambda>t. mset (tree_indexes fb_index t)"
  by unfold_locales (simp_all add: process_new_def process_add_def Let_def)

lemma file_mtree_ids: "tree_ids (file_mtree dict t) = tree_indexes fb_index t"
  by (induction t) (simp add: comp_def cong: map_cong)

lemma file_forest_list:
  assumes "freshCurrentCallChains ty m samples isTopDown start = (ps, n, tot)"
  shows "let data = map2 (file_mprocess dict) [n..<n + length ps] ps in forest_list data [start..<n] \<and> trees_ids data \<subseteq> {..<n + length ps} \<and> start \<le> n"
proof -
  let ?step = "\<lambda>x. root_step bean_is newFileBean merageCallChainSample root_key x (file_entries ty m isTopDown x)"
  obtain trees where r: "fold ?step samples ([], start) = (trees, n)" and ps: "ps = js_object_values (rootMerageMap (js_object_values trees))"
    using assms by (cases "fold ?step samples ([], start)") (auto simp: freshCurrentCallChains_def tree_step_def [abs_def] Let_def)
  have num: "start \<le> n" "mset (file_numbers.forest_indexes trees) = mset [start..<n]"
    using file_numbers.forest_numbers [of bean_is root_key "file_entries ty m isTopDown" samples start] by (simp_all add: r Let_def)
  have kids: "mset (concat (map (\<lambda>p. concat (map (tree_indexes fb_index) (fp_children p))) ps)) = mset [start..<n]"
    unfolding ps rootMerageMap_def by (rule grouped_children [OF file_children.additive_group_axioms]) (use num(2) in \<open>simp add: comp_def\<close>)
  have mk: "mt_id (file_mprocess dict i p) = i" "tree_ids (file_mprocess dict i p) = i # concat (map (tree_indexes fb_index) (fp_children p))" for i p
    by (simp_all add: file_mprocess_def file_mtree_ids comp_def)
  show ?thesis using numbered_forest [where mk = "file_mprocess dict", OF num(1) kids mk] num(1) by (simp add: Let_def)
qed

lemma file_fresh_inv [simp]: "handler_inv (file_fresh ty dict m isTopDown h)"
proof -
  obtain ps n tot where r: "freshCurrentCallChains ty m (fh_samples h) isTopDown (fh_next h) = (ps, n, tot)" by (metis prod_cases3)
  show ?thesis using file_forest_list [OF r, of dict] by (simp add: file_fresh_def handler_inv_def r Let_def)
qed

lemma file_search_ends:
  assumes "handler_inv h"
  obtains t where "resetAllNode (file_fuel h) tolower (fh_names h) (fh_allProcess h) (fh_list h) v ts = Some t"
proof -
  have "forest_list (fh_allProcess h) (fh_list h)" using assms by (simp add: handler_inv_def)
  from search_end [OF this, of "file_fuel h" tolower "fh_names h" v ts] show thesis using that by (auto simp: file_fuel_def)
qed

lemma condition_error: "queryCallChainsSamples ty sel eid = Inl e \<Longrightarrow> e = TypeError"
  by (auto simp: queryCallChainsSamples_def file_condition_def Let_def bindr_eq_Inl_iff split: FileDataType.splits option.splits if_splits)

lemma file_act_inv: "handler_inv h \<Longrightarrow> file_act tolower ty dict m a h = Inr (h', outs) \<Longrightarrow> handler_inv h'"
  by (cases a) (auto simp: file_act_def tree_or_blocked_def Let_def bindr_eq_Inr_iff split: option.splits)

lemma file_act_error: "handler_inv h \<Longrightarrow> file_act tolower ty dict m a h = Inl e \<Longrightarrow> e = TypeError"
proof -
  assume h: "handler_inv h" and e: "file_act tolower ty dict m a h = Inl e"
  show ?thesis
  proof (cases a)
    case FAct_resetAllNode
    obtain t where "resetAllNode (file_fuel h) tolower (fh_names h) (fh_allProcess h) (fh_list h) (fh_searchValue h) (fh_tree h) = Some t" by (rule file_search_ends [OF h])
    then show ?thesis using e FAct_resetAllNode by (simp add: file_act_def tree_or_blocked_def)
  next
    case (FAct_splitTree nm isCharge isSymbol)
    obtain t where "splitTree (file_fuel h) tolower (fh_names h) (fh_allProcess h) nm isCharge isSymbol (fh_list h) (fh_searchValue h) (fh_tree h) = Some t"
      unfolding splitTree_def by (rule file_search_ends [OF h])
    then show ?thesis using e FAct_splitTree by (simp add: file_act_def tree_or_blocked_def)
  qed (use e in \<open>auto simp: file_act_def Let_def bindr_eq_Inl_iff dest: condition_error\<close>)
qed

lemma file_acts_inv: "handler_inv h \<Longrightarrow> file_acts tolower ty dict m as h = Inr (h', outs) \<Longrightarrow> handler_inv h'"
  by (induction "as" arbitrary: h outs) (auto simp: bindr_eq_Inr_iff dest: file_act_inv)

lemma file_acts_error: "handler_inv h \<Longrightarrow> file_acts tolower ty dict m as h = Inl e \<Longrightarrow> e = TypeError"
  by (induction "as" arbitrary: h) (auto simp: bindr_eq_Inl_iff dest: file_act_inv file_act_error)

section \<open>The state of the worker\<close>

lemma file_inv_get: "file_inv s \<Longrightarrow> ws_handlers s ty = Some h \<Longrightarrow> handler_inv h"
  by (auto simp: file_inv_def intro: ranI)

lemma file_inv_set: "file_inv s \<Longrightarrow> handler_inv h \<Longrightarrow> file_inv (s\<lparr>ws_handlers := (ws_handlers s)(ty \<mapsto> h)\<rparr>)"
  by (auto simp: file_inv_def ran_def)

lemma file_inv_simps [simp]:
  "file_inv (s\<lparr>ws_dict := dict\<rparr>) = file_inv s" "file_inv (s\<lparr>ws_chains := m\<rparr>) = file_inv s" "file_inv (s\<lparr>ws_tab := tab\<rparr>) = file_inv s"
  "file_inv (s\<lparr>ws_isAnalysis := b\<rparr>) = file_inv s" "file_inv (s\<lparr>ws_handlers := Map.empty\<rparr>)" "file_inv (s\<lparr>ws_handlers := new_handlers\<rparr>)"
  by (auto simp: file_inv_def new_handlers_def ran_def split: if_splits)

lemma set_event_inv: "file_inv s \<Longrightarrow> file_inv (set_event eid s)"
  by (auto simp: file_inv_def set_event_def ran_def)

lemma on_handler_inv: "file_inv s \<Longrightarrow> on_handler tolower ty params s = Inr (s', outs, rows) \<Longrightarrow> file_inv s'"
  by (auto simp: on_handler_def file_resolvingAction_def bindr_eq_Inr_iff intro!: file_inv_set dest: file_inv_get file_acts_inv split: option.splits if_splits)

lemma on_handler_error: "file_inv s \<Longrightarrow> on_handler tolower ty params s = Inl e \<Longrightarrow> e = TypeError"
  by (auto simp: on_handler_def file_resolvingAction_def bindr_eq_Inl_iff dest: file_inv_get file_acts_error split: option.splits if_splits)

lemma samples_inv: "file_inv s \<Longrightarrow> ws_handlers s ty = Some h \<Longrightarrow> file_inv (s\<lparr>ws_handlers := (ws_handlers s)(ty \<mapsto> h\<lparr>fh_samples := xs\<rparr>)\<rparr>)"
  by (rule file_inv_set) (simp_all add: file_inv_get)

lemma file_samples_inv: "file_inv s \<Longrightarrow> file_samples tolower action ty xs s = Inr (s', outs) \<Longrightarrow> file_inv s'"
  by (auto simp: file_samples_def Let_def bindr_eq_Inr_iff split: option.splits if_splits dest: samples_inv on_handler_inv)

lemma file_samples_error: "file_inv s \<Longrightarrow> file_samples tolower action ty xs s = Inl e \<Longrightarrow> e = TypeError"
  by (auto simp: file_samples_def Let_def bindr_eq_Inl_iff split: option.splits if_splits dest: samples_inv on_handler_error)

lemma file_handle_inv:
  assumes "file_inv s0" "file_handle tolower eid action msg s0 = Inr (s', outs)"
  shows "file_inv s'"
  using assms(2) set_event_inv [OF assms(1), of eid]
  by (cases msg) (auto simp: file_handle_def Let_def bindr_eq_Inr_iff split: if_splits dest: file_samples_inv on_handler_inv [rotated])

lemma file_handle_error:
  assumes "file_inv s0" "file_handle tolower eid action msg s0 = Inl e"
  shows "e = TypeError"
  using assms(2) set_event_inv [OF assms(1), of eid]
  by (cases msg) (auto simp: file_handle_def Let_def bindr_eq_Inl_iff split: if_splits dest: file_samples_error on_handler_error [rotated])

lemma file_reach_inv: "file_reach tolower s \<Longrightarrow> file_inv s"
  by (induction rule: file_reach.induct) (auto intro: file_handle_inv simp: file_clearAll_def, simp add: file_inv_def file_initial_def)

text \<open>C20: in every state that messages can lead the file system worker to, each handler that is there has a call tree of different nodes and a list with each node below a process exactly
  once, and the next message is handled or raises a \<open>TypeError\<close>: no filter and no search runs without end.\<close>

theorem file_never_blocked:
  assumes "file_reach tolower s"
  shows "(\<forall>ty h. ws_handlers s ty = Some h \<longrightarrow> distinct (concat (map tree_ids (fh_allProcess h))) \<and> distinct (fh_list h)
      \<and> set (fh_list h) = trees_ids (fh_allProcess h) - mt_id ` set (fh_allProcess h))
    \<and> (\<forall>e. file_handle tolower eid action msg s = Inl e \<longrightarrow> e = TypeError)"
proof -
  note inv = file_reach_inv [OF assms]
  show ?thesis using file_inv_get [OF inv] file_handle_error [OF inv] by (auto simp: handler_inv_def forest_list_def)
qed

section \<open>The rows of a selection\<close>

lemma process_kids: "p \<in> set (js_object_values (rootMerageMap ts)) \<Longrightarrow> fp_children p \<noteq> []"
proof -
  assume "p \<in> set (js_object_values (rootMerageMap ts))"
  then have "p \<in> snd ` set (rootMerageMap ts)" by (simp add: set_js_object_values)
  then show ?thesis unfolding rootMerageMap_def by (rule group_values) (simp_all add: process_new_def process_add_def Let_def)
qed

lemma file_fresh_rows:
  "filter (\<lambda>i. ms_children (fh_tree (file_fresh ty dict m d h)) i \<noteq> []) (map mt_id (fh_allProcess (file_fresh ty dict m d h))) = map mt_id (fh_allProcess (file_fresh ty dict m d h))"
proof -
  obtain ps n tot where r: "freshCurrentCallChains ty m (fh_samples h) d (fh_next h) = (ps, n, tot)" by (metis prod_cases3)
  let ?data = "map2 (file_mprocess dict) [n..<n + length ps] ps"
  have f: "distinct (concat (map tree_ids ?data))" "fh_next h \<le> n" using file_forest_list [OF r, of dict] by (simp_all add: forest_list_def Let_def)
  have "ms_children (new_nodes [fh_next h..<n + length ps] ?data (fh_tree h)) (mt_id t) \<noteq> []" if t: "t \<in> set ?data" for t
  proof -
    obtain i p where p: "(i, p) \<in> set (zip [n..<n + length ps] ps)" "t = file_mprocess dict i p" using t by auto
    have "fp_children p \<noteq> []" using set_zip_rightD [OF p(1)] r process_kids by (auto simp: freshCurrentCallChains_def Let_def case_prod_unfold)
    moreover have "mt_id t \<in> set [fh_next h..<n + length ps]" using set_zip_leftD [OF p(1)] p(2) f(2) by (simp add: file_mprocess_def)
    ultimately show ?thesis using new_nodes_children [OF f(1) t] p(2) by (simp add: file_mprocess_def)
  qed
  then show ?thesis by (simp add: file_fresh_def r Let_def filter_id_conv)
qed

lemma file_fresh_totals:
  "fh_total (file_fresh ty dict m d h) = sum_list (map fs_dur (fh_samples h))"
  "sum_list (map fp_dur (fh_processes (file_fresh ty dict m d h))) = sum_list (map fs_dur (filter (has_chain m) (fh_samples h)))"
  "length (fh_allProcess (file_fresh ty dict m d h)) = length (fh_processes (file_fresh ty dict m d h))"
  using process_times [of ty m "fh_samples h" d "fh_next h"] by (simp_all add: file_fresh_def Let_def case_prod_unfold freshCurrentCallChains_def)

text \<open>When the samples of a selection arrive at a handler and the analysis table has not been asked for, the worker posts one reply with the row of every process. The times
  of the processes add up to the durations of the samples that have a call chain, and the percentages refer to the durations of all samples; the other handlers keep their trees.\<close>

theorem file_selection_rows:
  assumes "ws_handlers s ty = Some h" "\<not> ws_isAnalysis s"
  shows "\<exists>s' h'. file_handle tolower [] action (FM_samples ty xs) s = Inr (s', [FPost (ws_event s) action (FRows (map mt_id (fh_allProcess h')))])
    \<and> ws_handlers s' = (ws_handlers s)(ty \<mapsto> h') \<and> length (fh_allProcess h') = length (fh_processes h') \<and> fh_total h' = sum_list (map fs_dur xs)
    \<and> sum_list (map fp_dur (fh_processes h')) = sum_list (map fs_dur (filter (has_chain (ws_chains s)) xs))"
proof -
  let ?h = "file_fresh ty (ws_dict s) (ws_chains s) True (h\<lparr>fh_samples := xs\<rparr>)"
  let ?h' = "?h\<lparr>fh_dataSource := map mt_id (fh_allProcess ?h)\<rparr>"
  have "file_handle tolower [] action (FM_samples ty xs) s
    = Inr (s\<lparr>ws_handlers := (ws_handlers s)(ty \<mapsto> ?h')\<rparr>, [FPost (ws_event s) action (FRows (map mt_id (fh_allProcess ?h)))])"
    using assms by (simp add: file_handle_def set_event_def file_samples_def on_handler_def file_resolvingAction_def file_act_def file_fresh_rows Let_def)
  then show ?thesis by (intro exI [of _ "s\<lparr>ws_handlers := (ws_handlers s)(ty \<mapsto> ?h')\<rparr>"] exI [of _ ?h']) (simp add: file_fresh_totals)
qed

text \<open>The request for the analysis table is one flag for the three kinds of samples. When the table of the disk samples is requested and file samples arrive
  before them, the reply to the file samples is the analysis table of the files, and the disk samples are answered with a call tree.\<close>

theorem analysis_crosstalk:
  assumes "ws_handlers s D_fileSystem = Some hf" "ws_handlers s D_io = Some hi"
  shows "\<exists>s' rows. file_run tolower [] action [FM_action D_io True [FAct_getCurrentDataFromDb sel], FM_samples D_fileSystem xs, FM_samples D_io ys] s =
    Inr (s', [FQuery (fh_event hi) (js ''fileSystem-queryIoSamples'') (io_condition sel) (Some (fx_leftNs sel, fx_rightNs sel)),
      FPost (ws_event s) action (FAnalysis (fileSystemAnalysis (ws_dict s) (ws_chains s) FS_TYPE xs)), FPost (ws_event s) action (FRows rows)])"
  using assms
  by (simp add: file_handle_def set_event_def file_samples_def on_handler_def file_resolvingAction_def file_act_def queryCallChainsSamples_def analysis_type_def file_fresh_rows Let_def)

section \<open>Concrete instances\<close>

text \<open>The worker after its initialisation.\<close>

definition demo_file_state :: FileState where
  "demo_file_state = file_initial\<lparr>ws_handlers := new_handlers\<rparr>"

lemma demo_file_reach: "file_reach id demo_file_state"
  by (rule file_msg [OF file_start, of id "[]" "[]" "FM_init Map.empty"]) (simp add: file_handle_def set_event_def file_initial_def demo_file_state_def)

definition demo_file_sample :: FileSample where
  "demo_file_sample = \<lparr>fs_type = 2, fs_callChainId = 1, fs_dur = 40, fs_pid = 5, fs_tid = 7, fs_threadName = None, fs_processName = None, fs_ts = 10\<rparr>"

definition demo_file_chain :: FileCallChain where
  "demo_file_chain = \<lparr>fc_callChainId = 1, fc_symbolsId = Some 3, fc_pathId = 4, fc_ip = js ''0x1''\<rparr>"

text \<open>The call chains and a sample lead to a state with a tree.\<close>

lemma demo_file_tree: "\<exists>s h. file_reach id s \<and> ws_handlers s D_io = Some h \<and> fh_processes h \<noteq> []"
proof -
  let ?s = "demo_file_state\<lparr>ws_chains := initCallChainTopDown [demo_file_chain] []\<rparr>"
  have reach: "file_reach id ?s"
    by (rule file_msg [OF demo_file_reach, of "[]" "[]" "FM_queryCallchains [demo_file_chain]"]) (simp add: file_handle_def set_event_def)
  have h: "ws_handlers ?s D_io = Some new_handler" "\<not> ws_isAnalysis ?s" by (simp_all add: demo_file_state_def new_handlers_def file_initial_def)
  have "has_chain (ws_chains ?s) demo_file_sample" "fs_dur demo_file_sample = 40"
    by (simp_all add: has_chain_def demo_file_sample_def demo_file_chain_def initCallChainTopDown_def group_step_def)
  then obtain s' h' outs where s': "file_handle id [] [] (FM_samples D_io [demo_file_sample]) ?s = Inr (s', outs)" "ws_handlers s' = (ws_handlers ?s)(D_io \<mapsto> h')"
    "sum_list (map fp_dur (fh_processes h')) = 40"
    using file_selection_rows [OF h, of id "[]" "[demo_file_sample]"] by auto
  have "fh_processes h' \<noteq> []" using s'(3) by auto
  then show ?thesis using file_msg [OF reach s'(1)] s'(2) by (intro exI [of _ s'] exI [of _ h']) simp
qed

theorem file_never_blocked_witness:
  "\<exists>s (h :: FileHandler). ws_handlers s D_io = Some h \<and> fh_processes h \<noteq> [] \<and> distinct (fh_list h) \<and>
    (\<forall>e. file_handle id [] [] (FM_action D_io False [FAct_setSearchValue (js ''a''), FAct_resetAllNode]) s = Inl e \<longrightarrow> e = TypeError)"
proof -
  obtain s h where s: "file_reach id s" "ws_handlers s D_io = Some h" "fh_processes h \<noteq> []" using demo_file_tree by (elim exE conjE)
  show ?thesis using s(2,3) file_never_blocked [OF s(1), of "[]" "[]"] by (intro exI [of _ s] exI [of _ h]) simp
qed

theorem file_selection_rows_witness:
  "\<exists>s' (h' :: FileHandler). file_handle id [] [] (FM_samples D_io [demo_file_sample, demo_file_sample\<lparr>fs_callChainId := 9\<rparr>]) (demo_file_state\<lparr>ws_chains := [(1, [demo_file_chain])]\<rparr>)
      = Inr (s', [FPost [] [] (FRows (map mt_id (fh_allProcess h')))]) \<and> fh_total h' = 80 \<and> sum_list (map fp_dur (fh_processes h')) = 40"
proof -
  let ?s = "demo_file_state\<lparr>ws_chains := [(1, [demo_file_chain])]\<rparr>" and ?xs = "[demo_file_sample, demo_file_sample\<lparr>fs_callChainId := 9\<rparr>]"
  have s: "ws_handlers ?s D_io = Some new_handler" "\<not> ws_isAnalysis ?s" "ws_event ?s = []"
    by (simp_all add: demo_file_state_def new_handlers_def file_initial_def)
  have sums: "sum_list (map fs_dur ?xs) = 80" "sum_list (map fs_dur (filter (has_chain (ws_chains ?s)) ?xs)) = 40"
    by (simp_all add: demo_file_state_def file_initial_def demo_file_sample_def has_chain_def)
  show ?thesis using file_selection_rows [OF s(1,2), of id "[]" ?xs] unfolding s(3) sums by blast
qed

theorem analysis_crosstalk_witness:
  "\<exists>s' q p rows. file_run id [] [] [FM_action D_io True [FAct_getCurrentDataFromDb \<lparr>fx_fileSystemType = None, fx_diskIOipids = [], fx_diskIOLatency = False, fx_fileSysVirtualMemory = False,
      fx_diskIOReadIds = [], fx_diskIOWriteIds = [], fx_leftNs = 0, fx_rightNs = 1\<rparr>], FM_samples D_fileSystem [], FM_samples D_io []] demo_file_state =
    Inr (s', [q, FPost [] [] (FAnalysis p), FPost [] [] (FRows rows)])"
proof -
  have "ws_handlers demo_file_state D_fileSystem = Some new_handler" "ws_handlers demo_file_state D_io = Some new_handler" "ws_event demo_file_state = []"
    by (simp_all add: demo_file_state_def new_handlers_def file_initial_def)
  then show ?thesis using analysis_crosstalk [of demo_file_state new_handler new_handler id "[]"] by (metis (no_types))
qed

end
