(* ===== verification/Sched_Measures.thy ===== *)
theory Sched_Measures
  imports Logic_Format
begin

text \<open>
  The scheduling worker: frequencies and idle states of the processors
  (\<open>trace/database/logic-worker/ProcedureLogicWorkerSchedulingAnalysis.ts\<close>).

  A row of the database has no duration when its state lasts to the end of the trace. The rows of measures have no \<open>block\<close>.
\<close>

section \<open>Measures\<close>

record MeasureRow =
  mr_cpu :: int
  mr_value :: int
  mr_ts :: int
  mr_dur :: "int option"

record CpuMeasure =
  cm_cpu :: int
  cm_value :: int
  cm_ts :: int
  cm_dur :: int

type_synonym measure_map = "(int \<times> CpuMeasure list) list"

text \<open>The trace begins at \<open>startTs\<close> and lasts \<open>totalDur\<close>.\<close>

definition to_trace :: "int \<Rightarrow> int \<Rightarrow> MeasureRow \<Rightarrow> CpuMeasure" where
  "to_trace startTs totalDur r = (let ts = mr_ts r - startTs in
     \<lparr>cm_cpu = mr_cpu r, cm_value = mr_value r, cm_ts = ts, cm_dur = (case mr_dur r of None \<Rightarrow> totalDur - ts | Some d \<Rightarrow> d)\<rparr>)"

definition entries_of :: "('k \<times> 'v list) list \<Rightarrow> 'k \<Rightarrow> 'v list" where
  "entries_of m k = (case map_of m k of None \<Rightarrow> [] | Some l \<Rightarrow> l)"

definition handleCPUIdle0Map :: "int \<Rightarrow> int \<Rightarrow> MeasureRow list \<Rightarrow> measure_map" where
  "handleCPUIdle0Map startTs totalDur rows = group_all cm_cpu (\<lambda>m. [m]) (\<lambda>m l. l @ [m]) (map (to_trace startTs totalDur) rows)"

definition overlap :: "CpuMeasure \<Rightarrow> CpuMeasure \<Rightarrow> int" where
  "overlap m it = min (cm_ts m + cm_dur m) (cm_ts it + cm_dur it) - max (cm_ts m) (cm_ts it)"

text \<open>The idle states that a measure overlaps with; the loop stops at the first that begins after its end.\<close>

fun idle_filter :: "CpuMeasure \<Rightarrow> CpuMeasure list \<Rightarrow> CpuMeasure list" where
  "idle_filter m [] = []"
| "idle_filter m (it # its) = (if overlap m it > 0 then [it] else []) @ (if cm_ts it > cm_ts m + cm_dur m then [] else idle_filter m its)"

definition getEffectiveFrequencyDur :: "measure_map \<Rightarrow> CpuMeasure \<Rightarrow> CpuMeasure" where
  "getEffectiveFrequencyDur idle m = m\<lparr>cm_dur := sum_list (map (overlap m) (idle_filter m (entries_of idle (cm_cpu m))))\<rparr>"

lemma idle_filter_sum:
  assumes "sorted (map cm_ts its)"
  shows "sum_list (map (overlap m) (idle_filter m its)) = sum_list (map (\<lambda>it. max 0 (overlap m it)) its)"
  using assms
proof (induction its)
  case (Cons it its)
  show ?case
  proof (cases "cm_ts it > cm_ts m + cm_dur m")
    case True
    have "overlap m x \<le> 0" if "x \<in> set (it # its)" for x
    proof -
      have "cm_ts it \<le> cm_ts x" using Cons.prems that by auto
      then show ?thesis using True by (simp add: overlap_def)
    qed
    note none = this
    have "sum_list (map (\<lambda>x. max 0 (overlap m x)) (it # its)) = sum_list (map (\<lambda>x. 0) (it # its))"
      by (intro arg_cong [of _ _ sum_list] map_cong refl max_absorb1 none)
    also have "\<dots> = 0" by simp
    finally show ?thesis using True none [of it] by simp
  next
    case False
    then show ?thesis using Cons by auto
  qed
qed simp

lemma entries_of_group: "entries_of (group_all key (\<lambda>m. [m]) (\<lambda>m l. l @ [m]) ms) k = filter (\<lambda>m. key m = k) ms"
proof -
  have "fold (\<lambda>m l. l @ [m]) xs l = l @ xs" for xs l :: "'a list" by (induction xs arbitrary: l) simp_all
  then have "merged (\<lambda>m. [m]) (\<lambda>m l. l @ [m]) xs = (if xs = [] then None else Some xs)" for xs :: "'a list" by (cases xs) simp_all
  then show ?thesis by (simp add: entries_of_def group_all_lookup)
qed

text \<open>C22: the effective time of a frequency is the time that the processor was in the idle state zero while it had this frequency: the loop that stops early loses nothing
  when the idle states come in the order of their begin.\<close>

theorem effective_frequency_dur:
  assumes "sorted (map mr_ts rows)"
  shows "cm_dur (getEffectiveFrequencyDur (handleCPUIdle0Map startTs totalDur rows) m) =
    sum_list (map (\<lambda>it. max 0 (overlap m it)) (filter (\<lambda>it. cm_cpu it = cm_cpu m) (map (to_trace startTs totalDur) rows)))"
proof -
  have "map cm_ts (map (to_trace startTs totalDur) rows) = map (\<lambda>t. t - startTs) (map mr_ts rows)" by (simp add: to_trace_def Let_def)
  moreover have "sorted (map (\<lambda>t. t - startTs) (map mr_ts rows))" using assms by (simp add: sorted_map)
  ultimately have "sorted (map cm_ts (filter (\<lambda>it. cm_cpu it = cm_cpu m) (map (to_trace startTs totalDur) rows)))" by (metis sorted_filter)
  then show ?thesis by (simp add: getEffectiveFrequencyDur_def handleCPUIdle0Map_def entries_of_group idle_filter_sum)
qed

section \<open>The frequencies of a processor\<close>

definition no_frequency :: "CpuMeasure \<Rightarrow> CpuMeasure list" where
  "no_frequency m = (if cm_ts m > 0 then [\<lparr>cm_cpu = cm_cpu m, cm_value = - 1, cm_ts = 0, cm_dur = cm_ts m\<rparr>] else [])"

definition groupFreqByCpu :: "int \<Rightarrow> int \<Rightarrow> MeasureRow list \<Rightarrow> measure_map" where
  "groupFreqByCpu startTs totalDur rows =
     group_all cm_cpu (\<lambda>m. no_frequency m @ [m]) (\<lambda>m l. l @ [m]) (filter (\<lambda>m. cm_dur m > 0) (map (to_trace startTs totalDur) rows))"

text \<open>Intervals that join without a gap from \<open>a\<close> to \<open>b\<close>.\<close>

fun tiles :: "CpuMeasure list \<Rightarrow> int \<Rightarrow> int \<Rightarrow> bool" where
  "tiles [] a b \<longleftrightarrow> a = b"
| "tiles (m # ms) a b \<longleftrightarrow> cm_ts m = a \<and> 0 < cm_dur m \<and> tiles ms (a + cm_dur m) b"

lemma entries_of_freq:
  "entries_of (groupFreqByCpu startTs totalDur rows) cpu =
    (let ms = filter (\<lambda>m. cm_dur m > 0 \<and> cm_cpu m = cpu) (map (to_trace startTs totalDur) rows) in if ms = [] then [] else no_frequency (hd ms) @ ms)"
proof -
  have f: "fold (\<lambda>m l. l @ [m]) xs l = l @ xs" for xs l :: "CpuMeasure list" by (induction xs arbitrary: l) simp_all
  have "merged (\<lambda>m. no_frequency m @ [m]) (\<lambda>m l. l @ [m]) xs = (if xs = [] then None else Some (no_frequency (hd xs) @ xs))" for xs
    by (cases xs) (simp_all add: f)
  then show ?thesis by (simp add: entries_of_def groupFreqByCpu_def group_all_lookup Let_def)
qed

lemma freq_tiles:
  assumes "tiles (filter (\<lambda>m. cm_dur m > 0 \<and> cm_cpu m = cpu) (map (to_trace startTs totalDur) rows)) a totalDur" "0 \<le> a" "a < totalDur"
  shows "tiles (entries_of (groupFreqByCpu startTs totalDur rows) cpu) 0 totalDur"
proof -
  let ?ms = "filter (\<lambda>m. cm_dur m > 0 \<and> cm_cpu m = cpu) (map (to_trace startTs totalDur) rows)"
  obtain m ms where ms: "?ms = m # ms" using assms(1,3) by (cases ?ms) auto
  have "cm_ts m = a" using assms(1) unfolding ms by simp
  then show ?thesis using assms(1,2) unfolding entries_of_freq ms by (auto simp: no_frequency_def Let_def)
qed

theorem effective_frequency_dur_witness:
  "cm_dur (getEffectiveFrequencyDur (handleCPUIdle0Map 100 900 [\<lparr>mr_cpu = 0, mr_value = 0, mr_ts = 110, mr_dur = Some 20\<rparr>, \<lparr>mr_cpu = 0, mr_value = 0, mr_ts = 140, mr_dur = None\<rparr>])
     \<lparr>cm_cpu = 0, cm_value = 7, cm_ts = 15, cm_dur = 30\<rparr>) = 20"
  using effective_frequency_dur [of "[\<lparr>mr_cpu = 0, mr_value = 0, mr_ts = 110, mr_dur = Some 20\<rparr>, \<lparr>mr_cpu = 0, mr_value = 0, mr_ts = 140, mr_dur = None\<rparr>]" 100 900]
  by (simp add: to_trace_def overlap_def)

end
