(* ===== verification/Sched_Tables.thy ===== *)
theory Sched_Tables
  imports Sched_Measures
begin

text \<open>
  The scheduling worker: the tables of frequencies, idle states and interrupts
  (\<open>computeCpuMeasureDur\<close> and \<open>groupIrgDataByCpu\<close> of \<open>trace/database/logic-worker/ProcedureLogicWorkerSchedulingAnalysis.ts\<close>).

  The average of a group of several measures is a text with two decimals, since \<open>toFixed\<close> returns one. Comparing and dividing turn it back into a number, but it has no method
  \<open>toFixed\<close>.
\<close>

section \<open>Groups\<close>

datatype Avg = AvgNumber rat | AvgText jsstring

definition avg_value :: "Avg \<Rightarrow> rat" where
  "avg_value a = (case a of AvgNumber x \<Rightarrow> x | AvgText s \<Rightarrow> read_decimal s)"

definition avg_time :: "Avg \<Rightarrow> jsstring result" where
  "avg_time a =
     (case a of
        AvgNumber x \<Rightarrow> Inr (getProbablyTime x)
      | AvgText s \<Rightarrow> if read_decimal s \<ge> 1000 then Inr (getProbablyTime (read_decimal s)) else if read_decimal s > 0 then Inl TypeError else Inr s)"

record CpuAnalysis =
  ca_cpu :: int
  ca_value :: int
  ca_sum :: int
  ca_min :: int
  ca_max :: int
  ca_avg :: Avg
  ca_count :: nat

definition value_key :: "CpuMeasure \<Rightarrow> jsstring" where
  "value_key m = js_num (cm_value m)"

definition analysis_new :: "CpuMeasure \<Rightarrow> CpuAnalysis" where
  "analysis_new m = \<lparr>ca_cpu = cm_cpu m, ca_value = cm_value m, ca_sum = cm_dur m, ca_min = cm_dur m, ca_max = cm_dur m, ca_avg = AvgNumber (of_int (cm_dur m)), ca_count = 1\<rparr>"

definition analysis_add :: "CpuMeasure \<Rightarrow> CpuAnalysis \<Rightarrow> CpuAnalysis" where
  "analysis_add m g = (let s = ca_sum g + cm_dur m; n = ca_count g + 1 in
     g\<lparr>ca_sum := s, ca_min := (if ca_min g < cm_dur m then ca_min g else cm_dur m), ca_max := (if ca_max g > cm_dur m then ca_max g else cm_dur m), ca_count := n,
       ca_avg := AvgText (toFixed 2 (of_int s / of_nat n))\<rparr>)"

record AnalysisRow =
  ar_cpu :: int
  ar_value :: int
  ar_sum :: int
  ar_sumTimeStr :: jsstring
  ar_min :: jsstring
  ar_minValue :: int
  ar_max :: jsstring
  ar_maxValue :: int
  ar_avgValue :: Avg
  ar_avg :: jsstring
  ar_count :: nat
  ar_ratio :: jsstring

definition or_one :: "int option \<Rightarrow> int" where
  "or_one n = (case n of None \<Rightarrow> 1 | Some k \<Rightarrow> if k = 0 then 1 else k)"

definition ratio_text :: "int \<Rightarrow> int \<Rightarrow> jsstring" where
  "ratio_text part whole = toFixed 2 (of_int part / of_int whole * 100)"

definition cpu_row :: "(int \<times> int) list \<Rightarrow> int \<Rightarrow> CpuAnalysis \<Rightarrow> AnalysisRow result" where
  "cpu_row sumMap key g = bindr (avg_time (ca_avg g)) (\<lambda>avg.
     Inr \<lparr>ar_cpu = ca_cpu g, ar_value = ca_value g, ar_sum = ca_sum g, ar_sumTimeStr = getProbablyTime (of_int (ca_sum g)), ar_min = getProbablyTime (of_int (ca_min g)),
       ar_minValue = ca_min g, ar_max = getProbablyTime (of_int (ca_max g)), ar_maxValue = ca_max g, ar_avgValue = ca_avg g, ar_avg = avg, ar_count = ca_count g,
       ar_ratio = ratio_text (ca_sum g) (or_one (map_of sumMap key))\<rparr>)"

fun map_result :: "('a \<Rightarrow> 'b result) \<Rightarrow> 'a list \<Rightarrow> 'b list result" where
  "map_result f [] = Inr []"
| "map_result f (x # xs) = bindr (f x) (\<lambda>y. bindr (map_result f xs) (\<lambda>ys. Inr (y # ys)))"

text \<open>The measures that count: for frequencies with their effective time, and of a positive duration.\<close>

definition counted_measures :: "bool \<Rightarrow> int \<Rightarrow> int \<Rightarrow> measure_map \<Rightarrow> MeasureRow list \<Rightarrow> CpuMeasure list" where
  "counted_measures isFreq startTs totalDur idle rows =
     filter (\<lambda>m. cm_dur m > 0) (map (\<lambda>r. let m = to_trace startTs totalDur r in if isFreq then getEffectiveFrequencyDur idle m else m) rows)"

definition value_groups :: "bool \<Rightarrow> CpuMeasure list \<Rightarrow> CpuAnalysis list" where
  "value_groups isFreq ms =
     take 20 (sort_key (\<lambda>g. if isFreq then - ca_sum g else ca_value g) (js_object_values (group_all value_key analysis_new analysis_add ms)))"

definition computeCpuMeasureDur :: "bool \<Rightarrow> int \<Rightarrow> int \<Rightarrow> measure_map \<Rightarrow> MeasureRow list \<Rightarrow> (int \<times> AnalysisRow list) list result" where
  "computeCpuMeasureDur isFreq startTs totalDur idle rows =
     (let ms = counted_measures isFreq startTs totalDur idle rows;
          cpus = group_all cm_cpu (\<lambda>m. [m]) (\<lambda>m l. l @ [m]) ms; sumMap = group_all cm_cpu cm_dur (\<lambda>m s. s + cm_dur m) ms
      in map_result (\<lambda>(key, l). bindr (map_result (cpu_row sumMap key) (value_groups isFreq l)) (\<lambda>t. Inr (key, t))) cpus)"

section \<open>The groups of a processor\<close>

lemma map_result_Inr: "map_result f xs = Inr ys \<longleftrightarrow> list_all2 (\<lambda>x y. f x = Inr y) xs ys"
  by (induction xs arbitrary: ys) (auto simp: bindr_eq_Inr_iff list_all2_Cons1)

lemma list_all2_source: "list_all2 P xs ys \<Longrightarrow> y \<in> set ys \<Longrightarrow> \<exists>x\<in>set xs. P x y"
  by (induction rule: list_all2_induct) auto

lemma map_result_Inl: "map_result f xs = Inl e \<Longrightarrow> \<exists>x\<in>set xs. f x = Inl e"
  by (induction xs) (auto simp: bindr_eq_Inl_iff)

lemma map_result_fails: "x \<in> set xs \<Longrightarrow> f x = Inl TypeError \<Longrightarrow> (\<And>x e. f x = Inl e \<Longrightarrow> e = TypeError) \<Longrightarrow> map_result f xs = Inl TypeError"
proof (induction xs)
  case (Cons y ys)
  then show ?case by (cases "f y"; cases "map_result f ys") (auto simp: bindr_eq_Inl_iff dest: map_result_Inl)
qed simp

text \<open>What a group is made of.\<close>

definition group_facts :: "CpuMeasure list \<Rightarrow> CpuAnalysis \<Rightarrow> bool" where
  "group_facts ms g \<longleftrightarrow> ca_sum g = sum_list (map cm_dur ms) \<and> ca_min g = Min (cm_dur ` set ms) \<and> ca_max g = Max (cm_dur ` set ms) \<and> ca_count g = length ms
     \<and> ca_avg g = (if length ms = 1 then AvgNumber (of_int (ca_sum g)) else AvgText (toFixed 2 (of_int (ca_sum g) / of_nat (length ms))))"

lemma merged_measures:
  "merged analysis_new analysis_add ms = Some g \<Longrightarrow> group_facts ms g \<and> ca_value g = cm_value (hd ms) \<and> ca_cpu g = cm_cpu (hd ms)"
proof (induction ms arbitrary: g rule: rev_induct)
  case (snoc m ms)
  show ?case
  proof (cases "merged analysis_new analysis_add ms")
    case None
    then have "ms = []" by (cases ms) simp_all
    then show ?thesis using snoc.prems by (auto simp: analysis_new_def group_facts_def)
  next
    case (Some h)
    then have ne: "ms \<noteq> []" by (cases ms) simp_all
    have g: "g = analysis_add m h" using snoc.prems Some by (simp add: merged_snoc)
    have IH: "group_facts ms h" "ca_value h = cm_value (hd ms)" "ca_cpu h = cm_cpu (hd ms)" using snoc.IH [OF Some] by auto
    have fin: "finite (cm_dur ` set ms)" "cm_dur ` set ms \<noteq> {}" using ne by auto
    have "ca_min g = min (cm_dur m) (ca_min h)" "ca_max g = max (cm_dur m) (ca_max h)" by (simp_all add: g analysis_add_def Let_def)
    then have "ca_min g = Min (cm_dur ` set (ms @ [m]))" "ca_max g = Max (cm_dur ` set (ms @ [m]))"
      using IH(1) Min_insert [OF fin] Max_insert [OF fin] by (simp_all add: group_facts_def)
    moreover have "ca_sum g = ca_sum h + cm_dur m" "ca_count g = ca_count h + 1" "ca_avg g = AvgText (toFixed 2 (of_int (ca_sum g) / of_nat (ca_count g)))"
      "ca_value g = ca_value h" "ca_cpu g = ca_cpu h" by (simp_all add: g analysis_add_def Let_def)
    ultimately show ?thesis using IH ne unfolding group_facts_def by simp
  qed
qed simp

lemma value_key_eq: "value_key m = value_key m' \<longleftrightarrow> cm_value m = cm_value m'"
  by (simp add: value_key_def js_num_eq_iff)

lemma group_of_value:
  assumes "g \<in> set (value_groups isFreq ms)"
  shows "group_facts (filter (\<lambda>m. cm_value m = ca_value g) ms) g \<and> filter (\<lambda>m. cm_value m = ca_value g) ms \<noteq> []"
proof -
  have "g \<in> set (js_object_values (group_all value_key analysis_new analysis_add ms))" using assms by (auto simp: value_groups_def dest: in_set_takeD)
  then obtain k where k: "(k, g) \<in> set (group_all value_key analysis_new analysis_add ms)" by (auto simp: set_js_object_values)
  let ?ms = "filter (\<lambda>m. value_key m = k) ms"
  have mg: "merged analysis_new analysis_add ?ms = Some g" using k by (simp add: js_map_ok_get [OF group_all_keys(1)] group_all_lookup)
  then have ne: "?ms \<noteq> []" by auto
  then have "hd ?ms \<in> set ?ms" by (rule hd_in_set)
  then have "value_key (hd ?ms) = k" by simp
  then have "value_key x = k \<longleftrightarrow> cm_value x = ca_value g" for x using merged_measures [OF mg] value_key_eq [of x "hd ?ms"] by metis
  then have "?ms = filter (\<lambda>m. cm_value m = ca_value g) ms" by simp
  then show ?thesis using merged_measures [OF mg] ne by simp
qed

text \<open>C19: the table of a processor: every row is one frequency or idle state, with the sum, the least and the greatest of the times of exactly the measures of this processor that have it, and
  their number. There are at most twenty rows, by descending time for frequencies and by ascending state otherwise.\<close>

theorem cpu_table:
  assumes "computeCpuMeasureDur isFreq startTs totalDur idle rows = Inr target" "(cpu, table) \<in> set target"
  defines "ms \<equiv> filter (\<lambda>m. cm_cpu m = cpu) (counted_measures isFreq startTs totalDur idle rows)"
  shows "length table \<le> 20 \<and> sorted (map (\<lambda>r. if isFreq then - ar_sum r else ar_value r) table) \<and>
    list_all (\<lambda>r. let l = filter (\<lambda>m. cm_value m = ar_value r) ms in l \<noteq> [] \<and> ar_sum r = sum_list (map cm_dur l) \<and> ar_minValue r = Min (cm_dur ` set l)
      \<and> ar_maxValue r = Max (cm_dur ` set l) \<and> ar_count r = length l) table"
proof -
  let ?all = "counted_measures isFreq startTs totalDur idle rows"
  let ?cpus = "group_all cm_cpu (\<lambda>m. [m]) (\<lambda>m l. l @ [m]) ?all"
  let ?sums = "group_all cm_cpu cm_dur (\<lambda>m s. s + cm_dur m) ?all"
  have "list_all2 (\<lambda>e y. (case e of (key, l) \<Rightarrow> bindr (map_result (cpu_row ?sums key) (value_groups isFreq l)) (\<lambda>t. Inr (key, t))) = Inr y) ?cpus target"
    using assms(1) by (simp add: computeCpuMeasureDur_def Let_def map_result_Inr)
  from list_all2_source [OF this assms(2)] obtain l where l: "(cpu, l) \<in> set ?cpus" "map_result (cpu_row ?sums cpu) (value_groups isFreq l) = Inr table"
    by (auto simp: bindr_eq_Inr_iff)
  have "l = ms" using l(1) entries_of_group [of cm_cpu ?all cpu] by (simp add: js_map_ok_get [OF group_all_keys(1)] entries_of_def ms_def)
  then have two: "list_all2 (\<lambda>g r. cpu_row ?sums cpu g = Inr r) (value_groups isFreq ms) table" using l(2) by (simp add: map_result_Inr)
  have fields: "ar_value r = ca_value g \<and> ar_sum r = ca_sum g \<and> ar_minValue r = ca_min g \<and> ar_maxValue r = ca_max g \<and> ar_count r = ca_count g" if "cpu_row ?sums cpu g = Inr r" for g r
    using that by (auto simp: cpu_row_def bindr_eq_Inr_iff)
  have "map (\<lambda>r. if isFreq then - ar_sum r else ar_value r) table = map (\<lambda>g. if isFreq then - ca_sum g else ca_value g) (value_groups isFreq ms)"
    using two fields by (intro nth_equalityI) (auto simp: list_all2_conv_all_nth)
  moreover have "sorted (map (\<lambda>g. if isFreq then - ca_sum g else ca_value g) (value_groups isFreq ms))" by (simp add: value_groups_def sorted_wrt_take flip: take_map)
  ultimately have sorted: "sorted (map (\<lambda>r. if isFreq then - ar_sum r else ar_value r) table)" by simp
  have len: "length table \<le> 20" using list_all2_lengthD [OF two] by (simp add: value_groups_def)
  have "let l = filter (\<lambda>m. cm_value m = ar_value r) ms in l \<noteq> [] \<and> ar_sum r = sum_list (map cm_dur l) \<and> ar_minValue r = Min (cm_dur ` set l)
      \<and> ar_maxValue r = Max (cm_dur ` set l) \<and> ar_count r = length l" if r: "r \<in> set table" for r
  proof -
    obtain g where g: "g \<in> set (value_groups isFreq ms)" "cpu_row ?sums cpu g = Inr r"
      using list_all2_source [OF two r] by auto
    show ?thesis using group_of_value [OF g(1)] fields [OF g(2)] by (simp add: group_facts_def Let_def)
  qed
  then show ?thesis using sorted len by (simp add: list_all_iff)
qed

section \<open>Short averages\<close>

lemma avg_text_raises:
  assumes "1 \<le> x" "x < 999"
  shows "avg_time (AvgText (toFixed 2 x)) = Inl TypeError"
proof -
  have "\<bar>read_decimal (toFixed 2 x) - x\<bar> \<le> 1 / 200" using toFixed_close [of x 2] assms(1) by simp
  then have "0 < read_decimal (toFixed 2 x)" "read_decimal (toFixed 2 x) < 1000" using assms by linarith+
  then show ?thesis by (simp add: avg_time_def)
qed

lemma avg_error: "avg_time a = Inl e \<Longrightarrow> e = TypeError"
  by (auto simp: avg_time_def split: Avg.splits if_splits)

lemma groups_complete:
  assumes "m \<in> set ms" "card (cm_value ` set ms) \<le> 20"
  shows "\<exists>g\<in>set (value_groups isFreq ms). ca_value g = cm_value m"
proof -
  let ?G = "group_all value_key analysis_new analysis_add ms"
  have ok: "js_map_ok ?G" and keys: "set (map fst ?G) = value_key ` set ms" by (simp_all add: group_all_keys)
  have "value_key ` set ms = js_num ` cm_value ` set ms" by (auto simp: value_key_def)
  then have "card (value_key ` set ms) \<le> 20" using card_image_le [of "cm_value ` set ms" js_num] assms(2) by simp
  moreover have "length ?G = card (set (map fst ?G))" using ok distinct_card [of "map fst ?G"] by (simp add: js_map_ok_def del: set_map)
  ultimately have "length ?G \<le> 20" using keys by simp
  moreover have "length (js_object_values ?G) = length ?G" using mset_eq_length [OF mset_js_object_values [of ?G]] by simp
  ultimately have all: "set (value_groups isFreq ms) = set (js_object_values ?G)" by (simp add: value_groups_def)
  have "value_key m \<in> set (map fst ?G)" unfolding keys using assms(1) by (rule imageI)
  then obtain g where g: "(value_key m, g) \<in> set ?G" by auto
  then have "merged analysis_new analysis_add (filter (\<lambda>x. value_key x = value_key m) ms) = Some g" by (simp add: js_map_ok_get [OF ok] group_all_lookup)
  from merged_measures [OF this] have "ca_value g = cm_value (hd (filter (\<lambda>x. value_key x = value_key m) ms))" by simp
  moreover have "hd (filter (\<lambda>x. value_key x = value_key m) ms) \<in> set (filter (\<lambda>x. value_key x = value_key m) ms)" using assms(1) by (intro hd_in_set) (auto simp: filter_empty_conv)
  ultimately have "ca_value g = cm_value m" by (simp add: value_key_eq)
  then show ?thesis using g all by (force simp: set_js_object_values)
qed

text \<open>C40: the table fails for short states: when a processor has been in a state several times, less than 999 nanoseconds on average, and has no more than twenty states, the average is a text,
  which has no method to round it, and the whole table ends in a \<open>TypeError\<close>.\<close>

theorem short_average_raises:
  assumes "m \<in> set (counted_measures isFreq startTs totalDur idle rows)"
  defines "ms \<equiv> filter (\<lambda>x. cm_cpu x = cm_cpu m) (counted_measures isFreq startTs totalDur idle rows)"
  defines "l \<equiv> filter (\<lambda>x. cm_value x = cm_value m) ms"
  assumes "1 < length l" "sum_list (map cm_dur l) < 999 * int (length l)" "card (cm_value ` set ms) \<le> 20"
  shows "computeCpuMeasureDur isFreq startTs totalDur idle rows = Inl TypeError"
proof -
  let ?all = "counted_measures isFreq startTs totalDur idle rows"
  let ?cpus = "group_all cm_cpu (\<lambda>m. [m]) (\<lambda>m l. l @ [m]) ?all" and ?sums = "group_all cm_cpu cm_dur (\<lambda>m s. s + cm_dur m) ?all"
  have m: "m \<in> set ms" using assms(1) by (simp add: ms_def)
  obtain g where g: "g \<in> set (value_groups isFreq ms)" "ca_value g = cm_value m" using groups_complete [OF m assms(6)] by blast
  have l: "group_facts l g" using group_of_value [OF g(1)] g(2) by (simp add: l_def)
  have pos: "\<forall>x\<in>set l. 1 \<le> cm_dur x" by (auto simp: l_def ms_def counted_measures_def)
  then have "int (length l) \<le> sum_list (map cm_dur l)" by (induction l) auto
  then have "(of_int (int (length l)) :: rat) \<le> of_int (ca_sum g)" "(of_int (ca_sum g) :: rat) < of_int (999 * int (length l))"
    unfolding of_int_le_iff of_int_less_iff using l assms(5) by (simp_all add: group_facts_def)
  moreover have "(0 :: rat) < of_nat (length l)" using assms(4) by (cases l) simp_all
  ultimately have "1 \<le> of_int (ca_sum g) / (of_nat (length l) :: rat)" "of_int (ca_sum g) / (of_nat (length l) :: rat) < 999"
    by (simp_all add: pos_le_divide_eq pos_divide_less_eq)
  then have "avg_time (ca_avg g) = Inl TypeError" using l assms(4) avg_text_raises by (simp add: group_facts_def)
  then have "cpu_row ?sums (cm_cpu m) g = Inl TypeError" by (simp add: cpu_row_def)
  then have row: "map_result (cpu_row ?sums (cm_cpu m)) (value_groups isFreq ms) = Inl TypeError"
    by (rule map_result_fails [OF g(1)]) (auto simp: cpu_row_def bindr_eq_Inl_iff dest: avg_error)
  have "map_of ?cpus (cm_cpu m) = Some ms"
    using entries_of_group [of cm_cpu ?all "cm_cpu m"] m by (cases "map_of ?cpus (cm_cpu m)") (simp_all add: entries_of_def ms_def)
  then have "(cm_cpu m, ms) \<in> set ?cpus" by (rule map_of_SomeD)
  then show ?thesis unfolding computeCpuMeasureDur_def Let_def
    by (rule map_result_fails) (use row in \<open>auto simp: bindr_eq_Inl_iff cpu_row_def dest!: map_result_Inl avg_error\<close>)
qed

section \<open>Interrupts\<close>

record Irq =
  iq_cpu :: int
  iq_value :: jsstring
  iq_block :: jsstring
  iq_max :: int
  iq_min :: int
  iq_avg :: rat
  iq_sum :: int

record IrqRow =
  ir_irq :: Irq
  ir_sumTimeStr :: jsstring
  ir_min :: jsstring
  ir_max :: jsstring
  ir_avg :: jsstring
  ir_ratio :: jsstring

definition irq_row :: "(int \<times> int) list \<Rightarrow> int \<Rightarrow> Irq \<Rightarrow> IrqRow" where
  "irq_row sumMap key q = \<lparr>ir_irq = q, ir_sumTimeStr = getProbablyTime (of_int (iq_sum q)), ir_min = getProbablyTime (of_int (iq_min q)), ir_max = getProbablyTime (of_int (iq_max q)),
     ir_avg = getProbablyTime (iq_avg q), ir_ratio = ratio_text (iq_sum q) (or_one (map_of sumMap key))\<rparr>"

definition groupIrgDataByCpu :: "Irq list \<Rightarrow> (int \<times> IrqRow list) list" where
  "groupIrgDataByCpu arr =
     (let sumMap = group_all iq_cpu iq_sum (\<lambda>q s. s + iq_sum q) arr
      in map (\<lambda>(key, l). (key, map (irq_row sumMap key) (take 20 (sort_key (\<lambda>q. - iq_sum q) l)))) (group_all iq_cpu (\<lambda>q. [q]) (\<lambda>q l. l @ [q]) arr))"

section \<open>Concrete instances\<close>

definition demo_idle :: "int \<Rightarrow> int \<Rightarrow> MeasureRow" where
  "demo_idle ts d = \<lparr>mr_cpu = 0, mr_value = 1, mr_ts = ts, mr_dur = Some d\<rparr>"

theorem cpu_table_witness:
  "\<exists>target table. computeCpuMeasureDur False 0 9000 [] [demo_idle 5 2000, demo_idle 5000 3000] = Inr target \<and> (0, table) \<in> set target
     \<and> list_all (\<lambda>r. ar_value r = 1 \<longrightarrow> ar_sum r = 5000 \<and> ar_count r = 2) table"
proof -
  let ?rows = "[demo_idle 5 2000, demo_idle 5000 3000]"
  have all: "counted_measures False 0 9000 [] ?rows = [\<lparr>cm_cpu = 0, cm_value = 1, cm_ts = 5, cm_dur = 2000\<rparr>, \<lparr>cm_cpu = 0, cm_value = 1, cm_ts = 5000, cm_dur = 3000\<rparr>]"
    by (simp add: counted_measures_def to_trace_def demo_idle_def Let_def)
  have "\<bar>read_decimal (toFixed 2 2500) - 2500\<bar> \<le> 1 / 200" using toFixed_close [of 2500 2] by simp
  then have "1000 \<le> read_decimal (toFixed 2 2500)" by linarith
  then have "\<exists>table. computeCpuMeasureDur False 0 9000 [] ?rows = Inr [(0, table)]"
    by (simp add: computeCpuMeasureDur_def all value_groups_def group_all_def group_step_def value_key_def analysis_new_def analysis_add_def js_object_values_def js_index_def
        cpu_row_def avg_time_def Let_def)
  then obtain table where t: "computeCpuMeasureDur False 0 9000 [] ?rows = Inr [(0, table)]" ..
  have "list_all (\<lambda>r. ar_value r = 1 \<longrightarrow> ar_sum r = 5000 \<and> ar_count r = 2) table"
    using cpu_table [OF t, of 0 table] by (auto simp: all list_all_iff Let_def)
  then show ?thesis using t by (intro exI [of _ "[(0, table)]"] exI [of _ table]) simp
qed

theorem short_average_raises_witness: "computeCpuMeasureDur False 0 9000 [] [demo_idle 5 400, demo_idle 5000 500] = Inl TypeError"
proof -
  have all: "counted_measures False 0 9000 [] [demo_idle 5 400, demo_idle 5000 500] = [\<lparr>cm_cpu = 0, cm_value = 1, cm_ts = 5, cm_dur = 400\<rparr>, \<lparr>cm_cpu = 0, cm_value = 1, cm_ts = 5000, cm_dur = 500\<rparr>]"
    by (simp add: counted_measures_def to_trace_def demo_idle_def Let_def)
  show ?thesis by (rule short_average_raises [of "\<lparr>cm_cpu = 0, cm_value = 1, cm_ts = 5, cm_dur = 400\<rparr>"]) (simp_all add: all)
qed

end
