(* ===== verification/Sched_Threads.thy ===== *)
theory Sched_Threads
  imports Sched_Tables
begin

text \<open>
  The scheduling worker: the threads on a frequency, the frequencies of a thread, and the use of the kinds of cores
  (\<open>trace/database/logic-worker/ProcedureLogicWorkerSchedulingAnalysis.ts\<close>).
\<close>

section \<open>The frequencies of a thread\<close>

record ThreadRun =
  tr_cpu :: int
  tr_ts :: int
  tr_dur :: int

definition run_touches :: "ThreadRun \<Rightarrow> CpuMeasure \<Rightarrow> bool" where
  "run_touches it f \<longleftrightarrow> (tr_ts it \<ge> cm_ts f \<and> tr_ts it \<le> cm_ts f + cm_dur f) \<or> (tr_ts it \<le> cm_ts f \<and> tr_ts it + tr_dur it \<ge> cm_ts f + cm_dur f)
     \<or> (tr_ts it + tr_dur it > cm_ts f \<and> tr_ts it + tr_dur it \<le> cm_ts f + cm_dur f)"

definition run_overlap :: "ThreadRun \<Rightarrow> CpuMeasure \<Rightarrow> int" where
  "run_overlap it f = min (tr_ts it + tr_dur it) (cm_ts f + cm_dur f) - max (tr_ts it) (cm_ts f)"

text \<open>The parts of a run: processor, frequency and time.\<close>

definition freq_parts :: "measure_map \<Rightarrow> ThreadRun \<Rightarrow> (int \<times> int \<times> int) list" where
  "freq_parts freqs it = map (\<lambda>f. (tr_cpu it, cm_value f, run_overlap it f)) (filter (run_touches it) (entries_of freqs (tr_cpu it)))"

record ThreadFreq =
  tq_freq :: int
  tq_cpu :: int
  tq_time :: int
  tq_timeStr :: jsstring
  tq_ratio :: jsstring
  tq_totalDur :: int

definition part_key :: "int \<times> int \<times> int \<Rightarrow> jsstring" where
  "part_key = (\<lambda>(cpu, freq, d). js_num cpu @ js ''-'' @ js_num freq)"

definition thread_freq_new :: "int \<Rightarrow> int \<times> int \<times> int \<Rightarrow> ThreadFreq" where
  "thread_freq_new sumDur = (\<lambda>(cpu, freq, d).
     \<lparr>tq_freq = freq, tq_cpu = cpu, tq_time = d, tq_timeStr = getProbablyTime (of_int d), tq_ratio = ratio_text d sumDur, tq_totalDur = sumDur\<rparr>)"

definition thread_freq_add :: "int \<Rightarrow> int \<times> int \<times> int \<Rightarrow> ThreadFreq \<Rightarrow> ThreadFreq" where
  "thread_freq_add sumDur = (\<lambda>(cpu, freq, d) g. let t = tq_time g + d in
     g\<lparr>tq_time := t, tq_timeStr := getProbablyTime (of_int t), tq_ratio := ratio_text t sumDur\<rparr>)"

definition handlerThreadFreqData :: "measure_map \<Rightarrow> ThreadRun list \<Rightarrow> ThreadFreq list" where
  "handlerThreadFreqData freqs runs =
     (let sumDur = sum_list (map tr_dur runs)
      in sort_key (\<lambda>g. - tq_time g) (js_object_values (group_all part_key (thread_freq_new sumDur) (thread_freq_add sumDur) (concat (map (freq_parts freqs) runs)))))"

interpretation thread_freq: additive_group "thread_freq_new sumDur" "thread_freq_add sumDur" tq_time "\<lambda>(cpu, freq, d). d" for sumDur
  by unfold_locales (auto simp: thread_freq_new_def thread_freq_add_def Let_def)

lemma touching_overlap: "0 < tr_dur it \<Longrightarrow> 0 < cm_dur f \<Longrightarrow> (if run_touches it f then run_overlap it f else 0) = max 0 (run_overlap it f)"
  by (auto simp: run_touches_def run_overlap_def)

lemma tiles_bound: "tiles fs a b \<Longrightarrow> a \<le> b"
  by (induction fs arbitrary: a) fastforce+

lemma tiles_pos: "tiles fs a b \<Longrightarrow> f \<in> set fs \<Longrightarrow> 0 < cm_dur f"
  by (induction fs arbitrary: a) auto

text \<open>The part of a run that lies between \<open>a\<close> and \<open>b\<close> is divided among intervals that join from \<open>a\<close> to \<open>b\<close>.\<close>

lemma tiles_overlap:
  assumes "tiles fs a b" "0 < tr_dur it"
  shows "sum_list (map (\<lambda>f. max 0 (run_overlap it f)) fs) = max 0 (min (tr_ts it + tr_dur it) b - max (tr_ts it) a)"
  using assms(1)
proof (induction fs arbitrary: a)
  case (Cons f fs)
  then have f: "cm_ts f = a" "0 < cm_dur f" "tiles fs (a + cm_dur f) b" by simp_all
  have "a + cm_dur f \<le> b" using tiles_bound [OF f(3)] .
  then show ?case using Cons.IH [OF f(3)] f(1,2) assms(2) by (simp add: run_overlap_def) linarith
qed simp

lemma run_parts_sum:
  assumes "tiles (entries_of freqs (tr_cpu it)) 0 T" "0 < tr_dur it" "0 \<le> tr_ts it" "tr_ts it + tr_dur it \<le> T"
  shows "sum_list (map (\<lambda>(cpu, freq, d). d) (freq_parts freqs it)) = tr_dur it"
proof -
  let ?fs = "entries_of freqs (tr_cpu it)"
  have filt: "sum_list (map h (filter P xs)) = sum_list (map (\<lambda>x. if P x then h x else 0) xs)" for h :: "CpuMeasure \<Rightarrow> int" and P xs by (induction xs) simp_all
  have "sum_list (map (\<lambda>(cpu, freq, d). d) (freq_parts freqs it)) = sum_list (map (\<lambda>f. if run_touches it f then run_overlap it f else 0) ?fs)"
    by (simp add: freq_parts_def comp_def filt)
  also have "\<dots> = sum_list (map (\<lambda>f. max 0 (run_overlap it f)) ?fs)"
    using tiles_pos [OF assms(1)] assms(2) by (intro arg_cong [of _ _ sum_list] map_cong refl touching_overlap)
  also have "\<dots> = tr_dur it" using tiles_overlap [OF assms(1,2)] assms(2-4) by simp
  finally show ?thesis .
qed

lemma sum_concat: "sum_list (map h (concat xss)) = sum_list (map (\<lambda>xs. sum_list (map h xs)) xss)" for h :: "'a \<Rightarrow> int"
  by (induction xss) simp_all

text \<open>C21: the frequencies of a thread: when the frequencies of each processor join from the begin to the end of the trace, the times of the rows add up to the running time of the
  thread, no part of a run is lost or counted twice, and the rows come by descending time.\<close>

theorem thread_freq_total:
  assumes "\<forall>it\<in>set runs. tiles (entries_of freqs (tr_cpu it)) 0 T \<and> 0 < tr_dur it \<and> 0 \<le> tr_ts it \<and> tr_ts it + tr_dur it \<le> T"
  shows "sum_list (map tq_time (handlerThreadFreqData freqs runs)) = sum_list (map tr_dur runs) \<and> sorted (map (\<lambda>g. - tq_time g) (handlerThreadFreqData freqs runs))"
proof -
  let ?parts = "concat (map (freq_parts freqs) runs)" and ?d = "\<lambda>(cpu, freq, d). d"
  have "sum_list (map tq_time (handlerThreadFreqData freqs runs)) = sum_list (map ?d ?parts)"
    using thread_freq.sum_group [of part_key "sum_list (map tr_dur runs)" ?parts]
    by (simp add: handlerThreadFreqData_def Let_def sum_sort_key sum_js_object_values comp_def)
  also have "\<dots> = sum_list (map (\<lambda>it. sum_list (map ?d (freq_parts freqs it))) runs)" by (simp add: sum_concat comp_def)
  also have "\<dots> = sum_list (map tr_dur runs)" using assms by (intro arg_cong [of _ _ sum_list] map_cong refl run_parts_sum) auto
  finally show ?thesis by (simp add: handlerThreadFreqData_def Let_def)
qed

section \<open>The threads on a frequency\<close>

record FreqThread =
  ft_pid :: int
  ft_tid :: int
  ft_dur :: int
  ft_ts :: int

record FreqThreadRow =
  fq_tid :: int
  fq_tName :: jsstring
  fq_pid :: int
  fq_pName :: jsstring
  fq_dur :: int
  fq_durStr :: jsstring
  fq_ratio :: jsstring

type_synonym name_map = "int \<Rightarrow> jsstring option"

definition name_or_null :: "name_map \<Rightarrow> int \<Rightarrow> jsstring" where
  "name_or_null m i = (case m i of None \<Rightarrow> js ''null'' | Some nm \<Rightarrow> if nm = [] then js ''null'' else nm)"

text \<open>The time that is counted reaches to the end of the run, also beyond the end of the frequency: both arguments of \<open>Math.min\<close> are the end of the run.\<close>

definition meets :: "CpuMeasure \<Rightarrow> FreqThread \<Rightarrow> bool" where
  "meets it f \<longleftrightarrow> min (ft_ts f + ft_dur f) (cm_ts it + cm_dur it) - max (ft_ts f) (cm_ts it) > 0"

definition counted_dur :: "CpuMeasure \<Rightarrow> FreqThread \<Rightarrow> int" where
  "counted_dur it tf = min (ft_ts tf + ft_dur tf) (ft_ts tf + ft_dur tf) - max (cm_ts it) (ft_ts tf)"

definition freq_row_new :: "name_map \<Rightarrow> name_map \<Rightarrow> FreqThread \<times> int \<Rightarrow> FreqThreadRow" where
  "freq_row_new threadMap processMap = (\<lambda>(tf, d). \<lparr>fq_tid = ft_tid tf, fq_tName = name_or_null threadMap (ft_tid tf), fq_pid = ft_pid tf, fq_pName = name_or_null processMap (ft_pid tf),
     fq_dur = d, fq_durStr = getProbablyTime (of_int d), fq_ratio = js ''0''\<rparr>)"

definition freq_row_add :: "FreqThread \<times> int \<Rightarrow> FreqThreadRow \<Rightarrow> FreqThreadRow" where
  "freq_row_add = (\<lambda>(tf, d) r. r\<lparr>fq_dur := fq_dur r + d, fq_durStr := getProbablyTime (of_int (fq_dur r + d))\<rparr>)"

definition freq_thread_parts :: "CpuMeasure list \<Rightarrow> FreqThread list \<Rightarrow> (FreqThread \<times> int) list" where
  "freq_thread_parts ms arr = concat (map (\<lambda>it. map (\<lambda>tf. (tf, counted_dur it tf)) (filter (meets it) arr)) ms)"

definition handlerFreqThreadData :: "name_map \<Rightarrow> name_map \<Rightarrow> measure_map \<Rightarrow> int \<Rightarrow> int \<Rightarrow> FreqThread list \<Rightarrow> FreqThreadRow list" where
  "handlerFreqThreadData threadMap processMap freqs cpu freq arr =
     (let ms = filter (\<lambda>it. cm_value it = freq) (entries_of freqs cpu); sumFreqDur = sum_list (map cm_dur ms);
          rows = js_values (group_all (\<lambda>(tf, d). ft_tid tf) (freq_row_new threadMap processMap) freq_row_add (freq_thread_parts ms arr))
      in take 20 (map (\<lambda>r. r\<lparr>fq_ratio := ratio_text (fq_dur r) sumFreqDur\<rparr>) (sort_key (\<lambda>r. - fq_dur r) rows)))"

interpretation freq_rows: additive_group "freq_row_new threadMap processMap" freq_row_add fq_dur snd for threadMap processMap
  by unfold_locales (auto simp: freq_row_new_def freq_row_add_def)

text \<open>A thread can have more than all of the time of a frequency: for a processor that has the frequency for 10 nanoseconds, a run that begins after 5 of them and lasts 20 is
  counted with all of its 20 nanoseconds and shown with 200.00 percent.\<close>

theorem freq_thread_overcounts:
  "map (\<lambda>r. (fq_tid r, fq_dur r, fq_ratio r))
     (handlerFreqThreadData Map.empty Map.empty [(0, [\<lparr>cm_cpu = 0, cm_value = 7, cm_ts = 0, cm_dur = 10\<rparr>])] 0 7 [\<lparr>ft_pid = 1, ft_tid = 2, ft_dur = 20, ft_ts = 5\<rparr>]) =
   [(2, 20, js ''200.00'')]"
proof -
  have "round_up 20000 = 20000" using round_up_whole [of 20000] by simp
  then have ratio: "ratio_text 20 10 = js ''200.00''" by (simp add: ratio_text_def toFixed_def fixed_text_def pad_zeros_def nat_digits.simps js_def)
  show ?thesis
    by (simp add: handlerFreqThreadData_def entries_of_def freq_thread_parts_def meets_def counted_dur_def group_all_def group_step_def freq_row_new_def js_values_def ratio Let_def)
qed

lemma sum_filter_if: "sum_list (map h (filter P xs)) = sum_list (map (\<lambda>x. if P x then h x else 0) xs)" for h :: "'a \<Rightarrow> int"
  by (induction xs) simp_all

text \<open>When no run goes on beyond the end of a frequency that it meets, the time of every row is the time that the thread has run while the processor had the frequency.\<close>

theorem freq_thread_times:
  assumes "\<forall>it\<in>set (entries_of freqs cpu). \<forall>tf\<in>set arr. meets it tf \<longrightarrow> ft_ts tf + ft_dur tf \<le> cm_ts it + cm_dur it"
    and "r \<in> set (handlerFreqThreadData threadMap processMap freqs cpu freq arr)"
  shows "fq_dur r = sum_list (map (\<lambda>it. sum_list (map (\<lambda>tf. max 0 (min (ft_ts tf + ft_dur tf) (cm_ts it + cm_dur it) - max (ft_ts tf) (cm_ts it)))
    (filter (\<lambda>tf. ft_tid tf = fq_tid r) arr))) (filter (\<lambda>it. cm_value it = freq) (entries_of freqs cpu)))"
proof -
  let ?ms = "filter (\<lambda>it. cm_value it = freq) (entries_of freqs cpu)" and ?key = "\<lambda>(tf :: FreqThread, d :: int). ft_tid tf"
  let ?G = "group_all ?key (freq_row_new threadMap processMap) freq_row_add (freq_thread_parts ?ms arr)"
  let ?ov = "\<lambda>it tf. min (ft_ts tf + ft_dur tf) (cm_ts it + cm_dur it) - max (ft_ts tf) (cm_ts it)"
  obtain q where q: "q \<in> set (js_values ?G)" "fq_dur r = fq_dur q" "fq_tid r = fq_tid q"
    using assms(2) by (fastforce simp: handlerFreqThreadData_def Let_def dest: in_set_takeD)
  then obtain k where k: "(k, q) \<in> set ?G" by (auto simp: js_values_def)
  have "merged (freq_row_new threadMap processMap) freq_row_add (filter (\<lambda>n. ?key n = k) (freq_thread_parts ?ms arr)) = Some q"
    using k by (simp add: js_map_ok_get [OF group_all_keys(1)] group_all_lookup)
  then obtain n ns where n: "filter (\<lambda>n. ?key n = k) (freq_thread_parts ?ms arr) = n # ns" "q = fold freq_row_add ns (freq_row_new threadMap processMap n)"
    by (cases "filter (\<lambda>n. ?key n = k) (freq_thread_parts ?ms arr)") auto
  have "fq_tid (fold freq_row_add ns u) = fq_tid u" for u by (induction ns arbitrary: u) (auto simp: freq_row_add_def split: prod.splits)
  moreover have "?key n = k" using n(1) by (auto dest: filter_eq_ConsD)
  ultimately have tid: "fq_tid q = k" using n(2) by (auto simp: freq_row_new_def split: prod.splits)
  have each: "sum_list (map snd (filter (\<lambda>n. ?key n = k) (map (\<lambda>tf. (tf, counted_dur it tf)) (filter (meets it) arr)))) =
      sum_list (map (\<lambda>tf. max 0 (?ov it tf)) (filter (\<lambda>tf. ft_tid tf = k) arr))" if it: "it \<in> set ?ms" for it
  proof -
    have "(if meets it tf then counted_dur it tf else 0) = max 0 (?ov it tf)" if "tf \<in> set arr" for tf
      using assms(1) it that by (auto simp: meets_def counted_dur_def)
    then have "sum_list (map (\<lambda>tf. if meets it tf \<and> ft_tid tf = k then counted_dur it tf else 0) arr) = sum_list (map (\<lambda>tf. if ft_tid tf = k then max 0 (?ov it tf) else 0) arr)"
      by (intro arg_cong [of _ _ sum_list] map_cong refl) auto
    then show ?thesis by (simp add: filter_map comp_def sum_filter_if)
  qed
  have "fq_dur q = sum_list (map snd (filter (\<lambda>n. ?key n = k) (freq_thread_parts ?ms arr)))" by (rule freq_rows.total_group [OF k])
  also have "\<dots> = sum_list (map (\<lambda>it. sum_list (map snd (filter (\<lambda>n. ?key n = k) (map (\<lambda>tf. (tf, counted_dur it tf)) (filter (meets it) arr))))) ?ms)"
    by (simp only: freq_thread_parts_def filter_concat sum_concat map_map comp_def)
  also have "\<dots> = sum_list (map (\<lambda>it. sum_list (map (\<lambda>tf. max 0 (?ov it tf)) (filter (\<lambda>tf. ft_tid tf = k) arr))) ?ms)"
    by (intro arg_cong [of _ _ sum_list] map_cong refl each)
  finally show ?thesis using q(2,3) tid by simp
qed

section \<open>The kinds of cores\<close>

record UsageRow =
  ur_cpu :: int
  ur_pid :: int
  ur_tid :: int
  ur_total :: int

record ThreadCpuUsage =
  tu_pid :: int
  tu_pName :: jsstring
  tu_tid :: int
  tu_tName :: jsstring
  tu_total :: int
  tu_big :: int
  tu_mid :: int
  tu_small :: int
  tu_cpus :: "(int \<times> int) list"
  tu_bigPercent :: jsstring
  tu_midPercent :: jsstring
  tu_smallPercent :: jsstring
  tu_bigTimeStr :: jsstring
  tu_midTimeStr :: jsstring
  tu_smallTimeStr :: jsstring

record Cores =
  bigCores :: "int list"
  midCores :: "int list"
  smallCores :: "int list"

datatype CoreType = Core_big | Core_mid | Core_small

text \<open>The last list that has the processor decides; a processor of no list counts as a middle core.\<close>

definition core_type :: "Cores \<Rightarrow> int \<Rightarrow> CoreType" where
  "core_type cs cpu = (if cpu \<in> set (smallCores cs) then Core_small else if cpu \<in> set (midCores cs) then Core_mid else if cpu \<in> set (bigCores cs) then Core_big else Core_mid)"

definition on_core :: "Cores \<Rightarrow> CoreType \<Rightarrow> UsageRow \<Rightarrow> int" where
  "on_core cs t x = (if core_type cs (ur_cpu x) = t then ur_total x else 0)"

definition core_sum :: "int list \<Rightarrow> UsageRow list \<Rightarrow> int" where
  "core_sum cores arr = sum_list (map ur_total (filter (\<lambda>x. ur_cpu x \<in> set cores) arr))"

definition usage_new :: "Cores \<Rightarrow> name_map \<Rightarrow> name_map \<Rightarrow> UsageRow \<Rightarrow> ThreadCpuUsage" where
  "usage_new cs threadMap processMap x = \<lparr>tu_pid = ur_pid x, tu_pName = name_or_null processMap (ur_pid x), tu_tid = ur_tid x, tu_tName = name_or_null threadMap (ur_tid x),
     tu_total = ur_total x, tu_big = on_core cs Core_big x, tu_mid = on_core cs Core_mid x, tu_small = on_core cs Core_small x, tu_cpus = [(ur_cpu x, ur_total x)],
     tu_bigPercent = [], tu_midPercent = [], tu_smallPercent = [], tu_bigTimeStr = [], tu_midTimeStr = [], tu_smallTimeStr = []\<rparr>"

definition usage_add :: "Cores \<Rightarrow> UsageRow \<Rightarrow> ThreadCpuUsage \<Rightarrow> ThreadCpuUsage" where
  "usage_add cs x u = u\<lparr>tu_big := tu_big u + on_core cs Core_big x, tu_mid := tu_mid u + on_core cs Core_mid x, tu_small := tu_small u + on_core cs Core_small x,
     tu_total := tu_total u + ur_total x, tu_cpus := js_map_set (ur_cpu x) (ur_total x) (tu_cpus u)\<rparr>"

definition percent :: "int \<Rightarrow> int \<Rightarrow> jsstring" where
  "percent part whole = (if whole = 0 then js ''0'' else ratio_text part whole)"

definition usage_texts :: "int \<Rightarrow> int \<Rightarrow> int \<Rightarrow> ThreadCpuUsage \<Rightarrow> ThreadCpuUsage" where
  "usage_texts sumBig sumMid sumSmall u = u\<lparr>tu_bigPercent := percent (tu_big u) sumBig, tu_midPercent := percent (tu_mid u) sumMid, tu_smallPercent := percent (tu_small u) sumSmall,
     tu_bigTimeStr := getProbablyTime (of_int (tu_big u)), tu_midTimeStr := getProbablyTime (of_int (tu_mid u)), tu_smallTimeStr := getProbablyTime (of_int (tu_small u))\<rparr>"

definition usage_source :: "Cores \<Rightarrow> name_map \<Rightarrow> name_map \<Rightarrow> UsageRow list \<Rightarrow> ThreadCpuUsage list" where
  "usage_source cs threadMap processMap arr =
     map (usage_texts (core_sum (bigCores cs) arr) (core_sum (midCores cs) arr) (core_sum (smallCores cs) arr))
       (js_object_values (group_all (\<lambda>x. js_num (ur_tid x)) (usage_new cs threadMap processMap) (usage_add cs) arr))"

text \<open>The four lists: total, big, middle and small. Each is sorted from the one before, in place.\<close>

definition handlerThreadCpuUsageData :: "Cores \<Rightarrow> name_map \<Rightarrow> name_map \<Rightarrow> UsageRow list \<Rightarrow> (jsstring \<times> ThreadCpuUsage list) list" where
  "handlerThreadCpuUsageData cs threadMap processMap arr =
     (let s1 = sort_key (\<lambda>u. - tu_total u) (usage_source cs threadMap processMap arr); s2 = sort_key (\<lambda>u. - tu_big u) s1;
          s3 = sort_key (\<lambda>u. - tu_mid u) s2; s4 = sort_key (\<lambda>u. - tu_small u) s3
      in [(js ''total'', take 20 s1), (js ''big'', take 20 s2), (js ''mid'', take 20 s3), (js ''small'', take 20 s4)])"

interpretation usage_total: additive_group "usage_new cs threadMap processMap" "usage_add cs" tu_total ur_total for cs threadMap processMap
  by unfold_locales (simp_all add: usage_new_def usage_add_def)

interpretation usage_big: additive_group "usage_new cs threadMap processMap" "usage_add cs" tu_big "on_core cs Core_big" for cs threadMap processMap
  by unfold_locales (simp_all add: usage_new_def usage_add_def)

interpretation usage_mid: additive_group "usage_new cs threadMap processMap" "usage_add cs" tu_mid "on_core cs Core_mid" for cs threadMap processMap
  by unfold_locales (simp_all add: usage_new_def usage_add_def)

interpretation usage_small: additive_group "usage_new cs threadMap processMap" "usage_add cs" tu_small "on_core cs Core_small" for cs threadMap processMap
  by unfold_locales (simp_all add: usage_new_def usage_add_def)

lemma usage_texts_simps [simp]:
  "tu_total (usage_texts a b c u) = tu_total u" "tu_big (usage_texts a b c u) = tu_big u" "tu_mid (usage_texts a b c u) = tu_mid u" "tu_small (usage_texts a b c u) = tu_small u"
  by (simp_all add: usage_texts_def)

lemma usage_kinds: "u \<in> set (usage_source cs threadMap processMap arr) \<Longrightarrow> tu_total u = tu_big u + tu_mid u + tu_small u"
proof -
  assume "u \<in> set (usage_source cs threadMap processMap arr)"
  then obtain v where v: "v \<in> snd ` set (group_all (\<lambda>x. js_num (ur_tid x)) (usage_new cs threadMap processMap) (usage_add cs) arr)"
    "tu_total u = tu_total v" "tu_big u = tu_big v" "tu_mid u = tu_mid v" "tu_small u = tu_small v"
    by (force simp: usage_source_def set_js_object_values)
  have kind: "on_core cs Core_big x + on_core cs Core_mid x + on_core cs Core_small x = ur_total x" for x by (cases "core_type cs (ur_cpu x)") (simp_all add: on_core_def)
  have "tu_total v = tu_big v + tu_mid v + tu_small v"
    by (rule group_values [OF v(1)]) (use kind in \<open>simp_all add: usage_new_def usage_add_def algebra_simps\<close>)
  then show ?thesis using v(2-) by simp
qed

lemma core_sum_listed:
  assumes "\<forall>x\<in>set arr. ur_cpu x \<in> set cores \<longleftrightarrow> core_type cs (ur_cpu x) = t"
  shows "core_sum cores arr = sum_list (map (on_core cs t) arr)"
  using assms by (auto simp: core_sum_def on_core_def [abs_def] sum_filter_if intro!: arg_cong [of _ _ sum_list])

text \<open>A processor is in exactly one of the three lists.\<close>

definition listed_once :: "Cores \<Rightarrow> int \<Rightarrow> bool" where
  "listed_once cs p \<longleftrightarrow> length (filter (\<lambda>cores. p \<in> set cores) [bigCores cs, midCores cs, smallCores cs]) = 1"

lemma listed_once_types:
  "listed_once cs p \<Longrightarrow> (p \<in> set (bigCores cs) \<longleftrightarrow> core_type cs p = Core_big) \<and> (p \<in> set (midCores cs) \<longleftrightarrow> core_type cs p = Core_mid) \<and> (p \<in> set (smallCores cs) \<longleftrightarrow> core_type cs p = Core_small)"
  by (auto simp: listed_once_def core_type_def split: if_splits)

text \<open>C38: the use of the cores: the time of every thread is the sum of its times on big, middle and small cores, the times of all threads add up to the times of the rows,
  and, when every processor is in exactly one list, the times on a kind of core add up to the sum that its percentages refer to.\<close>

theorem core_usage:
  fixes threadMap processMap :: name_map and cs :: Cores and arr :: "UsageRow list"
  defines "us \<equiv> usage_source cs threadMap processMap arr"
  shows "list_all (\<lambda>u. tu_total u = tu_big u + tu_mid u + tu_small u) us \<and> sum_list (map tu_total us) = sum_list (map ur_total arr)
    \<and> ((\<forall>x\<in>set arr. listed_once cs (ur_cpu x))
       \<longrightarrow> sum_list (map tu_big us) = core_sum (bigCores cs) arr \<and> sum_list (map tu_mid us) = core_sum (midCores cs) arr \<and> sum_list (map tu_small us) = core_sum (smallCores cs) arr)"
proof (intro conjI impI)
  let ?key = "\<lambda>x. js_num (ur_tid x)"
  have sums: "sum_list (map f us) = sum_list (map (\<lambda>e. f (snd e)) (group_all ?key (usage_new cs threadMap processMap) (usage_add cs) arr))"
    if "\<And>a b c u. f (usage_texts a b c u) = f u" for f :: "ThreadCpuUsage \<Rightarrow> int" using that by (simp add: us_def usage_source_def sum_js_object_values comp_def)
  show "list_all (\<lambda>u. tu_total u = tu_big u + tu_mid u + tu_small u) us" using usage_kinds by (simp add: us_def list_all_iff)
  show "sum_list (map tu_total us) = sum_list (map ur_total arr)" using usage_total.sum_group [of ?key] by (simp add: sums comp_def)
  assume "\<forall>x\<in>set arr. listed_once cs (ur_cpu x)"
  then have big: "\<forall>x\<in>set arr. ur_cpu x \<in> set (bigCores cs) \<longleftrightarrow> core_type cs (ur_cpu x) = Core_big" and mid: "\<forall>x\<in>set arr. ur_cpu x \<in> set (midCores cs) \<longleftrightarrow> core_type cs (ur_cpu x) = Core_mid"
    and small: "\<forall>x\<in>set arr. ur_cpu x \<in> set (smallCores cs) \<longleftrightarrow> core_type cs (ur_cpu x) = Core_small" using listed_once_types by blast+
  show "sum_list (map tu_big us) = core_sum (bigCores cs) arr" using usage_big.sum_group [of ?key] core_sum_listed [OF big] by (simp add: sums comp_def)
  show "sum_list (map tu_mid us) = core_sum (midCores cs) arr" using usage_mid.sum_group [of ?key] core_sum_listed [OF mid] by (simp add: sums comp_def)
  show "sum_list (map tu_small us) = core_sum (smallCores cs) arr" using usage_small.sum_group [of ?key] core_sum_listed [OF small] by (simp add: sums comp_def)
qed

text \<open>A processor that is in none of the lists counts as a middle core for its threads, but not for the sum that the percentage refers to: a thread with 10 nanoseconds on a
  middle core and 30 on such a processor is shown with 400.00 percent of the middle cores.\<close>

theorem unlisted_core_percent:
  "map tu_midPercent (usage_source \<lparr>bigCores = [], midCores = [1], smallCores = []\<rparr> Map.empty Map.empty
     [\<lparr>ur_cpu = 1, ur_pid = 5, ur_tid = 7, ur_total = 10\<rparr>, \<lparr>ur_cpu = 2, ur_pid = 5, ur_tid = 7, ur_total = 30\<rparr>]) = [js ''400.00'']"
proof -
  have "round_up 40000 = 40000" using round_up_whole [of 40000] by simp
  then have ratio: "ratio_text 40 10 = js ''400.00''" by (simp add: ratio_text_def toFixed_def fixed_text_def pad_zeros_def nat_digits.simps js_def)
  show ?thesis
    by (simp add: usage_source_def usage_texts_def percent_def ratio core_sum_def group_all_def group_step_def usage_new_def usage_add_def on_core_def core_type_def js_object_values_def)
qed

section \<open>Concrete instances\<close>

definition demo_freqs :: measure_map where
  "demo_freqs = [(0, [\<lparr>cm_cpu = 0, cm_value = 7, cm_ts = 0, cm_dur = 10\<rparr>, \<lparr>cm_cpu = 0, cm_value = 9, cm_ts = 10, cm_dur = 30\<rparr>])]"

theorem thread_freq_total_witness:
  "sum_list (map tq_time (handlerThreadFreqData demo_freqs [\<lparr>tr_cpu = 0, tr_ts = 4, tr_dur = 20\<rparr>, \<lparr>tr_cpu = 0, tr_ts = 30, tr_dur = 5\<rparr>])) = 25"
proof -
  have "\<forall>it\<in>set [\<lparr>tr_cpu = 0, tr_ts = 4, tr_dur = 20\<rparr>, \<lparr>tr_cpu = 0, tr_ts = 30, tr_dur = 5\<rparr>].
      tiles (entries_of demo_freqs (tr_cpu it)) 0 40 \<and> 0 < tr_dur it \<and> 0 \<le> tr_ts it \<and> tr_ts it + tr_dur it \<le> 40"
    by (simp add: demo_freqs_def entries_of_def)
  from thread_freq_total [OF this] show ?thesis by simp
qed

theorem freq_thread_times_witness:
  "\<exists>r. handlerFreqThreadData Map.empty Map.empty demo_freqs 0 9 [\<lparr>ft_pid = 1, ft_tid = 2, ft_dur = 8, ft_ts = 5\<rparr>] = [r] \<and> fq_dur r = 3"
proof -
  let ?arr = "[\<lparr>ft_pid = 1, ft_tid = 2, ft_dur = 8, ft_ts = 5\<rparr>]"
  have ok: "\<forall>it\<in>set (entries_of [(0, [\<lparr>cm_cpu = 0, cm_value = 9, cm_ts = 10, cm_dur = 30\<rparr>])] 0). \<forall>tf\<in>set ?arr. meets it tf \<longrightarrow> ft_ts tf + ft_dur tf \<le> cm_ts it + cm_dur it"
    by (simp add: entries_of_def)
  have "\<exists>r. handlerFreqThreadData Map.empty Map.empty [(0, [\<lparr>cm_cpu = 0, cm_value = 9, cm_ts = 10, cm_dur = 30\<rparr>])] 0 9 ?arr = [r] \<and> fq_tid r = 2"
    by (simp add: handlerFreqThreadData_def entries_of_def freq_thread_parts_def meets_def group_all_def group_step_def freq_row_new_def js_values_def Let_def)
  then obtain r where r: "handlerFreqThreadData Map.empty Map.empty [(0, [\<lparr>cm_cpu = 0, cm_value = 9, cm_ts = 10, cm_dur = 30\<rparr>])] 0 9 ?arr = [r]" "fq_tid r = 2" by blast
  have "fq_dur r = 3" using freq_thread_times [OF ok, of r Map.empty Map.empty 9] r by (simp add: entries_of_def)
  moreover have "handlerFreqThreadData Map.empty Map.empty demo_freqs 0 9 ?arr = [r]" using r(1) by (simp add: demo_freqs_def handlerFreqThreadData_def entries_of_def)
  ultimately show ?thesis by blast
qed

theorem core_usage_witness:
  "sum_list (map tu_big (usage_source \<lparr>bigCores = [4], midCores = [1], smallCores = [0]\<rparr> Map.empty Map.empty
     [\<lparr>ur_cpu = 4, ur_pid = 5, ur_tid = 7, ur_total = 10\<rparr>, \<lparr>ur_cpu = 0, ur_pid = 5, ur_tid = 7, ur_total = 30\<rparr>])) = 10"
proof -
  let ?cs = "\<lparr>bigCores = [4], midCores = [1], smallCores = [0]\<rparr>" and ?arr = "[\<lparr>ur_cpu = 4, ur_pid = 5, ur_tid = 7, ur_total = 10\<rparr>, \<lparr>ur_cpu = 0, ur_pid = 5, ur_tid = 7, ur_total = 30\<rparr>]"
  have "\<forall>x\<in>set ?arr. listed_once ?cs (ur_cpu x)" by (simp add: listed_once_def)
  then show ?thesis using core_usage [of ?cs Map.empty Map.empty ?arr] by (simp add: core_sum_def)
qed

end
