(* ===== verification/Sched_Worker.thy ===== *)
theory Sched_Worker
  imports Sched_Threads
begin

text \<open>
  The scheduling worker: its state and its messages
  (\<open>trace/database/logic-worker/ProcedureLogicWorkerSchedulingAnalysis.ts\<close>).

  A message asks for a table or carries the rows of an answer. The texts of the queries are represented by the name of the query and the number that it contains. A message can also
  carry the end and the length of the trace; a zero end is not a new range.
\<close>

section \<open>State\<close>

record SchedState =
  sd_event :: jsstring
  sd_endTs :: int
  sd_startTs :: int
  sd_totalDur :: int
  sd_cpu :: int
  sd_freq :: int
  sd_cores :: Cores
  sd_freqs :: measure_map
  sd_idle0 :: measure_map
  sd_threads :: name_map
  sd_processes :: name_map
  sd_freqTable :: "(int \<times> AnalysisRow list) list option"
  sd_idleTable :: "(int \<times> AnalysisRow list) list option"
  sd_irqTable :: "(int \<times> IrqRow list) list option"

definition no_cores :: Cores where
  "no_cores = \<lparr>bigCores = [], midCores = [], smallCores = []\<rparr>"

definition sched_initial :: SchedState where
  "sched_initial = \<lparr>sd_event = [], sd_endTs = 0, sd_startTs = 0, sd_totalDur = 0, sd_cpu = 0, sd_freq = 0, sd_cores = no_cores, sd_freqs = [], sd_idle0 = [], sd_threads = Map.empty,
     sd_processes = Map.empty, sd_freqTable = None, sd_idleTable = None, sd_irqTable = None\<rparr>"

definition sched_clearAll :: "SchedState \<Rightarrow> SchedState" where
  "sched_clearAll s = s\<lparr>sd_cores := no_cores, sd_freqTable := None, sd_idleTable := None, sd_irqTable := None, sd_threads := Map.empty, sd_processes := Map.empty, sd_freqs := [], sd_idle0 := []\<rparr>"

section \<open>Rows that are only named\<close>

record RunTimeRow =
  rt_no :: int
  rt_tid :: int
  rt_cpu :: int
  rt_timestamp :: int
  rt_pid :: int
  rt_maxDuration :: int

record SwitchRow =
  sw_no :: int
  sw_switchCount :: int
  sw_tid :: int
  sw_pid :: int

record NameRow =
  nr_id :: int
  nr_name :: jsstring
  nr_type :: jsstring

definition handleProcessThread :: "NameRow list \<Rightarrow> name_map \<times> name_map" where
  "handleProcessThread arr = fold (\<lambda>pt (ps, ts). if nr_type pt = js ''p'' then (ps(nr_id pt \<mapsto> nr_name pt), ts) else (ps, ts(nr_id pt \<mapsto> nr_name pt))) arr (Map.empty, Map.empty)"

datatype SchedResult =
    SEmpty
  | SUsage "(int \<times> rat) list"
  | SMeasures "(int \<times> AnalysisRow list) list"
  | SFreqThreads "FreqThreadRow list"
  | SIrqs "(int \<times> IrqRow list) list"
  | SCores "(jsstring \<times> ThreadCpuUsage list) list"
  | SRunTimes "(RunTimeRow \<times> jsstring \<times> jsstring \<times> jsstring) list"
  | SCounts "(int \<times> int \<times> int \<times> jsstring) list"
  | SSwitches "(SwitchRow \<times> jsstring \<times> jsstring) list"
  | SThreadFreqs "ThreadFreq list"

datatype SchedOut = SQuery jsstring jsstring "int option" | SPost jsstring jsstring SchedResult

definition run_times :: "SchedState \<Rightarrow> RunTimeRow list \<Rightarrow> (RunTimeRow \<times> jsstring \<times> jsstring \<times> jsstring) list" where
  "run_times s arr = map (\<lambda>it. (it, getProbablyTime (of_int (rt_maxDuration it)), name_or_null (sd_processes s) (rt_pid it), name_or_null (sd_threads s) (rt_tid it))) arr"

definition switches :: "SchedState \<Rightarrow> SwitchRow list \<Rightarrow> (SwitchRow \<times> jsstring \<times> jsstring) list" where
  "switches s arr = map (\<lambda>it. (it, name_or_null (sd_processes s) (sw_pid it), name_or_null (sd_threads s) (sw_tid it))) arr"

section \<open>Messages\<close>

text \<open>Rows of an answer, or a request; \<open>SM_other\<close> has no type or one that the worker does not know, and \<open>SM_noParams\<close> has no parameters, which are read before the type.\<close>

datatype SchedMsg =
    SM_clearData
  | SM_initFreqData "MeasureRow list option"
  | SM_getProcessAndThread "NameRow list option"
  | SM_getCpuIdle0 "MeasureRow list option"
  | SM_getCpuUsage "(int \<times> rat) list option"
  | SM_cpuFrequency "MeasureRow list option"
  | SM_freqThreads "FreqThread list"
  | SM_queryFreqThreads int int
  | SM_cpuIdle "MeasureRow list option"
  | SM_cpuIrq "Irq list option"
  | SM_threadCpuUsage "UsageRow list"
  | SM_queryThreadCpuUsage Cores
  | SM_threadRunTime "RunTimeRow list option"
  | SM_processThreadCount "(int \<times> int \<times> int \<times> jsstring) list option"
  | SM_processSwitchCount "SwitchRow list option"
  | SM_threadFreq "ThreadRun list"
  | SM_queryThreadFreq int
  | SM_other
  | SM_noParams

definition set_range :: "(int \<times> int) option \<Rightarrow> SchedState \<Rightarrow> SchedState" where
  "set_range r s = (case r of None \<Rightarrow> s | Some (endTs, tot) \<Rightarrow> if endTs = 0 then s else s\<lparr>sd_endTs := endTs, sd_totalDur := tot, sd_startTs := endTs - tot\<rparr>)"

text \<open>A table is computed once and then answered from the cache.\<close>

definition measure_table :: "bool \<Rightarrow> SchedState \<Rightarrow> MeasureRow list \<Rightarrow> (int \<times> AnalysisRow list) list result" where
  "measure_table isFreq s rows = computeCpuMeasureDur isFreq (sd_startTs s) (sd_totalDur s) (sd_idle0 s) rows"

definition sched_handle :: "jsstring \<Rightarrow> jsstring \<Rightarrow> (int \<times> int) option \<Rightarrow> SchedMsg \<Rightarrow> SchedState \<Rightarrow> (SchedState \<times> SchedOut list) result" where
  "sched_handle eid action r msg s0 =
     (let s = set_range r (s0\<lparr>sd_event := eid\<rparr>); reply = (\<lambda>s1 res. Inr (s1, [SPost eid action res]));
          ask = (\<lambda>nm. Inr (s, [SQuery eid (js nm) None]))
      in case msg of
        SM_clearData \<Rightarrow> reply (sched_clearAll s) SEmpty
      | SM_initFreqData l \<Rightarrow> (case l of None \<Rightarrow> ask ''scheduling-initFreqData''
          | Some rows \<Rightarrow> reply (s\<lparr>sd_freqs := groupFreqByCpu (sd_startTs s) (sd_totalDur s) rows\<rparr>) SEmpty)
      | SM_getProcessAndThread l \<Rightarrow> (case l of None \<Rightarrow> ask ''scheduling-getProcessAndThread''
          | Some rows \<Rightarrow> (let (ps, ts) = handleProcessThread rows in reply (s\<lparr>sd_processes := ps, sd_threads := ts\<rparr>) SEmpty))
      | SM_getCpuIdle0 l \<Rightarrow> (case l of None \<Rightarrow> ask ''scheduling-getCpuIdle0''
          | Some rows \<Rightarrow> reply (s\<lparr>sd_idle0 := handleCPUIdle0Map (sd_startTs s) (sd_totalDur s) rows\<rparr>) SEmpty)
      | SM_getCpuUsage l \<Rightarrow> (case l of None \<Rightarrow> ask ''scheduling-getCpuUsage'' | Some rows \<Rightarrow> reply s (SUsage rows))
      | SM_cpuFrequency l \<Rightarrow>
          (case sd_freqTable s of
             Some t \<Rightarrow> reply s (SMeasures t)
           | None \<Rightarrow> (case l of None \<Rightarrow> ask ''scheduling-CPU Frequency''
               | Some rows \<Rightarrow> bindr (measure_table True s rows) (\<lambda>t. reply (s\<lparr>sd_freqTable := Some t\<rparr>) (SMeasures t))))
      | SM_freqThreads rows \<Rightarrow> reply s (SFreqThreads (handlerFreqThreadData (sd_threads s) (sd_processes s) (sd_freqs s) (sd_cpu s) (sd_freq s) rows))
      | SM_queryFreqThreads cpu freq \<Rightarrow> Inr (s\<lparr>sd_cpu := cpu, sd_freq := freq\<rparr>, [SQuery eid (js ''scheduling-CPU Frequency Thread'') (Some cpu)])
      | SM_cpuIdle l \<Rightarrow>
          (case sd_idleTable s of
             Some t \<Rightarrow> reply s (SMeasures t)
           | None \<Rightarrow> (case l of None \<Rightarrow> ask ''scheduling-CPU Idle''
               | Some rows \<Rightarrow> bindr (measure_table False s rows) (\<lambda>t. reply (s\<lparr>sd_idleTable := Some t\<rparr>) (SMeasures t))))
      | SM_cpuIrq l \<Rightarrow>
          (case sd_irqTable s of
             Some t \<Rightarrow> reply s (SIrqs t)
           | None \<Rightarrow> (case l of None \<Rightarrow> ask ''scheduling-CPU Irq''
               | Some rows \<Rightarrow> (let t = groupIrgDataByCpu rows in reply (s\<lparr>sd_irqTable := Some t\<rparr>) (SIrqs t))))
      | SM_threadCpuUsage rows \<Rightarrow> reply s (SCores (handlerThreadCpuUsageData (sd_cores s) (sd_threads s) (sd_processes s) rows))
      | SM_queryThreadCpuUsage cores \<Rightarrow> Inr (s\<lparr>sd_cores := cores\<rparr>, [SQuery eid (js ''scheduling-Thread CpuUsage'') None])
      | SM_threadRunTime l \<Rightarrow> (case l of None \<Rightarrow> ask ''scheduling-Thread RunTime'' | Some rows \<Rightarrow> reply s (SRunTimes (run_times s rows)))
      | SM_processThreadCount l \<Rightarrow> (case l of None \<Rightarrow> ask ''scheduling-Process ThreadCount'' | Some rows \<Rightarrow> reply s (SCounts rows))
      | SM_processSwitchCount l \<Rightarrow> (case l of None \<Rightarrow> ask ''scheduling-Process SwitchCount'' | Some rows \<Rightarrow> reply s (SSwitches (switches s rows)))
      | SM_threadFreq rows \<Rightarrow> reply s (SThreadFreqs (handlerThreadFreqData (sd_freqs s) rows))
      | SM_queryThreadFreq tid \<Rightarrow> Inr (s, [SQuery eid (js ''scheduling-Thread Freq'') (Some tid)])
      | SM_other \<Rightarrow> Inr (s, [])
      | SM_noParams \<Rightarrow> Inl TypeError)"

fun sched_run :: "jsstring \<Rightarrow> jsstring \<Rightarrow> ((int \<times> int) option \<times> SchedMsg) list \<Rightarrow> SchedState \<Rightarrow> (SchedState \<times> SchedOut list) result" where
  "sched_run eid action [] s = Inr (s, [])"
| "sched_run eid action ((r, msg) # msgs) s =
     bindr (sched_handle eid action r msg s) (\<lambda>(s1, outs). bindr (sched_run eid action msgs s1) (\<lambda>(s2, outs2). Inr (s2, outs @ outs2)))"

section \<open>What the worker promises\<close>

lemma measure_error: "measure_table isFreq s rows = Inl e \<Longrightarrow> e = TypeError"
  by (auto simp: measure_table_def computeCpuMeasureDur_def Let_def cpu_row_def bindr_eq_Inl_iff dest!: map_result_Inl avg_error)

text \<open>C39: every message of a known type is answered by exactly one message, a query or a reply, and a message of another type by none. A message without parameters raises a \<open>TypeError\<close>;
  beside it only the first computation of the tables of frequencies and of idle states can raise one.\<close>

theorem one_answer:
  "case sched_handle eid action r msg s of
     Inr (s', outs) \<Rightarrow> length outs = (if msg = SM_other then 0 else 1)
   | Inl e \<Rightarrow> e = TypeError \<and>
       (msg = SM_noParams \<or> (\<exists>rows. msg = SM_cpuFrequency (Some rows) \<and> sd_freqTable s = None \<or> msg = SM_cpuIdle (Some rows) \<and> sd_idleTable s = None))"
proof -
  have tables: "sd_freqTable (set_range r (s\<lparr>sd_event := eid\<rparr>)) = sd_freqTable s" "sd_idleTable (set_range r (s\<lparr>sd_event := eid\<rparr>)) = sd_idleTable s"
    by (auto simp: set_range_def split: option.split)
  show ?thesis
  proof (cases msg)
    case (SM_cpuFrequency l)
    then show ?thesis using tables by (cases l; cases "sd_freqTable s") (auto simp: sched_handle_def Let_def bindr_eq_Inl_iff bindr_eq_Inr_iff split: sum.split dest: measure_error)
  next
    case (SM_cpuIdle l)
    then show ?thesis using tables by (cases l; cases "sd_idleTable s") (auto simp: sched_handle_def Let_def bindr_eq_Inl_iff bindr_eq_Inr_iff split: sum.split dest: measure_error)
  qed (auto simp: sched_handle_def Let_def split: option.split prod.split)
qed

text \<open>The table of frequencies depends on the order of the messages: asked for before the idle states have been loaded it is empty, since no time counts as effective, and it stays
  empty after they have been loaded, until the data is cleared.\<close>

theorem frequencies_before_idle:
  "map_sum id snd (sched_run eid action [(r, SM_clearData), (None, SM_cpuFrequency (Some rows)), (None, SM_getCpuIdle0 (Some idle)), (None, SM_cpuFrequency (Some rows))] s) =
   Inr [SPost eid action SEmpty, SPost eid action (SMeasures []), SPost eid action SEmpty, SPost eid action (SMeasures [])]"
proof -
  have "counted_measures True startTs totalDur [] rows = []" for startTs totalDur by (simp add: counted_measures_def getEffectiveFrequencyDur_def entries_of_def Let_def)
  then have "computeCpuMeasureDur True startTs totalDur [] rows = Inr []" for startTs totalDur by (simp add: computeCpuMeasureDur_def group_all_def)
  then show ?thesis by (simp add: sched_handle_def measure_table_def sched_clearAll_def set_range_def Let_def split: option.split)
qed

end
