(* ===== verification/Spec2Isabelle.thy ===== *)
theory Spec2Isabelle
  imports Hdc_Manager Heap_Distance Heap_Dom Heap_Flags Heap_Stale Heap_Interface
    Profiler_Worker Logic_States Native_Worker File_Worker Sched_Worker
begin

text \<open>
  A verification library for the SmartPerf trace IDE (\<open>src/ide/src\<close>, TypeScript). It covers three
  subsystems that carry logic of their own: the device connector, which speaks the HDC protocol over WebUSB
  (\<open>hdc/\<close>); the ArkTS heap analysis, which turns the tables of a heap snapshot into dominators,
  distances, classes, differences, retainers and allocation stacks (\<open>js-heap/\<close>); and the logic workers
  (\<open>trace/database/logic-worker/\<close>), which turn the rows of the trace database into charts, call trees and tables.

  \<^bold>\<open>The language.\<close> \<open>JS_Prelude\<close> models what the sources use of JavaScript: exceptions as values of
  \<open>js_error + 'a\<close>, the 32-bit operators, typed arrays, slices, strings of UTF-16 units, decimal notation and
  stable sorting. The error \<open>Blocked\<close> stands for a computation that has not returned: an awaited promise that
  nothing settles, or fuel that ran out. \<open>JS_Text\<close> holds the UTF-8 encoder and decoder, \<open>JS_Map\<close> the insertion-ordered
  \<open>Map\<close> and the grouping of records under keys, with the locale \<open>additive_group\<close> for totals of groups;
  \<open>Call_Depth\<close> has the locale \<open>call_depth\<close> for recursive functions that follow references: as much depth
  as there are objects decides whether a call returns or overflows the stack.

  \<^bold>\<open>HDC.\<close>
  \<^item> \<open>Hdc_Message\<close> (\<open>message/*.ts\<close>, \<open>common/ConstantType.ts\<close>, \<open>hdcclient/HdcCommand.ts\<close>): the records of the
    wire format, constants and the two fixed heads, with their round trips.
  \<^item> \<open>Hdc_Serialize\<close> (\<open>common/Serialize.ts\<close>): the protobuf-like serialiser and its parsers; round trips in the
    range that survives, and what is lost outside it.
  \<^item> \<open>Hdc_Queue\<close> (\<open>hdcclient/AsyncQueue.ts\<close>): both queues; the locale \<open>fifo_queue\<close> is the contract the promise
    queue relies on, interpreted on the array queue.
  \<^item> \<open>Hdc_Transport\<close> (\<open>transmission/*.ts\<close>, \<open>message/DataMessage.ts\<close>): sending a packet and the read loop as a
    state machine over transfer events; the device is a parameter. Sending then receiving is the identity.
  \<^item> \<open>Hdc_Client\<close> (\<open>hdcclient/HdcClient.ts\<close>, \<open>HdcStream.ts\<close>, \<open>FormatCommand.ts\<close>, \<open>common/Utils.ts\<close>): channel
    ids, command lines, connecting, routing of messages to streams.
  \<^item> \<open>Hdc_Manager\<close> (\<open>HdcDeviceManager.ts\<close>): the registry of clients, shell results, disconnecting a device that a command waits for, and file transfer.

  \<^bold>\<open>Heap analysis.\<close> A \<open>HeapLoader\<close> (\<open>logic/HeapLoader.ts\<close>) is a record whose nodes are the list \<open>hl_nodes\<close>; a node
  object is its position, and mutation of a node is an update of that position.
  \<^item> \<open>Heap_Model\<close> (\<open>model/DatabaseStruct.ts\<close>, \<open>model/UiStruct.ts\<close>, \<open>utils/Utils.ts\<close>): nodes, edges and rows, and
    \<open>Uint32Array\<close> writes, which wrap around.
  \<^item> \<open>Heap_Csr\<close>: the compressed tables (count, starts, fill backwards) that retainers and dominated nodes share.
  \<^item> \<open>Heap_Loader\<close>: state, construction, \<open>buildNodeEdge\<close> and \<open>buildRetainers\<close>; \<open>wf_loader\<close> is the
    well-formedness all passes assume. The retainer table holds exactly the incoming edges.
  \<^item> \<open>Heap_Mark\<close>, \<open>Heap_Flags\<close>: reachability and the two marking searches, which mark exactly the reachable nodes.
  \<^item> \<open>Heap_Dom\<close>: \<open>distributeDOMState\<close>, which spreads the attached and then the detached state.
  \<^item> \<open>Heap_Distance\<close>: \<open>calDistances\<close>, whose breadth-first search gives shortest distances.
  \<^item> \<open>Heap_Order\<close>: the iterative post-order of \<open>buildOrderIdxAndDominateTree\<close>, a permutation with the root last.
  \<^item> \<open>Heap_Dominator\<close>: \<open>buildDominatorTree\<close>, \<open>calRetainedSize\<close> and \<open>buildDominatedNode\<close>: what every
    node retains for any order and any dominators, the sum over the nodes below it when dominators come later in the order; the table of dominated
    nodes inverts the tree. \<open>Heap_Stale\<close>: the entries of the tree are nodes, a heap on which the tree is not the dominator tree, since affected nodes
    are marked one level deep only, and one on which a dominator comes too early and a size is lost.
  \<^item> \<open>Heap_Samples\<close>: the timeline samples and their binary search.
  \<^item> \<open>Heap_Diff\<close>, \<open>Heap_Classes\<close>: the comparison of two classes, the class summary and the comparison of snapshots.
  \<^item> \<open>Heap_Rows\<close>: the rows below a row, the retainers view, and clearing.
  \<^item> \<open>Heap_Allocation\<close> (\<open>logic/Allocation.ts\<close>): the bottom-up list, call stacks and callers.
  \<^item> \<open>Heap_Database\<close> (\<open>LoadDatabase.ts\<close>): loading rows into file structs, and the constructor of \<open>HeapLoader\<close>
    with its sequence of passes; loading consistent tables establishes \<open>wf_loader\<close>.
  \<^item> \<open>Heap_Interface\<close> (\<open>HeapDataInterface.ts\<close>, \<open>getChildren\<close> of \<open>UiStruct.ts\<close>): the facade over an explicit store of
    files, a step relation over its operations and its invariant.

  \<^bold>\<open>Logic workers.\<close> A worker receives messages, asks the database for rows, keeps them in its cache and posts results. The
  workers are state-passing handlers whose messages carry the rows of the answers.
  \<^item> \<open>Profiler_Chart\<close>, \<open>Profiler_Tabs\<close>, \<open>Profiler_Statistics\<close>, \<open>Profiler_Worker\<close>
    (\<open>ProcedureLogicWorkerJsCpuProfiler.ts\<close>, \<open>bean/JsStruct.ts\<close>): the ArkTS CPU profiler. The samples are folded into a tree of chart
    frames whose times are balanced; the top-down and the bottom-up table are characterised row by row by the
    paths of the frames; the times per type are exactly those of the selected samples; the handler replies with the chart of the rows.
  \<^item> \<open>Logic_Common\<close> (\<open>ProcedureLogicWorkerCommon.ts\<close>, \<open>ProcedureLogicWorker.ts\<close>): paging, time strings, dispatch.
  \<^item> \<open>Logic_Merge\<close> (\<open>MerageBeanDataSplit\<close> of \<open>ProcedureLogicWorkerCommon.ts\<close>): the filters of a call tree, which count how often a node is
    stored away. Nodes are numbers; the mutable fields of all nodes are the record \<open>MState\<close>.
    \<open>Logic_Search\<close>: the search in such a tree ends, and which nodes it shows.
  \<^item> \<open>Logic_States\<close> (\<open>ProcedureLogicWorkerCpuState.ts\<close>, \<open>ProcedureLogicWorkerSPT.ts\<close>): the gaps between CPU states, and the
    tables of states, processes and threads; the locale \<open>slice_table\<close> is what the two tables share.
  \<^item> \<open>Call_Tree\<close>: merging call chains into trees, the recursion that the workers for file events, perf and native memory share. The locales
    \<open>numbered_tree\<close>, \<open>call_tree\<close>, \<open>weighted_tree\<close> and \<open>timed_tree\<close> state what a worker promises of its nodes: a key that a merge keeps, and weights that a
    merge adds. From these the trees are described path by path. Each worker interprets them on its own nodes.
  \<^item> \<open>Logic_Format\<close> (\<open>ProcedureLogicWorkerCommon.ts\<close>): the texts of times and sizes, rounded to decimals; a text that is read back is close to the time.
  \<^item> \<open>Logic_FileSystem\<close>, \<open>File_Events\<close>, \<open>File_Worker\<close> (\<open>ProcedureLogicWorkerFileSystem.ts\<close>): call chains, the analysis of samples and the call tree; the tables of
    file, memory and disk events; the three handlers and the worker as a state machine over its messages, with the invariant of every tree.
  \<^item> \<open>Perf_Tree\<close>, \<open>Perf_BottomUp\<close>, \<open>Perf_Worker\<close> (\<open>ProcedureLogicWorkerPerf.ts\<close>, \<open>bean/PerfBottomUpStruct.ts\<close>): files, threads and call chains, the call
    tree in both directions, the bottom-up table, and the worker as a state machine over its messages with the invariant of its tree: no message makes a filter
    or a search run without end.
  \<^item> \<open>Native_Chart\<close>, \<open>Native_Statistic\<close>, \<open>Native_Tree\<close>, \<open>Native_Analysis\<close>, \<open>Native_Rows\<close>, \<open>Native_Worker\<close> (\<open>ProcedureLogicWorkerNativeNemory.ts\<close>): native memory. The
    charts show the live bytes of recorded and of sampled traces; the samples of a selection are filtered, grouped and merged into a call tree that is described path by path;
    the analysis marks the allocations that are released; the table is named, filtered and sorted; the worker is a state machine over its messages, with the
    invariant of its tree and the requests that its table answers without a query.
  \<^item> \<open>Sched_Measures\<close>, \<open>Sched_Tables\<close>, \<open>Sched_Threads\<close>, \<open>Sched_Worker\<close> (\<open>ProcedureLogicWorkerSchedulingAnalysis.ts\<close>): scheduling. The effective times of frequencies
    and the table of a processor are those of its measures; the frequencies of a thread and its use of the kinds of cores add up to its running time; averages below a
    microsecond make the table fail; every message of a known type has exactly one answer, any other none.

  \<^bold>\<open>Bounds.\<close> Loops that the code leaves unbounded carry fuel. The searches get one round per node or edge and
  are proved to end with it; the class walk gets one round per node and one for the end; stack and
  caller searches get one level per row, which is proved to decide. The dominator passes get \<open>n * n + 2\<close> rounds,
  enough for every entry to take every value; that they need no more is not proved, and statements about
  the dominator tree are about the trees that are returned. The walk from a profiled function to its root gets a step per
  cached symbol, which is proved to decide. A search in a call tree gets a level per node, which is proved to be enough. Times of perf and the
  quotients that are formatted are exact rationals instead of floating point numbers.

  \<^bold>\<open>Not modelled.\<close> The C++ trace parser, the views and widgets (DOM code), the SQL statements and the drawing
  workers under \<open>trace/database\<close>, the Go server, logging, debug printing (\<open>hdc/common/BaseConversion.ts\<close>,
  \<open>ObjectToMemorySize.ts\<close>). The database, the USB device and the browser's device list are parameters. Of the code that the
  logic workers share the conversion of array buffers (\<open>JSON.parse\<close>) and the format of dates are left.
\<close>

end
